(* ===== verification/Prelude.thy ===== *)
theory Prelude
  imports Main "HOL-Library.Word"
begin

text \<open>
  Shared vocabulary of the development: the machine types of the Rust sources, the result type
  that makes every \<^verbatim>\<open>Err\<close> and every panic a value, checked reads of a byte slice, the
  big-endian integer encodings of \<^verbatim>\<open>to_be_bytes\<close> / \<^verbatim>\<open>from_be_bytes\<close>, a byte stream
  with \<^verbatim>\<open>read_exact\<close>, and the generic list lemmas the component theories share.
\<close>

unbundle bit_operations_syntax

section \<open>Types\<close>

type_synonym u8 = "8 word"
type_synonym u16 = "16 word"
type_synonym u32 = "32 word"
type_synonym u64 = "64 word"
type_synonym u128 = "128 word"
type_synonym bytes = "8 word list"

text \<open>The error kinds of \<^verbatim>\<open>std::io::ErrorKind\<close> that the sources construct, and the
  \<^verbatim>\<open>String\<close> errors of the configuration parsers.\<close>

datatype io_error =
    UnexpectedEof
  | InvalidData
  | InvalidInput
  | PermissionDenied
  | ConfigError string
  | ConnectionReset
  | BrokenPipe
  | NotFound
  | TimedOut
  | Other
  | WriteZero
  | Unsupported

text \<open>\<open>Ok\<close> and \<open>Err\<close> are Rust's \<^verbatim>\<open>Result\<close>; \<open>Panic\<close> is an index or a slice out of range,
  an \<^verbatim>\<open>unwrap\<close> of nothing, or an arithmetic overflow where the code relies on there being none.\<close>

datatype 'a res = Ok 'a | Err io_error | Panic

fun and_then :: "'a res \<Rightarrow> ('a \<Rightarrow> 'b res) \<Rightarrow> 'b res" where
  "and_then (Ok x) f = f x"
| "and_then (Err e) f = Err e"
| "and_then Panic f = Panic"

fun map_res :: "('a \<Rightarrow> 'b) \<Rightarrow> 'a res \<Rightarrow> 'b res" where
  "map_res f (Ok x) = Ok (f x)"
| "map_res f (Err e) = Err e"
| "map_res f Panic = Panic"

fun ok_or :: "io_error \<Rightarrow> 'a option \<Rightarrow> 'a res" where
  "ok_or e None = Err e"
| "ok_or e (Some x) = Ok x"

section \<open>Slices\<close>

text \<open>\<open>byte_at buf i\<close> is \<^verbatim>\<open>buf[i]\<close> and \<open>slice buf a b\<close> is \<^verbatim>\<open>&buf[a..b]\<close>: both panic out of range.\<close>

definition byte_at :: "'a list \<Rightarrow> nat \<Rightarrow> 'a res" where
  "byte_at buf i = (if i < length buf then Ok (buf ! i) else Panic)"

definition slice :: "'a list \<Rightarrow> nat \<Rightarrow> nat \<Rightarrow> 'a list res" where
  "slice buf a b = (if a \<le> b \<and> b \<le> length buf then Ok (take (b - a) (drop a buf)) else Panic)"

definition starts_with :: "'a list \<Rightarrow> 'a list \<Rightarrow> bool" where
  "starts_with buf p \<longleftrightarrow> take (length p) buf = p"

text \<open>\<^verbatim>\<open>slice::chunks\<close>.\<close>

function chunks_of :: "nat \<Rightarrow> 'a list \<Rightarrow> 'a list list" where
  "chunks_of n xs = (if xs = [] \<or> n = 0 then [] else take n xs # chunks_of n (drop n xs))"
  by pat_completeness auto
termination
  by (relation "measure (\<lambda>(n, xs). length xs)") auto

section \<open>Big-endian integers\<close>

definition be16 :: "u8 \<Rightarrow> u8 \<Rightarrow> u16" where
  "be16 a b = push_bit 8 (ucast a) OR ucast b"

definition be16_bytes :: "u16 \<Rightarrow> bytes" where
  "be16_bytes w = [ucast (drop_bit 8 w), ucast w]"

definition be32 :: "u8 \<Rightarrow> u8 \<Rightarrow> u8 \<Rightarrow> u8 \<Rightarrow> u32" where
  "be32 a b c d = push_bit 24 (ucast a) OR push_bit 16 (ucast b) OR push_bit 8 (ucast c) OR ucast d"

definition be32_bytes :: "u32 \<Rightarrow> bytes" where
  "be32_bytes w = [ucast (drop_bit 24 w), ucast (drop_bit 16 w), ucast (drop_bit 8 w), ucast w]"

text \<open>\<open>be16_at buf i\<close> is \<^verbatim>\<open>u16::from_be_bytes([buf[i], buf[i + 1]])\<close>.\<close>

definition be16_at :: "bytes \<Rightarrow> nat \<Rightarrow> u16 res" where
  "be16_at buf i = and_then (byte_at buf i) (\<lambda>a. and_then (byte_at buf (i + 1)) (\<lambda>b. Ok (be16 a b)))"

definition be32_at :: "bytes \<Rightarrow> nat \<Rightarrow> u32 res" where
  "be32_at buf i =
     and_then (byte_at buf i) (\<lambda>a. and_then (byte_at buf (i + 1)) (\<lambda>b.
     and_then (byte_at buf (i + 2)) (\<lambda>c. and_then (byte_at buf (i + 3)) (\<lambda>d. Ok (be32 a b c d)))))"

text \<open>\<^verbatim>\<open>u128::from_be_bytes\<close> on an arbitrary run of bytes, most significant first; the sixteen
  octets of an \<^verbatim>\<open>Ipv6Addr\<close> and the four of an \<^verbatim>\<open>Ipv4Addr\<close> are read with it.\<close>

definition be_word :: "bytes \<Rightarrow> 'l::len word" where
  "be_word bs = foldl (\<lambda>acc b. push_bit 8 acc OR ucast b) 0 bs"

definition octets :: "nat \<Rightarrow> 'l::len word \<Rightarrow> bytes" where
  "octets n w = map (\<lambda>i. ucast (drop_bit (8 * (n - 1 - i)) w)) [0..<n]"

section \<open>Streams\<close>

text \<open>A readable stream is the list of bytes it still holds; \<^verbatim>\<open>read_exact\<close> on too few of them is
  \<^verbatim>\<open>UnexpectedEof\<close>.\<close>

definition read_exact :: "nat \<Rightarrow> bytes \<Rightarrow> (bytes \<times> bytes) res" where
  "read_exact n s = (if n \<le> length s then Ok (take n s, drop n s) else Err UnexpectedEof)"

section \<open>Hash maps\<close>

text \<open>A \<^verbatim>\<open>HashMap\<close> whose size or whose entries matter is an association list with distinct keys; the order
  stands for the unspecified iteration order. \<^verbatim>\<open>get\<close> is \<^const>\<open>map_of\<close>, \<^verbatim>\<open>retain\<close> is \<^const>\<open>filter\<close>.\<close>

definition al_put :: "'k \<Rightarrow> 'v \<Rightarrow> ('k \<times> 'v) list \<Rightarrow> ('k \<times> 'v) list" where
  "al_put k v m = (k, v) # filter (\<lambda>(k', v'). k' \<noteq> k) m"

definition al_del :: "'k \<Rightarrow> ('k \<times> 'v) list \<Rightarrow> ('k \<times> 'v) list" where
  "al_del k m = filter (\<lambda>(k', v'). k' \<noteq> k) m"

definition al_ok :: "('k \<times> 'v) list \<Rightarrow> bool" where
  "al_ok m \<longleftrightarrow> distinct (map fst m)"

section \<open>Lemmas\<close>

text \<open>The collections: \<open>rs_simps\<close> unfolds the checked reads, \<open>wire_simps\<close> the byte encodings.\<close>

named_theorems rs_simps
named_theorems wire_simps

declare chunks_of.simps [simp del]

lemma concat_chunks_of: "0 < n \<Longrightarrow> concat (chunks_of n xs) = xs"
  by (induction n xs rule: chunks_of.induct) (subst chunks_of.simps, simp)

lemma length_chunks_of: "0 < n \<Longrightarrow> length (chunks_of n xs) * n < length xs + n"
proof (induction n xs rule: chunks_of.induct)
  case (1 n xs)
  have "length (chunks_of n (drop n xs)) * n < length xs" if "xs \<noteq> []"
  proof (cases "n \<le> length xs")
    case True
    then show ?thesis using 1 that by simp
  next
    case False
    then have "chunks_of n (drop n xs) = []" by (subst chunks_of.simps) simp
    then show ?thesis using that by simp
  qed
  then show ?case using "1.prems" by (subst chunks_of.simps) simp
qed

lemma chunks_of_bounds: "c \<in> set (chunks_of n xs) \<Longrightarrow> c \<noteq> [] \<and> length c \<le> n"
proof (induction n xs rule: chunks_of.induct)
  case (1 n xs)
  then show ?case by (subst (asm) (2) chunks_of.simps) (auto split: if_splits)
qed

lemma and_then_Ok_iff [simp]: "and_then m f = Ok y \<longleftrightarrow> (\<exists>x. m = Ok x \<and> f x = Ok y)"
  by (cases m) auto

lemma and_then_Panic_iff: "and_then m f = Panic \<longleftrightarrow> m = Panic \<or> (\<exists>x. m = Ok x \<and> f x = Panic)"
  by (cases m) auto

lemma and_then_assoc: "and_then (and_then m f) g = and_then m (\<lambda>x. and_then (f x) g)"
  by (cases m) auto

lemma and_then_cong [fundef_cong]:
  "m = m' \<Longrightarrow> (\<And>x. m' = Ok x \<Longrightarrow> f x = f' x) \<Longrightarrow> and_then m f = and_then m' f'"
  by (cases m') auto

lemma map_res_Ok_iff [simp]: "map_res f m = Ok y \<longleftrightarrow> (\<exists>x. m = Ok x \<and> y = f x)"
  by (cases m) auto

lemma map_res_Panic_iff [simp]: "map_res f m = Panic \<longleftrightarrow> m = Panic"
  by (cases m) auto

lemma map_res_Err_iff [simp]: "map_res f m = Err e \<longleftrightarrow> m = Err e"
  by (cases m) auto

lemma ok_or_not_Panic [simp]: "ok_or e v \<noteq> Panic"
  by (cases v) auto

lemma byte_at_Ok [rs_simps]: "i < length buf \<Longrightarrow> byte_at buf i = Ok (buf ! i)"
  by (simp add: byte_at_def)

lemma slice_Ok [rs_simps]: "a \<le> b \<Longrightarrow> b \<le> length buf \<Longrightarrow> slice buf a b = Ok (take (b - a) (drop a buf))"
  by (simp add: slice_def)

lemma be16_at_Ok [rs_simps]: "i + 1 < length buf \<Longrightarrow> be16_at buf i = Ok (be16 (buf ! i) (buf ! (i + 1)))"
  by (simp add: be16_at_def byte_at_def)

lemma be32_at_Ok [rs_simps]:
  "i + 3 < length buf \<Longrightarrow>
     be32_at buf i = Ok (be32 (buf ! i) (buf ! (i + 1)) (buf ! (i + 2)) (buf ! (i + 3)))"
  by (simp add: be32_at_def byte_at_def)

lemma read_exact_Ok_iff [simp]:
  "read_exact n s = Ok (a, r) \<longleftrightarrow> n \<le> length s \<and> a = take n s \<and> r = drop n s"
  by (auto simp: read_exact_def)

lemma read_exact_append [simp]: "n = length a \<Longrightarrow> read_exact n (a @ r) = Ok (a, r)"
  by (simp add: read_exact_def)

lemma read_exact_not_Panic [simp]: "read_exact n s \<noteq> Panic"
  by (simp add: read_exact_def)

lemma starts_with_append [simp]: "starts_with (p @ xs) p"
  by (simp add: starts_with_def)

lemma starts_with_iff: "starts_with xs p \<longleftrightarrow> (\<exists>ys. xs = p @ ys)"
  unfolding starts_with_def by (metis append_eq_conv_conj append_take_drop_id)

lemma length_be16_bytes [simp]: "length (be16_bytes w) = 2"
  by (simp add: be16_bytes_def)

lemma length_be32_bytes [simp]: "length (be32_bytes w) = 4"
  by (simp add: be32_bytes_def)

lemma length_octets [simp]: "length (octets n w) = n"
  by (simp add: octets_def)

text \<open>Reading back what was written.\<close>

lemma be16_inverse [wire_simps, simp]: "be16 (ucast (drop_bit 8 w)) (ucast (w :: u16)) = w"
  by (rule bit_word_eqI)
    (auto simp: be16_def bit_or_iff bit_push_bit_iff bit_ucast_iff bit_drop_bit_eq)

lemma be32_inverse [wire_simps, simp]:
  "be32 (ucast (drop_bit 24 w)) (ucast (drop_bit 16 w)) (ucast (drop_bit 8 w)) (ucast (w :: u32)) = w"
proof (rule bit_word_eqI)
  fix n assume "n < LENGTH(32)"
  then consider "n < 8" | "8 \<le> n \<and> n < 16" | "16 \<le> n \<and> n < 24" | "24 \<le> n \<and> n < 32"
    by fastforce
  then show "bit (be32 (ucast (drop_bit 24 w)) (ucast (drop_bit 16 w)) (ucast (drop_bit 8 w)) (ucast w)) n
      = bit w n"
    by cases (auto simp: be32_def bit_or_iff bit_push_bit_iff bit_ucast_iff bit_drop_bit_eq)
qed

lemma be16_components:
  "ucast (drop_bit 8 (be16 a b)) = a" "ucast (be16 a b) = b"
  by (rule bit_word_eqI;
      auto simp: be16_def bit_or_iff bit_push_bit_iff bit_ucast_iff bit_drop_bit_eq
        dest: bit_imp_le_length)+

lemma be16_bytes_be16 [wire_simps, simp]: "be16_bytes (be16 a b) = [a, b]"
  by (simp add: be16_bytes_def be16_components)

lemma be16_at_append [wire_simps]: "i = length xs \<Longrightarrow> be16_at (xs @ be16_bytes w @ ys) i = Ok w"
  by (simp add: be16_at_def byte_at_def be16_bytes_def nth_append)

lemma be_word_snoc [wire_simps]: "be_word (bs @ [b]) = push_bit 8 (be_word bs) OR ucast b"
  by (simp add: be_word_def)

lemma octets_Suc: "octets (Suc n) (w :: 'l::len word) = octets n (drop_bit 8 w) @ [ucast w]"
proof -
  have "8 * (n - i) = 8 * (n - Suc i) + 8" if "i < n" for i :: nat using that by simp
  then show ?thesis by (simp add: octets_def)
qed

lemma be_word_octets: "be_word (octets n (w :: 'l::len word)) = take_bit (8 * n) w"
proof (induction n arbitrary: w)
  case 0
  then show ?case by (simp add: octets_def be_word_def)
next
  case (Suc n)
  show ?case
    by (rule bit_word_eqI)
      (auto simp: octets_Suc be_word_snoc Suc.IH bit_or_iff bit_push_bit_iff bit_take_bit_iff bit_drop_bit_eq bit_ucast_iff
        dest: bit_imp_le_length)
qed

lemma unat_of_nat_u16: "n < 65536 \<Longrightarrow> unat (of_nat n :: u16) = n"
  by (simp add: unat_of_nat take_bit_eq_mod)

lemma unat_of_nat_u8: "n < 256 \<Longrightarrow> unat (of_nat n :: u8) = n"
  by (simp add: unat_of_nat take_bit_eq_mod)

lemma unat_u16_less: "unat (w :: u16) < 65536"
  using unsigned_less [of w] by simp

lemma unat_u8_less: "unat (w :: u8) < 256"
  using unsigned_less [of w] by simp

lemma unat_u32_less: "unat (w :: u32) < 4294967296"
  using unsigned_less [of w] by simp

lemma unat_u8_le: "unat (w :: u8) \<le> 255"
  using unat_u8_less [of w] by simp

lemma unat_u16_le: "unat (w :: u16) \<le> 65535"
  using unat_u16_less [of w] by simp

text \<open>How a count changes when one element of a list is replaced.\<close>

lemma length_filter_update:
  "i < length xs \<Longrightarrow>
     length (filter P (xs[i := y])) + (if P (xs ! i) then 1 else 0)
       = length (filter P xs) + (if P y then 1 else 0)"
proof (induction xs arbitrary: i)
  case Nil
  then show ?case by simp
next
  case (Cons x xs)
  then show ?case by (cases i) (use Cons.IH in \<open>fastforce+\<close>)
qed

lemma in_set_update: "x \<in> set (xs[i := y]) \<Longrightarrow> x = y \<or> x \<in> set xs"
  using set_update_subset_insert [of xs i y] by auto

lemma nth_of_append_eq: "b @ x = d \<Longrightarrow> i < length b \<Longrightarrow> b ! i = d ! i"
  by (auto simp: nth_append)

lemma take_of_append_eq: "b @ x = d \<Longrightarrow> n \<le> length b \<Longrightarrow> take n b = take n d"
  by auto

lemma append_eq_longer:
  assumes "b @ x = e @ y" "length e \<le> length b"
  obtains p where "b = e @ p" "y = p @ x"
proof -
  have "e = take (length e) b" using assms by (metis append_eq_conv_conj take_of_append_eq)
  then have "b = e @ drop (length e) b" by (metis append_take_drop_id)
  moreover from this have "y = drop (length e) b @ x" using assms(1) by (metis append_assoc same_append_eq)
  ultimately show ?thesis using that by blast
qed

text \<open>Association lists.\<close>

lemma map_of_filter_neq: "map_of (filter (\<lambda>(k', v'). k' \<noteq> k) m) j = (if j = k then None else map_of m j)"
  by (induction m) auto

lemma map_of_al_put [simp]: "map_of (al_put k v m) = (map_of m)(k \<mapsto> v)"
  by (rule ext) (simp add: al_put_def map_of_filter_neq)

lemma map_of_al_del [simp]: "map_of (al_del k m) = (map_of m)(k := None)"
  by (rule ext) (simp add: al_del_def map_of_filter_neq)

lemma al_ok_Nil [simp]: "al_ok []"
  by (simp add: al_ok_def)

lemma al_ok_filter [simp]: "al_ok m \<Longrightarrow> al_ok (filter P m)"
  by (simp add: al_ok_def distinct_map_filter)

lemma al_ok_put [simp]: "al_ok m \<Longrightarrow> al_ok (al_put k v m)"
  by (auto simp: al_put_def al_ok_def distinct_map_filter)

lemma al_ok_del [simp]: "al_ok m \<Longrightarrow> al_ok (al_del k m)"
  by (simp add: al_del_def)

lemma al_ok_map [simp]: "al_ok (map (\<lambda>(k, v). (k, f v)) m) = al_ok m"
  by (simp add: al_ok_def o_def case_prod_unfold)

lemma filter_neq_id: "k \<notin> fst ` set m \<Longrightarrow> filter (\<lambda>(k', v'). k' \<noteq> k) m = m"
  by (induction m) auto

lemma length_filter_neq:
  "al_ok m \<Longrightarrow> length (filter (\<lambda>(k', v'). k' \<noteq> k) m) = length m - (if map_of m k = None then 0 else 1)"
proof (induction m)
  case (Cons p m)
  show ?case
  proof (cases "fst p = k")
    case True
    then have "filter (\<lambda>(k', v'). k' \<noteq> k) m = m" using Cons.prems by (intro filter_neq_id) (auto simp: al_ok_def)
    then show ?thesis using True by (cases p) auto
  next
    case False
    moreover have "map_of m k \<noteq> None \<Longrightarrow> 0 < length m" by auto
    ultimately show ?thesis using Cons by (cases p) (auto simp: al_ok_def)
  qed
qed simp

lemma length_al_put:
  "al_ok m \<Longrightarrow> length (al_put k v m) = length m + (if map_of m k = None then 1 else 0)"
proof -
  assume "al_ok m"
  moreover have "map_of m k \<noteq> None \<Longrightarrow> 0 < length m" by auto
  ultimately show ?thesis using length_filter_neq [of m k] by (auto simp: al_put_def)
qed

lemma map_of_filter:
  "al_ok m \<Longrightarrow> map_of (filter P m) k = (case map_of m k of Some v \<Rightarrow> if P (k, v) then Some v else None | None \<Rightarrow> None)"
proof (induction m)
  case (Cons p m)
  have "map_of m (fst p) = None" using Cons.prems by (simp add: al_ok_def map_of_eq_None_iff)
  then show ?case using Cons by (cases p) (auto simp: al_ok_def)
qed simp

end
