(* ===== verification/F64.thy ===== *)
theory F64
  imports Complex_Main
begin

text \<open>
  The \<^verbatim>\<open>f64\<close> arithmetic of the limiters. A floating-point operation is the exact operation on
  rationals followed by a rounding; the locale \<open>f64_round\<close> states what the proofs use of the rounding,
  and it is interpreted on rounding to nearest with 53 significant bits, ties to even (\<open>binary64\<close>: the
  exponent is unbounded, so infinities and subnormals, which the code never reaches, are not modelled),
  and on exact arithmetic.
\<close>

section \<open>Definitions\<close>

definition round_half_even :: "rat \<Rightarrow> int" where
  "round_half_even x =
     (let f = \<lfloor>x\<rfloor>; d = x - of_int f
      in if d < 1 / 2 then f else if d > 1 / 2 then f + 1 else if even f then f else f + 1)"

definition f64_exp :: "rat \<Rightarrow> int" where
  "f64_exp x = \<lfloor>log 2 (real_of_rat \<bar>x\<bar>)\<rfloor>"

definition binary64 :: "rat \<Rightarrow> rat" where
  "binary64 x =
     (if x = 0 then 0
      else let p = 2 powi (f64_exp x - 52) in of_int (round_half_even (x / p)) * p)"

definition exact :: "rat \<Rightarrow> rat" where
  "exact x = x"

section \<open>What the code relies on\<close>

text \<open>Rounding is monotone, idempotent and exact on the integers up to \<open>2^53\<close>.\<close>

locale f64_round =
  fixes rnd :: "rat \<Rightarrow> rat"
  assumes rnd_mono: "x \<le> y \<Longrightarrow> rnd x \<le> rnd y"
    and rnd_idem: "rnd (rnd x) = rnd x"
    and rnd_nat: "n \<le> 2 ^ 53 \<Longrightarrow> rnd (of_nat n) = of_nat n"
begin

lemma rnd_zero [simp]: "rnd 0 = 0"
  using rnd_nat [of 0] by simp

lemma rnd_nonneg: "0 \<le> x \<Longrightarrow> 0 \<le> rnd x"
  using rnd_mono [of 0 x] by simp

end

section \<open>Rounding to 53 bits\<close>

lemma round_half_even_int [simp]: "round_half_even (of_int k) = k"
  by (simp add: round_half_even_def)

lemma round_half_even_bounds: "\<lfloor>x\<rfloor> \<le> round_half_even x \<and> round_half_even x \<le> \<lfloor>x\<rfloor> + 1"
  by (simp add: round_half_even_def Let_def)

lemma round_half_even_mono:
  assumes "x \<le> y"
  shows "round_half_even x \<le> round_half_even y"
proof (cases "\<lfloor>x\<rfloor> = \<lfloor>y\<rfloor>")
  case True
  then show ?thesis using assms by (auto simp: round_half_even_def Let_def)
next
  case False
  then have "\<lfloor>x\<rfloor> + 1 \<le> \<lfloor>y\<rfloor>" using floor_mono [OF assms] by simp
  then show ?thesis using round_half_even_bounds [of x] round_half_even_bounds [of y] by linarith
qed

lemma round_half_even_minus: "round_half_even (- x) = - round_half_even x"
proof (cases "x \<in> \<int>")
  case True
  then obtain k where "x = of_int k" by (auto elim: Ints_cases)
  then show ?thesis using round_half_even_int [of "- k"] by simp
next
  case False
  then have "x \<noteq> of_int \<lfloor>x\<rfloor>" by (metis Ints_of_int)
  then have "\<lceil>x\<rceil> = \<lfloor>x\<rfloor> + 1" by (simp add: ceiling_altdef)
  then have "\<lfloor>- x\<rfloor> = - \<lfloor>x\<rfloor> - 1" by (simp add: floor_minus)
  then show ?thesis by (auto simp: round_half_even_def Let_def)
qed

lemma f64_exp_bounds:
  assumes "0 < x"
  shows "2 powi f64_exp x \<le> x" and "x < 2 powi (f64_exp x + 1)"
proof -
  let ?r = "real_of_rat x"
  have pos: "0 < ?r" using assms by simp
  have conv: "real_of_rat (2 powi k) = 2 powr of_int k" for k
    by (simp add: powr_real_of_int' power_int_def of_rat_power of_rat_divide)
  have e: "f64_exp x = \<lfloor>log 2 ?r\<rfloor>" using assms by (simp add: f64_exp_def)
  have "2 powr of_int (f64_exp x) \<le> 2 powr (log 2 ?r)" by (simp add: e)
  moreover have unlog: "2 powr (log 2 ?r) = ?r" using pos by simp
  ultimately have "real_of_rat (2 powi f64_exp x) \<le> ?r" by (simp only: conv)
  then show "2 powi f64_exp x \<le> x" by (simp only: of_rat_less_eq)
  have "log 2 ?r < of_int (f64_exp x + 1)" unfolding e by linarith
  then have "2 powr (log 2 ?r) < 2 powr of_int (f64_exp x + 1)" by (intro powr_less_mono) simp_all
  then have "?r < real_of_rat (2 powi (f64_exp x + 1))" by (simp only: conv unlog)
  then show "x < 2 powi (f64_exp x + 1)" by (simp only: of_rat_less)
qed

lemma f64_exp_minus [simp]: "f64_exp (- x) = f64_exp x"
  by (simp add: f64_exp_def)

lemma binary64_minus: "binary64 (- x) = - binary64 x"
  using round_half_even_minus by (simp add: binary64_def Let_def)

lemma powi_split: "(2 :: rat) powi (a + of_nat n) = 2 powi a * 2 ^ n"
  by (simp add: power_int_add)

lemma f64_exp_unique:
  assumes "0 < x" and "x < 2 powi k"
  shows "f64_exp x < k"
proof (rule ccontr)
  assume "\<not> f64_exp x < k"
  then have "(2 :: rat) powi k \<le> 2 powi f64_exp x" by (simp add: power_int_increasing)
  then show False using f64_exp_bounds(1) [OF assms(1)] assms(2) by linarith
qed

lemma binary64_range:
  assumes "0 < x"
  shows "2 powi f64_exp x \<le> binary64 x" and "binary64 x \<le> 2 powi (f64_exp x + 1)"
proof -
  define p :: rat where "p = 2 powi (f64_exp x - 52)"
  have p: "0 < p" by (simp add: p_def)
  have lo: "2 powi f64_exp x = of_int (2 ^ 52) * p"
    using powi_split [of "f64_exp x - 52" 52] by (simp add: p_def)
  have hi: "2 powi (f64_exp x + 1) = of_int (2 ^ 53) * p"
    using powi_split [of "f64_exp x - 52" 53] by (simp add: p_def ac_simps)
  have "of_int (2 ^ 52) \<le> x / p" and "x / p \<le> of_int (2 ^ 53)"
    using f64_exp_bounds [OF assms] p lo hi by (simp_all add: field_simps)
  then have "round_half_even (of_int (2 ^ 52)) \<le> round_half_even (x / p)"
    and "round_half_even (x / p) \<le> round_half_even (of_int (2 ^ 53))"
    by (blast intro: round_half_even_mono)+
  then have r: "2 ^ 52 \<le> round_half_even (x / p)" "round_half_even (x / p) \<le> 2 ^ 53"
    by (simp_all only: round_half_even_int)
  have b: "binary64 x = of_int (round_half_even (x / p)) * p"
    using assms by (simp add: binary64_def p_def Let_def)
  from r(1) show "2 powi f64_exp x \<le> binary64 x"
    unfolding lo b using p by (intro mult_right_mono) (simp_all only: of_int_le_iff less_imp_le)
  from r(2) show "binary64 x \<le> 2 powi (f64_exp x + 1)"
    unfolding hi b using p by (intro mult_right_mono) (simp_all only: of_int_le_iff less_imp_le)
qed

lemma binary64_mono_pos:
  assumes "0 < x" and "x \<le> y"
  shows "binary64 x \<le> binary64 y"
proof -
  have y: "0 < y" using assms by simp
  have "x < 2 powi (f64_exp y + 1)" using f64_exp_bounds(2) [OF y] assms(2) by simp
  then have "f64_exp x \<le> f64_exp y" using f64_exp_unique [OF assms(1), of "f64_exp y + 1"] by simp
  then consider "f64_exp x = f64_exp y" | "f64_exp x + 1 \<le> f64_exp y" by linarith
  then show ?thesis
  proof cases
    case 1
    have "x / 2 powi (f64_exp y - 52) \<le> y / 2 powi (f64_exp y - 52)"
      using assms(2) by (intro divide_right_mono) simp_all
    then show ?thesis using 1 assms(1) y
      by (simp add: binary64_def Let_def round_half_even_mono mult_right_mono)
  next
    case 2
    have "binary64 x \<le> 2 powi (f64_exp x + 1)" by (rule binary64_range(2) [OF assms(1)])
    also have "\<dots> \<le> 2 powi f64_exp y" using 2 by (simp add: power_int_increasing)
    also have "\<dots> \<le> binary64 y" by (rule binary64_range(1) [OF y])
    finally show ?thesis .
  qed
qed

lemma binary64_pos: "0 < x \<Longrightarrow> 0 < binary64 x"
  using binary64_range(1) [of x] by (rule less_le_trans [rotated]) simp_all

lemma binary64_mono:
  assumes "x \<le> y"
  shows "binary64 x \<le> binary64 y"
proof -
  have zero: "binary64 0 = 0" by (simp add: binary64_def)
  consider "0 < x" | "x \<le> 0" "0 \<le> y" | "y < 0" by linarith
  then show ?thesis
  proof cases
    case 1
    then show ?thesis using assms by (rule binary64_mono_pos)
  next
    case 2
    have "binary64 x \<le> 0"
      using binary64_pos [of "- x"] 2(1) zero by (cases "x = 0") (simp_all add: binary64_minus)
    moreover have "0 \<le> binary64 y"
      using binary64_pos [of y] 2(2) zero by (cases "y = 0") simp_all
    ultimately show ?thesis by simp
  next
    case 3
    then have "binary64 (- y) \<le> binary64 (- x)" using assms by (intro binary64_mono_pos) simp_all
    then show ?thesis by (simp add: binary64_minus)
  qed
qed

lemma binary64_representable:
  assumes "0 \<le> m" and "m \<le> 2 ^ 53"
  shows "binary64 (of_int m * 2 powi e) = of_int m * 2 powi e"
proof (cases "m = 0")
  case True
  then show ?thesis by (simp add: binary64_def)
next
  case False
  define y :: rat where "y = of_int m * 2 powi e"
  have y: "0 < y" using False assms(1) by (simp add: y_def)
  have "y \<le> 2 powi (e + 53)"
    using assms(2) powi_split [of e 53] by (simp add: y_def mult.commute)
  then have le: "y < 2 powi (e + 54) " using power_int_strict_increasing [of "e + 53" "e + 54" "2 :: rat"] by simp
  then have "f64_exp y \<le> e + 53" using f64_exp_unique [OF y, of "e + 54"] by simp
  then consider "f64_exp y - 52 \<le> e" | "f64_exp y = e + 53" by linarith
  then have "\<exists>k. y / 2 powi (f64_exp y - 52) = of_int k"
  proof cases
    case 1
    define n where "n = nat (e - (f64_exp y - 52))"
    have "e = (f64_exp y - 52) + of_nat n" using 1 by (simp add: n_def)
    then have "2 powi e = 2 powi (f64_exp y - 52) * (2 :: rat) ^ n" using powi_split by metis
    then have "y = of_int (m * 2 ^ n) * 2 powi (f64_exp y - 52)" unfolding y_def by (simp only: of_int_mult of_int_power) (simp add: ac_simps)
    then have "y / 2 powi (f64_exp y - 52) = of_int (m * 2 ^ n)" by (simp add: nonzero_divide_eq_eq)
    then show ?thesis by blast
  next
    case 2
    have "2 powi (e + 53) \<le> y" using f64_exp_bounds(1) [OF y] 2 by simp
    then have "y = 2 powi (e + 53)" using \<open>y \<le> 2 powi (e + 53)\<close> by simp
    then have "y / 2 powi (f64_exp y - 52) = of_int (2 ^ 52)"
      using 2 powi_split [of "e + 1" 52] by (simp add: field_simps)
    then show ?thesis by blast
  qed
  then obtain k where k: "y / 2 powi (f64_exp y - 52) = of_int k" by blast
  then have "binary64 y = of_int k * 2 powi (f64_exp y - 52)"
    using y by (simp add: binary64_def Let_def)
  also have "\<dots> = y" using k [symmetric] by simp
  finally show ?thesis by (simp add: y_def)
qed

lemma binary64_idem: "binary64 (binary64 x) = binary64 x"
proof -
  have pos: "binary64 (binary64 z) = binary64 z" if z: "0 < z" for z
  proof -
    define p :: rat where "p = 2 powi (f64_exp z - 52)"
    define m where "m = round_half_even (z / p)"
    have b: "binary64 z = of_int m * p" using z by (simp add: binary64_def p_def m_def Let_def)
    have p: "0 < p" by (simp add: p_def)
    have "of_int m * p \<le> of_int (2 ^ 53) * p"
      using binary64_range(2) [OF z] powi_split [of "f64_exp z - 52" 53] by (simp add: b p_def ac_simps)
    then have "m \<le> 2 ^ 53" using p by (simp only: mult_le_cancel_right_pos of_int_le_iff)
    moreover have "0 \<le> m" using binary64_pos [OF z] p by (simp add: b zero_less_mult_iff)
    ultimately show ?thesis using binary64_representable [of m "f64_exp z - 52"] by (simp add: b p_def)
  qed
  consider "0 < x" | "x = 0" | "0 < - x" by linarith
  then show ?thesis
    using pos [of x] pos [of "- x"] by cases (simp_all add: binary64_def [of 0] binary64_minus)
qed

interpretation ieee: f64_round binary64
proof
  fix n :: nat
  assume "n \<le> 2 ^ 53"
  then have "int n \<le> 2 ^ 53" by (metis of_nat_le_iff of_nat_numeral of_nat_power)
  then show "binary64 (of_nat n) = of_nat n"
    using binary64_representable [of "int n" 0] by simp
qed (simp_all add: binary64_mono binary64_idem)

interpretation exactly: f64_round exact
  by unfold_locales (simp_all add: exact_def)

end
