(* ===== verification/Rate_Limiter.thy ===== *)
theory Rate_Limiter
  imports Prelude F64
begin

text \<open>
  The token-bucket rate limiter of \<^verbatim>\<open>src/limiter/rate.rs\<close>. A limiter is 32 shards, each a map
  from a user id to the user's bucket. Instants are nanoseconds (\<^typ>\<open>nat\<close>); every operation
  that reads \<^verbatim>\<open>Instant::now()\<close> takes the instant as its argument \<open>now\<close>. The \<^verbatim>\<open>f64\<close> fields are
  rationals: each floating-point operation is the exact operation followed by a rounding \<open>rnd\<close>,
  a parameter of the definitions (theory F64 has what is assumed of it).
  The asynchronous loop of \<^verbatim>\<open>throttle\<close> is one function per turn of the loop (\<open>throttle_turn\<close>), which
  other operations may interleave with, and the loop of a single task over it (\<open>throttle\<close>).
\<close>

section \<open>Buckets\<close>

type_synonym instant = nat

definition NUM_SHARDS :: nat where
  "NUM_SHARDS = 32"

record bucket =
  capacity :: rat
  tokens :: rat
  rate_per_sec :: rat
  last_update :: instant

text \<open>\<^verbatim>\<open>n as f64\<close> for an unsigned integer, and \<^verbatim>\<open>Duration::as_secs_f64\<close> of a number of nanoseconds.\<close>

definition as_f64 :: "(rat \<Rightarrow> rat) \<Rightarrow> nat \<Rightarrow> rat" where
  "as_f64 rnd n = rnd (of_nat n)"

definition as_secs_f64 :: "(rat \<Rightarrow> rat) \<Rightarrow> nat \<Rightarrow> rat" where
  "as_secs_f64 rnd ns = rnd (of_nat ns / 1000000000)"

definition bucket_capacity :: "(rat \<Rightarrow> rat) \<Rightarrow> rat \<Rightarrow> rat" where
  "bucket_capacity rnd rate = max (rnd (rate * 2)) 65536"

definition bucket_new :: "(rat \<Rightarrow> rat) \<Rightarrow> u64 \<Rightarrow> instant \<Rightarrow> bucket" where
  "bucket_new rnd rate_bytes_per_sec now =
     (let rate = as_f64 rnd (unat rate_bytes_per_sec);
          cap = bucket_capacity rnd rate
      in \<lparr>capacity = cap, tokens = cap, rate_per_sec = rate, last_update = now\<rparr>)"

text \<open>\<^verbatim>\<open>duration_since\<close> saturates at zero, as subtraction on \<^typ>\<open>nat\<close> does.\<close>

definition replenish :: "(rat \<Rightarrow> rat) \<Rightarrow> instant \<Rightarrow> bucket \<Rightarrow> bucket" where
  "replenish rnd now b =
     (let elapsed = as_secs_f64 rnd (now - last_update b)
      in b\<lparr>last_update := now,
           tokens := min (rnd (tokens b + rnd (elapsed * rate_per_sec b))) (capacity b)\<rparr>)"

definition try_consume :: "(rat \<Rightarrow> rat) \<Rightarrow> instant \<Rightarrow> nat \<Rightarrow> bucket \<Rightarrow> bucket \<times> bool" where
  "try_consume rnd now amount b =
     (let b1 = replenish rnd now b
      in if tokens b1 \<ge> as_f64 rnd amount
         then (b1\<lparr>tokens := rnd (tokens b1 - as_f64 rnd amount)\<rparr>, True)
         else (b1, False))"

section \<open>The limiter\<close>

text \<open>\<open>notified\<close> counts the calls of \<^verbatim>\<open>changed.notify_waiters()\<close>.\<close>

record rate_limiter =
  shards :: "(u32 \<rightharpoonup> bucket) list"
  notified :: nat

definition rate_limiter_new :: rate_limiter where
  "rate_limiter_new = \<lparr>shards = replicate NUM_SHARDS Map.empty, notified = 0\<rparr>"

definition shard_idx :: "u32 \<Rightarrow> nat" where
  "shard_idx user_id = unat user_id mod NUM_SHARDS"

definition shard_of :: "rate_limiter \<Rightarrow> u32 \<Rightarrow> (u32 \<rightharpoonup> bucket)" where
  "shard_of rl user_id = shards rl ! shard_idx user_id"

definition put_shard :: "u32 \<Rightarrow> (u32 \<rightharpoonup> bucket) \<Rightarrow> rate_limiter \<Rightarrow> rate_limiter" where
  "put_shard user_id m rl = rl\<lparr>shards := (shards rl)[shard_idx user_id := m]\<rparr>"

definition update_bucket :: "(rat \<Rightarrow> rat) \<Rightarrow> u64 \<Rightarrow> instant \<Rightarrow> bucket \<Rightarrow> bucket" where
  "update_bucket rnd bps now b =
     (let b1 = replenish rnd now b;
          rate = as_f64 rnd (unat bps);
          cap = bucket_capacity rnd rate
      in b1\<lparr>rate_per_sec := rate, capacity := cap, tokens := min (tokens b1) cap\<rparr>)"

definition set_user_limit :: "(rat \<Rightarrow> rat) \<Rightarrow> u32 \<Rightarrow> u64 \<Rightarrow> instant \<Rightarrow> rate_limiter \<Rightarrow> rate_limiter" where
  "set_user_limit rnd user_id speed_limit_bps now rl =
     (let shard = shard_of rl user_id;
          shard' = (if speed_limit_bps > 0
                    then shard(user_id \<mapsto> (case shard user_id of
                            Some b \<Rightarrow> update_bucket rnd speed_limit_bps now b
                          | None \<Rightarrow> bucket_new rnd speed_limit_bps now))
                    else shard(user_id := None))
      in (put_shard user_id shard' rl)\<lparr>notified := notified rl + 1\<rparr>)"


definition allow :: "(rat \<Rightarrow> rat) \<Rightarrow> u32 \<Rightarrow> nat \<Rightarrow> instant \<Rightarrow> rate_limiter \<Rightarrow> rate_limiter \<times> bool" where
  "allow rnd user_id n now rl =
     (case shard_of rl user_id user_id of
        Some b \<Rightarrow> (let (b', ok) = try_consume rnd now n b
                   in (put_shard user_id ((shard_of rl user_id)(user_id \<mapsto> b')) rl, ok))
      | None \<Rightarrow> (rl, True))"

text \<open>One turn of the loop in \<^verbatim>\<open>throttle\<close>: leave the loop because the user has no limit, consume a
  chunk and go on, or wait for the returned time (in seconds, before \<^verbatim>\<open>Duration::from_secs_f64\<close>).
  \<^verbatim>\<open>bucket.capacity as usize\<close> truncates.\<close>

datatype turn = Unlimited | Consumed nat | Wait rat

definition throttle_turn ::
    "(rat \<Rightarrow> rat) \<Rightarrow> u32 \<Rightarrow> nat \<Rightarrow> instant \<Rightarrow> rate_limiter \<Rightarrow> rate_limiter \<times> turn" where
  "throttle_turn rnd user_id remaining now rl =
     (case shard_of rl user_id user_id of
        None \<Rightarrow> (rl, Unlimited)
      | Some b \<Rightarrow>
          (let amount = min remaining (nat \<lfloor>capacity b\<rfloor>);
               (b', ok) = try_consume rnd now amount b;
               rl' = put_shard user_id ((shard_of rl user_id)(user_id \<mapsto> b')) rl
           in if ok then (rl', Consumed amount)
              else (rl', Wait (rnd (rnd (as_f64 rnd amount - tokens b') / rate_per_sec b')))))"



definition prune_idle :: "(rat \<Rightarrow> rat) \<Rightarrow> instant \<Rightarrow> rate_limiter \<Rightarrow> rate_limiter" where
  "prune_idle rnd now rl =
     rl\<lparr>shards := map (\<lambda>m. \<lambda>u. map_option (replenish rnd now) (m u)) (shards rl)\<rparr>"

section \<open>Interleaved use\<close>

text \<open>The calls that lock a shard, as one datatype; \<open>granted\<close> is the number of bytes a call let through
  for a limited user.\<close>

datatype rl_op =
    SetUserLimit u32 u64
  | Allow u32 nat
  | ThrottleTurn u32 nat
  | PruneIdle

fun rl_exec :: "(rat \<Rightarrow> rat) \<Rightarrow> rl_op \<Rightarrow> instant \<Rightarrow> rate_limiter \<Rightarrow> rate_limiter" where
  "rl_exec rnd (SetUserLimit u bps) now rl = set_user_limit rnd u bps now rl"
| "rl_exec rnd (Allow u n) now rl = fst (allow rnd u n now rl)"
| "rl_exec rnd (ThrottleTurn u n) now rl = fst (throttle_turn rnd u n now rl)"
| "rl_exec rnd PruneIdle now rl = prune_idle rnd now rl"


fun rl_run :: "(rat \<Rightarrow> rat) \<Rightarrow> (instant \<times> rl_op) list \<Rightarrow> rate_limiter \<Rightarrow> rate_limiter" where
  "rl_run rnd [] rl = rl"
| "rl_run rnd ((t, op) # ops) rl = rl_run rnd ops (rl_exec rnd op t rl)"



fun touches :: "u32 \<Rightarrow> rl_op \<Rightarrow> bool" where
  "touches v (SetUserLimit u bps) = (u = v)"
| "touches v (Allow u n) = (u = v)"
| "touches v (ThrottleTurn u n) = (u = v)"
| "touches v PruneIdle = True"

definition bucket_of :: "rate_limiter \<Rightarrow> u32 \<Rightarrow> bucket option" where
  "bucket_of rl u = shard_of rl u u"

section \<open>Invariant\<close>

definition bucket_ok :: "(rat \<Rightarrow> rat) \<Rightarrow> bucket \<Rightarrow> bool" where
  "bucket_ok rnd b \<longleftrightarrow> 0 \<le> tokens b \<and> tokens b \<le> capacity b \<and> 0 < rate_per_sec b
     \<and> capacity b = bucket_capacity rnd (rate_per_sec b)"

definition limiter_ok :: "(rat \<Rightarrow> rat) \<Rightarrow> rate_limiter \<Rightarrow> bool" where
  "limiter_ok rnd rl \<longleftrightarrow> length (shards rl) = NUM_SHARDS
     \<and> (\<forall>i < NUM_SHARDS. \<forall>u b. (shards rl ! i) u = Some b \<longrightarrow> i = shard_idx u \<and> bucket_ok rnd b)"


section \<open>Every operation keeps the invariant\<close>

context f64_round begin

lemma as_f64_pos: "0 < n \<Longrightarrow> 0 < as_f64 rnd n"
proof -
  assume "0 < n"
  then have "(of_nat 1 :: rat) \<le> of_nat n" by (simp only: of_nat_le_iff)
  then have "rnd (of_nat 1) \<le> rnd (of_nat n)" by (rule rnd_mono)
  then show ?thesis using rnd_nat [of 1] by (simp add: as_f64_def)
qed

lemma as_f64_nonneg: "0 \<le> as_f64 rnd n"
  by (simp add: as_f64_def rnd_nonneg)

lemma capacity_fixed: "rnd (bucket_capacity rnd r) = bucket_capacity rnd r"
  using rnd_nat [of 65536] by (simp add: bucket_capacity_def max_def rnd_idem)

lemma capacity_pos: "65536 \<le> bucket_capacity rnd r"
  by (simp add: bucket_capacity_def)

lemma bucket_new_ok:
  assumes "bps > 0"
  shows "bucket_ok rnd (bucket_new rnd bps now)"
proof -
  have "0 < unat bps" using assms by (simp add: unat_gt_0)
  then show ?thesis
    using capacity_pos [of "as_f64 rnd (unat bps)"] as_f64_pos
    by (simp add: bucket_ok_def bucket_new_def Let_def)
qed

lemma replenish_ok: "bucket_ok rnd b \<Longrightarrow> bucket_ok rnd (replenish rnd now b)"
  by (auto simp: bucket_ok_def replenish_def Let_def as_secs_f64_def rnd_nonneg)

lemma try_consume_ok:
  assumes "bucket_ok rnd b" and "try_consume rnd now n b = (b', ok)"
  shows "bucket_ok rnd b'"
proof -
  let ?b = "replenish rnd now b"
  have ok1: "bucket_ok rnd ?b" using assms(1) by (rule replenish_ok)
  have "rnd (tokens ?b - as_f64 rnd n) \<le> rnd (capacity ?b)"
    using ok1 as_f64_nonneg [of n] by (intro rnd_mono) (simp add: bucket_ok_def)
  also have "rnd (capacity ?b) = capacity ?b"
    using ok1 capacity_fixed by (simp add: bucket_ok_def)
  finally show ?thesis
    using assms(2) ok1 by (auto simp: try_consume_def Let_def bucket_ok_def rnd_nonneg split: if_splits)
qed

lemma update_bucket_ok:
  assumes "bucket_ok rnd b" and "bps > 0"
  shows "bucket_ok rnd (update_bucket rnd bps now b)"
proof -
  have "0 < unat bps" using assms(2) by (simp add: unat_gt_0)
  moreover have "bucket_ok rnd (replenish rnd now b)" using assms(1) by (rule replenish_ok)
  ultimately show ?thesis
    using capacity_pos [of "as_f64 rnd (unat bps)"] as_f64_pos
    by (auto simp: bucket_ok_def update_bucket_def Let_def)
qed

lemma put_shard_ok:
  assumes "limiter_ok rnd rl"
    and "\<And>b. m u = Some b \<Longrightarrow> bucket_ok rnd b"
    and "\<And>v. v \<noteq> u \<Longrightarrow> m v = shard_of rl u v"
  shows "limiter_ok rnd (put_shard u m rl)"
  unfolding limiter_ok_def
proof (intro conjI allI impI)
  show "length (shards (put_shard u m rl)) = NUM_SHARDS"
    using assms(1) by (simp add: put_shard_def limiter_ok_def)
next
  fix i v b
  assume i: "i < NUM_SHARDS" and look: "(shards (put_shard u m rl) ! i) v = Some b"
  have len: "length (shards rl) = NUM_SHARDS" using assms(1) by (simp add: limiter_ok_def)
  consider (own) "i = shard_idx u" "v = u" | (other) "i = shard_idx u" "v \<noteq> u" | (far) "i \<noteq> shard_idx u"
    by blast
  then have "i = shard_idx v \<and> bucket_ok rnd b"
  proof cases
    case own
    then show ?thesis using look i len assms(2) by (simp add: put_shard_def)
  next
    case other
    then have "(shards rl ! i) v = Some b"
      using look i len assms(3) by (simp add: put_shard_def shard_of_def)
    then show ?thesis using assms(1) i by (auto simp: limiter_ok_def)
  next
    case far
    then have "(shards rl ! i) v = Some b" using look by (simp add: put_shard_def)
    then show ?thesis using assms(1) i by (auto simp: limiter_ok_def)
  qed
  then show "i = shard_idx v" and "bucket_ok rnd b" by simp_all
qed

lemma shard_of_ok:
  assumes "limiter_ok rnd rl" and "shard_of rl u v = Some b"
  shows "bucket_ok rnd b"
proof -
  have "shard_idx u < NUM_SHARDS" by (simp add: shard_idx_def NUM_SHARDS_def)
  then show ?thesis using assms by (auto simp: limiter_ok_def shard_of_def)
qed

lemma limiter_new_ok: "limiter_ok rnd rate_limiter_new"
  by (simp add: limiter_ok_def rate_limiter_new_def)

lemma limiter_ok_notified: "limiter_ok rnd (rl\<lparr>notified := n\<rparr>) = limiter_ok rnd rl"
  by (simp add: limiter_ok_def)

lemma set_user_limit_ok: "limiter_ok rnd rl \<Longrightarrow> limiter_ok rnd (set_user_limit rnd u bps now rl)"
  unfolding set_user_limit_def Let_def limiter_ok_notified
  by (rule put_shard_ok)
    (auto simp: bucket_new_ok intro: update_bucket_ok shard_of_ok split: option.splits if_splits)

lemma allow_ok: "limiter_ok rnd rl \<Longrightarrow> limiter_ok rnd (fst (allow rnd u n now rl))"
  by (auto simp: allow_def split: option.splits prod.splits
      intro!: put_shard_ok intro: try_consume_ok shard_of_ok)

lemma throttle_turn_ok: "limiter_ok rnd rl \<Longrightarrow> limiter_ok rnd (fst (throttle_turn rnd u n now rl))"
  by (auto simp: throttle_turn_def Let_def split: option.splits prod.splits
      intro!: put_shard_ok intro: try_consume_ok shard_of_ok)

lemma prune_idle_ok: "limiter_ok rnd rl \<Longrightarrow> limiter_ok rnd (prune_idle rnd now rl)"
  by (auto simp: limiter_ok_def prune_idle_def intro: replenish_ok)

lemma rl_exec_ok: "limiter_ok rnd rl \<Longrightarrow> limiter_ok rnd (rl_exec rnd op now rl)"
  by (cases op) (simp_all add: set_user_limit_ok allow_ok throttle_turn_ok prune_idle_ok)

lemma rl_run_ok: "limiter_ok rnd rl \<Longrightarrow> limiter_ok rnd (rl_run rnd ops rl)"
  by (induction ops arbitrary: rl) (auto simp: rl_exec_ok)

end


section \<open>One user's bucket\<close>

lemma shard_idx_less [simp]: "shard_idx u < NUM_SHARDS"
  by (simp add: shard_idx_def NUM_SHARDS_def)

lemma bucket_of_put_shard:
  assumes "length (shards rl) = NUM_SHARDS"
  shows "bucket_of (put_shard u m rl) v = (if shard_idx v = shard_idx u then m v else bucket_of rl v)"
  using assms by (simp add: bucket_of_def shard_of_def put_shard_def)

lemma bucket_of_put_own:
  assumes "length (shards rl) = NUM_SHARDS"
  shows "bucket_of (put_shard u ((shard_of rl u)(u := w)) rl) v = (if v = u then w else bucket_of rl v)"
  using assms by (simp add: bucket_of_put_shard) (simp add: bucket_of_def shard_of_def)

lemma bucket_of_set_user_limit:
  assumes "length (shards rl) = NUM_SHARDS"
  shows "bucket_of (set_user_limit rnd u bps now rl) v =
    (if v \<noteq> u then bucket_of rl v
     else if bps = 0 then None
     else Some (case bucket_of rl u of Some b \<Rightarrow> update_bucket rnd bps now b | None \<Rightarrow> bucket_new rnd bps now))"
proof -
  have "bucket_of (r\<lparr>notified := n\<rparr>) v = bucket_of r v" for r n
    by (simp add: bucket_of_def shard_of_def)
  then show ?thesis
    using bucket_of_put_own [OF assms, of u _ v]
    by (auto simp: set_user_limit_def Let_def bucket_of_def [of rl u] word_neq_0_conv)
qed

lemma bucket_of_allow:
  assumes "length (shards rl) = NUM_SHARDS"
  shows "bucket_of (fst (allow rnd u n now rl)) v =
    (if v = u then map_option (\<lambda>b. fst (try_consume rnd now n b)) (bucket_of rl u) else bucket_of rl v)"
  using bucket_of_put_own [OF assms, of u _ v]
  by (auto simp: allow_def bucket_of_def [of rl u] split: option.splits prod.splits)

lemma bucket_of_throttle_turn:
  assumes "length (shards rl) = NUM_SHARDS"
  shows "bucket_of (fst (throttle_turn rnd u n now rl)) v =
    (if v = u
     then map_option (\<lambda>b. fst (try_consume rnd now (min n (nat \<lfloor>capacity b\<rfloor>)) b)) (bucket_of rl u)
     else bucket_of rl v)"
  using bucket_of_put_own [OF assms, of u _ v]
  by (auto simp: throttle_turn_def Let_def bucket_of_def [of rl u] split: option.splits prod.splits)

lemma bucket_of_prune_idle:
  assumes "length (shards rl) = NUM_SHARDS"
  shows "bucket_of (prune_idle rnd now rl) v = map_option (replenish rnd now) (bucket_of rl v)"
  using assms by (simp add: prune_idle_def bucket_of_def shard_of_def)

lemmas bucket_of_ops = bucket_of_set_user_limit bucket_of_allow bucket_of_throttle_turn bucket_of_prune_idle

lemma rl_exec_length [simp]: "length (shards (rl_exec rnd op now rl)) = length (shards rl)"
  by (cases op)
    (auto simp: set_user_limit_def allow_def throttle_turn_def prune_idle_def put_shard_def Let_def
      split: option.splits prod.splits)


section \<open>The budget, in exact arithmetic\<close>





section \<open>Waiting ends, in exact arithmetic\<close>








section \<open>Properties\<close>

text \<open>C12: whatever sequence of calls runs on a new limiter, at whatever instants and with binary64
  arithmetic, there are 32 shards, every user's bucket sits in the shard of its user, holds between 0 and
  its capacity tokens, and has a positive rate and the capacity that belongs to it.\<close>

theorem rate_limiter_invariant: "limiter_ok binary64 (rl_run binary64 ops rate_limiter_new)"
  by (rule ieee.rl_run_ok [OF ieee.limiter_new_ok])






text \<open>An operation on one user leaves the bucket of every other user as it is, also of the users
  that share its shard.\<close>

theorem rate_limiter_isolation:
  assumes "limiter_ok rnd rl" and "\<not> touches v op"
  shows "bucket_of (rl_exec rnd op now rl) v = bucket_of rl v"
proof -
  have "length (shards rl) = NUM_SHARDS" using assms(1) by (simp add: limiter_ok_def)
  then show ?thesis using assms(2) by (cases op) (simp_all add: bucket_of_ops)
qed

theorem rate_limiter_isolation_witness:
  "bucket_of (rl_exec exact (Allow 33 10) 9 (set_user_limit exact 1 1000 0 rate_limiter_new)) 1
     = bucket_of (set_user_limit exact 1 1000 0 rate_limiter_new) 1 \<and> shard_idx 33 = shard_idx 1"
  using rate_limiter_isolation [of exact "set_user_limit exact 1 1000 0 rate_limiter_new" 1 "Allow 33 10" 9]
  by (simp add: exactly.set_user_limit_ok exactly.limiter_new_ok shard_idx_def NUM_SHARDS_def)

end
