(* ===== verification/Connection_Limiter.thy ===== *)
theory Connection_Limiter
  imports Prelude
begin

text \<open>
  The connection limiter of \<^verbatim>\<open>src/limiter/connection.rs\<close>, as the threads that share it run it. The
  \<^verbatim>\<open>Arc<AtomicU32>\<close> counters live in a store of addresses, so that two counters of one user would be two
  addresses; \<^verbatim>\<open>active_conns\<close> and \<^verbatim>\<open>max_conns\<close> are association lists with distinct keys. A task is
  somewhere inside \<^verbatim>\<open>try_acquire\<close>, holds a guard, or is idle, and every lock acquisition and every atomic
  operation of \<^verbatim>\<open>try_acquire\<close>, \<^verbatim>\<open>Drop for ConnGuard\<close> and \<^verbatim>\<open>prune_idle\<close> is one step, so all
  interleavings are covered.
\<close>

section \<open>State\<close>

type_synonym addr = nat

text \<open>Where a task is: \<open>Limited u l\<close> has read its limit; \<open>Missing u l\<close> found no counter in the map;
  \<open>Counter u l a\<close> has cloned the \<^verbatim>\<open>Arc\<close> of the counter at \<open>a\<close>; \<open>Loaded u l a cur\<close> is inside the
  compare-exchange loop; \<open>Guard u a\<close> owns a \<^verbatim>\<open>ConnGuard\<close> with a counter and \<open>FreeGuard\<close> one without;
  \<open>Refused\<close> got \<^verbatim>\<open>None\<close>.\<close>

datatype task =
    Idle
  | Limited u32 u32
  | Missing u32 u32
  | Counter u32 u32 addr
  | Loaded u32 u32 addr u32
  | Guard u32 addr
  | FreeGuard
  | Refused

record conn_limiter =
  active_conns :: "(u32 \<times> addr) list"
  max_conns :: "u32 \<rightharpoonup> u32"
  counters :: "addr \<Rightarrow> u32"
  next_addr :: addr
  tasks :: "task list"

definition conn_limiter_new :: "nat \<Rightarrow> conn_limiter" where
  "conn_limiter_new n =
     \<lparr>active_conns = [], max_conns = Map.empty, counters = (\<lambda>_. 0), next_addr = 0, tasks = replicate n Idle\<rparr>"

section \<open>Operations\<close>

definition conn_set_user_limit :: "u32 \<Rightarrow> u32 \<Rightarrow> conn_limiter \<Rightarrow> conn_limiter" where
  "conn_set_user_limit user_id limit s =
     s\<lparr>max_conns := (if limit > 0 then (max_conns s)(user_id \<mapsto> limit) else (max_conns s)(user_id := None))\<rparr>"

definition set_task :: "nat \<Rightarrow> task \<Rightarrow> conn_limiter \<Rightarrow> conn_limiter" where
  "set_task i t s = s\<lparr>tasks := (tasks s)[i := t]\<rparr>"

text \<open>\<^verbatim>\<open>try_acquire\<close>, one definition per atomic step: the read of \<^verbatim>\<open>max_conns\<close>, then\<close>

definition acquire_begin :: "u32 \<Rightarrow> conn_limiter \<Rightarrow> task" where
  "acquire_begin user_id s =
     (case max_conns s user_id of
        Some l \<Rightarrow> if l > 0 then Limited user_id l else FreeGuard
      | None \<Rightarrow> FreeGuard)"

text \<open>the read of \<^verbatim>\<open>active_conns\<close>,\<close>

definition acquire_lookup :: "u32 \<Rightarrow> u32 \<Rightarrow> conn_limiter \<Rightarrow> task" where
  "acquire_lookup user_id limit s =
     (case map_of (active_conns s) user_id of
        Some a \<Rightarrow> Counter user_id limit a
      | None \<Rightarrow> Missing user_id limit)"

text \<open>\<^verbatim>\<open>entry(user_id).or_insert_with(..)\<close> under the write lock,\<close>

definition acquire_create :: "nat \<Rightarrow> u32 \<Rightarrow> u32 \<Rightarrow> conn_limiter \<Rightarrow> conn_limiter" where
  "acquire_create i user_id limit s =
     (case map_of (active_conns s) user_id of
        Some a \<Rightarrow> set_task i (Counter user_id limit a) s
      | None \<Rightarrow>
          (let a = next_addr s
           in set_task i (Counter user_id limit a)
                (s\<lparr>active_conns := (user_id, a) # active_conns s,
                   counters := (counters s)(a := 0), next_addr := Suc a\<rparr>)))"

text \<open>and one turn of the loop: the check of the limit, then \<^verbatim>\<open>compare_exchange_weak\<close>, which may fail
  although the value is the expected one (\<open>spurious\<close>).\<close>

definition acquire_cas :: "nat \<Rightarrow> bool \<Rightarrow> u32 \<Rightarrow> u32 \<Rightarrow> addr \<Rightarrow> u32 \<Rightarrow> conn_limiter \<Rightarrow> conn_limiter" where
  "acquire_cas i spurious user_id limit a cur s =
     (if cur \<ge> limit then set_task i Refused s
      else if counters s a = cur \<and> \<not> spurious
      then set_task i (Guard user_id a) (s\<lparr>counters := (counters s)(a := cur + 1)\<rparr>)
      else set_task i (Loaded user_id limit a (counters s a)) s)"

definition guard_drop :: "nat \<Rightarrow> addr \<Rightarrow> conn_limiter \<Rightarrow> conn_limiter" where
  "guard_drop i a s = set_task i Idle (s\<lparr>counters := (counters s)(a := counters s a - 1)\<rparr>)"

text \<open>A task owns a clone of the \<^verbatim>\<open>Arc\<close> at \<open>a\<close>; \<^verbatim>\<open>Arc::strong_count\<close> is one for the map entry plus
  one for each such task.\<close>

fun owns :: "addr \<Rightarrow> task \<Rightarrow> bool" where
  "owns a (Counter u l b) = (b = a)"
| "owns a (Loaded u l b cur) = (b = a)"
| "owns a (Guard u b) = (b = a)"
| "owns a _ = False"

definition strong_count :: "addr \<Rightarrow> conn_limiter \<Rightarrow> nat" where
  "strong_count a s = 1 + length (filter (owns a) (tasks s))"

definition conn_prune_idle :: "conn_limiter \<Rightarrow> conn_limiter" where
  "conn_prune_idle s =
     s\<lparr>active_conns := filter (\<lambda>(u, a). counters s a > 0 \<or> strong_count a s > 1) (active_conns s)\<rparr>"

definition get_total_active :: "conn_limiter \<Rightarrow> u32" where
  "get_total_active s = sum_list (map (\<lambda>(u, a). counters s a) (active_conns s))"

section \<open>Steps\<close>

datatype conn_action =
    SetLimit u32 u32
  | Begin nat u32
  | Go nat bool
  | DropGuard nat
  | Prune

fun conn_exec :: "conn_action \<Rightarrow> conn_limiter \<Rightarrow> conn_limiter option" where
  "conn_exec (SetLimit u l) s = Some (conn_set_user_limit u l s)"
| "conn_exec (Begin i u) s =
     (if i < length (tasks s) \<and> (tasks s ! i = Idle \<or> tasks s ! i = Refused)
      then Some (set_task i (acquire_begin u s) s) else None)"
| "conn_exec (Go i spurious) s =
     (if i < length (tasks s)
      then (case tasks s ! i of
              Limited u l \<Rightarrow> Some (set_task i (acquire_lookup u l s) s)
            | Missing u l \<Rightarrow> Some (acquire_create i u l s)
            | Counter u l a \<Rightarrow> Some (set_task i (Loaded u l a (counters s a)) s)
            | Loaded u l a cur \<Rightarrow> Some (acquire_cas i spurious u l a cur s)
            | _ \<Rightarrow> None)
      else None)"
| "conn_exec (DropGuard i) s =
     (if i < length (tasks s)
      then (case tasks s ! i of
              Guard u a \<Rightarrow> Some (guard_drop i a s)
            | FreeGuard \<Rightarrow> Some (set_task i Idle s)
            | _ \<Rightarrow> None)
      else None)"
| "conn_exec Prune s = Some (conn_prune_idle s)"

text \<open>The states that \<open>n\<close> tasks can reach while no limit above \<open>L u\<close> is ever set for user \<open>u\<close>.\<close>

fun limit_within :: "(u32 \<Rightarrow> u32) \<Rightarrow> conn_action \<Rightarrow> bool" where
  "limit_within L (SetLimit u l) = (l \<le> L u)"
| "limit_within L _ = True"

inductive conn_reachable :: "nat \<Rightarrow> (u32 \<Rightarrow> u32) \<Rightarrow> conn_limiter \<Rightarrow> bool" for n L where
  start: "conn_reachable n L (conn_limiter_new n)"
| step: "conn_reachable n L s \<Longrightarrow> limit_within L act \<Longrightarrow> conn_exec act s = Some s' \<Longrightarrow> conn_reachable n L s'"

fun conn_run :: "conn_action list \<Rightarrow> conn_limiter \<Rightarrow> conn_limiter option" where
  "conn_run [] s = Some s"
| "conn_run (act # acts) s = Option.bind (conn_exec act s) (conn_run acts)"

definition guards_of :: "u32 \<Rightarrow> conn_limiter \<Rightarrow> nat" where
  "guards_of u s = length (filter (\<lambda>t. case t of Guard v a \<Rightarrow> v = u | _ \<Rightarrow> False) (tasks s))"

definition guards_at :: "addr \<Rightarrow> conn_limiter \<Rightarrow> nat" where
  "guards_at a s = length (filter (\<lambda>t. case t of Guard v b \<Rightarrow> b = a | _ \<Rightarrow> False) (tasks s))"

text \<open>One call of \<^verbatim>\<open>try_acquire\<close> that nothing interleaves with: at most four steps.\<close>

definition try_acquire :: "nat \<Rightarrow> u32 \<Rightarrow> conn_limiter \<Rightarrow> conn_limiter option" where
  "try_acquire i user_id s =
     (case conn_exec (Begin i user_id) s of
        None \<Rightarrow> None
      | Some s1 \<Rightarrow>
          (if tasks s1 ! i = FreeGuard then Some s1
           else Option.bind (conn_exec (Go i False) s1) (\<lambda>s2.
                (case tasks s2 ! i of
                   Missing u l \<Rightarrow> Option.bind (conn_exec (Go i False) s2) (\<lambda>s3.
                     Option.bind (conn_exec (Go i False) s3) (conn_exec (Go i False)))
                 | _ \<Rightarrow> Option.bind (conn_exec (Go i False) s2) (conn_exec (Go i False))))))"


section \<open>Invariant\<close>

fun task_ok :: "(u32 \<Rightarrow> u32) \<Rightarrow> (u32 \<times> addr) list \<Rightarrow> task \<Rightarrow> bool" where
  "task_ok L m (Limited u l) = (l \<le> L u)"
| "task_ok L m (Missing u l) = (l \<le> L u)"
| "task_ok L m (Counter u l a) = (l \<le> L u \<and> (u, a) \<in> set m)"
| "task_ok L m (Loaded u l a cur) = (l \<le> L u \<and> (u, a) \<in> set m)"
| "task_ok L m (Guard u a) = ((u, a) \<in> set m)"
| "task_ok L m _ = True"

definition map_ok :: "conn_limiter \<Rightarrow> bool" where
  "map_ok s \<longleftrightarrow> distinct (map fst (active_conns s)) \<and> distinct (map snd (active_conns s))
     \<and> (\<forall>(u, a) \<in> set (active_conns s). a < next_addr s)"

definition conn_inv :: "(u32 \<Rightarrow> u32) \<Rightarrow> conn_limiter \<Rightarrow> bool" where
  "conn_inv L s \<longleftrightarrow> map_ok s
     \<and> (\<forall>t \<in> set (tasks s). task_ok L (active_conns s) t)
     \<and> (\<forall>u l. max_conns s u = Some l \<longrightarrow> l \<le> L u)
     \<and> (\<forall>(u, a) \<in> set (active_conns s). unat (counters s a) = guards_at a s \<and> counters s a \<le> L u)"

text \<open>Replacing a task by one that holds a guard at the same addresses changes no count.\<close>

abbreviation is_guard_at :: "addr \<Rightarrow> task \<Rightarrow> bool" where
  "is_guard_at a t \<equiv> (case t of Guard v b \<Rightarrow> b = a | _ \<Rightarrow> False)"

lemma guards_at_set_task:
  assumes "i < length (tasks s)"
  shows "guards_at a (set_task i t s) + (if is_guard_at a (tasks s ! i) then 1 else 0)
    = guards_at a s + (if is_guard_at a t then 1 else 0)"
  using length_filter_update [OF assms, of "is_guard_at a" t] by (simp add: guards_at_def set_task_def)

lemma set_task_simps [simp]:
  "active_conns (set_task i t s) = active_conns s" "max_conns (set_task i t s) = max_conns s"
  "counters (set_task i t s) = counters s" "next_addr (set_task i t s) = next_addr s"
  "length (tasks (set_task i t s)) = length (tasks s)"
  by (simp_all add: set_task_def)

lemma conn_inv_set_task:
  assumes inv: "conn_inv L s" and i: "i < length (tasks s)"
    and old: "\<And>a. \<not> is_guard_at a (tasks s ! i)" and new: "\<And>a. \<not> is_guard_at a t"
    and ok: "task_ok L (active_conns s) t"
  shows "conn_inv L (set_task i t s)"
proof -
  have "guards_at a (set_task i t s) = guards_at a s" for a
    using guards_at_set_task [OF i, of a t] old new by simp
  moreover have "task_ok L (active_conns s) t'" if "t' \<in> set (tasks (set_task i t s))" for t'
    using that inv ok by (auto simp: set_task_def conn_inv_def dest: in_set_update)
  ultimately show ?thesis using inv by (simp add: conn_inv_def map_ok_def)
qed

lemma map_of_in: "map_of m k = Some v \<Longrightarrow> (k, v) \<in> set m"
  by (rule map_of_SomeD)

lemma conn_inv_taskD: "conn_inv L s \<Longrightarrow> i < length (tasks s) \<Longrightarrow> task_ok L (active_conns s) (tasks s ! i)"
  by (simp add: conn_inv_def)

lemma conn_inv_set_user_limit: "conn_inv L s \<Longrightarrow> l \<le> L u \<Longrightarrow> conn_inv L (conn_set_user_limit u l s)"
  by (auto simp: conn_inv_def map_ok_def conn_set_user_limit_def guards_at_def)

lemma acquire_begin_ok: "conn_inv L s \<Longrightarrow> task_ok L (active_conns s) (acquire_begin u s)"
  by (auto simp: acquire_begin_def conn_inv_def split: option.split)

lemma acquire_lookup_ok: "l \<le> L u \<Longrightarrow> task_ok L (active_conns s) (acquire_lookup u l s)"
  by (auto simp: acquire_lookup_def map_of_in split: option.split)

lemma task_not_guard:
  "\<not> is_guard_at a (acquire_begin u s)" "\<not> is_guard_at a (acquire_lookup u l s)"
  by (auto simp: acquire_begin_def acquire_lookup_def split: option.split)

lemma task_ok_mono: "task_ok L m t \<Longrightarrow> set m \<subseteq> set m' \<Longrightarrow> task_ok L m' t"
  by (cases t) auto

text \<open>A new counter: no task can hold a guard at an address that was never handed out.\<close>

lemma conn_inv_fresh:
  assumes inv: "conn_inv L s" and none: "map_of (active_conns s) u = None"
  shows "conn_inv L (s\<lparr>active_conns := (u, next_addr s) # active_conns s,
     counters := (counters s)(next_addr s := 0), next_addr := Suc (next_addr s)\<rparr>)" (is "conn_inv L ?s")
proof -
  let ?a = "next_addr s"
  have below: "b < ?a" if "(v, b) \<in> set (active_conns s)" for v b
    using inv that by (auto simp: conn_inv_def map_ok_def)
  have "b < ?a" if "Guard v b \<in> set (tasks s)" for v b
  proof -
    have "task_ok L (active_conns s) (Guard v b)" using inv that unfolding conn_inv_def by blast
    then show ?thesis using below by simp
  qed
  then have "\<not> is_guard_at ?a t" if "t \<in> set (tasks s)" for t
    using that by (cases t) auto
  then have zero: "guards_at ?a s = 0" by (auto simp: guards_at_def filter_empty_conv)
  have same: "guards_at b ?s = guards_at b s" for b by (simp add: guards_at_def)
  have "map_ok ?s"
    using inv none below by (force simp: conn_inv_def map_ok_def map_of_eq_None_iff)
  moreover have "\<forall>t \<in> set (tasks ?s). task_ok L (active_conns ?s) t"
    using inv by (auto simp: conn_inv_def intro: task_ok_mono)
  moreover have "\<forall>(v, b) \<in> set (active_conns ?s). unat (counters ?s b) = guards_at b ?s \<and> counters ?s b \<le> L v"
    using inv zero below by (auto simp: same conn_inv_def)
  ultimately show ?thesis using inv by (simp add: conn_inv_def)
qed

lemma conn_inv_create:
  assumes inv: "conn_inv L s" and i: "i < length (tasks s)" and t: "tasks s ! i = Missing u l"
  shows "conn_inv L (acquire_create i u l s)"
proof (cases "map_of (active_conns s) u")
  case None
  let ?s = "s\<lparr>active_conns := (u, next_addr s) # active_conns s,
     counters := (counters s)(next_addr s := 0), next_addr := Suc (next_addr s)\<rparr>"
  have "l \<le> L u" using conn_inv_taskD [OF inv i] t by simp
  then have "conn_inv L (set_task i (Counter u l (next_addr s)) ?s)"
    using conn_inv_fresh [OF inv None] i t by (intro conn_inv_set_task) simp_all
  then show ?thesis using None by (simp add: acquire_create_def Let_def)
next
  case (Some a)
  then show ?thesis
    using conn_inv_taskD [OF inv i] t
    by (simp add: acquire_create_def) (intro conn_inv_set_task [OF inv i], simp_all add: map_of_in)
qed

text \<open>Taking a guard and giving it back: the count at one address moves with the counter.\<close>

lemma same_addr_same_user:
  "map_ok s \<Longrightarrow> (u, a) \<in> set (active_conns s) \<Longrightarrow> (v, a) \<in> set (active_conns s) \<Longrightarrow> u = v"
  unfolding map_ok_def by (metis distinct_map inj_onD old.prod.inject snd_conv)

lemma same_user_same_addr:
  "map_ok s \<Longrightarrow> (u, a) \<in> set (active_conns s) \<Longrightarrow> (u, b) \<in> set (active_conns s) \<Longrightarrow> a = b"
  unfolding map_ok_def by (meson eq_key_imp_eq_value)

lemma conn_inv_count:
  assumes inv: "conn_inv L s" and i: "i < length (tasks s)" and ua: "(u, a) \<in> set (active_conns s)"
    and ok: "task_ok L (active_conns s) t"
    and other: "\<And>b. b \<noteq> a \<Longrightarrow> is_guard_at b (tasks s ! i) = is_guard_at b t"
    and cnt: "unat c + (if is_guard_at a (tasks s ! i) then 1 else 0)
      = unat (counters s a) + (if is_guard_at a t then 1 else 0)"
    and le: "c \<le> L u"
  shows "conn_inv L (set_task i t (s\<lparr>counters := (counters s)(a := c)\<rparr>))" (is "conn_inv L ?s'")
proof -
  let ?s = "s\<lparr>counters := (counters s)(a := c)\<rparr>"
  have g: "guards_at b ?s' + (if is_guard_at b (tasks s ! i) then 1 else 0)
      = guards_at b s + (if is_guard_at b t then 1 else 0)" for b
    using guards_at_set_task [of i ?s b t] i by (simp add: guards_at_def)
  have a: "unat (counters s a) = guards_at a s" using inv ua by (auto simp: conn_inv_def)
  have "unat (counters ?s' b) = guards_at b ?s' \<and> counters ?s' b \<le> L v"
    if "(v, b) \<in> set (active_conns s)" for v b
  proof (cases "b = a")
    case True
    then have "v = u" using inv ua that by (auto simp: conn_inv_def dest: same_addr_same_user)
    then show ?thesis using True g [of a] a cnt le by (auto split: if_splits)
  next
    case False
    then show ?thesis using g [of b] other [of b] inv that by (auto simp: conn_inv_def split: if_splits)
  qed
  moreover have "\<forall>t' \<in> set (tasks ?s'). task_ok L (active_conns s) t'"
    using inv ok by (auto simp: set_task_def conn_inv_def dest: in_set_update)
  moreover have "map_ok ?s'" and "\<forall>v l. max_conns ?s' v = Some l \<longrightarrow> l \<le> L v"
    using inv by (simp_all add: conn_inv_def map_ok_def)
  moreover have "active_conns ?s' = active_conns s" by simp
  ultimately show ?thesis unfolding conn_inv_def by (simp only:) blast
qed

lemma unat_Suc_less: "(cur :: u32) < limit \<Longrightarrow> unat (cur + 1) = unat cur + 1"
  using unat_u32_less [of limit] by (simp add: word_less_nat_alt unat_word_ariths)

lemma conn_inv_cas:
  assumes inv: "conn_inv L s" and i: "i < length (tasks s)" and t: "tasks s ! i = Loaded u l a cur"
  shows "conn_inv L (acquire_cas i spurious u l a cur s)"
proof -
  have l: "l \<le> L u" and ua: "(u, a) \<in> set (active_conns s)"
    using conn_inv_taskD [OF inv i] t by simp_all
  have "conn_inv L (set_task i (Guard u a) (s\<lparr>counters := (counters s)(a := cur + 1)\<rparr>))"
    if "cur < l" "counters s a = cur"
  proof (rule conn_inv_count [OF inv i ua])
    show "cur + 1 \<le> L u" using that(1) l by (meson inc_le order_trans)
    show "unat (cur + 1) + (if is_guard_at a (tasks s ! i) then 1 else 0)
        = unat (counters s a) + (if is_guard_at a (Guard u a) then 1 else 0)"
      using that t unat_Suc_less by simp
  qed (use t ua in auto)
  moreover have "conn_inv L (set_task i Refused s)" "conn_inv L (set_task i (Loaded u l a (counters s a)) s)"
    using l ua t by (auto intro!: conn_inv_set_task [OF inv i])
  ultimately show ?thesis by (simp add: acquire_cas_def not_le)
qed

lemma conn_inv_drop:
  assumes inv: "conn_inv L s" and i: "i < length (tasks s)" and t: "tasks s ! i = Guard u a"
  shows "conn_inv L (guard_drop i a s)"
proof -
  have ua: "(u, a) \<in> set (active_conns s)" using conn_inv_taskD [OF inv i] t by simp
  then have c: "unat (counters s a) = guards_at a s" "counters s a \<le> L u"
    using inv by (auto simp: conn_inv_def)
  have "0 < guards_at a s"
    using guards_at_set_task [OF i, of a Idle] t by simp
  then have pos: "counters s a \<noteq> 0" using c(1) by auto
  then have un: "unat (counters s a - 1) = unat (counters s a) - 1" by (rule unat_minus_one)
  show ?thesis unfolding guard_drop_def
  proof (rule conn_inv_count [OF inv i ua])
    show "counters s a - 1 \<le> L u" using c(2) un by (simp add: word_le_nat_alt)
    show "unat (counters s a - 1) + (if is_guard_at a (tasks s ! i) then 1 else 0)
        = unat (counters s a) + (if is_guard_at a Idle then 1 else 0)"
      using un \<open>0 < guards_at a s\<close> c(1) t by simp
  qed (use t in auto)
qed

text \<open>Pruning keeps every counter that a task owns a clone of.\<close>

lemma owned_not_pruned:
  assumes "t \<in> set (tasks s)" and "owns a t"
  shows "strong_count a s > 1"
  using assms by (auto simp: strong_count_def filter_empty_conv)

lemma task_ok_prune:
  assumes "t \<in> set (tasks s)" and "task_ok L (active_conns s) t"
  shows "task_ok L (active_conns (conn_prune_idle s)) t"
  by (cases t; use assms owned_not_pruned [OF assms(1)] in \<open>auto simp: conn_prune_idle_def\<close>)

lemma conn_inv_prune: "conn_inv L s \<Longrightarrow> conn_inv L (conn_prune_idle s)"
proof -
  assume inv: "conn_inv L s"
  have "map_ok (conn_prune_idle s)"
    using inv by (auto simp: conn_inv_def map_ok_def conn_prune_idle_def distinct_map_filter)
  moreover have "\<forall>t \<in> set (tasks (conn_prune_idle s)). task_ok L (active_conns (conn_prune_idle s)) t"
    using inv task_ok_prune [of _ s L] by (simp add: conn_inv_def conn_prune_idle_def)
  ultimately show ?thesis using inv by (auto simp: conn_inv_def conn_prune_idle_def guards_at_def)
qed

lemma conn_exec_inv:
  assumes inv: "conn_inv L s" and lim: "limit_within L act" and ex: "conn_exec act s = Some s'"
  shows "conn_inv L s'"
proof (cases act)
  case (SetLimit u l)
  then show ?thesis using inv lim ex conn_inv_set_user_limit by auto
next
  case (Begin i u)
  then show ?thesis
    using ex acquire_begin_ok [OF inv] task_not_guard
    by (auto split: if_splits intro!: conn_inv_set_task [OF inv])
next
  case (Go i spurious)
  then have i: "i < length (tasks s)" using ex by (auto split: if_splits)
  then show ?thesis
    using ex Go conn_inv_taskD [OF inv i] task_not_guard conn_inv_create [OF inv i] conn_inv_cas [OF inv i]
    by (auto split: task.splits intro!: conn_inv_set_task [OF inv i] acquire_lookup_ok)
next
  case (DropGuard i)
  then have i: "i < length (tasks s)" using ex by (auto split: if_splits)
  then show ?thesis
    using ex DropGuard conn_inv_drop [OF inv i]
    by (auto split: task.splits intro!: conn_inv_set_task [OF inv i])
next
  case Prune
  then show ?thesis using inv ex conn_inv_prune by auto
qed

lemma conn_reachable_inv: "conn_reachable n L s \<Longrightarrow> conn_inv L s"
proof (induction rule: conn_reachable.induct)
  case start
  show ?case by (auto simp: conn_inv_def map_ok_def conn_limiter_new_def)
next
  case (step s act s')
  then show ?case by (blast intro: conn_exec_inv)
qed


lemma conn_run_reachable:
  assumes "conn_run acts s = Some s'" and "conn_reachable n L s" and "list_all (limit_within L) acts"
  shows "conn_reachable n L s'"
  using assms
proof (induction acts s rule: conn_run.induct)
  case (1 s)
  then show ?case by simp
next
  case (2 act acts s)
  then show ?case by (cases "conn_exec act s") (auto intro: conn_reachable.step)
qed

section \<open>Counting guards\<close>

lemma guard_in_map: "conn_inv L s \<Longrightarrow> Guard u a \<in> set (tasks s) \<Longrightarrow> (u, a) \<in> set (active_conns s)"
  by (fastforce simp: conn_inv_def)

lemma guards_of_at:
  assumes inv: "conn_inv L s" and ua: "(u, a) \<in> set (active_conns s)"
  shows "guards_of u s = guards_at a s"
proof -
  have "map_ok s" using inv by (simp add: conn_inv_def)
  then have "(v = u) = (b = a)" if "Guard v b \<in> set (tasks s)" for v b
    using guard_in_map [OF inv that] ua same_addr_same_user same_user_same_addr by blast
  then have "filter (\<lambda>t. case t of Guard v b \<Rightarrow> v = u | _ \<Rightarrow> False) (tasks s)
      = filter (is_guard_at a) (tasks s)"
    by (intro filter_cong) (auto split: task.splits)
  then show ?thesis by (simp add: guards_of_def guards_at_def)
qed

lemma guards_of_absent:
  assumes inv: "conn_inv L s" and no: "map_of (active_conns s) u = None"
  shows "guards_of u s = 0"
proof -
  have "u \<notin> fst ` set (active_conns s)" using no by (simp add: map_of_eq_None_iff)
  then have "Guard u a \<notin> set (tasks s)" for a using guard_in_map [OF inv, of u a] by force
  then show ?thesis by (auto simp: guards_of_def filter_empty_conv split: task.splits)
qed

lemma guards_of_le: "conn_inv L s \<Longrightarrow> guards_of u s \<le> unat (L u)"
proof (cases "map_of (active_conns s) u")
  case None
  assume "conn_inv L s"
  then show ?thesis using guards_of_absent None by simp
next
  case (Some a)
  assume inv: "conn_inv L s"
  have ua: "(u, a) \<in> set (active_conns s)" using Some by (rule map_of_in)
  then have "unat (counters s a) = guards_at a s" "counters s a \<le> L u" using inv by (auto simp: conn_inv_def)
  then show ?thesis using guards_of_at [OF inv ua] by (simp add: word_le_nat_alt)
qed

text \<open>The guards of all users, counted address by address.\<close>

fun is_guard :: "task \<Rightarrow> bool" where
  "is_guard (Guard u a) = True"
| "is_guard t = False"

lemma sum_list_one_hot:
  "distinct xs \<Longrightarrow> (\<Sum>x\<leftarrow>xs. if y = x then (1::nat) else 0) = (if y \<in> set xs then 1 else 0)"
  by (induction xs) auto

lemma sum_list_add: "(\<Sum>x\<leftarrow>xs. f x + g x :: nat) = (\<Sum>x\<leftarrow>xs. f x) + (\<Sum>x\<leftarrow>xs. g x)"
  by (induction xs) auto

lemma sum_list_of_nat_snd:
  "(\<Sum>(u, a)\<leftarrow>m. of_nat (f a)) = (of_nat (\<Sum>a\<leftarrow>map snd m. f a) :: u32)"
  by (induction m) auto

lemma guards_by_address:
  assumes "distinct as" and "\<And>u a. Guard u a \<in> set ts \<Longrightarrow> a \<in> set as"
  shows "(\<Sum>a\<leftarrow>as. length (filter (is_guard_at a) ts)) = length (filter is_guard ts)"
  using assms(2)
proof (induction ts)
  case Nil
  then show ?case by simp
next
  case (Cons t ts)
  have "(\<Sum>a\<leftarrow>as. length (filter (is_guard_at a) (t # ts)))
      = (\<Sum>a\<leftarrow>as. (if is_guard_at a t then 1 else 0) + length (filter (is_guard_at a) ts))"
    by (intro arg_cong [where f = sum_list] map_cong) auto
  also have "\<dots> = (\<Sum>a\<leftarrow>as. if is_guard_at a t then 1 else 0) + length (filter is_guard ts)"
    unfolding sum_list_add using Cons by auto
  also have "(\<Sum>a\<leftarrow>as. if is_guard_at a t then 1 else 0) = (if is_guard t then 1 else (0::nat))"
    using Cons.prems assms(1) by (cases t) (auto simp: sum_list_one_hot simp flip: One_nat_def)
  finally show ?case by simp
qed

section \<open>Properties\<close>

text \<open>C2: the limit holds under every interleaving. As long as no limit above \<open>L u\<close> is set for user
  \<open>u\<close>, any number of tasks that acquire, release and prune concurrently never hold more than \<open>L u\<close> counted
  guards of \<open>u\<close> at once.\<close>

theorem conn_limit_never_exceeded:
  assumes "conn_reachable n L s"
  shows "guards_of u s \<le> unat (L u)"
  using conn_reachable_inv [OF assms] by (rule guards_of_le)

theorem conn_limit_never_exceeded_witness:
  "\<exists>s. conn_run [SetLimit 5 1, Begin 0 5, Begin 1 5, Go 0 False, Go 1 False, Go 0 False, Go 1 False,
      Go 0 False, Go 1 False, Go 0 True, Go 1 False, Prune, Go 0 False] (conn_limiter_new 2) = Some s
    \<and> guards_of 5 s = 1 \<and> tasks s ! 0 = Loaded 5 1 0 1 \<and> guards_of 5 s \<le> unat (1 :: u32)"
proof -
  let ?acts = "[SetLimit 5 1, Begin 0 5, Begin 1 5, Go 0 False, Go 1 False, Go 0 False, Go 1 False,
      Go 0 False, Go 1 False, Go 0 True, Go 1 False, Prune, Go 0 False]"
  have e: "map_option (\<lambda>s. (guards_of 5 s, tasks s ! 0)) (conn_run ?acts (conn_limiter_new 2))
      = Some (1, Loaded 5 1 0 1)"
    by code_simp
  then obtain s where s: "conn_run ?acts (conn_limiter_new 2) = Some s" "guards_of 5 s = 1"
      "tasks s ! 0 = Loaded 5 1 0 1"
    by auto
  have "conn_reachable 2 (\<lambda>_. 1) s"
    by (rule conn_run_reachable [OF s(1) conn_reachable.start]) simp
  then have "guards_of 5 s \<le> unat (1 :: u32)" by (rule conn_limit_never_exceeded)
  with s show ?thesis by blast
qed

text \<open>In every reachable state all the guards of a user count on the one counter the map holds for
  the user, however acquiring and pruning interleave, and the counter is exactly their number: it never
  wraps, neither in \<^verbatim>\<open>cur + 1\<close> nor in \<^verbatim>\<open>fetch_sub\<close>.\<close>

theorem conn_counter_is_guard_count:
  assumes "conn_reachable n L s" and "Guard u a \<in> set (tasks s)"
  shows "map_of (active_conns s) u = Some a \<and> unat (counters s a) = guards_of u s"
proof -
  have inv: "conn_inv L s" using assms(1) by (rule conn_reachable_inv)
  have ua: "(u, a) \<in> set (active_conns s)" using inv assms(2) by (rule guard_in_map)
  then have "map_of (active_conns s) u = Some a"
    using inv by (auto simp: conn_inv_def map_ok_def)
  moreover have "unat (counters s a) = guards_at a s" using inv ua by (auto simp: conn_inv_def)
  ultimately show ?thesis using guards_of_at [OF inv ua] by simp
qed

theorem conn_counter_is_guard_count_witness:
  "\<exists>s. conn_run [SetLimit 5 3, Begin 0 5, Go 0 False, Go 0 False, Go 0 False, Go 0 False] (conn_limiter_new 1)
      = Some s \<and> map_of (active_conns s) 5 = Some 0 \<and> unat (counters s 0) = guards_of 5 s"
proof -
  let ?acts = "[SetLimit 5 3, Begin 0 5, Go 0 False, Go 0 False, Go 0 False, Go 0 False]"
  have "map_option tasks (conn_run ?acts (conn_limiter_new 1)) = Some [Guard 5 0]" by code_simp
  then obtain s where s: "conn_run ?acts (conn_limiter_new 1) = Some s" "tasks s = [Guard 5 0]" by auto
  have "conn_reachable 1 (\<lambda>_. 3) s"
    by (rule conn_run_reachable [OF s(1) conn_reachable.start]) simp
  then show ?thesis using conn_counter_is_guard_count [of 1 "\<lambda>_. 3" s 5 0] s by simp
qed

text \<open>\<^verbatim>\<open>get_total_active\<close> is the number of counted guards that exist.\<close>

theorem get_total_active_counts:
  assumes "conn_reachable n L s"
  shows "get_total_active s = of_nat (length (filter is_guard (tasks s)))"
proof -
  have inv: "conn_inv L s" using assms by (rule conn_reachable_inv)
  have c: "counters s a = of_nat (guards_at a s)" if "(u, a) \<in> set (active_conns s)" for u a
  proof -
    have "unat (counters s a) = guards_at a s" using inv that by (auto simp: conn_inv_def)
    then have "of_nat (guards_at a s) = (of_nat (unat (counters s a)) :: u32)" by simp
    then show ?thesis by simp
  qed
  have "get_total_active s = sum_list (map (\<lambda>(u, a). of_nat (guards_at a s)) (active_conns s))"
    unfolding get_total_active_def using c by (intro arg_cong [where f = sum_list] map_cong) auto
  also have "\<dots> = of_nat (\<Sum>a\<leftarrow>map snd (active_conns s). guards_at a s)"
    by (rule sum_list_of_nat_snd)
  also have "(\<Sum>a\<leftarrow>map snd (active_conns s). guards_at a s) = length (filter is_guard (tasks s))"
    unfolding guards_at_def
  proof (rule guards_by_address)
    show "distinct (map snd (active_conns s))" using inv by (simp add: conn_inv_def map_ok_def)
    show "a \<in> set (map snd (active_conns s))" if "Guard u a \<in> set (tasks s)" for u a
      using guard_in_map [OF inv that] by force
  qed
  finally show ?thesis .
qed

theorem get_total_active_counts_witness:
  "\<exists>s. conn_run [SetLimit 5 3, Begin 0 5, Go 0 False, Go 0 False, Go 0 False, Go 0 False] (conn_limiter_new 1)
      = Some s \<and> get_total_active s = 1"
proof -
  let ?acts = "[SetLimit 5 3, Begin 0 5, Go 0 False, Go 0 False, Go 0 False, Go 0 False]"
  have "map_option tasks (conn_run ?acts (conn_limiter_new 1)) = Some [Guard 5 0]" by code_simp
  then obtain s where s: "conn_run ?acts (conn_limiter_new 1) = Some s" "tasks s = [Guard 5 0]" by auto
  have "conn_reachable 1 (\<lambda>_. 3) s"
    by (rule conn_run_reachable [OF s(1) conn_reachable.start]) simp
  then show ?thesis using get_total_active_counts [of 1 "\<lambda>_. 3" s] s by simp
qed

text \<open>\<^verbatim>\<open>try_acquire\<close> that nothing interleaves with decides by the limit: it returns a guard if the
  user has fewer guards than its limit, and \<^verbatim>\<open>None\<close> otherwise.\<close>

theorem try_acquire_decides:
  assumes "conn_reachable n L s" and "i < length (tasks s)" and "tasks s ! i = Idle"
    and "max_conns s u = Some l" and "0 < l"
  shows "\<exists>s'. try_acquire i u s = Some s'
    \<and> (if guards_of u s < unat l then \<exists>a. tasks s' ! i = Guard u a else tasks s' ! i = Refused)"
proof -
  have inv: "conn_inv L s" using assms(1) by (rule conn_reachable_inv)
  show ?thesis
  proof (cases "map_of (active_conns s) u")
    case None
    then show ?thesis
      using assms guards_of_absent [OF inv None]
      by (simp add: try_acquire_def acquire_begin_def acquire_lookup_def acquire_create_def acquire_cas_def
          set_task_def Let_def word_less_nat_alt unat_gt_0)
  next
    case (Some a)
    have "unat (counters s a) = guards_at a s" using inv map_of_in [OF Some] by (auto simp: conn_inv_def)
    then have "guards_of u s = unat (counters s a)" using guards_of_at [OF inv map_of_in [OF Some]] by simp
    then show ?thesis
      using assms Some
      by (simp add: try_acquire_def acquire_begin_def acquire_lookup_def acquire_create_def acquire_cas_def
          set_task_def Let_def word_less_nat_alt word_le_nat_alt)
  qed
qed

theorem try_acquire_decides_witness:
  "\<exists>s'. try_acquire 0 5 (conn_set_user_limit 5 2 (conn_limiter_new 1)) = Some s' \<and> (\<exists>a. tasks s' ! 0 = Guard 5 a)"
proof -
  let ?s = "conn_set_user_limit 5 2 (conn_limiter_new 1)"
  have "conn_reachable 1 (\<lambda>_. 2) ?s"
    by (rule conn_reachable.step [OF conn_reachable.start, where act = "SetLimit 5 2"]) simp_all
  then show ?thesis
    using try_acquire_decides [of 1 "\<lambda>_. 2" ?s 0 5 2]
    by (simp add: conn_set_user_limit_def conn_limiter_new_def guards_of_def)
qed

end
