(* ===== verification/Rust_Str.thy ===== *)
theory Rust_Str
  imports Prelude
begin

text \<open>
  The parts of Rust's \<^verbatim>\<open>str\<close> that the sources use. A Rust string is the list of its bytes, as an
  Isabelle \<^typ>\<open>string\<close>. The methods whose result depends on Unicode tables (\<^verbatim>\<open>trim\<close>,
  \<^verbatim>\<open>to_lowercase\<close>, \<^verbatim>\<open>split_whitespace\<close>) are given on ASCII text, which host names, rule prefixes and
  settings lines are; other bytes are left as they are. UTF-8 validation and \<^verbatim>\<open>from_utf8_lossy\<close> are exact on
  all byte strings.
\<close>

section \<open>Characters\<close>

definition is_ws :: "char \<Rightarrow> bool" where
  "is_ws c \<longleftrightarrow> c = CHR '' '' \<or> (9 \<le> (of_char c :: nat) \<and> (of_char c :: nat) \<le> 13)"

definition ascii_lower :: "char \<Rightarrow> char" where
  "ascii_lower c =
     (let n = of_char c :: nat in if 65 \<le> n \<and> n \<le> 90 then char_of (n + 32) else c)"

definition ascii_upper :: "char \<Rightarrow> char" where
  "ascii_upper c =
     (let n = of_char c :: nat in if 97 \<le> n \<and> n \<le> 122 then char_of (n - 32) else c)"

definition is_digit :: "char \<Rightarrow> bool" where
  "is_digit c \<longleftrightarrow> 48 \<le> (of_char c :: nat) \<and> (of_char c :: nat) \<le> 57"

definition digit_val :: "char \<Rightarrow> nat" where
  "digit_val c = of_char c - 48"

definition digit_char :: "nat \<Rightarrow> char" where
  "digit_char n = char_of (48 + n)"

section \<open>Strings\<close>

definition to_lowercase :: "string \<Rightarrow> string" where
  "to_lowercase s = map ascii_lower s"

definition to_uppercase :: "string \<Rightarrow> string" where
  "to_uppercase s = map ascii_upper s"

definition eq_ignore_ascii_case :: "string \<Rightarrow> string \<Rightarrow> bool" where
  "eq_ignore_ascii_case a b \<longleftrightarrow> map ascii_lower a = map ascii_lower b"

definition trim_start :: "string \<Rightarrow> string" where
  "trim_start s = dropWhile is_ws s"

definition trim_end :: "string \<Rightarrow> string" where
  "trim_end s = rev (dropWhile is_ws (rev s))"

definition trim :: "string \<Rightarrow> string" where
  "trim s = trim_end (trim_start s)"

definition trim_end_matches :: "char \<Rightarrow> string \<Rightarrow> string" where
  "trim_end_matches c s = rev (dropWhile (\<lambda>x. x = c) (rev s))"

definition strip_prefix :: "string \<Rightarrow> string \<Rightarrow> string option" where
  "strip_prefix p s = (if starts_with s p then Some (drop (length p) s) else None)"

text \<open>\<^verbatim>\<open>a.or_else(|| b)\<close>.\<close>

definition or_else :: "'a option \<Rightarrow> 'a option \<Rightarrow> 'a option" where
  "or_else a b = (case a of Some x \<Rightarrow> Some x | None \<Rightarrow> b)"

definition ends_with :: "string \<Rightarrow> string \<Rightarrow> bool" where
  "ends_with s p \<longleftrightarrow> starts_with (rev s) (rev p)"

text \<open>\<^verbatim>\<open>s.contains(p)\<close>, and the windows of a byte slice that equal \<open>p\<close>.\<close>

fun contains_sub :: "'a list \<Rightarrow> 'a list \<Rightarrow> bool" where
  "contains_sub [] p = (p = [])"
| "contains_sub (x # xs) p = (starts_with (x # xs) p \<or> contains_sub xs p)"

fun find_sub :: "'a list \<Rightarrow> 'a list \<Rightarrow> nat option" where
  "find_sub [] p = (if p = [] then Some 0 else None)"
| "find_sub (x # xs) p = (if starts_with (x # xs) p then Some 0 else map_option Suc (find_sub xs p))"

text \<open>\<^verbatim>\<open>s.split(c)\<close>: one piece more than there are separators.\<close>

fun split_char :: "char \<Rightarrow> string \<Rightarrow> string list" where
  "split_char c [] = [[]]"
| "split_char c (x # xs) =
     (if x = c then [] # split_char c xs
      else case split_char c xs of p # ps \<Rightarrow> (x # p) # ps | [] \<Rightarrow> [[x]])"

fun split_once :: "char \<Rightarrow> string \<Rightarrow> (string \<times> string) option" where
  "split_once c [] = None"
| "split_once c (x # xs) =
     (if x = c then Some ([], xs) else map_option (\<lambda>(a, b). (x # a, b)) (split_once c xs))"

text \<open>\<^verbatim>\<open>rfind(':')\<close> with what is before and behind the colon.\<close>

definition rsplit_colon :: "string \<Rightarrow> (string \<times> string) option" where
  "rsplit_colon s = map_option (\<lambda>(b, a). (rev a, rev b)) (split_once (CHR '':'') (rev s))"

text \<open>\<^verbatim>\<open>s.lines()\<close>: split at line feeds, a last empty piece dropped, one carriage return before the line
  feed dropped.\<close>

definition strip_cr :: "string \<Rightarrow> string" where
  "strip_cr l = (if l \<noteq> [] \<and> last l = CHR 0x0D then butlast l else l)"

definition str_lines :: "string \<Rightarrow> string list" where
  "str_lines s =
     (let ps = split_char (CHR 0x0A) s
      in (map strip_cr (butlast ps)) @ (if last ps = [] then [] else [last ps]))"

definition split_whitespace :: "string \<Rightarrow> string list" where
  "split_whitespace s =
     filter (\<lambda>p. p \<noteq> []) (split_char (CHR '' '') (map (\<lambda>c. if is_ws c then CHR '' '' else c) s))"

section \<open>Numbers\<close>

definition digits_val :: "string \<Rightarrow> nat" where
  "digits_val ds = foldl (\<lambda>acc c. acc * 10 + digit_val c) 0 ds"

definition parse_digits :: "nat \<Rightarrow> string \<Rightarrow> nat option" where
  "parse_digits bound ds =
     (if ds \<noteq> [] \<and> list_all is_digit ds \<and> digits_val ds \<le> bound then Some (digits_val ds) else None)"

text \<open>\<^verbatim>\<open>parse::<uN>\<close> with \<open>bound = 2^N - 1\<close>: an optional plus sign, then at least one digit; a value above
  the bound is an error.\<close>

definition parse_uint :: "nat \<Rightarrow> string \<Rightarrow> nat option" where
  "parse_uint bound s =
     (case s of
        c # ds \<Rightarrow> if c = CHR ''+'' then parse_digits bound ds else parse_digits bound s
      | [] \<Rightarrow> None)"

definition parse_u16 :: "string \<Rightarrow> u16 option" where
  "parse_u16 s = map_option of_nat (parse_uint 65535 s)"

definition parse_u32 :: "string \<Rightarrow> u32 option" where
  "parse_u32 s = map_option of_nat (parse_uint 4294967295 s)"

text \<open>\<^verbatim>\<open>parse::<i64>\<close>: a minus sign is accepted too.\<close>

definition parse_i64 :: "string \<Rightarrow> int option" where
  "parse_i64 s =
     (case s of
        c # ds \<Rightarrow> if c = CHR ''-'' then map_option (\<lambda>n. - int n) (parse_digits 9223372036854775808 ds)
                  else map_option int (parse_uint 9223372036854775807 s)
      | [] \<Rightarrow> None)"

fun dec_string :: "nat \<Rightarrow> string" where
  "dec_string n = (if n < 10 then [digit_char n] else dec_string (n div 10) @ [digit_char (n mod 10)])"

section \<open>Bytes and UTF-8\<close>

definition str_bytes :: "string \<Rightarrow> bytes" where
  "str_bytes s = map (\<lambda>c. of_nat (of_char c)) s"

definition bytes_str :: "bytes \<Rightarrow> string" where
  "bytes_str bs = map (\<lambda>b. char_of (unat b)) bs"

text \<open>The first sequence of a byte string as \<^verbatim>\<open>core::str\<close> reads it: \<open>Inl n\<close> is a valid sequence of \<open>n\<close>
  bytes, \<open>Inr n\<close> an invalid one whose maximal prefix has \<open>n\<close> bytes.\<close>

definition is_cont :: "u8 \<Rightarrow> bool" where
  "is_cont b \<longleftrightarrow> 128 \<le> b \<and> b \<le> 191"

definition second_ok :: "u8 \<Rightarrow> u8 \<Rightarrow> bool" where
  "second_ok b c \<longleftrightarrow>
     (if b = 224 then 160 \<le> c \<and> c \<le> 191
      else if b = 237 then 128 \<le> c \<and> c \<le> 159
      else if b = 240 then 144 \<le> c \<and> c \<le> 191
      else if b = 244 then 128 \<le> c \<and> c \<le> 143
      else is_cont c)"

definition seq_width :: "u8 \<Rightarrow> nat" where
  "seq_width b =
     (if b < 128 then 1 else if b < 194 then 0 else if b < 224 then 2 else if b < 240 then 3
      else if b < 245 then 4 else 0)"

definition utf8_step :: "u8 \<Rightarrow> bytes \<Rightarrow> nat + nat" where
  "utf8_step b r =
     (let w = seq_width b
      in if w = 0 then Inr 1
         else if w = 1 then Inl 1
         else case r of
            [] \<Rightarrow> Inr 1
          | c # r1 \<Rightarrow>
             (if \<not> second_ok b c then Inr 1
              else if w = 2 then Inl 2
              else case r1 of
                 [] \<Rightarrow> Inr 2
               | d # r2 \<Rightarrow>
                  (if \<not> is_cont d then Inr 2
                   else if w = 3 then Inl 3
                   else case r2 of [] \<Rightarrow> Inr 3 | e # r3 \<Rightarrow> if is_cont e then Inl 4 else Inr 3)))"

function utf8_valid :: "bytes \<Rightarrow> bool" where
  "utf8_valid [] = True"
| "utf8_valid (b # r) =
     (case utf8_step b r of Inl n \<Rightarrow> utf8_valid (drop (n - 1) r) | Inr n \<Rightarrow> False)"
  by pat_completeness auto
termination
  by (relation "measure length") auto

text \<open>\<^verbatim>\<open>String::from_utf8_lossy\<close>: every invalid sequence becomes U+FFFD, the bytes \<open>EF BF BD\<close>.\<close>

function utf8_lossy :: "bytes \<Rightarrow> bytes" where
  "utf8_lossy [] = []"
| "utf8_lossy (b # r) =
     (case utf8_step b r of
        Inl n \<Rightarrow> b # take (n - 1) r @ utf8_lossy (drop (n - 1) r)
      | Inr n \<Rightarrow> [239, 191, 189] @ utf8_lossy (drop (n - 1) r))"
  by pat_completeness auto
termination
  by (relation "measure length") auto

definition from_utf8 :: "bytes \<Rightarrow> string option" where
  "from_utf8 bs = (if utf8_valid bs then Some (bytes_str bs) else None)"

definition from_utf8_lossy :: "bytes \<Rightarrow> string" where
  "from_utf8_lossy bs = bytes_str (utf8_lossy bs)"

section \<open>Lemmas\<close>

declare dec_string.simps [simp del]

lemma utf8_lossy_valid: "utf8_valid bs \<Longrightarrow> utf8_lossy bs = bs"
proof (induction bs rule: utf8_valid.induct)
  case (2 b r)
  then show ?case
    by (auto split: sum.splits)
qed simp

lemma from_utf8_lossy_valid [simp]: "utf8_valid bs \<Longrightarrow> from_utf8_lossy bs = bytes_str bs"
  by (simp add: from_utf8_lossy_def utf8_lossy_valid)

lemma length_str_bytes [simp]: "length (str_bytes s) = length s"
  by (simp add: str_bytes_def)

lemma length_bytes_str [simp]: "length (bytes_str bs) = length bs"
  by (simp add: bytes_str_def)

lemma bytes_str_str_bytes [simp]: "bytes_str (str_bytes s) = s"
proof -
  have "char_of (unat (of_nat (of_char c) :: u8)) = c" for c
    by (simp add: unat_of_nat take_bit_eq_mod)
  then show ?thesis by (simp add: bytes_str_def str_bytes_def o_def)
qed

lemma str_bytes_bytes_str [simp]: "str_bytes (bytes_str bs) = bs"
proof -
  have "of_nat (of_char (char_of (unat b) :: char)) = b" for b :: u8
    using unat_u8_less [of b] by (simp add: of_char_of take_bit_eq_mod)
  then show ?thesis by (simp add: bytes_str_def str_bytes_def o_def)
qed

lemma bytes_str_inject [simp]: "bytes_str a = bytes_str b \<longleftrightarrow> a = b"
  by (metis str_bytes_bytes_str)

lemma ascii_utf8_valid: "list_all (\<lambda>b. b < 128) bs \<Longrightarrow> utf8_valid bs"
  by (induction bs) (auto simp: utf8_step_def seq_width_def Let_def)

lemma ends_with_iff: "ends_with s p \<longleftrightarrow> (\<exists>q. s = q @ p)"
  unfolding ends_with_def starts_with_iff by (metis rev_append rev_rev_ident)

lemma contains_sub_iff: "contains_sub s p \<longleftrightarrow> (\<exists>a b. s = a @ p @ b)"
proof (induction s p rule: contains_sub.induct)
  case (1 p)
  then show ?case by auto
next
  case (2 x xs p)
  then show ?case
    by (auto simp: starts_with_iff Cons_eq_append_conv)
qed

lemma find_sub_iff_contains: "find_sub s p \<noteq> None \<longleftrightarrow> contains_sub s p"
  by (induction s p rule: find_sub.induct) auto

lemma find_sub_Some:
  "find_sub s p = Some i \<Longrightarrow> starts_with (drop i s) p \<and> i \<le> length s"
  by (induction s p arbitrary: i rule: find_sub.induct) (auto simp: starts_with_def split: if_splits)

lemma strip_prefix_Some_iff [simp]: "strip_prefix p s = Some r \<longleftrightarrow> s = p @ r"
  by (auto simp: strip_prefix_def starts_with_def) (metis append_take_drop_id)

lemma split_char_not_Nil [simp]: "split_char c s \<noteq> []"
  by (induction s) (auto split: list.split)

lemma split_once_Some: "split_once c s = Some (a, b) \<Longrightarrow> s = a @ c # b \<and> c \<notin> set a"
  by (induction s arbitrary: a) (auto split: if_splits)

lemma split_once_append [simp]: "c \<notin> set a \<Longrightarrow> split_once c (a @ c # b) = Some (a, b)"
  by (induction a) auto

text \<open>Decimal numbers.\<close>

lemma rsplit_colon_parts: "rsplit_colon s = Some (h, p) \<Longrightarrow> s = h @ CHR '':'' # p"
  using split_once_Some [of "CHR '':''" "rev s" "rev p" "rev h"]
  by (auto simp: rsplit_colon_def) (metis append.assoc append_Cons append_Nil rev.simps(2) rev_append rev_rev_ident)

lemma digit_char_digit: "n < 10 \<Longrightarrow> is_digit (digit_char n) \<and> digit_val (digit_char n) = n"
  by (simp add: is_digit_def digit_val_def digit_char_def of_char_of)

lemma dec_string_digits: "list_all is_digit (dec_string n)"
proof (induction n rule: dec_string.induct)
  case (1 n)
  then show ?case by (simp add: dec_string.simps [of n] digit_char_digit)
qed

lemma dec_string_not_Nil [simp]: "dec_string n \<noteq> []"
  by (simp add: dec_string.simps [of n])

lemma digits_val_dec_string [simp]: "digits_val (dec_string n) = n"
proof (induction n rule: dec_string.induct)
  case (1 n)
  then show ?case by (simp add: dec_string.simps [of n] digit_char_digit digits_val_def)
qed

lemma length_dec_string: "0 < k \<Longrightarrow> n < 10 ^ k \<Longrightarrow> length (dec_string n) \<le> k"
proof (induction n arbitrary: k rule: dec_string.induct)
  case (1 n)
  show ?case
  proof (cases "n < 10")
    case False
    then obtain j where k: "k = Suc j" "0 < j" using 1(3) 1(2) by (cases k; cases "k - 1") auto
    then have "n div 10 < 10 ^ j" using 1(3) by (simp add: less_mult_imp_div_less mult.commute)
    then show ?thesis using 1(1) [OF False k(2)] False k by (simp add: dec_string.simps [of n])
  qed (use 1(2) in \<open>simp add: dec_string.simps [of n]\<close>)
qed

lemma parse_uint_dec_string: "n \<le> bound \<Longrightarrow> parse_uint bound (dec_string n) = Some n"
proof -
  assume "n \<le> bound"
  moreover obtain c ds where d: "dec_string n = c # ds" by (cases "dec_string n") auto
  moreover have "c \<noteq> CHR ''+''" using dec_string_digits [of n] d by (auto simp: is_digit_def)
  ultimately show ?thesis
    using dec_string_digits [of n] digits_val_dec_string [of n] by (simp add: parse_uint_def parse_digits_def)
qed

lemma parse_u16_dec_string: "parse_u16 (dec_string (unat w)) = Some w"
  using unat_u16_le [of w] by (simp add: parse_u16_def parse_uint_dec_string)

text \<open>Splitting at spaces, and the first occurrence of a pattern.\<close>

lemma split_char_word: "c \<notin> set a \<Longrightarrow> split_char c a = [a]"
  by (induction a) auto

lemma split_char_append: "c \<notin> set a \<Longrightarrow> split_char c (a @ c # b) = a # split_char c b"
  by (induction a) auto

definition is_word :: "string \<Rightarrow> bool" where
  "is_word w \<longleftrightarrow> w \<noteq> [] \<and> list_all (\<lambda>c. \<not> is_ws c) w"

lemma is_word_ws: "is_word w \<Longrightarrow> map (\<lambda>c. if is_ws c then CHR '' '' else c) w = w \<and> CHR '' '' \<notin> set w \<and> w \<noteq> []"
proof -
  assume w: "is_word w"
  then have "\<not> is_ws c" if "c \<in> set w" for c using that by (simp add: is_word_def list_all_iff)
  then have "map (\<lambda>c. if is_ws c then CHR '' '' else c) w = w" by (intro map_idI) simp
  moreover have "CHR '' '' \<notin> set w" "w \<noteq> []" using w by (auto simp: is_word_def list_all_iff is_ws_def)
  ultimately show ?thesis by blast
qed

lemma split_whitespace_Cons:
  "is_word w \<Longrightarrow> split_whitespace (w @ CHR '' '' # s) = w # split_whitespace s"
proof -
  assume "is_word w"
  note w = is_word_ws [OF this]
  have "is_ws (CHR '' '')" by (simp add: is_ws_def)
  then show ?thesis
    using w split_char_append [of "CHR '' ''" w] by (simp add: split_whitespace_def)
qed

lemma split_whitespace_word: "is_word w \<Longrightarrow> split_whitespace w = [w]"
  using is_word_ws [of w] by (simp add: split_whitespace_def split_char_word)

lemma dec_string_word [simp]: "is_word (dec_string n)"
  using dec_string_digits [of n] by (auto simp: is_word_def list_all_iff is_digit_def is_ws_def)

lemma find_sub_first: "c \<notin> set xs \<Longrightarrow> find_sub (xs @ c # cs @ ys) (c # cs) = Some (length xs)"
  by (induction xs) (auto simp: starts_with_def)

end
