(* ===== verification/Rust_Net.thy ===== *)
theory Rust_Net
  imports Rust_Str
begin

text \<open>
  \<^verbatim>\<open>std::net\<close> as the sources use it: \<^verbatim>\<open>IpAddr\<close> as the number its octets spell, \<^verbatim>\<open>SocketAddr\<close>
  (flow info and scope id are zero wherever the sources build one), \<^verbatim>\<open>to_canonical\<close>, the \<^verbatim>\<open>Display\<close> of
  both address families and \<^verbatim>\<open>parse::<IpAddr>()\<close>.
\<close>

section \<open>Addresses\<close>

datatype ip_addr = V4 u32 | V6 u128

datatype socket_addr = SocketAddr (sa_ip: ip_addr) (sa_port: u16)

definition ipv4_new :: "u8 \<Rightarrow> u8 \<Rightarrow> u8 \<Rightarrow> u8 \<Rightarrow> ip_addr" where
  "ipv4_new a b c d = V4 (be32 a b c d)"

definition ipv6_from :: "bytes \<Rightarrow> ip_addr" where
  "ipv6_from os = V6 (be_word os)"

text \<open>\<^verbatim>\<open>IpAddr::to_canonical\<close>: an IPv4-mapped IPv6 address is the IPv4 address.\<close>

definition to_canonical :: "ip_addr \<Rightarrow> ip_addr" where
  "to_canonical ip =
     (case ip of
        V4 w \<Rightarrow> V4 w
      | V6 w \<Rightarrow> if drop_bit 32 w = 0xFFFF then V4 (ucast w) else V6 w)"

section \<open>Display\<close>

definition v4_octets :: "u32 \<Rightarrow> nat list" where
  "v4_octets w = map unat (be32_bytes w)"

fun join :: "string \<Rightarrow> string list \<Rightarrow> string" where
  "join sep [] = []"
| "join sep [x] = x"
| "join sep (x # y # zs) = x @ sep @ join sep (y # zs)"

definition v4_string :: "u32 \<Rightarrow> string" where
  "v4_string w = join ''.'' (map dec_string (v4_octets w))"

definition v6_segments :: "u128 \<Rightarrow> u16 list" where
  "v6_segments w = map (\<lambda>i. ucast (drop_bit (16 * (7 - i)) w)) [0..<8]"

definition hex_char :: "nat \<Rightarrow> char" where
  "hex_char n = (if n < 10 then char_of (48 + n) else char_of (87 + n))"

fun hex_string :: "nat \<Rightarrow> string" where
  "hex_string n = (if n < 16 then [hex_char n] else hex_string (n div 16) @ [hex_char (n mod 16)])"

text \<open>The first longest run of zero segments, as (start, length).\<close>

fun zero_span :: "u16 list \<Rightarrow> nat \<Rightarrow> nat \<times> nat \<Rightarrow> nat \<times> nat \<Rightarrow> nat \<times> nat" where
  "zero_span [] i cur longest = longest"
| "zero_span (g # gs) i (cs, cl) (ls, ll) =
     (if g = 0
      then let cs' = (if cl = 0 then i else cs); cl' = cl + 1
           in zero_span gs (Suc i) (cs', cl') (if cl' > ll then (cs', cl') else (ls, ll))
      else zero_span gs (Suc i) (0, 0) (ls, ll))"

definition v6_string :: "u128 \<Rightarrow> string" where
  "v6_string w =
     (if drop_bit 32 w = 0xFFFF then ''::ffff:'' @ v4_string (ucast w)
      else let segs = v6_segments w;
               fmt = (\<lambda>gs. join '':'' (map (\<lambda>g. hex_string (unat g)) gs));
               (st, len) = zero_span segs 0 (0, 0) (0, 0)
           in if len > 1 then fmt (take st segs) @ ''::'' @ fmt (drop (st + len) segs)
              else fmt segs)"

definition ip_string :: "ip_addr \<Rightarrow> string" where
  "ip_string ip = (case ip of V4 w \<Rightarrow> v4_string w | V6 w \<Rightarrow> v6_string w)"

section \<open>Parsing\<close>

definition hex_digit_val :: "char \<Rightarrow> nat option" where
  "hex_digit_val c =
     (let n = of_char c :: nat
      in if 48 \<le> n \<and> n \<le> 57 then Some (n - 48)
         else if 97 \<le> n \<and> n \<le> 102 then Some (n - 87)
         else if 65 \<le> n \<and> n \<le> 70 then Some (n - 55) else None)"

definition digit_in :: "nat \<Rightarrow> char \<Rightarrow> nat option" where
  "digit_in radix c = (case hex_digit_val c of Some v \<Rightarrow> if v < radix then Some v else None | None \<Rightarrow> None)"

text \<open>\<^verbatim>\<open>Parser::read_number\<close>: all the digits that are there; too many, a forbidden leading zero or a value
  above \<open>bound\<close> fail.\<close>

definition read_number :: "nat \<Rightarrow> nat \<Rightarrow> bool \<Rightarrow> nat \<Rightarrow> string \<Rightarrow> (nat \<times> string) option" where
  "read_number radix max_digits allow_zero_prefix bound s =
     (let ds = takeWhile (\<lambda>c. digit_in radix c \<noteq> None) s;
          v = foldl (\<lambda>acc c. acc * radix + the (digit_in radix c)) 0 ds
      in if ds = [] \<or> length ds > max_digits then None
         else if \<not> allow_zero_prefix \<and> hd ds = CHR ''0'' \<and> length ds > 1 then None
         else if v \<le> bound then Some (v, drop (length ds) s) else None)"

fun read_given :: "char \<Rightarrow> string \<Rightarrow> string option" where
  "read_given c [] = None"
| "read_given c (x # xs) = (if x = c then Some xs else None)"

definition read_octet :: "string \<Rightarrow> (nat \<times> string) option" where
  "read_octet s = read_number 10 3 False 255 s"

definition read_ipv4 :: "string \<Rightarrow> (u32 \<times> string) option" where
  "read_ipv4 s =
     Option.bind (read_octet s) (\<lambda>(a, s).
     Option.bind (Option.bind (read_given (CHR ''.'') s) read_octet) (\<lambda>(b, s).
     Option.bind (Option.bind (read_given (CHR ''.'') s) read_octet) (\<lambda>(c, s).
     Option.bind (Option.bind (read_given (CHR ''.'') s) read_octet) (\<lambda>(d, s).
       Some (be32 (of_nat a) (of_nat b) (of_nat c) (of_nat d), s)))))"

text \<open>\<^verbatim>\<open>read_separator(':', i, ..)\<close>: the separator is expected from the second group on.\<close>

definition after_sep :: "nat \<Rightarrow> string \<Rightarrow> string option" where
  "after_sep i s = (if i = 0 then Some s else read_given (CHR '':'') s)"

text \<open>\<^verbatim>\<open>read_groups\<close> for \<open>k\<close> more of \<open>limit\<close> groups; an embedded IPv4 address may take two.\<close>

fun read_groups :: "nat \<Rightarrow> nat \<Rightarrow> string \<Rightarrow> u16 list \<times> bool \<times> string" where
  "read_groups 0 i s = ([], False, s)"
| "read_groups (Suc k) i s =
     (case (if k > 0 then Option.bind (after_sep i s) read_ipv4 else None) of
        Some (v4, r) \<Rightarrow> ([ucast (drop_bit 16 v4), ucast v4], True, r)
      | None \<Rightarrow>
          (case Option.bind (after_sep i s) (read_number 16 4 True 65535) of
             Some (g, r) \<Rightarrow> (case read_groups k (Suc i) r of (gs, b, r') \<Rightarrow> (of_nat g # gs, b, r'))
           | None \<Rightarrow> ([], False, s)))"

definition segments_word :: "u16 list \<Rightarrow> u128" where
  "segments_word gs = foldl (\<lambda>acc g. push_bit 16 acc OR ucast g) 0 gs"

definition read_ipv6 :: "string \<Rightarrow> (u128 \<times> string) option" where
  "read_ipv6 s =
     (case read_groups 8 0 s of
        (head, head_v4, r) \<Rightarrow>
          if length head = 8 then Some (segments_word head, r)
          else if head_v4 then None
          else Option.bind (read_given (CHR '':'') r) (\<lambda>r1.
               Option.bind (read_given (CHR '':'') r1) (\<lambda>r2.
               (case read_groups (8 - (length head + 1)) 0 r2 of
                  (tail, _, r3) \<Rightarrow>
                    Some (segments_word (head @ replicate (8 - length head - length tail) 0 @ tail), r3)))))"

text \<open>\<^verbatim>\<open>parse::<IpAddr>()\<close>: one of the two, and nothing left over.\<close>

definition parse_ip :: "string \<Rightarrow> ip_addr option" where
  "parse_ip s =
     (case (case read_ipv4 s of
              Some (w, r) \<Rightarrow> Some (V4 w, r)
            | None \<Rightarrow> map_option (\<lambda>(w, r). (V6 w, r)) (read_ipv6 s)) of
        Some (ip, []) \<Rightarrow> Some ip
      | _ \<Rightarrow> None)"

section \<open>Lemmas\<close>

declare hex_string.simps [simp del]

lemma to_canonical_idem [simp]: "to_canonical (to_canonical ip) = to_canonical ip"
  by (simp add: to_canonical_def split: ip_addr.split)

text \<open>The decimal digits of an octet are read back.\<close>

lemma digit_in_digit_char: "n < 10 \<Longrightarrow> digit_in 10 (digit_char n) = Some n"
  by (simp add: digit_in_def hex_digit_val_def digit_char_def Let_def of_char_of)

lemma digit_char_zero: "n < 10 \<Longrightarrow> digit_char n = CHR ''0'' \<longleftrightarrow> n = 0"
  unfolding of_char_eq_iff [where 'a = nat, symmetric] by (simp add: digit_char_def of_char_of)

lemma dec_string_octet:
  assumes "n < 256"
  obtains (one) "n < 10" "dec_string n = [digit_char n]"
  | (two) "10 \<le> n" "n < 100" "dec_string n = [digit_char (n div 10), digit_char (n mod 10)]"
  | (three) "100 \<le> n" "dec_string n = [digit_char (n div 100), digit_char (n div 10 mod 10), digit_char (n mod 10)]"
proof -
  consider "n < 10" | "10 \<le> n" "n < 100" | "100 \<le> n" by linarith
  then show ?thesis
  proof cases
    case 2
    then have "\<not> n < 10" "n div 10 < 10" by auto
    then show ?thesis using two 2 by (simp add: dec_string.simps [of n] dec_string.simps [of "n div 10"])
  next
    case 3
    then have "\<not> n < 10" "\<not> n div 10 < 10" "n div 10 div 10 < 10" "n div 10 div 10 = n div 100"
      using assms by (simp_all add: div_mult2_eq [symmetric])
    then have "dec_string n = [digit_char (n div 100), digit_char (n div 10 mod 10), digit_char (n mod 10)]"
      by (simp add: dec_string.simps [of n] dec_string.simps [of "n div 10"] dec_string.simps [of "n div 100"])
    then show ?thesis using 3 three by blast
  qed (use one in \<open>simp add: dec_string.simps [of n]\<close>)
qed

lemma read_octet_dec:
  assumes "n < 256" and "rest = [] \<or> digit_in 10 (hd rest) = None"
  shows "read_octet (dec_string n @ rest) = Some (n, rest)"
proof -
  have stop: "takeWhile (\<lambda>c. digit_in 10 c \<noteq> None) rest = []"
    using assms(2) by (cases rest) auto
  have digs: "n mod 10 < 10" "n div 10 mod 10 < 10" by simp_all
  from assms(1) show ?thesis
  proof (cases rule: dec_string_octet)
    case one
    then show ?thesis using stop
      by (simp add: read_octet_def read_number_def digit_in_digit_char)
  next
    case two
    then have "n div 10 < 10" "n div 10 \<noteq> 0" by auto
    then show ?thesis using stop two digs
      by (simp add: read_octet_def read_number_def digit_in_digit_char digit_char_zero)
  next
    case three
    then have "n div 100 < 10" "n div 100 \<noteq> 0" using assms(1) by auto
    moreover have "(n div 100 * 10 + n div 10 mod 10) * 10 + n mod 10 = n"
    proof -
      have "n div 100 = n div 10 div 10" by (simp add: div_mult2_eq [symmetric])
      then show ?thesis using div_mult_mod_eq [of "n div 10" 10] div_mult_mod_eq [of n 10] by simp
    qed
    ultimately show ?thesis using stop three digs assms(1)
      by (simp add: read_octet_def read_number_def digit_in_digit_char digit_char_zero)
  qed
qed

lemma digit_in_dot: "digit_in 10 (CHR ''.'') = None"
  by (simp add: digit_in_def hex_digit_val_def Let_def)

lemma v4_string_eq:
  "v4_string w = dec_string (unat (ucast (drop_bit 24 w) :: u8)) @ ''.'' @
     dec_string (unat (ucast (drop_bit 16 w) :: u8)) @ ''.'' @
     dec_string (unat (ucast (drop_bit 8 w) :: u8)) @ ''.'' @ dec_string (unat (ucast w :: u8))"
  by (simp add: v4_string_def v4_octets_def be32_bytes_def)

lemma read_ipv4_string: "read_ipv4 (v4_string w) = Some (w, [])"
proof -
  have u: "unat (x :: u8) < 256" for x using unat_u8_less .
  have of: "of_nat (unat x) = x" for x :: u8 by simp
  show ?thesis
    unfolding v4_string_eq read_ipv4_def
    using read_octet_dec [OF u, of "[]"]
    by (simp add: read_octet_dec u digit_in_dot of)
qed

lemma parse_ip_v4_string: "parse_ip (v4_string w) = Some (V4 w)"
  by (simp add: parse_ip_def read_ipv4_string)

lemma v4_string_inject [simp]: "v4_string a = v4_string b \<longleftrightarrow> a = b"
  by (metis read_ipv4_string option.inject prod.inject)

lemma v4_string_word [simp]: "is_word (v4_string w)"
  using dec_string_word by (auto simp: v4_string_eq is_word_def is_ws_def)

lemma length_v4_string: "length (v4_string w) \<le> 15"
proof -
  have "length (dec_string (unat (x :: u8))) \<le> 3" for x
    using unat_u8_less [of x] by (intro length_dec_string) simp_all
  from this [of "ucast (drop_bit 24 w)"] this [of "ucast (drop_bit 16 w)"] this [of "ucast (drop_bit 8 w)"]
    this [of "ucast w"] show ?thesis by (simp add: v4_string_eq)
qed

text \<open>A name that is no address.\<close>

lemma parse_ip_name: "parse_ip ''xn.h'' = None"
  by (simp add: parse_ip_def read_ipv4_def read_octet_def read_ipv6_def read_number_def digit_in_def hex_digit_val_def
      after_sep_def eval_nat_numeral Let_def)

end
