(* ===== verification/Device_Limiter.thy ===== *)
theory Device_Limiter
  imports Rust_Net
begin

text \<open>
  The device limiter of \<^verbatim>\<open>src/limiter/device.rs\<close>: a user's devices are the keys that
  \<^verbatim>\<open>normalize_ip\<close> gives for the addresses seen within a time window. Instants are nanoseconds and every
  operation takes the instant \<open>now\<close> that it reads from the clock. The Lua script the distributed variant runs
  inside Redis is modelled on a sorted set of (member, score); talking to the Redis server is not, its answer
  is an argument of \<open>check_and_record_async\<close>.
\<close>

section \<open>State\<close>

type_synonym devices = "(string \<times> nat) list"

record device_limiter =
  window_duration :: nat
  prefix_v4 :: nat
  prefix_v6 :: nat
  user_devices :: "(u32 \<times> devices) list"
  user_limits :: "u32 \<rightharpoonup> u32"
  global_alive :: "u32 \<rightharpoonup> u32"
  redis_url :: "string option"
  conn_limit_expiry :: nat
  redis_timeout :: nat

definition new_with_redis ::
    "u64 \<Rightarrow> u8 \<Rightarrow> u8 \<Rightarrow> string option \<Rightarrow> u64 \<Rightarrow> u64 \<Rightarrow> device_limiter" where
  "new_with_redis window_secs p4 p6 url expiry timeout_ms =
     \<lparr>window_duration = unat window_secs * 1000000000,
      prefix_v4 = min (unat p4) 32, prefix_v6 = min (unat p6) 128,
      user_devices = [], user_limits = Map.empty, global_alive = Map.empty,
      redis_url = url, conn_limit_expiry = max (unat expiry) 1,
      redis_timeout = max (unat timeout_ms) 50 * 1000000\<rparr>"

definition device_limiter_new :: "u64 \<Rightarrow> u8 \<Rightarrow> u8 \<Rightarrow> string option \<Rightarrow> device_limiter" where
  "device_limiter_new window_secs p4 p6 url = new_with_redis window_secs p4 p6 url window_secs 300"

section \<open>Operations\<close>



text \<open>\<^verbatim>\<open>devices.retain(|_, last_seen| now.duration_since(*last_seen) <= window)\<close>.\<close>

definition retain_fresh :: "nat \<Rightarrow> nat \<Rightarrow> devices \<Rightarrow> devices" where
  "retain_fresh window now ds = filter (\<lambda>(k, seen). now - seen \<le> window) ds"




definition mask_v4 :: "nat \<Rightarrow> u32" where
  "mask_v4 p = ucast (NOT (push_bit (32 - p) 1 - 1 :: u64))"

definition mask_v6 :: "nat \<Rightarrow> u128" where
  "mask_v6 p = NOT (push_bit (128 - p) 1 - 1)"

definition normalize_ip :: "device_limiter \<Rightarrow> ip_addr \<Rightarrow> string" where
  "normalize_ip dl ip =
     (case to_canonical ip of
        V4 v4 \<Rightarrow>
          if prefix_v4 dl \<ge> 32 then v4_string v4
          else if prefix_v4 dl = 0 then ''0.0.0.0/0''
          else v4_string (v4 AND mask_v4 (prefix_v4 dl)) @ ''/'' @ dec_string (prefix_v4 dl)
      | V6 v6 \<Rightarrow>
          if prefix_v6 dl \<ge> 128 then v6_string v6
          else if prefix_v6 dl = 0 then ''::/0''
          else v6_string (v6 AND mask_v6 (prefix_v6 dl)) @ ''/'' @ dec_string (prefix_v6 dl))"

text \<open>\<^verbatim>\<open>devices.len() as u32 + remote_devs\<close> is a 32-bit sum.\<close>

definition check_and_record :: "u32 \<Rightarrow> ip_addr \<Rightarrow> nat \<Rightarrow> device_limiter \<Rightarrow> device_limiter \<times> bool" where
  "check_and_record user_id ip now dl =
     (let limit = user_limits dl user_id;
          device_key = normalize_ip dl ip;
          ds0 = (case map_of (user_devices dl) user_id of Some ds \<Rightarrow> ds | None \<Rightarrow> []);
          ds = retain_fresh (window_duration dl) now ds0;
          remote = (case global_alive dl user_id of Some n \<Rightarrow> n | None \<Rightarrow> 0);
          put = (\<lambda>d. dl\<lparr>user_devices := al_put user_id d (user_devices dl)\<rparr>)
      in case limit of
           Some max_dev \<Rightarrow>
             if map_of ds device_key = None \<and> of_nat (length ds) + remote \<ge> max_dev
             then (put ds, False)
             else (put (al_put device_key now ds), True)
         | None \<Rightarrow> (put (al_put device_key now ds), True))"

text \<open>The answer of Redis within the timeout, an error, or no answer in time.\<close>

datatype redis_answer = Allowed bool | RedisError | RedisTimeout

definition check_and_record_async ::
    "redis_answer \<Rightarrow> u32 \<Rightarrow> ip_addr \<Rightarrow> nat \<Rightarrow> device_limiter \<Rightarrow> device_limiter \<times> bool" where
  "check_and_record_async answer user_id ip now dl =
     (if redis_url dl = None then check_and_record user_id ip now dl
      else case answer of
             Allowed True \<Rightarrow> (fst (check_and_record user_id ip now dl), True)
           | Allowed False \<Rightarrow> (dl, False)
           | RedisError \<Rightarrow> check_and_record user_id ip now dl
           | RedisTimeout \<Rightarrow> check_and_record user_id ip now dl)"

text \<open>\<^verbatim>\<open>REDIS_DEVICE_LIMIT_LUA\<close> on the sorted set of the key: times in seconds, limit 0 for none.\<close>

definition redis_device_limit_lua :: "string \<Rightarrow> int \<Rightarrow> int \<Rightarrow> nat \<Rightarrow> (string \<times> int) list \<Rightarrow> (string \<times> int) list \<times> nat" where
  "redis_device_limit_lua member now expiry limit z0 =
     (let cutoff = now - expiry;
          z = filter (\<lambda>(m, score). cutoff < score) z0
      in if map_of z member \<noteq> None then (al_put member now z, 1)
         else if limit > 0 \<and> length z \<ge> limit then (z, 0)
         else (al_put member now z, 1))"

section \<open>Runs\<close>




definition devices_of :: "device_limiter \<Rightarrow> u32 \<Rightarrow> devices" where
  "devices_of dl u = (case map_of (user_devices dl) u of Some ds \<Rightarrow> ds | None \<Rightarrow> [])"

definition remote_of :: "device_limiter \<Rightarrow> u32 \<Rightarrow> u32" where
  "remote_of dl u = (case global_alive dl u of Some n \<Rightarrow> n | None \<Rightarrow> 0)"




section \<open>Lemmas\<close>

lemma al_ok_retain [simp]: "al_ok ds \<Longrightarrow> al_ok (retain_fresh w now ds)"
  by (simp add: retain_fresh_def)


lemma retain_fresh_idem [simp]: "retain_fresh w now (retain_fresh w now ds) = retain_fresh w now ds"
  by (simp add: retain_fresh_def)



lemma devices_of_put: "devices_of (dl\<lparr>user_devices := al_put u ds (user_devices dl)\<rparr>) v = (if v = u then ds else devices_of dl v)"
  by (simp add: devices_of_def)

lemma check_and_record_unfold:
  "check_and_record u ip now dl =
     (let ds = retain_fresh (window_duration dl) now (devices_of dl u); k = normalize_ip dl ip;
          put = (\<lambda>d. dl\<lparr>user_devices := al_put u d (user_devices dl)\<rparr>)
      in if (\<exists>m. user_limits dl u = Some m \<and> map_of ds k = None \<and> of_nat (length ds) + remote_of dl u \<ge> m)
         then (put ds, False) else (put (al_put k now ds), True))"
  by (auto simp: check_and_record_def devices_of_def remote_of_def Let_def split: option.split)












section \<open>Masks\<close>

lemma mask_v4_bit:
  assumes "p \<le> 32"
  shows "bit (mask_v4 p) n \<longleftrightarrow> n < 32 \<and> 32 - p \<le> n"
proof -
  have "push_bit k 1 - 1 = (mask k :: u64)" for k by (simp add: mask_eq_exp_minus_1 push_bit_eq_mult)
  then show ?thesis
    using assms by (auto simp: mask_v4_def bit_ucast_iff bit_not_iff bit_mask_iff dest: bit_imp_le_length)
qed

lemma masked_v4_eq_iff:
  assumes "p \<le> 32"
  shows "(a AND mask_v4 p = b AND mask_v4 p) \<longleftrightarrow> drop_bit (32 - p) a = drop_bit (32 - p) (b :: u32)"
proof
  assume eq: "a AND mask_v4 p = b AND mask_v4 p"
  show "drop_bit (32 - p) a = drop_bit (32 - p) b"
  proof (rule bit_word_eqI)
    fix n assume "n < LENGTH(32)"
    have "bit (a AND mask_v4 p) (32 - p + n) = bit (b AND mask_v4 p) (32 - p + n)" using eq by simp
    then show "bit (drop_bit (32 - p) a) n = bit (drop_bit (32 - p) b) n"
      by (auto simp: bit_drop_bit_eq bit_and_iff mask_v4_bit [OF assms] dest: bit_imp_le_length)
  qed
next
  assume eq: "drop_bit (32 - p) a = drop_bit (32 - p) b"
  show "a AND mask_v4 p = b AND mask_v4 p"
  proof (rule bit_word_eqI)
    fix n assume "n < LENGTH(32)"
    show "bit (a AND mask_v4 p) n = bit (b AND mask_v4 p) n"
    proof (cases "32 - p \<le> n")
      case True
      have "bit (drop_bit (32 - p) a) (n - (32 - p)) = bit (drop_bit (32 - p) b) (n - (32 - p))" using eq by simp
      then show ?thesis using True by (simp add: bit_drop_bit_eq bit_and_iff)
    qed (simp add: bit_and_iff mask_v4_bit [OF assms])
  qed
qed


section \<open>Properties\<close>



text \<open>What \<^verbatim>\<open>check_and_record\<close> decides. A device that was seen within the window is always let in and
  its time is renewed; a new one is let in exactly if there is no limit or the local devices plus the ones
  reported elsewhere are fewer than the limit; a refusal records nothing.\<close>

theorem check_and_record_decides:
  "check_and_record u ip now dl = (dl', ok) \<Longrightarrow>
     (let ds = retain_fresh (window_duration dl) now (devices_of dl u); k = normalize_ip dl ip in
       ok = (map_of ds k \<noteq> None \<or> (case user_limits dl u of None \<Rightarrow> True
              | Some m \<Rightarrow> of_nat (length ds) + remote_of dl u < m))
       \<and> map_of (devices_of dl' u) = (if ok then (map_of ds)(k \<mapsto> now) else map_of ds)
       \<and> (\<forall>v. v \<noteq> u \<longrightarrow> devices_of dl' v = devices_of dl v))"
  by (auto simp: check_and_record_unfold Let_def devices_of_put split: if_splits option.splits)

theorem check_and_record_decides_witness:
  "\<exists>dl'. check_and_record 5 (V4 1) 10 (device_limiter_new 60 32 64 None) = (dl', True)
     \<and> map_of (devices_of dl' 5) = [''0.0.0.1'' \<mapsto> 10]"
proof -
  let ?dl = "device_limiter_new 60 32 64 None"
  obtain dl' ok where c: "check_and_record 5 (V4 1) 10 ?dl = (dl', ok)" by (cases "check_and_record 5 (V4 1) 10 ?dl")
  have "normalize_ip ?dl (V4 1) = ''0.0.0.1''"
    by (simp add: normalize_ip_def to_canonical_def device_limiter_new_def new_with_redis_def v4_string_eq
        dec_string.simps digit_char_def char_of_def bit_0)
  then show ?thesis
    using c check_and_record_decides [OF c]
    by (auto simp: device_limiter_new_def new_with_redis_def devices_of_def retain_fresh_def Let_def)
qed

text \<open>With an IPv4 prefix length from 1 to 31, two addresses count as the same device exactly if they
  agree on the prefix; an IPv4-mapped IPv6 address counts as its IPv4 address.\<close>

theorem normalize_ip_v4_classes:
  assumes "to_canonical ip = V4 a" and "to_canonical ip' = V4 b" and "0 < prefix_v4 dl" and "prefix_v4 dl < 32"
  shows "normalize_ip dl ip = normalize_ip dl ip' \<longleftrightarrow>
      drop_bit (32 - prefix_v4 dl) a = drop_bit (32 - prefix_v4 dl) b"
  using assms masked_v4_eq_iff [of "prefix_v4 dl" a b] by (simp add: normalize_ip_def)

theorem normalize_ip_v4_classes_witness:
  "normalize_ip (device_limiter_new 60 24 64 None) (V6 0xFFFFC0000211)
     = normalize_ip (device_limiter_new 60 24 64 None) (V4 0xC0000220)"
proof -
  have "to_canonical (V6 0xFFFFC0000211) = V4 0xC0000211" by (simp add: to_canonical_def)
  moreover have "to_canonical (V4 0xC0000220) = V4 0xC0000220" by (simp add: to_canonical_def)
  moreover have "prefix_v4 (device_limiter_new 60 24 64 None) = 24"
    by (simp add: device_limiter_new_def new_with_redis_def)
  ultimately show ?thesis
    using normalize_ip_v4_classes [of "V6 0xFFFFC0000211" "0xC0000211" "V4 0xC0000220" "0xC0000220"
        "device_limiter_new 60 24 64 None"]
    by simp
qed

text \<open>The Redis script never lets a sorted set grow beyond the limit, lets a member that is still fresh
  in, and keeps only scores newer than the cutoff.\<close>

theorem redis_script_limit:
  assumes "redis_device_limit_lua member now expiry limit z = (z', answer)"
    and "al_ok z" and "0 < limit" and "length z \<le> limit" and "0 < expiry"
  shows "length z' \<le> limit \<and> al_ok z' \<and> (\<forall>(m, score) \<in> set z'. now - expiry < score)
    \<and> (answer = 1 \<longleftrightarrow> map_of z' member = Some now)
    \<and> ((\<exists>s. map_of z member = Some s \<and> now - expiry < s) \<longrightarrow> answer = 1)"
proof -
  let ?z = "filter (\<lambda>(m, score). now - expiry < score) z"
  have ok: "al_ok ?z" using assms(2) by simp
  have le: "length ?z \<le> limit" using assms(4) le_trans length_filter_le by blast
  have fresh: "map_of ?z member = Some s" if "map_of z member = Some s" "now - expiry < s" for s
    using that assms(2) by (simp add: map_of_filter)
  have "al_ok z'"
    using assms(1) ok al_ok_put [OF ok] by (auto simp: redis_device_limit_lua_def Let_def split: if_splits)
  then show ?thesis
    using assms(1,3,5) ok le length_al_put [OF ok, of member now] fresh
    by (auto simp: redis_device_limit_lua_def Let_def al_put_def split: if_splits)
qed

theorem redis_script_limit_witness:
  "redis_device_limit_lua ''b'' 100 60 1 [(''a'', 90)] = ([(''a'', 90)], 0)
    \<and> length [(''a'', 90 :: int)] \<le> 1"
proof -
  have e: "redis_device_limit_lua ''b'' 100 60 1 [(''a'', 90)] = ([(''a'', 90)], 0)"
    by (simp add: redis_device_limit_lua_def)
  show ?thesis using e redis_script_limit [OF e] by simp
qed

end
