(* ===== verification/Ip_Cache.thy ===== *)
theory Ip_Cache
  imports Rust_Net
begin

text \<open>
  The address-to-user cache of \<^verbatim>\<open>src/limiter/ip_cache.rs\<close>. Instants and durations are nanoseconds,
  \<^verbatim>\<open>SystemTime\<close> is seconds since the epoch; every operation takes the clock values it reads. The file is
  the list of \<^verbatim>\<open>PersistentEntry\<close> records it holds: the JSON text in between is the work of serde and of the
  file system and is not modelled, and a file that cannot be read or parsed is \<open>None\<close>.
\<close>

section \<open>State\<close>

record persistent_entry =
  pe_ip :: string
  pe_user_id :: u32
  pe_timestamp :: nat

record ip_user_cache =
  ttl :: nat
  save_enable :: bool
  cache :: "(ip_addr \<times> (u32 \<times> nat)) list"

section \<open>Operations\<close>

definition cache_get :: "nat \<Rightarrow> ip_addr \<Rightarrow> ip_user_cache \<Rightarrow> u32 option" where
  "cache_get now ip c =
     (case map_of (cache c) ip of
        Some (user_id, instant) \<Rightarrow> if now - instant \<le> ttl c then Some user_id else None
      | None \<Rightarrow> None)"

definition cache_insert :: "nat \<Rightarrow> ip_addr \<Rightarrow> u32 \<Rightarrow> ip_user_cache \<Rightarrow> ip_user_cache" where
  "cache_insert now ip user_id c = c\<lparr>cache := al_put ip (user_id, now) (cache c)\<rparr>"

definition cache_prune :: "nat \<Rightarrow> ip_user_cache \<Rightarrow> ip_user_cache" where
  "cache_prune now c = c\<lparr>cache := filter (\<lambda>(ip, (user_id, instant)). now - instant \<le> ttl c) (cache c)\<rparr>"

text \<open>What \<^verbatim>\<open>save_to_disk\<close> writes; \<open>None\<close> when saving is off.\<close>

definition save_to_disk :: "nat \<Rightarrow> nat \<Rightarrow> ip_user_cache \<Rightarrow> persistent_entry list option" where
  "save_to_disk now now_unix c =
     (if \<not> save_enable c then None
      else Some (map (\<lambda>(ip, (user_id, instant)).
             \<lparr>pe_ip = ip_string ip, pe_user_id = user_id,
              pe_timestamp = now_unix - (now - instant) div 1000000000\<rparr>)
           (filter (\<lambda>(ip, (user_id, instant)). now - instant \<le> ttl c) (cache c))))"

definition load_entry :: "nat \<Rightarrow> nat \<Rightarrow> ip_user_cache \<Rightarrow> persistent_entry \<Rightarrow> ip_user_cache" where
  "load_entry now now_unix c entry =
     (case parse_ip (pe_ip entry) of
        Some ip \<Rightarrow>
          (let age = now_unix - pe_timestamp entry
           in if age * 1000000000 \<le> ttl c
              then c\<lparr>cache := al_put ip (pe_user_id entry,
                       if age * 1000000000 \<le> now then now - age * 1000000000 else now) (cache c)\<rparr>
              else c)
      | None \<Rightarrow> c)"

definition load_from_disk :: "nat \<Rightarrow> nat \<Rightarrow> persistent_entry list option \<Rightarrow> ip_user_cache \<Rightarrow> ip_user_cache" where
  "load_from_disk now now_unix file c =
     (case file of None \<Rightarrow> c | Some entries \<Rightarrow> foldl (load_entry now now_unix) c entries)"

definition new_with_duration ::
    "nat \<Rightarrow> bool \<Rightarrow> nat \<Rightarrow> nat \<Rightarrow> persistent_entry list option \<Rightarrow> ip_user_cache" where
  "new_with_duration t save now now_unix file =
     (let s = \<lparr>ttl = t, save_enable = save, cache = []\<rparr>
      in if save then load_from_disk now now_unix file s else s)"

text \<open>\<^verbatim>\<open>cache_hours.max(1) * 3600\<close> seconds.\<close>

definition ip_user_cache_new ::
    "u64 \<Rightarrow> bool \<Rightarrow> nat \<Rightarrow> nat \<Rightarrow> persistent_entry list option \<Rightarrow> ip_user_cache" where
  "ip_user_cache_new cache_hours save now now_unix file =
     new_with_duration (max (unat cache_hours) 1 * 3600 * 1000000000) save now now_unix file"

section \<open>Lemmas\<close>

lemma load_entry_fields [simp]: "ttl (load_entry now ux c e) = ttl c" "save_enable (load_entry now ux c e) = save_enable c"
  by (simp_all add: load_entry_def Let_def split: option.split)

lemma load_entries_other:
  "(\<And>e. e \<in> set es \<Longrightarrow> parse_ip (pe_ip e) \<noteq> Some ip) \<Longrightarrow>
     map_of (cache (foldl (load_entry now ux) c es)) ip = map_of (cache c) ip"
proof (induction es arbitrary: c)
  case (Cons e es)
  have "map_of (cache (load_entry now ux c e)) ip = map_of (cache c) ip"
    using Cons.prems [of e] by (auto simp: load_entry_def Let_def split: option.split)
  then show ?case using Cons by simp
qed simp

lemma foldl_load_ttl [simp]: "ttl (foldl (load_entry now ux) c es) = ttl c"
  by (induction es arbitrary: c) simp_all

lemma saved_entry_loads:
  assumes split: "es = as @ e # bs" and ip: "parse_ip (pe_ip e) = Some ip"
    and later: "\<And>e'. e' \<in> set bs \<Longrightarrow> parse_ip (pe_ip e') \<noteq> Some ip"
    and age: "(ux - pe_timestamp e) * 1000000000 \<le> ttl c"
  shows "cache_get now ip (foldl (load_entry now ux) c es) = Some (pe_user_id e)"
proof -
  let ?c = "foldl (load_entry now ux) c as"
  have "map_of (cache (foldl (load_entry now ux) c es)) ip = map_of (cache (load_entry now ux ?c e)) ip"
    using load_entries_other [OF later] split by simp
  then show ?thesis using ip age by (auto simp: cache_get_def load_entry_def Let_def)
qed

section \<open>Properties\<close>

text \<open>Pruning is invisible. \<^verbatim>\<open>get\<close> at the instant of the pruning or later answers the same as without
  it, for every address.\<close>

theorem cache_prune_transparent:
  assumes "al_ok (cache c)" and "now \<le> later"
  shows "cache_get later ip (cache_prune now c) = cache_get later ip c"
  using assms(2) map_of_filter [OF assms(1), of "\<lambda>(ip, (user_id, instant)). now - instant \<le> ttl c" ip]
  by (auto simp: cache_get_def cache_prune_def split: option.split)

theorem cache_prune_transparent_witness:
  "cache_get 20 (V4 1) (cache_prune 15 (cache_insert 10 (V4 1) 7 \<lparr>ttl = 30, save_enable = False, cache = []\<rparr>))
     = Some 7"
  using cache_prune_transparent [of "cache_insert 10 (V4 1) 7 \<lparr>ttl = 30, save_enable = False, cache = []\<rparr>" 15 20 "V4 1"]
  by (simp add: cache_insert_def al_put_def cache_get_def al_ok_def)

text \<open>An entry survives a restart. What \<^verbatim>\<open>save_to_disk\<close> writes of a fresh entry, a new cache that loads the
  file finds again, as long as the age in whole seconds at loading is within the lifetime. The hypothesis on
  the addresses says that \<^verbatim>\<open>Display\<close> and \<^verbatim>\<open>parse\<close> of the cached addresses are inverse (\<open>parse_ip_v4_string\<close> for
  IPv4).\<close>

theorem cache_survives_restart:
  assumes "al_ok (cache c)" and "save_enable c" and "map_of (cache c) ip = Some (user_id, instant)"
    and "now - instant \<le> ttl c"
    and "\<And>ip'. ip' \<in> fst ` set (cache c) \<Longrightarrow> parse_ip (ip_string ip') = Some ip'"
    and "(now_unix' - (now_unix - (now - instant) div 1000000000)) * 1000000000 \<le> ttl c"
  shows "cache_get now' ip (new_with_duration (ttl c) True now' now_unix' (save_to_disk now now_unix c)) = Some user_id"
proof -
  let ?f = "\<lambda>(ip, (user_id, instant)). \<lparr>pe_ip = ip_string ip, pe_user_id = user_id,
              pe_timestamp = now_unix - (now - instant) div 1000000000\<rparr>"
  let ?m = "filter (\<lambda>(ip, (user_id, instant)). now - instant \<le> ttl c) (cache c)"
  have ok: "al_ok ?m" using assms(1) by simp
  have "map_of ?m ip = Some (user_id, instant)" using map_of_filter [OF assms(1)] assms(3,4) by simp
  then obtain as bs where m: "?m = as @ (ip, user_id, instant) # bs" by (meson map_of_SomeD split_list)
  have no: "parse_ip (pe_ip e) \<noteq> Some ip" if "e \<in> set (map ?f bs)" for e
  proof -
    obtain ip' u' i' where e: "e = ?f (ip', (u', i'))" and b: "(ip', (u', i')) \<in> set bs" using \<open>e \<in> set (map ?f bs)\<close> by auto
    have "ip' \<noteq> ip" using ok m b by (force simp: al_ok_def)
    moreover have "(ip', (u', i')) \<in> set ?m" unfolding m using b by simp
    ultimately show ?thesis using assms(5) [of ip'] e by force
  qed
  have "ip \<in> fst ` set (cache c)" using map_of_SomeD [OF assms(3)] by force
  then have p: "parse_ip (pe_ip (?f (ip, (user_id, instant)))) = Some ip" using assms(5) by simp
  show ?thesis
    using saved_entry_loads [where es = "map ?f ?m" and as = "map ?f as" and bs = "map ?f bs" and ip = ip
        and e = "?f (ip, (user_id, instant))" and ux = now_unix' and now = now'
        and c = "\<lparr>ttl = ttl c, save_enable = True, cache = []\<rparr>", OF _ p no] assms(2,6) m
    by (simp add: new_with_duration_def save_to_disk_def load_from_disk_def)
qed

theorem cache_survives_restart_witness:
  "cache_get 500 (V4 9) (new_with_duration 60000000000 True 500 1010
      (save_to_disk 5000000000 1000 \<lparr>ttl = 60000000000, save_enable = True, cache = [(V4 9, (7, 1000000000))]\<rparr>)) = Some 7"
  using cache_survives_restart [of "\<lparr>ttl = 60000000000, save_enable = True, cache = [(V4 9, (7, 1000000000))]\<rparr>"
      "V4 9" 7 1000000000 5000000000 1010 1000 500]
  by (simp add: al_ok_def ip_string_def parse_ip_v4_string)

end
