(* ===== verification/Net_Stream.thy ===== *)
theory Net_Stream
  imports Prelude
begin

text \<open>
  The byte streams the connection code reads. A network stream is the list of segments that have not been read
  yet: \<^verbatim>\<open>read\<close> with a buffer of \<open>k\<close> bytes delivers at most \<open>k\<close> bytes of the first segment, so every way TCP can cut
  the data is a value of the model. \<open>prefixed_stream\<close> is \<^verbatim>\<open>PrefixedStream\<close> of \<^verbatim>\<open>src/conn/proxy_protocol.rs\<close>, which
  gives back bytes that were read ahead. The locale \<open>byte_source\<close> is what a reader relies on: reads deliver the
  data in order, and nothing is delivered only at the end. Both streams are interpretations.
\<close>

section \<open>Operations\<close>

type_synonym net_stream = "bytes list"

fun net_read :: "nat \<Rightarrow> net_stream \<Rightarrow> bytes \<times> net_stream" where
  "net_read k [] = ([], [])"
| "net_read k (c # cs) = (if length c \<le> k then (c, cs) else (take k c, drop k c # cs))"

definition net_ok :: "net_stream \<Rightarrow> bool" where
  "net_ok s \<longleftrightarrow> list_all (\<lambda>c. c \<noteq> []) s"

text \<open>\<^verbatim>\<open>AsyncReadExt::read_exact\<close> over any \<^verbatim>\<open>read\<close>: reads until the buffer is full, a read of nothing is the
  end of the stream.\<close>

function read_exact_from :: "(nat \<Rightarrow> 's \<Rightarrow> bytes \<times> 's) \<Rightarrow> nat \<Rightarrow> 's \<Rightarrow> (bytes \<times> 's) res" where
  "read_exact_from rd n s =
     (if n = 0 then Ok ([], s)
      else let (c, s') = rd n s
           in if c = [] then Err UnexpectedEof
              else map_res (\<lambda>(d, s''). (c @ d, s'')) (read_exact_from rd (n - length c) s'))"
  by pat_completeness auto
termination
  by (relation "measure (\<lambda>(rd, n, s). n)") auto

record prefixed_stream =
  ps_inner :: net_stream
  ps_prefix :: "bytes option"
  ps_pos :: nat

definition prefixed_new :: "net_stream \<Rightarrow> bytes option \<Rightarrow> prefixed_stream" where
  "prefixed_new s p = \<lparr>ps_inner = s, ps_prefix = p, ps_pos = 0\<rparr>"

definition inner_read :: "nat \<Rightarrow> prefixed_stream \<Rightarrow> bytes \<times> prefixed_stream" where
  "inner_read k ps = (case net_read k (ps_inner ps) of (c, s) \<Rightarrow> (c, ps\<lparr>ps_inner := s\<rparr>))"

definition prefixed_read :: "nat \<Rightarrow> prefixed_stream \<Rightarrow> bytes \<times> prefixed_stream" where
  "prefixed_read k ps =
     (case ps_prefix ps of
        Some p \<Rightarrow>
          (if ps_pos ps < length p
           then let to_copy = min (length p - ps_pos ps) k;
                    ps' = ps\<lparr>ps_pos := ps_pos ps + to_copy\<rparr>
                in (take to_copy (drop (ps_pos ps) p),
                    if ps_pos ps' \<ge> length p then ps'\<lparr>ps_prefix := None\<rparr> else ps')
           else inner_read k ps)
      | None \<Rightarrow> inner_read k ps)"

text \<open>What is still to be read.\<close>

definition stream_data :: "prefixed_stream \<Rightarrow> bytes" where
  "stream_data ps = (case ps_prefix ps of Some p \<Rightarrow> drop (ps_pos ps) p | None \<Rightarrow> []) @ concat (ps_inner ps)"

declare read_exact_from.simps [simp del]

section \<open>The interface of a byte source\<close>

locale byte_source =
  fixes rd :: "nat \<Rightarrow> 's \<Rightarrow> bytes \<times> 's"
    and contents :: "'s \<Rightarrow> bytes"
    and src_ok :: "'s \<Rightarrow> bool"
  assumes rd_in_order: "rd k s = (c, s') \<Longrightarrow> contents s = c @ contents s'"
    and rd_at_most: "rd k s = (c, s') \<Longrightarrow> length c \<le> k"
    and rd_progress: "src_ok s \<Longrightarrow> rd k s = (c, s') \<Longrightarrow> 0 < k \<Longrightarrow> contents s \<noteq> [] \<Longrightarrow> c \<noteq> []"
    and rd_keeps_ok: "src_ok s \<Longrightarrow> rd k s = (c, s') \<Longrightarrow> src_ok s'"
begin

lemma read_exact_enough:
  assumes "src_ok s" "n \<le> length (contents s)"
  shows "\<exists>s'. read_exact_from rd n s = Ok (take n (contents s), s') \<and> contents s' = drop n (contents s) \<and> src_ok s'"
  using assms
proof (induction n arbitrary: s rule: less_induct)
  case (less n)
  show ?case
  proof (cases "n = 0")
    case True
    then show ?thesis using less.prems by (subst read_exact_from.simps) auto
  next
    case False
    obtain c t where r: "rd n s = (c, t)" by fastforce
    note d = rd_in_order [OF r] rd_at_most [OF r]
    have c: "c \<noteq> []" using rd_progress [OF less.prems(1) r] False less.prems(2) by fastforce
    have "\<exists>s'. read_exact_from rd (n - length c) t = Ok (take (n - length c) (contents t), s') \<and>
        contents s' = drop (n - length c) (contents t) \<and> src_ok s'"
      using c False d less.prems rd_keeps_ok [OF less.prems(1) r] by (intro less.IH) auto
    then show ?thesis using False c r d by (subst read_exact_from.simps) auto
  qed
qed

lemma read_exact_data:
  "read_exact_from rd n s = Ok (b, s') \<Longrightarrow>
     contents s = b @ contents s' \<and> length b = n \<and> (src_ok s \<longrightarrow> src_ok s')"
proof (induction n arbitrary: s b rule: less_induct)
  case (less n)
  show ?case
  proof (cases "n = 0")
    case True
    then show ?thesis using less.prems by (simp add: read_exact_from.simps [of rd 0])
  next
    case False
    obtain c t where r: "rd n s = (c, t)" by fastforce
    then have c: "c \<noteq> []" and "\<exists>d. read_exact_from rd (n - length c) t = Ok (d, s') \<and> b = c @ d"
      using less.prems False by (auto simp: read_exact_from.simps [of rd n] split: if_splits)
    then obtain d where d: "read_exact_from rd (n - length c) t = Ok (d, s')" "b = c @ d" by blast
    then show ?thesis
      using less.IH [of "n - length c" t d] c False rd_keeps_ok [OF _ r] rd_in_order [OF r] rd_at_most [OF r]
      by fastforce
  qed
qed

lemma read_exact_err: "read_exact_from rd n s = Err e \<Longrightarrow> e = UnexpectedEof"
proof (induction n arbitrary: s rule: less_induct)
  case (less n)
  have "e = UnexpectedEof" if "n \<noteq> 0" "c \<noteq> []" "read_exact_from rd (n - length c) t = Err e" for c t
    using less.IH [of "n - length c" t] that by simp
  with less.prems show ?case by (auto simp: read_exact_from.simps [of rd n] split: prod.splits if_splits)
qed

lemma read_exact_no_panic: "read_exact_from rd n s \<noteq> Panic"
proof (induction n arbitrary: s rule: less_induct)
  case (less n)
  have "read_exact_from rd (n - length c) t \<noteq> Panic" if "n \<noteq> 0" "c \<noteq> []" for c t
    using that by (intro less.IH) simp
  then show ?case by (auto simp: read_exact_from.simps [of rd n] split: prod.split)
qed

end

section \<open>The two streams are byte sources\<close>

lemma net_read_eq:
  assumes "net_read k s = (c, s')"
  shows "concat s = c @ concat s' \<and> length c \<le> k \<and> (net_ok s \<longrightarrow> net_ok s')"
    and "net_ok s \<Longrightarrow> 0 < k \<Longrightarrow> concat s \<noteq> [] \<Longrightarrow> c \<noteq> []"
  using assms by (cases s; auto simp: net_ok_def split: if_splits)+

interpretation net: byte_source net_read concat net_ok
  by unfold_locales (use net_read_eq in blast)+

lemma prefixed_read_cases:
  assumes "prefixed_read k ps = (c, ps')"
  obtains (from_prefix) p where "ps_prefix ps = Some p" "ps_pos ps < length p" "c = take k (drop (ps_pos ps) p)"
      "stream_data ps' = drop k (drop (ps_pos ps) p) @ concat (ps_inner ps)" "ps_inner ps' = ps_inner ps"
  | (from_inner) s' where "stream_data ps = concat (ps_inner ps)" "net_read k (ps_inner ps) = (c, s')"
      "stream_data ps' = concat s'" "ps_inner ps' = s'"
  using assms
  by (auto simp: prefixed_read_def inner_read_def stream_data_def Let_def min_def add.commute
      split: option.splits if_splits prod.splits)

lemma prefixed_read_eq:
  assumes "prefixed_read k ps = (c, ps')"
  shows "stream_data ps = c @ stream_data ps' \<and> length c \<le> k \<and> (net_ok (ps_inner ps) \<longrightarrow> net_ok (ps_inner ps'))"
  using assms
proof (cases rule: prefixed_read_cases)
  case (from_prefix p)
  then show ?thesis
    using append_take_drop_id [of k "drop (ps_pos ps) p"] by (simp add: stream_data_def [of ps])
qed (auto dest: net_read_eq)

lemma prefixed_read_progress:
  assumes "prefixed_read k ps = (c, ps')" "net_ok (ps_inner ps)" "0 < k" "stream_data ps \<noteq> []"
  shows "c \<noteq> []"
  using assms(1) by (cases rule: prefixed_read_cases) (use assms net_read_eq(2) in \<open>fastforce+\<close>)

interpretation pre: byte_source prefixed_read stream_data "\<lambda>ps. net_ok (ps_inner ps)"
  by unfold_locales (use prefixed_read_eq prefixed_read_progress in blast)+

lemma stream_data_new [simp]:
  "stream_data (prefixed_new s None) = concat s" "stream_data (prefixed_new s (Some p)) = p @ concat s"
  by (simp_all add: stream_data_def prefixed_new_def)

lemma inner_prefixed_new [simp]: "ps_inner (prefixed_new s p) = s"
  by (simp add: prefixed_new_def)

text \<open>What was read ahead is given back. Reading through a \<^verbatim>\<open>PrefixedStream\<close> with any sequence of buffer sizes
  delivers the bytes of the prefix and then those of the stream behind it, in order, once each, whatever the
  segments of that stream are.\<close>

theorem prefixed_stream_replays:
  assumes "net_ok s" and "n \<le> length (p @ concat s)"
  shows "\<exists>ps. read_exact_from prefixed_read n (prefixed_new s (Some p)) = Ok (take n (p @ concat s), ps) \<and>
     stream_data ps = drop n (p @ concat s)"
  using pre.read_exact_enough [of "prefixed_new s (Some p)" n] assms by auto

theorem prefixed_stream_replays_witness:
  "\<exists>ps. read_exact_from prefixed_read 3 (prefixed_new [[3], [4, 5]] (Some [1, 2])) = Ok ([1, 2, 3], ps) \<and>
     stream_data ps = [4, 5]"
  using prefixed_stream_replays [of "[[3], [4, 5]]" 3 "[1, 2]"] by (simp add: net_ok_def numeral_eq_Suc)

end
