(* ===== verification/Sniffer.thy ===== *)
theory Sniffer
  imports Rust_Net Net_Stream
begin

text \<open>
  \<^verbatim>\<open>src/conn/sniffer.rs\<close>: the host name of a connection from its first bytes (TLS server name, HTTP host header,
  a ClientHello inside a QUIC packet), and the two functions that read these bytes from a stream and hand the stream
  on with the bytes put back. \<open>sni_names\<close> and \<open>extensions\<close> are the two nested \<^verbatim>\<open>while\<close> loops of
  \<^verbatim>\<open>parse_client_hello_body\<close>; \<open>Ok None\<close> is the end of the loop without a name.
\<close>

section \<open>Operations\<close>

function sni_names :: "bytes \<Rightarrow> nat \<Rightarrow> nat \<Rightarrow> string option res" where
  "sni_names buf sni_pos list_end =
     (if sni_pos + 3 \<le> list_end
      then
        and_then (byte_at buf sni_pos) (\<lambda>name_type.
        and_then (be16_at buf (sni_pos + 1)) (\<lambda>nlen.
          if name_type = 0x00 \<and> sni_pos + 3 + unat nlen \<le> list_end
          then and_then (slice buf (sni_pos + 3) (sni_pos + 3 + unat nlen)) (\<lambda>name.
                 case from_utf8 name of
                   Some sni_str \<Rightarrow> Ok (Some sni_str)
                 | None \<Rightarrow> sni_names buf (sni_pos + 3 + unat nlen) list_end)
          else sni_names buf (sni_pos + 3 + unat nlen) list_end))
      else Ok None)"
  by pat_completeness auto
termination
  by (relation "measure (\<lambda>(buf, sni_pos, list_end). list_end - sni_pos)") auto

function extensions :: "bytes \<Rightarrow> nat \<Rightarrow> nat \<Rightarrow> string option res" where
  "extensions buf pos end_ext =
     (if pos + 4 \<le> end_ext
      then
        and_then (be16_at buf pos) (\<lambda>ext_type.
        and_then (be16_at buf (pos + 2)) (\<lambda>esize.
        and_then
          (if ext_type = 0x0000 \<and> pos + 4 + 2 \<le> end_ext
           then and_then (be16_at buf (pos + 4)) (\<lambda>list_len.
                  sni_names buf (pos + 4 + 2) (min (pos + 4 + 2 + unat list_len) end_ext))
           else Ok None) (\<lambda>found.
        case found of
          Some sni \<Rightarrow> Ok (Some sni)
        | None \<Rightarrow> extensions buf (pos + 4 + unat esize) end_ext)))
      else Ok None)"
  by pat_completeness auto
termination
  by (relation "measure (\<lambda>(buf, pos, end_ext). end_ext - pos)") auto

definition parse_client_hello_body :: "bytes \<Rightarrow> string option res" where
  "parse_client_hello_body buf =
     (if length buf < 4 + 2 + 32 then Ok None
      else let pos = 4 + (2 + 32)
      in if pos \<ge> length buf then Ok None
      else and_then (byte_at buf pos) (\<lambda>session_id_len.
      let pos = pos + 1 + unat session_id_len
      in if pos + 2 > length buf then Ok None
      else and_then (be16_at buf pos) (\<lambda>cipher_len.
      let pos = pos + 2 + unat cipher_len
      in if pos \<ge> length buf then Ok None
      else and_then (byte_at buf pos) (\<lambda>comp_len.
      let pos = pos + 1 + unat comp_len
      in if pos + 2 > length buf then Ok None
      else and_then (be16_at buf pos) (\<lambda>ext_len.
      let pos = pos + 2; end_ext = min (pos + unat ext_len) (length buf)
      in extensions buf pos end_ext)))))"

definition parse_tls_sni :: "bytes \<Rightarrow> string option res" where
  "parse_tls_sni buf =
     (if length buf < 5 then Ok None
      else and_then (byte_at buf 0) (\<lambda>b0.
        if b0 \<noteq> 0x16 then Ok None
        else let pos = 5
             in if pos \<ge> length buf then Ok None
                else and_then (byte_at buf pos) (\<lambda>b.
                       if b \<noteq> 0x01 then Ok None
                       else and_then (slice buf pos (length buf)) parse_client_hello_body)))"

fun first_host :: "string list \<Rightarrow> string option" where
  "first_host [] = None"
| "first_host (line # lines) =
     (case strip_prefix ''Host:'' (trim line) of
        Some host_val \<Rightarrow> Some (hd (split_char (CHR '':'') (trim host_val)))
      | None \<Rightarrow> first_host lines)"

definition parse_http_host :: "bytes \<Rightarrow> string option" where
  "parse_http_host buf =
     (case from_utf8 buf of
        Some txt \<Rightarrow> first_host (str_lines txt)
      | None \<Rightarrow> None)"

text \<open>The loop of \<^verbatim>\<open>parse_quic_sni\<close> from offset \<open>i\<close> on, for \<open>k\<close> more offsets; \<^verbatim>\<open>buf.get(j)\<close> is nothing out of
  range.\<close>

definition get_at :: "bytes \<Rightarrow> nat \<Rightarrow> u8 option" where
  "get_at buf j = (if j < length buf then Some (buf ! j) else None)"

fun quic_scan :: "bytes \<Rightarrow> nat \<Rightarrow> nat \<Rightarrow> string option res" where
  "quic_scan buf i 0 = Ok None"
| "quic_scan buf i (Suc k) =
     and_then (byte_at buf i) (\<lambda>b.
       if b = 0x01 \<and> get_at buf (i + 4) = Some 0x03 \<and> get_at buf (i + 5) = Some 0x03
       then and_then (and_then (slice buf i (length buf)) parse_client_hello_body) (\<lambda>r.
              case r of Some sni \<Rightarrow> Ok (Some sni) | None \<Rightarrow> quic_scan buf (i + 1) k)
       else quic_scan buf (i + 1) k)"

definition parse_quic_sni :: "bytes \<Rightarrow> string option res" where
  "parse_quic_sni buf = quic_scan buf 0 (length buf - 40)"

definition http_methods :: "string list" where
  "http_methods = [''GET '', ''POST '', ''HEAD '', ''CONNECT '', ''OPTIONS '', ''PUT '', ''DELETE '']"

definition sniff_domain :: "bytes \<Rightarrow> (string \<times> string) option res" where
  "sniff_domain buffer =
     (if buffer = [] then Ok None
      else and_then (byte_at buffer 0) (\<lambda>b0.
        and_then (if b0 = 0x16 \<and> length buffer > 43 then parse_tls_sni buffer else Ok None) (\<lambda>tls.
        case tls of
          Some sni \<Rightarrow> Ok (Some (sni, ''tls''))
        | None \<Rightarrow>
            (case (if list_ex (\<lambda>p. starts_with buffer (str_bytes p)) http_methods
                   then parse_http_host buffer else None) of
               Some host \<Rightarrow> Ok (Some (host, ''http''))
             | None \<Rightarrow>
                 and_then (if b0 AND 0x80 \<noteq> 0 \<and> length buffer > 40 then parse_quic_sni buffer else Ok None) (\<lambda>quic.
                 case quic of
                   Some sni \<Rightarrow> Ok (Some (sni, ''quic''))
                 | None \<Rightarrow> Ok None)))))"

text \<open>How the one read under the 150 ms timeout ends.\<close>

datatype read_outcome = Ready | ReadError | Elapsed

definition sniff_async_stream ::
    "read_outcome \<Rightarrow> net_stream \<Rightarrow> ip_addr option \<Rightarrow> bool \<Rightarrow> (string option \<times> prefixed_stream) res" where
  "sniff_async_stream outcome stream target_ip sniff_enabled =
     (if \<not> sniff_enabled \<or> target_ip = None then Ok (None, prefixed_new stream None)
      else case outcome of
        Ready \<Rightarrow>
          (case net_read 1024 stream of
             (got, stream') \<Rightarrow>
               if got \<noteq> []
               then and_then (sniff_domain got) (\<lambda>r. Ok (map_option fst r, prefixed_new stream' (Some got)))
               else Ok (None, prefixed_new stream' None))
      | _ \<Rightarrow> Ok (None, prefixed_new stream None))"

text \<open>The audit controller is only asked whether it blocks a payload.\<close>

definition sniff_and_detect_stream ::
    "read_outcome \<Rightarrow> net_stream \<Rightarrow> ip_addr option \<Rightarrow> bool \<Rightarrow> bool \<Rightarrow> (bytes \<Rightarrow> bool) option
       \<Rightarrow> (string option \<times> prefixed_stream) res" where
  "sniff_and_detect_stream outcome stream target_ip sniff_enabled detect_packet audit =
     (if \<not> sniff_enabled \<and> \<not> detect_packet then Ok (None, prefixed_new stream None)
      else case outcome of
        Ready \<Rightarrow>
          (case net_read 1024 stream of
             (got, stream') \<Rightarrow>
               if got \<noteq> []
               then
                 (if detect_packet \<and> (case audit of Some should_block \<Rightarrow> should_block got | None \<Rightarrow> False)
                  then Err PermissionDenied
                  else and_then (if sniff_enabled \<and> target_ip \<noteq> None
                                 then map_res (map_option fst) (sniff_domain got) else Ok None) (\<lambda>sniffed.
                       Ok (sniffed, prefixed_new stream' (Some got))))
               else Ok (None, prefixed_new stream' None))
      | _ \<Rightarrow> Ok (None, prefixed_new stream None))"

section \<open>Reference definitions\<close>

text \<open>A TLS record with a ClientHello whose extensions are \<open>before\<close>, the server name \<open>host\<close>, and \<open>after\<close>.\<close>

record client_hello =
  ch_record :: bytes
  ch_length :: bytes
  ch_version :: bytes
  ch_random :: bytes
  ch_session :: bytes
  ch_ciphers :: bytes
  ch_compression :: bytes
  ch_before :: "(u16 \<times> bytes) list"
  ch_host :: bytes
  ch_after :: "(u16 \<times> bytes) list"

definition ext_bytes :: "u16 \<times> bytes \<Rightarrow> bytes" where
  "ext_bytes e = be16_bytes (fst e) @ be16_bytes (of_nat (length (snd e))) @ snd e"

definition sni_ext :: "bytes \<Rightarrow> bytes" where
  "sni_ext host = ext_bytes (0, be16_bytes (of_nat (length host + 3)) @ 0 # be16_bytes (of_nat (length host)) @ host)"

definition ch_exts :: "client_hello \<Rightarrow> bytes" where
  "ch_exts h = concat (map ext_bytes (ch_before h)) @ sni_ext (ch_host h) @ concat (map ext_bytes (ch_after h))"

definition ch_front :: "client_hello \<Rightarrow> bytes" where
  "ch_front h = 0x01 # ch_length h @ ch_version h @ ch_random h
     @ of_nat (length (ch_session h)) # ch_session h
     @ be16_bytes (of_nat (length (ch_ciphers h))) @ ch_ciphers h
     @ of_nat (length (ch_compression h)) # ch_compression h
     @ be16_bytes (of_nat (length (ch_exts h)))"

definition hello_bytes :: "client_hello \<Rightarrow> bytes" where
  "hello_bytes h = 0x16 # ch_record h @ ch_front h @ ch_exts h"

definition client_hello_ok :: "client_hello \<Rightarrow> bool" where
  "client_hello_ok h \<longleftrightarrow> length (ch_record h) = 4 \<and> length (ch_length h) = 3 \<and> length (ch_version h) = 2 \<and>
     length (ch_random h) = 32 \<and> length (ch_session h) < 256 \<and> length (ch_ciphers h) < 65536 \<and>
     length (ch_compression h) < 256 \<and> length (ch_exts h) < 65536 \<and>
     list_all (\<lambda>e. fst e \<noteq> 0) (ch_before h) \<and> utf8_valid (ch_host h)"

definition sample_hello :: client_hello where
  "sample_hello = \<lparr>ch_record = [3, 1, 0, 70], ch_length = [0, 0, 66], ch_version = [3, 3], ch_random = replicate 32 9,
     ch_session = [], ch_ciphers = [0x13, 0x01], ch_compression = [0], ch_before = [(43, [2, 3, 4])],
     ch_host = [101, 46, 99, 111], ch_after = [(10, [0, 2])]\<rparr>"

section \<open>Lemmas\<close>

declare sni_names.simps [simp del] extensions.simps [simp del]

text \<open>Every parser returns: no index or slice is out of range.\<close>

lemma sni_names_Ok: "list_end \<le> length buf \<Longrightarrow> \<exists>r. sni_names buf sni_pos list_end = Ok r"
proof (induction buf sni_pos list_end rule: sni_names.induct)
  case (1 buf sni_pos list_end)
  then show ?case
    by (subst sni_names.simps) (auto simp: rs_simps split: option.split)
qed

lemma extensions_Ok:
  assumes "end_ext \<le> length buf"
  shows "\<exists>r. extensions buf pos end_ext = Ok r"
proof (induction "end_ext - pos" arbitrary: pos rule: less_induct)
  case less
  show ?case
  proof (cases "pos + 4 \<le> end_ext")
    case True
    obtain r where r: "sni_names buf (pos + 4 + 2)
        (min (pos + 4 + 2 + unat (be16 (buf ! (pos + 4)) (buf ! (pos + 4 + 1)))) end_ext) = Ok r"
      using sni_names_Ok [of "min q end_ext" buf for q] assms by fastforce
    have "end_ext - (pos + 4 + n) < end_ext - pos" for n using True by simp
    then obtain r' where "extensions buf (pos + 4 + unat (be16 (buf ! (pos + 2)) (buf ! (pos + 2 + 1)))) end_ext = Ok r'"
      using less by blast
    then show ?thesis
      using True assms r by (subst extensions.simps) (simp add: rs_simps del: and_then_Ok_iff split: option.split)
  qed (simp add: extensions.simps)
qed

lemma parse_client_hello_body_Ok: "\<exists>r. parse_client_hello_body buf = Ok r"
  by (auto simp: parse_client_hello_body_def rs_simps Let_def intro!: extensions_Ok)

lemma parse_tls_sni_Ok: "\<exists>r. parse_tls_sni buf = Ok r"
  using parse_client_hello_body_Ok by (auto simp: parse_tls_sni_def byte_at_def slice_def Let_def)

lemma quic_scan_Ok: "i + k \<le> length buf \<Longrightarrow> \<exists>r. quic_scan buf i k = Ok r"
proof (induction k arbitrary: i)
  case (Suc k)
  obtain r where "parse_client_hello_body (drop i buf) = Ok r" using parse_client_hello_body_Ok by blast
  then show ?case using Suc.prems Suc.IH [of "i + 1"] by (cases r) (auto simp: rs_simps)
qed simp

lemma parse_quic_sni_Ok: "\<exists>r. parse_quic_sni buf = Ok r"
  by (auto simp: parse_quic_sni_def intro!: quic_scan_Ok)

lemma sniff_domain_Ok: "\<exists>r. sniff_domain buffer = Ok r"
proof -
  obtain t q where "parse_tls_sni buffer = Ok t" "parse_quic_sni buffer = Ok q"
    using parse_tls_sni_Ok parse_quic_sni_Ok by blast
  then show ?thesis by (auto simp: sniff_domain_def rs_simps split: option.split)
qed

text \<open>The loops on the reference encoding.\<close>

lemma sni_names_found:
  assumes "utf8_valid host" "length host < 65536" "sni_pos = length xs" "list_end = sni_pos + 3 + length host"
  shows "sni_names (xs @ 0 # be16_bytes (of_nat (length host)) @ host @ ys) sni_pos list_end = Ok (Some (bytes_str host))"
proof -
  let ?n = "of_nat (length host) :: u16"
  let ?b = "xs @ 0 # be16_bytes ?n @ host @ ys"
  have "byte_at ?b sni_pos = Ok 0" using assms(3) by (simp add: byte_at_def)
  moreover have "be16_at ?b (sni_pos + 1) = Ok ?n"
    using be16_at_append [of "sni_pos + 1" "xs @ [0]"] assms(3) by simp
  moreover have "slice ?b (sni_pos + 3) (sni_pos + 3 + length host) = Ok host"
    using assms(3) by (simp add: slice_def)
  moreover have "unat ?n = length host" using assms(2) by (rule unat_of_nat_u16)
  ultimately show ?thesis
    using assms(1,4) by (subst sni_names.simps) (simp add: from_utf8_def)
qed

lemma ext_bytes_reads:
  assumes "length d < 65536" "pos = length xs"
  shows "be16_at (xs @ ext_bytes (t, d) @ ys) pos = Ok t"
    and "be16_at (xs @ ext_bytes (t, d) @ ys) (pos + 2) = Ok (of_nat (length d))"
  using be16_at_append [of pos xs] be16_at_append [of "pos + 2" "xs @ be16_bytes t"] assms
  by (simp_all add: ext_bytes_def)

lemma length_ext_bytes: "length (ext_bytes (t, d)) = 4 + length d"
  by (simp add: ext_bytes_def)

lemma extensions_skip:
  assumes "t \<noteq> 0" "length d < 65536" "pos = length xs" "pos + length (ext_bytes (t, d)) \<le> end_ext"
  shows "extensions (xs @ ext_bytes (t, d) @ ys) pos end_ext
       = extensions ((xs @ ext_bytes (t, d)) @ ys) (length (xs @ ext_bytes (t, d))) end_ext"
  using ext_bytes_reads [OF assms(2,3), of t ys] assms length_ext_bytes [of t d] unat_of_nat_u16 [OF assms(2)]
  by (subst extensions.simps) (simp add: add.assoc del: and_then_Ok_iff)

lemma extensions_skip_all:
  assumes "list_all (\<lambda>e. fst e \<noteq> 0) es" "list_all (\<lambda>e. length (snd e) < 65536) es" "pos = length xs"
    "pos + length (concat (map ext_bytes es)) \<le> end_ext"
  shows "extensions (xs @ concat (map ext_bytes es) @ ys) pos end_ext
       = extensions ((xs @ concat (map ext_bytes es)) @ ys) (length (xs @ concat (map ext_bytes es))) end_ext"
  using assms
proof (induction es arbitrary: xs pos)
  case (Cons e es)
  have "extensions (xs @ ext_bytes e @ concat (map ext_bytes es) @ ys) pos end_ext
      = extensions ((xs @ ext_bytes e) @ concat (map ext_bytes es) @ ys) (length (xs @ ext_bytes e)) end_ext"
    using Cons.prems extensions_skip [of "fst e" "snd e" pos xs end_ext] by simp
  also have "\<dots> = extensions (((xs @ ext_bytes e) @ concat (map ext_bytes es)) @ ys)
        (length ((xs @ ext_bytes e) @ concat (map ext_bytes es))) end_ext"
    using Cons.prems by (intro Cons.IH) simp_all
  finally show ?case by simp
qed simp

lemma extensions_sni:
  assumes "utf8_valid host" "length host + 9 < 65536" "pos = length xs" "pos + length (sni_ext host) \<le> end_ext"
  shows "extensions (xs @ sni_ext host @ ys) pos end_ext = Ok (Some (bytes_str host))"
proof -
  let ?h = "0 # be16_bytes (of_nat (length host)) @ host"
  let ?d = "be16_bytes (of_nat (length host + 3)) @ ?h"
  let ?f = "xs @ be16_bytes 0 @ be16_bytes (of_nat (length ?d))"
  let ?b = "xs @ sni_ext host @ ys"
  have b: "?b = ?f @ be16_bytes (of_nat (length host + 3)) @ ?h @ ys"
    by (simp add: sni_ext_def ext_bytes_def)
  have len: "length (sni_ext host) = length host + 9" by (simp add: sni_ext_def ext_bytes_def)
  have "be16_at ?b (pos + 4) = Ok (of_nat (length host + 3))"
    unfolding b using assms(3) by (intro be16_at_append) simp
  moreover have "unat (of_nat (length host + 3) :: u16) = length host + 3"
    using assms(2) by (intro unat_of_nat_u16) simp
  moreover have "sni_names ?b (pos + 6) (pos + 6 + (length host + 3)) = Ok (Some (bytes_str host))"
    using sni_names_found [of host "pos + 6" "?f @ be16_bytes (of_nat (length host + 3))"
        "pos + 6 + (length host + 3)" ys] assms b by simp
  ultimately show ?thesis
    using ext_bytes_reads [of ?d pos xs 0 ys] length_ext_bytes [of 0 ?d] assms len
    by (subst extensions.simps) (simp add: sni_ext_def min_def ac_simps del: and_then_Ok_iff)
qed

lemma parse_client_hello_body_front:
  assumes "client_hello_ok h"
  shows "parse_client_hello_body (ch_front h @ ch_exts h @ ys)
       = extensions (ch_front h @ ch_exts h @ ys) (length (ch_front h)) (length (ch_front h) + length (ch_exts h))"
proof -
  note ok = assms [unfolded client_hello_ok_def]
  let ?b = "ch_front h @ ch_exts h @ ys"
  let ?f0 = "0x01 # ch_length h @ ch_version h @ ch_random h"
  let ?f1 = "?f0 @ of_nat (length (ch_session h)) # ch_session h"
  let ?f2 = "?f1 @ be16_bytes (of_nat (length (ch_ciphers h))) @ ch_ciphers h"
  let ?f3 = "?f2 @ of_nat (length (ch_compression h)) # ch_compression h"
  let ?p1 = "38 + 1 + length (ch_session h)"
  let ?p2 = "?p1 + 2 + length (ch_ciphers h)"
  let ?p3 = "?p2 + 1 + length (ch_compression h)"
  have b: "?b = ?f0 @ of_nat (length (ch_session h)) # ch_session h @ be16_bytes (of_nat (length (ch_ciphers h)))
      @ ch_ciphers h @ of_nat (length (ch_compression h)) # ch_compression h
      @ be16_bytes (of_nat (length (ch_exts h))) @ ch_exts h @ ys" by (simp add: ch_front_def)
  have len: "length (ch_front h) = ?p3 + 2" using ok by (simp add: ch_front_def)
  have "byte_at ?b 38 = Ok (of_nat (length (ch_session h)))"
    using nth_append_length [of ?f0] ok by (simp add: b byte_at_def nth_append)
  moreover have "be16_at ?b ?p1 = Ok (of_nat (length (ch_ciphers h)))"
    using be16_at_append [of ?p1 ?f1] ok by (simp add: b)
  moreover have "byte_at ?b ?p2 = Ok (of_nat (length (ch_compression h)))"
    using nth_append_length [of ?f2] ok by (simp add: b byte_at_def nth_append)
  moreover have "be16_at ?b ?p3 = Ok (of_nat (length (ch_exts h)))"
    using be16_at_append [of ?p3 ?f3] ok by (simp add: b)
  moreover have "unat (of_nat (length (ch_session h)) :: u8) = length (ch_session h)"
    "unat (of_nat (length (ch_compression h)) :: u8) = length (ch_compression h)"
    "unat (of_nat (length (ch_ciphers h)) :: u16) = length (ch_ciphers h)"
    "unat (of_nat (length (ch_exts h)) :: u16) = length (ch_exts h)"
    using ok by (simp_all add: unat_of_nat_u8 unat_of_nat_u16)
  ultimately show ?thesis
    unfolding parse_client_hello_body_def Let_def using len
    by (simp add: min_def del: and_then_Ok_iff)
qed

section \<open>Properties\<close>

text \<open>The server name of a TLS connection is found. For every ClientHello with well-formed lengths, whatever
  extensions precede the server name (none of them another server name) and whatever follows it in the buffer,
  \<^verbatim>\<open>sniff_domain\<close> answers with that name.\<close>

theorem sniff_domain_finds_sni:
  assumes "client_hello_ok h"
  shows "sniff_domain (hello_bytes h @ ys) = Ok (Some (bytes_str (ch_host h), ''tls''))"
proof -
  note ok = assms [unfolded client_hello_ok_def]
  let ?pre = "concat (map ext_bytes (ch_before h))" let ?post = "concat (map ext_bytes (ch_after h))"
  let ?b = "ch_front h @ ch_exts h @ ys" let ?e = "length (ch_front h) + length (ch_exts h)"
  have small: "length ?pre + (length (ch_host h) + 9) < 65536"
    using ok by (simp add: ch_exts_def sni_ext_def ext_bytes_def)
  have "list_all (\<lambda>e. length (snd e) < 65536) (ch_before h)"
    unfolding list_all_iff
  proof
    fix e assume "e \<in> set (ch_before h)"
    then have "length (ext_bytes e) \<le> length ?pre"
      by (auto simp: length_concat intro!: member_le_sum_list)
    then show "length (snd e) < 65536" using small by (simp add: ext_bytes_def)
  qed
  moreover have "list_all (\<lambda>e. fst e \<noteq> 0) (ch_before h)" using ok by simp
  ultimately have "extensions ?b (length (ch_front h)) ?e
      = extensions ((ch_front h @ ?pre) @ sni_ext (ch_host h) @ ?post @ ys) (length (ch_front h @ ?pre)) ?e"
    using extensions_skip_all [of "ch_before h" "length (ch_front h)" "ch_front h" ?e "sni_ext (ch_host h) @ ?post @ ys"]
    by (simp add: ch_exts_def)
  also have "\<dots> = Ok (Some (bytes_str (ch_host h)))"
    using ok small by (intro extensions_sni) (simp_all add: ch_exts_def)
  finally have "parse_client_hello_body ?b = Ok (Some (bytes_str (ch_host h)))"
    using parse_client_hello_body_front [OF assms] by simp
  moreover have "hello_bytes h @ ys = (0x16 # ch_record h) @ ?b" "length (0x16 # ch_record h) = 5"
    using ok by (simp_all add: hello_bytes_def)
  moreover have "ch_front h ! 0 = 0x01" "ch_front h \<noteq> []" by (simp_all add: ch_front_def)
  moreover have "38 < length (ch_front h)" using ok by (simp add: ch_front_def)
  ultimately have "parse_tls_sni (hello_bytes h @ ys) = Ok (Some (bytes_str (ch_host h)))"
    "43 < length (hello_bytes h @ ys)"
    by (simp_all add: parse_tls_sni_def byte_at_def slice_def nth_append nth_Cons' )
  then show ?thesis by (simp add: sniff_domain_def byte_at_def hello_bytes_def)
qed

theorem sniff_domain_finds_sni_witness:
  "sniff_domain (hello_bytes sample_hello @ [1, 2, 3]) = Ok (Some (''e.co'', ''tls''))"
proof -
  have "client_hello_ok sample_hello"
    by (simp add: client_hello_ok_def sample_hello_def ch_exts_def ext_bytes_def sni_ext_def
        ascii_utf8_valid del: utf8_valid.simps)
  then have "sniff_domain (hello_bytes sample_hello @ [1, 2, 3])
      = Ok (Some (bytes_str (ch_host sample_hello), ''tls''))"
    by (rule sniff_domain_finds_sni)
  then show ?thesis by (simp add: sample_hello_def bytes_str_def char_of_def bit_0)
qed

text \<open>Sniffing is transparent. However the read under the timeout ends, with or without sniffing, packet
  detection and an audit that blocks, \<^verbatim>\<open>sniff_and_detect_stream\<close> does not panic, and if it hands a stream on then
  that stream still delivers exactly the bytes of the original one; if it fails, then only because detection is on and the
  audit blocks the bytes that came first.\<close>

theorem sniff_transparent:
  "case sniff_and_detect_stream outcome stream target_ip sniff_enabled detect_packet audit of
     Ok (sniffed, ps) \<Rightarrow> stream_data ps = concat stream
   | Err e \<Rightarrow> e = PermissionDenied \<and> detect_packet \<and>
       (\<exists>should_block. audit = Some should_block \<and> should_block (fst (net_read 1024 stream)))
   | Panic \<Rightarrow> False"
proof -
  obtain got rest where r: "net_read 1024 stream = (got, rest)" by fastforce
  have d: "concat stream = got @ concat rest" using net.rd_in_order [OF r] .
  obtain v where "sniff_domain got = Ok v" using sniff_domain_Ok by blast
  then show ?thesis
    using r d by (cases outcome) (auto simp: sniff_and_detect_stream_def split: option.splits)
qed

lemma sniff_async_transparent: "\<exists>sniffed ps. sniff_async_stream outcome stream target_ip sniff_enabled = Ok (sniffed, ps) \<and> stream_data ps = concat stream"
proof -
  obtain got rest where r: "net_read 1024 stream = (got, rest)" by fastforce
  have d: "concat stream = got @ concat rest" using net.rd_in_order [OF r] .
  obtain v where "sniff_domain got = Ok v" using sniff_domain_Ok by blast
  then show ?thesis using r d by (cases outcome) (auto simp: sniff_async_stream_def stream_data_def prefixed_new_def)
qed

end
