(* ===== verification/Proxy_Protocol.thy ===== *)
theory Proxy_Protocol
  imports Rust_Net Net_Stream
begin

text \<open>
  \<^verbatim>\<open>src/conn/proxy_protocol.rs\<close>: the PROXY protocol (versions 1 and 2) in front of a TCP stream or in a
  datagram. The stream is a list of segments, so where TCP cuts the header matters as it does in the code, which looks
  at the first read only to recognise a header. Whether a network of the trusted list contains an address is the parameter
  \<open>net_contains\<close> (crate \<^verbatim>\<open>ipnet\<close>). \<open>read_v2\<close> and \<open>read_v1\<close> are the two blocks of
  \<^verbatim>\<open>read_proxy_protocol_with_meta\<close>; \<open>push_bytes\<close> and \<open>read_line\<close> are their byte-wise reading loops, counted down from the
  16 bytes and the 108 bytes at which they stop. The loop that reads the rest of a version 2 header runs at most once,
  since \<^verbatim>\<open>read_exact\<close> fills the buffer.
\<close>

section \<open>Types\<close>

definition V2_SIGNATURE :: bytes where
  "V2_SIGNATURE = [0x0D, 0x0A, 0x0D, 0x0A, 0x00, 0x0D, 0x0A, 0x51, 0x55, 0x49, 0x54, 0x0A]"

datatype proxy_protocol_mode = Off | Auto | Strict

definition from_str_opt :: "string \<Rightarrow> proxy_protocol_mode" where
  "from_str_opt val =
     (let v = to_lowercase val
      in if v \<in> set [''strict'', ''force'', ''1'', ''true''] then Strict
         else if v \<in> set [''auto'', ''detect''] then Auto else Off)"

record connection_meta =
  transport_peer_addr :: socket_addr
  client_addr :: socket_addr
  proxy_destination_addr :: "socket_addr option"
  proxy_protocol_version :: "nat option"

definition connection_meta_new :: "socket_addr \<Rightarrow> connection_meta" where
  "connection_meta_new peer_addr =
     \<lparr>transport_peer_addr = peer_addr, client_addr = peer_addr, proxy_destination_addr = None,
      proxy_protocol_version = None\<rparr>"

section \<open>Reading a header from a stream\<close>

definition ipv4_at :: "bytes \<Rightarrow> nat \<Rightarrow> ip_addr res" where
  "ipv4_at buf i =
     and_then (byte_at buf i) (\<lambda>a. and_then (byte_at buf (i + 1)) (\<lambda>b.
     and_then (byte_at buf (i + 2)) (\<lambda>c. and_then (byte_at buf (i + 3)) (\<lambda>d. Ok (ipv4_new a b c d)))))"

definition ipv6_at :: "bytes \<Rightarrow> nat \<Rightarrow> ip_addr res" where
  "ipv6_at buf i = map_res ipv6_from (slice buf i (i + 16))"

text \<open>The addresses a header carries are taken from a trusted peer, refused in strict mode from any other,
  and ignored otherwise.\<close>

definition apply_header ::
    "proxy_protocol_mode \<Rightarrow> bool \<Rightarrow> nat \<Rightarrow> connection_meta \<Rightarrow> socket_addr \<Rightarrow> socket_addr \<Rightarrow> connection_meta res" where
  "apply_header mode is_trusted version meta client dest =
     (if is_trusted
      then Ok (meta\<lparr>client_addr := client, proxy_destination_addr := Some dest,
                    proxy_protocol_version := Some version\<rparr>)
      else if mode = Strict then Err PermissionDenied
      else Ok meta)"

fun push_bytes :: "nat \<Rightarrow> bytes \<Rightarrow> net_stream \<Rightarrow> (bytes \<times> net_stream) res" where
  "push_bytes 0 buf stream = Ok (buf, stream)"
| "push_bytes (Suc k) buf stream =
     and_then (read_exact_from net_read 1 stream) (\<lambda>(b, stream).
     and_then (byte_at b 0) (\<lambda>b0. push_bytes k (buf @ [b0]) stream))"

definition read_v2 ::
    "proxy_protocol_mode \<Rightarrow> bool \<Rightarrow> connection_meta \<Rightarrow> bytes \<Rightarrow> net_stream \<Rightarrow> (connection_meta \<times> prefixed_stream) res" where
  "read_v2 mode is_trusted meta buf stream =
     and_then (push_bytes (16 - length buf) buf stream) (\<lambda>(buf, stream).
     and_then (byte_at buf 12) (\<lambda>version_cmd.
     and_then (byte_at buf 13) (\<lambda>fam_trans.
     and_then (be16_at buf 14) (\<lambda>plen.
     let payload_len = unat plen; total_v2_len = 16 + payload_len
     in if drop_bit 4 version_cmd \<noteq> 2
     then (if mode = Strict then Err InvalidData else Ok (meta, prefixed_new stream (Some buf)))
     else
     and_then (if length buf < total_v2_len
               then map_res (\<lambda>(temp, stream). (buf @ temp, stream))
                      (read_exact_from net_read (total_v2_len - length buf) stream)
               else Ok (buf, stream)) (\<lambda>(buf, stream).
     and_then (if length buf > total_v2_len then map_res Some (slice buf total_v2_len (length buf))
               else Ok None) (\<lambda>rest.
     let cmd = version_cmd AND 0x0F; fam = drop_bit 4 fam_trans AND 0x0F
     in if cmd = 0x01 \<and> fam = 0x01 \<and> payload_len \<ge> 12
        then
          and_then (ipv4_at buf 16) (\<lambda>src_ip. and_then (ipv4_at buf 20) (\<lambda>dst_ip.
          and_then (be16_at buf 24) (\<lambda>src_port. and_then (be16_at buf 26) (\<lambda>dst_port.
          map_res (\<lambda>meta. (meta, prefixed_new stream rest))
            (apply_header mode is_trusted 2 meta (SocketAddr src_ip src_port) (SocketAddr dst_ip dst_port))))))
        else if cmd = 0x01 \<and> fam = 0x02 \<and> payload_len \<ge> 36
        then
          and_then (ipv6_at buf 16) (\<lambda>src_ip. and_then (ipv6_at buf 32) (\<lambda>dst_ip.
          and_then (be16_at buf 48) (\<lambda>src_port. and_then (be16_at buf 50) (\<lambda>dst_port.
          map_res (\<lambda>meta. (meta, prefixed_new stream rest))
            (apply_header mode is_trusted 2 meta (SocketAddr src_ip src_port) (SocketAddr dst_ip dst_port))))))
        else Ok (meta\<lparr>proxy_protocol_version := Some 2\<rparr>, prefixed_new stream rest)))))))"

definition CRLF :: bytes where "CRLF = [0x0D, 0x0A]"

fun read_line :: "nat \<Rightarrow> bytes \<Rightarrow> net_stream \<Rightarrow> bytes \<times> net_stream" where
  "read_line 0 buf stream = (buf, stream)"
| "read_line (Suc k) buf stream =
     (if contains_sub buf CRLF then (buf, stream)
      else case read_exact_from net_read 1 stream of
        Ok (b, stream') \<Rightarrow> read_line k (buf @ b) stream'
      | _ \<Rightarrow> (buf, stream))"

text \<open>The four fields of a \<^verbatim>\<open>TCP4\<close> or \<^verbatim>\<open>TCP6\<close> line; nothing if one of them does not parse.\<close>

definition v1_addresses :: "string list \<Rightarrow> (socket_addr \<times> socket_addr) option" where
  "v1_addresses parts =
     (case (parse_ip (parts ! 2), parse_ip (parts ! 3), parse_u16 (parts ! 4), parse_u16 (parts ! 5)) of
        (Some src_ip, Some dst_ip, Some src_port, Some dst_port) \<Rightarrow>
          Some (SocketAddr src_ip src_port, SocketAddr dst_ip dst_port)
      | _ \<Rightarrow> None)"

definition no_header ::
    "proxy_protocol_mode \<Rightarrow> connection_meta \<Rightarrow> bytes \<Rightarrow> net_stream \<Rightarrow> (connection_meta \<times> prefixed_stream) res" where
  "no_header mode meta buf stream =
     (if mode = Strict then Err InvalidData else Ok (meta, prefixed_new stream (Some buf)))"

definition read_v1 ::
    "proxy_protocol_mode \<Rightarrow> bool \<Rightarrow> connection_meta \<Rightarrow> bytes \<Rightarrow> net_stream \<Rightarrow> (connection_meta \<times> prefixed_stream) res" where
  "read_v1 mode is_trusted meta buf stream =
     (case read_line (108 - length buf) buf stream of
        (buf, stream) \<Rightarrow>
          (case find_sub buf CRLF of
             None \<Rightarrow> no_header mode meta buf stream
           | Some p \<Rightarrow>
               and_then (slice buf 0 p) (\<lambda>line_bytes.
               and_then (if length buf > p + 2 then map_res Some (slice buf (p + 2) (length buf)) else Ok None) (\<lambda>rest.
               (case from_utf8 line_bytes of
                  None \<Rightarrow> no_header mode meta buf stream
                | Some line_str \<Rightarrow>
                    let parts = split_whitespace line_str
                    in if length parts \<ge> 6 \<and> (parts ! 1 = ''TCP4'' \<or> parts ! 1 = ''TCP6'')
                       then (case v1_addresses parts of
                               Some (client, dest) \<Rightarrow>
                                 map_res (\<lambda>meta. (meta, prefixed_new stream rest))
                                   (apply_header mode is_trusted 1 meta client dest)
                             | None \<Rightarrow> no_header mode meta buf stream)
                       else if length parts \<ge> 2 \<and> parts ! 1 = ''UNKNOWN''
                       then Ok (meta\<lparr>proxy_protocol_version := Some 1\<rparr>, prefixed_new stream rest)
                       else no_header mode meta buf stream)))))"

definition read_proxy_protocol_with_meta ::
    "('n \<Rightarrow> ip_addr \<Rightarrow> bool) \<Rightarrow> net_stream \<Rightarrow> socket_addr \<Rightarrow> proxy_protocol_mode \<Rightarrow> 'n list option
       \<Rightarrow> (connection_meta \<times> prefixed_stream) res" where
  "read_proxy_protocol_with_meta net_contains stream peer_addr mode trusted_proxies =
     (let meta = connection_meta_new peer_addr
      in if mode = Off then Ok (meta, prefixed_new stream None)
      else
        let is_trusted = (case trusted_proxies of
                            Some trusted \<Rightarrow> list_ex (\<lambda>n. net_contains n (sa_ip peer_addr)) trusted
                          | None \<Rightarrow> True);
            (buf, stream) = net_read 1024 stream
        in if buf = [] then Ok (meta, prefixed_new stream None)
           else if length buf \<ge> 12 \<and> take 12 buf = V2_SIGNATURE then read_v2 mode is_trusted meta buf stream
           else if length buf \<ge> 6 \<and> take 6 buf = str_bytes ''PROXY '' then read_v1 mode is_trusted meta buf stream
           else no_header mode meta buf stream)"

definition read_proxy_protocol ::
    "net_stream \<Rightarrow> proxy_protocol_mode \<Rightarrow> (socket_addr option \<times> prefixed_stream) res" where
  "read_proxy_protocol stream mode =
     (let dummy_addr = SocketAddr (V4 0) 0
      in and_then (read_proxy_protocol_with_meta (\<lambda>(n :: unit) ip. False) stream dummy_addr mode None) (\<lambda>(meta, stream).
           Ok (if proxy_protocol_version meta \<noteq> None \<and> client_addr meta \<noteq> dummy_addr
               then Some (client_addr meta) else None, stream)))"

section \<open>Writing a header, and headers in datagrams\<close>

definition v1_line :: "string \<Rightarrow> socket_addr \<Rightarrow> socket_addr \<Rightarrow> string" where
  "v1_line family src dst =
     ''PROXY '' @ family @ '' '' @ ip_string (sa_ip src) @ '' '' @ ip_string (sa_ip dst) @ '' ''
       @ dec_string (unat (sa_port src)) @ '' '' @ dec_string (unat (sa_port dst))"

definition encode_proxy_protocol_v1 :: "socket_addr \<Rightarrow> socket_addr \<Rightarrow> bytes" where
  "encode_proxy_protocol_v1 src dst =
     (case (sa_ip src, sa_ip dst) of
        (V4 s, V4 d) \<Rightarrow> str_bytes (v1_line ''TCP4'' src dst) @ CRLF
      | (V6 s, V6 d) \<Rightarrow> str_bytes (v1_line ''TCP6'' src dst) @ CRLF
      | _ \<Rightarrow> str_bytes ''PROXY UNKNOWN'' @ CRLF)"

definition encode_proxy_protocol_v2 :: "socket_addr \<Rightarrow> socket_addr \<Rightarrow> bytes" where
  "encode_proxy_protocol_v2 src dst =
     V2_SIGNATURE @
     (case (sa_ip src, sa_ip dst) of
        (V4 s, V4 d) \<Rightarrow> [0x21, 0x11] @ be16_bytes 12 @ be32_bytes s @ be32_bytes d
           @ be16_bytes (sa_port src) @ be16_bytes (sa_port dst)
      | (V6 s, V6 d) \<Rightarrow> [0x21, 0x21] @ be16_bytes 36 @ octets 16 s @ octets 16 d
           @ be16_bytes (sa_port src) @ be16_bytes (sa_port dst)
      | _ \<Rightarrow> [0x20, 0x00] @ be16_bytes 0)"

definition parse_proxy_protocol_datagram :: "bytes \<Rightarrow> proxy_protocol_mode \<Rightarrow> (socket_addr option \<times> bytes) res" where
  "parse_proxy_protocol_datagram data mode =
     (if mode = Off \<or> length data < 16 then Ok (None, data)
      else if starts_with data V2_SIGNATURE
      then
        and_then (byte_at data 12) (\<lambda>version_cmd.
        and_then (byte_at data 13) (\<lambda>fam_trans.
        and_then (be16_at data 14) (\<lambda>plen.
        let total_header_len = 16 + unat plen
        in if drop_bit 4 version_cmd \<noteq> 2
           then (if mode = Strict then Err InvalidData else Ok (None, data))
           else if length data < total_header_len
           then (if mode = Strict then Err UnexpectedEof else Ok (None, data))
           else
             and_then (slice data 16 total_header_len) (\<lambda>payload.
             and_then (slice data total_header_len (length data)) (\<lambda>rest.
             let cmd = version_cmd AND 0x0F; fam = drop_bit 4 fam_trans AND 0x0F
             in if cmd = 0x01 \<and> fam = 0x01 \<and> length payload \<ge> 12
                then and_then (ipv4_at payload 0) (\<lambda>src_ip. and_then (be16_at payload 8) (\<lambda>src_port.
                       Ok (Some (SocketAddr src_ip src_port), rest)))
                else if cmd = 0x01 \<and> fam = 0x02 \<and> length payload \<ge> 36
                then and_then (ipv6_at payload 0) (\<lambda>src_ip. and_then (be16_at payload 32) (\<lambda>src_port.
                       Ok (Some (SocketAddr src_ip src_port), rest)))
                else Ok (None, rest))))))
      else if mode = Strict then Err InvalidData
      else Ok (None, data))"

section \<open>Lemmas\<close>

lemma ipv4_at_Ok [rs_simps]:
  "i + 3 < length buf \<Longrightarrow>
     ipv4_at buf i = Ok (ipv4_new (buf ! i) (buf ! (i + 1)) (buf ! (i + 2)) (buf ! (i + 3)))"
  by (simp add: ipv4_at_def byte_at_def)

lemma ipv6_at_Ok [rs_simps]: "i + 16 \<le> length buf \<Longrightarrow> ipv6_at buf i = Ok (ipv6_from (take 16 (drop i buf)))"
  by (simp add: ipv6_at_def slice_def)

lemma push_bytes_data:
  "push_bytes k buf stream = Ok (buf', stream') \<Longrightarrow>
     buf' @ concat stream' = buf @ concat stream \<and> length buf' = length buf + k \<and>
     take (length buf) buf' = buf \<and> (net_ok stream \<longrightarrow> net_ok stream')"
proof (induction k arbitrary: buf stream)
  case (Suc k)
  then obtain b s x where b: "read_exact_from net_read 1 stream = Ok (b, s)" "byte_at b 0 = Ok x"
      "push_bytes k (buf @ [x]) s = Ok (buf', stream')"
    by auto
  from net.read_exact_data [OF b(1)] b(2) have "b = [x]"
    by (cases b) (auto simp: byte_at_def)
  with Suc.IH [OF b(3)] net.read_exact_data [OF b(1)] show ?case
    by (auto dest: arg_cong [of _ _ "take (length buf)"])
qed auto

lemma push_bytes_not_Panic [simp]: "push_bytes k buf stream \<noteq> Panic"
proof (induction k arbitrary: buf stream)
  case (Suc k)
  then show ?case
    using net.read_exact_no_panic by (auto simp: and_then_Panic_iff byte_at_def dest!: net.read_exact_data)
qed simp

lemma push_bytes_err: "push_bytes k buf stream = Err e \<Longrightarrow> e = UnexpectedEof"
proof (induction k arbitrary: buf stream)
  case (Suc k)
  then show ?case
    by (cases "read_exact_from net_read 1 stream") (auto simp: byte_at_def split: if_splits dest: net.read_exact_err)
qed simp

lemma push_bytes_enough:
  "net_ok stream \<Longrightarrow> k \<le> length (concat stream) \<Longrightarrow> \<exists>buf' stream'. push_bytes k buf stream = Ok (buf', stream')"
proof (induction k arbitrary: buf stream)
  case (Suc k)
  then obtain s where "read_exact_from net_read 1 stream = Ok (take 1 (concat stream), s)"
      "concat s = drop 1 (concat stream)" "net_ok s"
    using net.read_exact_enough [of stream 1] by auto
  moreover have "byte_at (take 1 (concat stream)) 0 = Ok (concat stream ! 0)"
    using Suc.prems by (simp add: byte_at_def)
  ultimately show ?case using Suc.IH [of s "buf @ [concat stream ! 0]"] Suc.prems by simp
qed simp

lemma read_line_data:
  "read_line k buf stream = (buf', stream') \<Longrightarrow>
     buf' @ concat stream' = buf @ concat stream \<and> length buf \<le> length buf'"
proof (induction k arbitrary: buf stream)
  case (Suc k)
  then show ?case
    by (auto split: if_splits res.splits dest!: net.read_exact_data Suc.IH)
qed auto

lemma apply_header_not_Panic [simp]: "apply_header mode is_trusted version meta client dest \<noteq> Panic"
  by (simp add: apply_header_def)

lemma apply_header_untrusted: "apply_header mode False version meta client dest = Ok m \<Longrightarrow> m = meta"
  by (simp add: apply_header_def split: if_splits)

lemma no_header_not_Panic [simp]: "no_header mode meta buf stream \<noteq> Panic"
  by (simp add: no_header_def)

lemma no_header_Ok [simp]:
  "no_header mode meta buf stream = Ok (m, ps) \<longleftrightarrow> mode \<noteq> Strict \<and> m = meta \<and> ps = prefixed_new stream (Some buf)"
  by (auto simp: no_header_def)

lemma length_V2_SIGNATURE [simp]: "length V2_SIGNATURE = 12"
  by (simp add: V2_SIGNATURE_def)

lemma length_CRLF [simp]: "length CRLF = 2"
  by (simp add: CRLF_def)

lemma PROXY_bytes: "str_bytes ''PROXY '' = [80, 82, 79, 88, 89, 32]"
  by (simp add: str_bytes_def)

text \<open>The stages of a version 2 header: the first 16 bytes, the rest of the header, and what is behind it.\<close>

definition v2_body ::
    "proxy_protocol_mode \<Rightarrow> bool \<Rightarrow> connection_meta \<Rightarrow> bytes \<Rightarrow> net_stream \<Rightarrow> (connection_meta \<times> prefixed_stream) res" where
  "v2_body mode is_trusted meta buf stream =
     (let total = 16 + unat (be16 (buf ! 14) (buf ! 15));
          rest = (if length buf > total then Some (drop total buf) else None);
          cmd = (buf ! 12) AND 0x0F; fam = drop_bit 4 (buf ! 13) AND 0x0F
      in if cmd = 0x01 \<and> fam = 0x01 \<and> total \<ge> 28
         then map_res (\<lambda>meta. (meta, prefixed_new stream rest))
                (apply_header mode is_trusted 2 meta
                   (SocketAddr (ipv4_new (buf ! 16) (buf ! 17) (buf ! 18) (buf ! 19)) (be16 (buf ! 24) (buf ! 25)))
                   (SocketAddr (ipv4_new (buf ! 20) (buf ! 21) (buf ! 22) (buf ! 23)) (be16 (buf ! 26) (buf ! 27))))
         else if cmd = 0x01 \<and> fam = 0x02 \<and> total \<ge> 52
         then map_res (\<lambda>meta. (meta, prefixed_new stream rest))
                (apply_header mode is_trusted 2 meta
                   (SocketAddr (ipv6_from (take 16 (drop 16 buf))) (be16 (buf ! 48) (buf ! 49)))
                   (SocketAddr (ipv6_from (take 16 (drop 32 buf))) (be16 (buf ! 50) (buf ! 51))))
         else Ok (meta\<lparr>proxy_protocol_version := Some 2\<rparr>, prefixed_new stream rest))"

lemma read_v2_cases:
  assumes "length buf \<ge> 12"
  obtains (short) "read_v2 mode is_trusted meta buf stream = Err UnexpectedEof"
      "net_ok stream \<Longrightarrow> length (buf @ concat stream) < 16 + unat (be16 ((buf @ concat stream) ! 14) ((buf @ concat stream) ! 15))"
  | (foreign) buf' stream' where "read_v2 mode is_trusted meta buf stream = no_header mode meta buf' stream'"
      "buf' @ concat stream' = buf @ concat stream" "16 \<le> length buf'" "drop_bit 4 (buf' ! 12) \<noteq> 2"
  | (whole) buf' stream' where "read_v2 mode is_trusted meta buf stream = v2_body mode is_trusted meta buf' stream'"
      "buf' @ concat stream' = buf @ concat stream" "16 + unat (be16 (buf' ! 14) (buf' ! 15)) \<le> length buf'"
      "drop_bit 4 (buf' ! 12) = 2"
proof (cases "push_bytes (16 - length buf) buf stream")
  case (Ok r)
  obtain b1 s1 where r: "r = (b1, s1)" by fastforce
  note p = push_bytes_data [OF Ok [unfolded r]]
  let ?total = "16 + unat (be16 (b1 ! 14) (b1 ! 15))"
  have l: "16 \<le> length b1" using p by linarith
  note reads = byte_at_Ok [of 12 b1] byte_at_Ok [of 13 b1] be16_at_Ok [of 14 b1]
  show ?thesis
  proof (cases "drop_bit 4 (b1 ! 12) = 2")
    case False
    then have "read_v2 mode is_trusted meta buf stream = no_header mode meta b1 s1"
      using l reads by (simp add: read_v2_def Ok r no_header_def Let_def)
    then show ?thesis using foreign False p l by blast
  next
    case ver: True
    define f where "f = (if length b1 < ?total
               then map_res (\<lambda>(temp, stream). (b1 @ temp, stream)) (read_exact_from net_read (?total - length b1) s1)
               else Ok (b1, s1))"
    show ?thesis
    proof (cases f)
      case f: (Ok r2)
      obtain b2 s2 where r2: "r2 = (b2, s2)" by fastforce
      have b2: "b2 @ concat s2 = b1 @ concat s1" "?total \<le> length b2" "take (length b1) b2 = b1"
        using f r2 unfolding f_def by (auto split: if_splits dest!: net.read_exact_data)
      have same: "b2 ! i = b1 ! i" if "i < 16" for i
        using b2(3) l that by (metis nth_take order_less_le_trans)
      have "read_v2 mode is_trusted meta buf stream = v2_body mode is_trusted meta b2 s2"
        using l reads ver f b2(2)
        by (simp add: read_v2_def Ok r Let_def f_def [symmetric] r2 v2_body_def same rs_simps)
      then show ?thesis using whole [of b2 s2] b2 p ver same by simp
    next
      case (Err e)
      then have "e = UnexpectedEof"
        unfolding f_def by (auto split: if_splits dest: net.read_exact_err)
      then have "read_v2 mode is_trusted meta buf stream = Err UnexpectedEof"
        using l reads ver Err by (simp add: read_v2_def Ok r Let_def f_def [symmetric])
      moreover have "length (b1 @ concat s1) < ?total" if "net_ok s1"
        using Err net.read_exact_enough [OF that, of "?total - length b1"] unfolding f_def
        by (cases "?total - length b1 \<le> length (concat s1)") (auto split: if_splits)
      moreover have "(buf @ concat stream) ! i = b1 ! i" if "i < 16" for i
        using p l that by (metis nth_append order_less_le_trans)
      ultimately show ?thesis using short p by simp
    next
      case Panic
      then show ?thesis using net.read_exact_no_panic unfolding f_def by (auto split: if_splits)
    qed
  qed
next
  case (Err e)
  then have "length (buf @ concat stream) < 16" if "net_ok stream"
    using push_bytes_enough [OF that, of "16 - length buf" buf]
    by (cases "16 - length buf \<le> length (concat stream)") auto
  then show ?thesis using short push_bytes_err [OF Err] Err by (fastforce simp: read_v2_def)
qed simp

lemma v2_body_result:
  assumes "16 + unat (be16 (buf ! 14) (buf ! 15)) \<le> length buf" "take 12 (buf @ concat stream) = V2_SIGNATURE"
  shows "case v2_body mode is_trusted meta buf stream of
      Ok (m, ps) \<Rightarrow> transport_peer_addr m = transport_peer_addr meta \<and>
        (\<exists>h. buf @ concat stream = h @ stream_data ps \<and> starts_with h V2_SIGNATURE) \<and>
        (\<not> is_trusted \<longrightarrow> client_addr m = client_addr meta \<and> proxy_destination_addr m = proxy_destination_addr meta)
    | Err e \<Rightarrow> mode = Strict | Panic \<Rightarrow> False"
proof -
  let ?total = "16 + unat (be16 (buf ! 14) (buf ! 15))"
  have "buf @ concat stream = take ?total buf @
      stream_data (prefixed_new stream (if length buf > ?total then Some (drop ?total buf) else None))"
    using assms(1) by simp
  moreover have "take 12 (take ?total buf) = V2_SIGNATURE"
    using assms by (simp add: min_def)
  then have "starts_with (take ?total buf) V2_SIGNATURE"
    by (simp only: starts_with_def length_V2_SIGNATURE)
  ultimately show ?thesis
    unfolding v2_body_def Let_def apply_header_def by auto
qed

lemma find_sub_split: "find_sub s p = Some i \<Longrightarrow> s = take i s @ p @ drop (i + length p) s"
  using find_sub_Some [of s p i]
  by (metis append_take_drop_id drop_drop add.commute starts_with_def)

lemma starts_with_append_longer:
  "starts_with buf p \<Longrightarrow> length buf \<le> length b \<Longrightarrow> b @ y = buf @ x \<Longrightarrow> starts_with b p"
  by (auto simp: starts_with_iff append_eq_append_conv2)

lemma line_starts_PROXY:
  assumes "starts_with b (str_bytes ''PROXY '')" "find_sub b CRLF = Some p"
  shows "starts_with (take p b @ CRLF) (str_bytes ''PROXY '')"
proof -
  have b: "take 6 b = [80, 82, 79, 88, 89, 32]"
    using assms(1) by (simp add: starts_with_def PROXY_bytes numeral_eq_Suc)
  have "b ! p = 13" "p < length b"
  proof -
    have "length (take p b) = p" using find_sub_Some [OF assms(2)] by simp
    moreover have "b = take p b @ 13 # 10 # drop (p + 2) b"
      using find_sub_split [OF assms(2)] by (simp add: CRLF_def)
    ultimately show "b ! p = 13" "p < length b"
      by (metis nth_append_length, metis length_append less_add_same_cancel1 length_greater_0_conv list.distinct(1))
  qed
  note p = this
  have "b ! i \<noteq> 13" if "i < 6" for i
  proof -
    have "length (take 6 b) = 6" using b by simp
    then have "b ! i \<in> set (take 6 b)" using that by (metis nth_mem nth_take)
    then show ?thesis unfolding b by auto
  qed
  then have "6 \<le> p" using p(1) by (metis not_le_imp_less)
  then show ?thesis using b p(2) by (simp add: starts_with_def PROXY_bytes numeral_eq_Suc min_def)
qed

lemma read_v1_result:
  assumes "starts_with buf (str_bytes ''PROXY '')"
  shows "case read_v1 mode is_trusted meta buf stream of
      Ok (m, ps) \<Rightarrow> transport_peer_addr m = transport_peer_addr meta \<and>
        (\<exists>h. buf @ concat stream = h @ stream_data ps \<and> (h = [] \<or> starts_with h (str_bytes ''PROXY ''))) \<and>
        (\<not> is_trusted \<longrightarrow> client_addr m = client_addr meta \<and> proxy_destination_addr m = proxy_destination_addr meta)
    | Err e \<Rightarrow> mode = Strict | Panic \<Rightarrow> False"
proof -
  obtain b s where r: "read_line (108 - length buf) buf stream = (b, s)" by fastforce
  note d = read_line_data [OF r]
  show ?thesis
  proof (cases "find_sub b CRLF")
    case None
    with r d show ?thesis by (auto simp: read_v1_def no_header_def)
  next
    case (Some p)
    note f = find_sub_split [OF Some]
    have l: "p + 2 \<le> length b"
      using arg_cong [OF f, of length] find_sub_Some [OF Some] by simp
    let ?rest = "if length b > p + 2 then Some (drop (p + 2) b) else None"
    let ?h = "take p b @ CRLF"
    have "b = ?h @ drop (p + 2) b" using f by simp
    then have "buf @ concat stream = ?h @ drop (p + 2) b @ concat s"
      using d by (metis append_assoc)
    then have "buf @ concat stream = ?h @ stream_data (prefixed_new s ?rest)"
      using l by simp
    moreover have "starts_with ?h (str_bytes ''PROXY '')"
      using line_starts_PROXY [OF _ Some] d assms by (metis starts_with_append_longer)
    ultimately show ?thesis
      using r d Some l
      by (auto simp: read_v1_def rs_simps Let_def no_header_def apply_header_def split: option.splits)
  qed
qed

lemma read_with_meta_result:
  "case read_proxy_protocol_with_meta net_contains stream peer_addr mode trusted_proxies of
     Ok (meta, ps) \<Rightarrow> transport_peer_addr meta = peer_addr \<and>
       (\<exists>h. concat stream = h @ stream_data ps \<and>
          (h = [] \<or> starts_with h V2_SIGNATURE \<or> starts_with h (str_bytes ''PROXY ''))) \<and>
       (\<not> (case trusted_proxies of Some nets \<Rightarrow> list_ex (\<lambda>n. net_contains n (sa_ip peer_addr)) nets | None \<Rightarrow> True)
         \<longrightarrow> client_addr meta = peer_addr \<and> proxy_destination_addr meta = None)
   | Err e \<Rightarrow> mode = Strict \<or> (mode = Auto \<and> e = UnexpectedEof)
   | Panic \<Rightarrow> False"
proof (cases "mode = Off")
  case True
  then show ?thesis by (simp add: read_proxy_protocol_with_meta_def connection_meta_new_def)
next
  case on: False
  let ?t = "case trusted_proxies of Some nets \<Rightarrow> list_ex (\<lambda>n. net_contains n (sa_ip peer_addr)) nets | None \<Rightarrow> True"
  let ?m = "connection_meta_new peer_addr"
  obtain buf s where r: "net_read 1024 stream = (buf, s)" by fastforce
  have d: "concat stream = buf @ concat s" using net.rd_in_order [OF r] .
  consider (none) "buf = []" | (v2) "buf \<noteq> []" "12 \<le> length buf \<and> take 12 buf = V2_SIGNATURE"
    | (v1) "buf \<noteq> []" "\<not> (12 \<le> length buf \<and> take 12 buf = V2_SIGNATURE)" "6 \<le> length buf \<and> take 6 buf = str_bytes ''PROXY ''"
    | (other) "buf \<noteq> []" "\<not> (12 \<le> length buf \<and> take 12 buf = V2_SIGNATURE)"
        "\<not> (6 \<le> length buf \<and> take 6 buf = str_bytes ''PROXY '')" by blast
  then show ?thesis
  proof cases
    case none
    then show ?thesis using on r d by (simp add: read_proxy_protocol_with_meta_def connection_meta_new_def)
  next
    case v2
    then have e: "read_proxy_protocol_with_meta net_contains stream peer_addr mode trusted_proxies
        = read_v2 mode ?t ?m buf s" using on r by (simp add: read_proxy_protocol_with_meta_def)
    have "12 \<le> length buf" using v2 by simp
    then show ?thesis
    proof (cases rule: read_v2_cases [where mode = mode and is_trusted = ?t and meta = ?m and stream = s])
      case short
      then show ?thesis using e on by (cases mode) auto
    next
      case (foreign b s')
      then show ?thesis using e d on by (cases mode) (auto simp: no_header_def connection_meta_new_def)
    next
      case (whole b s')
      have "take 12 (b @ concat s') = V2_SIGNATURE" using whole(2) v2 by simp
      from v2_body_result [OF whole(3) this, where mode = mode and is_trusted = ?t and meta = ?m] show ?thesis
        using e whole(1,2) d by (auto simp: connection_meta_new_def split: res.splits)
    qed
  next
    case v1
    then have e: "read_proxy_protocol_with_meta net_contains stream peer_addr mode trusted_proxies
        = read_v1 mode ?t ?m buf s" using on r by (auto simp: read_proxy_protocol_with_meta_def Let_def)
    have "length (str_bytes ''PROXY '') = 6" by simp
    then have "starts_with buf (str_bytes ''PROXY '')" using v1 by (simp only: starts_with_def)
    from read_v1_result [OF this, where mode = mode and is_trusted = ?t and meta = ?m and stream = s] show ?thesis
      using e d by (auto simp: connection_meta_new_def split: res.splits)
  next
    case other
    then show ?thesis using on r d
      by (cases mode) (auto simp: read_proxy_protocol_with_meta_def no_header_def connection_meta_new_def)
  qed
qed

text \<open>Round trips: what the encoders write is read back.\<close>

definition same_family :: "socket_addr \<Rightarrow> socket_addr \<Rightarrow> bool" where
  "same_family src dst \<longleftrightarrow>
     (case (sa_ip src, sa_ip dst) of (V4 s, V4 d) \<Rightarrow> True | (V6 s, V6 d) \<Rightarrow> True | _ \<Rightarrow> False)"

lemma same_family_cases:
  assumes "same_family src dst"
  obtains (v4) s d p q where "src = SocketAddr (V4 s) p" "dst = SocketAddr (V4 d) q"
  | (v6) s d p q where "src = SocketAddr (V6 s) p" "dst = SocketAddr (V6 d) q"
  using assms by (cases src; cases dst) (auto simp: same_family_def split: ip_addr.splits)

lemma ipv6_octets [simp]: "ipv6_from (octets 16 (w :: u128)) = V6 w"
proof -
  have "take_bit 128 w = w" using take_bit_length_eq [of w] by simp
  then show ?thesis using be_word_octets [of 16 w] by (simp add: ipv6_from_def)
qed

lemma v2_length_fields: "be16_bytes 12 = [0, 12]" "be16_bytes 36 = [0, 36]" "be16 0 12 = 12" "be16 0 36 = 36"
  by (simp_all add: be16_bytes_def be16_def)

lemma v2_body_encoded:
  assumes "same_family src dst"
  shows "v2_body mode True meta (encode_proxy_protocol_v2 src dst @ p) stream
       = Ok (meta\<lparr>client_addr := src, proxy_destination_addr := Some dst, proxy_protocol_version := Some 2\<rparr>,
             prefixed_new stream (if p = [] then None else Some p))"
  using assms
proof (cases rule: same_family_cases)
  case (v4 s d sp dp)
  then show ?thesis
    by (simp add: v2_body_def encode_proxy_protocol_v2_def V2_SIGNATURE_def v2_length_fields be32_bytes_def
        be16_bytes_def [of sp] be16_bytes_def [of dp] apply_header_def ipv4_new_def Let_def)
next
  case (v6 s d sp dp)
  then show ?thesis
    by (simp add: v2_body_def encode_proxy_protocol_v2_def V2_SIGNATURE_def v2_length_fields
        be16_bytes_def [of sp] be16_bytes_def [of dp] apply_header_def Let_def nth_append)
qed

lemma v2_header_fields:
  assumes "same_family src dst"
  shows "16 + unat (be16 ((encode_proxy_protocol_v2 src dst @ p) ! 14) ((encode_proxy_protocol_v2 src dst @ p) ! 15))
       = length (encode_proxy_protocol_v2 src dst)"
    and "drop_bit 4 ((encode_proxy_protocol_v2 src dst @ p) ! 12) = 2"
  using assms
  by (cases rule: same_family_cases;
      simp add: encode_proxy_protocol_v2_def V2_SIGNATURE_def v2_length_fields)+

lemma datagram_encoded:
  assumes "same_family src dst" "mode \<noteq> Off"
  shows "parse_proxy_protocol_datagram (encode_proxy_protocol_v2 src dst @ payload) mode = Ok (Some src, payload)"
  using assms(1)
proof (cases rule: same_family_cases)
  case (v4 s d sp dp)
  then show ?thesis
    using assms(2)
    by (simp add: parse_proxy_protocol_datagram_def encode_proxy_protocol_v2_def V2_SIGNATURE_def starts_with_def
        v2_length_fields be32_bytes_def be16_bytes_def [of sp] be16_bytes_def [of dp] ipv4_at_def byte_at_def be16_at_def
        slice_def ipv4_new_def Let_def)
next
  case (v6 s d sp dp)
  then show ?thesis
    using assms(2)
    by (simp add: parse_proxy_protocol_datagram_def encode_proxy_protocol_v2_def V2_SIGNATURE_def starts_with_def
        v2_length_fields be16_bytes_def [of sp] be16_bytes_def [of dp] ipv6_at_def byte_at_def be16_at_def
        slice_def Let_def nth_append)
qed

text \<open>The line of version 1.\<close>

lemma v1_parts:
  "split_whitespace (v1_line ''TCP4'' (SocketAddr (V4 s) sp) (SocketAddr (V4 d) dp))
     = [''PROXY'', ''TCP4'', v4_string s, v4_string d, dec_string (unat sp), dec_string (unat dp)]"
proof -
  have "is_word ''PROXY''" "is_word ''TCP4''" by (simp_all add: is_word_def is_ws_def)
  then have "split_whitespace (''PROXY'' @ CHR '' '' # ''TCP4'' @ CHR '' '' # v4_string s @ CHR '' '' # v4_string d
      @ CHR '' '' # dec_string (unat sp) @ CHR '' '' # dec_string (unat dp))
     = [''PROXY'', ''TCP4'', v4_string s, v4_string d, dec_string (unat sp), dec_string (unat dp)]"
    by (simp only: split_whitespace_Cons split_whitespace_word v4_string_word dec_string_word)
  then show ?thesis by (simp add: v1_line_def ip_string_def)
qed

lemma v1_line_length:
  "length (v1_line ''TCP4'' (SocketAddr (V4 s) sp) (SocketAddr (V4 d) dp)) \<le> 60"
proof -
  have "length (dec_string (unat (w :: u16))) \<le> 5" for w
    using unat_u16_less [of w] by (intro length_dec_string) simp_all
  from this [of sp] this [of dp] length_v4_string [of s] length_v4_string [of d] show ?thesis
    by (simp add: v1_line_def ip_string_def)
qed

lemma v1_line_ascii:
  "list_all (\<lambda>c. 32 \<le> (of_char c :: nat) \<and> (of_char c :: nat) < 128)
     (v1_line ''TCP4'' (SocketAddr (V4 s) sp) (SocketAddr (V4 d) dp))"
proof -
  have "list_all (\<lambda>c. 32 \<le> (of_char c :: nat) \<and> (of_char c :: nat) < 128) (dec_string n)" for n
    using dec_string_digits [of n] by (auto simp: list_all_iff is_digit_def)
  then show ?thesis by (simp add: v1_line_def ip_string_def v4_string_eq)
qed

lemma ascii_str_bytes:
  assumes "list_all (\<lambda>c. 32 \<le> (of_char c :: nat) \<and> (of_char c :: nat) < 128) l"
  shows "13 \<notin> set (str_bytes l)" "utf8_valid (str_bytes l)"
proof -
  have u: "unat (of_nat (of_char c) :: u8) = of_char c" for c :: char
    by (simp add: unat_of_nat take_bit_eq_mod)
  show "13 \<notin> set (str_bytes l)"
  proof
    assume "13 \<in> set (str_bytes l)"
    then obtain c where "c \<in> set l" "(13 :: u8) = of_nat (of_char c)" by (auto simp: str_bytes_def)
    then have "unat (13 :: u8) = of_char c" using u by metis
    then show False using assms \<open>c \<in> set l\<close> by (auto simp: list_all_iff)
  qed
  have "(of_nat (of_char c) :: u8) < 128" if "c \<in> set l" for c
    using assms that u [of c] by (auto simp: list_all_iff word_less_nat_alt)
  then show "utf8_valid (str_bytes l)" by (intro ascii_utf8_valid) (auto simp: str_bytes_def list_all_iff)
qed

lemma contains_CRLF_length:
  assumes "contains_sub buf CRLF" "buf @ x = a @ CRLF @ y" "13 \<notin> set a"
  shows "length a + 2 \<le> length buf"
proof -
  obtain u v where buf: "buf = u @ CRLF @ v" using assms(1) by (auto simp: contains_sub_iff)
  have "\<not> length u < length a"
  proof
    assume "length u < length a"
    moreover have "(a @ CRLF @ y) ! length u = 13"
      using nth_of_append_eq [OF assms(2), of "length u"] buf by (simp add: CRLF_def nth_append)
    ultimately show False using assms(3) nth_mem [of "length u" a] by (simp add: nth_append)
  qed
  then show ?thesis using buf by simp
qed

lemma read_line_reaches:
  assumes "read_line k buf st = (b, s')" "net_ok st" "buf @ concat st = a @ CRLF @ y" "13 \<notin> set a"
    "length a + 2 \<le> length buf + k"
  shows "length a + 2 \<le> length b"
  using assms
proof (induction k arbitrary: buf st)
  case (Suc k)
  show ?case
  proof (cases "contains_sub buf CRLF")
    case True
    then show ?thesis using Suc.prems contains_CRLF_length by auto
  next
    case False
    have "concat st \<noteq> []"
    proof
      assume "concat st = []"
      then have "buf = a @ CRLF @ y" using Suc.prems(3) by (simp only: append_Nil2)
      then show False using False contains_sub_iff by blast
    qed
    then obtain t where t: "read_exact_from net_read 1 st = Ok (take 1 (concat st), t)" "concat t = drop 1 (concat st)" "net_ok t"
      using net.read_exact_enough [OF Suc.prems(2), of 1] by (cases "concat st") auto
    have one: "length (take 1 (concat st)) = 1" using \<open>concat st \<noteq> []\<close> by (cases "concat st") auto
    have "read_line k (buf @ take 1 (concat st)) t = (b, s')" using Suc.prems(1) False t(1) by simp
    moreover have "(buf @ take 1 (concat st)) @ concat t = a @ CRLF @ y" using Suc.prems(3) t(2) by simp
    moreover have "length a + 2 \<le> length (buf @ take 1 (concat st)) + k" using Suc.prems(5) one by simp
    ultimately show ?thesis using Suc.IH t(3) Suc.prems(4) by blast
  qed
qed simp

lemma v1_line_front:
  "take 6 (str_bytes (v1_line f src dst) @ x) = str_bytes ''PROXY ''"
  by (simp add: v1_line_def str_bytes_def)

lemma PROXY_not_V2: "take 6 buf = str_bytes ''PROXY '' \<Longrightarrow> take 12 buf \<noteq> V2_SIGNATURE"
proof
  assume a: "take 6 buf = str_bytes ''PROXY ''" "take 12 buf = V2_SIGNATURE"
  have "take 6 (take 12 buf) = take 6 buf" by simp
  then show False unfolding a by (simp add: PROXY_bytes V2_SIGNATURE_def)
qed

lemma find_line: "13 \<notin> set a \<Longrightarrow> find_sub (a @ CRLF @ p) CRLF = Some (length a)"
  using find_sub_first [of 13 a "[10]" p] by (simp add: CRLF_def)

section \<open>Properties\<close>

text \<open>Reading a PROXY header never panics and never loses or reorders application data. Whatever the peer sends
  and however it is cut into segments: if a stream is handed on, it delivers the bytes of the connection without a header
  in front, which is empty or begins with one of the two signatures, and the transport peer is recorded as it is; an
  error is the end of the stream inside a header or a refusal in strict mode.\<close>

theorem proxy_protocol_conserves_data:
  "case read_proxy_protocol_with_meta net_contains stream peer_addr mode trusted_proxies of
     Ok (meta, ps) \<Rightarrow> transport_peer_addr meta = peer_addr \<and>
       (\<exists>h. concat stream = h @ stream_data ps \<and>
          (h = [] \<or> starts_with h V2_SIGNATURE \<or> starts_with h (str_bytes ''PROXY '')))
   | Err e \<Rightarrow> mode = Strict \<or> (mode = Auto \<and> e = UnexpectedEof)
   | Panic \<Rightarrow> False"
  using read_with_meta_result [where net_contains = net_contains and stream = stream and peer_addr = peer_addr
      and mode = mode and trusted_proxies = trusted_proxies]
  by (auto split: res.splits)

text \<open>C4: only a trusted proxy can set the client address. If a list of trusted networks is given and none of them
  contains the peer, then no bytes the peer sends change the client address or set a destination: in strict mode a
  header is refused or ignored, in automatic mode ignored.\<close>

theorem proxy_untrusted_never_spoofs:
  assumes "trusted_proxies = Some nets" and "\<not> list_ex (\<lambda>n. net_contains n (sa_ip peer_addr)) nets"
    and "read_proxy_protocol_with_meta net_contains stream peer_addr mode trusted_proxies = Ok (meta, ps)"
  shows "client_addr meta = peer_addr \<and> proxy_destination_addr meta = None"
  using read_with_meta_result [where net_contains = net_contains and stream = stream and peer_addr = peer_addr
      and mode = mode and trusted_proxies = trusted_proxies] assms by simp

theorem proxy_untrusted_never_spoofs_witness:
  "\<exists>meta ps. read_proxy_protocol_with_meta (\<lambda>n ip. ip = n)
       [encode_proxy_protocol_v2 (SocketAddr (V4 7) 80) (SocketAddr (V4 9) 443)] (SocketAddr (V4 1) 5) Auto (Some [V4 2])
         = Ok (meta, ps) \<and> client_addr meta = SocketAddr (V4 1) 5 \<and> proxy_destination_addr meta = None"
proof -
  let ?s = "[encode_proxy_protocol_v2 (SocketAddr (V4 7) 80) (SocketAddr (V4 9) 443)]"
  let ?m = "connection_meta_new (SocketAddr (V4 1) 5)"
  have "read_proxy_protocol_with_meta (\<lambda>n ip. ip = n) ?s (SocketAddr (V4 1) 5) Auto (Some [V4 2]) = Ok (?m, prefixed_new [] None)"
    by (simp add: read_proxy_protocol_with_meta_def encode_proxy_protocol_v2_def V2_SIGNATURE_def v2_length_fields
        be32_bytes_def be16_bytes_def read_v2_def byte_at_def be16_at_def slice_def ipv4_at_def apply_header_def Let_def)
  then show ?thesis
    using proxy_untrusted_never_spoofs [of "Some [V4 2]" "[V4 2]" "\<lambda>n ip. ip = n" "SocketAddr (V4 1) 5" ?s Auto ?m]
    by simp
qed

text \<open>A version 2 header is read back as it was written. If a trusted peer (or any peer when no list of trusted
  networks is given) sends the header \<^verbatim>\<open>encode_proxy_protocol_v2\<close> writes for two addresses of one family, followed by
  any payload and cut into segments in any way that leaves the 12 bytes of the signature in the first one, then the client and
  the destination are the encoded ones and the stream that is handed on delivers the payload; and the same header in
  a datagram gives the source address and the payload.\<close>

theorem proxy_v2_roundtrip:
  assumes "same_family src dst" and "mode \<noteq> Off"
    and "concat (c # cs) = encode_proxy_protocol_v2 src dst @ payload" and "net_ok (c # cs)" and "12 \<le> length c"
    and "\<forall>nets. trusted_proxies = Some nets \<longrightarrow> list_ex (\<lambda>n. net_contains n (sa_ip peer_addr)) nets"
  shows "(\<exists>meta ps. read_proxy_protocol_with_meta net_contains (c # cs) peer_addr mode trusted_proxies = Ok (meta, ps) \<and>
       client_addr meta = src \<and> proxy_destination_addr meta = Some dst \<and> proxy_protocol_version meta = Some 2 \<and>
       stream_data ps = payload)
     \<and> parse_proxy_protocol_datagram (encode_proxy_protocol_v2 src dst @ payload) mode = Ok (Some src, payload)"
proof
  let ?e = "encode_proxy_protocol_v2 src dst" let ?m = "connection_meta_new peer_addr"
  obtain buf s where r: "net_read 1024 (c # cs) = (buf, s)" by fastforce
  have d: "buf @ concat s = ?e @ payload" using net.rd_in_order [OF r] assms(3) by simp
  have l: "12 \<le> length buf" using r assms(5) by (auto split: if_splits)
  have "take 12 buf = take 12 (buf @ concat s)" using l by simp
  then have "take 12 buf = take 12 (?e @ payload)" using d by simp
  also have "\<dots> = V2_SIGNATURE" by (simp add: encode_proxy_protocol_v2_def)
  finally have "take 12 buf = V2_SIGNATURE" .
  moreover have "buf \<noteq> []" using l by auto
  ultimately have "read_proxy_protocol_with_meta net_contains (c # cs) peer_addr mode trusted_proxies
      = read_v2 mode True ?m buf s"
    using l r assms(2,6) by (auto simp: read_proxy_protocol_with_meta_def Let_def split: option.splits)
  moreover have "\<exists>p s'. read_v2 mode True ?m buf s = v2_body mode True ?m (?e @ p) s' \<and> payload = p @ concat s'"
    using l
  proof (cases rule: read_v2_cases [where mode = mode and is_trusted = True and meta = ?m and stream = s])
    case short
    then show ?thesis using d v2_header_fields [OF assms(1), of payload] net.rd_keeps_ok [OF assms(4) r] by simp
  next
    case (foreign b s')
    have "b ! 12 = (?e @ payload) ! 12" using nth_of_append_eq [OF foreign(2)] foreign(3) d by simp
    then show ?thesis using foreign(4) v2_header_fields [OF assms(1), of payload] by simp
  next
    case (whole b s')
    have b: "b @ concat s' = ?e @ payload" using whole(2) d by simp
    have "b ! i = (?e @ payload) ! i" if "i < 16" for i
      using nth_of_append_eq [OF b] whole(3) that by simp
    then have "length ?e \<le> length b" using whole(3) v2_header_fields [OF assms(1), of payload] by simp
    then obtain p where "b = ?e @ p" "payload = p @ concat s'"
      using b append_eq_longer by metis
    then show ?thesis using whole(1) by blast
  qed
  ultimately show "\<exists>meta ps. read_proxy_protocol_with_meta net_contains (c # cs) peer_addr mode trusted_proxies = Ok (meta, ps) \<and>
       client_addr meta = src \<and> proxy_destination_addr meta = Some dst \<and> proxy_protocol_version meta = Some 2 \<and>
       stream_data ps = payload"
    using v2_body_encoded [OF assms(1)] by auto
  show "parse_proxy_protocol_datagram (?e @ payload) mode = Ok (Some src, payload)"
    using assms(1,2) by (rule datagram_encoded)
qed

theorem proxy_v2_roundtrip_witness:
  "\<exists>meta ps. read_proxy_protocol_with_meta (\<lambda>n ip. ip = n)
       [encode_proxy_protocol_v2 (SocketAddr (V4 7) 80) (SocketAddr (V4 9) 443) @ [1], [2]]
       (SocketAddr (V4 1) 5) Auto (Some [V4 1]) = Ok (meta, ps) \<and>
     client_addr meta = SocketAddr (V4 7) 80 \<and> stream_data ps = [1, 2]"
proof -
  let ?e = "encode_proxy_protocol_v2 (SocketAddr (V4 7) 80) (SocketAddr (V4 9) 443)"
  have "?e \<noteq> []" "12 \<le> length ?e" by (simp_all add: encode_proxy_protocol_v2_def V2_SIGNATURE_def)
  then show ?thesis
    using proxy_v2_roundtrip [of "SocketAddr (V4 7) 80" "SocketAddr (V4 9) 443" Auto "?e @ [1]" "[[2]]" "[1, 2]"
        "Some [V4 1]" "\<lambda>n ip. ip = n" "SocketAddr (V4 1) 5"]
    by (auto simp: same_family_def net_ok_def)
qed

text \<open>A version 1 header is read back as it was written, for IPv4 addresses: the line
  \<^verbatim>\<open>encode_proxy_protocol_v1\<close> writes, with any payload behind it and cut into segments in any way that leaves its first six
  bytes in the first one, gives its addresses and ports, and the stream that is handed on delivers the payload.\<close>

theorem proxy_v1_roundtrip:
  assumes "src = SocketAddr (V4 s) sp" and "dst = SocketAddr (V4 d) dp" and "mode \<noteq> Off"
    and "concat (c # cs) = encode_proxy_protocol_v1 src dst @ payload" and "net_ok (c # cs)" and "6 \<le> length c"
  shows "\<exists>meta ps. read_proxy_protocol_with_meta net_contains (c # cs) peer_addr mode None = Ok (meta, ps) \<and>
       client_addr meta = src \<and> proxy_destination_addr meta = Some dst \<and> proxy_protocol_version meta = Some 1 \<and>
       stream_data ps = payload"
proof -
  let ?l = "v1_line ''TCP4'' src dst" let ?a = "str_bytes ?l" let ?m = "connection_meta_new peer_addr"
  obtain buf st where r: "net_read 1024 (c # cs) = (buf, st)" by fastforce
  have d: "buf @ concat st = ?a @ CRLF @ payload"
    using net.rd_in_order [OF r] assms(1,2,4) by (simp add: encode_proxy_protocol_v1_def)
  have l: "6 \<le> length buf" "buf \<noteq> []" using r assms(6) by (auto split: if_splits)
  have pre: "take 6 buf = str_bytes ''PROXY ''"
    using take_of_append_eq [OF d l(1)] by (simp only: v1_line_front)
  moreover have "take 12 buf \<noteq> V2_SIGNATURE"
    using pre by (metis PROXY_not_V2)
  ultimately have e: "read_proxy_protocol_with_meta net_contains (c # cs) peer_addr mode None = read_v1 mode True ?m buf st"
    using l r assms(3) by (auto simp: read_proxy_protocol_with_meta_def Let_def)
  obtain b s' where rl: "read_line (108 - length buf) buf st = (b, s')" by fastforce
  have len: "length ?a + 2 \<le> 108" "13 \<notin> set ?a" "utf8_valid ?a"
    using v1_line_length [of s sp d dp] ascii_str_bytes [OF v1_line_ascii] assms(1,2) by simp_all
  have "length ?a + 2 \<le> length b"
    using rl d len net.rd_keeps_ok [OF assms(5) r] by (intro read_line_reaches) auto
  moreover have "b @ concat s' = (?a @ CRLF) @ payload" using read_line_data [OF rl] d by simp
  ultimately obtain p where "b = (?a @ CRLF) @ p" and pay: "payload = p @ concat s'"
    using append_eq_longer [of b "concat s'" "?a @ CRLF" payload] by auto
  then have b: "b = ?a @ CRLF @ p" by simp
  show ?thesis
    unfolding e using assms(1,2) rl b pay len
    by (auto simp: read_v1_def find_line slice_def from_utf8_def v1_parts v1_addresses_def Let_def apply_header_def
        parse_ip_v4_string parse_u16_dec_string)
qed

theorem proxy_v1_roundtrip_witness:
  "\<exists>meta ps. read_proxy_protocol_with_meta (\<lambda>(n :: unit) ip. False)
       [encode_proxy_protocol_v1 (SocketAddr (V4 7) 80) (SocketAddr (V4 9) 443), [1, 2]]
       (SocketAddr (V4 1) 5) Strict None = Ok (meta, ps) \<and>
     client_addr meta = SocketAddr (V4 7) 80 \<and> stream_data ps = [1, 2]"
proof -
  let ?e = "encode_proxy_protocol_v1 (SocketAddr (V4 7) 80) (SocketAddr (V4 9) 443)"
  have "?e \<noteq> []" "6 \<le> length ?e" by (simp_all add: encode_proxy_protocol_v1_def v1_line_def CRLF_def)
  then show ?thesis
    using proxy_v1_roundtrip [of "SocketAddr (V4 7) 80" 7 80 "SocketAddr (V4 9) 443" 9 443 Strict ?e "[[1, 2]]" "[1, 2]"
        "\<lambda>(n :: unit) ip. False" "SocketAddr (V4 1) 5"]
    by (auto simp: net_ok_def)
qed

end
