(* ===== verification/Varint.thy ===== *)
theory Varint
  imports Prelude
begin

text \<open>
  Base-128 varints, the integers of protobuf messages. \<open>varint_bytes\<close> is the reference encoding; the component theories
  relate the readers and writers of the sources to it: \<^verbatim>\<open>read_varint\<close> of \<^verbatim>\<open>geo/dat.rs\<close> and of \<^verbatim>\<open>transport/grpc.rs\<close>,
  \<^verbatim>\<open>read_uvarint\<close> of \<^verbatim>\<open>protocol/vless/header.rs\<close> and \<^verbatim>\<open>encode_varint\<close> of \<^verbatim>\<open>transport/grpc.rs\<close>.
\<close>

fun varint_bytes :: "nat \<Rightarrow> bytes" where
  "varint_bytes n = (if n < 128 then [of_nat n] else of_nat (n mod 128 + 128) # varint_bytes (n div 128))"

declare varint_bytes.simps [simp del]

lemma varint_low: "(ucast ((of_nat (n mod 128 + 128) :: u8) AND 0x7F) :: u64) = of_nat (n mod 128)"
proof -
  have m: "(0x7F :: u8) = mask 7" by (simp add: mask_eq_exp_minus_1)
  have "unat ((of_nat (n mod 128 + 128) :: u8) AND 0x7F) = n mod 128"
    unfolding m take_bit_eq_mask [symmetric] unsigned_take_bit_eq unat_of_nat
    by (simp add: take_bit_eq_mod) 
  then show ?thesis by (metis of_nat_unat)
qed

lemma bit_word_of_nat: "bit (of_nat m :: 'l::len word) i \<longleftrightarrow> i < LENGTH('l) \<and> bit m i"
  by (auto simp: bit_of_nat_iff)

lemma varint_high: "(of_nat (n mod 128 + 128) :: u8) AND 0x80 \<noteq> 0"
proof -
  have "(n mod 128 + 128) div 2 ^ 7 = Suc 0" by simp
  then have "bit (n mod 128 + 128) 7" unfolding bit_iff_odd by simp
  then have "bit (of_nat (n mod 128 + 128) :: u8) 7" by (simp only: bit_word_of_nat) simp
  then show ?thesis using and_exp_eq_0_iff_not_bit [of "of_nat (n mod 128 + 128) :: u8" 7] by simp
qed

lemma varint_one: "n < 128 \<Longrightarrow> (of_nat n :: u8) AND 0x80 = 0 \<and> (ucast ((of_nat n :: u8) AND 0x7F) :: u64) = of_nat n"
proof -
  assume n: "n < 128"
  have "\<not> bit n 7" using n by (simp add: bit_iff_odd)
  then have "\<not> bit (of_nat n :: u8) 7" by (simp only: bit_word_of_nat) simp
  then have "(of_nat n :: u8) AND 0x80 = 0" using and_exp_eq_0_iff_not_bit [of "of_nat n :: u8" 7] by simp
  moreover have "unat ((of_nat n :: u8) AND 0x7F) = n"
  proof -
    have m: "(0x7F :: u8) = mask 7" by (simp add: mask_eq_exp_minus_1)
    show ?thesis
      unfolding m take_bit_eq_mask [symmetric] unsigned_take_bit_eq unat_of_nat using n by (simp add: take_bit_eq_mod)
  qed
  ultimately show ?thesis by (metis of_nat_unat)
qed

lemma varint_split:
  "(of_nat n :: u64) = of_nat (n mod 128) OR push_bit 7 (of_nat (n div 128))"
proof (rule bit_word_eqI)
  fix i assume "i < LENGTH(64)"
  have "bit n i \<longleftrightarrow> (if i < 7 then bit (n mod 128) i else bit (n div 128) (i - 7))"
  proof -
    have "n mod 128 = take_bit 7 n" "n div 128 = drop_bit 7 n" by (simp_all add: take_bit_eq_mod drop_bit_eq_div)
    then show ?thesis by (auto simp: bit_take_bit_iff bit_drop_bit_eq)
  qed
  moreover have "\<not> bit (n mod 128) i" if "7 \<le> i"
  proof -
    have "n mod 128 = take_bit 7 n" by (simp add: take_bit_eq_mod)
    then show ?thesis using that by (simp add: bit_take_bit_iff)
  qed
  ultimately show "bit (of_nat n :: u64) i = bit (of_nat (n mod 128) OR push_bit 7 (of_nat (n div 128)) :: u64) i"
    using \<open>i < LENGTH(64)\<close> by (auto simp: bit_word_of_nat bit_or_iff bit_push_bit_iff)
qed

text \<open>The steps of a reader that has already shifted by \<open>shift\<close> bits: what is left fits behind the shift, and the parts add up.\<close>

lemma varint_next_shift:
  assumes "n < (2 :: nat) ^ (64 - shift)" "\<not> n < 128"
  shows "shift + 7 < 64" "n div 128 < 2 ^ (64 - (shift + 7))"
proof -
  have "(2::nat) ^ 7 < 2 ^ (64 - shift)" using assms by simp
  then show s: "shift + 7 < 64" using power_strict_increasing_iff [of "2::nat" 7 "64 - shift"] by simp
  have "(2::nat) ^ (64 - shift) = 128 * 2 ^ (64 - (shift + 7))"
    using s power_add [of "2::nat" 7 "64 - (shift + 7)"] by simp
  then show "n div 128 < 2 ^ (64 - (shift + 7))" using assms(1) by (simp add: less_mult_imp_div_less mult.commute)
qed

lemma varint_parts:
  "push_bit shift (of_nat (n mod 128)) OR push_bit (shift + 7) (of_nat (n div 128)) = push_bit shift (of_nat n :: u64)"
  by (subst varint_split [of n]) (simp add: push_bit_push_bit push_bit_or)

end
