(* ===== verification/Geo_Dat.thy ===== *)
theory Geo_Dat
  imports Rust_Net Varint
begin

text \<open>
  \<^verbatim>\<open>src/geo/dat.rs\<close>: the protobuf reader over a \<^verbatim>\<open>geoip.dat\<close> / \<^verbatim>\<open>geosite.dat\<close> file, the index of its entries,
  the address ranges of a country (merged, sorted, searched by bisection) and the domain lists of a site group.

  A \<^verbatim>\<open>ProtoReader\<close> is its buffer and its position. The sums \<^verbatim>\<open>self.pos + len\<close> of the sources are taken modulo
  \<open>2^64\<close>, as release builds take them, so a length field can move the position back: the loops of the sources need not end, and
  are run with fuel (\<open>run_loop\<close>); \<open>None\<close> is a loop that has not ended within it. \<^verbatim>\<open>Ipv4Net\<close> / \<^verbatim>\<open>Ipv6Net\<close> (crate ipnet) are
  the parameters \<open>net4\<close> and \<open>net6\<close>, which give the first and the last address of a network, and \<^verbatim>\<open>Regex\<close> is the parameters
  \<open>regex_new\<close> and \<open>is_match\<close>.
\<close>

section \<open>Loops\<close>

datatype ('s, 'r) ctl = Continue 's | Break 'r

fun loop_bind :: "'a res option \<Rightarrow> ('a \<Rightarrow> 'b res option) \<Rightarrow> 'b res option" where
  "loop_bind None f = None"
| "loop_bind (Some (Ok x)) f = f x"
| "loop_bind (Some (Err e)) f = Some (Err e)"
| "loop_bind (Some Panic) f = Some Panic"

fun run_loop :: "nat \<Rightarrow> ('s \<Rightarrow> ('s, 'r) ctl res option) \<Rightarrow> 's \<Rightarrow> 'r res option" where
  "run_loop 0 step s = None"
| "run_loop (Suc n) step s =
     loop_bind (step s) (\<lambda>c. case c of Continue s' \<Rightarrow> run_loop n step s' | Break r \<Rightarrow> Some (Ok r))"

section \<open>The protobuf reader\<close>

definition usize_add :: "nat \<Rightarrow> nat \<Rightarrow> nat" where
  "usize_add a b = (a + b) mod 2 ^ 64"

function varint_loop :: "bytes \<Rightarrow> nat \<Rightarrow> nat \<Rightarrow> u64 \<Rightarrow> u64 option \<times> nat" where
  "varint_loop buf pos shift result =
     (if pos < length buf
      then let b = buf ! pos; result = result OR push_bit shift (ucast (b AND 0x7F))
           in if b AND 0x80 = 0 then (Some result, pos + 1)
              else if shift + 7 \<ge> 64 then (None, pos + 1)
              else varint_loop buf (pos + 1) (shift + 7) result
      else (None, pos))"
  by pat_completeness auto
termination
  by (relation "measure (\<lambda>(buf, pos, shift, result). length buf - pos)") auto

definition read_varint :: "bytes \<Rightarrow> nat \<Rightarrow> u64 option \<times> nat" where
  "read_varint buf pos = varint_loop buf pos 0 0"

definition read_tag :: "bytes \<Rightarrow> nat \<Rightarrow> (u32 \<times> u8) option \<times> nat" where
  "read_tag buf pos =
     (case read_varint buf pos of
        (Some var, pos) \<Rightarrow> (Some (ucast (drop_bit 3 var), ucast (var AND 0x07)), pos)
      | (None, pos) \<Rightarrow> (None, pos))"

definition read_bytes :: "bytes \<Rightarrow> nat \<Rightarrow> (bytes option \<times> nat) res" where
  "read_bytes buf pos =
     (case read_varint buf pos of
        (Some len, pos) \<Rightarrow>
          (if usize_add pos (unat len) > length buf then Ok (None, pos)
           else map_res (\<lambda>sl. (Some sl, usize_add pos (unat len))) (slice buf pos (usize_add pos (unat len))))
      | (None, pos) \<Rightarrow> Ok (None, pos))"

definition read_string :: "bytes \<Rightarrow> nat \<Rightarrow> (string option \<times> nat) res" where
  "read_string buf pos = map_res (\<lambda>(b, pos). (Option.bind b from_utf8, pos)) (read_bytes buf pos)"

text \<open>\<^verbatim>\<open>skip_field\<close>: the new position and whether the field was skipped; the callers ignore the latter.\<close>

definition skip_field :: "bytes \<Rightarrow> u8 \<Rightarrow> nat \<Rightarrow> bool \<times> nat" where
  "skip_field buf wire_type pos =
     (if wire_type = 0
      then (case read_varint buf pos of (v, pos) \<Rightarrow> (v \<noteq> None, pos))
      else if wire_type = 1
      then (if pos + 8 \<le> length buf then (True, pos + 8) else (False, pos))
      else if wire_type = 2
      then (case read_varint buf pos of
              (Some len, pos) \<Rightarrow>
                (if usize_add pos (unat len) \<le> length buf then (True, usize_add pos (unat len)) else (False, pos))
            | (None, pos) \<Rightarrow> (False, pos))
      else if wire_type = 5
      then (if pos + 4 \<le> length buf then (True, pos + 4) else (False, pos))
      else (False, pos))"

section \<open>Address ranges\<close>

text \<open>The IPv4 and the IPv6 ranges are treated by the same code at two widths.\<close>

definition saturating_add_one :: "'l::len word \<Rightarrow> 'l word" where
  "saturating_add_one w = (if w = - 1 then w else w + 1)"

fun merge_from :: "('l::len word \<times> 'l word) \<Rightarrow> ('l word \<times> 'l word) list \<Rightarrow> ('l word \<times> 'l word) list" where
  "merge_from cur [] = [cur]"
| "merge_from cur (next # rest) =
     (if fst next \<le> saturating_add_one (snd cur)
      then merge_from (fst cur, max (snd cur) (snd next)) rest
      else cur # merge_from next rest)"

definition merge_ranges :: "('l::len word \<times> 'l word) list \<Rightarrow> ('l word \<times> 'l word) list" where
  "merge_ranges rs = (case sort_key fst rs of [] \<Rightarrow> [] | cur # rest \<Rightarrow> merge_from cur rest)"

datatype ordering = Less | Equal | Greater

definition range_cmp :: "'l::len word \<Rightarrow> 'l word \<times> 'l word \<Rightarrow> ordering" where
  "range_cmp val r = (if val < fst r then Greater else if val > snd r then Less else Equal)"

text \<open>\<^verbatim>\<open>slice::binary_search_by(..).is_ok()\<close>: the interval of \<open>n\<close> elements from \<open>base\<close> on is halved.\<close>

function bsearch_base :: "('a \<Rightarrow> ordering) \<Rightarrow> 'a list \<Rightarrow> nat \<Rightarrow> nat \<Rightarrow> nat" where
  "bsearch_base f xs base n =
     (if n > 1
      then let half = n div 2; mid = base + half
           in bsearch_base f xs (if f (xs ! mid) = Greater then base else mid) (n - half)
      else base)"
  by pat_completeness auto
termination
  by (relation "measure (\<lambda>(f, xs, base, n). n)") auto

definition binary_search_is_ok :: "('a \<Rightarrow> ordering) \<Rightarrow> 'a list \<Rightarrow> bool" where
  "binary_search_is_ok f xs =
     (if xs = [] then False else f (xs ! bsearch_base f xs 0 (length xs)) = Equal)"

record country_ip_list =
  ipv4_ranges :: "(u32 \<times> u32) list"
  ipv6_ranges :: "(u128 \<times> u128) list"

definition country_contains :: "country_ip_list \<Rightarrow> ip_addr \<Rightarrow> bool" where
  "country_contains l ip =
     (case ip of
        V4 val \<Rightarrow> binary_search_is_ok (range_cmp val) (ipv4_ranges l)
      | V6 val \<Rightarrow> binary_search_is_ok (range_cmp val) (ipv6_ranges l))"

definition merge_and_sort :: "country_ip_list \<Rightarrow> country_ip_list" where
  "merge_and_sort l = \<lparr>ipv4_ranges = merge_ranges (ipv4_ranges l), ipv6_ranges = merge_ranges (ipv6_ranges l)\<rparr>"

section \<open>Files\<close>

record dat_file =
  dat_data :: bytes
  dat_index :: "(string \<times> nat \<times> nat) list"

text \<open>The name of an entry: the first field 1 of its message. \<open>conv\<close> is \<^verbatim>\<open>to_uppercase\<close> for countries and
  \<^verbatim>\<open>to_lowercase\<close> for site groups.\<close>

definition entry_key_step :: "bytes \<Rightarrow> nat \<Rightarrow> (nat, string option) ctl res option" where
  "entry_key_step entry pos =
     (if pos \<ge> length entry then Some (Ok (Break None))
      else case read_tag entry pos of
        (None, pos) \<Rightarrow> Some (Ok (Break None))
      | (Some (itag, iwire), pos) \<Rightarrow>
          (if itag = 1 \<and> iwire = 2
           then Some (map_res (\<lambda>(code, pos). Break code) (read_string entry pos))
           else Some (Ok (Continue (snd (skip_field entry iwire pos))))))"

definition index_step ::
    "nat \<Rightarrow> (string \<Rightarrow> string) \<Rightarrow> bytes \<Rightarrow> nat \<times> (string \<times> nat \<times> nat) list
       \<Rightarrow> (nat \<times> (string \<times> nat \<times> nat) list, (string \<times> nat \<times> nat) list) ctl res option" where
  "index_step fuel conv data st =
     (case st of (pos, index) \<Rightarrow>
        if pos \<ge> length data then Some (Ok (Break index))
        else case read_tag data pos of
          (None, pos) \<Rightarrow> Some (Ok (Break index))
        | (Some (tag, wire), pos) \<Rightarrow>
            (if tag = 1 \<and> wire = 2
             then loop_bind (Some (read_bytes data pos)) (\<lambda>(entry_bytes, pos).
                    case entry_bytes of
                      None \<Rightarrow> Some (Ok (Break index))
                    | Some entry \<Rightarrow>
                        loop_bind (run_loop fuel (entry_key_step entry) 0) (\<lambda>key.
                          Some (Ok (Continue (pos,
                            case key of
                              Some code \<Rightarrow> al_put (conv code) (pos - length entry, length entry) index
                            | None \<Rightarrow> index)))))
             else Some (Ok (Continue (snd (skip_field data wire pos), index)))))"

definition load_dat :: "nat \<Rightarrow> (string \<Rightarrow> string) \<Rightarrow> bytes \<Rightarrow> dat_file res option" where
  "load_dat fuel conv data =
     loop_bind (run_loop fuel (index_step fuel conv data) (0, [])) (\<lambda>index.
       Some (Ok \<lparr>dat_data = data, dat_index = index\<rparr>))"

definition load_geoip_file :: "nat \<Rightarrow> bytes \<Rightarrow> dat_file res option" where
  "load_geoip_file fuel data = load_dat fuel to_uppercase data"

definition load_geosite_file :: "nat \<Rightarrow> bytes \<Rightarrow> dat_file res option" where
  "load_geosite_file fuel data = load_dat fuel to_lowercase data"

section \<open>Countries\<close>

definition cidr_step ::
    "bytes \<Rightarrow> nat \<times> bytes option \<times> u32 \<Rightarrow> (nat \<times> bytes option \<times> u32, bytes option \<times> u32) ctl res option" where
  "cidr_step cidr st =
     (case st of (pos, ip_bytes, prefix) \<Rightarrow>
        if pos \<ge> length cidr then Some (Ok (Break (ip_bytes, prefix)))
        else case read_tag cidr pos of
          (None, pos) \<Rightarrow> Some (Ok (Break (ip_bytes, prefix)))
        | (Some (ctag, cwire), pos) \<Rightarrow>
            (if ctag = 1 \<and> cwire = 2
             then Some (map_res (\<lambda>(b, pos). Continue (pos, b, prefix)) (read_bytes cidr pos))
             else if ctag = 2 \<and> cwire = 0
             then (case read_varint cidr pos of (v, pos) \<Rightarrow>
                     Some (Ok (Continue (pos, ip_bytes, ucast (case v of Some x \<Rightarrow> x | None \<Rightarrow> 0)))))
             else Some (Ok (Continue (snd (skip_field cidr cwire pos), ip_bytes, prefix)))))"

text \<open>A network as the interval of its addresses.\<close>

type_synonym nets = "(u32 \<Rightarrow> nat \<Rightarrow> (u32 \<times> u32) option) \<times> (u128 \<Rightarrow> nat \<Rightarrow> (u128 \<times> u128) option)"

definition add_cidr :: "nets \<Rightarrow> bytes option \<Rightarrow> u32 \<Rightarrow> country_ip_list \<Rightarrow> country_ip_list" where
  "add_cidr nets ip_bytes prefix l =
     (case ip_bytes of
        None \<Rightarrow> l
      | Some raw_ip \<Rightarrow>
          (if length raw_ip = 4
           then (case fst nets (be_word raw_ip) (min (unat prefix) 32) of
                   Some r \<Rightarrow> l\<lparr>ipv4_ranges := ipv4_ranges l @ [r]\<rparr>
                 | None \<Rightarrow> l)
           else if length raw_ip = 16
           then (case snd nets (be_word raw_ip) (min (unat prefix) 128) of
                   Some r \<Rightarrow> l\<lparr>ipv6_ranges := ipv6_ranges l @ [r]\<rparr>
                 | None \<Rightarrow> l)
           else l))"

definition country_step ::
    "nat \<Rightarrow> nets \<Rightarrow> bytes \<Rightarrow> nat \<times> country_ip_list \<Rightarrow> (nat \<times> country_ip_list, country_ip_list) ctl res option" where
  "country_step fuel nets entry st =
     (case st of (pos, l) \<Rightarrow>
        if pos \<ge> length entry then Some (Ok (Break l))
        else case read_tag entry pos of
          (None, pos) \<Rightarrow> Some (Ok (Break l))
        | (Some (tag, wire), pos) \<Rightarrow>
            (if tag = 2 \<and> wire = 2
             then loop_bind (Some (read_bytes entry pos)) (\<lambda>(cidr_bytes, pos).
                    case cidr_bytes of
                      None \<Rightarrow> Some (Ok (Break l))
                    | Some cidr \<Rightarrow>
                        loop_bind (run_loop fuel (cidr_step cidr) (0, None, 0)) (\<lambda>(ip_bytes, prefix).
                          Some (Ok (Continue (pos, add_cidr nets ip_bytes prefix l)))))
             else Some (Ok (Continue (snd (skip_field entry wire pos), l)))))"

definition load_country :: "nat \<Rightarrow> nets \<Rightarrow> dat_file \<Rightarrow> string \<Rightarrow> country_ip_list option res option" where
  "load_country fuel nets f country_code =
     (case map_of (dat_index f) (to_uppercase (trim country_code)) of
        None \<Rightarrow> Some (Ok None)
      | Some (offset, len) \<Rightarrow>
          loop_bind (Some (slice (dat_data f) offset (offset + len))) (\<lambda>entry_slice.
          loop_bind (run_loop fuel (country_step fuel nets entry_slice) (0, \<lparr>ipv4_ranges = [], ipv6_ranges = []\<rparr>)) (\<lambda>l.
            Some (Ok (Some (merge_and_sort l))))))"

section \<open>Site groups\<close>

record 're site_group_list =
  exact_domains :: "string list"
  domain_suffixes :: "string list"
  kw_list :: "string list"
  regexes :: "'re list"

definition group_matches :: "('re \<Rightarrow> string \<Rightarrow> bool) \<Rightarrow> 're site_group_list \<Rightarrow> string \<Rightarrow> bool" where
  "group_matches is_match g domain =
     (let lower = to_lowercase domain
      in lower \<in> set (exact_domains g)
       \<or> list_ex (\<lambda>sfx. lower = sfx \<or> ends_with lower (''.'' @ sfx)) (domain_suffixes g)
       \<or> list_ex (\<lambda>kw. contains_sub lower kw) (kw_list g)
       \<or> list_ex (\<lambda>re. is_match re lower) (regexes g))"

definition domain_step ::
    "bytes \<Rightarrow> nat \<times> u32 \<times> string \<Rightarrow> (nat \<times> u32 \<times> string, u32 \<times> string) ctl res option" where
  "domain_step d st =
     (case st of (pos, dtype, dval) \<Rightarrow>
        if pos \<ge> length d then Some (Ok (Break (dtype, dval)))
        else case read_tag d pos of
          (None, pos) \<Rightarrow> Some (Ok (Break (dtype, dval)))
        | (Some (dtag, dwire), pos) \<Rightarrow>
            (if dtag = 1 \<and> dwire = 0
             then (case read_varint d pos of (v, pos) \<Rightarrow>
                     Some (Ok (Continue (pos, ucast (case v of Some x \<Rightarrow> x | None \<Rightarrow> 0), dval))))
             else if dtag = 2 \<and> dwire = 2
             then Some (map_res (\<lambda>(s, pos). Continue (pos, dtype,
                     case s of Some x \<Rightarrow> to_lowercase x | None \<Rightarrow> dval)) (read_string d pos))
             else Some (Ok (Continue (snd (skip_field d dwire pos), dtype, dval)))))"

definition add_domain :: "(string \<Rightarrow> 're option) \<Rightarrow> u32 \<Rightarrow> string \<Rightarrow> 're site_group_list \<Rightarrow> 're site_group_list" where
  "add_domain regex_new dtype dval g =
     (if dval = [] then g
      else if dtype = 0 then g\<lparr>kw_list := kw_list g @ [dval]\<rparr>
      else if dtype = 1
      then (case regex_new dval of Some re \<Rightarrow> g\<lparr>regexes := regexes g @ [re]\<rparr> | None \<Rightarrow> g)
      else if dtype = 3 then g\<lparr>exact_domains := List.insert dval (exact_domains g)\<rparr>
      else g\<lparr>domain_suffixes := domain_suffixes g @ [dval]\<rparr>)"

definition group_step ::
    "nat \<Rightarrow> (string \<Rightarrow> 're option) \<Rightarrow> bytes \<Rightarrow> nat \<times> 're site_group_list
       \<Rightarrow> (nat \<times> 're site_group_list, 're site_group_list) ctl res option" where
  "group_step fuel regex_new entry st =
     (case st of (pos, g) \<Rightarrow>
        if pos \<ge> length entry then Some (Ok (Break g))
        else case read_tag entry pos of
          (None, pos) \<Rightarrow> Some (Ok (Break g))
        | (Some (tag, wire), pos) \<Rightarrow>
            (if tag = 2 \<and> wire = 2
             then loop_bind (Some (read_bytes entry pos)) (\<lambda>(domain_bytes, pos).
                    case domain_bytes of
                      None \<Rightarrow> Some (Ok (Break g))
                    | Some d \<Rightarrow>
                        loop_bind (run_loop fuel (domain_step d) (0, 0, [])) (\<lambda>(dtype, dval).
                          Some (Ok (Continue (pos, add_domain regex_new dtype dval g)))))
             else Some (Ok (Continue (snd (skip_field entry wire pos), g)))))"

text \<open>\<^verbatim>\<open>Vec::dedup\<close> drops an element equal to the one before it; the suffixes are first sorted, longest first.\<close>

definition load_group :: "nat \<Rightarrow> (string \<Rightarrow> 're option) \<Rightarrow> dat_file \<Rightarrow> string \<Rightarrow> 're site_group_list option res option" where
  "load_group fuel regex_new f tag =
     (case map_of (dat_index f) (to_lowercase (trim tag)) of
        None \<Rightarrow> Some (Ok None)
      | Some (offset, len) \<Rightarrow>
          loop_bind (Some (slice (dat_data f) offset (offset + len))) (\<lambda>entry_slice.
          loop_bind (run_loop fuel (group_step fuel regex_new entry_slice)
              (0, \<lparr>exact_domains = [], domain_suffixes = [], kw_list = [], regexes = []\<rparr>)) (\<lambda>g.
            Some (Ok (Some (g\<lparr>domain_suffixes := remdups_adj (sort_key (\<lambda>s. - int (length s)) (domain_suffixes g)),
                              kw_list := remdups_adj (kw_list g)\<rparr>))))))"

section \<open>Lemmas on ranges\<close>

declare bsearch_base.simps [simp del] varint_loop.simps [simp del]

definition in_range :: "'l::len word \<Rightarrow> 'l word \<times> 'l word \<Rightarrow> bool" where
  "in_range v r \<longleftrightarrow> fst r \<le> v \<and> v \<le> snd r"

definition disjoint_sorted :: "('l::len word \<times> 'l word) list \<Rightarrow> bool" where
  "disjoint_sorted rs \<longleftrightarrow> sorted_wrt (\<lambda>a b. snd a < fst b) rs \<and> list_all (\<lambda>r. fst r \<le> snd r) rs"

lemma saturating_add_one_le:
  fixes a v :: "'l::len word"
  shows "a < v \<Longrightarrow> saturating_add_one a \<le> v"
  by (auto simp: saturating_add_one_def inc_le)

lemma saturating_add_one_less:
  fixes a v :: "'l::len word"
  assumes "saturating_add_one a < v"
  shows "a < v"
proof (cases "a = - 1")
  case False
  then have "1 + a \<noteq> 0" by (metis add.commute eq_neg_iff_add_eq_0)
  then have "a < a + 1" using unatSuc [of a] by (simp add: word_less_nat_alt add.commute)
  then show ?thesis using assms False by (auto simp: saturating_add_one_def)
qed (use assms in \<open>auto simp: saturating_add_one_def\<close>)

abbreviation ranges_by_start :: "('l::len word \<times> 'l word) list \<Rightarrow> bool" where
  "ranges_by_start rs \<equiv> sorted_wrt (\<lambda>a b. fst a \<le> fst b) rs \<and> list_all (\<lambda>r. fst r \<le> snd r) rs"

lemma in_range_merged:
  assumes "fst r \<le> saturating_add_one (snd cur)" "fst cur \<le> fst r" "fst cur \<le> snd cur" "fst r \<le> snd r"
  shows "in_range v (fst cur, max (snd cur) (snd r)) \<longleftrightarrow> in_range v cur \<or> in_range v r"
proof -
  have "v \<le> snd cur \<or> fst r \<le> v"
    using saturating_add_one_le [of "snd cur" v] assms(1) by (meson le_less_linear order_trans)
  then show ?thesis using assms by (auto simp: in_range_def max_def)
qed

lemma merge_from_spec:
  "ranges_by_start (cur # rest) \<Longrightarrow>
     (list_ex (in_range v) (merge_from cur rest) \<longleftrightarrow> list_ex (in_range v) (cur # rest)) \<and>
     disjoint_sorted (merge_from cur rest) \<and> list_all (\<lambda>r. fst cur \<le> fst r) (merge_from cur rest)"
proof (induction rest arbitrary: cur)
  case Nil
  then show ?case by (simp add: disjoint_sorted_def)
next
  case (Cons r rest)
  let ?m = "(fst cur, max (snd cur) (snd r))"
  show ?case
  proof (cases "fst r \<le> saturating_add_one (snd cur)")
    case True
    have m: "ranges_by_start (?m # rest)" using Cons.prems by (auto simp: max_def)
    have "in_range v ?m \<longleftrightarrow> in_range v cur \<or> in_range v r"
      using Cons.prems by (intro in_range_merged True) simp_all
    then show ?thesis using Cons.IH [OF m] True by simp
  next
    case False
    then have lt: "snd cur < fst r" by (rule saturating_add_one_less [OF linorder_not_le [THEN iffD1]])
    have r: "ranges_by_start (r # rest)" and c: "fst cur \<le> snd cur" "fst cur \<le> fst r" using Cons.prems by simp_all
    have "snd cur < fst q \<and> fst cur \<le> fst q" if "q \<in> set (merge_from r rest)" for q
    proof -
      have "fst r \<le> fst q" using Cons.IH [OF r] that by (simp add: list_all_iff)
      then show ?thesis using lt c(2) by (auto intro: order_trans order_less_le_trans)
    qed
    then show ?thesis
      using Cons.IH [OF r] False c by (simp add: disjoint_sorted_def list_all_iff)
  qed
qed

lemma merge_ranges_spec:
  fixes rs :: "('l::len word \<times> 'l word) list"
  assumes "list_all (\<lambda>r. fst r \<le> snd r) rs"
  shows "(list_ex (in_range v) (merge_ranges rs) \<longleftrightarrow> list_ex (in_range v) rs) \<and> disjoint_sorted (merge_ranges rs)"
proof -
  have "ranges_by_start (sort_key fst rs)"
    using sorted_sort_key [of fst rs] assms by (simp add: sorted_map list_all_iff)
  moreover have "list_ex (in_range v) rs \<longleftrightarrow> list_ex (in_range v) (sort_key fst rs)" by (simp add: list_ex_iff)
  ultimately show ?thesis
  proof (cases "sort_key fst rs")
    case (Cons cur rest)
    then show ?thesis
      using merge_from_spec [of cur rest v] \<open>ranges_by_start (sort_key fst rs)\<close>
        \<open>list_ex (in_range v) rs \<longleftrightarrow> list_ex (in_range v) (sort_key fst rs)\<close>
      by (simp add: merge_ranges_def)
  qed (simp add: merge_ranges_def disjoint_sorted_def)
qed

lemma range_cmp_Equal: "range_cmp v r = Equal \<longleftrightarrow> in_range v r"
  by (auto simp: range_cmp_def in_range_def not_less)

lemma bsearch_base_bounds:
  "base + n \<le> length xs \<Longrightarrow> 0 < n \<Longrightarrow> base \<le> bsearch_base f xs base n \<and> bsearch_base f xs base n < base + n"
proof (induction f xs base n rule: bsearch_base.induct)
  case (1 f xs base n)
  then show ?case
    by (subst (1 2) bsearch_base.simps) (fastforce simp: Let_def)
qed

lemma bsearch_base_finds:
  assumes "\<And>i j. i < j \<Longrightarrow> j < length xs \<Longrightarrow> f (xs ! i) \<noteq> Less \<Longrightarrow> f (xs ! j) = Greater"
    and "base + n \<le> length xs" "base \<le> k" "k < base + n" "f (xs ! k) = Equal"
  shows "bsearch_base f xs base n = k"
  using assms(2-4)
proof (induction n arbitrary: base rule: less_induct)
  case (less n)
  show ?case
  proof (cases "n > 1")
    case False
    then show ?thesis using less.prems by (simp add: bsearch_base.simps)
  next
    case True
    let ?mid = "base + n div 2"
    have mid: "?mid < length xs" using True less.prems by simp
    have gt: "f (xs ! ?mid) = Greater \<longleftrightarrow> k < ?mid"
    proof (cases k ?mid rule: linorder_cases)
      case less
      then show ?thesis using assms(1) [of k ?mid] assms(5) mid by simp
    next
      case equal
      then show ?thesis using assms(5) by simp
    next
      case greater
      then show ?thesis using assms(1) [of ?mid k] assms(5) less.prems by force
    qed
    show ?thesis
      using True gt less.prems less.IH [of "n - n div 2" base] less.IH [of "n - n div 2" ?mid]
      by (subst bsearch_base.simps) (auto simp: Let_def)
  qed
qed

lemma binary_search_disjoint:
  fixes rs :: "('l::len word \<times> 'l word) list"
  assumes "disjoint_sorted rs"
  shows "binary_search_is_ok (range_cmp v) rs \<longleftrightarrow> list_ex (in_range v) rs"
proof
  assume a: "binary_search_is_ok (range_cmp v) rs"
  then have "rs \<noteq> []" "range_cmp v (rs ! bsearch_base (range_cmp v) rs 0 (length rs)) = Equal"
    by (auto simp: binary_search_is_ok_def split: if_splits)
  then show "list_ex (in_range v) rs"
    using bsearch_base_bounds [of 0 "length rs" rs "range_cmp v"]
    by (auto simp: list_ex_length range_cmp_Equal)
next
  assume "list_ex (in_range v) rs"
  then obtain k where k: "k < length rs" "range_cmp v (rs ! k) = Equal"
    by (auto simp: list_ex_length range_cmp_Equal)
  have "range_cmp v (rs ! j) = Greater" if "i < j" "j < length rs" "range_cmp v (rs ! i) \<noteq> Less" for i j
  proof -
    have "snd (rs ! i) < fst (rs ! j)" "fst (rs ! i) \<le> snd (rs ! i)"
      using assms that by (auto simp: disjoint_sorted_def sorted_wrt_iff_nth_less list_all_length)
    then show ?thesis using that(3) by (auto simp: range_cmp_def split: if_splits)
  qed
  then have "bsearch_base (range_cmp v) rs 0 (length rs) = k"
    using k by (intro bsearch_base_finds) auto
  then show "binary_search_is_ok (range_cmp v) rs" using k by (auto simp: binary_search_is_ok_def)
qed

section \<open>Lemmas on files\<close>

text \<open>The protobuf encoding of such a file, as the reference.\<close>

definition len_field :: "u8 \<Rightarrow> bytes \<Rightarrow> bytes" where
  "len_field t body = t # varint_bytes (length body) @ body"

definition cidr_message :: "bytes \<times> u32 \<Rightarrow> bytes" where
  "cidr_message c = len_field 0x0A (fst c) @ 0x10 # varint_bytes (unat (snd c))"

definition entry_message :: "bytes \<times> (bytes \<times> u32) list \<Rightarrow> bytes" where
  "entry_message e = len_field 0x0A (fst e) @ concat (map (\<lambda>c. len_field 0x12 (cidr_message c)) (snd e))"

definition geoip_file :: "(bytes \<times> (bytes \<times> u32) list) list \<Rightarrow> bytes" where
  "geoip_file es = concat (map (\<lambda>e. len_field 0x0A (entry_message e)) es)"

lemma varint_loop_encoded:
  assumes "n < 2 ^ (64 - shift)" "shift < 64" "pos = length xs"
  shows "varint_loop (xs @ varint_bytes n @ ys) pos shift result
       = (Some (result OR push_bit shift (of_nat n)), pos + length (varint_bytes n))"
  using assms
proof (induction n arbitrary: xs pos shift result rule: varint_bytes.induct)
  case (1 n)
  show ?case
  proof (cases "n < 128")
    case True
    then show ?thesis
      using 1 varint_one [OF True] by (subst varint_loop.simps) (simp add: varint_bytes.simps [of n] nth_append)
  next
    case False
    note s = varint_next_shift(1) [OF 1(2) False]
    have "n div 128 < 2 ^ (64 - (shift + 7))" using varint_next_shift(2) [OF 1(2) False] .
    then have "varint_loop ((xs @ [of_nat (n mod 128 + 128)]) @ varint_bytes (n div 128) @ ys) (pos + 1) (shift + 7)
        (result OR push_bit shift (of_nat (n mod 128)))
      = (Some ((result OR push_bit shift (of_nat (n mod 128))) OR push_bit (shift + 7) (of_nat (n div 128))),
          pos + 1 + length (varint_bytes (n div 128)))"
      using 1(1) [OF False] s 1(4) by (intro 1(1) [OF False]) simp_all
    moreover note varint_parts [of shift n]
    ultimately show ?thesis
      using False s 1(4) varint_high [of n] varint_low [of n]
      by (subst varint_loop.simps) (simp add: varint_bytes.simps [of n] Let_def or.assoc)
  qed
qed

lemma read_varint_encoded:
  "n < 2 ^ 64 \<Longrightarrow> pos = length xs \<Longrightarrow>
     read_varint (xs @ varint_bytes n @ ys) pos = (Some (of_nat n), pos + length (varint_bytes n))"
  unfolding read_varint_def by (subst varint_loop_encoded) simp_all

lemma read_tag_byte:
  assumes "n < 128" "pos = length xs"
  shows "read_tag (xs @ of_nat n # ys) pos = (Some (ucast (drop_bit 3 (of_nat n :: u64)), ucast ((of_nat n :: u64) AND 7)), pos + 1)"
proof -
  have "varint_bytes n = [of_nat n]" using assms(1) by (simp add: varint_bytes.simps)
  then show ?thesis
    using read_varint_encoded [of n pos xs ys] assms by (simp add: read_tag_def)
qed

lemma read_tags:
  assumes "pos = length xs"
  shows "read_tag (xs @ 0x0A # ys) pos = (Some (1, 2), pos + 1)"
    and "read_tag (xs @ 0x12 # ys) pos = (Some (2, 2), pos + 1)"
    and "read_tag (xs @ 0x10 # ys) pos = (Some (2, 0), pos + 1)"
  using read_tag_byte [of 10 pos xs ys] read_tag_byte [of 18 pos xs ys] read_tag_byte [of 16 pos xs ys] assms by simp_all

lemma read_bytes_encoded:
  assumes "length (xs @ varint_bytes (length b) @ b @ ys) < 2 ^ 64" "pos = length xs"
  shows "read_bytes (xs @ varint_bytes (length b) @ b @ ys) pos
       = Ok (Some b, pos + length (varint_bytes (length b)) + length b)"
proof -
  have "unat (of_nat (length b) :: u64) = length b"
    using assms(1) by (simp add: unat_of_nat take_bit_eq_mod)
  moreover have "read_varint (xs @ varint_bytes (length b) @ b @ ys) pos
      = (Some (of_nat (length b)), pos + length (varint_bytes (length b)))"
    using assms by (intro read_varint_encoded) simp_all
  ultimately show ?thesis using assms by (simp add: read_bytes_def usize_add_def slice_def)
qed

lemma read_field:
  assumes "length (xs @ len_field t b @ ys) < 2 ^ 64" "pos = length xs"
  shows "read_bytes (xs @ len_field t b @ ys) (pos + 1) = Ok (Some b, pos + length (len_field t b))"
  using read_bytes_encoded [of "xs @ [t]" b ys "pos + 1"] assms by (simp add: len_field_def)

lemma len_field_front: "len_field t b = t # varint_bytes (length b) @ b"
  by (simp add: len_field_def)

text \<open>The name of an entry.\<close>

lemma entry_key_encoded:
  assumes "length (len_field 0x0A code @ ys) < 2 ^ 64" "utf8_valid code" "0 < fuel"
  shows "run_loop fuel (entry_key_step (len_field 0x0A code @ ys)) 0 = Some (Ok (Some (bytes_str code)))"
proof -
  obtain k where "fuel = Suc k" using assms(3) by (cases fuel) auto
  moreover have "read_tag (len_field 0x0A code @ ys) 0 = (Some (1, 2), 1)"
    using read_tags(1) [of 0 "[]"] by (simp add: len_field_front)
  ultimately show ?thesis
    using read_field [of "[]" "0x0A" code ys 0] assms
    by (simp add: entry_key_step_def read_string_def from_utf8_def) (simp add: len_field_front)
qed

text \<open>The index of a file.\<close>

definition entry_code :: "bytes \<times> 'c \<Rightarrow> string" where
  "entry_code e = to_uppercase (bytes_str (fst e))"

fun index_of :: "nat \<Rightarrow> (bytes \<times> (bytes \<times> u32) list) list \<Rightarrow> (string \<times> nat \<times> nat) list \<Rightarrow> (string \<times> nat \<times> nat) list" where
  "index_of off [] idx = idx"
| "index_of off (e # es) idx =
     (let m = entry_message e; f = len_field 0x0A m
      in index_of (off + length f) es (al_put (entry_code e) (off + length f - length m, length m) idx))"

lemma index_step_entry:
  assumes "length (xs @ len_field 0x0A (entry_message e) @ ys) < 2 ^ 64" "utf8_valid (fst e)" "0 < fuel" "pos = length xs"
  shows "index_step fuel to_uppercase (xs @ len_field 0x0A (entry_message e) @ ys) (pos, idx)
       = Some (Ok (Continue (pos + length (len_field 0x0A (entry_message e)),
           al_put (entry_code e) (pos + length (len_field 0x0A (entry_message e)) - length (entry_message e),
             length (entry_message e)) idx)))"
proof -
  let ?d = "xs @ len_field 0x0A (entry_message e) @ ys"
  have "read_tag ?d pos = (Some (1, 2), pos + 1)"
    using read_tags(1) [of pos xs] assms(4) by (simp add: len_field_front)
  moreover have "read_bytes ?d (pos + 1) = Ok (Some (entry_message e), pos + length (len_field 0x0A (entry_message e)))"
    using assms(1,4) by (rule read_field)
  moreover have "run_loop fuel (entry_key_step (entry_message e)) 0 = Some (Ok (Some (bytes_str (fst e))))"
    unfolding entry_message_def using assms by (intro entry_key_encoded) (auto simp: len_field_def entry_message_def)
  moreover have "pos < length ?d" using assms(4) by (simp add: len_field_def)
  ultimately show ?thesis by (simp add: index_step_def entry_code_def)
qed

lemma load_index:
  assumes "length (xs @ geoip_file es) < 2 ^ 64" "list_all (\<lambda>e. utf8_valid (fst e)) es" "length es < n" "0 < fuel"
  shows "run_loop n (index_step fuel to_uppercase (xs @ geoip_file es)) (length xs, idx)
       = Some (Ok (index_of (length xs) es idx))"
  using assms
proof (induction es arbitrary: xs idx n)
  case Nil
  then show ?case by (cases n) (simp_all add: geoip_file_def index_step_def)
next
  case (Cons e es)
  let ?f = "len_field 0x0A (entry_message e)"
  obtain k where n: "n = Suc k" "length es < k" using Cons.prems(3) by (cases n) auto
  have d: "xs @ geoip_file (e # es) = xs @ ?f @ geoip_file es" by (simp add: geoip_file_def)
  have "run_loop k (index_step fuel to_uppercase ((xs @ ?f) @ geoip_file es)) (length (xs @ ?f), i)
      = Some (Ok (index_of (length (xs @ ?f)) es i))" for i
    using Cons.prems n by (intro Cons.IH) (simp_all add: geoip_file_def)
  then show ?case
    using n index_step_entry [of xs e "geoip_file es" fuel "length xs" idx] Cons.prems
    by (simp add: d Let_def)
qed

lemma index_of_other: "c \<notin> entry_code ` set es \<Longrightarrow> map_of (index_of off es idx) c = map_of idx c"
  by (induction es arbitrary: off idx) (auto simp: Let_def)

lemma index_of_entry:
  assumes "distinct (map entry_code (a @ e # b))"
  shows "map_of (index_of off (a @ e # b) idx) (entry_code e)
       = Some (off + length (geoip_file a) + 1 + length (varint_bytes (length (entry_message e))), length (entry_message e))"
  using assms
proof (induction a arbitrary: off idx)
  case Nil
  then show ?case using index_of_other [of "entry_code e" b] by (simp add: Let_def len_field_def geoip_file_def)
next
  case (Cons x a)
  then show ?case by (simp add: Let_def geoip_file_def add.assoc)
qed

lemma entry_slice:
  "slice (geoip_file (a @ e # b)) (length (geoip_file a) + 1 + length (varint_bytes (length (entry_message e))))
     (length (geoip_file a) + 1 + length (varint_bytes (length (entry_message e))) + length (entry_message e))
   = Ok (entry_message e)"
  by (simp add: slice_def geoip_file_def len_field_def)

text \<open>The networks of an entry.\<close>

lemma cidr_encoded:
  assumes "length (cidr_message c) < 2 ^ 64" "2 < fuel"
  shows "run_loop fuel (cidr_step (cidr_message c)) (0, None, 0) = Some (Ok (Some (fst c), snd c))"
proof -
  let ?m = "cidr_message c" let ?f = "len_field 0x0A (fst c)" let ?v = "varint_bytes (unat (snd c))"
  obtain k where "fuel = Suc (Suc (Suc k))"
    using that [of "fuel - 3"] assms(2) by simp
  moreover have "read_tag ?m 0 = (Some (1, 2), 1)"
    using read_tags(1) [of 0 "[]"] by (simp add: cidr_message_def len_field_front)
  moreover have "read_bytes ?m 1 = Ok (Some (fst c), length ?f)"
    using read_field [of "[]" "0x0A" "fst c" "0x10 # ?v" 0] assms(1) by (simp add: cidr_message_def)
  moreover have "read_tag ?m (length ?f) = (Some (2, 0), length ?f + 1)"
    using read_tags(3) [of "length ?f" ?f] by (simp add: cidr_message_def)
  moreover have "read_varint ?m (length ?f + 1) = (Some (of_nat (unat (snd c))), length ?m)"
  proof -
    have "unat (snd c) < 2 ^ 64" using unat_u32_less [of "snd c"] by simp
    then show ?thesis
      using read_varint_encoded [of "unat (snd c)" "length ?f + 1" "?f @ [0x10]" "[]"] by (simp add: cidr_message_def)
  qed
  moreover have "length ?m > 0" "length ?f < length ?m" by (simp_all add: cidr_message_def len_field_def)
  moreover have "(ucast (of_nat (unat (snd c)) :: u64) :: u32) = snd c"
  proof -
    have "(ucast (ucast (snd c) :: u64) :: u32) = snd c"
      by (rule bit_word_eqI) (simp add: bit_ucast_iff)
    then show ?thesis by (metis of_nat_unat)
  qed
  ultimately show ?thesis by (simp add: cidr_step_def)
qed

abbreviation cidr_fields :: "(bytes \<times> u32) list \<Rightarrow> bytes" where
  "cidr_fields cs \<equiv> concat (map (\<lambda>c. len_field 0x12 (cidr_message c)) cs)"

lemma country_step_cidr:
  assumes "length (xs @ len_field 0x12 (cidr_message c) @ ys) < 2 ^ 64" "2 < fuel" "pos = length xs"
  shows "country_step fuel nets (xs @ len_field 0x12 (cidr_message c) @ ys) (pos, l)
       = Some (Ok (Continue (pos + length (len_field 0x12 (cidr_message c)), add_cidr nets (Some (fst c)) (snd c) l)))"
proof -
  let ?d = "xs @ len_field 0x12 (cidr_message c) @ ys"
  have "read_tag ?d pos = (Some (2, 2), pos + 1)"
    using read_tags(2) [of pos xs] assms(3) by (simp add: len_field_front)
  moreover have "read_bytes ?d (pos + 1) = Ok (Some (cidr_message c), pos + length (len_field 0x12 (cidr_message c)))"
    using assms(1,3) by (rule read_field)
  moreover have "run_loop fuel (cidr_step (cidr_message c)) (0, None, 0) = Some (Ok (Some (fst c), snd c))"
    using assms by (intro cidr_encoded) (simp_all add: len_field_def)
  moreover have "pos < length ?d" using assms(3) by (simp add: len_field_def)
  ultimately show ?thesis by (simp add: country_step_def)
qed

lemma country_loop:
  assumes "length (xs @ cidr_fields cs) < 2 ^ 64" "length cs < n" "2 < fuel"
  shows "run_loop n (country_step fuel nets (xs @ cidr_fields cs)) (length xs, l)
       = Some (Ok (foldl (\<lambda>l c. add_cidr nets (Some (fst c)) (snd c) l) l cs))"
  using assms
proof (induction cs arbitrary: xs l n)
  case Nil
  then show ?case by (cases n) (simp_all add: country_step_def)
next
  case (Cons c cs)
  let ?f = "len_field 0x12 (cidr_message c)"
  obtain k where n: "n = Suc k" "length cs < k" using Cons.prems(2) by (cases n) auto
  have "run_loop k (country_step fuel nets ((xs @ ?f) @ cidr_fields cs)) (length (xs @ ?f), l')
      = Some (Ok (foldl (\<lambda>l c. add_cidr nets (Some (fst c)) (snd c) l) l' cs))" for l'
    using Cons.prems n by (intro Cons.IH) simp_all
  then show ?case
    using n country_step_cidr [of xs c "cidr_fields cs" fuel "length xs" nets l] Cons.prems by simp
qed

lemma country_entry_loop:
  assumes "length (entry_message e) < 2 ^ 64" "length (snd e) + 1 < fuel" "2 < fuel"
  shows "run_loop fuel (country_step fuel nets (entry_message e)) (0, l)
       = Some (Ok (foldl (\<lambda>l c. add_cidr nets (Some (fst c)) (snd c) l) l (snd e)))"
proof -
  let ?f = "len_field 0x0A (fst e)"
  obtain k where k: "fuel = Suc k" "length (snd e) < k" using assms(2) by (cases fuel) auto
  have "read_tag (entry_message e) 0 = (Some (1, 2), 1)"
    using read_tags(1) [of 0 "[]"] by (simp add: entry_message_def len_field_front)
  moreover have "skip_field (entry_message e) 2 1 = (True, length ?f)"
  proof -
    have u: "unat (of_nat (length (fst e)) :: u64) = length (fst e)"
      using assms(1) by (simp add: unat_of_nat take_bit_eq_mod entry_message_def len_field_def)
    have "read_varint (entry_message e) 1 = (Some (of_nat (length (fst e))), 1 + length (varint_bytes (length (fst e))))"
      using read_varint_encoded [of "length (fst e)" 1 "[0x0A]"] assms(1)
      by (simp add: entry_message_def len_field_def)
    then show ?thesis using u assms(1) by (simp add: skip_field_def usize_add_def entry_message_def len_field_def)
  qed
  moreover have "run_loop k (country_step fuel nets (?f @ cidr_fields (snd e))) (length ?f, l)
      = Some (Ok (foldl (\<lambda>l c. add_cidr nets (Some (fst c)) (snd c) l) l (snd e)))"
    using assms k(2) by (intro country_loop) (simp_all add: entry_message_def)
  moreover have "0 < length (entry_message e)" by (simp add: entry_message_def len_field_def)
  ultimately show ?thesis
    unfolding k(1) by (simp add: country_step_def [of "Suc k"]) (simp add: k entry_message_def)
qed

text \<open>Which addresses a network and a list of networks cover.\<close>

definition cidr_has :: "nets \<Rightarrow> bytes \<times> u32 \<Rightarrow> ip_addr \<Rightarrow> bool" where
  "cidr_has nets c ip =
     (case ip of
        V4 v \<Rightarrow> length (fst c) = 4 \<and>
          (case fst nets (be_word (fst c)) (min (unat (snd c)) 32) of Some r \<Rightarrow> in_range v r | None \<Rightarrow> False)
      | V6 v \<Rightarrow> length (fst c) = 16 \<and>
          (case snd nets (be_word (fst c)) (min (unat (snd c)) 128) of Some r \<Rightarrow> in_range v r | None \<Rightarrow> False))"

definition list_has :: "country_ip_list \<Rightarrow> ip_addr \<Rightarrow> bool" where
  "list_has l ip =
     (case ip of V4 v \<Rightarrow> list_ex (in_range v) (ipv4_ranges l) | V6 v \<Rightarrow> list_ex (in_range v) (ipv6_ranges l))"

definition nets_ok :: "nets \<Rightarrow> bool" where
  "nets_ok nets \<longleftrightarrow> (\<forall>a p s e. fst nets a p = Some (s, e) \<longrightarrow> s \<le> e) \<and> (\<forall>a p s e. snd nets a p = Some (s, e) \<longrightarrow> s \<le> e)"

definition list_ok :: "country_ip_list \<Rightarrow> bool" where
  "list_ok l \<longleftrightarrow> list_all (\<lambda>r. fst r \<le> snd r) (ipv4_ranges l) \<and> list_all (\<lambda>r. fst r \<le> snd r) (ipv6_ranges l)"

lemma add_cidr_has:
  "list_has (add_cidr nets (Some ip) p l) a \<longleftrightarrow> list_has l a \<or> cidr_has nets (ip, p) a"
  by (auto simp: list_has_def add_cidr_def cidr_has_def split: ip_addr.split option.split)

lemma add_cidr_ok: "nets_ok nets \<Longrightarrow> list_ok l \<Longrightarrow> list_ok (add_cidr nets b p l)"
  by (auto simp: list_ok_def add_cidr_def nets_ok_def split: option.split)

lemma fold_cidrs:
  assumes "nets_ok nets" "list_ok l"
  shows "list_ok (foldl (\<lambda>l c. add_cidr nets (Some (fst c)) (snd c) l) l cs) \<and>
    (list_has (foldl (\<lambda>l c. add_cidr nets (Some (fst c)) (snd c) l) l cs) a
       \<longleftrightarrow> list_has l a \<or> (\<exists>c \<in> set cs. cidr_has nets c a))"
  using assms by (induction cs arbitrary: l) (auto simp: add_cidr_has add_cidr_ok)

lemma search_merged:
  fixes rs :: "('l::len word * 'l word) list"
  shows "list_all (\<lambda>r. fst r \<le> snd r) rs \<Longrightarrow>
     binary_search_is_ok (range_cmp v) (merge_ranges rs) \<longleftrightarrow> list_ex (in_range v) rs"
  using merge_ranges_spec [of rs v] binary_search_disjoint [of "merge_ranges rs" v] by simp

lemma merged_contains: "list_ok l \<Longrightarrow> country_contains (merge_and_sort l) ip \<longleftrightarrow> list_has l ip"
  by (auto simp: list_ok_def country_contains_def merge_and_sort_def list_has_def search_merged split: ip_addr.split)

section \<open>Properties\<close>

text \<open>A GeoIP file answers for the networks it lists. For every file that encodes entries of distinct country codes
  and networks, loading the index and then a country ends (with fuel above the number of entries, the number of its networks
  and 3) without a panic, and searching the merged ranges of the country by bisection finds an address exactly if one of the
  networks of that entry contains it, for IPv4 and IPv6.\<close>

theorem geoip_lookup_correct:
  assumes "data = geoip_file es" and "length data < 2 ^ 64"
    and "list_all (\<lambda>e. utf8_valid (fst e)) es" and "distinct (map entry_code es)"
    and "e \<in> set es" and "to_uppercase (trim country) = entry_code e"
    and "nets_ok nets" and "length es + length (snd e) + 3 \<le> fuel"
  shows "\<exists>f l. load_geoip_file fuel data = Some (Ok f) \<and> load_country fuel nets f country = Some (Ok (Some l)) \<and>
     (\<forall>ip. country_contains l ip \<longleftrightarrow> (\<exists>c \<in> set (snd e). cidr_has nets c ip))"
proof -
  obtain a b where es: "es = a @ e # b" using assms(5) by (metis split_list)
  let ?f = "\<lparr>dat_data = data, dat_index = index_of 0 es []\<rparr>"
  let ?l = "foldl (\<lambda>l c. add_cidr nets (Some (fst c)) (snd c) l) \<lparr>ipv4_ranges = [], ipv6_ranges = []\<rparr> (snd e)"
  have load: "load_geoip_file fuel data = Some (Ok ?f)"
    using load_index [of "[]" es fuel fuel "[]"] assms by (simp add: load_geoip_file_def load_dat_def)
  have small: "length (entry_message e) < 2 ^ 64"
    using assms(1,2) es by (simp add: geoip_file_def len_field_def)
  have "map_of (index_of 0 es []) (entry_code e)
      = Some (length (geoip_file a) + 1 + length (varint_bytes (length (entry_message e))), length (entry_message e))"
    using index_of_entry [of a e b 0 "[]"] assms(4) es by simp
  then have "load_country fuel nets ?f country = Some (Ok (Some (merge_and_sort ?l)))"
    using entry_slice [of a e b] country_entry_loop [OF small, of fuel nets] assms(1,6,8) es
    by (simp add: load_country_def)
  moreover have "list_ok \<lparr>ipv4_ranges = [], ipv6_ranges = []\<rparr>" by (simp add: list_ok_def)
  then have "country_contains (merge_and_sort ?l) ip \<longleftrightarrow> (\<exists>c \<in> set (snd e). cidr_has nets c ip)" for ip
    using fold_cidrs [OF assms(7), of "\<lparr>ipv4_ranges = [], ipv6_ranges = []\<rparr>" "snd e" ip] merged_contains [of ?l ip]
    by (auto simp: list_has_def split: ip_addr.splits)
  ultimately show ?thesis using load by blast
qed

text \<open>The documented intervals of \<^verbatim>\<open>ipnet\<close>: the prefix with all other bits zero, and with all other bits one.\<close>

definition mask_nets :: nets where
  "mask_nets = ((\<lambda>a p. Some (a AND NOT (mask (32 - p)), a OR mask (32 - p))),
                (\<lambda>a p. Some (a AND NOT (mask (128 - p)), a OR mask (128 - p))))"

theorem geoip_lookup_correct_witness:
  "\<exists>f l. load_geoip_file 9 (geoip_file [([0x43, 0x4E], [([1, 2, 0, 0], 16)])]) = Some (Ok f) \<and>
     load_country 9 mask_nets f '' cn'' = Some (Ok (Some l)) \<and> country_contains l (V4 0x01020304) \<and>
     \<not> country_contains l (V4 0x01030304)"
proof -
  let ?e = "([0x43, 0x4E], [([1, 2, 0, 0], 16)]) :: bytes \<times> (bytes \<times> u32) list"
  have "nets_ok mask_nets"
    by (auto simp: nets_ok_def mask_nets_def intro: order_trans [OF word_and_le2 le_word_or2])
  moreover have "to_uppercase (trim '' cn'') = entry_code ?e"
    by (simp add: to_uppercase_def trim_def trim_start_def trim_end_def is_ws_def ascii_upper_def entry_code_def bytes_str_def
        char_of_def bit_0 Let_def)
  moreover have "utf8_valid [0x43, 0x4E]" by (intro ascii_utf8_valid) simp
  moreover have "length (geoip_file [?e]) < 2 ^ 64"
    by (simp add: geoip_file_def entry_message_def cidr_message_def len_field_def varint_bytes.simps)
  ultimately obtain f l where "load_geoip_file 9 (geoip_file [?e]) = Some (Ok f)"
    "load_country 9 mask_nets f '' cn'' = Some (Ok (Some l))"
    "\<forall>ip. country_contains l ip \<longleftrightarrow> (\<exists>c \<in> set (snd ?e). cidr_has mask_nets c ip)"
    using geoip_lookup_correct [of "geoip_file [?e]" "[?e]" ?e "'' cn''" mask_nets 9] by auto
  moreover have "cidr_has mask_nets ([1, 2, 0, 0], 16) (V4 0x01020304)"
    "\<not> cidr_has mask_nets ([1, 2, 0, 0], 16) (V4 0x01030304)"
    by (simp_all add: cidr_has_def mask_nets_def in_range_def be_word_def mask_eq_exp_minus_1)
  ultimately show ?thesis by auto
qed

text \<open>C17: the loader does not end on every file. The eleven bytes of one unknown length-delimited field whose length is
  \<open>2^64 - 11\<close> are accepted by \<^verbatim>\<open>skip_field\<close>, since the sum of position and length wraps to zero, and the loop starts over:
  no number of iterations is enough.\<close>

theorem geoip_load_diverges:
  "load_geoip_file fuel [0x12, 0xF5, 0xFF, 0xFF, 0xFF, 0xFF, 0xFF, 0xFF, 0xFF, 0xFF, 0x01] = None"
proof -
  let ?d = "[0x12, 0xF5, 0xFF, 0xFF, 0xFF, 0xFF, 0xFF, 0xFF, 0xFF, 0xFF, 0x01] :: bytes"
  have tag: "read_tag ?d 0 = (Some (2, 2), 1)" using read_tags(2) [of 0 "[]"] by simp
  have "varint_bytes 18446744073709551605 = tl ?d"
    by (simp add: varint_bytes.simps)
  then have "read_varint ?d 1 = (Some (of_nat 18446744073709551605), 11)"
    using read_varint_encoded [of 18446744073709551605 1 "[0x12]" "[]"] by simp
  then have skip: "skip_field ?d 2 1 = (True, 0)" by (simp add: skip_field_def usize_add_def)
  have "index_step fuel to_uppercase ?d (0, []) = Some (Ok (Continue (0, [])))"
    using tag skip by (simp add: index_step_def)
  then have "run_loop n (index_step fuel to_uppercase ?d) (0, []) = None" for n
    by (induction n) simp_all
  then show ?thesis by (simp add: load_geoip_file_def load_dat_def)
qed

end
