(* ===== verification/Geo_Engine.thy ===== *)
theory Geo_Engine
  imports Geo_Dat
begin

text \<open>
  \<^verbatim>\<open>src/geo/mod.rs\<close>: the engine that finds the two database files and answers \<^verbatim>\<open>geoip:\<close> and \<^verbatim>\<open>geosite:\<close>
  queries, with a cache of the countries and site groups it has loaded. The file system is the parameter \<open>fs\<close>: a path that does
  not exist has no value, an existing one reads as a result. Every operation returns the engine it leaves.
\<close>

section \<open>Operations\<close>

record 're geo_engine =
  geoip_db :: "dat_file option"
  geosite_db :: "dat_file option"
  cached_countries :: "(string \<times> country_ip_list) list"
  cached_sites :: "(string \<times> 're site_group_list) list"

fun first_loaded ::
    "(bytes \<Rightarrow> dat_file res option) \<Rightarrow> (string \<Rightarrow> bytes res option) \<Rightarrow> string list \<Rightarrow> dat_file option res option" where
  "first_loaded load fs [] = Some (Ok None)"
| "first_loaded load fs (path # paths) =
     (case fs path of
        None \<Rightarrow> first_loaded load fs paths
      | Some (Ok data) \<Rightarrow> loop_bind (load data) (\<lambda>f. Some (Ok (Some f)))
      | Some (Err e) \<Rightarrow> first_loaded load fs paths
      | Some Panic \<Rightarrow> Some Panic)"

definition geo_candidates :: "string option \<Rightarrow> string \<Rightarrow> string list" where
  "geo_candidates custom name =
     (case custom of Some p \<Rightarrow> [p] | None \<Rightarrow> []) @
     [''/etc/elise/'' @ name, ''./'' @ name, ''../'' @ name, ''/usr/local/share/elise/'' @ name]"

definition geo_engine_new ::
    "nat \<Rightarrow> (string \<Rightarrow> bytes res option) \<Rightarrow> string option \<Rightarrow> string option \<Rightarrow> 're geo_engine res option" where
  "geo_engine_new fuel fs geoip_path geosite_path =
     loop_bind (first_loaded (load_geoip_file fuel) fs (geo_candidates geoip_path ''geoip.dat'')) (\<lambda>gi.
     loop_bind (first_loaded (load_geosite_file fuel) fs (geo_candidates geosite_path ''geosite.dat'')) (\<lambda>gs.
       Some (Ok \<lparr>geoip_db = gi, geosite_db = gs, cached_countries = [], cached_sites = []\<rparr>)))"

definition match_geoip ::
    "nat \<Rightarrow> nets \<Rightarrow> 're geo_engine \<Rightarrow> string \<Rightarrow> ip_addr \<Rightarrow> (bool \<times> 're geo_engine) res option" where
  "match_geoip fuel nets eng country ip =
     (let code = to_uppercase (trim country)
      in case map_of (cached_countries eng) code of
           Some l \<Rightarrow> Some (Ok (country_contains l ip, eng))
         | None \<Rightarrow>
             (case geoip_db eng of
                None \<Rightarrow> Some (Ok (False, eng))
              | Some geoip \<Rightarrow>
                  loop_bind (load_country fuel nets geoip code) (\<lambda>loaded.
                    case loaded of
                      Some l \<Rightarrow> Some (Ok (country_contains l ip,
                                 eng\<lparr>cached_countries := al_put code l (cached_countries eng)\<rparr>))
                    | None \<Rightarrow> Some (Ok (False, eng)))))"

definition match_geosite ::
    "nat \<Rightarrow> (string \<Rightarrow> 're option) \<Rightarrow> ('re \<Rightarrow> string \<Rightarrow> bool) \<Rightarrow> 're geo_engine \<Rightarrow> string \<Rightarrow> string
       \<Rightarrow> (bool \<times> 're geo_engine) res option" where
  "match_geosite fuel regex_new is_match eng tag domain =
     (let group_tag = to_lowercase (trim tag)
      in case map_of (cached_sites eng) group_tag of
           Some g \<Rightarrow> Some (Ok (group_matches is_match g domain, eng))
         | None \<Rightarrow>
             (case geosite_db eng of
                None \<Rightarrow> Some (Ok (False, eng))
              | Some geosite \<Rightarrow>
                  loop_bind (load_group fuel regex_new geosite group_tag) (\<lambda>loaded.
                    case loaded of
                      Some g \<Rightarrow> Some (Ok (group_matches is_match g domain,
                                 eng\<lparr>cached_sites := al_put group_tag g (cached_sites eng)\<rparr>))
                    | None \<Rightarrow> Some (Ok (False, eng)))))"

definition preload_country :: "nat \<Rightarrow> nets \<Rightarrow> 're geo_engine \<Rightarrow> string \<Rightarrow> 're geo_engine res option" where
  "preload_country fuel nets eng country =
     (let code = to_uppercase (trim country)
      in if map_of (cached_countries eng) code \<noteq> None then Some (Ok eng)
         else case geoip_db eng of
           None \<Rightarrow> Some (Ok eng)
         | Some geoip \<Rightarrow>
             loop_bind (load_country fuel nets geoip code) (\<lambda>loaded.
               Some (Ok (case loaded of
                           Some l \<Rightarrow> eng\<lparr>cached_countries := al_put code l (cached_countries eng)\<rparr>
                         | None \<Rightarrow> eng))))"

definition preload_site_group :: "nat \<Rightarrow> (string \<Rightarrow> 're option) \<Rightarrow> 're geo_engine \<Rightarrow> string \<Rightarrow> 're geo_engine res option" where
  "preload_site_group fuel regex_new eng tag =
     (let group_tag = to_lowercase (trim tag)
      in if map_of (cached_sites eng) group_tag \<noteq> None then Some (Ok eng)
         else case geosite_db eng of
           None \<Rightarrow> Some (Ok eng)
         | Some geosite \<Rightarrow>
             loop_bind (load_group fuel regex_new geosite group_tag) (\<lambda>loaded.
               Some (Ok (case loaded of
                           Some g \<Rightarrow> eng\<lparr>cached_sites := al_put group_tag g (cached_sites eng)\<rparr>
                         | None \<Rightarrow> eng))))"

section \<open>Sequences of queries\<close>

datatype geo_op =
    GeoIp string ip_addr
  | GeoSite string string
  | PreloadCountry string
  | PreloadSite string

record 're geo_params =
  gp_fuel :: nat
  gp_nets :: nets
  gp_regex_new :: "string \<Rightarrow> 're option"
  gp_is_match :: "'re \<Rightarrow> string \<Rightarrow> bool"

fun geo_exec :: "'re geo_params \<Rightarrow> geo_op \<Rightarrow> 're geo_engine \<Rightarrow> (bool option \<times> 're geo_engine) res option" where
  "geo_exec p (GeoIp c ip) eng = loop_bind (match_geoip (gp_fuel p) (gp_nets p) eng c ip) (\<lambda>(b, e). Some (Ok (Some b, e)))"
| "geo_exec p (GeoSite t d) eng =
     loop_bind (match_geosite (gp_fuel p) (gp_regex_new p) (gp_is_match p) eng t d) (\<lambda>(b, e). Some (Ok (Some b, e)))"
| "geo_exec p (PreloadCountry c) eng = loop_bind (preload_country (gp_fuel p) (gp_nets p) eng c) (\<lambda>e. Some (Ok (None, e)))"
| "geo_exec p (PreloadSite t) eng = loop_bind (preload_site_group (gp_fuel p) (gp_regex_new p) eng t) (\<lambda>e. Some (Ok (None, e)))"

fun geo_run :: "'re geo_params \<Rightarrow> geo_op list \<Rightarrow> 're geo_engine \<Rightarrow> (bool option list \<times> 're geo_engine) res option" where
  "geo_run p [] eng = Some (Ok ([], eng))"
| "geo_run p (op # ops) eng =
     loop_bind (geo_exec p op eng) (\<lambda>(b, eng). loop_bind (geo_run p ops eng) (\<lambda>(bs, eng). Some (Ok (b # bs, eng))))"

text \<open>The answer straight from the file.\<close>

fun geo_answer :: "'re geo_params \<Rightarrow> dat_file option \<Rightarrow> dat_file option \<Rightarrow> geo_op \<Rightarrow> bool option res option" where
  "geo_answer p gi gs (GeoIp c ip) =
     (case gi of
        None \<Rightarrow> Some (Ok (Some False))
      | Some f \<Rightarrow> loop_bind (load_country (gp_fuel p) (gp_nets p) f (to_uppercase (trim c))) (\<lambda>l.
          Some (Ok (Some (case l of Some l \<Rightarrow> country_contains l ip | None \<Rightarrow> False)))))"
| "geo_answer p gi gs (GeoSite t d) =
     (case gs of
        None \<Rightarrow> Some (Ok (Some False))
      | Some f \<Rightarrow> loop_bind (load_group (gp_fuel p) (gp_regex_new p) f (to_lowercase (trim t))) (\<lambda>g.
          Some (Ok (Some (case g of Some g \<Rightarrow> group_matches (gp_is_match p) g d | None \<Rightarrow> False)))))"
| "geo_answer p gi gs (PreloadCountry c) = Some (Ok None)"
| "geo_answer p gi gs (PreloadSite t) = Some (Ok None)"

definition geo_coherent :: "'re geo_params \<Rightarrow> 're geo_engine \<Rightarrow> bool" where
  "geo_coherent p eng \<longleftrightarrow>
     (\<forall>c l. map_of (cached_countries eng) c = Some l \<longrightarrow>
        (\<exists>f. geoip_db eng = Some f \<and> load_country (gp_fuel p) (gp_nets p) f c = Some (Ok (Some l)))) \<and>
     (\<forall>t g. map_of (cached_sites eng) t = Some g \<longrightarrow>
        (\<exists>f. geosite_db eng = Some f \<and> load_group (gp_fuel p) (gp_regex_new p) f t = Some (Ok (Some g))))"

section \<open>Lemmas\<close>

lemma loop_bind_Ok_iff: "loop_bind m f = Some (Ok y) \<longleftrightarrow> (\<exists>x. m = Some (Ok x) \<and> f x = Some (Ok y))"
  by (cases "(m, f)" rule: loop_bind.cases) auto

lemma geo_exec_coherent:
  assumes "geo_coherent p eng" "geo_exec p op eng = Some (Ok (b, eng'))"
  shows "geo_answer p (geoip_db eng) (geosite_db eng) op = Some (Ok b) \<and> geo_coherent p eng' \<and>
    geoip_db eng' = geoip_db eng \<and> geosite_db eng' = geosite_db eng"
proof (cases op)
  case (GeoIp c ip)
  then show ?thesis using assms
    by (auto simp: match_geoip_def geo_coherent_def Let_def loop_bind_Ok_iff split: option.splits if_splits)
next
  case (GeoSite t d)
  then show ?thesis using assms
    by (auto simp: match_geosite_def geo_coherent_def Let_def loop_bind_Ok_iff split: option.splits if_splits)
next
  case (PreloadCountry c)
  then show ?thesis using assms
    by (auto simp: preload_country_def geo_coherent_def Let_def loop_bind_Ok_iff split: option.splits if_splits)
next
  case (PreloadSite t)
  then show ?thesis using assms
    by (auto simp: preload_site_group_def geo_coherent_def Let_def loop_bind_Ok_iff split: option.splits if_splits)
qed

lemma geo_run_coherent:
  "geo_coherent p eng \<Longrightarrow> geo_run p ops eng = Some (Ok (bs, eng')) \<Longrightarrow>
     map (geo_answer p (geoip_db eng) (geosite_db eng)) ops = map (\<lambda>b. Some (Ok b)) bs"
proof (induction ops arbitrary: eng bs)
  case (Cons op ops)
  then obtain b e1 bs' where e: "geo_exec p op eng = Some (Ok (b, e1))" "geo_run p ops e1 = Some (Ok (bs', eng'))" "bs = b # bs'"
    by (auto simp: loop_bind_Ok_iff)
  then show ?case using geo_exec_coherent [OF Cons.prems(1) e(1)] Cons.IH [of e1 bs'] by simp
qed simp

section \<open>Properties\<close>

text \<open>The cache never changes an answer. Whatever sequence of queries and preloads runs on a new engine, each answer
  is the one that loading the country or the site group from the file for that query alone gives.\<close>

theorem geo_cache_transparent:
  assumes "geo_engine_new (gp_fuel p) fs geoip_path geosite_path = Some (Ok eng)"
    and "geo_run p ops eng = Some (Ok (bs, eng'))"
  shows "map (geo_answer p (geoip_db eng) (geosite_db eng)) ops = map (\<lambda>b. Some (Ok b)) bs"
proof -
  have "geo_coherent p eng"
    using assms(1) by (auto simp: geo_engine_new_def geo_coherent_def loop_bind_Ok_iff)
  then show ?thesis using assms(2) by (rule geo_run_coherent)
qed

theorem geo_cache_transparent_witness:
  "\<exists>eng eng' :: string geo_engine.
     let p = \<lparr>gp_fuel = 9, gp_nets = mask_nets, gp_regex_new = (\<lambda>r. Some r), gp_is_match = (\<lambda>r s. r = s)\<rparr>
     in geo_engine_new 9 (\<lambda>path. None) None None = Some (Ok eng) \<and>
        geo_run p [GeoIp ''cn'' (V4 0), PreloadSite ''cn''] eng = Some (Ok ([Some False, None], eng')) \<and>
        map (geo_answer p (geoip_db eng) (geosite_db eng)) [GeoIp ''cn'' (V4 0), PreloadSite ''cn'']
          = [Some (Ok (Some False)), Some (Ok None)]"
proof -
  let ?p = "\<lparr>gp_fuel = 9, gp_nets = mask_nets, gp_regex_new = (\<lambda>r. Some r), gp_is_match = (\<lambda>r s. r = s)\<rparr> :: string geo_params"
  let ?e = "\<lparr>geoip_db = None, geosite_db = None, cached_countries = [], cached_sites = []\<rparr> :: string geo_engine"
  have "geo_engine_new (gp_fuel ?p) (\<lambda>path. None) None None = Some (Ok ?e)"
    by (simp add: geo_engine_new_def geo_candidates_def)
  moreover have "geo_run ?p [GeoIp ''cn'' (V4 0), PreloadSite ''cn''] ?e = Some (Ok ([Some False, None], ?e))"
    by (simp add: match_geoip_def preload_site_group_def)
  ultimately show ?thesis using geo_cache_transparent [of ?p "\<lambda>path. None" None None ?e] by (simp add: Let_def)
qed

end
