(* ===== verification/Routes_Config.thy ===== *)
theory Routes_Config
  imports Rust_Str
begin

text \<open>
  \<^verbatim>\<open>src/config/routes.rs\<close>: outbounds, routing rules and the import of the routes a panel sends. The TOML and JSON
  deserialisers (crates toml and serde) are parameters: \<open>toml_file\<close> and \<open>toml_cfg\<close> read the two accepted shapes of a routes file,
  \<open>outbound_of_json\<close> reads an outbound. A JSON value is a \<open>json\<close>.
\<close>

section \<open>Types\<close>

record outbound_config =
  ob_tag :: string
  outbound_type :: string
  ob_server :: "string option"
  ob_address :: "string option"
  ob_port :: "u16 option"
  ob_username :: "string option"
  ob_password :: "string option"
  ob_uuid :: "string option"
  ob_alter_id :: "u16 option"
  ob_cipher :: "string option"
  ob_network :: "string option"
  ob_flow :: "string option"
  ob_security :: "string option"
  ob_tls :: "bool option"
  ob_sni :: "string option"
  ob_ws_path :: "string option"
  ob_h2_path :: "string option"
  ob_h2_host :: "string option"
  ob_grpc_service_name :: "string option"
  ob_reality_public_key :: "string option"
  ob_reality_short_id :: "string option"
  ob_listen :: "string option"

record toml_route_entry =
  tr_rules :: "string list"
  tr_outs :: "outbound_config list"

record toml_routes_file =
  tf_enable :: bool
  tf_routes :: "toml_route_entry list"

record rule_config =
  rc_node_id :: "u32 list"
  rc_network :: "string option"
  rc_domain :: "string list"
  rc_domain_suffix :: "string list"
  rc_domain_keyword :: "string list"
  rc_ip :: "string list"
  rc_port :: "string list"
  rc_outbound :: string

record routes_config =
  default_outbound :: string
  outbounds :: "outbound_config list"
  rules :: "rule_config list"
  toml_routes :: "toml_route_entry list"

datatype json =
    JNull
  | JBool bool
  | JNum int
  | JStr string
  | JArr "json list"
  | JObj "(string \<times> json) list"

section \<open>Operations\<close>

definition normalized_type :: "outbound_config \<Rightarrow> string" where
  "normalized_type o' =
     (let t = to_lowercase (trim (outbound_type o'))
      in if t = ''freedom'' then ''direct''
         else if t = ''reject'' then ''block''
         else if t = ''socks5'' then ''socks''
         else if t = ''shadowsocks'' then ''ss''
         else t)"

definition target_host :: "outbound_config \<Rightarrow> string option" where
  "target_host o' = or_else (ob_server o') (ob_address o')"

text \<open>\<^verbatim>\<open>OutboundConfig { tag, outbound_type, ..Default::default() }\<close>.\<close>

definition plain_outbound :: "string \<Rightarrow> string \<Rightarrow> outbound_config" where
  "plain_outbound t ty =
     \<lparr>ob_tag = t, outbound_type = ty, ob_server = None, ob_address = None, ob_port = None, ob_username = None,
      ob_password = None, ob_uuid = None, ob_alter_id = None, ob_cipher = None, ob_network = None, ob_flow = None,
      ob_security = None, ob_tls = None, ob_sni = None, ob_ws_path = None, ob_h2_path = None, ob_h2_host = None,
      ob_grpc_service_name = None, ob_reality_public_key = None, ob_reality_short_id = None, ob_listen = None\<rparr>"

definition routes_config_default :: routes_config where
  "routes_config_default =
     \<lparr>default_outbound = ''direct'',
      outbounds = [plain_outbound ''direct'' ''direct'', plain_outbound ''block'' ''block''],
      rules = [], toml_routes = []\<rparr>"

definition tagged_outs :: "nat \<Rightarrow> outbound_config list \<Rightarrow> outbound_config list" where
  "tagged_outs r_idx outs =
     map (\<lambda>(o_idx, out). if ob_tag out = []
            then out\<lparr>ob_tag := ''route_'' @ dec_string r_idx @ ''_out_'' @ dec_string o_idx\<rparr> else out)
       (List.enumerate 0 outs)"

definition parse_content ::
    "(string \<Rightarrow> toml_routes_file option) \<Rightarrow> (string \<Rightarrow> routes_config option) \<Rightarrow> string \<Rightarrow> routes_config" where
  "parse_content toml_file toml_cfg content =
     (let fallback = (case toml_cfg content of Some cfg \<Rightarrow> cfg | None \<Rightarrow> routes_config_default)
      in case toml_file content of
           Some f \<Rightarrow>
             (if \<not> tf_enable f then routes_config_default
              else if tf_routes f \<noteq> []
              then \<lparr>default_outbound = ''direct'',
                    outbounds = concat (map (\<lambda>(r_idx, r). tagged_outs r_idx (tr_outs r)) (List.enumerate 0 (tf_routes f))),
                    rules = [], toml_routes = tf_routes f\<rparr>
              else fallback)
         | None \<Rightarrow> fallback)"

definition load_from_file ::
    "(string \<Rightarrow> toml_routes_file option) \<Rightarrow> (string \<Rightarrow> routes_config option) \<Rightarrow> string option \<Rightarrow> routes_config" where
  "load_from_file toml_file toml_cfg file_content =
     (case file_content of
        Some content \<Rightarrow> parse_content toml_file toml_cfg content
      | None \<Rightarrow> routes_config_default)"

fun json_get :: "string \<Rightarrow> json \<Rightarrow> json option" where
  "json_get k (JObj kvs) = map_of kvs k"
| "json_get k v = None"

fun as_array :: "json \<Rightarrow> json list option" where
  "as_array (JArr xs) = Some xs"
| "as_array v = None"

fun as_str :: "json \<Rightarrow> string option" where
  "as_str (JStr s) = Some s"
| "as_str v = None"

definition collect_outbounds ::
    "(json \<Rightarrow> outbound_config option) \<Rightarrow> json list \<Rightarrow> (string \<times> outbound_config) list" where
  "collect_outbounds outbound_of_json custom_outbounds =
     fold (\<lambda>out_val m.
       case outbound_of_json out_val of
         None \<Rightarrow> m
       | Some ob \<Rightarrow>
           (let ob = (if ob_tag ob = [] then ob\<lparr>ob_tag := normalized_type ob\<rparr> else ob)
            in al_put (ob_tag ob) ob m)) custom_outbounds []"

definition or_insert :: "'k \<Rightarrow> 'v \<Rightarrow> ('k \<times> 'v) list \<Rightarrow> ('k \<times> 'v) list" where
  "or_insert k v m = (if map_of m k = None then al_put k v m else m)"

definition panel_outbounds :: "(json \<Rightarrow> outbound_config option) \<Rightarrow> json list \<Rightarrow> (string \<times> outbound_config) list" where
  "panel_outbounds outbound_of_json custom_outbounds =
     or_insert ''block'' (plain_outbound ''block'' ''block'')
       (or_insert ''direct'' (plain_outbound ''direct'' ''direct'')
         (collect_outbounds outbound_of_json custom_outbounds))"

definition route_target :: "string \<Rightarrow> string option \<Rightarrow> string" where
  "route_target action action_val =
     (if action \<in> set [''block'', ''reject'', ''block_ip'', ''block_port''] then ''block''
      else if action \<in> set [''direct'', ''freedom''] then ''direct''
      else case action_val of Some v \<Rightarrow> v | None \<Rightarrow> ''direct'')"

definition convert_route :: "(string \<times> outbound_config) list \<Rightarrow> json \<Rightarrow> toml_route_entry option" where
  "convert_route new_outbounds r_val =
     (let rules_str = (case Option.bind (json_get ''match'' r_val) as_array of
                         Some arr \<Rightarrow> List.map_filter as_str arr
                       | None \<Rightarrow> []);
          action = (case Option.bind (json_get ''action'' r_val) as_str of Some a \<Rightarrow> a | None \<Rightarrow> ''direct'');
          target_out = route_target action (Option.bind (json_get ''action_value'' r_val) as_str)
      in if rules_str = [] then None
         else Some \<lparr>tr_rules = rules_str,
                    tr_outs = [case map_of new_outbounds target_out of
                                 Some ob \<Rightarrow> ob
                               | None \<Rightarrow> plain_outbound target_out target_out]\<rparr>)"

definition push_missing :: "outbound_config list \<Rightarrow> outbound_config list \<Rightarrow> outbound_config list" where
  "push_missing obs extra =
     foldl (\<lambda>acc ob. if list_ex (\<lambda>o'. ob_tag o' = ob_tag ob) acc then acc else acc @ [ob]) obs extra"

definition import_panel_routes ::
    "(json \<Rightarrow> outbound_config option) \<Rightarrow> routes_config \<Rightarrow> json list \<Rightarrow> json list \<Rightarrow> routes_config" where
  "import_panel_routes outbound_of_json cfg panel_routes custom_outbounds =
     (let new_outbounds = panel_outbounds outbound_of_json custom_outbounds
      in cfg\<lparr>toml_routes := List.map_filter (convert_route new_outbounds) panel_routes @ toml_routes cfg,
             outbounds := push_missing (outbounds cfg) (map snd new_outbounds)\<rparr>)"

text \<open>\<^verbatim>\<open>outbounds.iter().find(|o| o.tag == tag)\<close>.\<close>

definition find_outbound :: "outbound_config list \<Rightarrow> string \<Rightarrow> outbound_config option" where
  "find_outbound obs tag = List.find (\<lambda>o'. ob_tag o' = tag) obs"

section \<open>Lemmas\<close>

lemma map_of_or_insert [simp]:
  "map_of (or_insert k v m) j = (case map_of m j of Some x \<Rightarrow> Some x | None \<Rightarrow> if j = k then Some v else None)"
  by (auto simp: or_insert_def split: option.split)

lemma al_ok_or_insert [simp]: "al_ok m \<Longrightarrow> al_ok (or_insert k v m)"
  by (simp add: or_insert_def)

definition keyed_by_tag :: "(string \<times> outbound_config) list \<Rightarrow> bool" where
  "keyed_by_tag m \<longleftrightarrow> al_ok m \<and> list_all (\<lambda>(k, ob). ob_tag ob = k) m"

lemma keyed_al_put: "keyed_by_tag m \<Longrightarrow> ob_tag ob = k \<Longrightarrow> keyed_by_tag (al_put k ob m)"
  by (auto simp: keyed_by_tag_def al_put_def list_all_iff al_ok_def distinct_map_filter)

lemma keyed_or_insert: "keyed_by_tag m \<Longrightarrow> ob_tag ob = k \<Longrightarrow> keyed_by_tag (or_insert k ob m)"
  by (simp add: or_insert_def keyed_al_put)

lemma keyed_collect: "keyed_by_tag (collect_outbounds f js)"
proof -
  have "keyed_by_tag m \<Longrightarrow> keyed_by_tag (fold (\<lambda>out_val m.
       case f out_val of
         None \<Rightarrow> m
       | Some ob \<Rightarrow>
           (let ob = (if ob_tag ob = [] then ob\<lparr>ob_tag := normalized_type ob\<rparr> else ob)
            in al_put (ob_tag ob) ob m)) js m)" for m
    by (induction js arbitrary: m) (auto simp: Let_def keyed_al_put split: option.split)
  moreover have "keyed_by_tag []" by (simp add: keyed_by_tag_def)
  ultimately show ?thesis unfolding collect_outbounds_def by blast
qed

lemma keyed_panel_outbounds: "keyed_by_tag (panel_outbounds f js)"
  by (simp add: panel_outbounds_def keyed_or_insert keyed_collect plain_outbound_def)

lemma find_outbound_simps [simp]:
  "find_outbound [] t = None"
  "find_outbound (ob # obs) t = (if ob_tag ob = t then Some ob else find_outbound obs t)"
  by (simp_all add: find_outbound_def)

lemma find_outbound_append:
  "find_outbound (xs @ ys) t = (case find_outbound xs t of Some ob \<Rightarrow> Some ob | None \<Rightarrow> find_outbound ys t)"
  by (induction xs) auto

lemma find_outbound_None: "find_outbound obs t = None \<longleftrightarrow> \<not> list_ex (\<lambda>o'. ob_tag o' = t) obs"
  by (auto simp: find_outbound_def find_None_iff list_ex_iff)

lemma find_push_missing:
  "find_outbound (push_missing obs extra) t
     = (case find_outbound obs t of Some ob \<Rightarrow> Some ob | None \<Rightarrow> find_outbound extra t)"
proof (induction extra arbitrary: obs)
  case Nil
  then show ?case by (simp add: push_missing_def split: option.split)
next
  case (Cons ob extra)
  let ?acc = "if list_ex (\<lambda>o'. ob_tag o' = ob_tag ob) obs then obs else obs @ [ob]"
  have "push_missing obs (ob # extra) = push_missing ?acc extra" by (simp add: push_missing_def)
  then show ?case
    using Cons.IH [of ?acc] find_outbound_None [of obs "ob_tag ob"]
    by (auto simp: find_outbound_append split: option.split if_splits)
qed

lemma find_keyed: "keyed_by_tag m \<Longrightarrow> find_outbound (map snd m) t = map_of m t"
  by (induction m) (auto simp: keyed_by_tag_def al_ok_def)

section \<open>Properties\<close>

text \<open>Importing the panel's routes. The converted routes of the panel come before all routes of the configuration, which stay
  behind them in order; the outbounds of the configuration keep their tags, the panel's custom outbounds serve the other tags,
  and whatever the panel sends the tags \<^verbatim>\<open>direct\<close> and \<^verbatim>\<open>block\<close> can be found afterwards; default and rules stay.\<close>

theorem import_panel_routes_result:
  "let cfg' = import_panel_routes outbound_of_json cfg panel_routes custom_outbounds;
       panel = panel_outbounds outbound_of_json custom_outbounds
   in (\<exists>converted. toml_routes cfg' = converted @ toml_routes cfg \<and>
          list_all (\<lambda>r. tr_rules r \<noteq> [] \<and> length (tr_outs r) = 1) converted) \<and>
      (\<forall>t. find_outbound (outbounds cfg') t =
         (case find_outbound (outbounds cfg) t of Some ob \<Rightarrow> Some ob | None \<Rightarrow> map_of panel t)) \<and>
      find_outbound (outbounds cfg') ''direct'' \<noteq> None \<and> find_outbound (outbounds cfg') ''block'' \<noteq> None \<and>
      default_outbound cfg' = default_outbound cfg \<and> rules cfg' = rules cfg"
proof -
  let ?p = "panel_outbounds outbound_of_json custom_outbounds"
  let ?c = "import_panel_routes outbound_of_json cfg panel_routes custom_outbounds"
  have "list_all (\<lambda>r. tr_rules r \<noteq> [] \<and> length (tr_outs r) = 1) (List.map_filter (convert_route ?p) panel_routes)"
    by (auto simp: list_all_iff List.map_filter_def convert_route_def Let_def split: if_splits)
  moreover have f: "find_outbound (outbounds ?c) t =
      (case find_outbound (outbounds cfg) t of Some ob \<Rightarrow> Some ob | None \<Rightarrow> map_of ?p t)" for t
    by (simp add: import_panel_routes_def Let_def find_push_missing find_keyed [OF keyed_panel_outbounds] cong: option.case_cong)
  moreover have "find_outbound (outbounds ?c) ''direct'' \<noteq> None" "find_outbound (outbounds ?c) ''block'' \<noteq> None"
    by (auto simp: f panel_outbounds_def split: option.splits)
  ultimately show ?thesis by (auto simp: import_panel_routes_def Let_def)
qed

end
