(* ===== verification/Router.thy ===== *)
theory Router
  imports Routes_Config Rust_Net
begin

text \<open>
  \<^verbatim>\<open>src/proxy/router/mod.rs\<close>: which outbound a connection takes. \<open>route_env\<close> holds what the router asks others:
  the networks of crate ipnet, the expressions of crate regex, the answers of the geo engine (which do not depend on its cache, theory
  \<^verbatim>\<open>Geo_Engine\<close>), and \<^verbatim>\<open>SliceRandom::choose\<close>. \<open>match_dest\<close> is the verdict of one destination rule, \<open>classify\<close> the sorting of the rules
  of a route into filters and destinations.
\<close>

section \<open>Operations\<close>

record ('n, 're) route_env =
  parse_net :: "string \<Rightarrow> 'n option"
  net_contains :: "'n \<Rightarrow> ip_addr \<Rightarrow> bool"
  regex_new :: "string \<Rightarrow> 're option"
  is_match :: "'re \<Rightarrow> string \<Rightarrow> bool"
  regex_escape :: "string \<Rightarrow> string"
  geosite_matches :: "string \<Rightarrow> string \<Rightarrow> bool"
  geoip_matches :: "string \<Rightarrow> ip_addr \<Rightarrow> bool"
  pick_out :: "outbound_config list \<Rightarrow> outbound_config option"

record match_context =
  ctx_node_id :: u32
  ctx_network :: string
  ctx_target_host :: string
  ctx_target_ip :: "ip_addr option"
  ctx_target_port :: u16
  ctx_inbound_local_ip :: "ip_addr option"

record filters =
  node_filters :: "u32 list"
  network_filters :: "string list"
  port_filters :: "(u16 \<times> u16) list"
  dest_rules :: "string list"

definition parse_port_range :: "string \<Rightarrow> (u16 \<times> u16) option" where
  "parse_port_range p =
     (case split_once (CHR ''-'') p of
        Some (s, e) \<Rightarrow>
          (case (parse_u16 (trim s), parse_u16 (trim e)) of
             (Some start, Some end') \<Rightarrow> Some (start, end')
           | _ \<Rightarrow> None)
      | None \<Rightarrow> map_option (\<lambda>port. (port, port)) (parse_u16 p))"

definition classify_rule :: "filters \<Rightarrow> string \<Rightarrow> filters" where
  "classify_rule f rule_str =
     (let rule = trim rule_str
      in if rule = [] \<or> starts_with rule ''#'' then f
         else case strip_prefix ''node_id:'' rule of
           Some node_str \<Rightarrow>
             f\<lparr>node_filters := node_filters f @ List.map_filter (\<lambda>part. parse_u32 (trim part)) (split_char (CHR '','') node_str)\<rparr>
         | None \<Rightarrow>
         (case strip_prefix ''network:'' rule of
           Some net_str \<Rightarrow> f\<lparr>network_filters := network_filters f @ [to_lowercase (trim net_str)]\<rparr>
         | None \<Rightarrow>
         (case or_else (strip_prefix ''port:'' rule) (strip_prefix ''port_range:'' rule) of
           Some port_str \<Rightarrow>
             f\<lparr>port_filters := port_filters f @ List.map_filter (\<lambda>part. parse_port_range (trim part)) (split_char (CHR '','') port_str)\<rparr>
         | None \<Rightarrow> f\<lparr>dest_rules := dest_rules f @ [rule]\<rparr>)))"

definition classify :: "string list \<Rightarrow> filters" where
  "classify rs = foldl classify_rule \<lparr>node_filters = [], network_filters = [], port_filters = [], dest_rules = []\<rparr> rs"

text \<open>\<^verbatim>\<open>target == sfx || target.ends_with(".sfx")\<close>.\<close>

definition suffix_matches :: "string \<Rightarrow> string \<Rightarrow> bool" where
  "suffix_matches target sfx \<longleftrightarrow> target = sfx \<or> ends_with target (''.'' @ sfx)"

definition ip_in :: "('n, 're) route_env \<Rightarrow> string \<Rightarrow> ip_addr \<Rightarrow> bool" where
  "ip_in env s tip =
     (case parse_net env s of
        Some net \<Rightarrow> net_contains env net tip
      | None \<Rightarrow> (case parse_ip s of Some exact_ip \<Rightarrow> tip = exact_ip | None \<Rightarrow> False))"

definition strip_any :: "string list \<Rightarrow> string \<Rightarrow> string option" where
  "strip_any ps rule = foldr (\<lambda>p r. or_else (strip_prefix p rule) r) ps None"

definition regex_matches :: "('n, 're) route_env \<Rightarrow> string \<Rightarrow> string \<Rightarrow> bool" where
  "regex_matches env pattern target_lower =
     (case regex_new env pattern of
        Some re \<Rightarrow> target_lower \<noteq> [] \<and> is_match env re target_lower
      | None \<Rightarrow> False)"

text \<open>\<^verbatim>\<open>s.replace(r"\*", ".*")\<close>.\<close>

fun unescape_star :: "string \<Rightarrow> string" where
  "unescape_star [] = []"
| "unescape_star [c] = [c]"
| "unescape_star (c # d # s) =
     (if c = CHR 0x5C \<and> d = CHR ''*'' then ''.*'' @ unescape_star s else c # unescape_star (d # s))"

definition match_bare :: "('n, 're) route_env \<Rightarrow> match_context \<Rightarrow> string \<Rightarrow> string \<Rightarrow> bool" where
  "match_bare env ctx target_lower rule =
     (case parse_net env rule of
        Some net \<Rightarrow> (case ctx_target_ip ctx of Some tip \<Rightarrow> net_contains env net tip | None \<Rightarrow> False)
      | None \<Rightarrow>
          (case parse_ip rule of
             Some exact_ip \<Rightarrow> (case ctx_target_ip ctx of Some tip \<Rightarrow> tip = exact_ip | None \<Rightarrow> False)
           | None \<Rightarrow>
               (if CHR ''*'' \<in> set rule
                then regex_matches env (''^'' @ unescape_star (regex_escape env rule) @ ''$'') target_lower
                else target_lower \<noteq> [] \<and> suffix_matches target_lower (to_lowercase rule))))"

definition match_dest :: "('n, 're) route_env \<Rightarrow> match_context \<Rightarrow> string \<Rightarrow> string \<Rightarrow> bool" where
  "match_dest env ctx target_lower rule =
     (if rule = ''*'' then True
      else case strip_prefix ''geosite:'' rule of
        Some geosite \<Rightarrow> target_lower \<noteq> [] \<and> geosite_matches env (to_lowercase (trim geosite)) target_lower
      | None \<Rightarrow>
      (case strip_prefix ''geoip:'' rule of
        Some geoip \<Rightarrow>
          (case ctx_target_ip ctx of Some tip \<Rightarrow> geoip_matches env (to_uppercase (trim geoip)) tip | None \<Rightarrow> False)
      | None \<Rightarrow>
      (case strip_any [''domain:'', ''domain_suffix:'', ''domain-suffix:''] rule of
        Some domain \<Rightarrow> target_lower \<noteq> [] \<and> suffix_matches target_lower (to_lowercase (trim domain))
      | None \<Rightarrow>
      (case strip_prefix ''full:'' rule of
        Some full \<Rightarrow> target_lower \<noteq> [] \<and> target_lower = to_lowercase (trim full)
      | None \<Rightarrow>
      (case strip_any [''keyword:'', ''domain_keyword:'', ''domain-keyword:''] rule of
        Some kw \<Rightarrow> target_lower \<noteq> [] \<and> contains_sub target_lower (to_lowercase (trim kw))
      | None \<Rightarrow>
      (case strip_any [''regexp:'', ''domain_regex:''] rule of
        Some re_str \<Rightarrow> regex_matches env (trim re_str) target_lower
      | None \<Rightarrow>
      (case strip_any [''ip:'', ''cidr:'', ''ip_cidr:''] rule of
        Some ip_str \<Rightarrow> (case ctx_target_ip ctx of Some tip \<Rightarrow> ip_in env (trim ip_str) tip | None \<Rightarrow> False)
      | None \<Rightarrow> match_bare env ctx target_lower rule)))))))"

definition port_within :: "u16 \<Rightarrow> u16 \<times> u16 \<Rightarrow> bool" where
  "port_within port r \<longleftrightarrow> port \<ge> fst r \<and> port \<le> snd r"

definition match_toml_route :: "('n, 're) route_env \<Rightarrow> toml_route_entry \<Rightarrow> match_context \<Rightarrow> string \<Rightarrow> bool" where
  "match_toml_route env route ctx target_lower =
     (let f = classify (tr_rules route)
      in if node_filters f \<noteq> [] \<and> ctx_node_id ctx \<notin> set (node_filters f) then False
         else if network_filters f \<noteq> [] \<and>
           \<not> list_ex (\<lambda>n. n = ''all'' \<or> eq_ignore_ascii_case n (ctx_network ctx)) (network_filters f) then False
         else if port_filters f \<noteq> [] \<and> \<not> list_ex (port_within (ctx_target_port ctx)) (port_filters f) then False
         else if dest_rules f = [] then True
         else list_ex (match_dest env ctx target_lower) (dest_rules f))"

text \<open>A rule of the second kind: all its conditions hold. A port entry that is not a range is parsed as it stands.\<close>

definition rule_matches :: "('n, 're) route_env \<Rightarrow> rule_config \<Rightarrow> match_context \<Rightarrow> string \<Rightarrow> bool" where
  "rule_matches env rule ctx target_lower \<longleftrightarrow>
     (rc_node_id rule = [] \<or> ctx_node_id ctx \<in> set (rc_node_id rule)) \<and>
     (case rc_network rule of Some net \<Rightarrow> net = ''all'' \<or> eq_ignore_ascii_case net (ctx_network ctx) | None \<Rightarrow> True) \<and>
     (rc_port rule = [] \<or>
        list_ex (\<lambda>p. case parse_port_range p of Some r \<Rightarrow> port_within (ctx_target_port ctx) r | None \<Rightarrow> False) (rc_port rule)) \<and>
     (rc_domain rule = [] \<or> list_ex (\<lambda>d. eq_ignore_ascii_case d target_lower) (rc_domain rule)) \<and>
     (rc_domain_suffix rule = [] \<or> list_ex (\<lambda>sfx. suffix_matches target_lower (to_lowercase sfx)) (rc_domain_suffix rule)) \<and>
     (rc_domain_keyword rule = [] \<or> list_ex (\<lambda>kw. contains_sub target_lower (to_lowercase kw)) (rc_domain_keyword rule)) \<and>
     (rc_ip rule = [] \<or>
        (case ctx_target_ip ctx of
           Some tip \<Rightarrow> list_ex (\<lambda>cidr. case parse_net env cidr of Some net \<Rightarrow> net_contains env net tip | None \<Rightarrow> False) (rc_ip rule)
         | None \<Rightarrow> False))"

fun first_toml :: "('n, 're) route_env \<Rightarrow> match_context \<Rightarrow> string \<Rightarrow> toml_route_entry list \<Rightarrow> outbound_config option" where
  "first_toml env ctx target_lower [] = None"
| "first_toml env ctx target_lower (route # routes) =
     (if match_toml_route env route ctx target_lower \<and> tr_outs route \<noteq> []
      then (case pick_out env (tr_outs route) of
              Some selected \<Rightarrow> Some selected
            | None \<Rightarrow> first_toml env ctx target_lower routes)
      else first_toml env ctx target_lower routes)"

fun first_rule ::
    "('n, 're) route_env \<Rightarrow> match_context \<Rightarrow> string \<Rightarrow> outbound_config list \<Rightarrow> rule_config list \<Rightarrow> outbound_config option" where
  "first_rule env ctx target_lower obs [] = None"
| "first_rule env ctx target_lower obs (rule # rs) =
     (if rule_matches env rule ctx target_lower
      then (case find_outbound obs (rc_outbound rule) of
              Some ob \<Rightarrow> Some ob
            | None \<Rightarrow> first_rule env ctx target_lower obs rs)
      else first_rule env ctx target_lower obs rs)"

definition match_outbound :: "('n, 're) route_env \<Rightarrow> routes_config \<Rightarrow> match_context \<Rightarrow> outbound_config" where
  "match_outbound env cfg ctx =
     (let target_lower = to_lowercase (ctx_target_host ctx)
      in case first_toml env ctx target_lower (toml_routes cfg) of
           Some ob \<Rightarrow> ob
         | None \<Rightarrow>
             (case first_rule env ctx target_lower (outbounds cfg) (rules cfg) of
                Some ob \<Rightarrow> ob
              | None \<Rightarrow>
                  (case find_outbound (outbounds cfg) (default_outbound cfg) of
                     Some ob \<Rightarrow> ob
                   | None \<Rightarrow> plain_outbound ''direct'' ''direct'')))"

section \<open>Lemmas\<close>

definition pick_ok :: "('n, 're) route_env \<Rightarrow> bool" where
  "pick_ok env \<longleftrightarrow> (\<forall>xs. xs \<noteq> [] \<longrightarrow> (\<exists>x \<in> set xs. pick_out env xs = Some x))"

definition applies :: "('n, 're) route_env \<Rightarrow> match_context \<Rightarrow> toml_route_entry \<Rightarrow> bool" where
  "applies env ctx route \<longleftrightarrow>
     match_toml_route env route ctx (to_lowercase (ctx_target_host ctx)) \<and> tr_outs route \<noteq> []"

lemma first_toml_Some:
  assumes "pick_ok env" "routes = before @ route # after" "applies env ctx route"
    "list_all (\<lambda>r. \<not> applies env ctx r) before"
  shows "\<exists>ob \<in> set (tr_outs route). first_toml env ctx (to_lowercase (ctx_target_host ctx)) routes = Some ob"
  using assms(2,4)
proof (induction before arbitrary: routes)
  case Nil
  obtain ob where "ob \<in> set (tr_outs route)" "pick_out env (tr_outs route) = Some ob"
    using assms(1,3) by (auto simp: pick_ok_def applies_def)
  then show ?case using Nil assms(3) by (auto simp: applies_def)
next
  case (Cons r before)
  then show ?case by (auto simp: applies_def)
qed

lemma first_toml_None:
  "list_all (\<lambda>r. \<not> applies env ctx r) routes \<Longrightarrow>
     first_toml env ctx (to_lowercase (ctx_target_host ctx)) routes = None"
  by (induction routes) (auto simp: applies_def)



section \<open>Properties\<close>

text \<open>The first match decides. If a route of the first kind applies (its filters and one of its destinations match and it
  has outbounds) and none before it does, the outbound is one of that route's; if no such route applies, it is the outbound of the
  first matching rule whose tag exists; if there is none, it is the default outbound or, if that tag does not exist,
  \<^verbatim>\<open>direct\<close>. \<open>pick_ok\<close> is the contract of \<^verbatim>\<open>SliceRandom::choose\<close>.\<close>

theorem match_outbound_first_match:
  assumes "pick_ok env"
  shows "(\<forall>before route after. toml_routes cfg = before @ route # after \<and> applies env ctx route \<and>
           list_all (\<lambda>r. \<not> applies env ctx r) before \<longrightarrow> match_outbound env cfg ctx \<in> set (tr_outs route))
    \<and> (list_all (\<lambda>r. \<not> applies env ctx r) (toml_routes cfg) \<longrightarrow>
        (case filter (\<lambda>r. rule_matches env r ctx (to_lowercase (ctx_target_host ctx)) \<and>
             find_outbound (outbounds cfg) (rc_outbound r) \<noteq> None) (rules cfg) of
           r # rs \<Rightarrow> find_outbound (outbounds cfg) (rc_outbound r) = Some (match_outbound env cfg ctx)
         | [] \<Rightarrow> match_outbound env cfg ctx =
             (case find_outbound (outbounds cfg) (default_outbound cfg) of
                Some ob \<Rightarrow> ob | None \<Rightarrow> plain_outbound ''direct'' ''direct'')))"
proof (intro conjI allI impI)
  fix before route after
  assume "toml_routes cfg = before @ route # after \<and> applies env ctx route \<and> list_all (\<lambda>r. \<not> applies env ctx r) before"
  then obtain ob where "ob \<in> set (tr_outs route)"
    "first_toml env ctx (to_lowercase (ctx_target_host ctx)) (toml_routes cfg) = Some ob"
    using first_toml_Some [OF assms] by blast
  then show "match_outbound env cfg ctx \<in> set (tr_outs route)" by (simp add: match_outbound_def Let_def)
next
  assume "list_all (\<lambda>r. \<not> applies env ctx r) (toml_routes cfg)"
  note none = first_toml_None [OF this]
  let ?P = "\<lambda>r. rule_matches env r ctx (to_lowercase (ctx_target_host ctx)) \<and>
             find_outbound (outbounds cfg) (rc_outbound r) \<noteq> None"
  have first: "first_rule env ctx (to_lowercase (ctx_target_host ctx)) (outbounds cfg) rs
      = (case filter ?P rs of r # rs' \<Rightarrow> find_outbound (outbounds cfg) (rc_outbound r) | [] \<Rightarrow> None)" for rs
    by (induction rs) (auto split: option.splits)
  show "case filter ?P (rules cfg) of
           r # rs \<Rightarrow> find_outbound (outbounds cfg) (rc_outbound r) = Some (match_outbound env cfg ctx)
         | [] \<Rightarrow> match_outbound env cfg ctx =
             (case find_outbound (outbounds cfg) (default_outbound cfg) of
                Some ob \<Rightarrow> ob | None \<Rightarrow> plain_outbound ''direct'' ''direct'')"
  proof (cases "filter ?P (rules cfg)")
    case (Cons r rs)
    then have "r \<in> set (filter ?P (rules cfg))" by simp
    then show ?thesis using first Cons none by (auto simp: match_outbound_def Let_def)
  qed (use first none in \<open>simp add: match_outbound_def Let_def\<close>)
qed


definition sample_env :: "(ip_addr, string) route_env" where
  "sample_env = \<lparr>parse_net = (\<lambda>s. None), net_contains = (\<lambda>n ip. n = ip), regex_new = (\<lambda>r. None), is_match = (\<lambda>r s. False),
     regex_escape = (\<lambda>s. s), geosite_matches = (\<lambda>t d. False), geoip_matches = (\<lambda>c ip. False),
     pick_out = (\<lambda>xs. case xs of [] \<Rightarrow> None | x # _ \<Rightarrow> Some x)\<rparr>"

definition sample_ctx :: "string \<Rightarrow> match_context" where
  "sample_ctx host = \<lparr>ctx_node_id = 1, ctx_network = ''tcp'', ctx_target_host = host, ctx_target_ip = None,
     ctx_target_port = 443, ctx_inbound_local_ip = None\<rparr>"

lemma sample_env_pick: "pick_ok sample_env"
  by (auto simp: pick_ok_def sample_env_def split: list.split)

theorem match_outbound_first_match_witness:
  "match_outbound sample_env routes_config_default (sample_ctx ''a.b'') = plain_outbound ''direct'' ''direct''"
  using match_outbound_first_match [OF sample_env_pick, of routes_config_default "sample_ctx ''a.b''"]
  by (simp add: routes_config_default_def plain_outbound_def)


end
