(* ===== verification/Security_Audit.thy ===== *)
theory Security_Audit
  imports Router
begin

text \<open>
  \<^verbatim>\<open>src/security/audit.rs\<close> and the use the dialer makes of it (\<^verbatim>\<open>resolve_target\<close> of \<^verbatim>\<open>src/proxy/router/outbound.rs\<close>): rule lists, the decision
  whether a destination is blocked, and the addresses a destination may resolve to. Networks, regular expressions and geo answers come from
  \<^typ>\<open>('n, 're) route_env\<close> as in theory \<^verbatim>\<open>Router\<close>; the preloads of \<^verbatim>\<open>reload\<close> fill caches that do not change answers (theory \<^verbatim>\<open>Geo_Engine\<close>).
  The address classes of \<^verbatim>\<open>std::net\<close> are written on octets and segments as the standard library has them.
\<close>

section \<open>Rule lists\<close>

datatype ('n, 're) rule_item =
    Keyword string
  | Regex 're
  | Cidr 'n
  | Ip ip_addr
  | PortRange u16 u16
  | DomainSuffix string
  | FullDomain string
  | GeoSite string
  | GeoIp string
  | NodeId "u32 list"
  | Network string
  | All

definition bare_rule :: "('n, 're) route_env \<Rightarrow> string \<Rightarrow> ('n, 're) rule_item list" where
  "bare_rule env line =
     (case parse_net env line of
        Some net \<Rightarrow> [Cidr net]
      | None \<Rightarrow>
          (case parse_ip line of
             Some ip \<Rightarrow> [Ip ip]
           | None \<Rightarrow>
               (if CHR ''*'' \<in> set line
                then (case regex_new env (''^'' @ unescape_star (regex_escape env line) @ ''$'') of
                        Some re \<Rightarrow> [Regex re] | None \<Rightarrow> [])
                else [Keyword (to_lowercase line)])))"

text \<open>The items of one line that is not empty and not a comment.\<close>

definition rule_items :: "('n, 're) route_env \<Rightarrow> string \<Rightarrow> ('n, 're) rule_item list" where
  "rule_items env line =
     (if line = ''*'' then [All]
      else case strip_prefix ''geosite:'' line of Some geosite \<Rightarrow> [GeoSite (to_lowercase (trim geosite))]
      | None \<Rightarrow> (case strip_prefix ''geoip:'' line of Some geoip \<Rightarrow> [GeoIp (to_uppercase (trim geoip))]
      | None \<Rightarrow> (case strip_prefix ''domain:'' line of Some domain \<Rightarrow> [DomainSuffix (to_lowercase (trim domain))]
      | None \<Rightarrow> (case strip_any [''domain_suffix:'', ''domain-suffix:''] line of
                   Some domain \<Rightarrow> [DomainSuffix (to_lowercase (trim domain))]
      | None \<Rightarrow> (case strip_prefix ''full:'' line of Some full \<Rightarrow> [FullDomain (to_lowercase (trim full))]
      | None \<Rightarrow> (case strip_any [''keyword:'', ''domain_keyword:'', ''domain-keyword:''] line of
                   Some kw \<Rightarrow> [Keyword (to_lowercase (trim kw))]
      | None \<Rightarrow> (case strip_any [''regexp:'', ''domain_regex:''] line of
                   Some re_str \<Rightarrow> (case regex_new env (trim re_str) of Some re \<Rightarrow> [Regex re] | None \<Rightarrow> [])
      | None \<Rightarrow> (case strip_any [''cidr:'', ''ip_cidr:''] line of
                   Some cidr_str \<Rightarrow> (case parse_net env (trim cidr_str) of Some net \<Rightarrow> [Cidr net] | None \<Rightarrow> [])
      | None \<Rightarrow> (case strip_prefix ''ip:'' line of
                   Some ip_str \<Rightarrow>
                     (case parse_net env (trim ip_str) of
                        Some net \<Rightarrow> [Cidr net]
                      | None \<Rightarrow> (case parse_ip (trim ip_str) of Some ip \<Rightarrow> [Ip ip] | None \<Rightarrow> []))
      | None \<Rightarrow> (case strip_prefix ''port:'' line of
                   Some port_str \<Rightarrow>
                     map (\<lambda>(s, e). PortRange s e)
                       (List.map_filter (\<lambda>part. parse_port_range (trim part)) (split_char (CHR '','') port_str))
      | None \<Rightarrow> (case strip_prefix ''node_id:'' line of
                   Some node_str \<Rightarrow>
                     (let ids = List.map_filter (\<lambda>s. parse_u32 (trim s)) (split_char (CHR '','') node_str)
                      in if ids \<noteq> [] then [NodeId ids] else [])
      | None \<Rightarrow> (case strip_prefix ''network:'' line of
                   Some net_str \<Rightarrow> [Network (to_lowercase (trim net_str))]
      | None \<Rightarrow> bare_rule env line))))))))))))"

definition reload_line :: "('n, 're) route_env \<Rightarrow> string \<Rightarrow> ('n, 're) rule_item list" where
  "reload_line env raw =
     (let line = trim raw
      in if line = [] \<or> starts_with line ''#'' \<or> starts_with line '';'' then [] else rule_items env line)"

definition reload :: "('n, 're) route_env \<Rightarrow> string \<Rightarrow> ('n, 're) rule_item list" where
  "reload env content = concat (map (reload_line env) (str_lines content))"

fun item_matches ::
    "('n, 're) route_env \<Rightarrow> string \<Rightarrow> ip_addr option \<Rightarrow> u16 \<Rightarrow> u32 option \<Rightarrow> string option \<Rightarrow> ('n, 're) rule_item \<Rightarrow> bool" where
  "item_matches env lower_domain ip port node_id network All = True"
| "item_matches env lower_domain ip port node_id network (Keyword kw) = (lower_domain \<noteq> [] \<and> contains_sub lower_domain kw)"
| "item_matches env lower_domain ip port node_id network (Regex re) = (lower_domain \<noteq> [] \<and> is_match env re lower_domain)"
| "item_matches env lower_domain ip port node_id network (DomainSuffix suffix) =
     (lower_domain \<noteq> [] \<and> suffix_matches lower_domain suffix)"
| "item_matches env lower_domain ip port node_id network (FullDomain full) = (lower_domain \<noteq> [] \<and> lower_domain = full)"
| "item_matches env lower_domain ip port node_id network (GeoSite tag) =
     (lower_domain \<noteq> [] \<and> geosite_matches env tag lower_domain)"
| "item_matches env lower_domain ip port node_id network (GeoIp country) =
     (case ip of Some target_ip \<Rightarrow> geoip_matches env country target_ip | None \<Rightarrow> False)"
| "item_matches env lower_domain ip port node_id network (Cidr net) =
     (case ip of Some target_ip \<Rightarrow> net_contains env net target_ip | None \<Rightarrow> False)"
| "item_matches env lower_domain ip port node_id network (Ip expected_ip) = (ip = Some expected_ip)"
| "item_matches env lower_domain ip port node_id network (PortRange start end') = (start \<le> port \<and> port \<le> end')"
| "item_matches env lower_domain ip port node_id network (NodeId ids) =
     (case node_id of Some nid \<Rightarrow> nid \<in> set ids | None \<Rightarrow> False)"
| "item_matches env lower_domain ip port node_id network (Network net) =
     (case network of Some n \<Rightarrow> net = ''all'' \<or> eq_ignore_ascii_case net n | None \<Rightarrow> False)"

definition matches_full ::
    "('n, 're) route_env \<Rightarrow> ('n, 're) rule_item list \<Rightarrow> string \<Rightarrow> ip_addr option \<Rightarrow> u16 \<Rightarrow> u32 option \<Rightarrow> string option \<Rightarrow> bool" where
  "matches_full env items domain ip port node_id network =
     list_ex (item_matches env (to_lowercase domain) ip port node_id network) items"

definition matches :: "('n, 're) route_env \<Rightarrow> ('n, 're) rule_item list \<Rightarrow> string \<Rightarrow> ip_addr option \<Rightarrow> u16 \<Rightarrow> bool" where
  "matches env items domain ip port = matches_full env items domain ip port None None"

fun windows :: "nat \<Rightarrow> 'a list \<Rightarrow> 'a list list" where
  "windows n [] = []"
| "windows n (x # xs) = (if n \<le> length (x # xs) then take n (x # xs) # windows n xs else [])"

fun item_matches_payload :: "('n, 're) route_env \<Rightarrow> bytes \<Rightarrow> ('n, 're) rule_item \<Rightarrow> bool" where
  "item_matches_payload env payload (Keyword kw) =
     (kw \<noteq> [] \<and> list_ex (\<lambda>w. eq_ignore_ascii_case w kw) (windows (length kw) (bytes_str payload)))"
| "item_matches_payload env payload (Regex re) =
     (case from_utf8 payload of Some txt \<Rightarrow> is_match env re txt | None \<Rightarrow> False)"
| "item_matches_payload env payload _ = False"

definition matches_payload :: "('n, 're) route_env \<Rightarrow> ('n, 're) rule_item list \<Rightarrow> bytes \<Rightarrow> bool" where
  "matches_payload env items payload = (payload \<noteq> [] \<and> list_ex (item_matches_payload env payload) items)"

section \<open>Private addresses\<close>

definition v4_is_private :: "u32 \<Rightarrow> bool" where
  "v4_is_private w =
     (let o' = be32_bytes w
      in o' ! 0 = 10 \<or> (o' ! 0 = 172 \<and> 16 \<le> o' ! 1 \<and> o' ! 1 \<le> 31) \<or> (o' ! 0 = 192 \<and> o' ! 1 = 168))"

definition v4_is_loopback :: "u32 \<Rightarrow> bool" where "v4_is_loopback w = (be32_bytes w ! 0 = 127)"
definition v4_is_link_local :: "u32 \<Rightarrow> bool" where "v4_is_link_local w = (be32_bytes w ! 0 = 169 \<and> be32_bytes w ! 1 = 254)"
definition v4_is_broadcast :: "u32 \<Rightarrow> bool" where "v4_is_broadcast w = (w = 0xFFFFFFFF)"
definition v4_is_documentation :: "u32 \<Rightarrow> bool" where
  "v4_is_documentation w =
     (let o' = be32_bytes w
      in (o' ! 0 = 192 \<and> o' ! 1 = 0 \<and> o' ! 2 = 2) \<or> (o' ! 0 = 198 \<and> o' ! 1 = 51 \<and> o' ! 2 = 100) \<or>
         (o' ! 0 = 203 \<and> o' ! 1 = 0 \<and> o' ! 2 = 113))"
definition v4_is_unspecified :: "u32 \<Rightarrow> bool" where "v4_is_unspecified w = (w = 0)"

definition is_private_v4 :: "u32 \<Rightarrow> bool" where
  "is_private_v4 w \<longleftrightarrow>
     v4_is_private w \<or> v4_is_loopback w \<or> v4_is_link_local w \<or> v4_is_broadcast w \<or> v4_is_documentation w \<or> v4_is_unspecified w"

definition to_ipv4_mapped :: "u128 \<Rightarrow> u32 option" where
  "to_ipv4_mapped w = (if drop_bit 32 w = 0xFFFF then Some (ucast w) else None)"

definition is_private_ip :: "ip_addr \<Rightarrow> bool" where
  "is_private_ip ip =
     (case ip of
        V4 w \<Rightarrow> is_private_v4 w
      | V6 w \<Rightarrow>
          (case to_ipv4_mapped w of Some v4 \<Rightarrow> is_private_v4 v4 | None \<Rightarrow> False) \<or> w = 1 \<or> w = 0 \<or>
          (v6_segments w ! 0) AND 0xfe00 = 0xfc00 \<or> (v6_segments w ! 0) AND 0xffc0 = 0xfe80)"

section \<open>The audit controller\<close>

record ('n, 're) audit_controller =
  block_list :: "('n, 're) rule_item list"
  white_list :: "('n, 're) rule_item list"
  forbidden_ports :: "(u16 \<times> u16) list"
  ban_private_ip :: bool
  forbidden_bit_torrent :: bool

definition reload_block_list :: "('n, 're) route_env \<Rightarrow> string \<Rightarrow> ('n, 're) audit_controller \<Rightarrow> ('n, 're) audit_controller" where
  "reload_block_list env content a = a\<lparr>block_list := reload env content\<rparr>"

definition reload_white_list :: "('n, 're) route_env \<Rightarrow> string \<Rightarrow> ('n, 're) audit_controller \<Rightarrow> ('n, 're) audit_controller" where
  "reload_white_list env content a = a\<lparr>white_list := reload env content\<rparr>"

text \<open>The file of a list, if it can be read.\<close>

definition load_rules :: "('n, 're) route_env \<Rightarrow> string option \<Rightarrow> ('n, 're) rule_item list" where
  "load_rules env file = (case file of Some content \<Rightarrow> reload env content | None \<Rightarrow> [])"

definition audit_new_with_options ::
    "('n, 're) route_env \<Rightarrow> string option \<Rightarrow> string option \<Rightarrow> (u16 \<times> u16) list \<Rightarrow> bool \<Rightarrow> bool \<Rightarrow> ('n, 're) audit_controller" where
  "audit_new_with_options env block_file white_file ports ban bt =
     \<lparr>block_list = load_rules env block_file, white_list = load_rules env white_file, forbidden_ports = ports,
      ban_private_ip = ban, forbidden_bit_torrent = bt\<rparr>"

definition audit_new :: "('n, 're) route_env \<Rightarrow> string option \<Rightarrow> string option \<Rightarrow> ('n, 're) audit_controller" where
  "audit_new env block_file white_file = audit_new_with_options env block_file white_file [] False True"

definition should_block_full ::
    "('n, 're) route_env \<Rightarrow> ('n, 're) audit_controller \<Rightarrow> string \<Rightarrow> ip_addr option \<Rightarrow> u16 \<Rightarrow> u32 option \<Rightarrow> string option \<Rightarrow> bool" where
  "should_block_full env a domain ip port node_id network =
     (if matches_full env (white_list a) domain ip port node_id network then False
      else if ban_private_ip a \<and>
         (eq_ignore_ascii_case domain ''localhost'' \<or> (case ip of Some target_ip \<Rightarrow> is_private_ip target_ip | None \<Rightarrow> False))
      then True
      else if list_ex (\<lambda>(start, end'). start \<le> port \<and> port \<le> end') (forbidden_ports a) then True
      else if forbidden_bit_torrent a \<and>
         ((6881 \<le> port \<and> port \<le> 6889) \<or>
          (let lower = to_lowercase domain
           in contains_sub lower ''torrent'' \<or> contains_sub lower ''tracker'' \<or> contains_sub lower ''peer_id''))
      then True
      else matches_full env (block_list a) domain ip port node_id network)"

definition should_block ::
    "('n, 're) route_env \<Rightarrow> ('n, 're) audit_controller \<Rightarrow> string \<Rightarrow> ip_addr option \<Rightarrow> u16 \<Rightarrow> bool" where
  "should_block env a domain ip port = should_block_full env a domain ip port None None"

definition should_block_payload :: "('n, 're) route_env \<Rightarrow> ('n, 're) audit_controller \<Rightarrow> bytes \<Rightarrow> bool" where
  "should_block_payload env a payload =
     (if payload = [] then False
      else if matches_payload env (white_list a) payload then False
      else matches_payload env (block_list a) payload)"

section \<open>Resolving a target under the audit\<close>

definition resolve_target ::
    "('n, 're) route_env \<Rightarrow> (string \<Rightarrow> u16 \<Rightarrow> socket_addr list res) \<Rightarrow> ('n, 're) audit_controller option \<Rightarrow> string \<Rightarrow> u16 \<Rightarrow>
     socket_addr list res" where
  "resolve_target env resolve audit host port =
     (if (case audit of Some a \<Rightarrow> should_block env a host (parse_ip host) port | None \<Rightarrow> False) then Err PermissionDenied
      else
        and_then (resolve host port) (\<lambda>addresses.
          if addresses = [] then Err NotFound
          else case audit of
                 Some a \<Rightarrow>
                   (let addresses = filter (\<lambda>address. \<not> should_block env a host (Some (sa_ip address)) port) addresses
                    in if addresses = [] then Err PermissionDenied else Ok addresses)
               | None \<Rightarrow> Ok addresses))"


section \<open>Lemmas on addresses\<close>

text \<open>The reference: the blocks of the address registries as intervals of numbers.\<close>

definition private_v4_ranges :: "(nat \<times> nat) list" where
  "private_v4_ranges =
     [(0x0A000000, 0x0AFFFFFF), (0xAC100000, 0xAC1FFFFF), (0xC0A80000, 0xC0A8FFFF), (0x7F000000, 0x7FFFFFFF),
      (0xA9FE0000, 0xA9FEFFFF), (0xFFFFFFFF, 0xFFFFFFFF), (0xC0000200, 0xC00002FF), (0xC6336400, 0xC63364FF),
      (0xCB007100, 0xCB0071FF), (0, 0)]"

definition private_v6_ranges :: "(nat \<times> nat) list" where
  "private_v6_ranges = [(0, 1), (0xFC * 2 ^ 120, 0xFE * 2 ^ 120 - 1), (0xFE8 * 2 ^ 116, 0xFEC * 2 ^ 116 - 1)]"

definition in_ranges :: "(nat \<times> nat) list \<Rightarrow> nat \<Rightarrow> bool" where
  "in_ranges rs n = list_ex (\<lambda>(lo, hi). lo \<le> n \<and> n \<le> hi) rs"

lemma unat_octets:
  "unat (be32_bytes w ! 0) = unat w div 2 ^ 24" "unat (be32_bytes w ! 1) = unat w div 2 ^ 16 mod 256"
  "unat (be32_bytes w ! 2) = unat w div 2 ^ 8 mod 256" "unat (be32_bytes w ! Suc 0) = unat w div 2 ^ 16 mod 256"
proof -
  have u: "unat (ucast (drop_bit k w) :: u8) = unat w div 2 ^ k mod 256" for k
    unfolding unsigned_ucast_eq unat_drop_bit_eq by (simp add: take_bit_eq_mod drop_bit_eq_div)
  have "unat w div 2 ^ 24 < 256" using unat_u32_less [of w] by simp
  then show "unat (be32_bytes w ! 0) = unat w div 2 ^ 24" using u [of 24] by (simp add: be32_bytes_def)
  show "unat (be32_bytes w ! 1) = unat w div 2 ^ 16 mod 256" "unat (be32_bytes w ! 2) = unat w div 2 ^ 8 mod 256"
    "unat (be32_bytes w ! Suc 0) = unat w div 2 ^ 16 mod 256"
    using u [of 16] u [of 8] by (simp_all add: be32_bytes_def)
qed

lemma nat_div_eq: "0 < d \<Longrightarrow> n div d = k \<longleftrightarrow> k * d \<le> n \<and> n < k * d + (d :: nat)"
  by (metis add.commute div_nat_eqI dividend_less_times_div less_eq_div_iff_mult_less_eq mult.commute mult_Suc order_refl times_div_less_eq_dividend)

lemma range_div: "0 < d \<Longrightarrow> lo = k * d \<Longrightarrow> hi + 1 = lo + d \<Longrightarrow> n div d = k \<longleftrightarrow> lo \<le> n \<and> n \<le> (hi :: nat)"
  by (subst nat_div_eq) auto

lemma div_mod_eq: "b < 256 \<Longrightarrow> (q :: nat) div 256 = a \<and> q mod 256 = b \<longleftrightarrow> q = a * 256 + b"
  by (metis add.commute div_mult_mod_eq div_mult_self3 mod_less mod_mult_self3 div_less add_0 zero_neq_numeral)

lemma div_mod_16: "(q :: nat) div 256 = 172 \<and> 16 \<le> q mod 256 \<and> q mod 256 \<le> 31 \<longleftrightarrow> q div 16 = 0xAC1"
proof -
  have "q mod 256 = q - 44032" if "q div 256 = 172" using minus_div_mult_eq_mod [of q 256] that by simp
  then show ?thesis using nat_div_eq [of 256 q 172] nat_div_eq [of 16 q "0xAC1"] by auto
qed

lemma u8_eq_unat: "(b :: u8) = c \<longleftrightarrow> unat b = unat c"
  by (simp add: word_unat_eq_iff)

lemma is_private_v4_ranges: "is_private_v4 w \<longleftrightarrow> in_ranges private_v4_ranges (unat w)"
proof -
  define n where "n = unat w"
  have q: "n div 2 ^ 24 = n div 2 ^ 16 div 256" "n div 2 ^ 16 = n div 2 ^ 8 div 256" "n div 2 ^ 20 = n div 2 ^ 16 div 16"
    by (simp_all add: div_mult2_eq [symmetric])
  have two: "n div 2 ^ 24 = a \<and> n div 2 ^ 16 mod 256 = b \<longleftrightarrow> n div 2 ^ 16 = a * 256 + b" if "b < 256" for a b
    unfolding q(1) by (rule div_mod_eq [OF that])
  have three: "n div 2 ^ 24 = a \<and> n div 2 ^ 16 mod 256 = b \<and> n div 2 ^ 8 mod 256 = c \<longleftrightarrow> n div 2 ^ 8 = (a * 256 + b) * 256 + c"
    if "b < 256" "c < 256" for a b c
    using two [OF that(1), of a] div_mod_eq [OF that(2), of "n div 2 ^ 8" "a * 256 + b"] unfolding q(2) by blast
  have sixteen: "n div 2 ^ 24 = 172 \<and> 16 \<le> n div 2 ^ 16 mod 256 \<and> n div 2 ^ 16 mod 256 \<le> 31 \<longleftrightarrow> n div 2 ^ 20 = 0xAC1"
    unfolding q(1,3) by (rule div_mod_16)
  have "v4_is_private w \<longleftrightarrow> n div 2 ^ 24 = 10 \<or> n div 2 ^ 20 = 0xAC1 \<or> n div 2 ^ 16 = 0xC0A8"
    using sixteen two [of 168 192]
    by (simp add: v4_is_private_def Let_def u8_eq_unat word_le_nat_alt unat_octets n_def)
  moreover have "v4_is_loopback w \<longleftrightarrow> n div 2 ^ 24 = 127"
    by (simp add: v4_is_loopback_def u8_eq_unat unat_octets n_def)
  moreover have "v4_is_link_local w \<longleftrightarrow> n div 2 ^ 16 = 0xA9FE"
    using two [of 254 169] by (simp add: v4_is_link_local_def u8_eq_unat unat_octets n_def)
  moreover have "v4_is_documentation w \<longleftrightarrow> n div 2 ^ 8 = 0xC00002 \<or> n div 2 ^ 8 = 0xC63364 \<or> n div 2 ^ 8 = 0xCB0071"
    using three [of 0 2 192] three [of 51 100 198] three [of 0 113 203]
    by (simp add: v4_is_documentation_def Let_def u8_eq_unat unat_octets n_def)
  moreover have "v4_is_broadcast w \<longleftrightarrow> 0xFFFFFFFF \<le> n \<and> n \<le> 0xFFFFFFFF" "v4_is_unspecified w \<longleftrightarrow> n = 0"
    by (auto simp: v4_is_broadcast_def v4_is_unspecified_def n_def word_unat_eq_iff)
  moreover have
    "n div 2 ^ 24 = 10 \<longleftrightarrow> 0x0A000000 \<le> n \<and> n \<le> 0x0AFFFFFF" "n div 2 ^ 20 = 0xAC1 \<longleftrightarrow> 0xAC100000 \<le> n \<and> n \<le> 0xAC1FFFFF"
    "n div 2 ^ 16 = 0xC0A8 \<longleftrightarrow> 0xC0A80000 \<le> n \<and> n \<le> 0xC0A8FFFF" "n div 2 ^ 24 = 127 \<longleftrightarrow> 0x7F000000 \<le> n \<and> n \<le> 0x7FFFFFFF"
    "n div 2 ^ 16 = 0xA9FE \<longleftrightarrow> 0xA9FE0000 \<le> n \<and> n \<le> 0xA9FEFFFF" "n div 2 ^ 8 = 0xC00002 \<longleftrightarrow> 0xC0000200 \<le> n \<and> n \<le> 0xC00002FF"
    "n div 2 ^ 8 = 0xC63364 \<longleftrightarrow> 0xC6336400 \<le> n \<and> n \<le> 0xC63364FF" "n div 2 ^ 8 = 0xCB0071 \<longleftrightarrow> 0xCB007100 \<le> n \<and> n \<le> 0xCB0071FF"
    by (rule range_div; simp)+
  ultimately show ?thesis
    unfolding is_private_v4_def n_def [symmetric] by (simp add: in_ranges_def private_v4_ranges_def disj_assoc)
qed


lemma drop_and_not_mask: "push_bit n (drop_bit n s) = (s :: 'l::len word) AND NOT (mask n)"
  by (rule bit_word_eqI) (auto simp: bit_push_bit_iff bit_drop_bit_eq bit_and_iff bit_not_iff bit_mask_iff)

lemma high_bits:
  assumes "drop_bit n (push_bit n v) = (v :: u16)"
  shows "s AND NOT (mask n) = push_bit n v \<longleftrightarrow> drop_bit n s = v"
proof
  assume "s AND NOT (mask n) = push_bit n v"
  then have "drop_bit n (push_bit n (drop_bit n s)) = v" unfolding drop_and_not_mask [symmetric] using assms by simp
  moreover have "drop_bit n (push_bit n (drop_bit n s)) = drop_bit n s"
    by (rule bit_word_eqI) (auto simp: bit_drop_bit_eq bit_push_bit_iff dest: bit_imp_le_length)
  ultimately show "drop_bit n s = v" by simp
next
  assume "drop_bit n s = v"
  then show "s AND NOT (mask n) = push_bit n v" unfolding drop_and_not_mask [symmetric] by simp
qed

lemma unat_segment: "unat (drop_bit k (v6_segments w ! 0)) = unat w div 2 ^ (112 + k)"
proof -
  have "unat w < 2 ^ 128" using unsigned_less [of w] by simp
  then have "unat w div 2 ^ 112 < 65536" by (simp add: less_mult_imp_div_less)
  moreover have "v6_segments w ! 0 = ucast (drop_bit 112 w)" by (simp add: v6_segments_def)
  then have "unat (v6_segments w ! 0) = unat w div 2 ^ 112 mod 65536"
    unfolding unsigned_ucast_eq [symmetric] by (simp only: unsigned_ucast_eq unat_drop_bit_eq) (simp add: take_bit_eq_mod drop_bit_eq_div)
  ultimately have "unat (v6_segments w ! 0) = unat w div 2 ^ 112" by simp
  then show ?thesis unfolding unat_drop_bit_eq by (simp add: drop_bit_eq_div div_mult2_eq [symmetric] power_add)
qed

lemma v6_unique_local: "(v6_segments w ! 0) AND 0xfe00 = 0xfc00 \<longleftrightarrow> unat w div 2 ^ 121 = 126"
proof -
  have "(v6_segments w ! 0) AND 0xfe00 = 0xfc00 \<longleftrightarrow> drop_bit 9 (v6_segments w ! 0) = 126"
  proof -
    have c: "(0xfe00 :: u16) = NOT (mask 9)" "(0xfc00 :: u16) = push_bit 9 126" by (simp_all add: mask_eq_exp_minus_1)
    show ?thesis unfolding c by (rule high_bits) simp
  qed
  also have "\<dots> \<longleftrightarrow> unat (drop_bit 9 (v6_segments w ! 0)) = 126" by (simp add: word_unat_eq_iff)
  finally show ?thesis unfolding unat_segment by simp
qed

lemma v6_link_local: "(v6_segments w ! 0) AND 0xffc0 = 0xfe80 \<longleftrightarrow> unat w div 2 ^ 118 = 0x3FA"
proof -
  have "(v6_segments w ! 0) AND 0xffc0 = 0xfe80 \<longleftrightarrow> drop_bit 6 (v6_segments w ! 0) = 0x3FA"
  proof -
    have c: "(0xffc0 :: u16) = NOT (mask 6)" "(0xfe80 :: u16) = push_bit 6 0x3FA" by (simp_all add: mask_eq_exp_minus_1)
    show ?thesis unfolding c by (rule high_bits) simp
  qed
  also have "\<dots> \<longleftrightarrow> unat (drop_bit 6 (v6_segments w ! 0)) = 0x3FA" by (simp add: word_unat_eq_iff)
  finally show ?thesis unfolding unat_segment by simp
qed

lemma mapped_iff:
  "to_ipv4_mapped w = (if unat w div 2 ^ 32 = 0xFFFF then Some (of_nat (unat w - 0xFFFF * 2 ^ 32)) else None)"
proof -
  have d: "drop_bit 32 w = 0xFFFF \<longleftrightarrow> unat w div 2 ^ 32 = 0xFFFF"
  proof -
    have "drop_bit 32 w = 0xFFFF \<longleftrightarrow> unat (drop_bit 32 w) = 0xFFFF" by (simp add: word_unat_eq_iff)
    then show ?thesis unfolding unat_drop_bit_eq by (simp add: drop_bit_eq_div)
  qed
  moreover have "(ucast w :: u32) = of_nat (unat w - 0xFFFF * 2 ^ 32)" if "unat w div 2 ^ 32 = 0xFFFF"
  proof -
    have "unat w mod 2 ^ 32 = unat w - 0xFFFF * 2 ^ 32" using minus_div_mult_eq_mod [of "unat w" "2 ^ 32"] that by simp
    moreover have "unat (ucast w :: u32) = unat w mod 2 ^ 32" by (simp add: unsigned_ucast_eq take_bit_eq_mod)
    ultimately show ?thesis by (metis of_nat_unat ucast_id)
  qed
  ultimately show ?thesis by (simp add: to_ipv4_mapped_def)
qed


section \<open>Lemmas on rules\<close>

lemma list_ex_reload: "r \<in> set (str_lines content) \<Longrightarrow> list_ex P (reload_line env r) \<Longrightarrow> list_ex P (reload env content)"
  by (auto simp: reload_def list_ex_iff)

lemma trim_domain_rule:
  "trim r = ''domain:'' @ d \<Longrightarrow> reload_line env r = [DomainSuffix (to_lowercase (trim d))]"
  by (simp add: reload_line_def rule_items_def Let_def starts_with_def strip_prefix_def)

section \<open>Properties\<close>

text \<open>The private addresses. An address counts as private exactly if its number lies in one of the blocks of private, loopback,
  link-local, documentation, broadcast and unspecified addresses of IPv4, in the loopback, unspecified, unique-local or link-local
  block of IPv6, or if it is the IPv4-mapped form of a private IPv4 address.\<close>

theorem private_ip_ranges:
  "is_private_ip ip \<longleftrightarrow>
     (case ip of
        V4 w \<Rightarrow> in_ranges private_v4_ranges (unat w)
      | V6 w \<Rightarrow> in_ranges private_v6_ranges (unat w) \<or>
          (unat w div 2 ^ 32 = 0xFFFF \<and> in_ranges private_v4_ranges (unat w - 0xFFFF * 2 ^ 32)))"
proof (cases ip)
  case (V4 w)
  then show ?thesis by (simp add: is_private_ip_def is_private_v4_ranges)
next
  case (V6 w)
  define n where "n = unat w"
  have "n div 2 ^ 121 = 126 \<longleftrightarrow> 0xFC * 2 ^ 120 \<le> n \<and> n \<le> 0xFE * 2 ^ 120 - 1"
    "n div 2 ^ 118 = 0x3FA \<longleftrightarrow> 0xFE8 * 2 ^ 116 \<le> n \<and> n \<le> 0xFEC * 2 ^ 116 - 1"
    by (rule range_div; simp)+
  moreover have "w = 1 \<or> w = 0 \<longleftrightarrow> 0 \<le> n \<and> n \<le> 1" by (auto simp: n_def word_unat_eq_iff le_Suc_eq)
  moreover have "in_ranges private_v6_ranges n \<longleftrightarrow> (0 \<le> n \<and> n \<le> 1) \<or> (0xFC * 2 ^ 120 \<le> n \<and> n \<le> 0xFE * 2 ^ 120 - 1) \<or>
      (0xFE8 * 2 ^ 116 \<le> n \<and> n \<le> 0xFEC * 2 ^ 116 - 1)"
    by (simp add: in_ranges_def private_v6_ranges_def)
  moreover have "unat (of_nat (n - 0xFFFF * 2 ^ 32) :: u32) = n - 0xFFFF * 2 ^ 32" if "n div 2 ^ 32 = 0xFFFF"
    using nat_div_eq [of "2 ^ 32" n "0xFFFF"] that by (simp only: unat_of_nat) simp
  then have "(case to_ipv4_mapped w of Some v4 \<Rightarrow> is_private_v4 v4 | None \<Rightarrow> False) \<longleftrightarrow>
      n div 2 ^ 32 = 0xFFFF \<and> in_ranges private_v4_ranges (n - 0xFFFF * 2 ^ 32)"
    unfolding mapped_iff n_def [symmetric] by (cases "n div 2 ^ 32 = 0xFFFF") (simp_all only: is_private_v4_ranges if_True if_False option.case simp_thms)
  ultimately show ?thesis
    using v6_unique_local [of w] v6_link_local [of w]
    unfolding V6 is_private_ip_def ip_addr.case n_def [symmetric] by blast
qed

text \<open>C18: no server-side request forgery. With the ban on private addresses, a target that the white list does not exempt is
  dialled only at addresses that are not private: not as a literal, not under the name localhost, and not through a name that
  resolves to a private address, whatever the resolver answers; addresses the black list names are left out as well.\<close>

theorem dial_never_private:
  assumes "ban_private_ip a" and "resolve_target env resolve (Some a) host port = Ok addresses" and "address \<in> set addresses"
    and "\<not> matches_full env (white_list a) host (Some (sa_ip address)) port None None"
  shows "\<not> is_private_ip (sa_ip address) \<and> \<not> eq_ignore_ascii_case host ''localhost'' \<and>
    \<not> matches_full env (block_list a) host (Some (sa_ip address)) port None None"
proof -
  obtain all where "resolve host port = Ok all" "addresses = filter (\<lambda>address. \<not> should_block env a host (Some (sa_ip address)) port) all"
    using assms(2) by (auto simp: resolve_target_def Let_def split: if_splits)
  then have "\<not> should_block env a host (Some (sa_ip address)) port" using assms(3) by simp
  then show ?thesis using assms(1,4) by (auto simp: should_block_def should_block_full_def split: if_splits)
qed

text \<open>A line \<^verbatim>\<open>domain:\<close> of the black list takes effect. Once such a list is loaded, the domain and everything below it is
  blocked in any spelling, on every port and address, unless the white list exempts the request; the other lines do not matter.\<close>

theorem block_list_enforced:
  assumes "r \<in> set (str_lines content)" and "trim r = ''domain:'' @ d" and "host \<noteq> []"
    and "suffix_matches (to_lowercase host) (to_lowercase (trim d))"
    and "\<not> matches_full env (white_list a) host ip port node_id network"
  shows "should_block_full env (reload_block_list env content a) host ip port node_id network"
proof -
  have "list_ex (item_matches env (to_lowercase host) ip port node_id network) (reload env content)"
    by (rule list_ex_reload [OF assms(1)]) (use assms(3,4) in \<open>simp add: trim_domain_rule [OF assms(2)] to_lowercase_def\<close>)
  then show ?thesis
    using assms(5) by (simp add: should_block_full_def matches_full_def reload_block_list_def)
qed


text \<open>An environment without networks, expressions and geo data, and a controller that bans private addresses.\<close>

definition plain_env :: "(unit, unit) route_env" where
  "plain_env =
     \<lparr>parse_net = (\<lambda>_. None), net_contains = (\<lambda>_ _. False), regex_new = (\<lambda>_. None), is_match = (\<lambda>_ _. False),
      regex_escape = (\<lambda>s. s), geosite_matches = (\<lambda>_ _. False), geoip_matches = (\<lambda>_ _. False), pick_out = (\<lambda>_. None)\<rparr>"

definition banning :: "(unit, unit) audit_controller" where
  "banning = audit_new_with_options plain_env None None [] True False"

theorem dial_never_private_witness:
  "resolve_target plain_env (\<lambda>h p. Ok [SocketAddr (V4 0x7F000001) p, SocketAddr (V4 0x08080808) p]) (Some banning) ''xn.h'' 80
     = Ok [SocketAddr (V4 0x08080808) 80] \<and> \<not> is_private_ip (V4 0x08080808)"
proof -
  have r: "resolve_target plain_env (\<lambda>h p. Ok [SocketAddr (V4 0x7F000001) p, SocketAddr (V4 0x08080808) p]) (Some banning) ''xn.h'' 80
     = Ok [SocketAddr (V4 0x08080808) 80]"
  proof -
    note parse_ip_name
    moreover have "is_private_ip (V4 0x7F000001)" "\<not> is_private_ip (V4 0x08080808)"
      by (simp_all add: is_private_ip_def is_private_v4_ranges in_ranges_def private_v4_ranges_def)
    ultimately show ?thesis
      by (simp add: resolve_target_def should_block_def should_block_full_def banning_def audit_new_with_options_def load_rules_def
          matches_full_def eq_ignore_ascii_case_def Let_def)
  qed
  have w: "\<not> matches_full plain_env (white_list banning) ''xn.h'' (Some (V4 0x08080808)) 80 None None"
    by (simp add: banning_def audit_new_with_options_def load_rules_def matches_full_def)
  have "ban_private_ip banning" by (simp add: banning_def audit_new_with_options_def)
  from dial_never_private [OF this r, of "SocketAddr (V4 0x08080808) 80"] show ?thesis using r w by simp
qed

theorem block_list_enforced_witness:
  "should_block_full plain_env (reload_block_list plain_env ''domain:Ads.Example'' banning) ''X.ads.example'' None 443 None None"
proof (rule block_list_enforced)
  show "''domain:Ads.Example'' \<in> set (str_lines ''domain:Ads.Example'')" by code_simp
  show "trim ''domain:Ads.Example'' = ''domain:'' @ ''Ads.Example''" by code_simp
  show "suffix_matches (to_lowercase ''X.ads.example'') (to_lowercase (trim ''Ads.Example''))" by code_simp
  show "\<not> matches_full plain_env (white_list banning) ''X.ads.example'' None 443 None None"
    by (simp add: banning_def audit_new_with_options_def load_rules_def matches_full_def)
qed simp

end
