(* ===== verification/Dns_Wire.thy ===== *)
theory Dns_Wire
  imports Rust_Net
begin

text \<open>
  \<^verbatim>\<open>src/dns/wire.rs\<close>: building a DNS query and reading the addresses out of a response. The buffer is a
  list of bytes, an index out of range is \<open>Panic\<close>. \<open>skip_name_loop\<close> is the \<^verbatim>\<open>while\<close> loop of
  \<^verbatim>\<open>skip_name\<close>; \<open>questions\<close> and \<open>answers\<close> are the two \<^verbatim>\<open>for\<close> loops of \<^verbatim>\<open>parse_response\<close>, counted down.
\<close>

section \<open>Operations\<close>

definition TYPE_A :: u16 where "TYPE_A = 1"
definition TYPE_AAAA :: u16 where "TYPE_AAAA = 28"
definition CLASS_IN :: u16 where "CLASS_IN = 1"

definition clean_domain :: "string \<Rightarrow> string" where
  "clean_domain domain = trim_end_matches (CHR ''.'') (trim domain)"

fun push_labels :: "bytes \<Rightarrow> string list \<Rightarrow> bytes res" where
  "push_labels buf [] = Ok buf"
| "push_labels buf (label # ls) =
     (if label = [] \<or> length label > 63 then Err InvalidInput
      else push_labels (buf @ [of_nat (length label)] @ str_bytes label) ls)"

definition build_query :: "string \<Rightarrow> u16 \<Rightarrow> u16 \<Rightarrow> bytes res" where
  "build_query domain qtype qid =
     (let buf = be16_bytes qid @ be16_bytes 0x0100 @ be16_bytes 1 @ be16_bytes 0 @ be16_bytes 0 @ be16_bytes 0
      in if clean_domain domain = [] then Err InvalidInput
         else and_then (push_labels buf (split_char (CHR ''.'') (clean_domain domain))) (\<lambda>buf.
                Ok (buf @ [0] @ be16_bytes qtype @ be16_bytes CLASS_IN)))"

function skip_name_loop :: "bytes \<Rightarrow> nat \<Rightarrow> nat \<Rightarrow> nat res" where
  "skip_name_loop buf pos jumps =
     (if pos < length buf
      then let len = buf ! pos
           in if len = 0 then Ok (pos + 1)
              else if len AND 0xC0 = 0xC0
              then (if pos + 2 > length buf then Err UnexpectedEof else Ok (pos + 2))
              else if jumps + 1 > 128 then Err InvalidData
              else skip_name_loop buf (pos + (1 + unat len)) (jumps + 1)
      else Err UnexpectedEof)"
  by pat_completeness auto
termination
  by (relation "measure (\<lambda>(buf, pos, jumps). length buf - pos)") auto

definition skip_name :: "bytes \<Rightarrow> nat \<Rightarrow> nat res" where
  "skip_name buf pos = skip_name_loop buf pos 0"

fun questions :: "bytes \<Rightarrow> nat \<Rightarrow> nat \<Rightarrow> nat res" where
  "questions buf 0 pos = Ok pos"
| "questions buf (Suc n) pos =
     and_then (skip_name buf pos) (\<lambda>pos.
       if pos + 4 > length buf then Err UnexpectedEof else questions buf n (pos + 4))"

definition record_ip :: "u16 \<Rightarrow> bytes \<Rightarrow> ip_addr list" where
  "record_ip atype rdata =
     (if atype = TYPE_A \<and> length rdata = 4 then [V4 (be_word rdata)]
      else if atype = TYPE_AAAA \<and> length rdata = 16 then [ipv6_from rdata]
      else [])"

fun answers :: "bytes \<Rightarrow> nat \<Rightarrow> nat \<Rightarrow> ip_addr list \<Rightarrow> ip_addr list res" where
  "answers buf 0 pos ips = Ok ips"
| "answers buf (Suc n) pos ips =
     (if pos \<ge> length buf then Ok ips
      else and_then (skip_name buf pos) (\<lambda>pos.
        if pos + 10 > length buf then Ok ips
        else
          and_then (be16_at buf pos) (\<lambda>atype.
          and_then (be16_at buf (pos + 2)) (\<lambda>aclass.
          and_then (be32_at buf (pos + 4)) (\<lambda>ttl.
          and_then (be16_at buf (pos + 8)) (\<lambda>rdlen.
            let rdlength = unat rdlen; pos = pos + 10
            in if pos + rdlength > length buf then Ok ips
               else and_then (slice buf pos (pos + rdlength)) (\<lambda>rdata.
                      answers buf n (pos + rdlength) (ips @ record_ip atype rdata))))))))"

definition parse_response :: "bytes \<Rightarrow> ip_addr list res" where
  "parse_response buf =
     (if length buf < 12 then Err UnexpectedEof
      else
        and_then (be16_at buf 2) (\<lambda>flags.
        if flags AND 0x000F \<noteq> 0 then Ok []
        else
          and_then (be16_at buf 4) (\<lambda>qdcount.
          and_then (be16_at buf 6) (\<lambda>ancount.
          if ancount = 0 then Ok []
          else and_then (questions buf (unat qdcount) 12) (\<lambda>pos. answers buf (unat ancount) pos [])))))"

section \<open>Reference definitions\<close>

text \<open>A name on the wire, read label by label, and a resource record that points back at the question.\<close>

fun wire_labels :: "string list \<Rightarrow> bytes" where
  "wire_labels [] = []"
| "wire_labels (l # ls) = of_nat (length l) # str_bytes l @ wire_labels ls"

definition label_ok :: "string \<Rightarrow> bool" where
  "label_ok l \<longleftrightarrow> l \<noteq> [] \<and> length l \<le> 63"

record rr =
  rr_type :: u16
  rr_class :: u16
  rr_ttl :: u32
  rr_data :: bytes

definition rr_bytes :: "rr \<Rightarrow> bytes" where
  "rr_bytes r = [0xC0, 0x0C] @ be16_bytes (rr_type r) @ be16_bytes (rr_class r) @ be32_bytes (rr_ttl r)
     @ be16_bytes (of_nat (length (rr_data r))) @ rr_data r"

text \<open>The response a server gives to the query \<open>q\<close>: its identifier, flags without an error code, the
  question repeated, then the records.\<close>

definition response_to :: "bytes \<Rightarrow> rr list \<Rightarrow> bytes" where
  "response_to q rrs = take 2 q @ be16_bytes 0x8180 @ be16_bytes 1 @ be16_bytes (of_nat (length rrs))
     @ be16_bytes 0 @ be16_bytes 0 @ drop 12 q @ concat (map rr_bytes rrs)"

section \<open>Lemmas\<close>

declare skip_name_loop.simps [simp del]

lemma skip_name_loop_bounds:
  "skip_name_loop buf pos jumps = Ok p \<Longrightarrow> pos < p \<and> p \<le> length buf"
proof (induction buf pos jumps rule: skip_name_loop.induct)
  case (1 buf pos jumps)
  show ?case
    using 1(2) by (subst (asm) skip_name_loop.simps) (auto simp: Let_def split: if_splits dest!: 1(1))
qed

lemma skip_name_loop_not_Panic [simp]: "skip_name_loop buf pos jumps \<noteq> Panic"
proof (induction buf pos jumps rule: skip_name_loop.induct)
  case (1 buf pos jumps)
  then show ?case by (subst skip_name_loop.simps) (auto simp: Let_def)
qed

lemma skip_name_bounds: "skip_name buf pos = Ok p \<Longrightarrow> pos < p \<and> p \<le> length buf"
  unfolding skip_name_def by (rule skip_name_loop_bounds)

lemma skip_name_not_Panic [simp]: "skip_name buf pos \<noteq> Panic"
  by (simp add: skip_name_def)

lemma questions_not_Panic [simp]: "questions buf n pos \<noteq> Panic"
  by (induction n arbitrary: pos) (auto simp: and_then_Panic_iff)

lemma answers_not_Panic [simp]: "answers buf n pos ips \<noteq> Panic"
proof (induction n arbitrary: pos ips)
  case (Suc n)
  then show ?case
    by (auto simp: and_then_Panic_iff rs_simps Let_def)
qed simp

text \<open>Building a name and skipping it.\<close>

lemma push_labels_Ok_iff:
  "push_labels buf ls = Ok out \<longleftrightarrow> list_all label_ok ls \<and> out = buf @ wire_labels ls"
  by (induction ls arbitrary: buf) (auto simp: label_ok_def)

lemma label_len_byte:
  assumes "label_ok l"
  shows "(of_nat (length l) :: u8) \<noteq> 0" "(of_nat (length l) :: u8) AND 0xC0 \<noteq> 0xC0"
    "unat (of_nat (length l) :: u8) = length l"
proof -
  show u: "unat (of_nat (length l) :: u8) = length l"
    using assms by (intro unat_of_nat_u8) (simp add: label_ok_def)
  show "(of_nat (length l) :: u8) \<noteq> 0"
    using u assms by (metis label_ok_def length_0_conv unsigned_0)
  have "\<not> bit (of_nat (length l) :: u8) 7"
  proof
    assume "bit (of_nat (length l) :: u8) 7"
    then have "bit (unat (of_nat (length l) :: u8)) 7" by (simp add: bit_unsigned_iff)
    then have "odd (length l div 2 ^ 7)" unfolding u bit_iff_odd .
    then show False using assms by (simp add: label_ok_def)
  qed
  then have "\<not> bit ((of_nat (length l) :: u8) AND 0xC0) 7" by (simp add: bit_and_iff)
  moreover have "bit (0xC0 :: u8) 7" by (simp add: bit_iff_odd drop_bit_eq_div)
  ultimately show "(of_nat (length l) :: u8) AND 0xC0 \<noteq> 0xC0" by metis
qed

lemma skip_name_loop_labels:
  assumes "list_all label_ok ls" "jumps + length ls \<le> 128" "pos = length xs"
  shows "skip_name_loop (xs @ wire_labels ls @ 0 # ys) pos jumps = Ok (pos + length (wire_labels ls) + 1)"
  using assms
proof (induction ls arbitrary: xs pos jumps)
  case Nil
  then show ?case by (simp add: skip_name_loop.simps)
next
  case (Cons l ls)
  note b = label_len_byte [of l]
  have "skip_name_loop (xs @ wire_labels (l # ls) @ 0 # ys) pos jumps
      = skip_name_loop ((xs @ of_nat (length l) # str_bytes l) @ wire_labels ls @ 0 # ys)
          (pos + (1 + length l)) (jumps + 1)"
    using Cons.prems b by (subst skip_name_loop.simps) simp
  also have "\<dots> = Ok (pos + (1 + length l) + length (wire_labels ls) + 1)"
    using Cons.prems by (intro Cons.IH) simp_all
  finally show ?case by (simp add: add.assoc)
qed

lemma skip_name_pointer:
  "pos = length xs \<Longrightarrow> skip_name (xs @ [0xC0, 0x0C] @ ys) pos = Ok (pos + 2)"
  unfolding skip_name_def by (subst skip_name_loop.simps) (simp add: Let_def nth_append)

lemma be32_at_append: "i = length xs \<Longrightarrow> be32_at (xs @ be32_bytes w @ ys) i = Ok w"
  by (simp add: be32_at_def byte_at_def be32_bytes_def nth_append)

lemma answers_record:
  fixes xs :: bytes
  assumes "length (rr_data r) < 65536"
  shows "answers (xs @ rr_bytes r @ ys) (Suc n) (length xs) ips
       = answers ((xs @ rr_bytes r) @ ys) n (length (xs @ rr_bytes r)) (ips @ record_ip (rr_type r) (rr_data r))"
proof -
  let ?b = "xs @ rr_bytes r @ ys"
  let ?h = "xs @ [0xC0, 0x0C]"
  let ?t = "be16_bytes (rr_type r)" let ?c = "be16_bytes (rr_class r)" let ?l = "be32_bytes (rr_ttl r)"
  let ?n = "of_nat (length (rr_data r)) :: u16"
  obtain p where p: "p = length xs + 2" by simp
  have u: "unat ?n = length (rr_data r)" using assms by (rule unat_of_nat_u16)
  have b: "?b = ?h @ ?t @ ?c @ ?l @ be16_bytes ?n @ rr_data r @ ys" by (simp add: rr_bytes_def)
  have len: "length ?b = p + 10 + length (rr_data r) + length ys" by (simp add: b p)
  have "skip_name ?b (length xs) = Ok p"
    unfolding b p append_assoc by (rule skip_name_pointer) simp
  moreover have "be16_at ?b p = Ok (rr_type r)"
    unfolding b by (rule be16_at_append) (simp add: p)
  moreover have "be16_at ?b (p + 2) = Ok (rr_class r)"
    unfolding b using be16_at_append [of "p + 2" "?h @ ?t"] by (simp add: p)
  moreover have "be32_at ?b (p + 4) = Ok (rr_ttl r)"
    unfolding b using be32_at_append [of "p + 4" "?h @ ?t @ ?c"] by (simp add: p)
  moreover have "be16_at ?b (p + 8) = Ok ?n"
    unfolding b using be16_at_append [of "p + 8" "?h @ ?t @ ?c @ ?l"] by (simp add: p)
  moreover have "slice ?b (p + 10) (p + 10 + length (rr_data r)) = Ok (rr_data r)"
    using slice_Ok [of "p + 10" "p + 10 + length (rr_data r)" ?b] len by (simp add: b p)
  moreover have "length (xs @ rr_bytes r) = p + 10 + length (rr_data r)" by (simp add: rr_bytes_def p)
  moreover have "length xs < length ?b" using len p by simp
  ultimately show ?thesis
    using u len by (simp add: Let_def add.commute del: length_append)
qed

lemma answers_records:
  assumes "list_all (\<lambda>r. length (rr_data r) < 65536) rrs"
  shows "answers (xs @ concat (map rr_bytes rrs)) (length rrs) (length xs) ips
       = Ok (ips @ concat (map (\<lambda>r. record_ip (rr_type r) (rr_data r)) rrs))"
  using assms
proof (induction rrs arbitrary: xs ips)
  case (Cons r rrs)
  then show ?case
    using answers_record [of r xs "concat (map rr_bytes rrs)" "length rrs" ips]
      Cons.IH [of "xs @ rr_bytes r"] by simp
qed simp

lemma build_query_Ok_iff:
  "build_query domain qtype qid = Ok q \<longleftrightarrow>
     clean_domain domain \<noteq> [] \<and> list_all label_ok (split_char (CHR ''.'') (clean_domain domain)) \<and>
     q = be16_bytes qid @ be16_bytes 0x0100 @ be16_bytes 1 @ be16_bytes 0 @ be16_bytes 0 @ be16_bytes 0
         @ wire_labels (split_char (CHR ''.'') (clean_domain domain)) @ 0 # be16_bytes qtype @ be16_bytes CLASS_IN"
  by (auto simp: build_query_def Let_def push_labels_Ok_iff)

text \<open>The answer to a built query is read completely. For every query \<^verbatim>\<open>build_query\<close> accepts for a name of
  at most 128 labels and every response to it with fewer than 65536 records, \<^verbatim>\<open>parse_response\<close> skips the
  question that repeats the built name and returns the addresses of all the A and AAAA records in order, and nothing of
  the records of other types or lengths.\<close>

lemma built_query_response:
  assumes "build_query domain qtype qid = Ok q"
    and "length (split_char (CHR ''.'') (clean_domain domain)) \<le> 128"
    and "rrs \<noteq> []" and "length rrs < 65536" and "list_all (\<lambda>r. length (rr_data r) < 65536) rrs"
  shows "parse_response (response_to q rrs) = Ok (concat (map (\<lambda>r. record_ip (rr_type r) (rr_data r)) rrs))"
proof -
  let ?ls = "split_char (CHR ''.'') (clean_domain domain)"
  let ?hdr = "be16_bytes qid @ be16_bytes 0x8180 @ be16_bytes 1 @ be16_bytes (of_nat (length rrs))
     @ be16_bytes 0 @ be16_bytes 0"
  let ?qtail = "be16_bytes qtype @ be16_bytes CLASS_IN"
  let ?rest = "concat (map rr_bytes rrs)"
  have ok: "list_all label_ok ?ls"
    and q: "q = be16_bytes qid @ be16_bytes 0x0100 @ be16_bytes 1 @ be16_bytes 0 @ be16_bytes 0 @ be16_bytes 0
         @ wire_labels ?ls @ 0 # ?qtail"
    using assms(1) by (auto simp: build_query_Ok_iff)
  have b: "response_to q rrs = ?hdr @ wire_labels ?ls @ 0 # ?qtail @ ?rest"
    by (simp add: response_to_def q)
  have sk: "skip_name (response_to q rrs) 12 = Ok (12 + length (wire_labels ?ls) + 1)"
    unfolding b skip_name_def using ok assms(2) by (intro skip_name_loop_labels) simp_all
  have fl: "be16_at (response_to q rrs) 2 = Ok 0x8180" "be16_at (response_to q rrs) 4 = Ok 1"
    "be16_at (response_to q rrs) 6 = Ok (of_nat (length rrs))"
    unfolding b using be16_at_append [of 2 "be16_bytes qid"] be16_at_append [of 4 "be16_bytes qid @ be16_bytes 0x8180"]
      be16_at_append [of 6 "be16_bytes qid @ be16_bytes 0x8180 @ be16_bytes 1"] by simp_all
  have n: "unat (of_nat (length rrs) :: u16) = length rrs" using assms(4) by (rule unat_of_nat_u16)
  then have "(of_nat (length rrs) :: u16) \<noteq> 0" using assms(3) by (metis length_0_conv unsigned_0)
  moreover have "questions (response_to q rrs) 1 12 = Ok (12 + length (wire_labels ?ls) + 5)"
    using sk by (simp add: b)
  moreover have "answers (response_to q rrs) (length rrs) (12 + length (wire_labels ?ls) + 5) []
      = Ok (concat (map (\<lambda>r. record_ip (rr_type r) (rr_data r)) rrs))"
    using answers_records [OF assms(5), of "?hdr @ wire_labels ?ls @ 0 # ?qtail" "[]"] by (simp add: b)
  moreover have "12 \<le> length (response_to q rrs)" by (simp add: b)
  ultimately show ?thesis using fl n by (simp add: parse_response_def del: and_then_Ok_iff questions.simps)
qed

section \<open>Properties\<close>

text \<open>No byte string makes \<^verbatim>\<open>parse_response\<close> panic: every index and slice it takes is in range, whatever
  counts, lengths and compression pointers the response claims.\<close>

theorem parse_response_no_panic: "parse_response buf \<noteq> Panic"
  by (auto simp: parse_response_def and_then_Panic_iff rs_simps)

end
