(* ===== verification/Dns_Client.thy ===== *)
theory Dns_Client
  imports Dns_Wire
begin

text \<open>
  \<^verbatim>\<open>src/dns/client.rs\<close>: the address of a DNS server and one query to it over UDP, TCP, TLS or HTTPS. The network is an argument,
  \<open>dns_net\<close>: what looking up a name, exchanging a datagram, writing to and reading from a connection and posting a request give
  during the call, which queries run into the timeout, and the random transaction ids. Messages are built and read by \<open>Dns_Wire\<close>.
\<close>

section \<open>Endpoints\<close>

datatype dns_endpoint =
    Udp string u16
  | Tcp string u16
  | Dot string u16
  | Doh string

definition port_or_default :: "u16 \<Rightarrow> string \<Rightarrow> u16 res" where
  "port_or_default default_port rest =
     (case strip_prefix '':'' rest of
        Some colon \<Rightarrow> ok_or InvalidInput (parse_u16 colon)
      | None \<Rightarrow> Ok default_port)"

definition plain_host_port :: "u16 \<Rightarrow> string \<Rightarrow> (string \<times> u16) res" where
  "plain_host_port default_port input =
     (if length (filter (\<lambda>c. c = CHR '':'') input) = 1
      then (case split_once (CHR '':'') input of
              Some (h, p) \<Rightarrow> map_res (\<lambda>port. (h, port)) (ok_or InvalidInput (parse_u16 p))
            | None \<Rightarrow> Panic)
      else Ok (input, default_port))"

definition parse_host_port :: "string \<Rightarrow> u16 \<Rightarrow> (string \<times> u16) res" where
  "parse_host_port raw default_port =
     (let input = trim raw
      in if input = [] then Err InvalidInput
         else if starts_with input ''[''
         then (case find_sub input '']'' of
                 Some end_bracket \<Rightarrow>
                   and_then (slice input 1 end_bracket) (\<lambda>host.
                     map_res (\<lambda>port. (host, port)) (port_or_default default_port (drop (end_bracket + 1) input)))
               | None \<Rightarrow> plain_host_port default_port input)
         else plain_host_port default_port input)"

definition parse_dns_endpoint :: "string \<Rightarrow> dns_endpoint res" where
  "parse_dns_endpoint s =
     (let raw = trim s
      in if raw = [] then Err InvalidInput
         else if starts_with raw ''https://'' then Ok (Doh raw)
         else case or_else (strip_prefix ''tcp-tls://'' raw) (or_else (strip_prefix ''tls://'' raw) (strip_prefix ''dot://'' raw)) of
                Some rest \<Rightarrow> map_res (\<lambda>(host, port). Dot host port) (parse_host_port rest 853)
              | None \<Rightarrow>
                  (case strip_prefix ''tcp://'' raw of
                     Some rest \<Rightarrow> map_res (\<lambda>(host, port). Tcp host port) (parse_host_port rest 53)
                   | None \<Rightarrow>
                       map_res (\<lambda>(host, port). Udp host port)
                         (parse_host_port (case strip_prefix ''udp://'' raw of Some rest \<Rightarrow> rest | None \<Rightarrow> raw) 53)))"

section \<open>Queries\<close>

record dns_net =
  nt_lookup_host :: "string \<Rightarrow> io_error + socket_addr list"
  nt_udp :: "socket_addr \<Rightarrow> bytes \<Rightarrow> io_error + bytes"
  nt_tcp :: "socket_addr \<Rightarrow> bytes \<Rightarrow> io_error + bytes"
  nt_tls :: "string \<Rightarrow> socket_addr \<Rightarrow> bytes \<Rightarrow> io_error + bytes"
  nt_post :: "nat \<Rightarrow> string \<Rightarrow> bytes \<Rightarrow> (bool \<times> bytes option) option"
  nt_timed_out :: "dns_endpoint \<Rightarrow> bytes \<Rightarrow> bool"
  nt_random :: "dns_endpoint \<Rightarrow> u16 \<Rightarrow> u16"

fun io_res :: "io_error + 'a \<Rightarrow> 'a res" where
  "io_res (Inl e) = Err e"
| "io_res (Inr x) = Ok x"

definition resolve_server_addr :: "dns_net \<Rightarrow> string \<Rightarrow> u16 \<Rightarrow> socket_addr res" where
  "resolve_server_addr net host port =
     (case parse_ip host of
        Some ip \<Rightarrow> Ok (SocketAddr ip port)
      | None \<Rightarrow>
          and_then (io_res (nt_lookup_host net (host @ '':'' @ dec_string (unat port)))) (\<lambda>addrs.
            case addrs of [] \<Rightarrow> Err NotFound | a # as \<Rightarrow> Ok a))"

text \<open>The check of the transaction id and the reading of the answer, the same in the three transports.\<close>

definition check_response :: "u16 \<Rightarrow> bytes \<Rightarrow> ip_addr list res" where
  "check_response expected_id resp =
     (if length resp \<ge> 2 \<and> be16 (resp ! 0) (resp ! 1) \<noteq> expected_id then Err InvalidData else parse_response resp)"

definition query_udp :: "dns_net \<Rightarrow> string \<Rightarrow> u16 \<Rightarrow> bytes \<Rightarrow> u16 \<Rightarrow> ip_addr list res" where
  "query_udp net host port query expected_id =
     and_then (resolve_server_addr net host port) (\<lambda>target_addr.
     and_then (io_res (nt_udp net target_addr query)) (\<lambda>datagram.
       check_response expected_id (take 1024 datagram)))"

definition length_prefixed :: "bytes \<Rightarrow> bytes" where
  "length_prefixed query = be16_bytes (of_nat (length query)) @ query"

definition read_length_prefixed :: "u16 \<Rightarrow> bytes \<Rightarrow> ip_addr list res" where
  "read_length_prefixed expected_id stream =
     and_then (read_exact 2 stream) (\<lambda>(l, stream).
     and_then (read_exact (unat (be16 (l ! 0) (l ! 1))) stream) (\<lambda>(resp, stream).
       check_response expected_id resp))"

definition query_tcp :: "dns_net \<Rightarrow> string \<Rightarrow> u16 \<Rightarrow> bytes \<Rightarrow> u16 \<Rightarrow> ip_addr list res" where
  "query_tcp net host port query expected_id =
     and_then (resolve_server_addr net host port) (\<lambda>target_addr.
     and_then (io_res (nt_tcp net target_addr (length_prefixed query))) (read_length_prefixed expected_id))"

definition query_dot :: "dns_net \<Rightarrow> string \<Rightarrow> u16 \<Rightarrow> bytes \<Rightarrow> u16 \<Rightarrow> ip_addr list res" where
  "query_dot net host port query expected_id =
     and_then (resolve_server_addr net host port) (\<lambda>target_addr.
     and_then (io_res (nt_tls net host target_addr (length_prefixed query))) (read_length_prefixed expected_id))"

text \<open>One attempt after the other; only a request that could not be sent is repeated.\<close>

fun doh_attempts :: "dns_net \<Rightarrow> string \<Rightarrow> bytes \<Rightarrow> nat list \<Rightarrow> ip_addr list res" where
  "doh_attempts net url query [] = Err Other"
| "doh_attempts net url query (attempt # rest) =
     (case nt_post net attempt url query of
        None \<Rightarrow> doh_attempts net url query rest
      | Some (status_success, body) \<Rightarrow>
          if \<not> status_success then Err Other else and_then (ok_or Other body) parse_response)"

definition query_doh :: "dns_net \<Rightarrow> string \<Rightarrow> bytes \<Rightarrow> ip_addr list res" where
  "query_doh net url query = doh_attempts net url query [0, 1]"

definition client_query :: "dns_net \<Rightarrow> dns_endpoint \<Rightarrow> string \<Rightarrow> u16 \<Rightarrow> ip_addr list res" where
  "client_query net endpoint domain qtype =
     (let qid = nt_random net endpoint qtype
      in and_then (build_query domain qtype qid) (\<lambda>query_bytes.
           if nt_timed_out net endpoint query_bytes then Err TimedOut
           else case endpoint of
                  Udp host port \<Rightarrow> query_udp net host port query_bytes qid
                | Tcp host port \<Rightarrow> query_tcp net host port query_bytes qid
                | Dot host port \<Rightarrow> query_dot net host port query_bytes qid
                | Doh url \<Rightarrow> query_doh net url query_bytes))"

section \<open>Lemmas\<close>

lemma io_res_not_Panic [simp]: "io_res r \<noteq> Panic"
  by (cases r) simp_all

lemma io_res_Ok_iff [simp]: "io_res r = Ok x \<longleftrightarrow> r = Inr x"
  by (cases r) simp_all

lemma parse_response_not_Panic [simp]: "parse_response buf \<noteq> Panic"
  by (auto simp: parse_response_def and_then_Panic_iff rs_simps)

lemma resolve_server_addr_not_Panic [simp]: "resolve_server_addr net host port \<noteq> Panic"
  by (auto simp: resolve_server_addr_def and_then_Panic_iff split: option.split list.split)

lemma check_response_not_Panic [simp]: "check_response qid resp \<noteq> Panic"
  by (simp add: check_response_def)

lemma read_length_prefixed_not_Panic [simp]: "read_length_prefixed qid s \<noteq> Panic"
  by (auto simp: read_length_prefixed_def and_then_Panic_iff)

lemma doh_attempts_not_Panic [simp]: "doh_attempts net url query as \<noteq> Panic"
  by (induction as) (auto simp: and_then_Panic_iff split: option.split)

lemma push_labels_not_Panic [simp]: "push_labels buf ls \<noteq> Panic"
  by (induction ls arbitrary: buf) auto

lemma query_doh_not_Panic [simp]: "query_doh net url query \<noteq> Panic"
  unfolding query_doh_def by (rule doh_attempts_not_Panic)

lemma client_query_not_Panic [simp]: "client_query net endpoint domain qtype \<noteq> Panic"
  by (auto simp: client_query_def build_query_def query_udp_def query_tcp_def query_dot_def and_then_Panic_iff Let_def
      split: dns_endpoint.split if_splits)

lemma find_bracket: "find_sub s '']'' = Some i \<Longrightarrow> i < length s \<and> s ! i = CHR '']''"
  by (induction s arbitrary: i) (auto simp: starts_with_def split: if_splits option.splits)

lemma split_once_None_iff: "split_once c s = None \<longleftrightarrow> c \<notin> set s"
  by (induction s) (auto split: option.splits)

lemma plain_host_port_not_Panic [simp]: "plain_host_port d s \<noteq> Panic"
proof -
  have "CHR '':'' \<in> set s" if "length (filter (\<lambda>c. c = CHR '':'') s) = 1"
  proof (rule ccontr)
    assume "CHR '':'' \<notin> set s"
    then have "filter (\<lambda>c. c = CHR '':'') s = []" by (auto simp: filter_empty_conv)
    then show False using that by simp
  qed
  then show ?thesis using split_once_None_iff [of "CHR '':''" s] by (auto simp: plain_host_port_def split: option.split)
qed

lemma parse_host_port_not_Panic [simp]: "parse_host_port s d \<noteq> Panic"
proof -
  have "slice (trim s) 1 i \<noteq> Panic" if "starts_with (trim s) ''[''" "find_sub (trim s) '']'' = Some i" for i
  proof -
    have "i \<noteq> 0" using find_bracket [OF that(2)] that(1) by (auto simp: starts_with_iff intro: gr0I)
    then show ?thesis using find_bracket [OF that(2)] by (simp add: slice_def)
  qed
  then show ?thesis
    by (auto simp: parse_host_port_def and_then_Panic_iff port_or_default_def Let_def split: option.split)
qed

lemma parse_dns_endpoint_not_Panic [simp]: "parse_dns_endpoint s \<noteq> Panic"
  by (simp add: parse_dns_endpoint_def Let_def split: option.split)

text \<open>An answer that passed the check carries the transaction id of the query.\<close>

lemma check_response_Ok: "check_response qid resp = Ok ips \<Longrightarrow> starts_with resp (be16_bytes qid) \<and> parse_response resp = Ok ips"
proof -
  assume a: "check_response qid resp = Ok ips"
  then have "parse_response resp = Ok ips" by (auto simp: check_response_def split: if_splits)
  moreover from this have l: "length resp \<ge> 12" by (auto simp: parse_response_def split: if_splits)
  then obtain x y r where "resp = x # y # r" by (metis Suc_le_length_iff numeral_eq_Suc pred_numeral_simps(2,3) BitM.simps)
  ultimately show ?thesis using a by (auto simp: check_response_def starts_with_def split: if_splits)
qed

text \<open>The server of an endpoint answers the query \<open>q\<close> with the message \<open>resp\<close>: as a datagram that fits the buffer, behind its length on a
  connection, or in the body of the first or the repeated request.\<close>

fun net_replies :: "dns_net \<Rightarrow> dns_endpoint \<Rightarrow> bytes \<Rightarrow> bytes \<Rightarrow> bool" where
  "net_replies net (Udp host port) q resp \<longleftrightarrow>
     length resp \<le> 1024 \<and> (\<exists>a. resolve_server_addr net host port = Ok a \<and> nt_udp net a q = Inr resp)"
| "net_replies net (Tcp host port) q resp \<longleftrightarrow>
     length resp < 65536 \<and>
     (\<exists>a rest. resolve_server_addr net host port = Ok a \<and> nt_tcp net a (length_prefixed q) = Inr (length_prefixed resp @ rest))"
| "net_replies net (Dot host port) q resp \<longleftrightarrow>
     length resp < 65536 \<and>
     (\<exists>a rest. resolve_server_addr net host port = Ok a \<and> nt_tls net host a (length_prefixed q) = Inr (length_prefixed resp @ rest))"
| "net_replies net (Doh url) q resp \<longleftrightarrow>
     nt_post net 0 url q = Some (True, Some resp) \<or> (nt_post net 0 url q = None \<and> nt_post net 1 url q = Some (True, Some resp))"

lemma read_length_prefixed_message:
  "length resp < 65536 \<Longrightarrow> read_length_prefixed qid (length_prefixed resp @ rest) = check_response qid resp"
  by (simp add: read_length_prefixed_def length_prefixed_def be16_bytes_def unat_of_nat_u16 read_exact_def)

lemma query_replied:
  assumes "net_replies net endpoint q resp" and "build_query domain qtype (nt_random net endpoint qtype) = Ok q"
    and "\<not> nt_timed_out net endpoint q" and "starts_with resp (be16_bytes (nt_random net endpoint qtype))"
  shows "client_query net endpoint domain qtype = parse_response resp"
proof -
  have c: "check_response (nt_random net endpoint qtype) resp = parse_response resp"
    using assms(4) by (auto simp: check_response_def starts_with_iff be16_bytes_def)
  show ?thesis
  proof (cases endpoint)
    case (Udp host port)
    then show ?thesis using assms c by (auto simp: client_query_def query_udp_def)
  next
    case (Tcp host port)
    then show ?thesis using assms c by (auto simp: client_query_def query_tcp_def read_length_prefixed_message)
  next
    case (Dot host port)
    then show ?thesis using assms c by (auto simp: client_query_def query_dot_def read_length_prefixed_message)
  next
    case (Doh url)
    then show ?thesis using assms by (auto simp: client_query_def query_doh_def)
  qed
qed

section \<open>Properties\<close>

text \<open>A query is answered over every transport. If the server of an endpoint answers a query for a name of at most 128 labels with
  records, within the timeout, as a datagram, on a connection or in the body of a request (the first or the repeated one), the
  client returns the addresses of all the A and AAAA records in order, and nothing of other records.\<close>

theorem dns_query_answered:
  assumes "build_query domain qtype (nt_random net endpoint qtype) = Ok q" and "\<not> nt_timed_out net endpoint q"
    and "net_replies net endpoint q (response_to q rrs)"
    and "length (split_char (CHR ''.'') (clean_domain domain)) \<le> 128"
    and "rrs \<noteq> []" and "length rrs < 65536" and "list_all (\<lambda>r. length (rr_data r) < 65536) rrs"
  shows "client_query net endpoint domain qtype = Ok (concat (map (\<lambda>r. record_ip (rr_type r) (rr_data r)) rrs))"
proof -
  have "starts_with (response_to q rrs) (be16_bytes (nt_random net endpoint qtype))"
    using assms(1) by (simp add: response_to_def build_query_Ok_iff)
  from query_replied [OF assms(3,1,2) this] show ?thesis using built_query_response [OF assms(1,4-7)] by simp
qed

text \<open>Spoofed datagrams are refused. Addresses are taken from a UDP answer only if it was received from the exchange with the
  server's address and starts with the transaction id drawn for this query; an answer of any other id is an error.\<close>

theorem dns_udp_answer_authentic:
  assumes "client_query net (Udp host port) domain qtype = Ok ips"
  shows "\<exists>a q datagram. resolve_server_addr net host port = Ok a \<and>
    build_query domain qtype (nt_random net (Udp host port) qtype) = Ok q \<and> nt_udp net a q = Inr datagram \<and>
    starts_with datagram (be16_bytes (nt_random net (Udp host port) qtype)) \<and> parse_response (take 1024 datagram) = Ok ips"
proof -
  from assms obtain a q datagram where e: "resolve_server_addr net host port = Ok a"
      "build_query domain qtype (nt_random net (Udp host port) qtype) = Ok q" "nt_udp net a q = Inr datagram"
      "check_response (nt_random net (Udp host port) qtype) (take 1024 datagram) = Ok ips"
    by (auto simp: client_query_def query_udp_def Let_def split: if_splits)
  moreover have "starts_with datagram p" if "starts_with (take 1024 datagram) p" for p
    using that unfolding starts_with_iff by (metis append.assoc append_take_drop_id)
  ultimately show ?thesis using check_response_Ok [OF e(4)] by blast
qed

text \<open>A server at 1.1.1.1 that answers every query with one address.\<close>

definition example_rr :: rr where
  "example_rr = \<lparr>rr_type = TYPE_A, rr_class = CLASS_IN, rr_ttl = 300, rr_data = [1, 2, 3, 4]\<rparr>"

definition example_net :: dns_net where
  "example_net =
     \<lparr>nt_lookup_host = (\<lambda>_. Inl NotFound), nt_udp = (\<lambda>a q. Inr (response_to q [example_rr])), nt_tcp = (\<lambda>_ _. Inl NotFound),
      nt_tls = (\<lambda>_ _ _. Inl NotFound), nt_post = (\<lambda>_ _ _. None), nt_timed_out = (\<lambda>_ _. False), nt_random = (\<lambda>_ _. 7)\<rparr>"

abbreviation example_endpoint :: dns_endpoint where "example_endpoint \<equiv> Udp (v4_string 0x01010101) 53"

lemma clean_a_b: "clean_domain ''a.b.'' = ''a.b''"
  by (simp add: clean_domain_def trim_def trim_start_def trim_end_def trim_end_matches_def is_ws_def)

theorem dns_query_answered_witness: "client_query example_net example_endpoint ''a.b.'' TYPE_A = Ok [V4 0x01020304]"
proof -
  obtain q where q: "build_query ''a.b.'' TYPE_A (nt_random example_net example_endpoint TYPE_A) = Ok q"
    by (auto simp: build_query_Ok_iff clean_a_b label_ok_def)
  then have "length (response_to q [example_rr]) \<le> 1024"
    by (auto simp: build_query_Ok_iff clean_a_b response_to_def rr_bytes_def example_rr_def)
  then have "client_query example_net example_endpoint ''a.b.'' TYPE_A =
      Ok (concat (map (\<lambda>r. record_ip (rr_type r) (rr_data r)) [example_rr]))"
    by (intro dns_query_answered [OF q])
      (simp_all add: example_net_def example_rr_def resolve_server_addr_def parse_ip_v4_string clean_a_b)
  then show ?thesis by (simp add: record_ip_def TYPE_A_def be_word_def example_rr_def)
qed

theorem dns_udp_answer_authentic_witness: "\<exists>datagram. starts_with datagram (be16_bytes 7) \<and> parse_response (take 1024 datagram) = Ok [V4 0x01020304]"
proof -
  obtain q where q: "build_query ''a.b.'' TYPE_A (nt_random example_net example_endpoint TYPE_A) = Ok q"
    by (auto simp: build_query_Ok_iff clean_a_b label_ok_def)
  then have l: "length (response_to q [example_rr]) \<le> 1024" and s: "starts_with (response_to q [example_rr]) (be16_bytes 7)"
    by (auto simp: build_query_Ok_iff clean_a_b response_to_def rr_bytes_def example_rr_def example_net_def)
  have "parse_response (response_to q [example_rr]) = Ok (concat (map (\<lambda>r. record_ip (rr_type r) (rr_data r)) [example_rr]))"
    by (rule built_query_response [OF q]) (simp_all add: example_rr_def clean_a_b)
  moreover have "client_query example_net example_endpoint ''a.b.'' TYPE_A = parse_response (response_to q [example_rr])"
    by (rule query_replied [OF _ q]) (use l s in \<open>simp_all add: example_net_def resolve_server_addr_def parse_ip_v4_string\<close>)
  ultimately have "client_query example_net example_endpoint ''a.b.'' TYPE_A = Ok [V4 0x01020304]"
    by (simp add: record_ip_def TYPE_A_def be_word_def example_rr_def)
  from dns_udp_answer_authentic [OF this] show ?thesis by (auto simp: example_net_def)
qed

end
