(* ===== verification/Dns_Rules.thy ===== *)
theory Dns_Rules
  imports Rust_Str
begin

text \<open>
  \<^verbatim>\<open>src/dns/rules.rs\<close>: the domain matchers, the rules file and the choice of the servers for a domain. Regular expressions and the YAML
  deserialiser (\<^verbatim>\<open>serde_yaml\<close>) are arguments: \<open>dns_env\<close> holds what compiling and matching an expression give and what a text deserialises to
  in each of the two formats. The short format is a \<^verbatim>\<open>HashMap\<close>; the list stands for the order in which it is walked.
\<close>

section \<open>Matchers\<close>

datatype 're domain_matcher =
    MAny
  | MFull string
  | MDomain string
  | MSubstring string
  | MRegexp 're
  | MGeosite string

datatype yaml_server = YAddress string | YNamed string string

record yaml_rule_item =
  yr_domains :: "string list"
  yr_servers :: "string list"
  yr_server :: "string option"

record yaml_config =
  yc_strategy :: "string option"
  yc_cache_time :: "u64 option"
  yc_cache_ttl :: "u64 option"
  yc_servers :: "yaml_server list"
  yc_rules :: "yaml_rule_item list"

record 're dns_env =
  de_regex_new :: "string \<Rightarrow> 're option"
  de_is_match :: "'re \<Rightarrow> string \<Rightarrow> bool"
  de_yaml_full :: "string \<Rightarrow> yaml_config option"
  de_yaml_shorthand :: "string \<Rightarrow> (string \<times> string list) list option"

definition matcher_geosite_or_sub :: "string \<Rightarrow> 're domain_matcher" where
  "matcher_geosite_or_sub raw =
     (case strip_prefix ''geosite:'' raw of
        Some rest \<Rightarrow> MGeosite (to_lowercase rest)
      | None \<Rightarrow> MSubstring (to_lowercase raw))"

definition matcher_parse :: "'re dns_env \<Rightarrow> string \<Rightarrow> 're domain_matcher" where
  "matcher_parse env raw =
     (let raw = trim raw
      in if raw = ''*'' then MAny
         else case strip_prefix ''full:'' raw of Some rest \<Rightarrow> MFull (to_lowercase rest)
         | None \<Rightarrow> (case strip_prefix ''*.'' raw of Some rest \<Rightarrow> MDomain (to_lowercase rest)
         | None \<Rightarrow> (case strip_prefix ''domain:'' raw of Some rest \<Rightarrow> MDomain (to_lowercase rest)
         | None \<Rightarrow> (case Option.bind (strip_prefix ''regexp:'' raw) (de_regex_new env) of Some re \<Rightarrow> MRegexp re
         | None \<Rightarrow> matcher_geosite_or_sub raw))))"

definition geosite_builtin :: "string \<Rightarrow> string \<Rightarrow> bool" where
  "geosite_builtin cat d =
     (if cat = ''cn'' then
        ends_with d ''.cn'' \<or>
        list_ex (contains_sub d)
          [''baidu.'', ''qq.'', ''taobao.'', ''alipay.'', ''jd.com'', ''bilibili.'', ''163.com'']
      else if cat = ''google'' then list_ex (contains_sub d) [''google'', ''youtube'', ''gstatic'']
      else if cat = ''netflix'' then list_ex (contains_sub d) [''netflix'', ''nflxvideo'']
      else if cat = ''openai'' then list_ex (contains_sub d) [''openai'', ''chatgpt'']
      else if cat = ''telegram'' then list_ex (contains_sub d) [''telegram'', ''t.me'']
      else if cat = ''geolocation-!cn'' then
        \<not> ends_with d ''.cn'' \<and> \<not> list_ex (contains_sub d) [''baidu.'', ''qq.'', ''taobao.'']
      else False)"

definition matcher_matches :: "'re dns_env \<Rightarrow> string \<Rightarrow> 're domain_matcher \<Rightarrow> bool" where
  "matcher_matches env domain m =
     (let d = to_lowercase domain
      in case m of
           MAny \<Rightarrow> True
         | MFull expected \<Rightarrow> d = expected
         | MDomain base \<Rightarrow> d = base \<or> ends_with d (''.'' @ base)
         | MSubstring sub \<Rightarrow> contains_sub d sub
         | MRegexp re \<Rightarrow> de_is_match env re d
         | MGeosite cat \<Rightarrow> geosite_builtin cat d)"

section \<open>The rules table\<close>

record 're compiled_dns_rule =
  matchers :: "'re domain_matcher list"
  rule_servers :: "string list"

record 're dns_rules_table =
  tbl_strategy :: "string option"
  tbl_cache_time :: "u64 option"
  tbl_cache_ttl :: "u64 option"
  tbl_default_servers :: "string list"
  tbl_rules :: "'re compiled_dns_rule list"

definition table_default :: "'re dns_rules_table" where
  "table_default =
     \<lparr>tbl_strategy = None, tbl_cache_time = None, tbl_cache_ttl = None, tbl_default_servers = [], tbl_rules = []\<rparr>"

datatype dns_rules_error =
    EmptyTagOrAddress
  | DuplicateTag string
  | UnknownTag string
  | UnknownFormat

text \<open>The servers of the full format: addresses in order, and the tagged ones by tag.\<close>

fun collect_servers ::
    "yaml_server list \<Rightarrow> (string \<rightharpoonup> string) \<Rightarrow> string list \<Rightarrow> dns_rules_error + (string \<rightharpoonup> string) \<times> string list" where
  "collect_servers [] named default_servers = Inr (named, default_servers)"
| "collect_servers (YAddress address # rest) named default_servers = collect_servers rest named (default_servers @ [address])"
| "collect_servers (YNamed tag address # rest) named default_servers =
     (if trim tag = [] \<or> trim address = [] then Inl EmptyTagOrAddress
      else if named tag \<noteq> None then Inl (DuplicateTag tag)
      else collect_servers rest (named(tag \<mapsto> address)) default_servers)"

definition compile_rule ::
    "'re dns_env \<Rightarrow> (string \<rightharpoonup> string) \<Rightarrow> yaml_rule_item \<Rightarrow> dns_rules_error + 're compiled_dns_rule" where
  "compile_rule env named r =
     (let ms = map (matcher_parse env) (yr_domains r)
      in case yr_server r of
           None \<Rightarrow> Inr \<lparr>matchers = ms, rule_servers = yr_servers r\<rparr>
         | Some tag \<Rightarrow>
             (case named tag of
                Some address \<Rightarrow> Inr \<lparr>matchers = ms, rule_servers = yr_servers r @ [address]\<rparr>
              | None \<Rightarrow> Inl (UnknownTag tag)))"

fun compile_rules ::
    "'re dns_env \<Rightarrow> (string \<rightharpoonup> string) \<Rightarrow> yaml_rule_item list \<Rightarrow> dns_rules_error + 're compiled_dns_rule list" where
  "compile_rules env named [] = Inr []"
| "compile_rules env named (r # rs) =
     (case compile_rule env named r of
        Inl e \<Rightarrow> Inl e
      | Inr c \<Rightarrow> (case compile_rules env named rs of Inl e \<Rightarrow> Inl e | Inr cs \<Rightarrow> Inr (c # cs)))"

definition is_full_config :: "yaml_config \<Rightarrow> bool" where
  "is_full_config full \<longleftrightarrow>
     yc_strategy full \<noteq> None \<or> yc_cache_time full \<noteq> None \<or> yc_cache_ttl full \<noteq> None \<or> yc_servers full \<noteq> [] \<or> yc_rules full \<noteq> []"

definition parse_full :: "'re dns_env \<Rightarrow> yaml_config \<Rightarrow> dns_rules_error + 're dns_rules_table" where
  "parse_full env full =
     (case collect_servers (yc_servers full) Map.empty [] of
        Inl e \<Rightarrow> Inl e
      | Inr (named, default_servers) \<Rightarrow>
          (case compile_rules env named (yc_rules full) of
             Inl e \<Rightarrow> Inl e
           | Inr rules \<Rightarrow>
               Inr \<lparr>tbl_strategy = yc_strategy full, tbl_cache_time = yc_cache_time full, tbl_cache_ttl = yc_cache_ttl full,
                    tbl_default_servers = default_servers, tbl_rules = rules\<rparr>))"

definition parse_shorthand :: "'re dns_env \<Rightarrow> (string \<times> string list) list \<Rightarrow> 're dns_rules_table" where
  "parse_shorthand env shorthand =
     table_default\<lparr>tbl_rules :=
       map (\<lambda>(server, domains). \<lparr>matchers = map (matcher_parse env) domains, rule_servers = [server]\<rparr>) shorthand\<rparr>"

definition parse_yaml :: "'re dns_env \<Rightarrow> string \<Rightarrow> dns_rules_error + 're dns_rules_table" where
  "parse_yaml env content =
     (let content = trim content
      in if content = [] then Inr table_default
         else case de_yaml_full env content of
                Some full \<Rightarrow>
                  (if is_full_config full then parse_full env full
                   else case de_yaml_shorthand env content of
                          Some shorthand \<Rightarrow> Inr (parse_shorthand env shorthand) | None \<Rightarrow> Inl UnknownFormat)
              | None \<Rightarrow>
                  (case de_yaml_shorthand env content of
                     Some shorthand \<Rightarrow> Inr (parse_shorthand env shorthand) | None \<Rightarrow> Inl UnknownFormat))"

fun first_servers :: "'re dns_env \<Rightarrow> string \<Rightarrow> 're compiled_dns_rule list \<Rightarrow> string list option" where
  "first_servers env domain [] = None"
| "first_servers env domain (r # rs) =
     (if list_ex (matcher_matches env domain) (matchers r) then Some (rule_servers r) else first_servers env domain rs)"

definition match_servers :: "'re dns_env \<Rightarrow> 're dns_rules_table \<Rightarrow> string \<Rightarrow> string list option" where
  "match_servers env t domain = first_servers env domain (tbl_rules t)"

section \<open>Lemmas\<close>

text \<open>What the servers of the full format amount to: the tags as an association, the addresses in order.\<close>

fun server_tags :: "yaml_server list \<Rightarrow> (string \<times> string) list" where
  "server_tags [] = []"
| "server_tags (YAddress address # rest) = server_tags rest"
| "server_tags (YNamed tag address # rest) = (tag, address) # server_tags rest"

fun server_addresses :: "yaml_server list \<Rightarrow> string list" where
  "server_addresses [] = []"
| "server_addresses (YAddress address # rest) = address # server_addresses rest"
| "server_addresses (YNamed tag address # rest) = server_addresses rest"

definition tags_ok :: "(string \<times> string) list \<Rightarrow> bool" where
  "tags_ok ts \<longleftrightarrow> distinct (map fst ts) \<and> list_all (\<lambda>(tag, address). trim tag \<noteq> [] \<and> trim address \<noteq> []) ts"

lemma collect_servers_Inr_iff:
  "collect_servers ss named defaults = Inr (named', defaults') \<longleftrightarrow>
     tags_ok (server_tags ss) \<and> dom named \<inter> fst ` set (server_tags ss) = {} \<and>
     named' = named ++ map_of (server_tags ss) \<and> defaults' = defaults @ server_addresses ss"
proof (induction ss named defaults rule: collect_servers.induct)
  case (3 tag address rest named defaults)
  let ?F = "fst ` set (server_tags rest)"
  have m: "named(tag \<mapsto> address) ++ map_of (server_tags rest) = (named ++ map_of (server_tags rest))(tag \<mapsto> address)" if "tag \<notin> ?F"
    using that map_of_eq_None_iff [of "server_tags rest" tag] by (auto simp: map_add_def fun_eq_iff split: option.split)
  have d: "dom (named(tag \<mapsto> address)) \<inter> ?F = {} \<longleftrightarrow> tag \<notin> ?F \<and> dom named \<inter> ?F = {}" by auto
  show ?case
  proof (cases "trim tag = [] \<or> trim address = [] \<or> named tag \<noteq> None")
    case True
    then show ?thesis by (auto simp: tags_ok_def)
  next
    case False
    then have "collect_servers rest (named(tag \<mapsto> address)) defaults = Inr (named', defaults') \<longleftrightarrow>
        tags_ok (server_tags rest) \<and> dom (named(tag \<mapsto> address)) \<inter> ?F = {} \<and>
        named' = named(tag \<mapsto> address) ++ map_of (server_tags rest) \<and> defaults' = defaults @ server_addresses rest"
      using 3 by blast
    then have "collect_servers rest (named(tag \<mapsto> address)) defaults = Inr (named', defaults') \<longleftrightarrow>
        tags_ok (server_tags rest) \<and> tag \<notin> ?F \<and> dom named \<inter> ?F = {} \<and>
        named' = (named ++ map_of (server_tags rest))(tag \<mapsto> address) \<and> defaults' = defaults @ server_addresses rest"
      unfolding d using m by auto
    then show ?thesis using False by (auto simp: tags_ok_def simp del: fun_upd_apply)
  qed
qed (auto simp: tags_ok_def)

text \<open>A compiled rule, and the table of a full configuration, as functions of what the file says.\<close>

definition spec_servers :: "(string \<times> string) list \<Rightarrow> yaml_rule_item \<Rightarrow> string list" where
  "spec_servers tags r = yr_servers r @ (case yr_server r of None \<Rightarrow> [] | Some tag \<Rightarrow> [the (map_of tags tag)])"

definition tag_known :: "(string \<times> string) list \<Rightarrow> yaml_rule_item \<Rightarrow> bool" where
  "tag_known tags r = (case yr_server r of None \<Rightarrow> True | Some tag \<Rightarrow> tag \<in> fst ` set tags)"

definition spec_rule :: "'re dns_env \<Rightarrow> (string \<times> string) list \<Rightarrow> yaml_rule_item \<Rightarrow> 're compiled_dns_rule" where
  "spec_rule env tags r = \<lparr>matchers = map (matcher_parse env) (yr_domains r), rule_servers = spec_servers tags r\<rparr>"

lemma compile_rule_Inr_iff: "compile_rule env (map_of tags) r = Inr c \<longleftrightarrow> tag_known tags r \<and> c = spec_rule env tags r"
  by (auto simp: compile_rule_def tag_known_def spec_rule_def spec_servers_def Let_def map_of_eq_None_iff
      dest: weak_map_of_SomeI split: option.splits) (metis map_of_eq_None_iff option.distinct(1))

lemma compile_rules_Inr_iff:
  "compile_rules env (map_of tags) rs = Inr cs \<longleftrightarrow> list_all (tag_known tags) rs \<and> cs = map (spec_rule env tags) rs"
proof (induction rs arbitrary: cs)
  case (Cons r rs)
  show ?case
  proof (cases "compile_rule env (map_of tags) r")
    case (Inl e)
    then have "\<not> tag_known tags r" using compile_rule_Inr_iff by (metis Inl_Inr_False)
    then show ?thesis using Inl by simp
  next
    case (Inr c)
    then have "tag_known tags r \<and> c = spec_rule env tags r" by (simp add: compile_rule_Inr_iff)
    then show ?thesis using Inr Cons.IH by (cases "compile_rules env (map_of tags) rs") auto
  qed
qed auto

lemma first_servers_find:
  "first_servers env domain (map (spec_rule env tags) rs) =
     map_option (spec_servers tags) (List.find (\<lambda>r. list_ex (\<lambda>d. matcher_matches env domain (matcher_parse env d)) (yr_domains r)) rs)"
  by (induction rs) (auto simp: spec_rule_def list_ex_iff)

lemma parse_full_Inr_iff:
  "parse_full env full = Inr t \<longleftrightarrow>
     (let tags = server_tags (yc_servers full)
      in tags_ok tags \<and> list_all (tag_known tags) (yc_rules full) \<and>
         t = \<lparr>tbl_strategy = yc_strategy full, tbl_cache_time = yc_cache_time full, tbl_cache_ttl = yc_cache_ttl full,
              tbl_default_servers = server_addresses (yc_servers full), tbl_rules = map (spec_rule env tags) (yc_rules full)\<rparr>)"
proof (cases "collect_servers (yc_servers full) Map.empty []")
  case (Inl e)
  then have "\<not> tags_ok (server_tags (yc_servers full))" using collect_servers_Inr_iff [of "yc_servers full" Map.empty "[]"] by auto
  then show ?thesis using Inl by (simp add: parse_full_def Let_def)
next
  case (Inr nd)
  obtain named defaults where nd: "nd = (named, defaults)" by (cases nd)
  then have c: "tags_ok (server_tags (yc_servers full))" "named = map_of (server_tags (yc_servers full))"
    "defaults = server_addresses (yc_servers full)"
    using Inr collect_servers_Inr_iff [of "yc_servers full" Map.empty "[]" named defaults] by auto
  have e: "parse_full env full =
      (case compile_rules env (map_of (server_tags (yc_servers full))) (yc_rules full) of
         Inl e \<Rightarrow> Inl e
       | Inr rules \<Rightarrow>
           Inr \<lparr>tbl_strategy = yc_strategy full, tbl_cache_time = yc_cache_time full, tbl_cache_ttl = yc_cache_ttl full,
                tbl_default_servers = server_addresses (yc_servers full), tbl_rules = rules\<rparr>)"
    using Inr c by (simp add: parse_full_def nd)
  show ?thesis
  proof (cases "compile_rules env (map_of (server_tags (yc_servers full))) (yc_rules full)")
    case (Inl x)
    then have "\<not> list_all (tag_known (server_tags (yc_servers full))) (yc_rules full)"
      using compile_rules_Inr_iff by (metis Inl_Inr_False)
    then show ?thesis using Inl by (simp add: e Let_def)
  next
    case (Inr cs)
    then show ?thesis using c(1) compile_rules_Inr_iff [of env "server_tags (yc_servers full)" "yc_rules full" cs] by (auto simp: e Let_def)
  qed
qed

section \<open>Properties\<close>

text \<open>What a rules file in the full format means. It is accepted exactly if no tag or address of a tagged server is blank, no tag is
  given twice and every tag a rule names exists; then the servers for a domain are those of the first rule one of whose
  patterns matches it, followed by the address of the rule's tag.\<close>

theorem dns_rules_file:
  assumes "de_yaml_full env (trim content) = Some full" and "is_full_config full" and "trim content \<noteq> []"
  defines "tags \<equiv> server_tags (yc_servers full)"
  shows "((\<exists>t. parse_yaml env content = Inr t) \<longleftrightarrow> tags_ok tags \<and> list_all (tag_known tags) (yc_rules full)) \<and>
    (\<forall>t. parse_yaml env content = Inr t \<longrightarrow>
       tbl_default_servers t = server_addresses (yc_servers full) \<and>
       match_servers env t domain =
         map_option (spec_servers tags)
           (List.find (\<lambda>r. list_ex (\<lambda>d. matcher_matches env domain (matcher_parse env d)) (yr_domains r)) (yc_rules full)))"
proof -
  have "parse_yaml env content = parse_full env full" using assms by (simp add: parse_yaml_def Let_def)
  then show ?thesis by (auto simp: parse_full_Inr_iff Let_def tags_def match_servers_def first_servers_find)
qed

definition example_dns_env :: "unit dns_env" where
  "example_dns_env =
     \<lparr>de_regex_new = (\<lambda>_. None), de_is_match = (\<lambda>_ _. False),
      de_yaml_full = (\<lambda>_. Some \<lparr>yc_strategy = None, yc_cache_time = None, yc_cache_ttl = None,
        yc_servers = [YAddress ''8.8.8.8'', YNamed ''cf'' ''1.1.1.1''],
        yc_rules = [\<lparr>yr_domains = [''full:y''], yr_servers = [], yr_server = None\<rparr>,
          \<lparr>yr_domains = [''*.x''], yr_servers = [''9.9.9.9''], yr_server = Some ''cf''\<rparr>]\<rparr>),
      de_yaml_shorthand = (\<lambda>_. None)\<rparr>"

theorem dns_rules_file_witness:
  "\<exists>t. parse_yaml example_dns_env ''file'' = Inr t \<and> match_servers example_dns_env t ''B.x'' = Some [''9.9.9.9'', ''1.1.1.1'']"
proof -
  obtain full where f: "de_yaml_full example_dns_env (trim ''file'') = Some full" "is_full_config full" "trim ''file'' \<noteq> []"
    and k: "tags_ok (server_tags (yc_servers full))" "list_all (tag_known (server_tags (yc_servers full))) (yc_rules full)"
    and m: "map_option (spec_servers (server_tags (yc_servers full)))
        (List.find (\<lambda>r. list_ex (\<lambda>d. matcher_matches example_dns_env ''B.x'' (matcher_parse example_dns_env d)) (yr_domains r)) (yc_rules full)) =
      Some [''9.9.9.9'', ''1.1.1.1'']"
    by (simp add: example_dns_env_def is_full_config_def tags_ok_def tag_known_def spec_servers_def matcher_matches_def matcher_parse_def
        strip_prefix_def starts_with_def ends_with_def to_lowercase_def ascii_lower_def trim_def trim_start_def trim_end_def is_ws_def Let_def)
  show ?thesis using dns_rules_file [OF f, of "''B.x''"] k m by auto
qed

end
