(* ===== verification/Dns_Resolver.thy ===== *)
theory Dns_Resolver
  imports Dns_Client Dns_Rules "HOL-Library.Multiset"
begin

text \<open>
  \<^verbatim>\<open>src/dns/resolver.rs\<close> and \<^verbatim>\<open>src/dns/router.rs\<close>: the caching resolver with its four levels of servers, and the manager that
  reloads the rules file. Instants are nanoseconds, durations seconds; every operation takes the clock values it reads. A call of
  \<^verbatim>\<open>resolve_with_runtime\<close> awaits the network between reading and filling the cache, so the two halves are separate
  operations (\<open>cached_answer\<close>, \<open>cache_store\<close>) that other calls can come between. The rules file is what the file system shows at
  the moment of a check. Sums of seconds are \<^verbatim>\<open>u64\<close> and wrap; an instant past the range of the clock panics.
\<close>

section \<open>The resolver\<close>

definition MAX_DNS_CACHE_ENTRIES :: nat where "MAX_DNS_CACHE_ENTRIES = 10000"

record cached_dns_entry =
  ce_ips :: "ip_addr list"
  ce_expires_at :: nat

record 're dns_resolver =
  dr_strategy :: string
  dr_cache_ttl :: u64
  dr_default_dns :: "string list"
  dr_rules_table :: "'re dns_rules_table option"
  dr_cache :: "(string \<times> cached_dns_entry) list"

definition server_list :: "string \<Rightarrow> string list" where
  "server_list s = filter (\<lambda>item. item \<noteq> []) (map trim (split_char (CHR '','') s))"

definition resolver_new :: "string \<Rightarrow> u64 \<Rightarrow> string option \<Rightarrow> 're dns_resolver" where
  "resolver_new strategy cache_time_minutes default_dns_str =
     \<lparr>dr_strategy = strategy, dr_cache_ttl = max cache_time_minutes 1 * 60,
      dr_default_dns = (case default_dns_str of Some s \<Rightarrow> server_list s | None \<Rightarrow> []),
      dr_rules_table = None, dr_cache = []\<rparr>"

definition table_settings :: "'re dns_rules_table \<Rightarrow> 're dns_resolver \<Rightarrow> 're dns_resolver" where
  "table_settings tbl r =
     (let r = (case tbl_strategy tbl of Some strat \<Rightarrow> r\<lparr>dr_strategy := strat\<rparr> | None \<Rightarrow> r);
          r = (case tbl_cache_ttl tbl of
                 Some seconds \<Rightarrow> r\<lparr>dr_cache_ttl := max seconds 1\<rparr>
               | None \<Rightarrow> (case tbl_cache_time tbl of Some mins \<Rightarrow> r\<lparr>dr_cache_ttl := max mins 1 * 60\<rparr> | None \<Rightarrow> r))
      in if tbl_default_servers tbl \<noteq> [] then r\<lparr>dr_default_dns := tbl_default_servers tbl\<rparr> else r)"

definition set_rules_table :: "'re dns_rules_table option \<Rightarrow> 're dns_resolver \<Rightarrow> 're dns_resolver" where
  "set_rules_table table r =
     (case table of Some tbl \<Rightarrow> table_settings tbl r | None \<Rightarrow> r)\<lparr>dr_rules_table := table, dr_cache := []\<rparr>"

definition update_config :: "string \<Rightarrow> u64 \<Rightarrow> string option \<Rightarrow> 're dns_resolver \<Rightarrow> 're dns_resolver" where
  "update_config strategy cache_time_minutes default_dns r =
     (let r = r\<lparr>dr_strategy := strategy, dr_cache_ttl := max cache_time_minutes 1 * 60\<rparr>
      in case default_dns of Some d \<Rightarrow> r\<lparr>dr_default_dns := server_list d\<rparr> | None \<Rightarrow> r)"

fun is_v4 :: "ip_addr \<Rightarrow> bool" where
  "is_v4 (V4 w) = True"
| "is_v4 (V6 w) = False"

definition apply_strategy :: "ip_addr list \<Rightarrow> u16 \<Rightarrow> string \<Rightarrow> socket_addr list" where
  "apply_strategy ips port strategy =
     (let v4 = map (\<lambda>ip. SocketAddr ip port) (filter is_v4 ips);
          v6 = map (\<lambda>ip. SocketAddr ip port) (filter (\<lambda>ip. \<not> is_v4 ip) ips)
      in if strategy = ''ipv4_only'' then v4
         else if strategy = ''ipv6_only'' then v6
         else if strategy = ''ipv6_first'' \<or> strategy = ''prefer_ipv6'' then v6 @ v4
         else v4 @ v6)"

text \<open>The addresses of a query, none if it failed.\<close>

fun ok_ips :: "ip_addr list res \<Rightarrow> ip_addr list" where
  "ok_ips (Ok ips) = ips"
| "ok_ips _ = []"

definition query_by_strategy :: "dns_net \<Rightarrow> dns_endpoint \<Rightarrow> string \<Rightarrow> string \<Rightarrow> ip_addr list" where
  "query_by_strategy net endpoint domain strategy =
     (if strategy = ''ipv4_only'' then ok_ips (client_query net endpoint domain TYPE_A)
      else if strategy = ''ipv6_only'' then ok_ips (client_query net endpoint domain TYPE_AAAA)
      else ok_ips (client_query net endpoint domain TYPE_A) @ ok_ips (client_query net endpoint domain TYPE_AAAA))"

fun resolve_with_servers :: "dns_net \<Rightarrow> string list \<Rightarrow> string \<Rightarrow> string \<Rightarrow> ip_addr list res" where
  "resolve_with_servers net [] domain strategy = Err NotFound"
| "resolve_with_servers net (server_raw # servers) domain strategy =
     (case parse_dns_endpoint server_raw of
        Ok endpoint \<Rightarrow>
          (let all_ips = query_by_strategy net endpoint domain strategy
           in if all_ips \<noteq> [] then Ok all_ips else resolve_with_servers net servers domain strategy)
      | _ \<Rightarrow> resolve_with_servers net servers domain strategy)"

text \<open>One level: an answer, if there are servers and one of them has addresses.\<close>

definition level_answer :: "dns_net \<Rightarrow> string list option \<Rightarrow> string \<Rightarrow> string \<Rightarrow> ip_addr list option" where
  "level_answer net servers host strategy =
     (case servers of
        None \<Rightarrow> None
      | Some servers \<Rightarrow>
          (if servers = [] then None
           else case ok_ips (resolve_with_servers net servers host strategy) of [] \<Rightarrow> None | ip # ips \<Rightarrow> Some (ip # ips)))"

definition resolve_four_levels ::
    "'re dns_env \<Rightarrow> dns_net \<Rightarrow> 're dns_resolver \<Rightarrow> string \<Rightarrow> string list option \<Rightarrow> ip_addr list res" where
  "resolve_four_levels env net r host runtime_dns =
     (case level_answer net runtime_dns host (dr_strategy r) of
        Some ips \<Rightarrow> Ok ips
      | None \<Rightarrow>
          (case level_answer net (Option.bind (dr_rules_table r) (\<lambda>t. match_servers env t host)) host (dr_strategy r) of
             Some ips \<Rightarrow> Ok ips
           | None \<Rightarrow>
               (case level_answer net (Some (dr_default_dns r)) host (dr_strategy r) of
                  Some ips \<Rightarrow> Ok ips
                | None \<Rightarrow> map_res (map sa_ip) (io_res (nt_lookup_host net (host @ '':80''))))))"

definition cached_answer :: "nat \<Rightarrow> string \<Rightarrow> 're dns_resolver \<Rightarrow> ip_addr list option" where
  "cached_answer now host r =
     (case map_of (dr_cache r) (to_lowercase host) of
        Some entry \<Rightarrow> if now < ce_expires_at entry then Some (ce_ips entry) else None
      | None \<Rightarrow> None)"

text \<open>\<^verbatim>\<open>Instant + Duration\<close>: the clock counts up to \<^verbatim>\<open>i64::MAX\<close> seconds.\<close>

definition instant_add :: "nat \<Rightarrow> u64 \<Rightarrow> nat res" where
  "instant_add now seconds =
     (let t = now + unat seconds * 1000000000 in if t < 2 ^ 63 * 1000000000 then Ok t else Panic)"

text \<open>Room for one more entry: expired ones go first, then the one the walk over the hash map meets first, whichever it is.\<close>

definition make_room :: "nat \<Rightarrow> nat \<Rightarrow> (string \<times> cached_dns_entry) list \<Rightarrow> (string \<times> cached_dns_entry) list" where
  "make_room now first_key cache =
     (if length cache \<ge> MAX_DNS_CACHE_ENTRIES
      then let cache = filter (\<lambda>(k, v). now < ce_expires_at v) cache
           in if length cache \<ge> MAX_DNS_CACHE_ENTRIES
              then al_del (fst (cache ! (first_key mod length cache))) cache
              else cache
      else cache)"

definition cache_store :: "nat \<Rightarrow> nat \<Rightarrow> string \<Rightarrow> ip_addr list \<Rightarrow> 're dns_resolver \<Rightarrow> unit res \<times> 're dns_resolver" where
  "cache_store now first_key host resolved_ips r =
     (if resolved_ips = [] then (Ok (), r)
      else let r = r\<lparr>dr_cache := make_room now first_key (dr_cache r)\<rparr>
           in case instant_add now (dr_cache_ttl r) of
                Ok expires_at \<Rightarrow>
                  (Ok (), r\<lparr>dr_cache := al_put (to_lowercase host) \<lparr>ce_ips = resolved_ips, ce_expires_at = expires_at\<rparr> (dr_cache r)\<rparr>)
              | Err e \<Rightarrow> (Err e, r)
              | Panic \<Rightarrow> (Panic, r))"

definition resolve_with_runtime ::
    "'re dns_env \<Rightarrow> dns_net \<Rightarrow> nat \<Rightarrow> nat \<Rightarrow> string \<Rightarrow> u16 \<Rightarrow> string list option \<Rightarrow> 're dns_resolver \<Rightarrow>
     socket_addr list res \<times> 're dns_resolver" where
  "resolve_with_runtime env net now first_key host port runtime_dns r =
     (case parse_ip host of
        Some ip \<Rightarrow> (Ok [SocketAddr ip port], r)
      | None \<Rightarrow>
          (case cached_answer now host r of
             Some ips \<Rightarrow> (Ok (apply_strategy ips port (dr_strategy r)), r)
           | None \<Rightarrow>
               (case resolve_four_levels env net r host runtime_dns of
                  Ok resolved_ips \<Rightarrow>
                    (let (stored, r') = cache_store now first_key host resolved_ips r;
                         addrs = apply_strategy resolved_ips port (dr_strategy r)
                     in (and_then stored (\<lambda>_. if addrs = [] then Err NotFound else Ok addrs), r'))
                | Err e \<Rightarrow> (Err e, r)
                | Panic \<Rightarrow> (Panic, r))))"

definition resolve ::
    "'re dns_env \<Rightarrow> dns_net \<Rightarrow> nat \<Rightarrow> nat \<Rightarrow> string \<Rightarrow> u16 \<Rightarrow> 're dns_resolver \<Rightarrow> socket_addr list res \<times> 're dns_resolver" where
  "resolve env net now first_key host port r = resolve_with_runtime env net now first_key host port None r"

definition dns_prune_expired :: "nat \<Rightarrow> 're dns_resolver \<Rightarrow> 're dns_resolver" where
  "dns_prune_expired now r = r\<lparr>dr_cache := filter (\<lambda>(k, v). now < ce_expires_at v) (dr_cache r)\<rparr>"

section \<open>The rules file\<close>

text \<open>What the file system shows at a check: no file, or a file with the time of its last change and its text, each if it can be read.\<close>

type_synonym dns_file_state = "(nat option \<times> string option) option"

record 're dns_manager =
  mgr_resolver :: "'re dns_resolver"
  mgr_last_mtime :: "nat option"

definition reload_content :: "'re dns_env \<Rightarrow> string \<Rightarrow> 're dns_manager \<Rightarrow> (dns_rules_error + unit) \<times> 're dns_manager" where
  "reload_content env content m =
     (case parse_yaml env content of
        Inl e \<Rightarrow> (Inl e, m)
      | Inr table \<Rightarrow> (Inr (), m\<lparr>mgr_resolver := set_rules_table (Some table) (mgr_resolver m)\<rparr>))"

definition check_and_reload :: "'re dns_env \<Rightarrow> dns_file_state \<Rightarrow> 're dns_manager \<Rightarrow> 're dns_manager" where
  "check_and_reload env file m =
     (case file of
        None \<Rightarrow>
          (if mgr_last_mtime m \<noteq> None
           then m\<lparr>mgr_last_mtime := None, mgr_resolver := set_rules_table None (mgr_resolver m)\<rparr> else m)
      | Some (mtime, text) \<Rightarrow>
          (if mgr_last_mtime m = mtime then m
           else let m = m\<lparr>mgr_last_mtime := mtime\<rparr>
                in case text of
                     Some content \<Rightarrow>
                       (case parse_yaml env content of
                          Inr table \<Rightarrow> m\<lparr>mgr_resolver := set_rules_table (Some table) (mgr_resolver m)\<rparr>
                        | Inl e \<Rightarrow> m\<lparr>mgr_resolver := set_rules_table None (mgr_resolver m)\<rparr>)
                   | None \<Rightarrow> m\<lparr>mgr_resolver := set_rules_table None (mgr_resolver m)\<rparr>))"

definition manager_new :: "'re dns_env \<Rightarrow> string \<Rightarrow> u64 \<Rightarrow> string option \<Rightarrow> dns_file_state \<Rightarrow> 're dns_manager" where
  "manager_new env strategy cache_time_minutes default_dns file =
     check_and_reload env file
       \<lparr>mgr_resolver = resolver_new strategy cache_time_minutes default_dns, mgr_last_mtime = None\<rparr>"

text \<open>The watcher: a check every ten seconds, each with what the file system shows then.\<close>

definition run_file_watcher :: "'re dns_env \<Rightarrow> dns_file_state list \<Rightarrow> 're dns_manager \<Rightarrow> 're dns_manager" where
  "run_file_watcher env files m = foldl (\<lambda>m file. check_and_reload env file m) m files"

section \<open>The cache as an ideal map\<close>

text \<open>What happens to a resolver: an answer is stored, the table or the configuration is replaced, expired entries are dropped.\<close>

datatype 're dns_event =
    Stored nat nat string "ip_addr list"
  | TableSet "'re dns_rules_table option"
  | ConfigUpdated string u64 "string option"
  | Pruned nat

fun dns_step :: "'re dns_event \<Rightarrow> 're dns_resolver \<Rightarrow> 're dns_resolver" where
  "dns_step (Stored now first_key host ips) r = snd (cache_store now first_key host ips r)"
| "dns_step (TableSet table) r = set_rules_table table r"
| "dns_step (ConfigUpdated strategy mins default_dns) r = update_config strategy mins default_dns r"
| "dns_step (Pruned now) r = dns_prune_expired now r"

definition dns_run :: "'re dns_event list \<Rightarrow> 're dns_resolver \<Rightarrow> 're dns_resolver" where
  "dns_run evs r = fold dns_step evs r"

text \<open>The ideal cache has room for every answer and forgets only when the rules change: the answer of a name is the last one
  stored since then, for the time to live of that moment.\<close>

fun ideal_step :: "'re dns_event \<Rightarrow> 're dns_resolver \<Rightarrow> (string \<rightharpoonup> ip_addr list \<times> nat) \<Rightarrow> (string \<rightharpoonup> ip_addr list \<times> nat)" where
  "ideal_step (Stored now first_key host ips) r c =
     (case instant_add now (dr_cache_ttl r) of
        Ok t \<Rightarrow> if ips = [] then c else c(to_lowercase host \<mapsto> (ips, t))
      | _ \<Rightarrow> c)"
| "ideal_step (TableSet table) r c = Map.empty"
| "ideal_step _ r c = c"

fun ideal_run :: "'re dns_event list \<Rightarrow> 're dns_resolver \<Rightarrow> (string \<rightharpoonup> ip_addr list \<times> nat) \<Rightarrow> (string \<rightharpoonup> ip_addr list \<times> nat)" where
  "ideal_run [] r c = c"
| "ideal_run (ev # evs) r c = ideal_run evs (dns_step ev r) (ideal_step ev r c)"

definition ideal_answer :: "nat \<Rightarrow> string \<Rightarrow> (string \<rightharpoonup> ip_addr list \<times> nat) \<Rightarrow> ip_addr list option" where
  "ideal_answer now host c =
     (case c (to_lowercase host) of Some (ips, t) \<Rightarrow> if now < t then Some ips else None | None \<Rightarrow> None)"

section \<open>Lemmas\<close>

definition cache_within :: "'re dns_resolver \<Rightarrow> (string \<rightharpoonup> ip_addr list \<times> nat) \<Rightarrow> bool" where
  "cache_within r c \<longleftrightarrow>
     al_ok (dr_cache r) \<and> length (dr_cache r) \<le> MAX_DNS_CACHE_ENTRIES \<and>
     (\<forall>k e. map_of (dr_cache r) k = Some e \<longrightarrow> c k = Some (ce_ips e, ce_expires_at e))"

lemma map_of_filter_within: "al_ok m \<Longrightarrow> map_of (filter P m) k = Some e \<Longrightarrow> map_of m k = Some e"
  by (metis al_ok_def filter_is_subset map_of_SomeD map_of_is_SomeI subsetD)

lemma al_del_length: "al_ok m \<Longrightarrow> k \<in> fst ` set m \<Longrightarrow> length (al_del k m) < length m"
  unfolding al_del_def by (auto intro: length_filter_less)

lemma make_room_within:
  assumes "al_ok m" and "length m \<le> MAX_DNS_CACHE_ENTRIES"
  shows "al_ok (make_room now fk m)" "length (make_room now fk m) < MAX_DNS_CACHE_ENTRIES"
    "map_of (make_room now fk m) k = Some e \<Longrightarrow> map_of m k = Some e"
proof -
  let ?f = "filter (\<lambda>(k, v). now < ce_expires_at v) m"
  let ?d = "al_del (fst (?f ! (fk mod length ?f))) ?f"
  have f: "length ?f \<le> MAX_DNS_CACHE_ENTRIES" "al_ok ?f"
    using assms order_trans [OF length_filter_le assms(2)] by simp_all
  have d: "length ?d < MAX_DNS_CACHE_ENTRIES" if "MAX_DNS_CACHE_ENTRIES \<le> length ?f"
  proof -
    have "0 < length ?f" using that unfolding MAX_DNS_CACHE_ENTRIES_def by linarith
    then have "fst (?f ! (fk mod length ?f)) \<in> fst ` set ?f" by (intro imageI nth_mem) simp
    from al_del_length [OF f(2) this] show ?thesis using f(1) by simp
  qed
  show "al_ok (make_room now fk m)" using assms(1) by (simp add: make_room_def Let_def)
  show "length (make_room now fk m) < MAX_DNS_CACHE_ENTRIES"
    using d by (simp add: make_room_def Let_def not_le)
  assume "map_of (make_room now fk m) k = Some e"
  then show "map_of m k = Some e"
    using map_of_filter_within [OF assms(1)] by (auto simp: make_room_def Let_def split: if_splits)
qed

lemma instant_add_not_Err [simp]: "instant_add now secs \<noteq> Err e"
  by (simp add: instant_add_def Let_def)

lemma table_settings_cache [simp]: "dr_cache (table_settings t r) = dr_cache r"
  by (simp add: table_settings_def Let_def split: option.split)

lemma cache_within_store:
  assumes "cache_within r c"
  shows "cache_within (snd (cache_store now fk host ips r)) (ideal_step (Stored now fk host ips) r c)"
proof (cases "ips = []")
  case False
  let ?m = "make_room now fk (dr_cache r)" and ?h = "to_lowercase host"
  have m: "al_ok ?m" "length ?m < MAX_DNS_CACHE_ENTRIES" "\<And>k e. map_of ?m k = Some e \<Longrightarrow> c k = Some (ce_ips e, ce_expires_at e)"
    using assms make_room_within [of "dr_cache r" now fk] by (auto simp: cache_within_def)
  have l: "length (al_put ?h e ?m) \<le> MAX_DNS_CACHE_ENTRIES" for e
    using m(1,2) length_al_put [of ?m ?h e] by (auto split: if_splits)
  show ?thesis
  proof (cases "instant_add now (dr_cache_ttl r)")
    case (Ok t)
    then show ?thesis using m l False by (auto simp: cache_within_def cache_store_def Let_def)
  next
    case (Err e)
    then show ?thesis by simp
  next
    case Panic
    then show ?thesis using m False by (auto simp: cache_within_def cache_store_def Let_def)
  qed
next
  case True
  then show ?thesis using assms by (simp add: cache_store_def split: res.split)
qed

lemma cache_within_step: "cache_within r c \<Longrightarrow> cache_within (dns_step ev r) (ideal_step ev r c)"
proof (cases ev)
  case (Pruned now)
  assume "cache_within r c"
  then show ?thesis
    using map_of_filter_within [of "dr_cache r" "\<lambda>(k, v). now < ce_expires_at v"] order_trans [OF length_filter_le]
    by (auto simp: Pruned cache_within_def dns_prune_expired_def)
qed (auto simp: cache_within_store simp del: ideal_step.simps(1), auto simp: cache_within_def set_rules_table_def update_config_def Let_def split: option.split)

lemma cache_within_run: "cache_within r c \<Longrightarrow> cache_within (dns_run evs r) (ideal_run evs r c)"
  by (induction evs arbitrary: r c) (simp_all add: dns_run_def cache_within_step)

lemma cache_within_new [simp]: "cache_within (resolver_new strategy mins default_dns) c"
  by (simp add: cache_within_def resolver_new_def)

lemma cached_answer_ideal: "cache_within r c \<Longrightarrow> cached_answer now host r = Some ips \<Longrightarrow> ideal_answer now host c = Some ips"
  by (auto simp: cached_answer_def ideal_answer_def cache_within_def split: option.splits if_splits)

lemma cached_after_store:
  assumes "ips \<noteq> []" and "instant_add now (dr_cache_ttl r) = Ok t" and "later < t" and "to_lowercase host' = to_lowercase host"
  shows "cached_answer later host' (snd (cache_store now fk host ips r)) = Some ips"
  using assms by (simp add: cached_answer_def cache_store_def Let_def)

text \<open>The rules a file stands for, and the assumption on the clock of the file system: every state of the file has a time of change
  of its own.\<close>

definition file_rules :: "'re dns_env \<Rightarrow> dns_file_state \<Rightarrow> 're dns_rules_table option" where
  "file_rules env file =
     (case file of
        Some (mtime, Some content) \<Rightarrow> (case parse_yaml env content of Inr table \<Rightarrow> Some table | Inl e \<Rightarrow> None)
      | _ \<Rightarrow> None)"

definition version_of :: "dns_file_state \<Rightarrow> nat option" where
  "version_of file = Option.bind file fst"

definition versions_ok :: "dns_file_state list \<Rightarrow> bool" where
  "versions_ok files \<longleftrightarrow>
     (\<forall>f\<in>set files. f \<noteq> None \<longrightarrow> version_of f \<noteq> None) \<and> (\<forall>f\<in>set files. \<forall>g\<in>set files. version_of f = version_of g \<longrightarrow> f = g)"

definition in_step :: "'re dns_env \<Rightarrow> dns_file_state \<Rightarrow> 're dns_manager \<Rightarrow> bool" where
  "in_step env file m \<longleftrightarrow> mgr_last_mtime m = version_of file \<and> dr_rules_table (mgr_resolver m) = file_rules env file"

lemma rules_table_set [simp]: "dr_rules_table (set_rules_table t r) = t"
  by (simp add: set_rules_table_def)

lemma in_step_check:
  assumes "in_step env f m" and "versions_ok [f, g]"
  shows "in_step env g (check_and_reload env g m)"
proof (cases g)
  case None
  then have "f = None" if "mgr_last_mtime m = None" using assms that by (auto simp: in_step_def versions_ok_def version_of_def)
  then show ?thesis using assms(1) by (auto simp: None in_step_def check_and_reload_def version_of_def file_rules_def)
next
  case (Some mt)
  obtain mtime content where g: "g = Some (mtime, content)" using Some by (cases mt) simp
  have "f = g" if "mgr_last_mtime m = mtime" using assms that by (auto simp: in_step_def versions_ok_def version_of_def g)
  then show ?thesis
    using assms(1) by (auto simp: g in_step_def check_and_reload_def version_of_def file_rules_def Let_def split: option.split sum.split)
qed

lemma in_step_run:
  assumes "in_step env f m" and "versions_ok (f # files)"
  shows "in_step env (last (f # files)) (run_file_watcher env files m)"
  using assms
proof (induction files arbitrary: f m)
  case (Cons g files)
  have "versions_ok [f, g]" "versions_ok (g # files)" using Cons.prems(2) by (auto simp: versions_ok_def)
  then have "in_step env (last (g # files)) (run_file_watcher env files (check_and_reload env g m))"
    using Cons.IH in_step_check Cons.prems(1) by blast
  then show ?case by (simp add: run_file_watcher_def)
qed (simp add: run_file_watcher_def)

lemma version_of_None: "version_of None = None"
  by (simp add: version_of_def)

lemma versions_ok_None: "versions_ok files \<Longrightarrow> versions_ok (None # files)"
proof -
  assume a: "versions_ok files"
  have v: "version_of f \<noteq> None" if "f \<in> set files" "f \<noteq> None" for f using a that unfolding versions_ok_def by blast
  have "f = g" if "f \<in> set (None # files)" "g \<in> set (None # files)" "version_of f = version_of g" for f g
  proof (cases "f = None \<or> g = None")
    case True
    then have "version_of f = None" using that(3) version_of_None by auto
    then show ?thesis using that v version_of_None by (metis set_ConsD)
  next
    case False
    then have "f \<in> set files" "g \<in> set files" using that(1,2) by auto
    then show ?thesis using a that(3) unfolding versions_ok_def by blast
  qed
  then show ?thesis unfolding versions_ok_def using v by simp
qed

lemma mset_families: "mset (filter is_v4 ips @ filter (\<lambda>ip. \<not> is_v4 ip) ips) = mset ips"
  "mset (filter (\<lambda>ip. \<not> is_v4 ip) ips @ filter is_v4 ips) = mset ips"
  by (simp_all flip: multiset_partition add: mset_filter)

lemma sorted_wrt_same_family:
  "sorted_wrt (\<lambda>a b. is_v4 a \<longrightarrow> is_v4 b) (filter is_v4 ips)" "sorted_wrt (\<lambda>a b. is_v4 b \<longrightarrow> is_v4 a) (filter is_v4 ips)"
  "sorted_wrt (\<lambda>a b. is_v4 a \<longrightarrow> is_v4 b) (filter (\<lambda>ip. \<not> is_v4 ip) ips)"
  "sorted_wrt (\<lambda>a b. is_v4 b \<longrightarrow> is_v4 a) (filter (\<lambda>ip. \<not> is_v4 ip) ips)"
  by (induction ips) auto

text \<open>What a call that returns addresses used: the cache, or the levels of servers.\<close>

lemma resolve_Ok_cases:
  assumes "fst (resolve_with_runtime env net now fk host port runtime_dns r) = Ok addrs" and "parse_ip host = None"
  shows "\<exists>ips. (cached_answer now host r = Some ips \<or> resolve_four_levels env net r host runtime_dns = Ok ips) \<and>
    addrs = apply_strategy ips port (dr_strategy r)"
  using assms by (auto simp: resolve_with_runtime_def Let_def split: option.splits res.splits prod.splits if_splits)

section \<open>Properties\<close>

text \<open>C16: the cache refines an ideal one. Whatever answers are stored by interleaved calls, whenever the table or the configuration is
  replaced and entries are pruned or pushed out, the cache holds at most 10000 names, and what it answers is the last answer
  stored for the name since the rules were last replaced, not older than the time to live of that moment; an answer just stored is found in any spelling of the name.\<close>

theorem dns_cache_refines:
  assumes "r0 = resolver_new strategy mins default_dns" and "cached_answer now host (dns_run evs r0) = Some ips"
  shows "ideal_answer now host (ideal_run evs r0 Map.empty) = Some ips \<and> length (dr_cache (dns_run evs r0)) \<le> 10000 \<and>
    (\<forall>t at fk host' later. instant_add at (dr_cache_ttl (dns_run evs r0)) = Ok t \<longrightarrow> later < t \<longrightarrow> to_lowercase host' = to_lowercase host \<longrightarrow>
       cached_answer later host' (dns_run (evs @ [Stored at fk host (ip # ips')]) r0) = Some (ip # ips'))"
proof -
  have w: "cache_within (dns_run evs r0) (ideal_run evs r0 Map.empty)" by (simp add: cache_within_run assms(1))
  have "dns_run (evs @ [ev]) r0 = dns_step ev (dns_run evs r0)" for ev by (simp add: dns_run_def)
  then show ?thesis
    using cached_answer_ideal [OF w assms(2)] w cached_after_store [of "ip # ips'"]
    by (auto simp: cache_within_def MAX_DNS_CACHE_ENTRIES_def)
qed

text \<open>The rules in force are those of the file. If every state of the file has a modification time of its own, then after every
  check the rules are exactly the ones the file holds at that check, and none if there is no file or it cannot be read or parsed; whatever
  it held before.\<close>

theorem dns_rules_follow_file:
  assumes "versions_ok (file # files)"
  shows "dr_rules_table (mgr_resolver (run_file_watcher env files (manager_new env strategy mins default_dns file))) =
    file_rules env (last (file # files))"
proof -
  let ?m = "\<lparr>mgr_resolver = resolver_new strategy mins default_dns, mgr_last_mtime = None\<rparr>"
  have "in_step env None ?m" by (simp add: in_step_def version_of_def file_rules_def resolver_new_def)
  from in_step_run [OF this versions_ok_None [OF assms]] show ?thesis by (simp add: in_step_def manager_new_def run_file_watcher_def)
qed

text \<open>The strategy decides what a caller sees of an answer, cached or fresh. With \<^verbatim>\<open>ipv4_only\<close> and \<^verbatim>\<open>ipv6_only\<close> it is the addresses of
  that family in their order; with every other strategy it is all the addresses, the preferred family first; always with the port asked for.\<close>

theorem dns_strategy:
  assumes "fst (resolve_with_runtime env net now fk host port runtime_dns r) = Ok addrs" and "parse_ip host = None"
  shows "\<exists>ips. (cached_answer now host r = Some ips \<or> resolve_four_levels env net r host runtime_dns = Ok ips) \<and>
    list_all (\<lambda>a. sa_port a = port) addrs \<and>
    (if dr_strategy r = ''ipv4_only'' then map sa_ip addrs = filter is_v4 ips
     else if dr_strategy r = ''ipv6_only'' then map sa_ip addrs = filter (\<lambda>ip. \<not> is_v4 ip) ips
     else mset (map sa_ip addrs) = mset ips \<and>
       (if dr_strategy r = ''ipv6_first'' \<or> dr_strategy r = ''prefer_ipv6''
        then sorted_wrt (\<lambda>a b. is_v4 a \<longrightarrow> is_v4 b) (map sa_ip addrs)
        else sorted_wrt (\<lambda>a b. is_v4 b \<longrightarrow> is_v4 a) (map sa_ip addrs)))"
proof -
  obtain ips where i: "cached_answer now host r = Some ips \<or> resolve_four_levels env net r host runtime_dns = Ok ips"
      "addrs = apply_strategy ips port (dr_strategy r)" using resolve_Ok_cases [OF assms] by blast
  have "map sa_ip addrs =
      (if dr_strategy r = ''ipv4_only'' then filter is_v4 ips
       else if dr_strategy r = ''ipv6_only'' then filter (\<lambda>ip. \<not> is_v4 ip) ips
       else if dr_strategy r = ''ipv6_first'' \<or> dr_strategy r = ''prefer_ipv6''
       then filter (\<lambda>ip. \<not> is_v4 ip) ips @ filter is_v4 ips else filter is_v4 ips @ filter (\<lambda>ip. \<not> is_v4 ip) ips)"
    by (simp add: i(2) apply_strategy_def Let_def o_def)
  moreover have "sorted_wrt (\<lambda>a b. is_v4 a \<longrightarrow> is_v4 b) (filter (\<lambda>ip. \<not> is_v4 ip) ips @ filter is_v4 ips)"
    "sorted_wrt (\<lambda>a b. is_v4 b \<longrightarrow> is_v4 a) (filter is_v4 ips @ filter (\<lambda>ip. \<not> is_v4 ip) ips)"
    by (auto simp: sorted_wrt_append intro: sorted_wrt_same_family)
  moreover have "list_all (\<lambda>a. sa_port a = port) addrs" by (auto simp: i(2) apply_strategy_def Let_def list_all_iff)
  ultimately show ?thesis using i(1) mset_families [of ips] by (intro exI [of _ ips]) simp
qed

text \<open>A resolver that stores one answer at 5 seconds and is asked for it a second later.\<close>

theorem dns_cache_refines_witness:
  "ideal_answer 6000000000 ''A.b''
     (ideal_run [Stored 5000000000 0 ''a.B'' [V4 1]] (resolver_new ''ipv4_only'' 1 None :: unit dns_resolver) Map.empty) = Some [V4 1]"
proof -
  let ?r = "resolver_new ''ipv4_only'' 1 None :: unit dns_resolver"
  have "cached_answer 6000000000 ''A.b'' (dns_run [Stored 5000000000 0 ''a.B'' [V4 1]] ?r) = Some [V4 1]"
    unfolding dns_run_def fold_simps id_apply o_apply dns_step.simps
  proof (rule cached_after_store [where t = 65000000000])
    show "to_lowercase ''A.b'' = to_lowercase ''a.B''" by code_simp
  qed (simp_all add: instant_add_def resolver_new_def Let_def max_def)
  from dns_cache_refines [OF refl this] show ?thesis by blast
qed

theorem dns_rules_follow_file_witness:
  "\<exists>t. dr_rules_table (mgr_resolver (run_file_watcher example_dns_env [Some (Some 1, Some ''file'')]
        (manager_new example_dns_env ''ipv4_first'' 10 None None))) = Some t"
proof -
  have "versions_ok [None, Some (Some 1, Some ''file'')]" by (auto simp: versions_ok_def version_of_def)
  moreover have "\<exists>t. file_rules example_dns_env (last [None, Some (Some 1, Some ''file'')]) = Some t"
    by (simp add: file_rules_def parse_yaml_def parse_full_def example_dns_env_def is_full_config_def compile_rule_def
        trim_def trim_start_def trim_end_def is_ws_def Let_def)
  ultimately show ?thesis by (simp only: dns_rules_follow_file [of None "[Some (Some 1, Some ''file'')]"])
qed

text \<open>Two addresses of the system resolver for a name without rules.\<close>

definition system_net :: "ip_addr list \<Rightarrow> dns_net" where
  "system_net ips = example_net\<lparr>nt_lookup_host := (\<lambda>_. Inr (map (\<lambda>ip. SocketAddr ip 80) ips))\<rparr>"

lemma system_levels [simp]:
  "resolve_four_levels env (system_net ips) (resolver_new strategy mins None) host None = Ok ips"
  by (simp add: resolve_four_levels_def level_answer_def resolver_new_def system_net_def o_def)

lemma cached_new [simp]: "cached_answer now host (resolver_new strategy mins d) = None"
  by (simp add: cached_answer_def resolver_new_def)

lemma new_strategy: "dr_strategy (resolver_new strategy mins d) = strategy"
  by (simp add: resolver_new_def)

lemma store_new: "ips \<noteq> [] \<Longrightarrow> instant_add now (max mins 1 * 60) = Ok t \<Longrightarrow> fst (cache_store now fk host ips (resolver_new strategy mins d)) = Ok ()"
  by (simp add: cache_store_def resolver_new_def Let_def)

theorem dns_strategy_witness:
  "\<exists>addrs. fst (resolve_with_runtime example_dns_env (system_net [V6 1, V4 2]) 0 0 ''xn.h'' 443 None (resolver_new ''ipv4_first'' 1 None)) = Ok addrs \<and>
     list_all (\<lambda>a. sa_port a = 443) addrs"
proof -
  let ?r = "resolver_new ''ipv4_first'' 1 None :: unit dns_resolver"
  have st: "fst (cache_store 0 0 ''xn.h'' [V6 1, V4 2] ?r) = Ok ()" by (rule store_new) (simp_all add: instant_add_def max_def)
  have "fst (resolve_with_runtime example_dns_env (system_net [V6 1, V4 2]) 0 0 ''xn.h'' 443 None ?r) = Ok [SocketAddr (V4 2) 443, SocketAddr (V6 1) 443]"
    using st by (cases "cache_store 0 0 ''xn.h'' [V6 1, V4 2] ?r")
      (simp add: resolve_with_runtime_def parse_ip_name apply_strategy_def new_strategy)
  from this dns_strategy [OF this parse_ip_name] show ?thesis by blast
qed

section \<open>Two observations\<close>

text \<open>An answer without an address of the strategy's family is an error the first time and an empty success from the cache.\<close>

lemma cached_empty_success:
  "\<exists>r'. resolve example_dns_env (system_net [V6 1]) 0 0 ''xn.h'' 443 (resolver_new ''ipv4_only'' 1 None) = (Err NotFound, r') \<and>
     fst (resolve example_dns_env (system_net [V6 1]) 1 0 ''xn.h'' 443 r') = Ok []"
proof -
  let ?r = "resolver_new ''ipv4_only'' 1 None :: unit dns_resolver"
  let ?r' = "snd (cache_store 0 0 ''xn.h'' [V6 1] ?r)"
  have a: "instant_add 0 (dr_cache_ttl ?r) = Ok 60000000000" by (simp add: instant_add_def resolver_new_def max_def)
  have st: "cache_store 0 0 ''xn.h'' [V6 1] ?r = (Ok (), ?r')" using a by (simp add: cache_store_def Let_def)
  have c: "cached_answer 1 ''xn.h'' ?r' = Some [V6 1]" by (rule cached_after_store [OF _ a]) simp_all
  have "dr_strategy ?r = ''ipv4_only''" "dr_strategy ?r' = ''ipv4_only''"
    using a by (simp_all add: cache_store_def resolver_new_def Let_def)
  then show ?thesis using c
    by (intro exI [of _ ?r']) (simp add: resolve_def resolve_with_runtime_def parse_ip_name apply_strategy_def case_prod_unfold arg_cong [OF st, of fst])
qed

text \<open>When the rules file is removed its rules go, but the strategy it has set stays.\<close>

lemma removed_file_keeps_strategy:
  assumes "parse_yaml env content = Inr table" and "tbl_strategy table = Some s" and "mgr_last_mtime m \<noteq> Some t"
  shows "dr_strategy (mgr_resolver (check_and_reload env None (check_and_reload env (Some (Some t, Some content)) m))) = s"
  using assms by (simp add: check_and_reload_def set_rules_table_def table_settings_def Let_def split: option.split)

end
