(* ===== verification/Ss_Crypto.thy ===== *)
theory Ss_Crypto
  imports Rust_Str
begin

text \<open>
  \<^verbatim>\<open>src/protocol/shadowsocks/crypto.rs\<close>: the AEAD streams of Shadowsocks. The ciphers, HKDF and MD5 are third-party code and arguments:
  \<open>ss_aead\<close> holds what sealing and opening a block with a key and a nonce give. The decoder is driven by \<^verbatim>\<open>FramedRead\<close>, which appends
  what arrives to a buffer and decodes as long as there is a frame; the encoder by \<^verbatim>\<open>FramedWrite\<close>. A result carries the
  state the object is left in, also after an error.
\<close>

section \<open>Ciphers and keys\<close>

definition MAX_PAYLOAD_LEN :: nat where "MAX_PAYLOAD_LEN = 0x3FFF"

datatype cipher_kind = ChaCha20Poly1305 | Aes256Gcm | Aes128Gcm | Aes192Gcm

definition kind_from_str :: "string \<Rightarrow> cipher_kind option" where
  "kind_from_str name =
     (let n = to_lowercase name
      in if n = ''chacha20-ietf-poly1305'' \<or> n = ''chacha20-poly1305'' then Some ChaCha20Poly1305
         else if n = ''aes-256-gcm'' then Some Aes256Gcm
         else if n = ''aes-128-gcm'' \<or> n = ''gcm'' \<or> n = ''aes-gcm'' then Some Aes128Gcm
         else if n = ''aes-192-gcm'' then Some Aes192Gcm
         else None)"

fun key_len :: "cipher_kind \<Rightarrow> nat" where
  "key_len ChaCha20Poly1305 = 32"
| "key_len Aes256Gcm = 32"
| "key_len Aes128Gcm = 16"
| "key_len Aes192Gcm = 24"

definition salt_len :: "cipher_kind \<Rightarrow> nat" where "salt_len kind = key_len kind"
definition tag_len :: "cipher_kind \<Rightarrow> nat" where "tag_len kind = 16"

record ss_aead =
  ae_seal :: "cipher_kind \<Rightarrow> bytes \<Rightarrow> bytes \<Rightarrow> bytes \<Rightarrow> (bytes \<times> bytes) option"
  ae_open :: "cipher_kind \<Rightarrow> bytes \<Rightarrow> bytes \<Rightarrow> bytes \<Rightarrow> bytes \<Rightarrow> bytes option"
  ae_hkdf :: "bytes \<Rightarrow> bytes \<Rightarrow> nat \<Rightarrow> bytes"

text \<open>\<^verbatim>\<open>EVP_BytesToKey\<close>; MD5 gives the 16 bytes of its digest.\<close>

function evp_loop :: "(bytes \<Rightarrow> u128) \<Rightarrow> bytes \<Rightarrow> nat \<Rightarrow> bytes \<Rightarrow> bytes \<Rightarrow> bytes" where
  "evp_loop md5 password len key prev =
     (if length key < len
      then let digest = octets 16 (md5 (prev @ password)) in evp_loop md5 password len (key @ digest) digest
      else take len key)"
  by pat_completeness auto
termination
  by (relation "measure (\<lambda>(md5, password, len, key, prev). len - length key)") auto

definition evp_bytes_to_key :: "(bytes \<Rightarrow> u128) \<Rightarrow> bytes \<Rightarrow> nat \<Rightarrow> bytes" where
  "evp_bytes_to_key md5 password len = evp_loop md5 password len [] []"

fun increment_nonce :: "bytes \<Rightarrow> bytes" where
  "increment_nonce [] = []"
| "increment_nonce (b # bs) = (if b + 1 \<noteq> 0 then (b + 1) # bs else (b + 1) # increment_nonce bs)"

record aead_cipher =
  ac_kind :: cipher_kind
  ac_key :: bytes

definition decrypt_in_place :: "ss_aead \<Rightarrow> aead_cipher \<Rightarrow> bytes \<Rightarrow> bytes \<Rightarrow> bytes res" where
  "decrypt_in_place ae c nonce buffer =
     (if nonce = replicate 12 255 then Err InvalidData
      else if length buffer < 16 then Err UnexpectedEof
      else let data = take (length buffer - 16) buffer; tag = drop (length buffer - 16) buffer
           in map_res (\<lambda>plain. plain @ tag) (ok_or InvalidData (ae_open ae (ac_kind c) (ac_key c) nonce data tag)))"

definition encrypt_in_place :: "ss_aead \<Rightarrow> aead_cipher \<Rightarrow> bytes \<Rightarrow> bytes \<Rightarrow> bytes res" where
  "encrypt_in_place ae c nonce buffer =
     map_res (\<lambda>(data, tag). data @ tag) (ok_or InvalidData (ae_seal ae (ac_kind c) (ac_key c) nonce buffer))"

section \<open>Decoding\<close>

record ss_decrypter =
  cipher_read :: aead_cipher
  read_nonce :: bytes
  payload_len :: "nat option"

definition decrypter_new :: "aead_cipher \<Rightarrow> ss_decrypter" where
  "decrypter_new c = \<lparr>cipher_read = c, read_nonce = replicate 12 0, payload_len = None\<rparr>"

definition decrypt_length :: "ss_aead \<Rightarrow> ss_decrypter \<Rightarrow> bytes \<Rightarrow> nat res \<times> ss_decrypter" where
  "decrypt_length ae d block =
     (case decrypt_in_place ae (cipher_read d) (read_nonce d) block of
        Ok block \<Rightarrow>
          (let len = unat (be16 (block ! 0) (block ! 1))
           in if len > MAX_PAYLOAD_LEN then (Err InvalidData, d)
              else (Ok len, d\<lparr>read_nonce := increment_nonce (read_nonce d)\<rparr>))
      | Err e \<Rightarrow> (Err e, d)
      | Panic \<Rightarrow> (Panic, d))"

definition decrypt_payload :: "ss_aead \<Rightarrow> ss_decrypter \<Rightarrow> bytes \<Rightarrow> bytes res \<times> ss_decrypter" where
  "decrypt_payload ae d block =
     (case decrypt_in_place ae (cipher_read d) (read_nonce d) block of
        Ok block \<Rightarrow> (Ok block, d\<lparr>read_nonce := increment_nonce (read_nonce d)\<rparr>)
      | Err e \<Rightarrow> (Err e, d)
      | Panic \<Rightarrow> (Panic, d))"

text \<open>The second half of \<^verbatim>\<open>decode\<close>, when the length is known.\<close>

definition decode_body :: "ss_aead \<Rightarrow> nat \<Rightarrow> ss_decrypter \<Rightarrow> bytes \<Rightarrow> bytes option res \<times> ss_decrypter \<times> bytes" where
  "decode_body ae len d src =
     (if length src < len + 16 then (Ok None, d, src)
      else case decrypt_payload ae d (take (len + 16) src) of
             (Ok payload, d) \<Rightarrow> (Ok (Some (take len payload)), d\<lparr>payload_len := None\<rparr>, drop (len + 16) src)
           | (Err e, d) \<Rightarrow> (Err e, d, drop (len + 16) src)
           | (Panic, d) \<Rightarrow> (Panic, d, drop (len + 16) src))"

definition ss_decode :: "ss_aead \<Rightarrow> ss_decrypter \<Rightarrow> bytes \<Rightarrow> bytes option res \<times> ss_decrypter \<times> bytes" where
  "ss_decode ae d src =
     (case payload_len d of
        Some len \<Rightarrow> decode_body ae len d src
      | None \<Rightarrow>
          (if length src < 18 then (Ok None, d, src)
           else case decrypt_length ae d (take 18 src) of
                  (Ok len, d) \<Rightarrow> decode_body ae len (d\<lparr>payload_len := Some len\<rparr>) (drop 18 src)
                | (Err e, d) \<Rightarrow> (Err e, d, drop 18 src)
                | (Panic, d) \<Rightarrow> (Panic, d, drop 18 src)))"

definition decode_eof :: "ss_aead \<Rightarrow> ss_decrypter \<Rightarrow> bytes \<Rightarrow> bytes option res \<times> ss_decrypter \<times> bytes" where
  "decode_eof ae d src =
     (case ss_decode ae d src of
        (Ok None, d, src) \<Rightarrow>
          if src \<noteq> [] \<or> payload_len d \<noteq> None then (Err UnexpectedEof, d, src) else (Ok None, d, src)
      | r \<Rightarrow> r)"

lemma decode_body_consumes: "decode_body ae len d src = (Ok (Some p), d', src') \<Longrightarrow> length src' < length src"
  by (auto simp: decode_body_def split: if_splits prod.splits res.splits)

lemma ss_decode_consumes: "ss_decode ae d src = (Ok (Some p), d', src') \<Longrightarrow> length src' < length src"
  by (auto simp: ss_decode_def dest!: decode_body_consumes split: option.splits if_splits prod.splits res.splits)

text \<open>\<^verbatim>\<open>FramedRead\<close>: all the frames in the buffer, then the next read; at the end of the stream \<^verbatim>\<open>decode_eof\<close>.\<close>

function frames :: "(ss_decrypter \<Rightarrow> bytes \<Rightarrow> bytes option res \<times> ss_decrypter \<times> bytes) \<Rightarrow> ss_decrypter \<Rightarrow> bytes \<Rightarrow>
    bytes list \<times> unit res \<times> ss_decrypter \<times> bytes" where
  "frames decode d src =
     (case decode d src of
        (Ok (Some p), d', src') \<Rightarrow>
          if length src' < length src then (case frames decode d' src' of (ps, r) \<Rightarrow> (p # ps, r)) else ([p], Ok (), d', src')
      | (Ok None, d', src') \<Rightarrow> ([], Ok (), d', src')
      | (Err e, d', src') \<Rightarrow> ([], Err e, d', src')
      | (Panic, d', src') \<Rightarrow> ([], Panic, d', src'))"
  by pat_completeness auto
termination
  by (relation "measure (\<lambda>(decode, d, src). length src)") auto

fun framed_read :: "ss_aead \<Rightarrow> ss_decrypter \<Rightarrow> bytes \<Rightarrow> bytes list \<Rightarrow> bytes list \<times> unit res" where
  "framed_read ae d buf [] = (case frames (decode_eof ae) d buf of (ps, r, d', buf') \<Rightarrow> (ps, r))"
| "framed_read ae d buf (seg # segs) =
     (case frames (ss_decode ae) d (buf @ seg) of
        (ps, Ok u, d', buf') \<Rightarrow> (case framed_read ae d' buf' segs of (qs, r) \<Rightarrow> (ps @ qs, r))
      | (ps, r, d', buf') \<Rightarrow> (ps, r))"

section \<open>Encoding\<close>

record ss_encrypter =
  cipher_write :: aead_cipher
  write_nonce :: bytes
  server_salt :: bytes
  salt_sent :: bool

definition nonce_exhausted :: "bytes \<Rightarrow> bool" where
  "nonce_exhausted nonce \<longleftrightarrow> drop 1 nonce = replicate 11 255 \<and> nonce ! 0 \<ge> 254"

text \<open>A length block and a payload block under two successive nonces.\<close>

definition seal_chunk :: "ss_aead \<Rightarrow> aead_cipher \<Rightarrow> bytes \<Rightarrow> bytes \<Rightarrow> bytes res" where
  "seal_chunk ae c nonce payload =
     and_then (encrypt_in_place ae c nonce (be16_bytes (of_nat (length payload)))) (\<lambda>len_buf.
     map_res (\<lambda>payload_buf. len_buf @ payload_buf) (encrypt_in_place ae c (increment_nonce nonce) payload))"

text \<open>Only complete chunks are observable: after an error the object is not used again.\<close>

definition encrypt_chunk :: "ss_aead \<Rightarrow> ss_encrypter \<Rightarrow> bytes \<Rightarrow> (bytes \<times> ss_encrypter) res" where
  "encrypt_chunk ae e payload =
     (if length payload > MAX_PAYLOAD_LEN then Err InvalidInput
      else if nonce_exhausted (write_nonce e) then Err InvalidData
      else map_res (\<lambda>chunk.
             ((if salt_sent e then [] else server_salt e) @ chunk,
              e\<lparr>salt_sent := True, write_nonce := increment_nonce (increment_nonce (write_nonce e))\<rparr>))
           (seal_chunk ae (cipher_write e) (write_nonce e) payload))"

fun encrypt_chunks :: "ss_aead \<Rightarrow> ss_encrypter \<Rightarrow> bytes list \<Rightarrow> (bytes \<times> ss_encrypter) res" where
  "encrypt_chunks ae e [] = Ok ([], e)"
| "encrypt_chunks ae e (p # ps) =
     and_then (encrypt_chunk ae e p) (\<lambda>(out, e). map_res (\<lambda>(dst, e). (out @ dst, e)) (encrypt_chunks ae e ps))"

definition ss_encode :: "ss_aead \<Rightarrow> ss_encrypter \<Rightarrow> bytes \<Rightarrow> (bytes \<times> ss_encrypter) res" where
  "ss_encode ae e item = encrypt_chunks ae e (chunks_of MAX_PAYLOAD_LEN item)"

section \<open>Sessions\<close>

text \<open>The decoder continues after a first length block that was read during the handshake.\<close>

definition into_stream_decrypter :: "nat option \<Rightarrow> ss_decrypter \<Rightarrow> ss_decrypter" where
  "into_stream_decrypter first_payload_len d = d\<lparr>payload_len := first_payload_len\<rparr>"


record ss_server_session =
  decrypter :: ss_decrypter
  encrypter :: ss_encrypter

definition server_session_new :: "ss_aead \<Rightarrow> cipher_kind \<Rightarrow> bytes \<Rightarrow> bytes \<Rightarrow> bytes \<Rightarrow> ss_server_session" where
  "server_session_new ae kind master_key client_salt random_salt =
     \<lparr>decrypter = \<lparr>cipher_read = \<lparr>ac_kind = kind, ac_key = ae_hkdf ae master_key client_salt (key_len kind)\<rparr>,
                   read_nonce = replicate 12 0, payload_len = None\<rparr>,
      encrypter = \<lparr>cipher_write = \<lparr>ac_kind = kind, ac_key = ae_hkdf ae master_key random_salt (key_len kind)\<rparr>,
                   write_nonce = replicate 12 0, server_salt = random_salt, salt_sent = False\<rparr>\<rparr>"

record ss_client_session =
  cs_cipher_write :: aead_cipher
  cs_write_nonce :: bytes

definition client_session_new :: "ss_aead \<Rightarrow> cipher_kind \<Rightarrow> bytes \<Rightarrow> bytes \<Rightarrow> ss_client_session" where
  "client_session_new ae kind master_key client_salt =
     \<lparr>cs_cipher_write = \<lparr>ac_kind = kind, ac_key = ae_hkdf ae master_key client_salt (key_len kind)\<rparr>, cs_write_nonce = replicate 12 0\<rparr>"

definition client_encrypt_chunk :: "ss_aead \<Rightarrow> ss_client_session \<Rightarrow> bytes \<Rightarrow> (bytes \<times> ss_client_session) res" where
  "client_encrypt_chunk ae s payload =
     (if length payload > MAX_PAYLOAD_LEN then Err InvalidInput
      else if nonce_exhausted (cs_write_nonce s) then Err InvalidData
      else map_res (\<lambda>chunk. (chunk, s\<lparr>cs_write_nonce := increment_nonce (increment_nonce (cs_write_nonce s))\<rparr>))
           (seal_chunk ae (cs_cipher_write s) (cs_write_nonce s) payload))"

fun client_encrypt_chunks :: "ss_aead \<Rightarrow> ss_client_session \<Rightarrow> bytes list \<Rightarrow> (bytes \<times> ss_client_session) res" where
  "client_encrypt_chunks ae s [] = Ok ([], s)"
| "client_encrypt_chunks ae s (p # ps) =
     and_then (client_encrypt_chunk ae s p) (\<lambda>(out, s). map_res (\<lambda>(dst, s). (out @ dst, s)) (client_encrypt_chunks ae s ps))"

section \<open>Lemmas on nonces\<close>

declare frames.simps [simp del] evp_loop.simps [simp del]

fun nonce_val :: "bytes \<Rightarrow> nat" where
  "nonce_val [] = 0"
| "nonce_val (b # bs) = unat b + 256 * nonce_val bs"

definition nonce_at :: "nat \<Rightarrow> bytes" where
  "nonce_at n = (increment_nonce ^^ n) (replicate 12 0)"

lemma length_increment_nonce [simp]: "length (increment_nonce bs) = length bs"
  by (induction bs) auto

lemma length_nonce_at [simp]: "length (nonce_at n) = 12"
  by (induction n) (simp_all add: nonce_at_def)

lemma nonce_at_Suc: "increment_nonce (nonce_at n) = nonce_at (Suc n)"
  by (simp add: nonce_at_def)

lemma nonce_val_less: "nonce_val bs < 256 ^ length bs"
proof (induction bs)
  case (Cons b bs)
  then show ?case using unat_u8_less [of b] by simp
qed simp

lemma unat_plus_one_u8: "(b :: u8) + 1 \<noteq> 0 \<Longrightarrow> unat (b + 1) = Suc (unat b)"
  by (metis Suc_eq_plus1 add.commute unatSuc)

lemma nonce_val_increment: "nonce_val (increment_nonce bs) = (nonce_val bs + 1) mod 256 ^ length bs"
proof (induction bs)
  case (Cons b bs)
  show ?case
  proof (cases "b + 1 = 0")
    case True
    then have "b = - 1" by (simp add: eq_neg_iff_add_eq_0)
    then have "unat b = 255" by (simp add: unsigned_minus_1_eq_mask mask_eq_exp_minus_1)
    then have "nonce_val (b # bs) + 1 = 256 * (nonce_val bs + 1)" by simp
    moreover have "256 * ((nonce_val bs + 1) mod 256 ^ length bs) = (256 * (nonce_val bs + 1)) mod 256 ^ length (b # bs)"
      unfolding mult_mod_right by simp
    ultimately show ?thesis using True Cons.IH by simp
  next
    case False
    then have "nonce_val (increment_nonce (b # bs)) = nonce_val (b # bs) + 1" by (simp add: unat_plus_one_u8)
    moreover from this have "nonce_val (b # bs) + 1 < 256 ^ length (b # bs)" using nonce_val_less [of "increment_nonce (b # bs)"] unfolding length_increment_nonce by simp
    ultimately show ?thesis by simp
  qed
qed simp

lemma nonce_val_zeros: "nonce_val (replicate n 0) = 0"
  by (induction n) simp_all

lemma nonce_val_at: "nonce_val (nonce_at n) = n mod 2 ^ 96"
proof (induction n)
  case (Suc n)
  have "nonce_val (nonce_at (Suc n)) = (nonce_val (nonce_at n) + 1) mod 256 ^ 12"
    by (simp flip: nonce_at_Suc add: nonce_val_increment)
  then show ?case using Suc by (simp add: mod_Suc_eq)
qed (simp add: nonce_at_def nonce_val_zeros)

lemma nonce_at_inj: "m < 2 ^ 96 \<Longrightarrow> n < 2 ^ 96 \<Longrightarrow> nonce_at m = nonce_at n \<Longrightarrow> m = n"
  by (metis mod_less nonce_val_at)

lemma nonce_val_inj: "length a = length b \<Longrightarrow> nonce_val a = nonce_val b \<Longrightarrow> a = b"
proof (induction a b rule: list_induct2)
  case (Cons x xs y ys)
  have "unat x = unat y" using Cons.prems unat_u8_less [of x] unat_u8_less [of y]
    by (metis mod_less mod_mult_self2 nonce_val.simps(2))
  then show ?case using Cons by (simp add: word_unat_eq_iff)
qed simp

lemma nonce_val_max: "Suc (nonce_val (replicate n 255)) = 256 ^ n"
  by (induction n) simp_all

lemma nonce_exhausted_iff: "length nonce = 12 \<Longrightarrow> nonce_exhausted nonce \<longleftrightarrow> 2 ^ 96 - 2 \<le> nonce_val nonce"
proof -
  assume "length nonce = 12"
  then obtain b bs where n: "nonce = b # bs" "length bs = 11" by (cases nonce) auto
  define v where "v = nonce_val bs"
  have less: "Suc v \<le> 256 ^ 11" using nonce_val_less [of bs] n by (simp add: v_def)
  have "2 ^ 96 - 2 \<le> nonce_val nonce \<longleftrightarrow> Suc v = 256 ^ 11 \<and> 254 \<le> unat b"
    using less unat_u8_less [of b] unfolding n(1) nonce_val.simps v_def [symmetric] by simp arith
  also have "Suc v = 256 ^ 11 \<longleftrightarrow> bs = replicate 11 255"
    using nonce_val_inj [of bs "replicate 11 255"] n(2) nonce_val_max [of 11] unfolding v_def by (metis Suc_inject length_replicate)
  finally show ?thesis by (simp add: nonce_exhausted_def n word_le_nat_alt)
qed

section \<open>Lemmas on streams\<close>

lemma append_split_prefix:
  "b @ r = s @ w \<Longrightarrow> length s = n \<Longrightarrow> n \<le> length b \<Longrightarrow> take n b = s \<and> drop n b @ r = w"
  by (auto simp: append_eq_append_conv2)

text \<open>What the protocol relies on of the cipher: blocks of a chunk can be sealed, a tag has 16 bytes, and what was sealed is opened again with the
  same key and nonce.\<close>

definition aead_ok :: "ss_aead \<Rightarrow> bool" where
  "aead_ok ae \<longleftrightarrow>
     (\<forall>kind key nonce plain. length plain \<le> MAX_PAYLOAD_LEN \<longrightarrow>
        (\<exists>data tag. ae_seal ae kind key nonce plain = Some (data, tag) \<and> length data = length plain \<and> length tag = 16 \<and>
           ae_open ae kind key nonce data tag = Some plain))"

definition sealed :: "ss_aead \<Rightarrow> aead_cipher \<Rightarrow> bytes \<Rightarrow> bytes \<Rightarrow> bytes" where
  "sealed ae c nonce plain = (case ae_seal ae (ac_kind c) (ac_key c) nonce plain of Some (data, tag) \<Rightarrow> data @ tag | None \<Rightarrow> [])"

text \<open>The wire of a list of chunks, from the nonce with number \<open>n\<close> on.\<close>

fun wire_from :: "ss_aead \<Rightarrow> aead_cipher \<Rightarrow> nat \<Rightarrow> bytes list \<Rightarrow> bytes" where
  "wire_from ae c n [] = []"
| "wire_from ae c n (p # ps) =
     sealed ae c (nonce_at n) (be16_bytes (of_nat (length p))) @ sealed ae c (nonce_at (n + 1)) p @ wire_from ae c (n + 2) ps"

lemma encrypt_Ok: "encrypt_in_place ae c nonce plain = Ok out \<Longrightarrow> out = sealed ae c nonce plain"
  by (auto simp: encrypt_in_place_def sealed_def split: option.splits elim!: ok_or.elims)

lemma nonce_not_exhausted: "\<not> nonce_exhausted (nonce_at n) \<Longrightarrow> n < 2 ^ 96 \<Longrightarrow> n + 2 < 2 ^ 96"
  using nonce_exhausted_iff [of "nonce_at n"] nonce_val_at [of n] by (simp del: power_numeral_even)

lemma client_wire:
  assumes "client_encrypt_chunks ae s ps = Ok (wire, s')" and "cs_write_nonce s = nonce_at n" and "n < 2 ^ 96"
  shows "wire = wire_from ae (cs_cipher_write s) n ps \<and> n + 2 * length ps < 2 ^ 96 \<and> list_all (\<lambda>p. length p \<le> MAX_PAYLOAD_LEN) ps"
  using assms
proof (induction ps arbitrary: s n wire)
  case (Cons p ps)
  from Cons.prems(1) obtain chunk dst where
    a: "length p \<le> MAX_PAYLOAD_LEN" "\<not> nonce_exhausted (cs_write_nonce s)" "seal_chunk ae (cs_cipher_write s) (cs_write_nonce s) p = Ok chunk"
    and b: "client_encrypt_chunks ae (s\<lparr>cs_write_nonce := increment_nonce (increment_nonce (cs_write_nonce s))\<rparr>) ps = Ok (dst, s')"
    and w: "wire = chunk @ dst"
    by (auto simp: client_encrypt_chunk_def split: if_splits)
  have n: "n + 2 < 2 ^ 96" using nonce_not_exhausted a(2) Cons.prems(2,3) by simp
  have "dst = wire_from ae (cs_cipher_write s) (n + 2) ps \<and> n + 2 + 2 * length ps < 2 ^ 96 \<and> list_all (\<lambda>p. length p \<le> MAX_PAYLOAD_LEN) ps"
    using Cons.IH [OF b _ n] Cons.prems(2) by (simp add: nonce_at_Suc)
  moreover have "chunk = sealed ae (cs_cipher_write s) (nonce_at n) (be16_bytes (of_nat (length p))) @ sealed ae (cs_cipher_write s) (nonce_at (n + 1)) p"
    using a(3) Cons.prems(2) by (auto simp: seal_chunk_def nonce_at_Suc dest!: encrypt_Ok)
  ultimately show ?case using w a(1) by (simp add: del: power_numeral_even power_numeral_odd)
qed simp

lemma open_sealed:
  assumes "aead_ok ae" and "length plain \<le> MAX_PAYLOAD_LEN" and "n + 1 < 2 ^ 96"
  shows "\<exists>tag. decrypt_in_place ae c (nonce_at n) (sealed ae c (nonce_at n) plain) = Ok (plain @ tag) \<and> length tag = 16"
    and "length (sealed ae c (nonce_at n) plain) = length plain + 16"
proof -
  obtain data tag where o: "ae_seal ae (ac_kind c) (ac_key c) (nonce_at n) plain = Some (data, tag)" "length data = length plain"
      "length tag = 16" "ae_open ae (ac_kind c) (ac_key c) (nonce_at n) data tag = Some plain"
    using assms(1,2) unfolding aead_ok_def by blast
  have "nonce_at n \<noteq> replicate 12 255"
  proof
    assume "nonce_at n = replicate 12 255"
    then have "Suc (n mod 2 ^ 96) = 256 ^ 12" using nonce_val_max [of 12] nonce_val_at [of n] by simp
    then show False using assms(3) by simp
  qed
  then show "\<exists>tag. decrypt_in_place ae c (nonce_at n) (sealed ae c (nonce_at n) plain) = Ok (plain @ tag) \<and> length tag = 16"
    using o by (simp add: decrypt_in_place_def sealed_def del: and_then_Ok_iff map_res_Ok_iff)
  show "length (sealed ae c (nonce_at n) plain) = length plain + 16" using o by (simp add: sealed_def)
qed

text \<open>The decoder stands before a chunk or between its two blocks; \<open>wire\<close> is what is still to come for the chunks \<open>ps\<close>.\<close>

definition before_chunk :: "ss_aead \<Rightarrow> ss_decrypter \<Rightarrow> bytes list \<Rightarrow> bytes \<Rightarrow> bool" where
  "before_chunk ae d ps wire \<longleftrightarrow>
     (\<exists>n. read_nonce d = nonce_at n \<and> payload_len d = None \<and> wire = wire_from ae (cipher_read d) n ps \<and>
        n + 2 * length ps < 2 ^ 96 \<and> list_all (\<lambda>p. length p \<le> MAX_PAYLOAD_LEN) ps)"

definition within_chunk :: "ss_aead \<Rightarrow> ss_decrypter \<Rightarrow> bytes \<Rightarrow> bytes list \<Rightarrow> bytes \<Rightarrow> bool" where
  "within_chunk ae d p ps wire \<longleftrightarrow>
     (\<exists>n. read_nonce d = nonce_at (n + 1) \<and> payload_len d = Some (length p) \<and>
        wire = sealed ae (cipher_read d) (nonce_at (n + 1)) p @ wire_from ae (cipher_read d) (n + 2) ps \<and>
        n + 2 * length (p # ps) < 2 ^ 96 \<and> list_all (\<lambda>p. length p \<le> MAX_PAYLOAD_LEN) (p # ps))"

fun decoder_at :: "ss_aead \<Rightarrow> ss_decrypter \<Rightarrow> bytes list \<Rightarrow> bytes \<Rightarrow> bool" where
  "decoder_at ae d [] wire = before_chunk ae d [] wire"
| "decoder_at ae d (p # ps) wire = (before_chunk ae d (p # ps) wire \<or> within_chunk ae d p ps wire)"

lemma decode_body_within:
  assumes "aead_ok ae" and "within_chunk ae d p ps (buf @ rest)"
  shows "(length buf < length p + 16 \<and> rest \<noteq> [] \<and> decode_body ae (length p) d buf = (Ok None, d, buf)) \<or>
    (\<exists>d' buf'. decode_body ae (length p) d buf = (Ok (Some p), d', buf') \<and> before_chunk ae d' ps (buf' @ rest))"
proof -
  obtain n where n: "read_nonce d = nonce_at (n + 1)"
      "buf @ rest = sealed ae (cipher_read d) (nonce_at (n + 1)) p @ wire_from ae (cipher_read d) (n + 2) ps"
      "n + 2 * length (p # ps) < 2 ^ 96" "list_all (\<lambda>p. length p \<le> MAX_PAYLOAD_LEN) (p # ps)"
    using assms(2) unfolding within_chunk_def by blast
  have "n + 1 + 1 < 2 ^ 96" using n(3) by simp
  then obtain tag where s: "decrypt_in_place ae (cipher_read d) (nonce_at (n + 1)) (sealed ae (cipher_read d) (nonce_at (n + 1)) p) = Ok (p @ tag)"
      "length (sealed ae (cipher_read d) (nonce_at (n + 1)) p) = length p + 16"
    using open_sealed [OF assms(1), of p "n + 1" "cipher_read d"] n(4) by auto
  show ?thesis
  proof (cases "length buf < length p + 16")
    case True
    moreover from this have "rest \<noteq> []" using n(2) s(2) by (auto dest: arg_cong [where f = length])
    ultimately show ?thesis by (simp add: decode_body_def)
  next
    case False
    then have t: "take (length p + 16) buf = sealed ae (cipher_read d) (nonce_at (n + 1)) p"
      "drop (length p + 16) buf @ rest = wire_from ae (cipher_read d) (n + 2) ps"
      using append_split_prefix [OF n(2), of "length p + 16"] s(2) by simp_all
    let ?d = "d\<lparr>read_nonce := nonce_at (n + 2), payload_len := None\<rparr>"
    have "decode_body ae (length p) d buf = (Ok (Some p), ?d, drop (length p + 16) buf)"
      using False t(1) s(1) n(1) by (simp add: decode_body_def decrypt_payload_def nonce_at_Suc)
    moreover have "before_chunk ae ?d ps (drop (length p + 16) buf @ rest)"
      unfolding before_chunk_def t(2) using n(3,4) by (intro exI [of _ "n + 2"]) simp
    ultimately show ?thesis by blast
  qed
qed

lemma decode_length_before:
  assumes "aead_ok ae" and "before_chunk ae d (p # ps) (buf @ rest)" and "18 \<le> length buf"
  shows "\<exists>d'. decrypt_length ae d (take 18 buf) = (Ok (length p), d') \<and> within_chunk ae (d'\<lparr>payload_len := Some (length p)\<rparr>) p ps (drop 18 buf @ rest)"
proof -
  obtain n where n: "read_nonce d = nonce_at n" "buf @ rest = wire_from ae (cipher_read d) n (p # ps)"
      "n + 2 * length (p # ps) < 2 ^ 96" "list_all (\<lambda>p. length p \<le> MAX_PAYLOAD_LEN) (p # ps)"
    using assms(2) unfolding before_chunk_def by blast
  let ?l = "be16_bytes (of_nat (length p)) :: bytes"
  have "n + 1 < 2 ^ 96" using n(3) by simp
  then obtain tag where s: "decrypt_in_place ae (cipher_read d) (nonce_at n) (sealed ae (cipher_read d) (nonce_at n) ?l) = Ok (?l @ tag)"
      "length (sealed ae (cipher_read d) (nonce_at n) ?l) = 18"
    using open_sealed [OF assms(1), of ?l n "cipher_read d"] by (auto simp: MAX_PAYLOAD_LEN_def)
  have t: "take 18 buf = sealed ae (cipher_read d) (nonce_at n) ?l"
    "drop 18 buf @ rest = sealed ae (cipher_read d) (nonce_at (n + 1)) p @ wire_from ae (cipher_read d) (n + 2) ps"
    using append_split_prefix [OF n(2) [unfolded wire_from.simps], of 18] s(2) assms(3) by simp_all
  have "length p < 65536" using n(4) by (simp add: MAX_PAYLOAD_LEN_def)
  then have "unat (be16 ((?l @ tag) ! 0) ((?l @ tag) ! 1)) = length p" by (simp add: be16_bytes_def unat_of_nat_u16)
  then have "decrypt_length ae d (take 18 buf) = (Ok (length p), d\<lparr>read_nonce := nonce_at (n + 1)\<rparr>)"
    using s(1) t(1) n(1,4) by (simp add: decrypt_length_def nonce_at_Suc)
  moreover have "within_chunk ae (d\<lparr>read_nonce := nonce_at (n + 1), payload_len := Some (length p)\<rparr>) p ps (drop 18 buf @ rest)"
    unfolding within_chunk_def t(2) using n(3,4) by (intro exI [of _ n]) simp
  ultimately show ?thesis by simp
qed

lemma before_chunk_len: "aead_ok ae \<Longrightarrow> before_chunk ae d (p # ps) wire \<Longrightarrow> 18 \<le> length wire"
proof -
  assume a: "aead_ok ae" "before_chunk ae d (p # ps) wire"
  then obtain n where n: "wire = wire_from ae (cipher_read d) n (p # ps)" "n + 2 * length (p # ps) < 2 ^ 96"
    unfolding before_chunk_def by blast
  then show ?thesis using open_sealed(2) [OF a(1), of "be16_bytes (of_nat (length p))" n "cipher_read d"] by (simp add: MAX_PAYLOAD_LEN_def)
qed

text \<open>One call of the decoder on the part of the wire that has arrived.\<close>

lemma ss_decode_step:
  assumes "aead_ok ae" and "decoder_at ae d ps (buf @ rest)"
  shows "(\<exists>d' buf'. ss_decode ae d buf = (Ok None, d', buf') \<and> decoder_at ae d' ps (buf' @ rest) \<and>
            (rest = [] \<longrightarrow> ps = [] \<and> buf' = [] \<and> payload_len d' = None)) \<or>
    (\<exists>p qs d' buf'. ps = p # qs \<and> ss_decode ae d buf = (Ok (Some p), d', buf') \<and> before_chunk ae d' qs (buf' @ rest))"
proof (cases ps)
  case Nil
  then have b: "before_chunk ae d [] (buf @ rest)" using assms(2) by simp
  then have "buf = []" "rest = []" "payload_len d = None" by (auto simp: before_chunk_def)
  then show ?thesis using b Nil by (simp add: ss_decode_def)
next
  case (Cons p qs)
  consider "before_chunk ae d (p # qs) (buf @ rest)" | "within_chunk ae d p qs (buf @ rest)" using assms(2) Cons by auto
  then show ?thesis
  proof cases
    case 1
    then have n: "payload_len d = None" by (auto simp: before_chunk_def)
    show ?thesis
    proof (cases "length buf < 18")
      case True
      then show ?thesis using n 1 before_chunk_len [OF assms(1) 1] Cons by (auto simp: ss_decode_def)
    next
      case False
      then obtain d' where l: "decrypt_length ae d (take 18 buf) = (Ok (length p), d')"
          and w: "within_chunk ae (d'\<lparr>payload_len := Some (length p)\<rparr>) p qs (drop 18 buf @ rest)"
        using decode_length_before [OF assms(1) 1] by auto
      have "ss_decode ae d buf = decode_body ae (length p) (d'\<lparr>payload_len := Some (length p)\<rparr>) (drop 18 buf)"
        using False n l by (simp add: ss_decode_def)
      then show ?thesis using decode_body_within [OF assms(1) w] w Cons by auto
    qed
  next
    case 2
    then have "ss_decode ae d buf = decode_body ae (length p) d buf" by (auto simp: ss_decode_def within_chunk_def)
    then show ?thesis using decode_body_within [OF assms(1) 2] 2 Cons by auto
  qed
qed

lemma before_decoder_at: "before_chunk ae d ps wire \<Longrightarrow> decoder_at ae d ps wire"
  by (cases ps) auto

lemma frames_step:
  assumes "aead_ok ae" and "decoder_at ae d ps (buf @ rest)"
  shows "\<exists>as bs d' buf'. ps = as @ bs \<and> frames (ss_decode ae) d buf = (as, Ok (), d', buf') \<and> decoder_at ae d' bs (buf' @ rest)"
  using assms(2)
proof (induction ps arbitrary: d buf)
  case Nil
  then show ?case using ss_decode_step [OF assms(1), of d "[]" buf rest] by (fastforce simp: frames.simps)
next
  case (Cons p ps)
  from ss_decode_step [OF assms(1) Cons.prems] show ?case
  proof (elim disjE exE conjE)
    fix d' buf' assume "ss_decode ae d buf = (Ok None, d', buf')" "decoder_at ae d' (p # ps) (buf' @ rest)"
    then show ?thesis
      by (intro exI [of _ "[]"] exI [of _ "p # ps"] exI [of _ d'] exI [of _ buf']) (simp add: frames.simps del: decoder_at.simps)
  next
    fix q qs d' buf' assume e: "p # ps = q # qs" "ss_decode ae d buf = (Ok (Some q), d', buf')" "before_chunk ae d' qs (buf' @ rest)"
    then obtain as bs d'' buf'' where "qs = as @ bs" "frames (ss_decode ae) d' buf' = (as, Ok (), d'', buf'')" "decoder_at ae d'' bs (buf'' @ rest)"
      using Cons.IH [OF before_decoder_at] by blast
    then show ?thesis using e ss_decode_consumes [OF e(2)]
      by (intro exI [of _ "q # as"] exI [of _ bs] exI [of _ d''] exI [of _ buf'']) (subst frames.simps, simp)
  qed
qed

lemma frames_eof:
  assumes "aead_ok ae" and "decoder_at ae d ps buf"
  shows "\<exists>d'. frames (decode_eof ae) d buf = (ps, Ok (), d', [])"
  using assms(2)
proof (induction ps arbitrary: d buf)
  case Nil
  then show ?case using ss_decode_step [OF assms(1), of d "[]" buf "[]"] by (fastforce simp: frames.simps decode_eof_def)
next
  case (Cons p ps)
  from ss_decode_step [OF assms(1), of d "p # ps" buf "[]"] Cons.prems obtain d' buf' where
    e: "ss_decode ae d buf = (Ok (Some p), d', buf')" "before_chunk ae d' ps buf'" by auto
  then have "decode_eof ae d buf = (Ok (Some p), d', buf')" by (simp add: decode_eof_def)
  moreover obtain d'' where "frames (decode_eof ae) d' buf' = (ps, Ok (), d'', [])" using Cons.IH [OF before_decoder_at [OF e(2)]] by blast
  ultimately show ?case using ss_decode_consumes [OF e(1)] by (subst frames.simps) simp
qed

lemma framed_read_wire:
  assumes "aead_ok ae" and "decoder_at ae d ps (buf @ concat segs)"
  shows "framed_read ae d buf segs = (ps, Ok ())"
  using assms(2)
proof (induction segs arbitrary: d ps buf)
  case Nil
  then show ?case using frames_eof [OF assms(1), of d ps buf] by auto
next
  case (Cons seg segs)
  then obtain as bs d' buf' where "ps = as @ bs" "frames (ss_decode ae) d (buf @ seg) = (as, Ok (), d', buf')" "decoder_at ae d' bs (buf' @ concat segs)"
    using frames_step [OF assms(1), of d ps "buf @ seg" "concat segs"] by auto
  then show ?case using Cons.IH [of d' bs buf'] by simp
qed

lemma evp_loop_length: "length (evp_loop md5 password len key prev) = len"
  by (induction md5 password len key prev rule: evp_loop.induct) (subst evp_loop.simps, simp add: Let_def)

lemma encrypter_wire:
  assumes "encrypt_chunks ae e ps = Ok (wire, e')" and "write_nonce e = nonce_at n" and "n < 2 ^ 96"
  shows "wire = (if salt_sent e \<or> ps = [] then [] else server_salt e) @ wire_from ae (cipher_write e) n ps \<and> n + 2 * length ps < 2 ^ 96"
  using assms
proof (induction ps arbitrary: e n wire)
  case (Cons p ps)
  let ?e = "e\<lparr>salt_sent := True, write_nonce := increment_nonce (increment_nonce (write_nonce e))\<rparr>"
  from Cons.prems(1) obtain chunk dst where
    a: "\<not> nonce_exhausted (write_nonce e)" "seal_chunk ae (cipher_write e) (write_nonce e) p = Ok chunk"
    and b: "encrypt_chunks ae ?e ps = Ok (dst, e')" and w: "wire = (if salt_sent e then [] else server_salt e) @ chunk @ dst"
    by (auto simp: encrypt_chunk_def split: if_splits)
  have n: "n + 2 < 2 ^ 96" using nonce_not_exhausted a(1) Cons.prems(2,3) by simp
  have "dst = wire_from ae (cipher_write e) (n + 2) ps \<and> n + 2 + 2 * length ps < 2 ^ 96"
    using Cons.IH [OF b _ n] Cons.prems(2) by (simp add: nonce_at_Suc)
  moreover have "chunk = sealed ae (cipher_write e) (nonce_at n) (be16_bytes (of_nat (length p))) @ sealed ae (cipher_write e) (nonce_at (n + 1)) p"
    using a(2) Cons.prems(2) by (auto simp: seal_chunk_def nonce_at_Suc dest!: encrypt_Ok)
  ultimately show ?case using w by simp
qed simp

text \<open>Encryption succeeds as long as there are nonces.\<close>

lemma seal_chunk_succeeds: "aead_ok ae \<Longrightarrow> length p \<le> MAX_PAYLOAD_LEN \<Longrightarrow> \<exists>chunk. seal_chunk ae c nonce p = Ok chunk"
proof -
  assume a: "aead_ok ae" "length p \<le> MAX_PAYLOAD_LEN"
  have "\<exists>out. encrypt_in_place ae c nonce' q = Ok out" if q: "length q \<le> MAX_PAYLOAD_LEN" for nonce' q
  proof -
    obtain data tag where "ae_seal ae (ac_kind c) (ac_key c) nonce' q = Some (data, tag)" using a(1) q unfolding aead_ok_def by blast
    then show ?thesis by (simp add: encrypt_in_place_def)
  qed
  from this [of "be16_bytes (of_nat (length p))" nonce] this [OF a(2), of "increment_nonce nonce"] show ?thesis
    by (auto simp: seal_chunk_def MAX_PAYLOAD_LEN_def)
qed

lemma nonce_at_not_exhausted: "n + 2 < 2 ^ 96 \<Longrightarrow> \<not> nonce_exhausted (nonce_at n)"
  using nonce_exhausted_iff [of "nonce_at n"] nonce_val_at [of n] by simp

lemma client_encrypts:
  "aead_ok ae \<Longrightarrow> list_all (\<lambda>p. length p \<le> MAX_PAYLOAD_LEN) ps \<Longrightarrow> cs_write_nonce s = nonce_at n \<Longrightarrow> n + 2 * length ps < 2 ^ 96 \<Longrightarrow>
     \<exists>wire s'. client_encrypt_chunks ae s ps = Ok (wire, s')"
proof (induction ps arbitrary: s n)
  case (Cons p ps)
  then obtain chunk where c: "seal_chunk ae (cs_cipher_write s) (cs_write_nonce s) p = Ok chunk" using seal_chunk_succeeds by fastforce
  let ?s = "s\<lparr>cs_write_nonce := increment_nonce (increment_nonce (cs_write_nonce s))\<rparr>"
  have "\<exists>wire s'. client_encrypt_chunks ae ?s ps = Ok (wire, s')"
    using Cons.IH [of ?s "n + 2"] Cons.prems by (simp add: nonce_at_Suc)
  then show ?case using c Cons.prems nonce_at_not_exhausted [of n] by (auto simp: client_encrypt_chunk_def)
qed simp

lemma encrypter_encrypts:
  "aead_ok ae \<Longrightarrow> list_all (\<lambda>p. length p \<le> MAX_PAYLOAD_LEN) ps \<Longrightarrow> write_nonce e = nonce_at n \<Longrightarrow> n + 2 * length ps < 2 ^ 96 \<Longrightarrow>
     \<exists>wire e'. encrypt_chunks ae e ps = Ok (wire, e')"
proof (induction ps arbitrary: e n)
  case (Cons p ps)
  then obtain chunk where c: "seal_chunk ae (cipher_write e) (write_nonce e) p = Ok chunk" using seal_chunk_succeeds by fastforce
  let ?e = "e\<lparr>salt_sent := True, write_nonce := increment_nonce (increment_nonce (write_nonce e))\<rparr>"
  have "\<exists>wire e'. encrypt_chunks ae ?e ps = Ok (wire, e')"
    using Cons.IH [of ?e "n + 2"] Cons.prems by (simp add: nonce_at_Suc)
  then show ?case using c Cons.prems nonce_at_not_exhausted [of n] by (auto simp: encrypt_chunk_def)
qed simp

section \<open>Properties\<close>

text \<open>A Shadowsocks stream is transparent. Given what AEAD promises, whatever chunks a client encrypts, the server's decoder returns exactly
  these chunks and then the end of the stream without an error, however the network cuts the wire into segments.\<close>

theorem ss_stream_roundtrip:
  assumes "aead_ok ae" and "client_encrypt_chunks ae (client_session_new ae kind master_key salt) ps = Ok (wire, s)"
    and "concat segs = wire"
  shows "framed_read ae (decrypter (server_session_new ae kind master_key salt server_salt')) [] segs = (ps, Ok ())"
proof (rule framed_read_wire [OF assms(1)])
  let ?s = "client_session_new ae kind master_key salt" and ?d = "decrypter (server_session_new ae kind master_key salt server_salt')"
  have "cs_write_nonce ?s = nonce_at 0" by (simp add: client_session_new_def nonce_at_def)
  then have "wire = wire_from ae (cs_cipher_write ?s) 0 ps \<and> 0 + 2 * length ps < 2 ^ 96 \<and> list_all (\<lambda>p. length p \<le> MAX_PAYLOAD_LEN) ps"
    by (rule client_wire [OF assms(2)]) simp
  then have "before_chunk ae ?d ps wire"
    unfolding before_chunk_def by (intro exI [of _ 0]) (simp add: server_session_new_def client_session_new_def nonce_at_def)
  then show "decoder_at ae ?d ps ([] @ concat segs)" using assms(3) by (simp add: before_decoder_at)
qed

text \<open>C26: no nonce is used twice. Everything a server session has sent is its salt once and then blocks sealed under the nonces number 0, 1, 2 and
  so on, which are pairwise different and never the last one; a session that would run out of them refuses to encrypt.\<close>

theorem ss_nonces_never_reused:
  assumes "encrypt_chunks ae (encrypter (server_session_new ae kind master_key salt server_salt')) ps = Ok (wire, e)"
  defines "c \<equiv> cipher_write (encrypter (server_session_new ae kind master_key salt server_salt'))"
  shows "wire = (if ps = [] then [] else server_salt') @
      concat (map (\<lambda>k. sealed ae c (nonce_at (2 * k)) (be16_bytes (of_nat (length (ps ! k)))) @ sealed ae c (nonce_at (2 * k + 1)) (ps ! k)) [0..<length ps])
    \<and> inj_on nonce_at {..<2 * length ps} \<and> replicate 12 255 \<notin> nonce_at ` {..<2 * length ps}"
proof -
  let ?e = "encrypter (server_session_new ae kind master_key salt server_salt')"
  have w: "wire_from ae c (2 * m) ps =
      concat (map (\<lambda>k. sealed ae c (nonce_at (2 * (m + k))) (be16_bytes (of_nat (length (ps ! k)))) @
        sealed ae c (nonce_at (2 * (m + k) + 1)) (ps ! k)) [0..<length ps])" for m ps
  proof (induction ps arbitrary: m)
    case (Cons p ps)
    show ?case using Cons.IH [of "Suc m"] by (simp add: upt_conv_Cons map_Suc_upt [symmetric] o_def del: upt_Suc)
  qed simp
  have "write_nonce ?e = nonce_at 0" by (simp add: server_session_new_def nonce_at_def)
  then have r: "wire = (if salt_sent ?e \<or> ps = [] then [] else server_salt ?e) @ wire_from ae c 0 ps \<and> 0 + 2 * length ps < 2 ^ 96"
    unfolding c_def by (rule encrypter_wire [OF assms(1)]) simp
  then have less: "k < 2 ^ 96 - 1" if "k < 2 * length ps" for k using that by simp
  have "inj_on nonce_at {..<2 * length ps}" using less by (intro inj_onI nonce_at_inj) force+
  moreover have "replicate 12 255 \<noteq> nonce_at k" if "k < 2 * length ps" for k
  proof
    assume "replicate 12 255 = nonce_at k"
    then have "Suc (k mod 2 ^ 96) = 256 ^ 12" using nonce_val_max [of 12] nonce_val_at [of k] by simp
    then show False using less [OF that] by simp
  qed
  ultimately show ?thesis using r w [of 0 ps] by (auto simp: server_session_new_def)
qed

text \<open>A cipher that authenticates nothing but meets the interface.\<close>

definition clear_aead :: ss_aead where
  "clear_aead =
     \<lparr>ae_seal = (\<lambda>kind key nonce plain. Some (plain, replicate 16 0)), ae_open = (\<lambda>kind key nonce data tag. Some data),
      ae_hkdf = (\<lambda>master salt n. take n (master @ salt))\<rparr>"

lemma clear_aead_ok: "aead_ok clear_aead"
  by (simp add: aead_ok_def clear_aead_def)

theorem ss_stream_roundtrip_witness:
  "\<exists>wire s. client_encrypt_chunks clear_aead (client_session_new clear_aead Aes128Gcm [1] [2]) [[7, 8], [9]] = Ok (wire, s) \<and>
     framed_read clear_aead (decrypter (server_session_new clear_aead Aes128Gcm [1] [2] [3])) [] [take 5 wire, drop 5 wire] = ([[7, 8], [9]], Ok ())"
proof -
  obtain wire s where e: "client_encrypt_chunks clear_aead (client_session_new clear_aead Aes128Gcm [1] [2]) [[7, 8], [9]] = Ok (wire, s)"
    using client_encrypts [OF clear_aead_ok, of "[[7, 8], [9]]" "client_session_new clear_aead Aes128Gcm [1] [2]" 0]
    by (auto simp: client_session_new_def nonce_at_def MAX_PAYLOAD_LEN_def)
  have "concat [take 5 wire, drop 5 wire] = wire" by simp
  from e ss_stream_roundtrip [OF clear_aead_ok e this, of "[3]"] show ?thesis by blast
qed

theorem ss_nonces_never_reused_witness: "inj_on nonce_at {..<2} \<and> replicate 12 255 \<notin> nonce_at ` {..<2}"
proof -
  obtain wire e where e: "encrypt_chunks clear_aead (encrypter (server_session_new clear_aead Aes128Gcm [1] [2] [3])) [[7, 8]] = Ok (wire, e)"
    using encrypter_encrypts [OF clear_aead_ok, of "[[7, 8]]" "encrypter (server_session_new clear_aead Aes128Gcm [1] [2] [3])" 0]
    by (auto simp: server_session_new_def nonce_at_def MAX_PAYLOAD_LEN_def)
  from ss_nonces_never_reused [OF e] show ?thesis by simp
qed

end
