(* ===== verification/Ss2022_Stream.thy ===== *)
theory Ss2022_Stream
  imports Ss_Crypto
begin

text \<open>
  The TCP stream of \<^verbatim>\<open>src/protocol/shadowsocks/ss2022.rs\<close>: the nonce counter, the decrypting reader and the encrypting writer, poll by poll. The cipher
  (\<^verbatim>\<open>TcpCipher\<close> of the \<^verbatim>\<open>shadowsocks\<close> crate) is an argument with a state of its own. What the socket does is a list of events:
  for reads, data (none: the end of the stream), \<^verbatim>\<open>Pending\<close> or an error; for writes, the number of bytes it takes, \<^verbatim>\<open>Pending\<close> or an error. A partly filled buffer is its filled part.
\<close>

section \<open>Nonce\<close>

text \<open>The carry is rippled through all the bytes.\<close>

fun nonce_carry :: "u16 \<Rightarrow> bytes \<Rightarrow> bytes" where
  "nonce_carry c [] = []"
| "nonce_carry c (b # bs) = (let c = c + ucast b in ucast c # nonce_carry (drop_bit 8 c) bs)"

definition ss2022_increment :: "bytes \<Rightarrow> bytes" where
  "ss2022_increment nonce = nonce_carry 1 nonce"

section \<open>Reading\<close>

datatype kind2022 = Aes128Gcm2022 | Aes256Gcm2022 | ChaCha20Poly1305_2022

record 'c tcp_cipher =
  tc_new :: "kind2022 \<Rightarrow> bytes \<Rightarrow> bytes \<Rightarrow> 'c"
  tc_decrypt :: "'c \<Rightarrow> bytes \<Rightarrow> (bytes \<times> 'c) option"
  tc_encrypt :: "'c \<Rightarrow> bytes \<Rightarrow> bytes \<times> 'c"

datatype sock_read = Pending | Seg bytes | ReadErr io_error

type_synonym sock_in = "sock_read list"

datatype reader_state =
    YieldingData bytes
  | ReadingLength bytes
  | ReadingData nat bytes

record 'c ss2022_reader =
  rd_cipher :: 'c
  rd_state :: reader_state

definition reader_new :: "'c \<Rightarrow> bytes \<Rightarrow> 'c ss2022_reader" where
  "reader_new cipher initial_payload =
     \<lparr>rd_cipher = cipher, rd_state = (if initial_payload = [] then ReadingLength [] else YieldingData initial_payload)\<rparr>"

datatype fill_result = Filled bytes sock_in | FillEof bytes | FillPending bytes sock_in | FillErr io_error bytes sock_in

text \<open>Filling a buffer of \<open>n\<close> bytes, of which \<open>got\<close> are there.\<close>

function fill_buf :: "nat \<Rightarrow> bytes \<Rightarrow> sock_in \<Rightarrow> fill_result" where
  "fill_buf n got s =
     (if length got \<ge> n then Filled got s
      else case s of
             [] \<Rightarrow> FillEof got
           | Pending # s \<Rightarrow> FillPending got s
           | ReadErr e # s \<Rightarrow> FillErr e got s
           | Seg d # s \<Rightarrow>
               (if d = [] then FillEof got
                else let k = n - length got
                     in fill_buf n (got @ take k d) (if length d \<le> k then s else Seg (drop k d) # s)))"
  by pat_completeness auto
termination
  by (relation "measure (\<lambda>(n, got, s). n - length got)") (auto simp: min_def simp flip: length_greater_0_conv)

datatype poll_result = PollPending | PollReady bytes | PollErr io_error

fun seg_bytes :: "sock_in \<Rightarrow> bytes" where
  "seg_bytes [] = []"
| "seg_bytes (Pending # s) = seg_bytes s"
| "seg_bytes (Seg d # s) = d @ seg_bytes s"
| "seg_bytes (ReadErr e # s) = seg_bytes s"

lemma fill_buf_Filled:
  "fill_buf n got s = Filled got' s' \<Longrightarrow> got' @ seg_bytes s' = got @ seg_bytes s \<and> n \<le> length got'"
proof (induction n got s rule: fill_buf.induct)
  case (1 n got s)
  show ?case
  proof (cases "length got \<ge> n")
    case True
    then show ?thesis using "1.prems" by (simp add: fill_buf.simps [of n got s])
  next
    case False
    with "1.prems" obtain d t where s: "s = Seg d # t" "d \<noteq> []"
      by (auto simp: fill_buf.simps [of n got s] split: list.splits sock_read.splits if_splits)
    let ?k = "n - length got"
    have "fill_buf n (got @ take ?k d) (if length d \<le> ?k then t else Seg (drop ?k d) # t) = Filled got' s'"
      using "1.prems" False s by (simp add: fill_buf.simps [of n got s] Let_def)
    from "1.IH" [OF False s(1) refl s(2) refl this] show ?thesis by (auto simp: s)
  qed
qed

text \<open>The loop of \<^verbatim>\<open>poll_read_decrypted\<close> for a caller with room for \<open>k\<close> bytes.\<close>

function poll_read_decrypted :: "'c tcp_cipher \<Rightarrow> nat \<Rightarrow> 'c ss2022_reader \<Rightarrow> sock_in \<Rightarrow> poll_result \<times> 'c ss2022_reader \<times> sock_in" where
  "poll_read_decrypted tc k r s =
     (case rd_state r of
        YieldingData data \<Rightarrow>
          (PollReady (take k data), r\<lparr>rd_state := (if length data \<le> k then ReadingLength [] else YieldingData (drop k data))\<rparr>, s)
      | ReadingLength got \<Rightarrow>
          (case fill_buf 18 got s of
             FillEof got' \<Rightarrow>
               (if got' = [] then PollReady [] else PollErr UnexpectedEof, r\<lparr>rd_state := ReadingLength got'\<rparr>, [])
           | FillPending got' s' \<Rightarrow> (PollPending, r\<lparr>rd_state := ReadingLength got'\<rparr>, s')
           | FillErr e got' s' \<Rightarrow> (PollErr e, r\<lparr>rd_state := ReadingLength got'\<rparr>, s')
           | Filled got' s' \<Rightarrow>
               (case tc_decrypt tc (rd_cipher r) got' of
                  None \<Rightarrow> (PollErr InvalidData, r\<lparr>rd_state := ReadingLength got'\<rparr>, s')
                | Some (plain, cipher) \<Rightarrow>
                    (let chunk_len = unat (be16 (plain ! 0) (plain ! 1))
                     in if chunk_len = 0 then poll_read_decrypted tc k (r\<lparr>rd_cipher := cipher, rd_state := ReadingLength []\<rparr>) s'
                        else poll_read_decrypted tc k (r\<lparr>rd_cipher := cipher, rd_state := ReadingData chunk_len []\<rparr>) s')))
      | ReadingData len got \<Rightarrow>
          (case fill_buf (len + 16) got s of
             FillEof got' \<Rightarrow> (PollErr UnexpectedEof, r\<lparr>rd_state := ReadingData len got'\<rparr>, [])
           | FillPending got' s' \<Rightarrow> (PollPending, r\<lparr>rd_state := ReadingData len got'\<rparr>, s')
           | FillErr e got' s' \<Rightarrow> (PollErr e, r\<lparr>rd_state := ReadingData len got'\<rparr>, s')
           | Filled got' s' \<Rightarrow>
               (case tc_decrypt tc (rd_cipher r) got' of
                  None \<Rightarrow> (PollErr InvalidData, r\<lparr>rd_state := ReadingData len got'\<rparr>, s')
                | Some (plain, cipher) \<Rightarrow>
                    poll_read_decrypted tc k (r\<lparr>rd_cipher := cipher, rd_state := YieldingData plain\<rparr>) s')))"
  by pat_completeness auto
termination
proof (relation "measure (\<lambda>(tc, k, r, s). length (seg_bytes s) + (case rd_state r of YieldingData d \<Rightarrow> 0 | ReadingLength g \<Rightarrow> length g | ReadingData n g \<Rightarrow> length g))",
    goal_cases)
  case (2 tc k r s got got' s' x plain cipher)
  from fill_buf_Filled [OF 2(2)] show ?case using 2(1) by (auto dest: arg_cong [where f = length])
next
  case (3 tc k r s got got' s' x plain cipher)
  from fill_buf_Filled [OF 3(2)] show ?case using 3(1) by (auto dest: arg_cong [where f = length])
next
  case (4 tc k r s len got got' s' x plain cipher)
  from fill_buf_Filled [OF 4(2)] show ?case using 4(1) by (auto dest: arg_cong [where f = length])
qed simp

section \<open>Writing\<close>

definition SS2022_MAX_CHUNK_LEN :: nat where "SS2022_MAX_CHUNK_LEN = 0xFFFF"

datatype sock_write = Took nat | WPending | WErr io_error

datatype push_result = Pushed | Blocked | PushErr io_error

text \<open>Writing what is pending, until all is gone, the socket is not ready or fails. Result: the bytes that went out, what is left.\<close>

fun push_out :: "bytes \<Rightarrow> sock_write list \<Rightarrow> bytes \<times> bytes \<times> push_result \<times> sock_write list" where
  "push_out [] evs = ([], [], Pushed, evs)"
| "push_out (b # p) [] = ([], b # p, Blocked, [])"
| "push_out (b # p) (WPending # evs) = ([], b # p, Blocked, evs)"
| "push_out (b # p) (WErr e # evs) = ([], b # p, PushErr e, evs)"
| "push_out (b # p) (Took n # evs) =
     (if n = 0 then ([], b # p, PushErr WriteZero, evs)
      else case push_out (drop n (b # p)) evs of (out, rest, res) \<Rightarrow> (take n (b # p) @ out, rest, res))"

record 'c ss2022_writer =
  wr_cipher :: 'c
  response_salt :: bytes
  request_salt :: bytes
  pending_buf :: bytes
  first_chunk :: bool

definition writer_new :: "'c \<Rightarrow> bytes \<Rightarrow> bytes \<Rightarrow> 'c ss2022_writer" where
  "writer_new cipher resp_salt req_salt =
     \<lparr>wr_cipher = cipher, response_salt = resp_salt, request_salt = req_salt, pending_buf = [], first_chunk = True\<rparr>"

definition u64_bytes :: "u64 \<Rightarrow> bytes" where "u64_bytes w = octets 8 w"

text \<open>What one chunk adds to the wire; \<open>None\<close> if the clock cannot be read for the header of the first one.\<close>

definition encrypt_next :: "'c tcp_cipher \<Rightarrow> u64 option \<Rightarrow> bytes \<Rightarrow> 'c ss2022_writer \<Rightarrow> 'c ss2022_writer option" where
  "encrypt_next tc now payload w =
     (let len = be16_bytes (of_nat (length payload))
      in if first_chunk w
         then map_option (\<lambda>t.
                let (fixed_header, c1) = tc_encrypt tc (wr_cipher w) ([1] @ u64_bytes t @ request_salt w @ len);
                    (data_chunk, c2) = tc_encrypt tc c1 payload
                in w\<lparr>wr_cipher := c2, pending_buf := pending_buf w @ response_salt w @ fixed_header @ data_chunk, first_chunk := False\<rparr>) now
         else let (len_chunk, c1) = tc_encrypt tc (wr_cipher w) len; (data_chunk, c2) = tc_encrypt tc c1 payload
              in Some (w\<lparr>wr_cipher := c2, pending_buf := pending_buf w @ len_chunk @ data_chunk\<rparr>))"

datatype write_result = WrPending | WrReady nat | WrErr io_error

definition poll_write_encrypted ::
    "'c tcp_cipher \<Rightarrow> u64 option \<Rightarrow> bytes \<Rightarrow> 'c ss2022_writer \<Rightarrow> sock_write list \<Rightarrow> write_result \<times> bytes \<times> 'c ss2022_writer \<times> sock_write list" where
  "poll_write_encrypted tc now buf w evs =
     (case push_out (pending_buf w) evs of
        (out, rest, Blocked, evs) \<Rightarrow> (WrPending, out, w\<lparr>pending_buf := rest\<rparr>, evs)
      | (out, rest, PushErr e, evs) \<Rightarrow> (WrErr e, out, w\<lparr>pending_buf := rest\<rparr>, evs)
      | (out, rest, Pushed, evs) \<Rightarrow>
          (if buf = [] then (WrReady 0, out, w\<lparr>pending_buf := []\<rparr>, evs)
           else let chunk_len = min (length buf) SS2022_MAX_CHUNK_LEN
                in case encrypt_next tc now (take chunk_len buf) (w\<lparr>pending_buf := []\<rparr>) of
                     None \<Rightarrow> (WrErr InvalidData, out, w\<lparr>pending_buf := []\<rparr>, evs)
                   | Some w' \<Rightarrow>
                       (case push_out (pending_buf w') evs of
                          (out', rest', PushErr e, evs) \<Rightarrow> (WrErr e, out @ out', w'\<lparr>pending_buf := rest'\<rparr>, evs)
                        | (out', rest', _, evs) \<Rightarrow> (WrReady chunk_len, out @ out', w'\<lparr>pending_buf := rest'\<rparr>, evs))))"

definition ss2022_poll_flush :: "'c ss2022_writer \<Rightarrow> sock_write list \<Rightarrow> write_result \<times> bytes \<times> 'c ss2022_writer \<times> sock_write list" where
  "ss2022_poll_flush w evs =
     (case push_out (pending_buf w) evs of
        (out, rest, Pushed, evs) \<Rightarrow> (WrReady 0, out, w\<lparr>pending_buf := []\<rparr>, evs)
      | (out, rest, Blocked, evs) \<Rightarrow> (WrPending, out, w\<lparr>pending_buf := rest\<rparr>, evs)
      | (out, rest, PushErr e, evs) \<Rightarrow> (WrErr e, out, w\<lparr>pending_buf := rest\<rparr>, evs))"

section \<open>Lemmas on nonces\<close>

lemma unat_carry: "c \<le> 1 \<Longrightarrow> unat (c + ucast (b :: u8) :: u16) = unat c + unat b"
proof -
  assume "c \<le> 1"
  then have c: "unat c \<le> 1" by (simp add: word_le_nat_alt)
  have u: "unat (ucast b :: u16) = unat b" using unat_u8_less [of b] by (simp add: unsigned_ucast_eq take_bit_eq_mod)
  have "unat c + unat (ucast b :: u16) < 2 ^ LENGTH(16)" unfolding u using c unat_u8_less [of b] by simp
  then show ?thesis unfolding u [symmetric] by (simp only: unat_add_lem)
qed

lemma carry_step:
  assumes "c \<le> 1"
  shows "(ucast (c + ucast (b :: u8) :: u16) :: u8) = b + ucast c"
    and "unat (drop_bit 8 (c + ucast b :: u16)) = (unat c + unat b) div 256"
proof -
  show "unat (drop_bit 8 (c + ucast b :: u16)) = (unat c + unat b) div 256"
    unfolding unat_drop_bit_eq unat_carry [OF assms] by (simp add: drop_bit_eq_div)
  have "unat c \<le> 1" using assms by (simp add: word_le_nat_alt)
  then have "unat (ucast c :: u8) = unat c" by (simp add: unsigned_ucast_eq take_bit_eq_mod)
  then have "unat (b + ucast c :: u8) = (unat b + unat c) mod 256" by (simp only: unat_word_ariths) simp
  moreover have "unat (ucast (c + ucast b :: u16) :: u8) = (unat c + unat b) mod 256"
    by (simp only: unsigned_ucast_eq take_bit_eq_mod unat_carry [OF assms]) simp
  ultimately have "unat (ucast (c + ucast b :: u16) :: u8) = unat (b + ucast c :: u8)" by (simp only: add.commute)
  then show "(ucast (c + ucast b :: u16) :: u8) = b + ucast c" by (simp add: word_unat_eq_iff)
qed

lemma carry_zero: "nonce_carry 0 bs = bs"
proof (induction bs)
  case (Cons b bs)
  have "drop_bit 8 (0 + ucast b :: u16) = 0" using carry_step(2) [of 0 b] unat_u8_less [of b] by (simp add: word_unat_eq_iff)
  then show ?case using carry_step(1) [of 0 b] Cons by (simp add: Let_def)
qed simp

lemma carry_one: "nonce_carry 1 bs = increment_nonce bs"
proof (induction bs)
  case (Cons b bs)
  have b: "(ucast (1 + ucast b :: u16) :: u8) = b + 1" using carry_step(1) [of 1 b] by simp
  have d: "unat (drop_bit 8 (1 + ucast b :: u16)) = (1 + unat b) div 256" using carry_step(2) [of 1 b] by simp
  show ?case
  proof (cases "b + 1 = 0")
    case True
    then have "b = - 1" by (simp add: eq_neg_iff_add_eq_0)
    then have "unat b = 255" by (simp add: unsigned_minus_1_eq_mask mask_eq_exp_minus_1)
    then have "drop_bit 8 (1 + ucast b :: u16) = 1" using d by (simp add: word_unat_eq_iff)
    then show ?thesis using True Cons b by (simp add: Let_def)
  next
    case False
    then have "1 + unat b < 256" using unat_plus_one_u8 [OF False] unat_u8_less [of "b + 1"] by simp
    then have "drop_bit 8 (1 + ucast b :: u16) = 0" using d by (simp add: word_unat_eq_iff)
    then show ?thesis using False b carry_zero by (simp add: Let_def)
  qed
qed simp

section \<open>Lemmas on reading\<close>

declare fill_buf.simps [simp del] poll_read_decrypted.simps [simp del]

text \<open>What the protocol relies on of the cipher: a sealed block is opened by a cipher in the same state, which ends in the same state.\<close>

definition tcp_ok :: "'c tcp_cipher \<Rightarrow> bool" where
  "tcp_ok tc \<longleftrightarrow> (\<forall>c p ct c'. tc_encrypt tc c p = (ct, c') \<longrightarrow> length ct = length p + 16 \<and> tc_decrypt tc c ct = Some (p, c'))"

fun chunk_wire :: "'c tcp_cipher \<Rightarrow> 'c \<Rightarrow> bytes list \<Rightarrow> bytes" where
  "chunk_wire tc c [] = []"
| "chunk_wire tc c (p # ps) =
     (let (l, c1) = tc_encrypt tc c (be16_bytes (of_nat (length p))); (d, c2) = tc_encrypt tc c1 p in l @ d @ chunk_wire tc c2 ps)"

definition sock_ok :: "sock_in \<Rightarrow> bool" where
  "sock_ok s \<longleftrightarrow> list_all (\<lambda>x. case x of Pending \<Rightarrow> True | Seg d \<Rightarrow> d \<noteq> [] | ReadErr e \<Rightarrow> False) s"

fun pendings :: "sock_in \<Rightarrow> nat" where
  "pendings [] = 0"
| "pendings (Pending # s) = Suc (pendings s)"
| "pendings (Seg d # s) = pendings s"
| "pendings (ReadErr e # s) = pendings s"

fun fill_post :: "nat \<Rightarrow> bytes \<Rightarrow> sock_in \<Rightarrow> fill_result \<Rightarrow> bool" where
  "fill_post n got s (Filled got' s') \<longleftrightarrow>
     length got' = n \<and> got' @ seg_bytes s' = got @ seg_bytes s \<and> sock_ok s' \<and> pendings s' = pendings s"
| "fill_post n got s (FillEof got') \<longleftrightarrow> length got' < n \<and> got' = got @ seg_bytes s"
| "fill_post n got s (FillPending got' s') \<longleftrightarrow>
     length got' < n \<and> got' @ seg_bytes s' = got @ seg_bytes s \<and> sock_ok s' \<and> pendings s' < pendings s"
| "fill_post n got s (FillErr e got' s') \<longleftrightarrow> False"

lemma fill_buf_post: "sock_ok s \<Longrightarrow> length got \<le> n \<Longrightarrow> fill_post n got s (fill_buf n got s)"
proof (induction n got s rule: fill_buf.induct)
  case (1 n got s)
  show ?case
  proof (cases "length got \<ge> n")
    case True
    then have "fill_buf n got s = Filled got s" by (simp add: fill_buf.simps [of n got s])
    then show ?thesis using "1.prems" True by simp
  next
    case False
    consider "s = []" | t where "s = Pending # t" | d t where "s = Seg d # t" "d \<noteq> []"
      using "1.prems"(1) by (cases s rule: seg_bytes.cases) (auto simp: sock_ok_def)
    then show ?thesis
    proof cases
      case 1
      then show ?thesis using False by (subst fill_buf.simps) simp
    next
      case 2
      then show ?thesis using False "1.prems" by (subst fill_buf.simps) (simp add: sock_ok_def)
    next
      case (3 d t)
      let ?k = "n - length got" and ?s = "if length d \<le> n - length got then t else Seg (drop (n - length got) d) # t"
      have "sock_ok ?s" "length (got @ take ?k d) \<le> n" using "1.prems" 3 False by (auto simp: sock_ok_def)
      from "1.IH" [OF False 3(1) refl 3(2) refl this]
      have "fill_post n (got @ take ?k d) ?s (fill_buf n (got @ take ?k d) ?s)" .
      moreover have "fill_buf n got s = fill_buf n (got @ take ?k d) ?s" using False 3 by (subst fill_buf.simps) (simp add: Let_def)
      moreover have "(got @ take ?k d) @ seg_bytes ?s = got @ seg_bytes s" "pendings ?s = pendings s" using 3 by auto
      ultimately show ?thesis by (cases "fill_buf n (got @ take ?k d) ?s") auto
    qed
  qed
qed

text \<open>The reader stands somewhere in the wire of the chunks \<open>ps\<close>; \<open>data\<close> is what it has still to deliver.\<close>

definition chunks_ok :: "bytes list \<Rightarrow> bool" where
  "chunks_ok ps \<longleftrightarrow> list_all (\<lambda>p. p \<noteq> [] \<and> length p \<le> 65535) ps"

definition reader_at :: "'c tcp_cipher \<Rightarrow> 'c ss2022_reader \<Rightarrow> sock_in \<Rightarrow> bytes \<Rightarrow> bool" where
  "reader_at tc r s data \<longleftrightarrow>
     sock_ok s \<and>
     (case rd_state r of
        YieldingData d \<Rightarrow> d \<noteq> [] \<and> (\<exists>ps. chunks_ok ps \<and> data = d @ concat ps \<and> seg_bytes s = chunk_wire tc (rd_cipher r) ps)
      | ReadingLength got \<Rightarrow>
          length got < 18 \<and> (\<exists>ps. chunks_ok ps \<and> data = concat ps \<and> got @ seg_bytes s = chunk_wire tc (rd_cipher r) ps)
      | ReadingData len got \<Rightarrow>
          (\<exists>p ps d c. len = length p \<and> chunks_ok (p # ps) \<and> data = p @ concat ps \<and> length got < len + 16 \<and>
             tc_encrypt tc (rd_cipher r) p = (d, c) \<and> got @ seg_bytes s = d @ chunk_wire tc c ps))"

text \<open>What a poll achieves: something of the data, or the end of the stream when there is none; or the socket made it wait.\<close>

fun poll_post :: "'c tcp_cipher \<Rightarrow> sock_in \<Rightarrow> bytes \<Rightarrow> poll_result \<times> 'c ss2022_reader \<times> sock_in \<Rightarrow> bool" where
  "poll_post tc s data (PollReady d, r', s') \<longleftrightarrow>
     (\<exists>data'. data = d @ data' \<and> (d = [] \<longrightarrow> data = []) \<and> reader_at tc r' s' data' \<and> pendings s' \<le> pendings s)"
| "poll_post tc s data (PollPending, r', s') \<longleftrightarrow> reader_at tc r' s' data \<and> pendings s' < pendings s"
| "poll_post tc s data (PollErr e, r', s') \<longleftrightarrow> False"

lemma poll_post_mono: "poll_post tc s' data x \<Longrightarrow> pendings s' \<le> pendings s \<Longrightarrow> poll_post tc s data x"
  by (cases x; cases "fst x") auto

lemma poll_yield:
  assumes "reader_at tc r s data" and "rd_state r = YieldingData d" and "0 < k"
  shows "poll_post tc s data (poll_read_decrypted tc k r s)"
proof -
  obtain ps where p: "d \<noteq> []" "chunks_ok ps" "data = d @ concat ps" "seg_bytes s = chunk_wire tc (rd_cipher r) ps" "sock_ok s"
    using assms(1,2) by (auto simp: reader_at_def)
  let ?r = "r\<lparr>rd_state := (if length d \<le> k then ReadingLength [] else YieldingData (drop k d))\<rparr>"
  have "poll_read_decrypted tc k r s = (PollReady (take k d), ?r, s)" using assms(2) by (subst poll_read_decrypted.simps) simp
  moreover have "reader_at tc ?r s (drop k d @ concat ps)" using p by (auto simp: reader_at_def)
  moreover have "take k d \<noteq> []" "data = take k d @ drop k d @ concat ps" using p(1,3) assms(3) by (simp_all flip: append_assoc)
  ultimately show ?thesis by auto
qed

lemma poll_data:
  assumes "tcp_ok tc" and "reader_at tc r s data" and "rd_state r = ReadingData len got" and "0 < k"
  shows "poll_post tc s data (poll_read_decrypted tc k r s)"
proof -
  obtain p ps d c where p: "len = length p" "chunks_ok (p # ps)" "data = p @ concat ps" "length got < len + 16"
      "tc_encrypt tc (rd_cipher r) p = (d, c)" "got @ seg_bytes s = d @ chunk_wire tc c ps" "sock_ok s"
    using assms(2,3) by (auto simp: reader_at_def)
  have t: "length d = length p + 16" "tc_decrypt tc (rd_cipher r) d = Some (p, c)" using assms(1) p(5) unfolding tcp_ok_def by blast+
  have post: "fill_post (len + 16) got s (fill_buf (len + 16) got s)" using fill_buf_post [OF p(7)] p(4) by simp
  show ?thesis
  proof (cases "fill_buf (len + 16) got s")
    case (Filled got' s')
    then have f: "length got' = len + 16" "got' @ seg_bytes s' = d @ chunk_wire tc c ps" "sock_ok s'" "pendings s' = pendings s"
      using post p(6) by simp_all
    then have "got' = d" "seg_bytes s' = chunk_wire tc c ps" using t(1) p(1) by auto
    then have "reader_at tc (r\<lparr>rd_cipher := c, rd_state := YieldingData p\<rparr>) s' data"
      using p f(3) by (auto simp: reader_at_def chunks_ok_def)
    from poll_yield [OF this _ assms(4)] have "poll_post tc s' data (poll_read_decrypted tc k (r\<lparr>rd_cipher := c, rd_state := YieldingData p\<rparr>) s')"
      by simp
    moreover have "poll_read_decrypted tc k r s = poll_read_decrypted tc k (r\<lparr>rd_cipher := c, rd_state := YieldingData p\<rparr>) s'"
      using assms(3) Filled \<open>got' = d\<close> t(2) by (subst poll_read_decrypted.simps) simp
    ultimately show ?thesis by (metis poll_post_mono f(4) order_refl)
  next
    case (FillEof got')
    then have "length (d @ chunk_wire tc c ps) < len + 16" using post p(6) by auto
    then show ?thesis using t(1) p(1) by simp
  next
    case (FillPending got' s')
    then show ?thesis using post p assms(3) by (subst poll_read_decrypted.simps) (auto simp: reader_at_def)
  next
    case (FillErr e got' s')
    then show ?thesis using post by simp
  qed
qed

lemma poll_length:
  assumes "tcp_ok tc" and "reader_at tc r s data" and "rd_state r = ReadingLength got" and "0 < k"
  shows "poll_post tc s data (poll_read_decrypted tc k r s)"
proof -
  obtain ps where p: "chunks_ok ps" "data = concat ps" "length got < 18" "got @ seg_bytes s = chunk_wire tc (rd_cipher r) ps" "sock_ok s"
    using assms(2,3) by (auto simp: reader_at_def)
  have post: "fill_post 18 got s (fill_buf 18 got s)" using fill_buf_post [OF p(5)] p(3) by simp
  show ?thesis
  proof (cases ps)
    case Nil
    then have e: "got = []" "seg_bytes s = []" using p(4) by auto
    show ?thesis
    proof (cases "fill_buf 18 got s")
      case (Filled got' s')
      then show ?thesis using post e by auto
    next
      case (FillEof got')
      then have "got' = []" using post e by simp
      then show ?thesis using assms(3) FillEof p Nil by (subst poll_read_decrypted.simps) (auto simp: reader_at_def sock_ok_def)
    next
      case (FillPending got' s')
      then show ?thesis using post p Nil assms(3) by (subst poll_read_decrypted.simps) (auto simp: reader_at_def)
    next
      case (FillErr e got' s')
      then show ?thesis using post by simp
    qed
  next
    case (Cons q qs)
    obtain l c1 where l: "tc_encrypt tc (rd_cipher r) (be16_bytes (of_nat (length q))) = (l, c1)" by fastforce
    obtain d c2 where d: "tc_encrypt tc c1 q = (d, c2)" by fastforce
    have w: "chunk_wire tc (rd_cipher r) ps = l @ d @ chunk_wire tc c2 qs" by (simp add: Cons l d)
    have t: "length l = 18" "tc_decrypt tc (rd_cipher r) l = Some (be16_bytes (of_nat (length q)), c1)"
      using assms(1) l unfolding tcp_ok_def by fastforce+
    show ?thesis
    proof (cases "fill_buf 18 got s")
      case (Filled got' s')
      then have f: "length got' = 18" "got' @ seg_bytes s' = l @ d @ chunk_wire tc c2 qs" "sock_ok s'" "pendings s' = pendings s"
        using post p(4) w by simp_all
      then have g: "got' = l" "seg_bytes s' = d @ chunk_wire tc c2 qs" using t(1) by auto
      have q: "q \<noteq> []" "length q \<le> 65535" using p(1) Cons by (simp_all add: chunks_ok_def)
      then have n: "unat (be16 (be16_bytes (of_nat (length q)) ! 0) (be16_bytes (of_nat (length q)) ! 1)) = length q"
        by (simp add: be16_bytes_def unat_of_nat_u16)
      let ?r = "r\<lparr>rd_cipher := c1, rd_state := ReadingData (length q) []\<rparr>"
      have "reader_at tc ?r s' data" using p Cons f(3) g(2) d by (auto simp: reader_at_def)
      from poll_data [OF assms(1) this _ assms(4)] have "poll_post tc s' data (poll_read_decrypted tc k ?r s')" by simp
      moreover have "poll_read_decrypted tc k r s = poll_read_decrypted tc k ?r s'"
        using assms(3) Filled g(1) t(2) n q(1) by (subst poll_read_decrypted.simps) (simp add: Let_def)
      ultimately show ?thesis by (metis poll_post_mono f(4) order_refl)
    next
      case (FillEof got')
      then show ?thesis using post p(4) w t(1) by auto
    next
      case (FillPending got' s')
      then show ?thesis using post p assms(3) by (subst poll_read_decrypted.simps) (auto simp: reader_at_def)
    next
      case (FillErr e got' s')
      then show ?thesis using post by simp
    qed
  qed
qed

lemma poll_step: "tcp_ok tc \<Longrightarrow> reader_at tc r s data \<Longrightarrow> 0 < k \<Longrightarrow> poll_post tc s data (poll_read_decrypted tc k r s)"
  using poll_yield poll_data poll_length by (cases "rd_state r") blast+

text \<open>A caller that polls with room for \<open>k > 0\<close> bytes each time: what it gets, and the error that ended it.\<close>

fun read_polls :: "'c tcp_cipher \<Rightarrow> nat list \<Rightarrow> 'c ss2022_reader \<Rightarrow> sock_in \<Rightarrow> io_error option \<times> bytes" where
  "read_polls tc [] r s = (None, [])"
| "read_polls tc (k # ks) r s =
     (case poll_read_decrypted tc k r s of
        (PollErr e, r', s') \<Rightarrow> (Some e, [])
      | (PollPending, r', s') \<Rightarrow> read_polls tc ks r' s'
      | (PollReady d, r', s') \<Rightarrow> (let (e, d') = read_polls tc ks r' s' in (e, d @ d')))"

lemma read_polls_at:
  assumes "tcp_ok tc"
  shows "reader_at tc r s data \<Longrightarrow> list_all ((<) 0) ks \<Longrightarrow>
         \<exists>n\<le>length data. read_polls tc ks r s = (None, take n data) \<and> (pendings s + length data \<le> length ks \<longrightarrow> n = length data)"
proof (induction ks arbitrary: r s data)
  case Nil
  show ?case by (rule exI [of _ 0]) simp
next
  case (Cons k ks)
  obtain x r' s' where x: "poll_read_decrypted tc k r s = (x, r', s')" by (metis prod_cases3)
  have post: "poll_post tc s data (x, r', s')" using poll_step [OF assms Cons.prems(1), of k] Cons.prems(2) x by simp
  have ks: "list_all ((<) 0) ks" using Cons.prems(2) by simp
  show ?case
  proof (cases x)
    case PollPending
    then have "reader_at tc r' s' data" "pendings s' < pendings s" using post by simp_all
    then show ?thesis using Cons.IH [OF _ ks] x PollPending by fastforce
  next
    case (PollReady d)
    then obtain data' where d: "data = d @ data'" "d = [] \<Longrightarrow> data = []" "reader_at tc r' s' data'" "pendings s' \<le> pendings s"
      using post by auto
    from Cons.IH [OF d(3) ks] obtain n where r: "read_polls tc ks r' s' = (None, take n data')"
        "n \<le> length data'" "pendings s' + length data' \<le> length ks \<Longrightarrow> n = length data'" by blast
    have "n = length data'" if "pendings s + length data \<le> Suc (length ks)"
      using r(2,3) d(1,2,4) that by (cases d) auto
    then show ?thesis using r(1,2) d(1) x PollReady by (intro exI [of _ "length d + n"]) (simp add: take_append)
  next
    case (PollErr e)
    then show ?thesis using post by simp
  qed
qed

section \<open>Lemmas on writing\<close>

lemma push_out_split:
  "push_out p evs = (out, rest, res, evs') \<Longrightarrow> out @ rest = p \<and> (res = Pushed \<longrightarrow> rest = [])"
proof (induction p evs arbitrary: out rest res evs' rule: push_out.induct)
  case (5 b p n evs)
  then show ?case by (fastforce split: if_splits prod.splits)
qed auto

text \<open>The wire of a response: what the writer owes for the chunks it has accepted, each with the clock at its time.\<close>

definition sent_wire :: "'c tcp_cipher \<Rightarrow> 'c ss2022_writer \<Rightarrow> (u64 \<times> bytes) list \<Rightarrow> bytes" where
  "sent_wire tc w acc =
     (if first_chunk w
      then case acc of
             [] \<Rightarrow> []
           | (t, p) # acc \<Rightarrow>
               (let (h, c1) = tc_encrypt tc (wr_cipher w) ([1] @ u64_bytes t @ request_salt w @ be16_bytes (of_nat (length p)));
                    (d, c2) = tc_encrypt tc c1 p
                in response_salt w @ h @ d @ chunk_wire tc c2 (map snd acc))
      else chunk_wire tc (wr_cipher w) (map snd acc))"

datatype wr_op = WrWrite u64 bytes | WrFlush

text \<open>A caller that writes and flushes: what went out, the chunks that were accepted, the writer after it; it stops at an error.\<close>

fun write_polls ::
    "'c tcp_cipher \<Rightarrow> wr_op list \<Rightarrow> 'c ss2022_writer \<Rightarrow> sock_write list \<Rightarrow> io_error option \<times> bytes \<times> (u64 \<times> bytes) list \<times> 'c ss2022_writer" where
  "write_polls tc [] w evs = (None, [], [], w)"
| "write_polls tc (WrWrite t buf # ops) w evs =
     (case poll_write_encrypted tc (Some t) buf w evs of
        (WrErr e, out, w', evs') \<Rightarrow> (Some e, out, [], w')
      | (WrPending, out, w', evs') \<Rightarrow> (let (e, out', acc, w'') = write_polls tc ops w' evs' in (e, out @ out', acc, w''))
      | (WrReady n, out, w', evs') \<Rightarrow>
          (let (e, out', acc, w'') = write_polls tc ops w' evs'
           in (e, out @ out', (if n = 0 then acc else (t, take n buf) # acc), w'')))"
| "write_polls tc (WrFlush # ops) w evs =
     (case ss2022_poll_flush w evs of
        (WrErr e, out, w', evs') \<Rightarrow> (Some e, out, [], w')
      | (_, out, w', evs') \<Rightarrow> (let (e, out', acc, w'') = write_polls tc ops w' evs' in (e, out @ out', acc, w'')))"

lemma sent_wire_pending [simp]: "sent_wire tc (w\<lparr>pending_buf := b\<rparr>) acc = sent_wire tc w acc"
  by (cases acc) (simp_all add: sent_wire_def split_def)

lemma encrypt_next_wire:
  assumes "encrypt_next tc (Some t) p w = Some w'"
  shows "pending_buf w' @ sent_wire tc w' acc = pending_buf w @ sent_wire tc w ((t, p) # acc)"
  using assms by (auto simp: encrypt_next_def sent_wire_def Let_def split: if_splits prod.splits)

lemma encrypt_next_total: "\<exists>w'. encrypt_next tc (Some t) p w = Some w'"
  by (simp add: encrypt_next_def Let_def split: prod.splits)

text \<open>One poll moves bytes from the debt to the wire and adds the debt of the chunk it accepts.\<close>

lemma poll_write_debt:
  assumes "poll_write_encrypted tc (Some t) buf w evs = (res, out, w', evs')"
  shows "case res of
           WrReady n \<Rightarrow> n = min (length buf) SS2022_MAX_CHUNK_LEN \<and>
             (\<forall>acc. out @ pending_buf w' @ sent_wire tc w' acc =
                    pending_buf w @ sent_wire tc w (if n = 0 then acc else (t, take n buf) # acc))
         | WrPending \<Rightarrow> \<forall>acc. out @ pending_buf w' @ sent_wire tc w' acc = pending_buf w @ sent_wire tc w acc
         | WrErr e \<Rightarrow> True"
proof -
  obtain o1 r1 p1 e1 where p1: "push_out (pending_buf w) evs = (o1, r1, p1, e1)" by (metis prod_cases4)
  note s1 = push_out_split [OF p1]
  show ?thesis
  proof (cases "p1 = Pushed \<and> buf \<noteq> []")
    case False
    then show ?thesis
      using assms p1 s1 by (cases p1) (auto simp: poll_write_encrypted_def)
  next
    case True
    define k where "k = min (length buf) SS2022_MAX_CHUNK_LEN"
    have k: "k \<noteq> 0" using True by (simp add: k_def SS2022_MAX_CHUNK_LEN_def min_def)
    obtain w1 where w1: "encrypt_next tc (Some t) (take k buf) (w\<lparr>pending_buf := []\<rparr>) = Some w1" using encrypt_next_total by blast
    obtain o2 r2 p2 e2 where p2: "push_out (pending_buf w1) e1 = (o2, r2, p2, e2)" by (metis prod_cases4)
    have debt: "o2 @ r2 @ sent_wire tc w1 acc = sent_wire tc w ((t, take k buf) # acc)" for acc
      using encrypt_next_wire [OF w1, of acc] push_out_split [OF p2] by (simp flip: append_assoc)
    have o1: "o1 = pending_buf w" using s1 True by auto
    have pw: "poll_write_encrypted tc (Some t) buf w evs =
        (case p2 of PushErr e \<Rightarrow> (WrErr e, o1 @ o2, w1\<lparr>pending_buf := r2\<rparr>, e2) | _ \<Rightarrow> (WrReady k, o1 @ o2, w1\<lparr>pending_buf := r2\<rparr>, e2))"
      using True p1 p2 w1 by (cases p2) (simp_all add: poll_write_encrypted_def k_def Let_def)
    show ?thesis
      using assms k debt o1 unfolding pw k_def [symmetric] by (cases p2) auto
  qed
qed

lemma poll_flush_debt:
  assumes "ss2022_poll_flush w evs = (res, out, w', evs')"
  shows "out @ pending_buf w' @ sent_wire tc w' acc = pending_buf w @ sent_wire tc w acc"
proof -
  obtain o1 r1 p1 e1 where p1: "push_out (pending_buf w) evs = (o1, r1, p1, e1)" by (metis prod_cases4)
  then show ?thesis using assms push_out_split [OF p1] by (cases p1) (auto simp: ss2022_poll_flush_def)
qed

lemma sent_wire_Nil [simp]: "sent_wire tc w [] = []"
  by (simp add: sent_wire_def)

lemma write_polls_debt:
  "write_polls tc ops w evs = (None, out, acc, w') \<Longrightarrow>
   out @ pending_buf w' = pending_buf w @ sent_wire tc w acc \<and> chunks_ok (map snd acc)"
proof (induction ops arbitrary: w evs out acc w')
  case Nil
  then show ?case by (simp add: chunks_ok_def)
next
  case (Cons op ops)
  have step: "out @ pending_buf w' = pending_buf w @ sent_wire tc w acc"
    if "write_polls tc ops w1 e1 = (None, o2, acc2, w')" "out = o1 @ o2"
       "o1 @ pending_buf w1 @ sent_wire tc w1 acc2 = pending_buf w @ sent_wire tc w acc" for w1 e1 o1 o2 acc2
    using Cons.IH [OF that(1)] that(2,3) by (metis append_assoc)
  show ?case
  proof (cases op)
    case (WrWrite t buf)
    obtain res o1 w1 e1 where p: "poll_write_encrypted tc (Some t) buf w evs = (res, o1, w1, e1)" by (metis prod_cases4)
    obtain e o2 acc2 w2 where r: "write_polls tc ops w1 e1 = (e, o2, acc2, w2)" by (metis prod_cases4)
    note debt = poll_write_debt [OF p]
    show ?thesis
    proof (cases res)
      case WrPending
      then have q: "out = o1 @ o2" "acc = acc2" "w' = w2" "e = None" using Cons.prems p r WrWrite by auto
      then show ?thesis using step [of w1 e1 o2 acc2 o1] Cons.IH [of w1 e1 o2 acc2 w'] r debt WrPending by simp
    next
      case (WrReady n)
      then have q: "out = o1 @ o2" "acc = (if n = 0 then acc2 else (t, take n buf) # acc2)" "w' = w2" "e = None"
        using Cons.prems p r WrWrite by auto
      have n: "n = min (length buf) 65535" using debt WrReady by (simp add: SS2022_MAX_CHUNK_LEN_def)
      have "chunks_ok (map snd acc)" using Cons.IH [of w1 e1 o2 acc2 w'] r q n by (auto simp: chunks_ok_def)
      then show ?thesis using step [of w1 e1 o2 acc2 o1] r debt WrReady q by simp
    next
      case (WrErr x)
      then show ?thesis using Cons.prems p WrWrite by simp
    qed
  next
    case WrFlush
    obtain res o1 w1 e1 where p: "ss2022_poll_flush w evs = (res, o1, w1, e1)" by (metis prod_cases4)
    obtain e o2 acc2 w2 where r: "write_polls tc ops w1 e1 = (e, o2, acc2, w2)" by (metis prod_cases4)
    have q: "out = o1 @ o2" "acc = acc2" "w' = w2" "e = None" using Cons.prems p r WrFlush by (cases res; simp)+
    then show ?thesis using step [of w1 e1 o2 acc2 o1] Cons.IH [of w1 e1 o2 acc2 w'] r poll_flush_debt [OF p] by simp
  qed
qed

section \<open>Properties\<close>

text \<open>C22: A reader started with an initial payload, on a socket that brings the sealed chunks \<open>ps\<close> in any segments with any number of waits in between, polled with
  room for at least one byte each time: no poll fails, what has been delivered is at every moment the beginning of the initial payload and the chunks, and after
  as many polls as the socket makes it wait plus the number of bytes, all of it has been delivered.\<close>

theorem ss2022_reader_delivers:
  assumes "tcp_ok tc" and "chunks_ok ps" and "sock_ok s" and "seg_bytes s = chunk_wire tc c ps" and "list_all ((<) 0) ks"
  shows "\<exists>n. read_polls tc ks (reader_new c initial) s = (None, take n (initial @ concat ps)) \<and>
           (pendings s + length (initial @ concat ps) \<le> length ks \<longrightarrow> n = length (initial @ concat ps))"
proof -
  have "reader_at tc (reader_new c initial) s (initial @ concat ps)"
    using assms(2-4) by (auto simp: reader_new_def reader_at_def)
  from read_polls_at [OF assms(1) this assms(5)] show ?thesis by blast
qed

definition toy_cipher :: "nat tcp_cipher" where
  "toy_cipher = \<lparr>tc_new = \<lambda>m k s. 0, tc_decrypt = \<lambda>c p. Some (take (length p - 16) p, Suc c),
     tc_encrypt = \<lambda>c p. (p @ replicate 16 (of_nat c), Suc c)\<rparr>"

lemma toy_cipher_ok: "tcp_ok toy_cipher"
  by (simp add: tcp_ok_def toy_cipher_def)

theorem ss2022_reader_delivers_witness:
  "\<exists>n. read_polls toy_cipher [1, 2, 3, 4] (reader_new 0 [7])
         [Seg (take 5 (chunk_wire toy_cipher 0 [[8, 9]])), Pending, Seg (drop 5 (chunk_wire toy_cipher 0 [[8, 9]]))] = (None, take n [7, 8, 9])
       \<and> n = 3"
proof -
  let ?w = "chunk_wire toy_cipher 0 [[8, 9]]"
  have l: "length ?w = 36" by (simp add: toy_cipher_def be16_bytes_def)
  have s: "sock_ok [Seg (take 5 ?w), Pending, Seg (drop 5 ?w)]" "seg_bytes [Seg (take 5 ?w), Pending, Seg (drop 5 ?w)] = ?w"
    using l by (auto simp: sock_ok_def)
  show ?thesis
    using ss2022_reader_delivers [OF toy_cipher_ok _ s, of "[1, 2, 3, 4]" "[7]"] by (simp add: chunks_ok_def)
qed

text \<open>Whatever the caller writes and flushes and however the socket takes it (in pieces, with waits), as long as no call fails, the bytes on the wire followed
  by the pending ones are the response of exactly the chunks the calls reported as accepted, in order: the response salt, the sealed header with the clock, the
  request salt and the length, the payload, then each further chunk with its sealed length. Nothing is lost or sent twice when a write is cut short. Each accepted chunk
  is one that the reader takes.\<close>

theorem ss2022_writer_exact:
  assumes "write_polls tc ops (writer_new c resp_salt req_salt) evs = (None, out, acc, w')"
  shows "out @ pending_buf w' =
           (case acc of
              [] \<Rightarrow> []
            | (t, p) # acc' \<Rightarrow>
                (let (h, c1) = tc_encrypt tc c ([1] @ u64_bytes t @ req_salt @ be16_bytes (of_nat (length p)));
                     (d, c2) = tc_encrypt tc c1 p
                 in resp_salt @ h @ d @ chunk_wire tc c2 (map snd acc')))
         \<and> chunks_ok (map snd acc)"
  using write_polls_debt [OF assms] by (cases acc) (simp_all add: writer_new_def sent_wire_def split_def)

theorem ss2022_writer_exact_witness:
  "\<exists>out acc w'. write_polls toy_cipher [WrFlush, WrWrite 5 [1, 2]] (writer_new 0 [9] [8]) [WPending] = (None, out, acc, w')
     \<and> acc = [(5, [1, 2])] \<and> out = [] \<and> length (pending_buf w') = 47"
proof -
  obtain out acc w' where r: "write_polls toy_cipher [WrFlush, WrWrite 5 [1, 2]] (writer_new 0 [9] [8]) [WPending] = (None, out, acc, w')"
    and a: "acc = [(5, [1, 2])]" "out = []"
    by (simp add: poll_write_encrypted_def ss2022_poll_flush_def encrypt_next_def writer_new_def toy_cipher_def SS2022_MAX_CHUNK_LEN_def Let_def)
  from ss2022_writer_exact [OF r] have "length (pending_buf w') = 47" by (simp add: a toy_cipher_def u64_bytes_def be16_bytes_def)
  then show ?thesis using r a by blast
qed

text \<open>The nonce counter of the stream is the one of the older AEAD streams: it adds one to the little-endian number in the twelve bytes, modulo \<open>2 ^ 96\<close>.\<close>

theorem ss2022_nonce_counts: "ss2022_increment nonce = increment_nonce nonce"
  by (simp add: ss2022_increment_def carry_one)

end
