(* ===== verification/Ss2022.thy ===== *)
theory Ss2022
  imports Ss2022_Stream
begin

text \<open>
  \<^verbatim>\<open>src/protocol/shadowsocks/ss2022.rs\<close> and the user table of \<^verbatim>\<open>server.rs\<close>: methods and keys, the credentials of the users and their index, and the
  server side of the TCP handshake. What the \<^verbatim>\<open>shadowsocks\<close>, \<^verbatim>\<open>blake3\<close>, \<^verbatim>\<open>aes\<close>, \<^verbatim>\<open>base64\<close>, \<^verbatim>\<open>uuid\<close> and \<^verbatim>\<open>md5\<close> crates compute is an argument
  (\<open>ss_crates\<close>, \<open>tcp_cipher\<close>); the nonce filter of \<^verbatim>\<open>Context\<close>, which all credentials of an inbound share, is a state that the handshake
  returns, with a clock that is the one the header is checked with.
\<close>

section \<open>Methods and keys\<close>

datatype ss_method = MNone | Legacy cipher_kind | Aead2022 kind2022

record 'a ss_crates =
  k_len :: "kind2022 \<Rightarrow> nat"
  s_len :: "kind2022 \<Rightarrow> nat"
  uuid_ok :: "string \<Rightarrow> bool"
  b64_std :: "string \<Rightarrow> bytes option"
  b64_url :: "string \<Rightarrow> bytes option"
  blake3 :: "bytes \<Rightarrow> bytes"
  derive_key :: "string \<Rightarrow> bytes \<Rightarrow> bytes"
  aes_dec :: "bytes \<Rightarrow> bytes \<Rightarrow> bytes"
  aes_enc :: "bytes \<Rightarrow> bytes \<Rightarrow> bytes"
  md5_digest :: "bytes \<Rightarrow> u128"
  read_address :: "bytes \<Rightarrow> ('a \<times> nat) option"
  write_address :: "'a \<Rightarrow> bytes"

definition method_from_str :: "string \<Rightarrow> ss_method res" where
  "method_from_str name =
     (if to_lowercase name = ''none'' \<or> to_lowercase name = ''plain'' then Ok MNone
      else case kind_from_str name of
             Some m \<Rightarrow> Ok (Legacy m)
           | None \<Rightarrow>
               (if name = ''2022-blake3-aes-128-gcm'' then Ok (Aead2022 Aes128Gcm2022)
                else if name = ''2022-blake3-aes-256-gcm'' then Ok (Aead2022 Aes256Gcm2022)
                else if name = ''2022-blake3-chacha20-poly1305'' then Ok (Aead2022 ChaCha20Poly1305_2022)
                else Err Unsupported))"

fun is_aead_2022 :: "ss_method \<Rightarrow> bool" where
  "is_aead_2022 (Aead2022 m) = True"
| "is_aead_2022 _ = False"

fun method_key_len :: "'a ss_crates \<Rightarrow> ss_method \<Rightarrow> nat" where
  "method_key_len cr MNone = 0"
| "method_key_len cr (Legacy m) = key_len m"
| "method_key_len cr (Aead2022 m) = k_len cr m"

text \<open>The part after the last colon, of a value that has one.\<close>

definition after_last_colon :: "string \<Rightarrow> string option" where
  "after_last_colon s = (if CHR 0x3A \<in> set s then Some (rev (takeWhile (\<lambda>c. c \<noteq> CHR 0x3A) (rev s))) else None)"

definition decode_key :: "'a ss_crates \<Rightarrow> string \<Rightarrow> ss_method \<Rightarrow> bytes res" where
  "decode_key cr value m =
     (let n = method_key_len cr m; value = trim value
      in if n = 0 then Ok []
         else if value = [] then Err InvalidData
         else let value = (case after_last_colon value of Some v \<Rightarrow> trim v | None \<Rightarrow> value)
              in if value = [] then Err InvalidData
                 else if uuid_ok cr value
                 then (if length value \<ge> n then Ok (take n (str_bytes value)) else Err InvalidData)
                 else let std_res = b64_std cr value; url_res = b64_url cr value;
                          fits = (\<lambda>r. case r of Some k \<Rightarrow> length k = n | None \<Rightarrow> False)
                      in if fits std_res then ok_or InvalidData std_res
                         else if fits url_res then ok_or InvalidData url_res
                         else if std_res \<noteq> None \<or> url_res \<noteq> None then Err InvalidData
                         else if length value \<ge> n then Ok (take n (str_bytes value))
                         else Err InvalidData)"

definition identity_hash_of :: "'a ss_crates \<Rightarrow> bytes \<Rightarrow> bytes" where
  "identity_hash_of cr key = take 16 (blake3 cr key)"

record ss2022_key =
  key_raw :: bytes
  key_identity :: bytes

definition key_parse :: "'a ss_crates \<Rightarrow> string \<Rightarrow> ss_method \<Rightarrow> ss2022_key res" where
  "key_parse cr b64 m = map_res (\<lambda>raw. \<lparr>key_raw = raw, key_identity = identity_hash_of cr raw\<rparr>) (decode_key cr b64 m)"

definition key_from_raw :: "'a ss_crates \<Rightarrow> bytes \<Rightarrow> ss_method \<Rightarrow> ss2022_key res" where
  "key_from_raw cr raw m =
     (if length raw \<noteq> method_key_len cr m then Err InvalidData
      else Ok \<lparr>key_raw = raw, key_identity = identity_hash_of cr raw\<rparr>)"

definition derive_identity_subkey :: "'a ss_crates \<Rightarrow> bytes \<Rightarrow> bytes \<Rightarrow> bytes" where
  "derive_identity_subkey cr server_key salt = derive_key cr ''shadowsocks 2022 identity subkey'' (server_key @ salt)"

text \<open>One block of AES; any other length of the key is a panic.\<close>

definition aes_block_encrypt :: "'a ss_crates \<Rightarrow> bytes \<Rightarrow> bytes \<Rightarrow> bytes res" where
  "aes_block_encrypt cr key block = (if length key = 16 \<or> length key = 32 then Ok (aes_enc cr key block) else Panic)"

definition aes_block_decrypt :: "'a ss_crates \<Rightarrow> bytes \<Rightarrow> bytes \<Rightarrow> bytes res" where
  "aes_block_decrypt cr key block = (if length key = 16 \<or> length key = 32 then Ok (aes_dec cr key block) else Panic)"

definition aes_block :: "'a ss_crates \<Rightarrow> bytes \<Rightarrow> bytes \<Rightarrow> bool \<Rightarrow> bytes res" where
  "aes_block cr key block encrypt =
     (if length block \<noteq> 16 then Panic
      else if encrypt then aes_block_encrypt cr key block else aes_block_decrypt cr key block)"

section \<open>Users\<close>

record ss_user =
  us_id :: u32
  us_uuid :: string
  us_password :: "string option"

record credential =
  cr_user :: ss_user
  cr_key :: bytes
  cr_identity :: bytes

definition credential_new :: "'a ss_crates \<Rightarrow> ss_user \<Rightarrow> ss_method \<Rightarrow> credential res" where
  "credential_new cr user m =
     (if m = MNone then Ok \<lparr>cr_user = user, cr_key = [], cr_identity = replicate 16 0\<rparr>
      else let raw_pwd = (case us_password user of
                            Some s \<Rightarrow> if trim s \<noteq> [] then s else us_uuid user
                          | None \<Rightarrow> us_uuid user)
           in and_then (if is_aead_2022 m then decode_key cr raw_pwd m
                        else Ok (evp_bytes_to_key (md5_digest cr) (str_bytes raw_pwd) (method_key_len cr m)))
                (\<lambda>key. Ok \<lparr>cr_user = user, cr_key = key, cr_identity = identity_hash_of cr key\<rparr>))"

record user_index =
  credentials :: "credential list"
  identity_map :: "bytes \<rightharpoonup> credential"
  valid_keys :: "(u32 \<times> bytes) set"

definition index_new :: "'a ss_crates \<Rightarrow> credential list \<Rightarrow> user_index" where
  "index_new cr creds =
     \<lparr>credentials = creds,
      identity_map = foldl (\<lambda>m c. m(identity_hash_of cr (cr_key c) \<mapsto> c)) Map.empty creds,
      valid_keys = foldl (\<lambda>s c. insert (us_id (cr_user c), blake3 cr (cr_key c)) s) {} creds\<rparr>"

text \<open>\<^verbatim>\<open>update_users\<close>: users whose key is invalid are left out, and all that share a key.\<close>

fun valid_credentials :: "'a ss_crates \<Rightarrow> ss_method \<Rightarrow> ss_user list \<Rightarrow> credential list" where
  "valid_credentials cr m [] = []"
| "valid_credentials cr m (u # us) =
     (case credential_new cr u m of Ok c \<Rightarrow> c # valid_credentials cr m us | _ \<Rightarrow> valid_credentials cr m us)"

definition update_users :: "'a ss_crates \<Rightarrow> ss_method \<Rightarrow> ss_user list \<Rightarrow> user_index" where
  "update_users cr m users =
     (let creds = valid_credentials cr m users
      in index_new cr (filter (\<lambda>c. length (filter (\<lambda>k. k = cr_key c) (map cr_key creds)) = 1) creds))"

section \<open>Handshake\<close>

definition SERVER_STREAM_TIMESTAMP_MAX_DIFF :: u64 where "SERVER_STREAM_TIMESTAMP_MAX_DIFF = 30"

definition abs_diff :: "u64 \<Rightarrow> u64 \<Rightarrow> u64" where
  "abs_diff a b = (if a \<le> b then b - a else a - b)"

type_synonym 'c resolved = "credential \<times> 'c \<times> bytes"

text \<open>Does the key open the block, as a header of type 0?\<close>

definition try_key :: "'c tcp_cipher \<Rightarrow> kind2022 \<Rightarrow> bytes \<Rightarrow> bytes \<Rightarrow> bytes \<Rightarrow> ('c \<times> bytes) option" where
  "try_key tc m key salt block =
     (case tc_decrypt tc (tc_new tc m key salt) block of
        Some (header, cipher) \<Rightarrow> if header ! 0 = 0 then Some (cipher, header) else None
      | None \<Rightarrow> None)"

fun try_users :: "'c tcp_cipher \<Rightarrow> kind2022 \<Rightarrow> credential list \<Rightarrow> bytes \<Rightarrow> bytes \<Rightarrow> 'c resolved option" where
  "try_users tc m [] salt block = None"
| "try_users tc m (c # cs) salt block =
     (case try_key tc m (cr_key c) salt block of
        Some (cipher, header) \<Rightarrow> Some (c, cipher, header)
      | None \<Rightarrow> try_users tc m cs salt block)"

definition default_credential :: "user_index \<Rightarrow> bytes \<Rightarrow> credential" where
  "default_credential users skey =
     (case credentials users of
        c # _ \<Rightarrow> c
      | [] \<Rightarrow> \<lparr>cr_user = \<lparr>us_id = 0, us_uuid = [], us_password = None\<rparr>, cr_key = skey, cr_identity = replicate 16 0\<rparr>)"

definition try_server_key :: "'c tcp_cipher \<Rightarrow> kind2022 \<Rightarrow> bytes option \<Rightarrow> user_index \<Rightarrow> bytes \<Rightarrow> bytes \<Rightarrow> 'c resolved option" where
  "try_server_key tc m server_key users salt block =
     (case server_key of
        None \<Rightarrow> None
      | Some skey \<Rightarrow>
          map_option (\<lambda>(cipher, header). (default_credential users skey, cipher, header)) (try_key tc m skey salt block))"

definition try_identity :: "'a ss_crates \<Rightarrow> 'c tcp_cipher \<Rightarrow> kind2022 \<Rightarrow> bytes option \<Rightarrow> user_index \<Rightarrow> bytes \<Rightarrow> bytes \<Rightarrow> bytes \<Rightarrow> 'c resolved option res" where
  "try_identity cr tc m server_key users salt eih_block block =
     (case server_key of
        None \<Rightarrow> Ok None
      | Some skey \<Rightarrow>
          (let id_subkey = derive_identity_subkey cr skey salt
           in and_then (aes_block_decrypt cr (take (min (length skey) (length id_subkey)) id_subkey) eih_block) (\<lambda>identity.
                Ok (case identity_map users identity of
                      None \<Rightarrow> None
                    | Some c \<Rightarrow> map_option (\<lambda>(cipher, header). (c, cipher, header)) (try_key tc m (cr_key c) salt block)))))"

text \<open>Who is it? First the 27 bytes as they are, then as an identity block and the beginning of the header.\<close>

definition resolve_request :: "'a ss_crates \<Rightarrow> 'c tcp_cipher \<Rightarrow> kind2022 \<Rightarrow> bytes option \<Rightarrow> user_index \<Rightarrow> bytes \<Rightarrow> bytes \<Rightarrow> bytes \<Rightarrow> ('c resolved option \<times> bytes) res" where
  "resolve_request cr tc m server_key users salt first_27 s =
     (case or_else (try_users tc m (credentials users) salt first_27) (try_server_key tc m server_key users salt first_27) of
        Some r \<Rightarrow> Ok (Some r, s)
      | None \<Rightarrow>
          and_then (read_exact 16 s) (\<lambda>(next_16, s).
          let block = drop 16 first_27 @ next_16
          in and_then (try_identity cr tc m server_key users salt (take 16 first_27) block) (\<lambda>r.
             Ok (or_else r (or_else (try_users tc m (credentials users) salt block) (try_server_key tc m server_key users salt block)), s))))"

record 'c ss2022_stream =
  st_inner :: bytes
  st_reader :: "'c ss2022_reader"
  st_writer :: "'c ss2022_writer"

text \<open>The variable header: the target address, the padding, the first payload.\<close>

definition parse_variable_header :: "'a ss_crates \<Rightarrow> bytes \<Rightarrow> ('a \<times> bytes) res" where
  "parse_variable_header cr body =
     and_then (ok_or Other (read_address cr body)) (\<lambda>(address, offset).
       if length body < offset + 2 then Err InvalidData
       else let padding = unat (be16 (body ! offset) (body ! (offset + 1))); payload_start = offset + 2 + padding
            in if length body < payload_start then Err InvalidData
               else if padding = 0 \<and> drop payload_start body = [] then Err InvalidData
               else Ok (address, drop payload_start body))"

definition finish_handshake ::
    "'a ss_crates \<Rightarrow> 'c tcp_cipher \<Rightarrow> (u64 \<Rightarrow> 'x \<Rightarrow> bytes \<Rightarrow> 'x option) \<Rightarrow> kind2022 \<Rightarrow> u64 option \<Rightarrow> bytes \<Rightarrow> 'x \<Rightarrow> bytes \<Rightarrow> 'c resolved \<Rightarrow> bytes \<Rightarrow>
     (credential \<times> 'c ss2022_stream \<times> 'a) res \<times> 'x" where
  "finish_handshake cr tc check_nonce_replay m now resp_salt x salt rslv s =
     (case rslv of (c, cipher, fixed_header) \<Rightarrow>
        if fixed_header ! 0 \<noteq> 0 then (Err InvalidData, x)
        else case now of
               None \<Rightarrow> (Err InvalidData, x)
             | Some t \<Rightarrow>
                 (if abs_diff t (be_word (take 8 (drop 1 fixed_header))) > SERVER_STREAM_TIMESTAMP_MAX_DIFF then (Err InvalidData, x)
                  else let var_len = unat (be16 (fixed_header ! 9) (fixed_header ! 10))
                       in case read_exact (var_len + 16) s of
                            Ok (body, s) \<Rightarrow>
                              (case tc_decrypt tc cipher body of
                                 None \<Rightarrow> (Err InvalidData, x)
                               | Some (body, cipher) \<Rightarrow>
                                   (case parse_variable_header cr body of
                                      Ok (address, initial_payload) \<Rightarrow>
                                        (case check_nonce_replay t x salt of
                                           None \<Rightarrow> (Err Other, x)
                                         | Some x \<Rightarrow>
                                             (Ok (c, \<lparr>st_inner = s, st_reader = reader_new cipher initial_payload,
                                                      st_writer = writer_new (tc_new tc m (cr_key c) resp_salt) resp_salt salt\<rparr>, address), x))
                                    | Err e \<Rightarrow> (Err e, x)
                                    | Panic \<Rightarrow> (Panic, x)))
                          | Err e \<Rightarrow> (Err e, x)
                          | Panic \<Rightarrow> (Panic, x)))"

definition handshake ::
    "'a ss_crates \<Rightarrow> 'c tcp_cipher \<Rightarrow> (u64 \<Rightarrow> 'x \<Rightarrow> bytes \<Rightarrow> 'x option) \<Rightarrow> ss_method \<Rightarrow> bytes option \<Rightarrow> user_index \<Rightarrow> u64 option \<Rightarrow> bytes \<Rightarrow> 'x \<Rightarrow> bytes \<Rightarrow>
     (credential \<times> 'c ss2022_stream \<times> 'a) res \<times> 'x" where
  "handshake cr tc check_nonce_replay method server_key users now resp_salt x s =
     (case method of
        Aead2022 m \<Rightarrow>
          (case read_exact (s_len cr m) s of
             Ok (salt, s) \<Rightarrow>
               (if credentials users = [] then (Err PermissionDenied, x)
                else case and_then (read_exact 27 s) (\<lambda>(first_27, s). resolve_request cr tc m server_key users salt first_27 s) of
                       Ok (Some r, s) \<Rightarrow> finish_handshake cr tc check_nonce_replay m now resp_salt x salt r s
                     | Ok (None, s) \<Rightarrow> (Err InvalidData, x)
                     | Err e \<Rightarrow> (Err e, x)
                     | Panic \<Rightarrow> (Panic, x))
           | Err e \<Rightarrow> (Err e, x)
           | Panic \<Rightarrow> (Panic, x))
      | _ \<Rightarrow> (Err InvalidData, x))"

section \<open>Lemmas on keys and users\<close>

lemma decode_key_length: "decode_key cr v m = Ok k \<Longrightarrow> length k = method_key_len cr m"
  by (auto simp: decode_key_def Let_def str_bytes_def split: if_splits option.splits)

lemma decode_key_not_Panic [simp]: "decode_key cr v m \<noteq> Panic"
  by (simp add: decode_key_def Let_def)

lemma credential_new_ok:
  "credential_new cr u m = Ok c \<Longrightarrow> cr_user c = u \<and> length (cr_key c) = method_key_len cr m"
  by (auto simp: credential_new_def Let_def evp_bytes_to_key_def evp_loop_length split: if_splits dest: decode_key_length)

lemma valid_credentials_iff: "c \<in> set (valid_credentials cr m us) \<longleftrightarrow> (\<exists>u\<in>set us. credential_new cr u m = Ok c)"
  by (induction us) (auto split: res.splits)

lemma distinct_unshared: "distinct (map f (filter (\<lambda>x. length (filter (\<lambda>k. k = f x) (map f xs)) = 1) xs))"
proof -
  have uniq: "distinct (map f (filter P ys))" if "\<And>x. P x \<Longrightarrow> length (filter (\<lambda>k. k = f x) (map f ys)) \<le> 1" for P ys
    using that
  proof (induction ys)
    case (Cons y ys)
    have "f y \<notin> f ` {x \<in> set ys. P x}" if "P y"
      using Cons.prems [OF that] by (auto simp: filter_empty_conv)
    moreover have "length (filter (\<lambda>k. k = f x) (map f ys)) \<le> 1" if "P x" for x
      using Cons.prems [OF that] by (auto split: if_splits)
    ultimately show ?case using Cons.IH by auto
  qed simp
  show ?thesis by (rule uniq) (simp only: order_refl)
qed

lemma update_users_credentials:
  "c \<in> set (credentials (update_users cr m us)) \<Longrightarrow> \<exists>u\<in>set us. credential_new cr u m = Ok c"
  by (simp add: update_users_def index_new_def Let_def flip: valid_credentials_iff)

lemma update_users_distinct: "distinct (map cr_key (credentials (update_users cr m us)))"
  unfolding update_users_def index_new_def Let_def user_index.select_convs by (rule distinct_unshared)

lemma identity_fold:
  "foldl (\<lambda>m c. m(h c \<mapsto> c)) m0 cs i = Some c \<Longrightarrow> (c \<in> set cs \<and> h c = i) \<or> m0 i = Some c"
  by (induction cs arbitrary: m0) (fastforce split: if_splits)+

lemma identity_fold_unique:
  "c \<in> set cs \<Longrightarrow> inj_on h (set cs) \<Longrightarrow> foldl (\<lambda>m c. m(h c \<mapsto> c)) m0 cs (h c) = Some c"
proof (induction cs arbitrary: m0)
  case (Cons d cs)
  show ?case
  proof (cases "c \<in> set cs")
    case True
    then show ?thesis using Cons by (simp add: inj_on_def)
  next
    case False
    then have "c = d" "\<forall>c'\<in>set cs. h c' \<noteq> h d" using Cons.prems by (auto simp: inj_on_def)
    moreover have "foldl (\<lambda>m c. m(h c \<mapsto> c)) m1 cs i = m1 i" if "\<forall>c'\<in>set cs. h c' \<noteq> i" for m1 :: "'b \<rightharpoonup> 'a" and i
      using that by (induction cs arbitrary: m1) auto
    ultimately show ?thesis by (simp del: fun_upd_apply) simp
  qed
qed simp

lemma identity_map_ok:
  "identity_map (index_new cr cs) i = Some c \<Longrightarrow> c \<in> set cs \<and> identity_hash_of cr (cr_key c) = i"
  using identity_fold [of "\<lambda>c. identity_hash_of cr (cr_key c)" Map.empty cs i c] by (auto simp: index_new_def)

section \<open>Lemmas on the handshake\<close>

lemma abs_diff_le: "abs_diff a b \<le> SERVER_STREAM_TIMESTAMP_MAX_DIFF \<longleftrightarrow> unat a \<le> unat b + 30 \<and> unat b \<le> unat a + 30"
proof (cases "a \<le> b")
  case True
  then show ?thesis by (auto simp: abs_diff_def SERVER_STREAM_TIMESTAMP_MAX_DIFF_def word_le_nat_alt unat_sub)
next
  case False
  then have "b \<le> a" by simp
  then show ?thesis using False by (auto simp: abs_diff_def SERVER_STREAM_TIMESTAMP_MAX_DIFF_def word_le_nat_alt unat_sub)
qed

text \<open>A resolved request: the key that opened the header is the user's, or the server's and then the user is the first one.\<close>

definition opened_by :: "'c tcp_cipher \<Rightarrow> kind2022 \<Rightarrow> bytes option \<Rightarrow> user_index \<Rightarrow> bytes \<Rightarrow> bytes \<Rightarrow> 'c resolved \<Rightarrow> bool" where
  "opened_by tc m server_key users salt block r \<longleftrightarrow>
     (case r of (c, cipher, header) \<Rightarrow>
        \<exists>key. (key = cr_key c \<and> c \<in> set (credentials users) \<or> server_key = Some key \<and> c = default_credential users key) \<and>
          tc_decrypt tc (tc_new tc m key salt) block = Some (header, cipher) \<and> header ! 0 = 0)"

lemma try_key_Some: "try_key tc m key salt block = Some (cipher, header) \<longleftrightarrow>
    tc_decrypt tc (tc_new tc m key salt) block = Some (header, cipher) \<and> header ! 0 = 0"
  by (auto simp: try_key_def split: option.splits)

lemma try_users_Some:
  "try_users tc m cs salt block = Some (c, cipher, header) \<Longrightarrow>
   c \<in> set cs \<and> tc_decrypt tc (tc_new tc m (cr_key c) salt) block = Some (header, cipher) \<and> header ! 0 = 0"
  by (induction cs) (auto simp: try_key_Some split: option.splits)

lemma try_users_opened: "try_users tc m (credentials users) salt block = Some r \<Longrightarrow> opened_by tc m sk users salt block r"
  by (cases r) (auto simp: opened_by_def dest: try_users_Some)

lemma try_server_key_opened: "try_server_key tc m sk users salt block = Some r \<Longrightarrow> opened_by tc m sk users salt block r"
  by (auto simp: try_server_key_def opened_by_def try_key_Some split: option.splits)

lemma try_identity_opened:
  assumes "try_identity cr tc m sk users salt eih block = Ok (Some r)" and "users = index_new cr cs"
  shows "opened_by tc m sk users salt block r"
proof -
  have "c \<in> set (credentials users)" if "identity_map users i = Some c" for i c
    using identity_map_ok [of cr cs i c] that assms(2) by (simp add: index_new_def)
  then show ?thesis
    using assms(1) by (auto simp: try_identity_def opened_by_def try_key_Some Let_def split: option.splits)
qed

lemma or_else_Some: "or_else a b = Some x \<longleftrightarrow> a = Some x \<or> a = None \<and> b = Some x"
  by (cases a) (auto simp: or_else_def)

lemma resolve_opened:
  assumes "resolve_request cr tc m sk users salt first_27 s = Ok (Some r, s')" and "users = index_new cr cs" and "length first_27 = 27"
  shows "(s' = s \<and> opened_by tc m sk users salt first_27 r) \<or>
         (s' = drop 16 s \<and> opened_by tc m sk users salt (drop 16 first_27 @ take 16 s) r)"
  using assms(1) unfolding resolve_request_def
  by (auto simp: or_else_Some Let_def split: option.splits intro: try_users_opened try_server_key_opened try_identity_opened [OF _ assms(2)])

lemma finish_Ok:
  assumes "finish_handshake cr tc chk m now resp_salt x salt (c, cipher, header) s = (Ok (c', st, addr), x')"
  shows "\<exists>t. now = Some t \<and> c' = c \<and> header ! 0 = 0 \<and>
           abs_diff t (be_word (take 8 (drop 1 header))) \<le> SERVER_STREAM_TIMESTAMP_MAX_DIFF \<and> chk t x salt = Some x'"
  using assms by (auto simp: finish_handshake_def Let_def split: if_splits option.splits res.splits prod.splits)

lemma finish_error_keeps:
  assumes "finish_handshake cr tc chk m now resp_salt x salt (c, cipher, header) s = (r, x')" and "\<And>v. r \<noteq> Ok v"
  shows "x' = x"
  using assms by (auto simp: finish_handshake_def Let_def split: if_splits option.splits res.splits prod.splits)

text \<open>What the handshake reads of the stream before it knows who it is.\<close>

lemma handshake_Ok_resolve:
  assumes "handshake cr tc chk (Aead2022 m) sk users now resp_salt x s = (Ok (c, st, addr), x')"
  shows "\<exists>cipher header s'. resolve_request cr tc m sk users (take (s_len cr m) s) (take 27 (drop (s_len cr m) s)) (drop (s_len cr m + 27) s) =
             Ok (Some (c, cipher, header), s') \<and> s_len cr m + 27 \<le> length s \<and>
           finish_handshake cr tc chk m now resp_salt x (take (s_len cr m) s) (c, cipher, header) s' = (Ok (c, st, addr), x')"
proof -
  obtain salt s1 where s1: "read_exact (s_len cr m) s = Ok (salt, s1)"
    using assms by (auto simp: handshake_def split: res.splits prod.splits)
  obtain r s' where r: "and_then (read_exact 27 s1) (\<lambda>(first_27, s). resolve_request cr tc m sk users salt first_27 s) = Ok (Some r, s')"
      "finish_handshake cr tc chk m now resp_salt x salt r s' = (Ok (c, st, addr), x')"
    using assms s1 by (auto simp: handshake_def simp del: and_then_Ok_iff read_exact_Ok_iff split: res.splits prod.splits if_splits option.splits)
  obtain c' cipher header where [simp]: "r = (c', cipher, header)" by (metis prod_cases3)
  have "c' = c" using finish_Ok r(2) by fastforce
  then show ?thesis using r s1 by (auto simp: drop_drop add.commute)
qed

lemma update_users_index: "\<exists>cs. update_users cr m us = index_new cr cs"
  by (auto simp: update_users_def Let_def)

section \<open>A client\<close>

text \<open>What a client of the protocol sends: salt, sealed fixed header, sealed variable header.\<close>

definition var_header :: "'a ss_crates \<Rightarrow> 'a \<Rightarrow> bytes \<Rightarrow> bytes \<Rightarrow> bytes" where
  "var_header cr addr padding payload = write_address cr addr @ be16_bytes (of_nat (length padding)) @ padding @ payload"

definition fixed_header_of :: "u64 \<Rightarrow> bytes \<Rightarrow> bytes" where
  "fixed_header_of t vh = [0] @ u64_bytes t @ be16_bytes (of_nat (length vh))"

definition address_ok :: "'a ss_crates \<Rightarrow> 'a \<Rightarrow> bool" where
  "address_ok cr a \<longleftrightarrow> (\<forall>rest. read_address cr (write_address cr a @ rest) = Some (a, length (write_address cr a)))"

text \<open>A block sealed with one of the keys is opened by no other of them.\<close>

definition keys_separate :: "'c tcp_cipher \<Rightarrow> kind2022 \<Rightarrow> bytes \<Rightarrow> bytes set \<Rightarrow> bool" where
  "keys_separate tc m salt K \<longleftrightarrow>
     (\<forall>k\<in>K. \<forall>k'\<in>K. k \<noteq> k' \<longrightarrow> (\<forall>p. tc_decrypt tc (tc_new tc m k' salt) (fst (tc_encrypt tc (tc_new tc m k salt) p)) = None))"

lemma parse_var_header:
  assumes "address_ok cr addr" and "length padding < 65536" and "padding \<noteq> [] \<or> payload \<noteq> []"
  shows "parse_variable_header cr (var_header cr addr padding payload) = Ok (addr, payload)"
  using assms by (auto simp: parse_variable_header_def var_header_def address_ok_def Let_def be16_bytes_def nth_append unat_of_nat_u16)

lemma length_u64_bytes [simp]: "length (u64_bytes w) = 8"
  by (simp add: u64_bytes_def)

lemma be_word_u64_bytes [simp]: "be_word (u64_bytes w) = w"
proof -
  have "be_word (octets 8 w) = take_bit (8 * 8) w" by (rule be_word_octets)
  moreover have "take_bit 64 w = w" using take_bit_length_eq [of w] by simp
  ultimately show ?thesis by (simp add: u64_bytes_def)
qed

lemma fixed_header_fields:
  assumes "length vh < 65536"
  shows "fixed_header_of t vh ! 0 = 0" "take 8 (drop 1 (fixed_header_of t vh)) = u64_bytes t"
    "unat (be16 (fixed_header_of t vh ! 9) (fixed_header_of t vh ! 10)) = length vh" "length (fixed_header_of t vh) = 11"
proof -
  have "(u64_bytes t @ be16_bytes w) ! 8 = ucast (drop_bit 8 w)" "(u64_bytes t @ be16_bytes w) ! 9 = ucast w" for w
    by (simp_all add: nth_append be16_bytes_def)
  then have "fixed_header_of t vh ! 9 = ucast (drop_bit 8 (of_nat (length vh) :: u16))" "fixed_header_of t vh ! 10 = ucast (of_nat (length vh) :: u16)"
    by (simp_all add: fixed_header_of_def)
  then show "unat (be16 (fixed_header_of t vh ! 9) (fixed_header_of t vh ! 10)) = length vh"
    using assms by (simp add: unat_of_nat_u16)
qed (simp_all add: fixed_header_of_def)

lemma finish_client:
  assumes "tcp_ok tc" and "tc_encrypt tc c1 (var_header cr addr padding payload) = (b, c2)" and "address_ok cr addr"
    and "padding \<noteq> [] \<or> payload \<noteq> []" and "length (var_header cr addr padding payload) < 65536"
    and "abs_diff now t \<le> SERVER_STREAM_TIMESTAMP_MAX_DIFF" and "chk now x salt = Some x'"
  shows "finish_handshake cr tc chk m (Some now) resp_salt x salt (c, c1, fixed_header_of t (var_header cr addr padding payload)) (b @ rest) =
           (Ok (c, \<lparr>st_inner = rest, st_reader = reader_new c2 payload,
                    st_writer = writer_new (tc_new tc m (cr_key c) resp_salt) resp_salt salt\<rparr>, addr), x')"
proof -
  let ?vh = "var_header cr addr padding payload"
  have b: "length b = length ?vh + 16" "tc_decrypt tc c1 b = Some (?vh, c2)" using assms(1,2) unfolding tcp_ok_def by blast+
  have "length padding < 65536" using assms(5) by (simp add: var_header_def)
  note p = parse_var_header [OF assms(3) this assms(4)]
  note f = fixed_header_fields [OF assms(5), of t]
  have "read_exact (length ?vh + 16) (b @ rest) = Ok (b, rest)" using b(1) by simp
  then show ?thesis
    using assms(6,7) f p b(2) by (simp add: finish_handshake_def not_less [symmetric] del: read_exact_Ok_iff)
qed

lemma try_key_client:
  assumes "tcp_ok tc" and "tc_encrypt tc (tc_new tc m key salt) (fixed_header_of t vh) = (h, c1)"
  shows "try_key tc m key salt h = Some (c1, fixed_header_of t vh)" "length h = 27"
proof -
  have "length h = length (fixed_header_of t vh) + 16" "tc_decrypt tc (tc_new tc m key salt) h = Some (fixed_header_of t vh, c1)"
    using assms unfolding tcp_ok_def by blast+
  then show "try_key tc m key salt h = Some (c1, fixed_header_of t vh)" "length h = 27"
    by (simp_all add: try_key_Some fixed_header_of_def)
qed

lemma try_key_other:
  assumes "keys_separate tc m salt K" and "key \<in> K" and "key' \<in> K" and "key \<noteq> key'" and "tc_encrypt tc (tc_new tc m key salt) p = (h, c1)"
  shows "try_key tc m key' salt h = None"
proof -
  have "tc_decrypt tc (tc_new tc m key' salt) (fst (tc_encrypt tc (tc_new tc m key salt) p)) = None"
    using assms(1-4) unfolding keys_separate_def by blast
  then show ?thesis using assms(5) by (simp add: try_key_def)
qed


lemma try_users_none: "(\<And>c. c \<in> set cs \<Longrightarrow> try_key tc m (cr_key c) salt h = None) \<Longrightarrow> try_users tc m cs salt h = None"
  by (induction cs) auto

lemma handshake_resolved:
  assumes "length salt = s_len cr m" and "credentials users \<noteq> []" and "length first_27 = 27"
    and "resolve_request cr tc m sk users salt first_27 s = Ok (Some r, s')"
  shows "handshake cr tc chk (Aead2022 m) sk users now resp_salt x (salt @ first_27 @ s) = finish_handshake cr tc chk m now resp_salt x salt r s'"
proof -
  have "read_exact (s_len cr m) (salt @ first_27 @ s) = Ok (salt, first_27 @ s)" "read_exact 27 (first_27 @ s) = Ok (first_27, s)"
    using assms(1,3) by simp_all
  then show ?thesis using assms(2,4) by (simp add: handshake_def del: read_exact_Ok_iff)
qed

lemma handshake_client:
  assumes "tcp_ok tc" and "length salt = s_len cr m" and "credentials users \<noteq> []" and "length first_27 = 27"
    and "resolve_request cr tc m sk users salt first_27 s = Ok (Some (c, c1, fixed_header_of t vh), b @ rest)"
    and "address_ok cr addr" and "padding \<noteq> [] \<or> payload \<noteq> []" and "vh = var_header cr addr padding payload" and "length vh < 65536"
    and "tc_encrypt tc c1 vh = (b, c2)" and "abs_diff now t \<le> SERVER_STREAM_TIMESTAMP_MAX_DIFF" and "chk now x salt = Some x'"
  shows "handshake cr tc chk (Aead2022 m) sk users (Some now) resp_salt x (salt @ first_27 @ s) =
           (Ok (c, \<lparr>st_inner = rest, st_reader = reader_new c2 payload,
                    st_writer = writer_new (tc_new tc m (cr_key c) resp_salt) resp_salt salt\<rparr>, addr), x')"
  unfolding handshake_resolved [OF assms(2-5)] unfolding assms(8)
  by (rule finish_client [where chk = chk and now = now and x = x and salt = salt])
    (use assms in \<open>simp_all only: not_False_eq_True\<close>)

section \<open>Replays\<close>

text \<open>What the inbound relies on of the nonce filter: with the ghost \<open>log\<close> of what it has let pass, a salt passes again only after more than 60 seconds.\<close>

definition salt_filter :: "(u64 \<Rightarrow> 'x \<Rightarrow> bytes \<Rightarrow> 'x option) \<Rightarrow> ('x \<Rightarrow> (u64 \<times> bytes) set) \<Rightarrow> bool" where
  "salt_filter chk log \<longleftrightarrow>
     (\<forall>t x salt x'. chk t x salt = Some x' \<longrightarrow>
        log x' = insert (t, salt) (log x) \<and> (\<forall>t0. (t0, salt) \<in> log x \<longrightarrow> unat t0 + 60 < unat t))"

text \<open>The requests that are let in, of a sequence of connections, each with the clock and a salt for the answer.\<close>

fun accepted_requests ::
    "'a ss_crates \<Rightarrow> 'c tcp_cipher \<Rightarrow> (u64 \<Rightarrow> 'x \<Rightarrow> bytes \<Rightarrow> 'x option) \<Rightarrow> kind2022 \<Rightarrow> bytes option \<Rightarrow> user_index \<Rightarrow> 'x \<Rightarrow> (u64 \<times> bytes \<times> bytes) list \<Rightarrow> bytes list" where
  "accepted_requests cr tc chk m sk users x [] = []"
| "accepted_requests cr tc chk m sk users x ((t, resp_salt, s) # reqs) =
     (case handshake cr tc chk (Aead2022 m) sk users (Some t) resp_salt x s of
        (Ok _, x') \<Rightarrow> s # accepted_requests cr tc chk m sk users x' reqs
      | (_, x') \<Rightarrow> accepted_requests cr tc chk m sk users x' reqs)"

lemma handshake_error_keeps:
  assumes "handshake cr tc chk (Aead2022 m) sk users now resp_salt x s = (r, x')" and "\<And>v. r \<noteq> Ok v"
  shows "x' = x"
  using assms finish_error_keeps [of cr tc chk m now resp_salt x] unfolding handshake_def
  by (auto split: res.splits prod.splits if_splits option.splits)

lemma resolve_prefix:
  assumes "resolve_request cr tc m sk users salt f s = Ok (r, s1)" and "resolve_request cr tc m sk users salt f s' = Ok (r', s1')" and "take 16 s = take 16 s'"
  shows "r = r'"
  using assms by (auto simp: resolve_request_def Let_def split: option.splits)

lemma take_eq_le: "take n xs = take n ys \<Longrightarrow> k \<le> n \<Longrightarrow> take k xs = take k ys"
  by (metis min.absorb1 take_take)

text \<open>Two accepted requests with the same beginning have the same header, so the same timestamp.\<close>

lemma same_start_close:
  assumes "handshake cr tc chk (Aead2022 m) sk users (Some t0) rs0 x0 s0 = (Ok v0, x0')"
    and "handshake cr tc chk (Aead2022 m) sk users (Some t) rs x s = (Ok v, x')"
    and "take (s_len cr m + 43) s0 = take (s_len cr m + 43) s"
  shows "unat t \<le> unat t0 + 60" "chk t x (take (s_len cr m) s0) = Some x'"
proof -
  let ?n = "s_len cr m"
  have salt: "take ?n s0 = take ?n s" using assms(3) by (rule take_eq_le) simp
  have "take 27 (drop ?n s0) = take 27 (drop ?n s)" "take 16 (drop (?n + 27) s0) = take 16 (drop (?n + 27) s)"
    using take_eq_le [OF assms(3), of "?n + 27"] assms(3) by (simp_all add: take_drop add.commute)
  moreover obtain c cipher header s' where
    "resolve_request cr tc m sk users (take ?n s) (take 27 (drop ?n s)) (drop (?n + 27) s) = Ok (Some (c, cipher, header), s')"
    and f: "finish_handshake cr tc chk m (Some t) rs x (take ?n s) (c, cipher, header) s' = (Ok v, x')"
    using handshake_Ok_resolve assms(2) by (metis prod_cases3)
  moreover obtain c0 cipher0 header0 s0' where
    "resolve_request cr tc m sk users (take ?n s0) (take 27 (drop ?n s0)) (drop (?n + 27) s0) = Ok (Some (c0, cipher0, header0), s0')"
    and f0: "finish_handshake cr tc chk m (Some t0) rs0 x0 (take ?n s0) (c0, cipher0, header0) s0' = (Ok v0, x0')"
    using handshake_Ok_resolve assms(1) by (metis prod_cases3)
  ultimately have "header = header0" using resolve_prefix salt by fastforce
  moreover have "abs_diff t (be_word (take 8 (drop 1 header))) \<le> SERVER_STREAM_TIMESTAMP_MAX_DIFF \<and> chk t x (take ?n s) = Some x'"
    using finish_Ok f by (metis option.inject prod_cases3)
  moreover have "abs_diff t0 (be_word (take 8 (drop 1 header0))) \<le> SERVER_STREAM_TIMESTAMP_MAX_DIFF"
    using finish_Ok f0 by (metis option.inject prod_cases3)
  ultimately show "unat t \<le> unat t0 + 60" "chk t x (take ?n s0) = Some x'" using salt unfolding abs_diff_le by simp_all
qed

lemma accepted_not_again:
  assumes "salt_filter chk log" and "handshake cr tc chk (Aead2022 m) sk users (Some t0) rs0 x0 s0 = (Ok v0, x0')"
  shows "(t0, take (s_len cr m) s0) \<in> log x \<Longrightarrow>
         take (s_len cr m + 43) s0 \<notin> set (map (take (s_len cr m + 43)) (accepted_requests cr tc chk m sk users x reqs))"
proof (induction reqs arbitrary: x)
  case (Cons req reqs)
  obtain t rs s where req: "req = (t, rs, s)" by (metis prod_cases3)
  obtain r x' where h: "handshake cr tc chk (Aead2022 m) sk users (Some t) rs x s = (r, x')" by fastforce
  show ?case
  proof (cases r)
    case (Ok v)
    have "take (s_len cr m + 43) s0 \<noteq> take (s_len cr m + 43) s"
      using same_start_close [OF assms(2) h [unfolded Ok]] Cons.prems assms(1) unfolding salt_filter_def by (metis not_le)
    moreover obtain salt where "chk t x salt = Some x'"
      using h Ok handshake_Ok_resolve finish_Ok by (metis option.inject prod_cases3)
    then have "(t0, take (s_len cr m) s0) \<in> log x'" using Cons.prems assms(1) unfolding salt_filter_def by blast
    ultimately show ?thesis using Cons.IH [of x'] Ok h req by simp
  next
    case (Err e)
    then show ?thesis using Cons handshake_error_keeps [OF h] h req by auto
  next
    case Panic
    then show ?thesis using Cons handshake_error_keeps [OF h] h req by auto
  qed
qed simp

section \<open>An instance\<close>

text \<open>A small instance of what the crates compute, at which the properties are applied: a key is as many times its length, a tag is the key.\<close>

definition toy_crates :: "u8 ss_crates" where
  "toy_crates = \<lparr>k_len = \<lambda>_. 16, s_len = \<lambda>_. 2, uuid_ok = \<lambda>_. False,
     b64_std = \<lambda>s. Some (replicate 16 (of_nat (length s))), b64_url = \<lambda>_. None, blake3 = \<lambda>k. take 16 (k @ replicate 16 0) @ replicate 16 0, derive_key = \<lambda>_ _. replicate 32 9,
     aes_dec = \<lambda>_ b. b, aes_enc = \<lambda>_ b. b, md5_digest = \<lambda>_. 0,
     read_address = (\<lambda>bs. case bs of [] \<Rightarrow> None | b # _ \<Rightarrow> Some (b, 1)), write_address = \<lambda>a. [a]\<rparr>"

definition toy_tcp :: "bytes tcp_cipher" where
  "toy_tcp = \<lparr>tc_new = \<lambda>m key salt. take 16 (key @ replicate 16 0),
     tc_decrypt = \<lambda>c p. (if 16 \<le> length p \<and> drop (length p - 16) p = take 16 (c @ replicate 16 0)
                            then Some (take (length p - 16) p, take 16 (c @ replicate 16 0)) else None),
     tc_encrypt = \<lambda>c p. (p @ take 16 (c @ replicate 16 0), take 16 (c @ replicate 16 0))\<rparr>"

definition toy_us :: "ss_user list" where
  "toy_us = [\<lparr>us_id = 1, us_uuid = ''a'', us_password = None\<rparr>, \<lparr>us_id = 2, us_uuid = ''bb'', us_password = None\<rparr>]"

definition toy_cred :: "nat \<Rightarrow> credential" where
  "toy_cred i = \<lparr>cr_user = toy_us ! i, cr_key = replicate 16 (of_nat (Suc i)), cr_identity = replicate 16 (of_nat (Suc i))\<rparr>"

definition toy_filter :: "u64 \<Rightarrow> (u64 \<times> bytes) list \<Rightarrow> bytes \<Rightarrow> (u64 \<times> bytes) list option" where
  "toy_filter t x salt = (if list_all (\<lambda>(t0, salt0). salt0 = salt \<longrightarrow> unat t0 + 60 < unat t) x then Some ((t, salt) # x) else None)"

lemma toy_filter_ok: "salt_filter toy_filter set"
  by (auto simp: salt_filter_def toy_filter_def list_all_iff split: if_splits)

lemma toy_tcp_ok: "tcp_ok toy_tcp"
  by (auto simp: tcp_ok_def toy_tcp_def)

lemma toy_users: "credentials (update_users toy_crates (Aead2022 Aes128Gcm2022) toy_us) = [toy_cred 0, toy_cred 1]"
  by (simp add: update_users_def index_new_def toy_us_def toy_cred_def toy_crates_def credential_new_def decode_key_def trim_def trim_start_def trim_end_def
    is_ws_def after_last_colon_def Let_def identity_hash_of_def)

lemma toy_fields [simp]:
  "k_len toy_crates m = 16" "s_len toy_crates m = 2" "blake3 toy_crates k = take 16 (k @ replicate 16 0) @ replicate 16 0" "derive_key toy_crates n k = replicate 32 9" "aes_dec toy_crates k b = b"
  by (simp_all add: toy_crates_def)

lemma toy_address: "address_ok toy_crates a"
  by (simp add: address_ok_def toy_crates_def)

lemma toy_separate: "(\<And>k. k \<in> K \<Longrightarrow> length k = 16) \<Longrightarrow> keys_separate toy_tcp m salt K"
  by (simp add: keys_separate_def toy_tcp_def)

lemma toy_keys: "length (cr_key (toy_cred i)) = 16"
  by (simp add: toy_cred_def)

definition toy_vh :: bytes where "toy_vh = [7, 0, 0, 8]"

definition toy_request :: "bytes \<Rightarrow> bytes" where
  "toy_request key = (fixed_header_of 100 toy_vh @ key) @ (toy_vh @ key) @ []"

lemma toy_vh: "toy_vh = var_header toy_crates 7 [] [8]"
  by (simp add: toy_vh_def var_header_def toy_crates_def be16_bytes_def)

lemma toy_encrypt:
  "length key = 16 \<Longrightarrow> tc_encrypt toy_tcp (tc_new toy_tcp m key salt) p = (p @ key, key)"
  "length key = 16 \<Longrightarrow> tc_encrypt toy_tcp key p = (p @ key, key)"
  by (simp_all add: toy_tcp_def)

lemma toy_clock: "abs_diff 110 100 \<le> SERVER_STREAM_TIMESTAMP_MAX_DIFF"
  by (simp add: abs_diff_def SERVER_STREAM_TIMESTAMP_MAX_DIFF_def)

lemma toy_handshake:
  "\<exists>st x'. handshake toy_crates toy_tcp toy_filter (Aead2022 Aes128Gcm2022) None (update_users toy_crates (Aead2022 Aes128Gcm2022) toy_us) (Some 110) [1, 2] []
     ([5, 6] @ toy_request (cr_key (toy_cred 1))) = (Ok (toy_cred 1, st, 7), x')"
proof -
  let ?k = "cr_key (toy_cred 1)" and ?users = "update_users toy_crates (Aead2022 Aes128Gcm2022) toy_us"
  let ?h = "fixed_header_of 100 toy_vh @ ?k"
  have k: "try_key toy_tcp Aes128Gcm2022 ?k [5, 6] ?h = Some (?k, fixed_header_of 100 toy_vh)"
    using try_key_client(1) [OF toy_tcp_ok toy_encrypt(1) [OF toy_keys]] .
  moreover have "try_key toy_tcp Aes128Gcm2022 (cr_key (toy_cred 0)) [5, 6] ?h = None"
    by (rule try_key_other [OF toy_separate [of "{cr_key (toy_cred 0), ?k}"] _ _ _ toy_encrypt(1) [OF toy_keys]]) (auto simp: toy_cred_def)
  ultimately have "resolve_request toy_crates toy_tcp Aes128Gcm2022 None ?users [5, 6] ?h ((toy_vh @ ?k) @ []) =
      Ok (Some (toy_cred 1, ?k, fixed_header_of 100 toy_vh), (toy_vh @ ?k) @ [])"
    by (simp add: resolve_request_def or_else_def toy_users)
  note r = this
  show ?thesis
    unfolding toy_request_def
    by (intro exI, rule handshake_client [where chk = toy_filter and x = "[]" and x' = "[(110, [5, 6])]" and padding = "[]" and payload = "[8]",
          OF toy_tcp_ok _ _ _ r toy_address _ toy_vh _ toy_encrypt(2) [OF toy_keys] toy_clock])
      (simp_all add: toy_users toy_filter_def toy_vh_def toy_keys fixed_header_of_def)
qed

section \<open>Properties\<close>

text \<open>C19: Who is let in: if the handshake of an inbound with the users \<open>us\<close> succeeds, the credential is that of one of these users, whose key is valid for
  the method and shared with nobody; a header of type 0 in the request (after the salt, or after the salt and 16 bytes of identity) opens with that user's key, or with the
  server key and then the credential is the first one; its timestamp is within 30 seconds of the clock; and the nonce filter had not seen the salt.\<close>

theorem handshake_authentic:
  assumes "handshake cr tc chk (Aead2022 m) server_key (update_users cr (Aead2022 m) us) now resp_salt x s = (Ok (c, st, addr), x')"
  shows "(\<exists>u\<in>set us. credential_new cr u (Aead2022 m) = Ok c \<and> cr_user c = u \<and> length (cr_key c) = k_len cr m) \<and>
         (\<forall>c'\<in>set (credentials (update_users cr (Aead2022 m) us)). cr_key c' = cr_key c \<longrightarrow> c' = c) \<and>
         (\<exists>key skip header cipher t.
            (key = cr_key c \<or> server_key = Some key \<and> c = hd (credentials (update_users cr (Aead2022 m) us))) \<and> (skip = 0 \<or> skip = 16) \<and>
            tc_decrypt tc (tc_new tc m key (take (s_len cr m) s)) (take 27 (drop (s_len cr m + skip) s)) = Some (header, cipher) \<and> header ! 0 = 0 \<and>
            now = Some t \<and> unat t \<le> unat (be_word (take 8 (drop 1 header)) :: u64) + 30 \<and> unat (be_word (take 8 (drop 1 header)) :: u64) \<le> unat t + 30 \<and>
            chk t x (take (s_len cr m) s) = Some x')"
proof -
  let ?users = "update_users cr (Aead2022 m) us" and ?salt = "take (s_len cr m) s" and ?first = "take 27 (drop (s_len cr m) s)"
  obtain cs where cs: "?users = index_new cr cs" using update_users_index by blast
  from handshake_Ok_resolve [OF assms] obtain cipher header s' where
    r: "resolve_request cr tc m server_key ?users ?salt ?first (drop (s_len cr m + 27) s) = Ok (Some (c, cipher, header), s')"
       "s_len cr m + 27 \<le> length s"
       "finish_handshake cr tc chk m now resp_salt x ?salt (c, cipher, header) s' = (Ok (c, st, addr), x')" by blast
  obtain t where t: "now = Some t" "abs_diff t (be_word (take 8 (drop 1 header))) \<le> SERVER_STREAM_TIMESTAMP_MAX_DIFF" "chk t x ?salt = Some x'"
    using finish_Ok [OF r(3)] by blast
  have shift: "drop 16 ?first @ take 16 (drop (s_len cr m + 27) s) = take 27 (drop (s_len cr m + 16) s)"
  proof -
    have "drop 16 (take 27 (drop (s_len cr m) s)) = take 11 (drop (s_len cr m + 16) s)" by (simp add: drop_take add.commute)
    moreover have "take 16 (drop (s_len cr m + 27) s) = take 16 (drop 11 (drop (s_len cr m + 16) s))" by (simp add: add.commute)
    moreover have "take 27 (drop (s_len cr m + 16) s) = take (11 + 16) (drop (s_len cr m + 16) s)" by simp
    ultimately show ?thesis by (simp only: take_add)
  qed
  obtain skip where skip: "skip = 0 \<or> skip = 16" "opened_by tc m server_key ?users ?salt (take 27 (drop (s_len cr m + skip) s)) (c, cipher, header)"
    using resolve_opened [OF r(1) cs] r(2) shift by fastforce
  have ne: "credentials ?users \<noteq> []" using assms by (auto simp: handshake_def split: res.splits prod.splits)
  then have hd: "default_credential ?users k = hd (credentials ?users)" for k by (auto simp: default_credential_def split: list.splits)
  have mem: "c \<in> set (credentials ?users)" using skip(2) ne by (auto simp: opened_by_def hd)
  show ?thesis
  proof (intro conjI)
    show "\<exists>u\<in>set us. credential_new cr u (Aead2022 m) = Ok c \<and> cr_user c = u \<and> length (cr_key c) = k_len cr m"
      using update_users_credentials [OF mem] credential_new_ok by fastforce
    show "\<forall>c'\<in>set (credentials ?users). cr_key c' = cr_key c \<longrightarrow> c' = c"
      using update_users_distinct [of cr "Aead2022 m" us] mem by (auto simp: distinct_map inj_on_def)
    obtain key where "key = cr_key c \<or> server_key = Some key \<and> c = hd (credentials ?users)"
      "tc_decrypt tc (tc_new tc m key ?salt) (take 27 (drop (s_len cr m + skip) s)) = Some (header, cipher)" "header ! 0 = 0"
      using skip(2) by (auto simp: opened_by_def hd)
    with t skip(1) show "\<exists>key skip header cipher t.
        (key = cr_key c \<or> server_key = Some key \<and> c = hd (credentials ?users)) \<and> (skip = 0 \<or> skip = 16) \<and>
        tc_decrypt tc (tc_new tc m key ?salt) (take 27 (drop (s_len cr m + skip) s)) = Some (header, cipher) \<and> header ! 0 = 0 \<and>
        now = Some t \<and> unat t \<le> unat (be_word (take 8 (drop 1 header)) :: u64) + 30 \<and> unat (be_word (take 8 (drop 1 header)) :: u64) \<le> unat t + 30 \<and>
        chk t x ?salt = Some x'"
      unfolding abs_diff_le by blast
  qed
qed

theorem handshake_authentic_witness:
  "\<exists>st x'. handshake toy_crates toy_tcp toy_filter (Aead2022 Aes128Gcm2022) None (update_users toy_crates (Aead2022 Aes128Gcm2022) toy_us) (Some 110) [1, 2] []
       ([5, 6] @ toy_request (cr_key (toy_cred 1))) = (Ok (toy_cred 1, st, 7), x') \<and>
     (\<exists>u\<in>set toy_us. cr_user (toy_cred 1) = u)"
proof -
  obtain st x' where h: "handshake toy_crates toy_tcp toy_filter (Aead2022 Aes128Gcm2022) None (update_users toy_crates (Aead2022 Aes128Gcm2022) toy_us)
      (Some 110) [1, 2] [] ([5, 6] @ toy_request (cr_key (toy_cred 1))) = (Ok (toy_cred 1, st, 7), x')"
    using toy_handshake by blast
  from handshake_authentic [OF h] h show ?thesis by blast
qed



text \<open>The identity header of a multi-user server: a client that sends the AES block of its identity, under the key derived from the server key and the salt, before
  the header sealed with its own key, is found through the identity map, whatever the number of users. Assumed: no key opens the first 27 bytes, which
  hold the identity block; the users' identities differ; a block of AES decrypts to what was encrypted.\<close>

theorem handshake_accepts_identity:
  fixes users :: user_index
  assumes "tcp_ok tc" and "users = update_users cr (Aead2022 m) us" and "c \<in> set (credentials users)"
    and "inj_on (\<lambda>c. identity_hash_of cr (cr_key c)) (set (credentials users))"
    and "length skey = k_len cr m" and "k_len cr m = 16 \<or> k_len cr m = 32" and "length (derive_identity_subkey cr skey salt) = 32"
    and "subkey = take (k_len cr m) (derive_identity_subkey cr skey salt)"
    and "length eih = 16" and "aes_dec cr subkey eih = identity_hash_of cr (cr_key c)"
    and "\<And>key. key = skey \<or> key \<in> cr_key ` set (credentials users) \<Longrightarrow> try_key tc m key salt (eih @ take 11 h) = None"
    and "length salt = s_len cr m" and "address_ok cr addr" and "padding \<noteq> [] \<or> payload \<noteq> []"
    and "vh = var_header cr addr padding payload" and "length vh < 65536"
    and "tc_encrypt tc (tc_new tc m (cr_key c) salt) (fixed_header_of t vh) = (h, c1)" and "tc_encrypt tc c1 vh = (b, c2)"
    and "abs_diff now t \<le> SERVER_STREAM_TIMESTAMP_MAX_DIFF" and "chk now x salt = Some x'"
  shows "handshake cr tc chk (Aead2022 m) (Some skey) users (Some now) resp_salt x (salt @ eih @ h @ b @ rest) =
           (Ok (c, \<lparr>st_inner = rest, st_reader = reader_new c2 payload,
                    st_writer = writer_new (tc_new tc m (cr_key c) resp_salt) resp_salt salt\<rparr>, addr), x')"
proof -
  note k = try_key_client [OF assms(1,17)]
  let ?first = "eih @ take 11 h" and ?s = "drop 11 h @ b @ rest"
  have first: "length ?first = 27" "salt @ eih @ h @ b @ rest = salt @ ?first @ ?s" using assms(9) k(2) by simp_all
  have none: "or_else (try_users tc m (credentials users) salt ?first) (try_server_key tc m (Some skey) users salt ?first) = None"
    using try_users_none [of "credentials users" tc m salt ?first] assms(11) by (simp add: or_else_def try_server_key_def)
  have read: "read_exact 16 ?s = Ok (drop 11 h, b @ rest)" using k(2) by simp
  have sub: "take (min (length skey) (length (derive_identity_subkey cr skey salt))) (derive_identity_subkey cr skey salt) = subkey" "length subkey = k_len cr m"
    using assms(5-8) by auto
  have "identity_map users (identity_hash_of cr (cr_key c)) = Some c"
    using identity_fold_unique [of c "credentials users" "\<lambda>c. identity_hash_of cr (cr_key c)" Map.empty] assms(2-4)
    by (auto simp: update_users_def index_new_def Let_def)
  then have id: "try_identity cr tc m (Some skey) users salt eih h = Ok (Some (c, c1, fixed_header_of t vh))"
    using assms(6,10) k(1) sub by (auto simp: try_identity_def Let_def aes_block_decrypt_def)
  have "drop 16 ?first @ drop 11 h = h" "take 16 ?first = eih" using assms(9) by simp_all
  with none read id have res: "resolve_request cr tc m (Some skey) users salt ?first ?s = Ok (Some (c, c1, fixed_header_of t vh), b @ rest)"
    by (simp add: resolve_request_def or_else_def del: read_exact_Ok_iff)
  have ne: "credentials users \<noteq> []" using assms(3) by auto
  show ?thesis
    unfolding first(2) by (rule handshake_client [where chk = chk and x = x and x' = x', OF assms(1,12) ne first(1) res assms(13-16,18-20)])
qed

theorem handshake_accepts_identity_witness:
  "\<exists>st x'. handshake toy_crates toy_tcp toy_filter (Aead2022 Aes128Gcm2022) (Some (replicate 16 3)) (update_users toy_crates (Aead2022 Aes128Gcm2022) toy_us) (Some 110)
     [1, 2] [] ([5, 6] @ cr_key (toy_cred 1) @ toy_request (cr_key (toy_cred 1))) = (Ok (toy_cred 1, st, 7), x')"
proof -
  have none: "try_key toy_tcp Aes128Gcm2022 key [5, 6] (cr_key (toy_cred 1) @ take 11 (fixed_header_of 100 toy_vh @ cr_key (toy_cred 1))) = None"
    if "key = replicate 16 3 \<or> key \<in> cr_key ` set [toy_cred 0, toy_cred 1]" for key
    using that by (auto simp: try_key_def toy_tcp_def toy_cred_def fixed_header_of_def toy_vh_def numeral_eq_Suc be16_bytes_def)
  show ?thesis
    unfolding toy_request_def
    by (intro exI, rule handshake_accepts_identity [OF toy_tcp_ok refl _ _ _ _ _ refl toy_keys _ none _ toy_address _ toy_vh _
          toy_encrypt(1) [OF toy_keys] toy_encrypt(2) [OF toy_keys] toy_clock])
      (auto simp: toy_users toy_keys toy_vh_def toy_filter_def derive_identity_subkey_def identity_hash_of_def toy_cred_def)
qed

text \<open>C21: A client that knows the server key only, which every user of the node is given, is let in without any user's key: it gets the credential of the
  first user, and the answers are sealed with that user's key.\<close>

theorem server_key_is_first_user:
  fixes users :: user_index
  assumes "tcp_ok tc" and "users = update_users cr (Aead2022 m) us" and "credentials users = c # cs"
    and "keys_separate tc m salt (insert skey (cr_key ` set (credentials users)))" and "skey \<notin> cr_key ` set (credentials users)"
    and "length salt = s_len cr m" and "address_ok cr addr" and "padding \<noteq> [] \<or> payload \<noteq> []"
    and "vh = var_header cr addr padding payload" and "length vh < 65536"
    and "tc_encrypt tc (tc_new tc m skey salt) (fixed_header_of t vh) = (h, c1)" and "tc_encrypt tc c1 vh = (b, c2)"
    and "abs_diff now t \<le> SERVER_STREAM_TIMESTAMP_MAX_DIFF" and "chk now x salt = Some x'"
  shows "handshake cr tc chk (Aead2022 m) (Some skey) users (Some now) resp_salt x (salt @ h @ b @ rest) =
           (Ok (c, \<lparr>st_inner = rest, st_reader = reader_new c2 payload,
                    st_writer = writer_new (tc_new tc m (cr_key c) resp_salt) resp_salt salt\<rparr>, addr), x')"
proof -
  note k = try_key_client [OF assms(1,11)]
  have "try_users tc m (credentials users) salt h = None"
  proof (rule try_users_none)
    show "try_key tc m (cr_key c') salt h = None" if "c' \<in> set (credentials users)" for c'
      by (rule try_key_other [OF assms(4) _ _ _ assms(11)]) (use that assms(5) in auto)
  qed
  then have res: "resolve_request cr tc m (Some skey) users salt h (b @ rest) = Ok (Some (c, c1, fixed_header_of t vh), b @ rest)"
    using k(1) assms(3) by (simp add: resolve_request_def or_else_def try_server_key_def default_credential_def)
  have ne: "credentials users \<noteq> []" using assms(3) by simp
  show ?thesis
    by (rule handshake_client [where chk = chk and x = x and x' = x', OF assms(1,6) ne k(2) res assms(7-10,12-14)])
qed

theorem server_key_is_first_user_witness:
  "\<exists>st x'. handshake toy_crates toy_tcp toy_filter (Aead2022 Aes128Gcm2022) (Some (replicate 16 3)) (update_users toy_crates (Aead2022 Aes128Gcm2022) toy_us) (Some 110)
     [1, 2] [] ([5, 6] @ toy_request (replicate 16 3)) = (Ok (toy_cred 0, st, 7), x')"
  unfolding toy_request_def
  by (intro exI, rule server_key_is_first_user [OF toy_tcp_ok refl toy_users toy_separate _ _ toy_address _ toy_vh _ toy_encrypt(1) toy_encrypt(2) toy_clock])
    (auto simp: toy_users toy_keys toy_vh_def toy_filter_def toy_cred_def)

text \<open>No replays: of a sequence of connections over any time, no two that are let in begin with the same bytes (salt, identity and sealed header). The filter need only
  remember a salt for 60 seconds: after that the timestamp is too old.\<close>

theorem handshake_no_replay:
  assumes "salt_filter chk log"
  shows "distinct (map (take (s_len cr m + 43)) (accepted_requests cr tc chk m server_key users x reqs))"
proof (induction reqs arbitrary: x)
  case (Cons req reqs)
  obtain t rs s where req: "req = (t, rs, s)" by (metis prod_cases3)
  obtain r x' where h: "handshake cr tc chk (Aead2022 m) server_key users (Some t) rs x s = (r, x')" by fastforce
  show ?case
  proof (cases r)
    case (Ok v)
    have "chk t x (take (s_len cr m) s) = Some x'" using same_start_close(2) [OF h [unfolded Ok] h [unfolded Ok] refl] .
    then have "(t, take (s_len cr m) s) \<in> log x'" using assms unfolding salt_filter_def by blast
    from accepted_not_again [OF assms h [unfolded Ok] this] show ?thesis using Cons.IH [of x'] Ok h req by simp
  next
    case (Err e)
    then show ?thesis using Cons h req by simp
  next
    case Panic
    then show ?thesis using Cons h req by simp
  qed
qed simp

theorem handshake_no_replay_witness:
  "distinct (map (take (s_len toy_crates Aes128Gcm2022 + 43)) (accepted_requests toy_crates toy_tcp toy_filter Aes128Gcm2022 None
     (update_users toy_crates (Aead2022 Aes128Gcm2022) toy_us) []
     [(110, [1, 2], [5, 6] @ toy_request (cr_key (toy_cred 1))), (120, [1, 2], [5, 6] @ toy_request (cr_key (toy_cred 1)))]))"
  by (rule handshake_no_replay [OF toy_filter_ok])

end
