(* ===== verification/Ss2022_Udp.thy ===== *)
theory Ss2022_Udp
  imports Ss2022
begin

text \<open>
  The datagrams of \<^verbatim>\<open>src/protocol/shadowsocks/ss2022.rs\<close>: \<^verbatim>\<open>decrypt_udp_with_cache\<close> and \<^verbatim>\<open>encrypt_udp\<close>, for the three kinds of methods. \<^verbatim>\<open>UdpCipher\<close> is an
  argument; the random bytes of an answer are arguments as well. Every index and slice of the packet is checked, so that a panic would be a value.
\<close>

section \<open>Requests\<close>

record udp_cipher =
  uc_decrypt :: "kind2022 \<Rightarrow> bytes \<Rightarrow> u64 \<Rightarrow> bytes \<Rightarrow> bytes \<Rightarrow> bytes option"
  uc_encrypt :: "kind2022 \<Rightarrow> bytes \<Rightarrow> u64 \<Rightarrow> bytes \<Rightarrow> bytes \<Rightarrow> bytes"

record 'a datagram =
  dg_credential :: credential
  dg_address :: 'a
  dg_payload :: bytes
  dg_session :: u64
  dg_packet :: u64

definition MAX_TIMESTAMP_SKEW_SECS :: u64 where "MAX_TIMESTAMP_SKEW_SECS = 30"

text \<open>What the opened body holds after \<open>offset\<close> bytes: type, timestamp, padding, address, payload.\<close>

definition parse_udp_body :: "'a ss_crates \<Rightarrow> u64 option \<Rightarrow> credential \<Rightarrow> u64 \<Rightarrow> u64 \<Rightarrow> nat \<Rightarrow> bytes \<Rightarrow> 'a datagram res" where
  "parse_udp_body cr now c sid pid offset data =
     and_then (byte_at data offset) (\<lambda>ty.
       if ty \<noteq> 0 then Err InvalidData
       else and_then (slice data (offset + 1) (offset + 9)) (\<lambda>ts.
            and_then (ok_or InvalidData now) (\<lambda>now.
              if abs_diff now (be_word ts) > MAX_TIMESTAMP_SKEW_SECS then Err InvalidData
              else and_then (be16_at data (offset + 9)) (\<lambda>padding.
                   let start = offset + 11 + unat padding
                   in if start > length data then Err InvalidData
                      else and_then (ok_or Other (read_address cr (drop start data))) (\<lambda>(address, pos).
                           and_then (slice data (start + pos) (length data)) (\<lambda>payload.
                             Ok \<lparr>dg_credential = c, dg_address = address, dg_payload = payload, dg_session = sid, dg_packet = pid\<rparr>))))))"

definition find_credential :: "user_index \<Rightarrow> u32 option \<Rightarrow> credential option" where
  "find_credential users cached =
     (let first = (case credentials users of [] \<Rightarrow> None | c # _ \<Rightarrow> Some c)
      in case cached of
           Some uid \<Rightarrow> or_else (List.find (\<lambda>c. us_id (cr_user c) = uid) (credentials users)) first
         | None \<Rightarrow> first)"

definition decrypt_none :: "'a ss_crates \<Rightarrow> user_index \<Rightarrow> bytes \<Rightarrow> 'a datagram res" where
  "decrypt_none cr users packet =
     (if length packet < 3 then Err InvalidData
      else and_then (ok_or Other (read_address cr packet)) (\<lambda>(address, offset).
           and_then (ok_or InvalidData (find_credential users None)) (\<lambda>c.
           and_then (slice packet offset (length packet)) (\<lambda>payload.
             Ok \<lparr>dg_credential = c, dg_address = address, dg_payload = payload, dg_session = 0, dg_packet = 0\<rparr>))))"

text \<open>One credential of the older AEAD methods: \<open>None\<close> if its key does not open the packet.\<close>

definition legacy_open ::
    "'a ss_crates \<Rightarrow> ss_aead \<Rightarrow> (u64 \<Rightarrow> 'x \<Rightarrow> bytes \<Rightarrow> 'x option) \<Rightarrow> u64 \<Rightarrow> cipher_kind \<Rightarrow> bytes \<Rightarrow> bytes \<Rightarrow> 'x \<Rightarrow> credential \<Rightarrow> ('a datagram res \<times> 'x) option" where
  "legacy_open cr ae chk clock kind salt encrypted x c =
     (case decrypt_in_place ae \<lparr>ac_kind = kind, ac_key = ae_hkdf ae (cr_key c) salt (key_len kind)\<rparr> (replicate 12 0) encrypted of
        Ok data \<Rightarrow>
          (let data = take (length data - 16) data
           in Some (case read_address cr data of
                      None \<Rightarrow> (Err Other, x)
                    | Some (address, offset) \<Rightarrow>
                        (case chk clock x salt of
                           None \<Rightarrow> (Err Other, x)
                         | Some x \<Rightarrow>
                             (and_then (slice data offset (length data)) (\<lambda>payload.
                                Ok \<lparr>dg_credential = c, dg_address = address, dg_payload = payload, dg_session = 0, dg_packet = 0\<rparr>), x))))
      | _ \<Rightarrow> None)"

fun first_open :: "('x \<Rightarrow> credential \<Rightarrow> ('r \<times> 'x) option) \<Rightarrow> 'x \<Rightarrow> credential list \<Rightarrow> ('r \<times> 'x) option" where
  "first_open f x [] = None"
| "first_open f x (c # cs) = (case f x c of Some r \<Rightarrow> Some r | None \<Rightarrow> first_open f x cs)"

definition decrypt_legacy ::
    "'a ss_crates \<Rightarrow> ss_aead \<Rightarrow> (u64 \<Rightarrow> 'x \<Rightarrow> bytes \<Rightarrow> 'x option) \<Rightarrow> u64 \<Rightarrow> cipher_kind \<Rightarrow> user_index \<Rightarrow> bytes \<Rightarrow> u32 option \<Rightarrow> 'x \<Rightarrow> 'a datagram res \<times> 'x" where
  "decrypt_legacy cr ae chk clock kind users packet cached x =
     (if length packet < salt_len kind + 16 then (Err InvalidData, x)
      else let salt = take (salt_len kind) packet; encrypted = drop (salt_len kind) packet;
               try = legacy_open cr ae chk clock kind salt encrypted
           in case first_open try x (filter (\<lambda>c. Some (us_id (cr_user c)) = cached) (credentials users)) of
                Some r \<Rightarrow> r
              | None \<Rightarrow>
                  (case first_open try x (filter (\<lambda>c. Some (us_id (cr_user c)) \<noteq> cached) (credentials users)) of
                     Some r \<Rightarrow> r
                   | None \<Rightarrow> (Err InvalidData, x)))"

definition decrypt_chacha ::
    "'a ss_crates \<Rightarrow> udp_cipher \<Rightarrow> u64 option \<Rightarrow> user_index \<Rightarrow> bytes \<Rightarrow> u32 option \<Rightarrow> 'a datagram res" where
  "decrypt_chacha cr uc now users packet cached =
     (if length packet < 24 + 16 + 11 + 16 then Err InvalidData
      else and_then (ok_or InvalidData (find_credential users cached)) (\<lambda>c.
           and_then (slice packet 0 24) (\<lambda>nonce.
           and_then (ok_or InvalidData (uc_decrypt uc ChaCha20Poly1305_2022 (cr_key c) 0 nonce (drop 24 packet))) (\<lambda>data.
           and_then (slice data 0 8) (\<lambda>sid. and_then (slice data 8 16) (\<lambda>pid.
             parse_udp_body cr now c (be_word sid) (be_word pid) 16 data))))))"

definition xor_bytes :: "bytes \<Rightarrow> bytes \<Rightarrow> bytes" where
  "xor_bytes a b = map2 (XOR) a b"

definition decrypt_multi ::
    "'a ss_crates \<Rightarrow> udp_cipher \<Rightarrow> u64 option \<Rightarrow> kind2022 \<Rightarrow> bytes \<Rightarrow> user_index \<Rightarrow> bytes \<Rightarrow> 'a datagram res" where
  "decrypt_multi cr uc now m header_key users packet =
     (if length packet < 32 + 11 + 16 then Err InvalidData
      else and_then (and_then (slice packet 0 16) (\<lambda>b. aes_block cr header_key b False)) (\<lambda>header.
           and_then (and_then (slice packet 16 32) (\<lambda>b. aes_block cr header_key b False)) (\<lambda>eih.
           and_then (ok_or PermissionDenied (identity_map users (xor_bytes eih header))) (\<lambda>c.
           and_then (slice header 0 8) (\<lambda>sid. and_then (slice header 8 16) (\<lambda>pid. and_then (slice header 4 16) (\<lambda>nonce.
           and_then (ok_or InvalidData (uc_decrypt uc m (cr_key c) (be_word sid) nonce (drop 32 packet))) (\<lambda>body.
             parse_udp_body cr now c (be_word sid) (be_word pid) 32 (header @ xor_bytes eih header @ body)))))))))"

definition decrypt_single ::
    "'a ss_crates \<Rightarrow> udp_cipher \<Rightarrow> u64 option \<Rightarrow> kind2022 \<Rightarrow> user_index \<Rightarrow> bytes \<Rightarrow> u32 option \<Rightarrow> 'a datagram res" where
  "decrypt_single cr uc now m users packet cached =
     (if length packet < 16 + 11 + 16 then Err InvalidData
      else and_then (ok_or InvalidData (find_credential users cached)) (\<lambda>c.
           and_then (and_then (slice packet 0 16) (\<lambda>b. aes_block cr (cr_key c) b False)) (\<lambda>header.
           and_then (slice header 0 8) (\<lambda>sid. and_then (slice header 8 16) (\<lambda>pid. and_then (slice header 4 16) (\<lambda>nonce.
           and_then (ok_or InvalidData (uc_decrypt uc m (cr_key c) (be_word sid) nonce (drop 16 packet))) (\<lambda>body.
             parse_udp_body cr now c (be_word sid) (be_word pid) 16 (header @ body))))))))"

definition decrypt_udp_with_cache ::
    "'a ss_crates \<Rightarrow> ss_aead \<Rightarrow> udp_cipher \<Rightarrow> (u64 \<Rightarrow> 'x \<Rightarrow> bytes \<Rightarrow> 'x option) \<Rightarrow> u64 \<Rightarrow> u64 option \<Rightarrow> ss_method \<Rightarrow> bytes option \<Rightarrow> user_index \<Rightarrow> bytes \<Rightarrow> u32 option \<Rightarrow> 'x \<Rightarrow>
     'a datagram res \<times> 'x" where
  "decrypt_udp_with_cache cr ae uc chk clock now method server_key users packet cached x =
     (case method of
        MNone \<Rightarrow> (decrypt_none cr users packet, x)
      | Legacy kind \<Rightarrow> decrypt_legacy cr ae chk clock kind users packet cached x
      | Aead2022 m \<Rightarrow>
          (if m = ChaCha20Poly1305_2022 then decrypt_chacha cr uc now users packet cached
           else case server_key of
                  Some header_key \<Rightarrow> decrypt_multi cr uc now m header_key users packet
                | None \<Rightarrow> decrypt_single cr uc now m users packet cached, x))"

definition decrypt_udp where
  "decrypt_udp cr ae uc chk clock now method server_key users packet x =
     decrypt_udp_with_cache cr ae uc chk clock now method server_key users packet None x"

section \<open>Answers\<close>

definition UDP_LIMIT :: nat where "UDP_LIMIT = 65507"

text \<open>The random bytes: the salt of the older methods, the nonce of ChaCha20, the byte of padding.\<close>

definition encrypt_udp ::
    "'a ss_crates \<Rightarrow> ss_aead \<Rightarrow> udp_cipher \<Rightarrow> bytes \<Rightarrow> u8 \<Rightarrow> u64 option \<Rightarrow> ss_method \<Rightarrow> credential \<Rightarrow> 'a \<Rightarrow> u64 \<Rightarrow> u64 \<Rightarrow> u64 \<Rightarrow> bytes \<Rightarrow> bytes res" where
  "encrypt_udp cr ae uc rnd rnd_byte now method c address client_session server_session packet_id payload =
     and_then
       (case method of
          MNone \<Rightarrow> Ok (write_address cr address @ payload)
        | Legacy kind \<Rightarrow>
            (let salt = take (salt_len kind) rnd
             in map_res (\<lambda>body. salt @ body)
                  (encrypt_in_place ae \<lparr>ac_kind = kind, ac_key = ae_hkdf ae (cr_key c) salt (key_len kind)\<rparr> (replicate 12 0) (write_address cr address @ payload)))
        | Aead2022 m \<Rightarrow>
            and_then (ok_or InvalidData now) (\<lambda>now.
              let ids = u64_bytes server_session @ u64_bytes packet_id;
                  padding = (if payload = [] then [rnd_byte] else []);
                  message = [1] @ u64_bytes now @ u64_bytes client_session @ be16_bytes (of_nat (length padding)) @ padding @ write_address cr address @ payload
              in if m = ChaCha20Poly1305_2022
                 then Ok (take 24 rnd @ uc_encrypt uc m (cr_key c) server_session (take 24 rnd) (ids @ message))
                 else map_res (\<lambda>header. header @ uc_encrypt uc m (cr_key c) server_session (drop 4 ids) message)
                        (aes_block cr (cr_key c) ids True)))
       (\<lambda>data. if length data > UDP_LIMIT then Err InvalidData else Ok data)"

section \<open>Lemmas\<close>

text \<open>What the code relies on of the crates: lengths, and that opening undoes sealing.\<close>

definition udp_crates_ok :: "'a ss_crates \<Rightarrow> ss_aead \<Rightarrow> udp_cipher \<Rightarrow> bool" where
  "udp_crates_ok cr ae uc \<longleftrightarrow>
     (\<forall>m. k_len cr m = 16 \<or> k_len cr m = 32) \<and>
     (\<forall>k b. length b = 16 \<longrightarrow> length (aes_dec cr k b) = 16 \<and> length (aes_enc cr k b) = 16 \<and> aes_dec cr k (aes_enc cr k b) = b) \<and>
     (\<forall>k. length (blake3 cr k) = 32) \<and>
     (\<forall>bs a n. read_address cr bs = Some (a, n) \<longrightarrow> n \<le> length bs) \<and>
     (\<forall>m k s n ct p. uc_decrypt uc m k s n ct = Some p \<longrightarrow> length p = length ct - 16) \<and>
     (\<forall>m k s n p. length (uc_encrypt uc m k s n p) = length p + 16 \<and> uc_decrypt uc m k s n (uc_encrypt uc m k s n p) = Some p) \<and>
     (\<forall>kind k n d tag p. ae_open ae kind k n d tag = Some p \<longrightarrow> length p = length d)"

lemma crates_address: "udp_crates_ok cr ae uc \<Longrightarrow> read_address cr bs = Some (a, n) \<Longrightarrow> n \<le> length bs"
  unfolding udp_crates_ok_def by metis

lemma crates_cipher: "udp_crates_ok cr ae uc \<Longrightarrow> uc_decrypt uc m k s n ct = Some p \<Longrightarrow> length p = length ct - 16"
  unfolding udp_crates_ok_def by metis

lemma crates_seal:
  "udp_crates_ok cr ae uc \<Longrightarrow> length (uc_encrypt uc m k s n p) = length p + 16"
  "udp_crates_ok cr ae uc \<Longrightarrow> uc_decrypt uc m k s n (uc_encrypt uc m k s n p) = Some p"
  unfolding udp_crates_ok_def by metis+

lemma crates_aes:
  "udp_crates_ok cr ae uc \<Longrightarrow> length b = 16 \<Longrightarrow> length (aes_dec cr k b) = 16"
  "udp_crates_ok cr ae uc \<Longrightarrow> length b = 16 \<Longrightarrow> length (aes_enc cr k b) = 16"
  "udp_crates_ok cr ae uc \<Longrightarrow> length b = 16 \<Longrightarrow> aes_dec cr k (aes_enc cr k b) = b"
  unfolding udp_crates_ok_def by metis+

lemma crates_lengths:
  "udp_crates_ok cr ae uc \<Longrightarrow> k_len cr m = 16 \<or> k_len cr m = 32"
  "udp_crates_ok cr ae uc \<Longrightarrow> length (blake3 cr k) = 32"
  unfolding udp_crates_ok_def by metis+

lemma crates_open: "udp_crates_ok cr ae uc \<Longrightarrow> ae_open ae kind k n d tag = Some p \<Longrightarrow> length p = length d"
  unfolding udp_crates_ok_def by metis

lemma length_xor_bytes [simp]: "length (xor_bytes a b) = min (length a) (length b)"
  by (simp add: xor_bytes_def)

lemma xor_bytes_twice: "length a = length b \<Longrightarrow> xor_bytes (xor_bytes a b) b = a"
  by (rule nth_equalityI) (auto simp: xor_bytes_def xor.assoc)

lemma aes_block_Ok: "length b = 16 \<Longrightarrow> length key = 16 \<or> length key = 32 \<Longrightarrow> aes_block cr key b False = Ok (aes_dec cr key b)"
  by (auto simp: aes_block_def aes_block_decrypt_def)

lemma find_credential_mem: "find_credential users cached = Some c \<Longrightarrow> c \<in> set (credentials users)"
  by (auto simp: find_credential_def Let_def or_else_def find_Some_iff split: option.splits list.splits)

lemma parse_udp_body_no_panic:
  assumes "udp_crates_ok cr ae uc" and "offset + 11 \<le> length data"
  shows "parse_udp_body cr now c sid pid offset data \<noteq> Panic"
proof
  assume "parse_udp_body cr now c sid pid offset data = Panic"
  then obtain padding address pos where a: "read_address cr (drop (offset + 11 + padding) data) = Some (address, pos)"
      and b: "offset + 11 + padding \<le> length data" "slice data (offset + 11 + padding + pos) (length data) = Panic"
    using assms(2)
    by (auto simp: parse_udp_body_def and_then_Panic_iff rs_simps Let_def elim!: ok_or.elims split: if_splits)
  show False using crates_address [OF assms(1) a] b by (simp add: slice_def split: if_splits)
qed

text \<open>What a datagram says of the opened body: type 0, timestamp within 30 seconds, then padding, the address, and the payload to the end.\<close>

definition body_says :: "'a ss_crates \<Rightarrow> u64 option \<Rightarrow> bytes \<Rightarrow> 'a datagram \<Rightarrow> bool" where
  "body_says cr now body dg \<longleftrightarrow>
     body ! 0 = 0 \<and>
     (\<exists>t. now = Some t \<and> abs_diff t (be_word (take 8 (drop 1 body))) \<le> MAX_TIMESTAMP_SKEW_SECS) \<and>
     (\<exists>pos. read_address cr (drop (11 + unat (be16 (body ! 9) (body ! 10))) body) = Some (dg_address dg, pos) \<and>
        dg_payload dg = drop (11 + unat (be16 (body ! 9) (body ! 10)) + pos) body)"

lemma parse_udp_body_Ok:
  assumes "parse_udp_body cr now c sid pid offset (pre @ body) = Ok dg" and "length pre = offset"
  shows "dg_credential dg = c \<and> dg_session dg = sid \<and> dg_packet dg = pid \<and> body_says cr now body dg"
  using assms
  by (auto simp: parse_udp_body_def body_says_def byte_at_def slice_def be16_at_def nth_append Let_def not_less add.assoc elim!: ok_or.elims split: if_splits)

text \<open>The keys of the index fit the method, so that no block of AES panics.\<close>

definition keys_fit :: "'a ss_crates \<Rightarrow> ss_method \<Rightarrow> user_index \<Rightarrow> bool" where
  "keys_fit cr m users \<longleftrightarrow> (\<forall>c\<in>set (credentials users). length (cr_key c) = method_key_len cr m) \<and>
     (\<forall>i c. identity_map users i = Some c \<longrightarrow> c \<in> set (credentials users))"

lemma update_users_fit: "keys_fit cr m (update_users cr m us)"
proof -
  obtain cs where cs: "update_users cr m us = index_new cr cs" using update_users_index by blast
  have "c \<in> set (credentials (update_users cr m us))" if "identity_map (update_users cr m us) i = Some c" for i c
    using identity_map_ok [of cr cs i c] that by (simp add: cs) (simp add: index_new_def)
  then show ?thesis
    using update_users_credentials credential_new_ok unfolding keys_fit_def by fastforce
qed

definition udp_authentic :: "'a ss_crates \<Rightarrow> udp_cipher \<Rightarrow> u64 option \<Rightarrow> kind2022 \<Rightarrow> user_index \<Rightarrow> u64 \<Rightarrow> bytes \<Rightarrow> nat \<Rightarrow> 'a datagram \<Rightarrow> bool" where
  "udp_authentic cr uc now m users sid ct skip dg \<longleftrightarrow>
     dg_credential dg \<in> set (credentials users) \<and>
     (\<exists>nonce body. uc_decrypt uc m (cr_key (dg_credential dg)) sid nonce ct = Some body \<and> body_says cr now (drop skip body) dg)"

lemma slice_to_end: "a \<le> length buf \<Longrightarrow> slice buf a (length buf) = Ok (drop a buf)"
  by (simp add: slice_def)

lemma header_slices:
  "length header = 16 \<Longrightarrow> slice header 0 8 = Ok (take 8 header)" "length header = 16 \<Longrightarrow> slice header 8 16 = Ok (drop 8 header)"
  "length header = 16 \<Longrightarrow> slice header 4 16 = Ok (drop 4 header)"
  by (simp_all add: slice_def)

lemma aes_slice:
  assumes "udp_crates_ok cr ae uc" and "length key = 16 \<or> length key = 32" and "a + 16 \<le> length packet"
  shows "and_then (slice packet a (a + 16)) (\<lambda>b. aes_block cr key b False) = Ok (aes_dec cr key (take 16 (drop a packet)))"
    and "length (aes_dec cr key (take 16 (drop a packet))) = 16"
  using assms by (simp_all add: slice_def aes_block_Ok crates_aes(1) [OF assms(1)])

lemma decrypt_single_result:
  assumes "udp_crates_ok cr ae uc" and "keys_fit cr (Aead2022 m) users" and "16 + 11 + 16 \<le> length packet"
    and "find_credential users cached = Some c"
  defines "header \<equiv> aes_dec cr (cr_key c) (take 16 packet)"
  shows "length header = 16"
    "decrypt_single cr uc now m users packet cached =
       and_then (ok_or InvalidData (uc_decrypt uc m (cr_key c) (be_word (take 8 header)) (drop 4 header) (drop 16 packet))) (\<lambda>body.
         parse_udp_body cr now c (be_word (take 8 header)) (be_word (drop 8 header)) 16 (header @ body))"
proof -
  have key: "length (cr_key c) = 16 \<or> length (cr_key c) = 32"
    using assms(2) find_credential_mem [OF assms(4)] crates_lengths(1) [OF assms(1), of m] by (simp add: keys_fit_def)
  note a = aes_slice [OF assms(1) key, of 0 packet]
  show l: "length header = 16" using a(2) assms(3) by (simp add: header_def)
  show "decrypt_single cr uc now m users packet cached =
       and_then (ok_or InvalidData (uc_decrypt uc m (cr_key c) (be_word (take 8 header)) (drop 4 header) (drop 16 packet))) (\<lambda>body.
         parse_udp_body cr now c (be_word (take 8 header)) (be_word (drop 8 header)) 16 (header @ body))"
    using assms(3,4) a(1) l header_slices [OF l] by (simp add: decrypt_single_def header_def del: and_then_Ok_iff)
qed

lemma decrypt_single_cases:
  assumes "udp_crates_ok cr ae uc" and "keys_fit cr (Aead2022 m) users"
  shows "decrypt_single cr uc now m users packet cached \<noteq> Panic"
    and "decrypt_single cr uc now m users packet cached = Ok dg \<Longrightarrow>
         udp_authentic cr uc now m users (dg_session dg) (drop 16 packet) 0 dg"
proof -
  let ?r = "decrypt_single cr uc now m users packet cached"
  have "?r \<noteq> Panic \<and> (?r = Ok dg \<longrightarrow> udp_authentic cr uc now m users (dg_session dg) (drop 16 packet) 0 dg)"
  proof (cases "16 + 11 + 16 \<le> length packet \<and> find_credential users cached \<noteq> None")
    case True
    then obtain c where c: "16 + 11 + 16 \<le> length packet" "find_credential users cached = Some c" by blast
    note r = decrypt_single_result [OF assms c]
    have "?r \<noteq> Panic"
      using r(1) c(1) crates_cipher [OF assms(1)]
      by (auto simp: r(2) and_then_Panic_iff elim!: ok_or.elims intro!: parse_udp_body_no_panic [OF assms(1)])
    moreover have "udp_authentic cr uc now m users (dg_session dg) (drop 16 packet) 0 dg" if "?r = Ok dg"
      using that r(1) find_credential_mem [OF c(2)]
      by (auto simp: r(2) udp_authentic_def elim!: ok_or.elims dest!: parse_udp_body_Ok) blast
    ultimately show ?thesis by blast
  qed (auto simp: decrypt_single_def not_le)
  then show "?r \<noteq> Panic" "?r = Ok dg \<Longrightarrow> udp_authentic cr uc now m users (dg_session dg) (drop 16 packet) 0 dg" by blast+
qed

lemma decrypt_multi_result:
  assumes "udp_crates_ok cr ae uc" and "length key = 16 \<or> length key = 32" and "32 + 11 + 16 \<le> length packet"
  defines "header \<equiv> aes_dec cr key (take 16 packet)" and "eih \<equiv> aes_dec cr key (take 16 (drop 16 packet))"
  shows "length header = 16" "length eih = 16"
    "decrypt_multi cr uc now m key users packet =
       and_then (ok_or PermissionDenied (identity_map users (xor_bytes eih header))) (\<lambda>c.
       and_then (ok_or InvalidData (uc_decrypt uc m (cr_key c) (be_word (take 8 header)) (drop 4 header) (drop 32 packet))) (\<lambda>body.
         parse_udp_body cr now c (be_word (take 8 header)) (be_word (drop 8 header)) 32 (header @ xor_bytes eih header @ body)))"
proof -
  note a = aes_slice [OF assms(1,2), of 0 packet] and b = aes_slice [OF assms(1,2), of 16 packet]
  show l: "length header = 16" "length eih = 16" using a(2) b(2) assms(3) by (simp_all add: header_def eih_def)
  show "decrypt_multi cr uc now m key users packet =
       and_then (ok_or PermissionDenied (identity_map users (xor_bytes eih header))) (\<lambda>c.
       and_then (ok_or InvalidData (uc_decrypt uc m (cr_key c) (be_word (take 8 header)) (drop 4 header) (drop 32 packet))) (\<lambda>body.
         parse_udp_body cr now c (be_word (take 8 header)) (be_word (drop 8 header)) 32 (header @ xor_bytes eih header @ body)))"
    using assms(3) a(1) b(1) header_slices [OF l(1)] by (simp add: decrypt_multi_def header_def eih_def del: and_then_Ok_iff)
qed

lemma decrypt_multi_cases:
  assumes "udp_crates_ok cr ae uc" and "keys_fit cr (Aead2022 m) users" and "length key = k_len cr m"
  shows "decrypt_multi cr uc now m key users packet \<noteq> Panic"
    and "decrypt_multi cr uc now m key users packet = Ok dg \<Longrightarrow> udp_authentic cr uc now m users (dg_session dg) (drop 32 packet) 0 dg"
proof -
  have key: "length key = 16 \<or> length key = 32" using assms(3) crates_lengths(1) [OF assms(1), of m] by simp
  have short: "length packet < 32 + 11 + 16 \<Longrightarrow> decrypt_multi cr uc now m key users packet = Err InvalidData" by (simp add: decrypt_multi_def)
  note r = decrypt_multi_result [OF assms(1) key, of packet]
  show "decrypt_multi cr uc now m key users packet \<noteq> Panic"
  proof (cases "32 + 11 + 16 \<le> length packet")
    case True
    then show ?thesis using r(1,2) crates_cipher [OF assms(1)]
      by (auto simp: r(3) and_then_Panic_iff elim!: ok_or.elims intro!: parse_udp_body_no_panic [OF assms(1)])
  qed (simp add: short)
  show "udp_authentic cr uc now m users (dg_session dg) (drop 32 packet) 0 dg" if ok: "decrypt_multi cr uc now m key users packet = Ok dg"
  proof -
    let ?header = "aes_dec cr key (take 16 packet)" and ?eih = "aes_dec cr key (take 16 (drop 16 packet))"
    have l: "32 + 11 + 16 \<le> length packet" using ok short by (metis not_le res.distinct(1))
    obtain c body where c: "identity_map users (xor_bytes ?eih ?header) = Some c"
        "uc_decrypt uc m (cr_key c) (be_word (take 8 ?header)) (drop 4 ?header) (drop 32 packet) = Some body"
        "parse_udp_body cr now c (be_word (take 8 ?header)) (be_word (drop 8 ?header)) 32 ((?header @ xor_bytes ?eih ?header) @ body) = Ok dg"
      using ok r(3) [OF l] by (auto elim!: ok_or.elims)
    then show ?thesis
      using parse_udp_body_Ok [OF c(3)] r(1,2) [OF l] assms(2) by (auto simp: udp_authentic_def keys_fit_def)
  qed
qed

lemma decrypt_chacha_cases:
  assumes "udp_crates_ok cr ae uc"
  shows "decrypt_chacha cr uc now users packet cached \<noteq> Panic"
    and "decrypt_chacha cr uc now users packet cached = Ok dg \<Longrightarrow> udp_authentic cr uc now ChaCha20Poly1305_2022 users 0 (drop 24 packet) 16 dg"
proof -
  have data: "length data \<ge> 27" if "uc_decrypt uc m k s n (drop 24 packet) = Some data" "24 + 16 + 11 + 16 \<le> length packet" for m k s n data
    using crates_cipher [OF assms that(1)] that(2) by simp
  show "decrypt_chacha cr uc now users packet cached \<noteq> Panic"
  proof
    assume "decrypt_chacha cr uc now users packet cached = Panic"
    then obtain c nonce where c: "24 + 16 + 11 + 16 \<le> length packet"
        "and_then (ok_or InvalidData (uc_decrypt uc ChaCha20Poly1305_2022 (cr_key c) 0 nonce (drop 24 packet))) (\<lambda>data.
           and_then (slice data 0 8) (\<lambda>sid. and_then (slice data 8 16) (\<lambda>pid. parse_udp_body cr now c (be_word sid) (be_word pid) 16 data))) = Panic"
      by (auto simp: decrypt_chacha_def and_then_Panic_iff [of "ok_or e v" for e v] and_then_Panic_iff [of "slice packet a b" for a b] slice_Ok not_less
          split: if_splits)
    then obtain data where d: "uc_decrypt uc ChaCha20Poly1305_2022 (cr_key c) 0 nonce (drop 24 packet) = Some data"
        "and_then (slice data 0 8) (\<lambda>sid. and_then (slice data 8 16) (\<lambda>pid. parse_udp_body cr now c (be_word sid) (be_word pid) 16 data)) = Panic"
      by (auto simp: and_then_Panic_iff [of "ok_or e v" for e v] elim!: ok_or.elims)
    have "27 \<le> length data" using data [OF d(1) c(1)] .
    then show False using d(2) parse_udp_body_no_panic [OF assms, of 16 data] by (simp add: slice_Ok)
  qed
  show "udp_authentic cr uc now ChaCha20Poly1305_2022 users 0 (drop 24 packet) 16 dg" if ok: "decrypt_chacha cr uc now users packet cached = Ok dg"
  proof -
    obtain c nonce data sid pid where c: "find_credential users cached = Some c" "24 + 16 + 11 + 16 \<le> length packet"
        "uc_decrypt uc ChaCha20Poly1305_2022 (cr_key c) 0 nonce (drop 24 packet) = Some data"
        "parse_udp_body cr now c sid pid 16 data = Ok dg"
      using ok by (auto simp: decrypt_chacha_def not_less elim!: ok_or.elims split: if_splits)
    have "parse_udp_body cr now c sid pid 16 (take 16 data @ drop 16 data) = Ok dg" "length (take 16 data) = 16"
      using c(4) data [OF c(3,2)] by simp_all
    from parse_udp_body_Ok [OF this] show ?thesis using c find_credential_mem [OF c(1)] by (auto simp: udp_authentic_def)
  qed
qed

lemma first_open_Some: "first_open f x cs = Some r \<Longrightarrow> \<exists>c\<in>set cs. f x c = Some r"
  by (induction cs) (auto split: option.splits)

lemma legacy_open_cases:
  assumes "udp_crates_ok cr ae uc" and "legacy_open cr ae chk clock kind salt encrypted x c = Some (r, x')"
  shows "r \<noteq> Panic" and "r = Ok dg \<Longrightarrow> dg_credential dg = c \<and> chk clock x salt = Some x' \<and>
    (\<exists>p. ae_open ae kind (ae_hkdf ae (cr_key c) salt (key_len kind)) (replicate 12 0)
       (take (length encrypted - 16) encrypted) (drop (length encrypted - 16) encrypted) = Some p)"
  using assms(2) crates_address [OF assms(1)]
  by (auto simp: legacy_open_def decrypt_in_place_def Let_def slice_def elim!: ok_or.elims
      split: res.splits option.splits if_splits)

lemma decrypt_legacy_cases:
  assumes "udp_crates_ok cr ae uc" and "decrypt_legacy cr ae chk clock kind users packet cached x = (r, x')"
  shows "r \<noteq> Panic" and "r = Ok dg \<Longrightarrow> dg_credential dg \<in> set (credentials users) \<and> chk clock x (take (salt_len kind) packet) = Some x'"
proof -
  have cases: "r = Err InvalidData \<or>
    (\<exists>c\<in>set (credentials users). legacy_open cr ae chk clock kind (take (salt_len kind) packet) (drop (salt_len kind) packet) x c = Some (r, x'))"
    using assms(2) by (auto simp: decrypt_legacy_def Let_def dest!: first_open_Some split: if_splits option.splits)
  show "r \<noteq> Panic" using cases by (auto dest: legacy_open_cases(1) [OF assms(1)])
  show "dg_credential dg \<in> set (credentials users) \<and> chk clock x (take (salt_len kind) packet) = Some x'" if "r = Ok dg"
    using cases that by (auto dest: legacy_open_cases(2) [OF assms(1)])
qed

lemma decrypt_none_cases:
  assumes "udp_crates_ok cr ae uc"
  shows "decrypt_none cr users packet \<noteq> Panic" and "decrypt_none cr users packet = Ok dg \<Longrightarrow> dg_credential dg \<in> set (credentials users)"
  using crates_address [OF assms]
  by (auto simp: decrypt_none_def and_then_Panic_iff slice_def elim!: ok_or.elims dest: find_credential_mem split: if_splits)

text \<open>What a client sends.\<close>

definition client_body :: "'a ss_crates \<Rightarrow> u64 \<Rightarrow> bytes \<Rightarrow> 'a \<Rightarrow> bytes \<Rightarrow> bytes" where
  "client_body cr t padding addr payload = [0] @ u64_bytes t @ be16_bytes (of_nat (length padding)) @ padding @ write_address cr addr @ payload"

definition client_packet :: "'a ss_crates \<Rightarrow> udp_cipher \<Rightarrow> kind2022 \<Rightarrow> bytes option \<Rightarrow> bytes \<Rightarrow> bytes \<Rightarrow> u64 \<Rightarrow> u64 \<Rightarrow> bytes \<Rightarrow> bytes" where
  "client_packet cr uc m server_key key nonce sid pid body =
     (let ids = u64_bytes sid @ u64_bytes pid
      in if m = ChaCha20Poly1305_2022 then nonce @ uc_encrypt uc m key 0 nonce (ids @ body)
         else case server_key of
                Some skey \<Rightarrow> aes_enc cr skey ids @ aes_enc cr skey (xor_bytes (identity_hash_of cr key) ids) @ uc_encrypt uc m key sid (drop 4 ids) body
              | None \<Rightarrow> aes_enc cr key ids @ uc_encrypt uc m key sid (drop 4 ids) body)"

lemma parse_client_body:
  assumes "address_ok cr addr" and "length padding < 65536" and "abs_diff now t \<le> MAX_TIMESTAMP_SKEW_SECS" and "length pre = offset"
  shows "parse_udp_body cr (Some now) c sid pid offset (pre @ client_body cr t padding addr payload) =
           Ok \<lparr>dg_credential = c, dg_address = addr, dg_payload = payload, dg_session = sid, dg_packet = pid\<rparr>"
proof -
  let ?rest = "padding @ write_address cr addr @ payload" and ?n = "of_nat (length padding) :: u16"
  have split: "pre @ client_body cr t padding addr payload = (pre @ [0] @ u64_bytes t) @ be16_bytes ?n @ ?rest" by (simp add: client_body_def)
  have "be16_at (pre @ client_body cr t padding addr payload) (offset + 9) = Ok ?n"
    unfolding split by (rule be16_at_append) (simp add: assms(4))
  moreover have "byte_at (pre @ client_body cr t padding addr payload) offset = Ok 0"
    using assms(4) by (simp add: byte_at_def client_body_def nth_append)
  moreover have "slice (pre @ client_body cr t padding addr payload) (offset + 1) (offset + 9) = Ok (u64_bytes t)"
    using assms(4) by (simp add: slice_def client_body_def)
  moreover have d: "drop (offset + 11 + unat ?n) (pre @ client_body cr t padding addr payload) = write_address cr addr @ payload"
  proof -
    have "pre @ client_body cr t padding addr payload = (pre @ [0] @ u64_bytes t @ be16_bytes ?n @ padding) @ write_address cr addr @ payload"
      by (simp add: client_body_def)
    moreover have "length (pre @ [0] @ u64_bytes t @ be16_bytes ?n @ padding) = offset + 11 + unat ?n" using assms(2,4) by (simp add: unat_of_nat_u16)
    ultimately show ?thesis by (metis append_eq_conv_conj)
  qed
  moreover have "slice (pre @ client_body cr t padding addr payload) (offset + 11 + unat ?n + length (write_address cr addr))
      (length (pre @ client_body cr t padding addr payload)) = Ok payload"
  proof -
    have "drop (offset + 11 + unat ?n + length (write_address cr addr)) (pre @ client_body cr t padding addr payload) = payload"
      using arg_cong [OF d, of "drop (length (write_address cr addr))"] append_eq_conv_conj [THEN iffD1, OF refl, of "write_address cr addr" payload]
      by (simp add: add.commute del: drop_append)
    moreover have "offset + 11 + unat ?n + length (write_address cr addr) \<le> length (pre @ client_body cr t padding addr payload)"
      using assms(2,4) by (simp add: client_body_def unat_of_nat_u16)
    ultimately show ?thesis by (simp only: slice_to_end)
  qed
  moreover have "offset + 11 + unat ?n \<le> length (pre @ client_body cr t padding addr payload)"
    using assms(2,4) by (simp add: client_body_def unat_of_nat_u16)
  ultimately show ?thesis using assms(1,3) by (simp add: parse_udp_body_def address_ok_def Let_def not_less [symmetric])
qed

lemma length_client_body: "11 \<le> length (client_body cr t padding addr payload)"
  by (simp add: client_body_def)

lemma take_u64_ids: "take 8 (u64_bytes sid @ u64_bytes pid) = u64_bytes sid" "drop 8 (u64_bytes sid @ u64_bytes pid) = u64_bytes pid"
  by simp_all

section \<open>Properties\<close>

text \<open>No datagram makes the server panic, whatever its bytes, its length and the cached user; and if one is accepted, its credential is one of the
  users', its body was opened with that user's key, the body is a request of type 0 whose timestamp is within 30 seconds of the clock, and address and
  payload are what the opened body says. With the older methods the salt has passed the nonce filter.\<close>

theorem udp_decrypt_safe:
  assumes "udp_crates_ok cr ae uc" and "users = update_users cr method us"
    and "\<And>key. server_key = Some key \<Longrightarrow> length key = method_key_len cr method"
    and "decrypt_udp_with_cache cr ae uc chk clock now method server_key users packet cached x = (r, x')"
  shows "r \<noteq> Panic \<and> (\<forall>dg. r = Ok dg \<longrightarrow> dg_credential dg \<in> set (credentials users) \<and>
    (case method of
       MNone \<Rightarrow> True
     | Legacy kind \<Rightarrow> chk clock x (take (salt_len kind) packet) = Some x'
     | Aead2022 m \<Rightarrow>
         \<exists>sid nonce n skip body.
           uc_decrypt uc m (cr_key (dg_credential dg)) sid nonce (drop n packet) = Some body \<and> body_says cr now (drop skip body) dg))"
proof (cases "method")
  case MNone
  then show ?thesis using assms(4) decrypt_none_cases [OF assms(1), of users packet] by (auto simp: decrypt_udp_with_cache_def)
next
  case (Legacy kind)
  then show ?thesis using assms(4) decrypt_legacy_cases [OF assms(1), of chk clock kind users packet cached x] by (auto simp: decrypt_udp_with_cache_def)
next
  case (Aead2022 m)
  have authentic: "dg_credential dg \<in> set (credentials users) \<and> (\<exists>sid nonce n skip body.
      uc_decrypt uc m (cr_key (dg_credential dg)) sid nonce (drop n packet) = Some body \<and> body_says cr now (drop skip body) dg)"
    if "udp_authentic cr uc now m users sid (drop n packet) skip dg" for sid n skip dg
    using that unfolding udp_authentic_def by blast
  show ?thesis
  proof (cases "m = ChaCha20Poly1305_2022")
    case True
    then show ?thesis
      using assms(4) Aead2022 decrypt_chacha_cases [OF assms(1), of now users packet cached] authentic by (auto simp: decrypt_udp_with_cache_def)
  next
    case False
    have fit': "keys_fit cr (Aead2022 m) users" using update_users_fit assms(2) Aead2022 by simp
    show ?thesis
    proof (cases server_key)
      case None
      then show ?thesis
        using assms(4) Aead2022 False decrypt_single_cases [OF assms(1) fit', of now packet cached] authentic by (auto simp: decrypt_udp_with_cache_def)
    next
      case (Some key)
      then have "length key = k_len cr m" using assms(3) Aead2022 by simp
      then show ?thesis
        using assms(4) Aead2022 False Some decrypt_multi_cases [OF assms(1) fit', of key now packet] authentic by (auto simp: decrypt_udp_with_cache_def)
    qed
  qed
qed

text \<open>A small instance, at which the properties are applied: the tag is the key.\<close>

definition toy_udp :: udp_cipher where
  "toy_udp = \<lparr>uc_decrypt = \<lambda>m k s n ct. (if 16 \<le> length ct \<and> drop (length ct - 16) ct = take 16 (k @ replicate 16 0) then Some (take (length ct - 16) ct) else None),
     uc_encrypt = \<lambda>m k s n p. p @ take 16 (k @ replicate 16 0)\<rparr>"

lemma toy_udp_ok: "udp_crates_ok toy_crates clear_aead toy_udp"
  unfolding udp_crates_ok_def
  by (intro conjI allI impI; simp add: toy_crates_def toy_udp_def clear_aead_def split: list.splits if_splits; fastforce)

theorem udp_decrypt_safe_witness:
  "fst (decrypt_udp_with_cache toy_crates clear_aead toy_udp toy_filter 0 (Some 100) (Aead2022 Aes128Gcm2022) (Some (replicate 16 3))
     (update_users toy_crates (Aead2022 Aes128Gcm2022) toy_us) (replicate 70 0) None []) \<noteq> Panic"
proof -
  obtain r x' where d: "decrypt_udp_with_cache toy_crates clear_aead toy_udp toy_filter 0 (Some 100) (Aead2022 Aes128Gcm2022) (Some (replicate 16 3))
     (update_users toy_crates (Aead2022 Aes128Gcm2022) toy_us) (replicate 70 0) None [] = (r, x')" by fastforce
  have "r \<noteq> Panic" using udp_decrypt_safe [OF toy_udp_ok refl _ d] by simp
  then show ?thesis by (simp add: d)
qed

lemma client_chacha:
  assumes "udp_crates_ok cr ae uc" and "find_credential users cached = Some c" and "11 \<le> length body" and "length nonce = 24"
  shows "decrypt_chacha cr uc now users (client_packet cr uc ChaCha20Poly1305_2022 sk (cr_key c) nonce sid pid body) cached =
           parse_udp_body cr now c sid pid 16 ((u64_bytes sid @ u64_bytes pid) @ body)"
proof -
  let ?m = ChaCha20Poly1305_2022 and ?ids = "u64_bytes sid @ u64_bytes pid" and ?key = "cr_key c"
  let ?packet = "client_packet cr uc ?m sk ?key nonce sid pid body"
  note seal = crates_seal [OF assms(1)]
  have p: "?packet = nonce @ uc_encrypt uc ?m ?key 0 nonce (?ids @ body)" by (simp add: client_packet_def)
  have "slice (?ids @ body) 0 8 = Ok (u64_bytes sid)" "slice (?ids @ body) 8 16 = Ok (u64_bytes pid)" by (simp_all add: slice_def)
  moreover have "slice ?packet 0 24 = Ok nonce" "drop 24 ?packet = uc_encrypt uc ?m ?key 0 nonce (?ids @ body)" using assms(4) by (simp_all add: p slice_def)
  moreover have "\<not> length ?packet < 24 + 16 + 11 + 16" using assms(3,4) by (simp add: p seal(1))
  ultimately show ?thesis using assms(2) by (simp add: decrypt_chacha_def seal(2))
qed

lemma client_single:
  assumes "udp_crates_ok cr ae uc" and "keys_fit cr (Aead2022 m) users" and "find_credential users cached = Some c" and "11 \<le> length body"
    and "m \<noteq> ChaCha20Poly1305_2022"
  shows "decrypt_single cr uc now m users (client_packet cr uc m None (cr_key c) nonce sid pid body) cached =
           parse_udp_body cr now c sid pid 16 ((u64_bytes sid @ u64_bytes pid) @ body)"
proof -
  let ?ids = "u64_bytes sid @ u64_bytes pid" and ?key = "cr_key c"
  let ?packet = "client_packet cr uc m None ?key nonce sid pid body"
  note seal = crates_seal [OF assms(1)] and aes = crates_aes [OF assms(1)]
  have p: "?packet = aes_enc cr ?key ?ids @ uc_encrypt uc m ?key sid (drop 4 ?ids) body" using assms(5) by (simp add: client_packet_def Let_def)
  have l: "length (aes_enc cr ?key ?ids) = 16" using aes(2) [of ?ids] by simp
  then have h: "aes_dec cr ?key (take 16 ?packet) = ?ids" "drop 16 ?packet = uc_encrypt uc m ?key sid (drop 4 ?ids) body"
    using aes(3) [of ?ids] by (simp_all add: p)
  have "16 + 11 + 16 \<le> length ?packet" using l assms(4) by (simp add: p seal(1))
  then show ?thesis using decrypt_single_result(2) [OF assms(1,2) _ assms(3), of ?packet now] seal(2) h by simp
qed

lemma client_multi:
  assumes "udp_crates_ok cr ae uc" and "identity_map users (identity_hash_of cr (cr_key c)) = Some c" and "11 \<le> length body"
    and "m \<noteq> ChaCha20Poly1305_2022" and "length skey = k_len cr m"
  shows "decrypt_multi cr uc now m skey users (client_packet cr uc m (Some skey) (cr_key c) nonce sid pid body) =
           parse_udp_body cr now c sid pid 32 (((u64_bytes sid @ u64_bytes pid) @ identity_hash_of cr (cr_key c)) @ body)"
proof -
  let ?ids = "u64_bytes sid @ u64_bytes pid" and ?key = "cr_key c"
  let ?packet = "client_packet cr uc m (Some skey) ?key nonce sid pid body" and ?id = "identity_hash_of cr ?key"
  note seal = crates_seal [OF assms(1)] and aes = crates_aes [OF assms(1)]
  have p: "?packet = aes_enc cr skey ?ids @ aes_enc cr skey (xor_bytes ?id ?ids) @ uc_encrypt uc m ?key sid (drop 4 ?ids) body"
    using assms(4) by (simp add: client_packet_def Let_def)
  have id: "length ?id = 16" using crates_lengths(2) [OF assms(1)] by (simp add: identity_hash_of_def)
  have l: "length (aes_enc cr skey ?ids) = 16" "length (aes_enc cr skey (xor_bytes ?id ?ids)) = 16" using aes(2) id by simp_all
  have h: "aes_dec cr skey (take 16 ?packet) = ?ids" "drop 32 ?packet = uc_encrypt uc m ?key sid (drop 4 ?ids) body"
    using aes(3) [of ?ids] l by (simp_all add: p)
  have "take 16 (drop 16 ?packet) = aes_enc cr skey (xor_bytes ?id ?ids)" using l by (simp add: p)
  then have e: "xor_bytes (aes_dec cr skey (take 16 (drop 16 ?packet))) ?ids = ?id" using aes(3) id by (simp add: xor_bytes_twice)
  have "length skey = 16 \<or> length skey = 32" using assms(5) crates_lengths(1) [OF assms(1), of m] by simp
  moreover have "32 + 11 + 16 \<le> length ?packet" using l assms(3) by (simp add: p seal(1))
  ultimately show ?thesis
    using decrypt_multi_result(3) [OF assms(1), of skey ?packet now m users] seal(2) h e assms(2) by simp
qed

text \<open>A request of a user is accepted as his: the packet that a client seals with the user's key, its identity under the server key where there is one, is
  opened to exactly the address, the payload and the numbers the client put in, for every payload, padding, session and packet number; with no
  server key, or with ChaCha20, if the user is the one the source address is cached for, or else the first one.\<close>

theorem udp_request_accepted:
  assumes "udp_crates_ok cr ae uc" and "users = update_users cr (Aead2022 m) us" and "c \<in> set (credentials users)"
    and "inj_on (\<lambda>c. identity_hash_of cr (cr_key c)) (set (credentials users))"
    and "server_key = None \<or> m = ChaCha20Poly1305_2022 \<Longrightarrow> find_credential users cached = Some c"
    and "\<And>key. server_key = Some key \<Longrightarrow> length key = k_len cr m"
    and "address_ok cr addr" and "length padding < 65536" and "abs_diff now t \<le> MAX_TIMESTAMP_SKEW_SECS" and "length nonce = 24"
  shows "decrypt_udp_with_cache cr ae uc chk clock (Some now) (Aead2022 m) server_key users
           (client_packet cr uc m server_key (cr_key c) nonce sid pid (client_body cr t padding addr payload)) cached x =
         (Ok \<lparr>dg_credential = c, dg_address = addr, dg_payload = payload, dg_session = sid, dg_packet = pid\<rparr>, x)"
proof -
  let ?ids = "u64_bytes sid @ u64_bytes pid" and ?body = "client_body cr t padding addr payload"
  have fit: "keys_fit cr (Aead2022 m) users" using update_users_fit assms(2) by simp
  note parse = parse_client_body [OF assms(7-9)] and body = length_client_body [of cr t padding addr payload]
  have id: "identity_map users (identity_hash_of cr (cr_key c)) = Some c"
    using identity_fold_unique [of c "credentials users" "\<lambda>c. identity_hash_of cr (cr_key c)" Map.empty] assms(2-4)
    by (auto simp: update_users_def index_new_def Let_def)
  have len: "length (identity_hash_of cr (cr_key c)) = 16" using crates_lengths(2) [OF assms(1)] by (simp add: identity_hash_of_def)
  consider (chacha) "m = ChaCha20Poly1305_2022" | (single) "m \<noteq> ChaCha20Poly1305_2022" "server_key = None"
    | (multi) skey where "m \<noteq> ChaCha20Poly1305_2022" "server_key = Some skey" by blast
  then show ?thesis
  proof cases
    case chacha
    then show ?thesis
      using client_chacha [OF assms(1) _ body assms(10)] assms(5) parse [of ?ids 16] by (simp add: decrypt_udp_with_cache_def)
  next
    case single
    then show ?thesis
      using client_single [OF assms(1) fit _ body] assms(5) parse [of ?ids 16] by (simp add: decrypt_udp_with_cache_def)
  next
    case (multi skey)
    then show ?thesis
      using client_multi [OF assms(1) id body] assms(6) parse [of "?ids @ identity_hash_of cr (cr_key c)" 32] len by (simp add: decrypt_udp_with_cache_def)
  qed
qed

theorem udp_request_accepted_witness:
  "fst (decrypt_udp_with_cache toy_crates clear_aead toy_udp toy_filter 0 (Some 110) (Aead2022 Aes128Gcm2022) (Some (replicate 16 3))
     (update_users toy_crates (Aead2022 Aes128Gcm2022) toy_us)
     (client_packet toy_crates toy_udp Aes128Gcm2022 (Some (replicate 16 3)) (cr_key (toy_cred 1)) (replicate 24 0) 5 6 (client_body toy_crates 100 [1] 7 [8])) None []) =
   Ok \<lparr>dg_credential = toy_cred 1, dg_address = 7, dg_payload = [8], dg_session = 5, dg_packet = 6\<rparr>"
proof -
  have "inj_on (\<lambda>c. identity_hash_of toy_crates (cr_key c)) (set (credentials (update_users toy_crates (Aead2022 Aes128Gcm2022) toy_us)))"
    by (simp add: toy_users identity_hash_of_def toy_cred_def)
  from udp_request_accepted [OF toy_udp_ok refl _ this _ _ toy_address, of "toy_cred 1" "Some (replicate 16 3)" None "[1]" 110 100 "replicate 24 0" toy_filter]
  show ?thesis by (simp add: toy_users abs_diff_def MAX_TIMESTAMP_SKEW_SECS_def)
qed

text \<open>What the server answers can be read by the client: no answer is longer than a UDP datagram, and with a 2022 AES method the client decrypts the first block
  with the user's key to the server's session and packet number, and with these the rest to an answer of type 1 with the clock, the client's own session, and
  the address and the payload as they were given (with a byte of padding if the payload is empty).\<close>

theorem udp_answer_opens:
  assumes "udp_crates_ok cr ae uc" and "length (cr_key c) = k_len cr m" and "m \<noteq> ChaCha20Poly1305_2022"
    and "encrypt_udp cr ae uc rnd pad (Some now) (Aead2022 m) c addr client_session server_session packet_id payload = Ok packet"
  shows "length packet \<le> UDP_LIMIT \<and>
         aes_dec cr (cr_key c) (take 16 packet) = u64_bytes server_session @ u64_bytes packet_id \<and>
         uc_decrypt uc m (cr_key c) server_session (drop 4 (aes_dec cr (cr_key c) (take 16 packet))) (drop 16 packet) =
           Some ([1] @ u64_bytes now @ u64_bytes client_session @
                 (if payload = [] then [0, 1, pad] else [0, 0]) @ write_address cr addr @ payload)"
proof -
  let ?ids = "u64_bytes server_session @ u64_bytes packet_id" and ?padding = "if payload = [] then [pad] else []"
  let ?message = "[1] @ u64_bytes now @ u64_bytes client_session @ be16_bytes (of_nat (length ?padding)) @ ?padding @ write_address cr addr @ payload"
  have key: "length (cr_key c) = 16 \<or> length (cr_key c) = 32" using assms(2) crates_lengths(1) [OF assms(1), of m] by simp
  then have "aes_block cr (cr_key c) ?ids True = Ok (aes_enc cr (cr_key c) ?ids)" by (auto simp: aes_block_def aes_block_encrypt_def)
  then have p: "packet = aes_enc cr (cr_key c) ?ids @ uc_encrypt uc m (cr_key c) server_session (drop 4 ?ids) ?message" "length packet \<le> UDP_LIMIT"
    using assms(3,4) by (auto simp: encrypt_udp_def Let_def split: if_splits)
  have l: "length (aes_enc cr (cr_key c) ?ids) = 16" "aes_dec cr (cr_key c) (aes_enc cr (cr_key c) ?ids) = ?ids"
    using crates_aes(2,3) [OF assms(1), of ?ids] by simp_all
  then have t: "take 16 packet = aes_enc cr (cr_key c) ?ids" "drop 16 packet = uc_encrypt uc m (cr_key c) server_session (drop 4 ?ids) ?message"
    by (simp_all add: p(1))
  have "?message = [1] @ u64_bytes now @ u64_bytes client_session @ (if payload = [] then [0, 1, pad] else [0, 0]) @ write_address cr addr @ payload"
    by (simp add: be16_bytes_def)
  then show ?thesis using p(2) l(2) crates_seal(2) [OF assms(1)] unfolding t by presburger
qed

theorem udp_answer_opens_witness:
  "\<exists>packet. encrypt_udp toy_crates clear_aead toy_udp [] 9 (Some 100) (Aead2022 Aes128Gcm2022) (toy_cred 0) 7 1 2 3 [] = Ok packet \<and> length packet \<le> UDP_LIMIT"
proof -
  obtain packet where p: "encrypt_udp toy_crates clear_aead toy_udp [] 9 (Some 100) (Aead2022 Aes128Gcm2022) (toy_cred 0) 7 1 2 3 [] = Ok packet"
    by (simp add: encrypt_udp_def Let_def aes_block_def aes_block_encrypt_def toy_keys UDP_LIMIT_def toy_udp_def toy_crates_def)
  from udp_answer_opens [OF toy_udp_ok _ _ p] p show ?thesis by (simp add: toy_keys)
qed

end
