(* ===== verification/Replay_Window.thy ===== *)
theory Replay_Window
  imports Prelude
begin

text \<open>
  The replay window of \<^verbatim>\<open>src/protocol/shadowsocks/udp.rs\<close>: a bitmap of 1024 bits in 16 words that says which of the last packet
  numbers below the highest one were accepted. The loop that shifts it works in place, from the last word to the first.
  It is related to the set of all packet numbers accepted so far.
\<close>

section \<open>The window\<close>

record response_session =
  rs_id :: u64
  rs_counter :: u64

record replay_window =
  bitmap :: "u64 list"
  highest :: u64
  initialized :: bool
  seen :: nat
  response :: response_session

definition window_new :: "nat \<Rightarrow> response_session \<Rightarrow> replay_window" where
  "window_new now resp = \<lparr>bitmap = replicate 16 0, highest = 0, initialized = False, seen = now, response = resp\<rparr>"

text \<open>The new value of a word, read from the words at and below it.\<close>

definition shifted_word :: "nat \<Rightarrow> nat \<Rightarrow> u64 list \<Rightarrow> nat \<Rightarrow> u64" where
  "shifted_word word_shift bit_shift bm i =
     (if i \<ge> word_shift
      then let val = push_bit bit_shift (bm ! (i - word_shift))
           in if bit_shift > 0 \<and> i > word_shift then val OR drop_bit (64 - bit_shift) (bm ! (i - word_shift - 1)) else val
      else 0)"

definition shift_bitmap :: "nat \<Rightarrow> nat \<Rightarrow> u64 list \<Rightarrow> u64 list" where
  "shift_bitmap word_shift bit_shift bm = fold (\<lambda>i bm. bm[i := shifted_word word_shift bit_shift bm i]) (rev [0..<16]) bm"

definition window_accept :: "nat \<Rightarrow> u64 \<Rightarrow> replay_window \<Rightarrow> bool \<times> replay_window" where
  "window_accept now packet w =
     (let w = w\<lparr>seen := now\<rparr>
      in if \<not> initialized w
         then (True, w\<lparr>initialized := True, highest := packet, bitmap := (bitmap w)[0 := 1]\<rparr>)
         else if packet > highest w
         then let diff = packet - highest w;
                  bm = (if diff \<ge> 1024 then replicate 16 0
                        else shift_bitmap (unat (diff div 64)) (unat (diff mod 64)) (bitmap w))
              in (True, w\<lparr>bitmap := bm[0 := bm ! 0 OR 1], highest := packet\<rparr>)
         else let diff = highest w - packet
              in if diff \<ge> 1024 then (False, w)
                 else let word_idx = unat (diff div 64); mask = push_bit (unat (diff mod 64)) 1
                      in if bitmap w ! word_idx AND mask \<noteq> 0 then (False, w)
                         else (True, w\<lparr>bitmap := (bitmap w)[word_idx := bitmap w ! word_idx OR mask]\<rparr>))"

section \<open>The specification\<close>

text \<open>A packet number is good if it is the first one, above all accepted ones, or among the 1024 numbers that end at the highest
  accepted one and not accepted before.\<close>

definition fresh :: "nat set \<Rightarrow> nat \<Rightarrow> bool" where
  "fresh S p \<longleftrightarrow> S = {} \<or> p > Max S \<or> (Max S < p + 1024 \<and> p \<notin> S)"

fun spec_accepts :: "nat set \<Rightarrow> nat list \<Rightarrow> bool list" where
  "spec_accepts S [] = []"
| "spec_accepts S (p # ps) = (if fresh S p then True # spec_accepts (insert p S) ps else False # spec_accepts S ps)"

fun window_accepts :: "replay_window \<Rightarrow> (nat \<times> u64) list \<Rightarrow> bool list" where
  "window_accepts w [] = []"
| "window_accepts w ((now, p) # ps) = (case window_accept now p w of (ok, w') \<Rightarrow> ok # window_accepts w' ps)"

definition accepted :: "replay_window \<Rightarrow> (nat \<times> u64) list \<Rightarrow> u64 list" where
  "accepted w ps = map snd (map fst (filter snd (zip ps (window_accepts w ps))))"

section \<open>Lemmas\<close>

subsection \<open>Shifting\<close>

definition bm_bit :: "u64 list \<Rightarrow> nat \<Rightarrow> bool" where
  "bm_bit bm b = bit (bm ! (b div 64)) (b mod 64)"

lemma shifted_word_cong:
  "(\<And>j. j \<le> i \<Longrightarrow> bm ! j = bm' ! j) \<Longrightarrow> shifted_word ws bs bm i = shifted_word ws bs bm' i"
  by (simp add: shifted_word_def Let_def)

lemma shift_loop:
  "n \<le> length bm \<Longrightarrow>
   length (fold (\<lambda>i bm. bm[i := shifted_word ws bs bm i]) (rev [0..<n]) bm) = length bm \<and>
   (\<forall>k. fold (\<lambda>i bm. bm[i := shifted_word ws bs bm i]) (rev [0..<n]) bm ! k = (if k < n then shifted_word ws bs bm k else bm ! k))"
proof (induction n arbitrary: bm)
  case (Suc n)
  let ?bm = "bm[n := shifted_word ws bs bm n]"
  have "shifted_word ws bs ?bm k = shifted_word ws bs bm k" if "k < n" for k
    by (rule shifted_word_cong) (use that in auto)
  then show ?case using Suc.IH [of ?bm] Suc.prems by (auto simp: less_Suc_eq)
qed simp

lemma length_shift_bitmap [simp]: "length bm = 16 \<Longrightarrow> length (shift_bitmap ws bs bm) = 16"
  using shift_loop [of 16 bm ws bs] by (simp add: shift_bitmap_def)

lemma shift_bitmap_nth: "length bm = 16 \<Longrightarrow> i < 16 \<Longrightarrow> shift_bitmap ws bs bm ! i = shifted_word ws bs bm i"
  using shift_loop [of 16 bm ws bs] by (simp add: shift_bitmap_def)

lemma bit_shifted_word:
  assumes "bs < 64" and "j < 64"
  shows "bit (shifted_word ws bs bm i) j \<longleftrightarrow> 64 * ws + bs \<le> 64 * i + j \<and> bm_bit bm (64 * i + j - (64 * ws + bs))"
proof (cases "ws \<le> i")
  case True
  then obtain k where k: "i = ws + k" by (metis le_iff_add)
  show ?thesis
  proof (cases "bs \<le> j")
    case True
    then have e: "64 * i + j - (64 * ws + bs) = 64 * k + (j - bs)" by (simp add: k)
    have d: "bm_bit bm (64 * i + j - (64 * ws + bs)) = bit (bm ! k) (j - bs)" unfolding e bm_bit_def using assms by simp
    have "\<not> bit (drop_bit (64 - bs) (x :: u64)) j" if "0 < bs" for x
      using True that bit_imp_le_length [of x "64 - bs + j"] by (auto simp: bit_drop_bit_eq)
    then show ?thesis
      unfolding d using True assms by (auto simp: shifted_word_def k Let_def bit_push_bit_iff bit_or_iff)
  next
    case False
    show ?thesis
    proof (cases k)
      case 0
      then show ?thesis using False by (simp add: shifted_word_def k bit_push_bit_iff)
    next
      case (Suc m)
      define r where "r = 64 + j - bs"
      have r: "r < 64" "64 - bs + j = r" using assms False by (simp_all add: r_def)
      have e: "64 * i + j - (64 * ws + bs) = 64 * m + r" using assms False by (simp add: k Suc r_def)
      have "bm_bit bm (64 * i + j - (64 * ws + bs)) = bit (bm ! m) r" unfolding e bm_bit_def using r(1) by simp
      then show ?thesis
        using False assms r by (simp add: shifted_word_def k Suc Let_def bit_push_bit_iff bit_or_iff bit_drop_bit_eq)
    qed
  qed
next
  case False
  then show ?thesis using assms by (simp add: shifted_word_def)
qed

lemma bm_bit_shift:
  assumes "length bm = 16" and "bs < 64" and "b < 1024"
  shows "bm_bit (shift_bitmap ws bs bm) b \<longleftrightarrow> 64 * ws + bs \<le> b \<and> bm_bit bm (b - (64 * ws + bs))"
proof -
  have "bm_bit (shift_bitmap ws bs bm) b = bit (shifted_word ws bs bm (b div 64)) (b mod 64)"
    unfolding bm_bit_def using assms by (subst shift_bitmap_nth) auto
  then show ?thesis using bit_shifted_word [OF assms(2), of "b mod 64" ws bm "b div 64"] by simp
qed

lemma bm_bit_set:
  assumes "length bm = 16" and "c < 1024" and "b < 1024"
  shows "bm_bit (bm[c div 64 := bm ! (c div 64) OR push_bit (c mod 64) 1]) b \<longleftrightarrow> b = c \<or> bm_bit bm b"
proof (cases "b div 64 = c div 64")
  case True
  then have "b = c \<longleftrightarrow> b mod 64 = c mod 64" by (metis div_mult_mod_eq)
  then show ?thesis using assms True by (auto simp: bm_bit_def bit_or_iff bit_exp_iff possible_bit_word)
next
  case False
  then show ?thesis by (auto simp: bm_bit_def)
qed

subsection \<open>The window and the set of accepted numbers\<close>

definition window_inv :: "replay_window \<Rightarrow> nat set \<Rightarrow> bool" where
  "window_inv w S \<longleftrightarrow>
     length (bitmap w) = 16 \<and> finite S \<and> initialized w = (S \<noteq> {}) \<and>
     (if S = {} then \<forall>b < 1024. \<not> bm_bit (bitmap w) b
      else Max S = unat (highest w) \<and> (\<forall>b < 1024. bm_bit (bitmap w) b \<longleftrightarrow> b \<le> Max S \<and> Max S - b \<in> S))"

lemma bm_bit_zero: "b < 1024 \<Longrightarrow> \<not> bm_bit (replicate 16 0) b"
  by (simp add: bm_bit_def)

lemma window_invI:
  assumes "length (bitmap w) = 16" and "finite S" and "S \<noteq> {}" and "initialized w" and "Max S = unat (highest w)"
    and "\<And>b. b < 1024 \<Longrightarrow> bm_bit (bitmap w) b \<longleftrightarrow> b \<le> unat (highest w) \<and> unat (highest w) - b \<in> S"
  shows "window_inv w S"
  unfolding window_inv_def using assms by (simp only: if_False simp_thms) blast

lemma window_invD:
  assumes "window_inv w S" and "S \<noteq> {}"
  shows "length (bitmap w) = 16" "initialized w" "Max S = unat (highest w)" "finite S"
    "b < 1024 \<Longrightarrow> bm_bit (bitmap w) b \<longleftrightarrow> b \<le> unat (highest w) \<and> unat (highest w) - b \<in> S"
  using assms unfolding window_inv_def by (simp_all only: if_False simp_thms)

lemma window_inv_new [simp]: "window_inv (window_new now resp) {}"
  by (simp add: window_inv_def window_new_def bm_bit_zero)

lemma bm_bit_first: "length bm = 16 \<Longrightarrow> b < 1024 \<Longrightarrow> bm_bit (bm[0 := bm ! 0 OR 1]) b \<longleftrightarrow> b = 0 \<or> bm_bit bm b"
  using bm_bit_set [of bm 0 b] by simp

lemma window_first:
  assumes "window_inv w {}"
  shows "window_inv (snd (window_accept now p w)) {unat p} \<and> fst (window_accept now p w)"
proof -
  have l: "length (bitmap w) = 16" and z: "\<And>b. b < 1024 \<Longrightarrow> \<not> bm_bit (bitmap w) b" and i: "\<not> initialized w"
    using assms by (auto simp: window_inv_def)
  have "bm_bit ((bitmap w)[0 := 1]) b \<longleftrightarrow> b = 0" if "b < 1024" for b
  proof (cases "b div 64 = 0")
    case True
    then show ?thesis using l by (auto simp: bm_bit_def bit_1_iff)
  next
    case False
    then show ?thesis using z [OF that] by (auto simp: bm_bit_def)
  qed
  then show ?thesis using l i by (auto simp: window_accept_def window_inv_def Let_def)
qed

lemma window_ahead:
  assumes "window_inv w S" and "S \<noteq> {}" and "unat p > Max S"
  shows "window_inv (snd (window_accept now p w)) (insert (unat p) S) \<and> fst (window_accept now p w)"
proof -
  let ?d = "p - highest w"
  let ?n = "unat p - Max S"
  have l: "length (bitmap w) = 16" and i: "initialized w" and m: "Max S = unat (highest w)" and fin: "finite S"
    using window_invD [OF assms(1,2)] by simp_all
  have b: "bm_bit (bitmap w) b \<longleftrightarrow> b \<le> Max S \<and> Max S - b \<in> S" if "b < 1024" for b
    using window_invD(5) [OF assms(1,2) that] m by simp
  have gt: "highest w < p" using assms(3) m by (simp add: word_less_nat_alt)
  then have d: "unat ?d = ?n" unfolding m by (simp add: unat_sub_if' word_less_nat_alt)
  have mx: "Max (insert (unat p) S) = unat p" using assms(3) fin by (simp add: Max_insert assms(2))
  define bm where "bm = (if ?d \<ge> 1024 then replicate 16 0 else shift_bitmap (unat (?d div 64)) (unat (?d mod 64)) (bitmap w))"
  have lb: "length bm = 16" using l by (simp add: bm_def)
  have bits: "bm_bit bm c \<longleftrightarrow> c \<le> unat p \<and> unat p - c \<in> S" if "c < 1024" for c
  proof (cases "?n \<ge> 1024")
    case True
    then have "?d \<ge> 1024" using d by (simp add: word_le_nat_alt)
    moreover have "unat p - c \<notin> S" using True that assms(3) Max_ge [OF fin, of "unat p - c"] by linarith
    ultimately show ?thesis using bm_bit_zero [OF that] by (simp add: bm_def)
  next
    case False
    then have nd: "\<not> ?d \<ge> 1024" using d by (simp add: word_le_nat_alt)
    have "64 * unat (?d div 64) + unat (?d mod 64) = ?n" "unat (?d mod 64) < 64" by (simp_all add: unat_div unat_mod d)
    then have "bm_bit bm c \<longleftrightarrow> ?n \<le> c \<and> bm_bit (bitmap w) (c - ?n)"
      using nd bm_bit_shift [OF l _ that, of "unat (?d mod 64)" "unat (?d div 64)"] by (simp add: bm_def)
    also have "\<dots> \<longleftrightarrow> ?n \<le> c \<and> c - ?n \<le> Max S \<and> Max S - (c - ?n) \<in> S" using b [of "c - ?n"] that by auto
    also have "\<dots> \<longleftrightarrow> c \<le> unat p \<and> unat p - c \<in> S"
    proof -
      have "unat p - c \<notin> S" if "c < ?n" using that Max_ge [OF fin, of "unat p - c"] by linarith
      moreover have "Max S - (c - ?n) = unat p - c" if "?n \<le> c" using that assms(3) by linarith
      moreover have "c - ?n \<le> Max S \<longleftrightarrow> c \<le> unat p" if "?n \<le> c" using that assms(3) by linarith
      ultimately show ?thesis by (metis not_le)
    qed
    finally show ?thesis .
  qed
  have r: "window_accept now p w = (True, w\<lparr>seen := now, bitmap := bm[0 := bm ! 0 OR 1], highest := p\<rparr>)"
    unfolding window_accept_def Let_def using i gt by (simp add: bm_def)
  have bits': "bm_bit (bm[0 := bm ! 0 OR 1]) c \<longleftrightarrow> c \<le> unat p \<and> unat p - c \<in> insert (unat p) S" if "c < 1024" for c
    unfolding bm_bit_first [OF lb that] using bits [OF that] assms(3) by auto
  let ?w = "w\<lparr>seen := now, bitmap := bm[0 := bm ! 0 OR 1], highest := p\<rparr>"
  have sel: "bitmap ?w = bm[0 := bm ! 0 OR 1]" "highest ?w = p" "initialized ?w = initialized w" by simp_all
  have "window_inv ?w (insert (unat p) S)"
    by (rule window_invI) (simp_all only: sel i fin mx bits' length_list_update lb insert_not_empty finite_insert not_False_eq_True)
  then show ?thesis by (simp only: r fst_conv snd_conv simp_thms)
qed

lemma window_behind:
  assumes "window_inv w S" and "S \<noteq> {}" and "unat p \<le> Max S"
  shows "fst (window_accept now p w) \<longleftrightarrow> fresh S (unat p)"
    and "window_inv (snd (window_accept now p w)) (if fresh S (unat p) then insert (unat p) S else S)"
proof -
  let ?d = "highest w - p"
  let ?n = "Max S - unat p"
  note inv = window_invD [OF assms(1,2)]
  have le: "\<not> highest w < p" using assms(3) inv(3) by (simp add: word_less_nat_alt)
  then have d: "unat ?d = ?n" unfolding inv(3) by (simp add: unat_sub_if' word_less_nat_alt)
  let ?w = "w\<lparr>seen := now\<rparr>" and ?i = "?n div 64" and ?m = "push_bit (?n mod 64) 1 :: u64"
  have idx: "unat (?d div 64) = ?i" "unat (?d mod 64) = ?n mod 64" by (simp_all add: unat_div unat_mod d)
  have far: "?d \<ge> 1024 \<longleftrightarrow> ?n \<ge> 1024" using d by (simp add: word_le_nat_alt)
  have bit: "(bitmap w ! ?i AND ?m \<noteq> 0) = bm_bit (bitmap w) ?n"
    unfolding bm_bit_def by (subst bit_iff_and_push_bit_not_eq_0) (simp_all add: and.commute)
  have sel: "bitmap ?w = bitmap w" "highest ?w = highest w" "initialized ?w = initialized w" by simp_all
  have r: "window_accept now p w =
      (if ?n \<ge> 1024 then (False, ?w)
       else if bm_bit (bitmap w) ?n then (False, ?w)
       else (True, ?w\<lparr>bitmap := (bitmap w)[?i := bitmap w ! ?i OR ?m]\<rparr>))"
    unfolding window_accept_def Let_def by (simp only: sel inv(2) le simp_thms if_False if_True idx far bit)
  have mem: "bm_bit (bitmap w) ?n \<longleftrightarrow> unat p \<in> S" if "?n < 1024" using inv(5) [OF that] inv(3) assms(3) by simp
  have fr: "fresh S (unat p) \<longleftrightarrow> ?n < 1024 \<and> unat p \<notin> S" using assms(2,3) by (auto simp: fresh_def)
  have same: "window_inv ?w S" using inv assms(2) by (intro window_invI) simp_all
  show "fst (window_accept now p w) \<longleftrightarrow> fresh S (unat p)" unfolding r fr using mem by auto
  show "window_inv (snd (window_accept now p w)) (if fresh S (unat p) then insert (unat p) S else S)"
  proof (cases "fresh S (unat p)")
    case True
    then have n: "?n < 1024" "unat p \<notin> S" by (simp_all add: fr)
    have mx: "Max (insert (unat p) S) = Max S" using assms(2,3) inv(4) by (simp add: Max_insert max_def)
    have "b = ?n \<longleftrightarrow> b \<le> Max S \<and> Max S - b = unat p" for b using assms(3) by auto
    then have "window_inv (?w\<lparr>bitmap := (bitmap w)[?i := bitmap w ! ?i OR ?m]\<rparr>) (insert (unat p) S)"
      using inv mx bm_bit_set [OF inv(1) n(1)] by (intro window_invI) auto
    then show ?thesis using True n mem by (simp add: r)
  next
    case False
    then show ?thesis using same mem by (auto simp: r fr)
  qed
qed

lemma window_step:
  assumes "window_inv w S" and "window_accept now p w = (ok, w')"
  shows "ok = fresh S (unat p)" and "window_inv w' (if fresh S (unat p) then insert (unat p) S else S)"
proof -
  have "ok = fresh S (unat p) \<and> window_inv w' (if fresh S (unat p) then insert (unat p) S else S)"
  proof (cases "S = {}")
    case True
    then show ?thesis using window_first [of w now p] assms by (simp add: fresh_def)
  next
    case False
    show ?thesis
    proof (cases "unat p > Max S")
      case True
      then show ?thesis using window_ahead [OF assms(1) False True, of now] assms(2) by (simp add: fresh_def)
    next
      case False
      then show ?thesis using window_behind [OF assms(1) \<open>S \<noteq> {}\<close>, of p now] assms(2) by (simp add: not_less)
    qed
  qed
  then show "ok = fresh S (unat p)" "window_inv w' (if fresh S (unat p) then insert (unat p) S else S)" by simp_all
qed

lemma window_accepts_spec: "window_inv w S \<Longrightarrow> window_accepts w ps = spec_accepts S (map (unat \<circ> snd) ps)"
proof (induction w ps arbitrary: S rule: window_accepts.induct)
  case (2 w now p ps)
  obtain ok w' where a: "window_accept now p w = (ok, w')" by (cases "window_accept now p w")
  from window_step [OF "2.prems" a] show ?case using "2.IH" [OF a [symmetric]] a by (simp split: if_splits)
qed simp

lemma length_window_accepts [simp]: "length (window_accepts w ps) = length ps"
  by (induction w ps rule: window_accepts.induct) (auto split: prod.split)

lemma accepted_distinct:
  "finite S \<Longrightarrow> distinct (map (unat \<circ> snd) (map fst (filter snd (zip ps (spec_accepts S (map (unat \<circ> snd) ps)))))) \<and>
     set (map (unat \<circ> snd) (map fst (filter snd (zip ps (spec_accepts S (map (unat \<circ> snd) ps)))))) \<inter> S = {}"
proof (induction ps arbitrary: S)
  case (Cons p ps)
  have "unat (snd p) \<notin> S" if "fresh S (unat (snd p))"
    using that Cons.prems Max_ge [of S "unat (snd p)"] by (auto simp: fresh_def leD)
  then show ?case using Cons.IH [of "insert (unat (snd p)) S"] Cons.IH [of S] Cons.prems by (auto simp: image_iff)
qed simp

section \<open>Properties\<close>

text \<open>C25: the replay window is exact. Of any sequence of packet numbers a new window accepts exactly the first, those above all accepted
  ones, and those within the last 1024 that were not accepted before, up to the largest 64-bit number; so no number is ever accepted twice.\<close>

theorem replay_window_exact:
  "window_accepts (window_new t resp) ps = spec_accepts {} (map (unat \<circ> snd) ps) \<and> distinct (accepted (window_new t resp) ps)"
proof -
  have e: "window_accepts (window_new t resp) ps = spec_accepts {} (map (unat \<circ> snd) ps)" by (rule window_accepts_spec) simp
  then have "distinct (map unat (accepted (window_new t resp) ps))" using accepted_distinct [of "{}" ps] by (simp add: accepted_def o_assoc)
  then show ?thesis using e by (simp add: distinct_map)
qed

end
