(* ===== verification/Attack_Defense.thy ===== *)
theory Attack_Defense
  imports Rust_Net
begin

text \<open>
  \<^verbatim>\<open>src/security/defense.rs\<close>: the table of failed authentications per address. Instants and durations are nanoseconds; the table is an association
  list with distinct keys, whose first key is the one \<^verbatim>\<open>keys().next()\<close> gives.
\<close>

section \<open>State\<close>

definition MAX_DEFENSE_RECORDS :: nat where "MAX_DEFENSE_RECORDS = 50000"

record ban_record =
  fail_count :: u32
  first_fail :: nat
  banned_until :: "nat option"

record attack_defense_manager =
  max_failures :: u32
  observation_window :: nat
  ban_duration :: nat
  records :: "(ip_addr \<times> ban_record) list"

section \<open>Operations\<close>

definition defense_default :: attack_defense_manager where
  "defense_default = \<lparr>max_failures = 5, observation_window = 60 * 1000000000, ban_duration = 600 * 1000000000, records = []\<rparr>"

definition defense_new :: "u32 \<Rightarrow> u64 \<Rightarrow> u64 \<Rightarrow> attack_defense_manager" where
  "defense_new failures window_secs ban_secs =
     \<lparr>max_failures = failures, observation_window = unat window_secs * 1000000000, ban_duration = unat ban_secs * 1000000000, records = []\<rparr>"

definition is_banned :: "ip_addr \<Rightarrow> attack_defense_manager \<Rightarrow> bool" where
  "is_banned ip d = False"

definition record_live :: "nat \<Rightarrow> nat \<Rightarrow> ip_addr \<times> ban_record \<Rightarrow> bool" where
  "record_live obs now = (\<lambda>(ip, rec). case banned_until rec of Some until \<Rightarrow> now < until | None \<Rightarrow> now - first_fail rec \<le> obs)"

text \<open>Room for one more: the dead records go, and if that is not enough the first one.\<close>

definition defense_make_room :: "nat \<Rightarrow> attack_defense_manager \<Rightarrow> (ip_addr \<times> ban_record) list" where
  "defense_make_room now d =
     (if length (records d) \<ge> MAX_DEFENSE_RECORDS
      then let m = filter (record_live (observation_window d) now) (records d)
           in if length m \<ge> MAX_DEFENSE_RECORDS then (case m of (key, _) # _ \<Rightarrow> al_del key m | [] \<Rightarrow> m) else m
      else records d)"

definition record_failure :: "nat \<Rightarrow> ip_addr \<Rightarrow> attack_defense_manager \<Rightarrow> attack_defense_manager" where
  "record_failure now ip d =
     (let m = defense_make_room now d;
          rec = (case map_of m ip of Some r \<Rightarrow> r | None \<Rightarrow> \<lparr>fail_count = 0, first_fail = now, banned_until = None\<rparr>);
          rec = (if now - first_fail rec > observation_window d then rec\<lparr>first_fail := now, fail_count := 0\<rparr> else rec);
          rec = rec\<lparr>fail_count := fail_count rec + 1\<rparr>;
          rec = (if fail_count rec \<ge> max_failures d then rec\<lparr>banned_until := Some (now + ban_duration d)\<rparr> else rec)
      in d\<lparr>records := al_put ip rec m\<rparr>)"

definition record_success :: "ip_addr \<Rightarrow> attack_defense_manager \<Rightarrow> attack_defense_manager" where
  "record_success ip d = d\<lparr>records := al_del ip (records d)\<rparr>"

definition defense_prune_expired :: "nat \<Rightarrow> attack_defense_manager \<Rightarrow> attack_defense_manager" where
  "defense_prune_expired now d = d\<lparr>records := filter (record_live (observation_window d) now) (records d)\<rparr>"

section \<open>The table is bounded\<close>

definition defense_inv :: "attack_defense_manager \<Rightarrow> bool" where
  "defense_inv d \<longleftrightarrow> al_ok (records d) \<and> length (records d) \<le> MAX_DEFENSE_RECORDS"

lemma defense_filter:
  assumes "defense_inv d"
  shows "al_ok (filter P (records d))" "length (filter P (records d)) \<le> MAX_DEFENSE_RECORDS"
proof -
  show "al_ok (filter P (records d))" using assms by (simp add: defense_inv_def al_ok_def distinct_map_filter)
  show "length (filter P (records d)) \<le> MAX_DEFENSE_RECORDS"
    using assms length_filter_le [of P "records d"] unfolding defense_inv_def by linarith
qed

lemma make_room_ok: "defense_inv d \<Longrightarrow> al_ok (defense_make_room now d) \<and> length (defense_make_room now d) < MAX_DEFENSE_RECORDS"
proof -
  assume d: "defense_inv d"
  note f = defense_filter [OF d]
  show ?thesis
  proof (cases "filter (record_live (observation_window d) now) (records d)")
    case (Cons kv m)
    have "al_ok (al_del (fst kv) (kv # m))" "length (al_del (fst kv) (kv # m)) \<le> length m"
      using f(1) [of "record_live (observation_window d) now"] Cons by (auto simp: al_ok_def al_del_def distinct_map_filter split: prod.splits)
    then show ?thesis
      using d f [of "record_live (observation_window d) now"] Cons by (cases kv) (auto simp: defense_make_room_def Let_def defense_inv_def)
  next
    case Nil
    then show ?thesis using d by (auto simp: defense_make_room_def Let_def defense_inv_def al_ok_def MAX_DEFENSE_RECORDS_def)
  qed
qed

lemma defense_inv_ops:
  "defense_inv defense_default" "defense_inv (defense_new n w b)"
  "defense_inv d \<Longrightarrow> defense_inv (record_failure now ip d)"
  "defense_inv d \<Longrightarrow> defense_inv (record_success ip d)"
  "defense_inv d \<Longrightarrow> defense_inv (defense_prune_expired now d)"
proof -
  show "defense_inv defense_default" "defense_inv (defense_new n w b)" by (simp_all add: defense_inv_def defense_default_def defense_new_def al_ok_def)
  show "defense_inv d \<Longrightarrow> defense_inv (record_success ip d)" "defense_inv d \<Longrightarrow> defense_inv (defense_prune_expired now d)"
    using defense_filter by (simp_all add: record_success_def defense_prune_expired_def defense_inv_def al_del_def)
  have put: "al_ok (al_put ip rec m)" "length (al_put ip rec m) \<le> Suc (length m)" if "al_ok m" for rec and m :: "(ip_addr \<times> ban_record) list"
    using that by (auto simp: al_put_def al_ok_def distinct_map_filter)
  show "defense_inv (record_failure now ip d)" if d: "defense_inv d"
  proof -
    obtain rec where "record_failure now ip d = d\<lparr>records := al_put ip rec (defense_make_room now d)\<rparr>"
      unfolding record_failure_def Let_def by blast
    then show ?thesis
      using put(1) [of "defense_make_room now d" rec] put(2) [of "defense_make_room now d" rec] make_room_ok [OF d, of now] by (simp add: defense_inv_def)
  qed
qed

end
