(* ===== verification/Ss_Udp.thy ===== *)
theory Ss_Udp
  imports Ss2022_Udp Replay_Window Attack_Defense Ip_Cache Proxy_Protocol Security_Audit
begin

text \<open>
  The UDP server of \<^verbatim>\<open>src/protocol/shadowsocks/udp.rs\<close>: what \<^verbatim>\<open>run_udp\<close> does with a datagram and at a tick of the sweep, on the tables of sessions and of
  replay windows, with the address cache, the failure table and the audit of the inbound. The tasks that relay a session are not modelled; of a
  session's channel the table knows the payloads queued and whether the task has gone. Instants are nanoseconds.
\<close>

section \<open>State\<close>

record 'a session_key =
  sk_user :: u32
  sk_key :: bytes
  sk_session :: u64
  sk_address :: 'a
  legacy_remote :: "socket_addr option"

record udp_session =
  queue :: "bytes list"
  closed :: bool
  client_remote :: socket_addr

type_synonym replay_key = "u32 \<times> bytes \<times> u64"

record ('a, 'x) udp_server =
  sessions :: "('a session_key \<times> udp_session) list"
  replay :: "(replay_key \<times> replay_window) list"
  defense :: attack_defense_manager
  ip_cache :: ip_user_cache
  nonce_filter :: 'x

record ('a, 'x, 'n, 're) udp_env =
  e_crates :: "'a ss_crates"
  e_aead :: ss_aead
  e_cipher :: udp_cipher
  e_check :: "u64 \<Rightarrow> 'x \<Rightarrow> bytes \<Rightarrow> 'x option"
  e_method :: ss_method
  e_server_key :: "bytes option"
  udp_proxy_protocol :: bool
  e_quic :: bool
  e_route :: "('n, 're) route_env"
  e_audit :: "('n, 're) audit_controller"
  e_host :: "'a \<Rightarrow> string"
  e_port :: "'a \<Rightarrow> u16"

datatype 'a udp_action = Ignored | ToQuic bytes | Relayed "'a session_key" | Opened "'a session_key" | Crashed

section \<open>Operations\<close>

text \<open>The replay check of a packet number; a new window gets a random session for the answers.\<close>

definition replay_check :: "nat \<Rightarrow> u64 \<Rightarrow> replay_key \<Rightarrow> u64 \<Rightarrow> (replay_key \<times> replay_window) list \<Rightarrow> bool \<times> (replay_key \<times> replay_window) list" where
  "replay_check now rnd key packet_id m =
     (if map_of m key = None \<and> length m \<ge> 4096 then (False, m)
      else let w = (case map_of m key of Some w \<Rightarrow> w | None \<Rightarrow> window_new now \<lparr>rs_id = rnd, rs_counter = 0\<rparr>);
               (ok, w) = window_accept now packet_id w
           in (ok, al_put key w m))"

definition try_send :: "bytes \<Rightarrow> udp_session \<Rightarrow> udp_session" where
  "try_send payload s = (if closed s \<or> length (queue s) \<ge> 256 then s else s\<lparr>queue := queue s @ [payload]\<rparr>)"

definition to_session :: "socket_addr \<Rightarrow> 'a session_key \<Rightarrow> bytes \<Rightarrow> ('a, 'x) udp_server \<Rightarrow> ('a, 'x) udp_server \<times> 'a udp_action" where
  "to_session remote key payload st =
     (let ss = (case map_of (sessions st) key of Some s \<Rightarrow> if closed s then al_del key (sessions st) else sessions st | None \<Rightarrow> sessions st)
      in case map_of ss key of
           Some s \<Rightarrow> (st\<lparr>sessions := al_put key (try_send payload (s\<lparr>client_remote := remote\<rparr>)) ss\<rparr>, Relayed key)
         | None \<Rightarrow>
             (if length ss \<ge> 4096 then (st\<lparr>sessions := ss\<rparr>, Ignored)
              else (st\<lparr>sessions := al_put key (try_send payload \<lparr>queue = [], closed = False, client_remote = remote\<rparr>) ss\<rparr>, Opened key)))"

definition on_datagram ::
    "('a, 'x, 'n, 're) udp_env \<Rightarrow> nat \<Rightarrow> u64 \<Rightarrow> socket_addr \<Rightarrow> 'a datagram \<Rightarrow> ('a, 'x) udp_server \<Rightarrow> ('a, 'x) udp_server \<times> 'a udp_action" where
  "on_datagram e now rnd remote dg st =
     (let uid = us_id (cr_user (dg_credential dg)); hash = blake3 (e_crates e) (cr_key (dg_credential dg));
          (ok, m) = (if is_aead_2022 (e_method e) then replay_check now rnd (uid, hash, dg_session dg) (dg_packet dg) (replay st) else (True, replay st));
          st = st\<lparr>replay := m\<rparr>; host = e_host e (dg_address dg); port = e_port e (dg_address dg)
      in if \<not> ok then (st, Ignored)
         else if host = [] \<or> port = 0 \<or> should_block (e_route e) (e_audit e) host (parse_ip host) port then (st, Ignored)
         else to_session remote
                \<lparr>sk_user = uid, sk_key = hash, sk_session = dg_session dg, sk_address = dg_address dg,
                 legacy_remote = (if is_aead_2022 (e_method e) then None else Some remote)\<rparr>
                (dg_payload dg) st)"

definition client_of :: "bool \<Rightarrow> socket_addr \<Rightarrow> bytes \<Rightarrow> socket_addr \<times> bytes" where
  "client_of proxy remote data =
     (if proxy
      then case parse_proxy_protocol_datagram data Auto of Ok (Some src, rest) \<Rightarrow> (src, rest) | _ \<Rightarrow> (remote, data)
      else (remote, data))"

definition on_packet ::
    "('a, 'x, 'n, 're) udp_env \<Rightarrow> user_index \<Rightarrow> nat \<Rightarrow> u64 option \<Rightarrow> u64 \<Rightarrow> socket_addr \<Rightarrow> bytes \<Rightarrow> ('a, 'x) udp_server \<Rightarrow> ('a, 'x) udp_server \<times> 'a udp_action" where
  "on_packet e users now clock rnd remote data st =
     (case client_of (udp_proxy_protocol e) remote data of (client, payload) \<Rightarrow>
        if is_banned (sa_ip client) (defense st) then (st, Ignored)
        else case decrypt_udp_with_cache (e_crates e) (e_aead e) (e_cipher e) (e_check e) (of_nat (now div 1000000000)) clock (e_method e) (e_server_key e)
                    users payload (cache_get now (sa_ip client) (ip_cache st)) (nonce_filter st) of
               (Ok dg, x) \<Rightarrow>
                 on_datagram e now rnd remote dg
                   (st\<lparr>nonce_filter := x, ip_cache := cache_insert now (sa_ip client) (us_id (cr_user (dg_credential dg))) (ip_cache st),
                       defense := record_success (sa_ip client) (defense st)\<rparr>)
             | (Err _, x) \<Rightarrow>
                 (if e_quic e then (st\<lparr>nonce_filter := x\<rparr>, ToQuic payload)
                  else (st\<lparr>nonce_filter := x, defense := record_failure now (sa_ip client) (defense st)\<rparr>, Ignored))
             | (Panic, x) \<Rightarrow> (st, Crashed))"

text \<open>The sweep: sessions of users that have gone are cancelled and dropped, as are those whose task has ended; windows stay for 60 seconds, or as long as a
  session holds their answers.\<close>

definition sweep_windows :: "nat \<Rightarrow> (replay_window \<Rightarrow> bool) \<Rightarrow> (replay_key \<times> replay_window) list \<Rightarrow> (replay_key \<times> replay_window) list" where
  "sweep_windows now held m = filter (\<lambda>(key, w). held w \<or> now - seen w < 60 * 1000000000) m"

definition sweep :: "user_index \<Rightarrow> nat \<Rightarrow> (replay_window \<Rightarrow> bool) \<Rightarrow> ('a, 'x) udp_server \<Rightarrow> 'a session_key list \<times> ('a, 'x) udp_server" where
  "sweep users now held st =
     (let valid = (\<lambda>key. (sk_user key, sk_key key) \<in> valid_keys users)
      in (filter (\<lambda>key. \<not> valid key) (map fst (sessions st)),
          st\<lparr>sessions := filter (\<lambda>(key, s). valid key \<and> \<not> closed s) (sessions st),
             replay := sweep_windows now held (replay st)\<rparr>))"

text \<open>The number of an answer: \<^verbatim>\<open>fetch_update\<close> with \<^verbatim>\<open>checked_add\<close> gives the old value, and an error when there is no next one.\<close>

definition answer_number :: "response_session \<Rightarrow> (u64 \<times> response_session) res" where
  "answer_number s = (if rs_counter s = - 1 then Err Other else Ok (rs_counter s, s\<lparr>rs_counter := rs_counter s + 1\<rparr>))"

datatype ('a, 'x) udp_event =
    Packet user_index nat "u64 option" u64 socket_addr bytes
  | Sweep user_index nat "replay_window \<Rightarrow> bool"
  | SessionClosed "'a session_key"

text \<open>A turn of the loop, or the end of a session's task.\<close>

fun udp_step :: "('a, 'x, 'n, 're) udp_env \<Rightarrow> ('a, 'x) udp_event \<Rightarrow> ('a, 'x) udp_server \<Rightarrow> ('a, 'x) udp_server" where
  "udp_step e (Packet users now clock rnd remote data) st = fst (on_packet e users now clock rnd remote data st)"
| "udp_step e (Sweep users now held) st = snd (sweep users now held st)"
| "udp_step e (SessionClosed key) st =
     st\<lparr>sessions := map (\<lambda>(k, s). (k, if k = key then s\<lparr>closed := True\<rparr> else s)) (sessions st)\<rparr>"

section \<open>Bounds\<close>

definition server_inv :: "('a, 'x) udp_server \<Rightarrow> bool" where
  "server_inv st \<longleftrightarrow>
     al_ok (sessions st) \<and> length (sessions st) \<le> 4096 \<and> list_all (\<lambda>(k, s). length (queue s) \<le> 256) (sessions st) \<and>
     al_ok (replay st) \<and> length (replay st) \<le> 4096 \<and> defense_inv (defense st)"

lemma al_put_bounds:
  assumes "al_ok m"
  shows "al_ok (al_put k v m)" "map_of m k \<noteq> None \<Longrightarrow> length (al_put k v m) \<le> length m" "length (al_put k v m) \<le> Suc (length m)"
proof -
  show "al_ok (al_put k v m)" "length (al_put k v m) \<le> Suc (length m)" using assms by (auto simp: al_put_def al_ok_def distinct_map_filter)
  show "length (al_put k v m) \<le> length m" if "map_of m k \<noteq> None"
  proof -
    have "(k, the (map_of m k)) \<in> set m" using that by (auto dest: map_of_SomeD)
    then have "length (filter (\<lambda>(k', v'). k' \<noteq> k) m) < length m" by (intro length_filter_less) auto
    then show ?thesis by (simp add: al_put_def)
  qed
qed

lemma al_del_bounds: "al_ok m \<Longrightarrow> al_ok (al_del k m)" "length (al_del k m) \<le> length m" "set (al_del k m) \<subseteq> set m"
  by (auto simp: al_del_def al_ok_def distinct_map_filter)

lemma replay_check_bounds:
  assumes "al_ok m" and "length m \<le> 4096" and "replay_check now rnd key pid m = (ok, m')"
  shows "al_ok m' \<and> length m' \<le> 4096"
proof (cases "map_of m key = None \<and> length m \<ge> 4096")
  case True
  then show ?thesis using assms by (auto simp: replay_check_def)
next
  case False
  then obtain w where "m' = al_put key w m" using assms(3) by (auto simp: replay_check_def Let_def split: prod.splits)
  then show ?thesis using al_put_bounds [OF assms(1), of key w] assms(2) False by (cases "map_of m key") (auto simp: not_le)
qed

lemma try_send_bounded: "length (queue s) \<le> 256 \<Longrightarrow> length (queue (try_send p s)) \<le> 256"
  by (simp add: try_send_def)

lemma to_session_bounds:
  assumes "server_inv st" and "to_session remote key payload st = (st', a)"
  shows "server_inv st'"
proof -
  define ss where "ss = (case map_of (sessions st) key of Some s \<Rightarrow> if closed s then al_del key (sessions st) else sessions st | None \<Rightarrow> sessions st)"
  have ss: "al_ok ss" "length ss \<le> 4096" "list_all (\<lambda>(k, s). length (queue s) \<le> 256) ss"
    using assms(1) al_del_bounds(1) [of "sessions st" key] al_del_bounds(2,3) [of key "sessions st"] by (auto simp: ss_def server_inv_def list_all_iff split: option.splits)
  have put: "list_all (\<lambda>(k, s). length (queue s) \<le> 256) (al_put key (try_send payload s) ss)" if "length (queue s) \<le> 256" for s
    using ss(3) try_send_bounded [OF that, of payload] by (auto simp: al_put_def list_all_iff)
  show ?thesis
  proof (cases "map_of ss key")
    case None
    show ?thesis
    proof (cases "length ss \<ge> 4096")
      case True
      then have "st' = st\<lparr>sessions := ss\<rparr>" using assms(2) None by (simp add: to_session_def Let_def flip: ss_def)
      then show ?thesis using assms(1) ss by (simp add: server_inv_def)
    next
      case False
      define s where "s = \<lparr>queue = [], closed = False, client_remote = remote\<rparr>"
      have "st' = st\<lparr>sessions := al_put key (try_send payload s) ss\<rparr>"
        using assms(2) None False by (simp add: to_session_def Let_def s_def flip: ss_def)
      then show ?thesis using assms(1) al_put_bounds [OF ss(1), of key "try_send payload s"] put [of s] False by (simp add: server_inv_def s_def)
    qed
  next
    case (Some s)
    have "length (queue s) \<le> 256" using ss(3) map_of_SomeD [OF Some] by (auto simp: list_all_iff)
    moreover have "st' = st\<lparr>sessions := al_put key (try_send payload (s\<lparr>client_remote := remote\<rparr>)) ss\<rparr>"
      using assms(2) Some by (simp add: to_session_def Let_def flip: ss_def)
    ultimately show ?thesis
      using assms(1) al_put_bounds [OF ss(1), of key "try_send payload (s\<lparr>client_remote := remote\<rparr>)"] put [of "s\<lparr>client_remote := remote\<rparr>"] Some ss(2)
      by (simp add: server_inv_def)
  qed
qed

lemma on_datagram_bounds:
  assumes "server_inv st" and "on_datagram e now rnd remote dg st = (st', a)"
  shows "server_inv st'"
proof -
  obtain ok m where c: "(if is_aead_2022 (e_method e) then replay_check now rnd (us_id (cr_user (dg_credential dg)), blake3 (e_crates e) (cr_key (dg_credential dg)), dg_session dg)
      (dg_packet dg) (replay st) else (True, replay st)) = (ok, m)" by fastforce
  have "al_ok m \<and> length m \<le> 4096"
  proof (cases "is_aead_2022 (e_method e)")
    case True
    then show ?thesis using c assms(1) by (intro replay_check_bounds [of "replay st"]) (auto simp: server_inv_def)
  next
    case False
    then show ?thesis using c assms(1) by (simp add: server_inv_def)
  qed
  then have inv: "server_inv (st\<lparr>replay := m\<rparr>)" using assms(1) by (simp add: server_inv_def)
  show ?thesis
    using assms(2) inv unfolding on_datagram_def Let_def c by (auto split: if_splits intro: to_session_bounds [OF inv])
qed

lemma on_packet_bounds:
  assumes "server_inv st" and "on_packet e users now clock rnd remote data st = (st', a)"
  shows "server_inv st'"
proof -
  have d: "server_inv (st\<lparr>nonce_filter := x, ip_cache := c, defense := record_success ip (defense st)\<rparr>)"
      "server_inv (st\<lparr>nonce_filter := x, defense := record_failure t ip (defense st)\<rparr>)" "server_inv (st\<lparr>nonce_filter := x\<rparr>)" for x c ip t
    using assms(1) defense_inv_ops(3,4) by (simp_all add: server_inv_def)
  show ?thesis
    using assms d(2,3) unfolding on_packet_def
    by (auto split: prod.splits if_splits res.splits intro: on_datagram_bounds [OF d(1)])
qed

lemma udp_step_bounds: "server_inv st \<Longrightarrow> server_inv (udp_step e ev st)"
proof (cases ev)
  case (Packet users now clock rnd remote data)
  assume "server_inv st"
  then show ?thesis using Packet on_packet_bounds [of st e users now clock rnd remote data] by (cases "on_packet e users now clock rnd remote data st") simp
next
  case (Sweep users now held)
  assume "server_inv st"
  then show ?thesis
    using Sweep by (auto simp: server_inv_def sweep_def sweep_windows_def Let_def al_ok_def distinct_map_filter list_all_iff intro: le_trans [OF length_filter_le])
next
  case (SessionClosed key)
  assume "server_inv st"
  moreover have "fst \<circ> (\<lambda>(k, s). (k, if k = key then s\<lparr>closed := True\<rparr> else s)) = (fst :: 'a session_key \<times> udp_session \<Rightarrow> 'a session_key)"
    by (simp add: fun_eq_iff)
  ultimately show ?thesis using SessionClosed by (auto simp: server_inv_def al_ok_def list_all_iff)
qed

section \<open>Replays\<close>

text \<open>What the loop does to the windows: checks of packets, each with the timestamp of its body in seconds, and sweeps.\<close>

datatype replay_event = CheckPacket nat u64 replay_key u64 nat | SweepWindows nat "replay_window \<Rightarrow> bool"

fun event_time :: "replay_event \<Rightarrow> nat" where
  "event_time (CheckPacket t rnd key pid ts) = t"
| "event_time (SweepWindows t held) = t"

text \<open>The packet has passed \<^verbatim>\<open>decrypt_udp\<close>, whose clock is in whole seconds.\<close>

fun in_time :: "replay_event \<Rightarrow> bool" where
  "in_time (CheckPacket t rnd key pid ts) \<longleftrightarrow> t div 1000000000 \<le> ts + 30 \<and> ts \<le> t div 1000000000 + 30"
| "in_time (SweepWindows t held) \<longleftrightarrow> True"

fun replay_run :: "replay_event list \<Rightarrow> (replay_key \<times> replay_window) list \<Rightarrow> (nat \<times> replay_key \<times> u64 \<times> nat) list" where
  "replay_run [] m = []"
| "replay_run (CheckPacket t rnd key pid ts # evs) m =
     (case replay_check t rnd key pid m of (ok, m') \<Rightarrow> (if ok then [(t, key, pid, ts)] else []) @ replay_run evs m')"
| "replay_run (SweepWindows t held # evs) m = replay_run evs (sweep_windows t held m)"

definition windows_ok :: "(replay_key \<times> replay_window) list \<Rightarrow> bool" where
  "windows_ok m \<longleftrightarrow> al_ok m \<and> (\<forall>k w. map_of m k = Some w \<longrightarrow> (\<exists>S. window_inv w S))"

text \<open>The packet is on record, or it is at least 60 seconds old.\<close>

definition remembered :: "nat \<Rightarrow> replay_key \<Rightarrow> u64 \<Rightarrow> nat \<Rightarrow> (replay_key \<times> replay_window) list \<Rightarrow> bool" where
  "remembered t key pid now m \<longleftrightarrow> t \<le> now \<and>
     ((\<exists>w S. map_of m key = Some w \<and> window_inv w S \<and> unat pid \<in> S \<and> t \<le> seen w) \<or> t + 60000000000 \<le> now)"

lemma map_of_filter_Some: "al_ok m \<Longrightarrow> map_of (filter P m) k = Some w \<longleftrightarrow> map_of m k = Some w \<and> P (k, w)"
  by (auto simp: map_of_filter split: option.splits)

lemma accept_seen: "window_accept now pid w = (ok, w') \<Longrightarrow> seen w' = now"
  by (auto simp: window_accept_def Let_def split: if_splits)

lemma fresh_not_member: "finite S \<Longrightarrow> p \<in> S \<Longrightarrow> \<not> fresh S p"
  using Max_ge by (fastforce simp: fresh_def)

text \<open>The window that a check used and the one it left.\<close>

lemma replay_check_window:
  assumes "windows_ok m" and "replay_check now rnd key pid m = (ok, m')"
  shows "(\<not> ok \<and> m' = m \<and> map_of m key = None) \<or>
         (\<exists>w w' S. (case map_of m key of Some w0 \<Rightarrow> w = w0 | None \<Rightarrow> S = {}) \<and> window_inv w S \<and> m' = al_put key w' m \<and>
            ok = fresh S (unat pid) \<and> window_inv w' (if ok then insert (unat pid) S else S) \<and> seen w' = now)"
proof (cases "map_of m key = None \<and> length m \<ge> 4096")
  case True
  then show ?thesis using assms(2) by (auto simp: replay_check_def)
next
  case False
  define w where "w = (case map_of m key of Some w \<Rightarrow> w | None \<Rightarrow> window_new now \<lparr>rs_id = rnd, rs_counter = 0\<rparr>)"
  obtain w' where w': "window_accept now pid w = (ok, w')" "m' = al_put key w' m"
    using assms(2) False by (auto simp: replay_check_def w_def Let_def split: prod.splits)
  obtain S where S: "window_inv w S" "map_of m key = None \<Longrightarrow> S = {}"
  proof (cases "map_of m key")
    case None
    then have "window_inv w {}" by (simp add: w_def)
    then show thesis using that by blast
  next
    case (Some w0)
    moreover obtain S where "window_inv w0 S" using assms(1) Some unfolding windows_ok_def by blast
    ultimately show thesis using that by (simp add: w_def)
  qed
  have "case map_of m key of Some w0 \<Rightarrow> w = w0 | None \<Rightarrow> S = {}" using S(2) by (auto simp: w_def split: option.splits)
  then show ?thesis using S(1) window_step [OF S(1) w'(1)] accept_seen [OF w'(1)] w'(2) by blast
qed

lemma windows_ok_check: "windows_ok m \<Longrightarrow> replay_check now rnd key pid m = (ok, m') \<Longrightarrow> windows_ok m'"
proof -
  assume m: "windows_ok m" and c: "replay_check now rnd key pid m = (ok, m')"
  have put: "windows_ok (al_put key w m)" if "window_inv w S" for w S
    using m that al_put_bounds(1) [of m key] unfolding windows_ok_def map_of_al_put fun_upd_apply by (metis option.inject)
  show ?thesis using replay_check_window [OF m c] m put by blast
qed

lemma windows_ok_sweep: "windows_ok m \<Longrightarrow> windows_ok (sweep_windows now held m)"
  unfolding windows_ok_def sweep_windows_def by (auto simp: map_of_filter_Some al_ok_def distinct_map_filter)

lemma remembered_check:
  assumes "windows_ok m" and "replay_check now rnd key pid m = (ok, m')" and "remembered t k p t0 m" and "t0 \<le> now"
  shows "remembered t k p now m'" and "ok \<Longrightarrow> key = k \<Longrightarrow> pid = p \<Longrightarrow> t + 60000000000 \<le> now"
proof -
  have old: "t \<le> now" using assms(3,4) by (simp add: remembered_def)
  have both: "remembered t k p now m' \<and> (ok \<longrightarrow> key = k \<longrightarrow> pid = p \<longrightarrow> t + 60000000000 \<le> now)"
  proof (cases "t + 60000000000 \<le> t0")
    case True
    then show ?thesis using old assms(4) by (simp add: remembered_def)
  next
    case False
    then obtain w S where w: "map_of m k = Some w" "window_inv w S" "unat p \<in> S" "t \<le> seen w"
      using assms(3) by (auto simp: remembered_def)
    show ?thesis
    proof (cases "key = k")
      case False
      then have "map_of m' k = Some w" using replay_check_window [OF assms(1,2)] w(1) by (auto simp: map_of_al_put)
      then show ?thesis using False w old by (auto simp: remembered_def)
    next
      case True
      obtain ok' w' where c: "window_accept now pid w = (ok', w')" by fastforce
      then have m': "m' = al_put k w' m" "ok = ok'" using assms(2) w(1) True by (auto simp: replay_check_def Let_def)
      note s = window_step [OF w(2) c]
      have "\<not> ok" if "pid = p" using s(1) fresh_not_member [of S "unat p"] w(2,3) that m'(2) by (auto simp: window_inv_def)
      moreover have "map_of m' k = Some w'" "seen w' = now" using accept_seen [OF c] by (simp_all add: m'(1) map_of_al_put)
      ultimately show ?thesis using s(2) w(3) old unfolding remembered_def by (cases "fresh S (unat pid)") auto
    qed
  qed
  then show "remembered t k p now m'" "ok \<Longrightarrow> key = k \<Longrightarrow> pid = p \<Longrightarrow> t + 60000000000 \<le> now" by blast+
qed

lemma remembered_sweep:
  assumes "windows_ok m" and "remembered t k p t0 m" and "t0 \<le> now"
  shows "remembered t k p now (sweep_windows now held m)"
proof (cases "t + 60000000000 \<le> now")
  case True
  then show ?thesis by (simp add: remembered_def)
next
  case False
  then obtain w S where w: "map_of m k = Some w" "window_inv w S" "unat p \<in> S" "t \<le> seen w"
    using assms(2,3) by (auto simp: remembered_def)
  moreover have "now - seen w < 60 * 1000000000" using False w(4) by linarith
  moreover have "al_ok m" using assms(1) by (simp add: windows_ok_def)
  ultimately have "map_of (sweep_windows now held m) k = Some w" by (simp add: sweep_windows_def map_of_filter_Some)
  then show ?thesis using w assms(2,3) unfolding remembered_def by auto
qed

text \<open>A packet that was accepted at \<open>t\<close> and is accepted again is at least 60 seconds older then.\<close>

lemma accepted_again:
  assumes "windows_ok m" and "remembered t key pid t0 m" and "sorted (map event_time evs)" and "\<And>ev. ev \<in> set evs \<Longrightarrow> t0 \<le> event_time ev"
    and "(t', key, pid, ts) \<in> set (replay_run evs m)"
  shows "t + 60000000000 \<le> t'"
  using assms
proof (induction evs m arbitrary: t0 rule: replay_run.induct)
  case (2 now rnd k p ts' evs m)
  obtain ok m' where c: "replay_check now rnd k p m = (ok, m')" by fastforce
  have t0: "t0 \<le> now" using "2.prems"(4) [of "CheckPacket now rnd k p ts'"] by simp
  note r = remembered_check [OF "2.prems"(1) c "2.prems"(2) t0]
  have tail: "now \<le> event_time ev" if "ev \<in> set evs" for ev using "2.prems"(3) that by simp
  show ?case
  proof (cases "ok \<and> (t', key, pid, ts) = (now, k, p, ts')")
    case True
    then show ?thesis using r(2) by simp
  next
    case False
    then have "(t', key, pid, ts) \<in> set (replay_run evs m')" using "2.prems"(5) c by (auto split: if_splits)
    from "2.IH" [OF c [symmetric] windows_ok_check [OF "2.prems"(1) c] r(1) _ tail this] "2.prems"(3) show ?thesis by simp
  qed
next
  case (3 now held evs m)
  have "t0 \<le> now" using "3.prems"(4) [of "SweepWindows now held"] by simp
  from "3.IH" [OF windows_ok_sweep [OF "3.prems"(1)] remembered_sweep [OF "3.prems"(1,2) this]] "3.prems" show ?case by simp
qed simp

lemma replay_run_time:
  "windows_ok m \<Longrightarrow> (t, key, pid, ts) \<in> set (replay_run evs m) \<Longrightarrow> \<exists>rnd. CheckPacket t rnd key pid ts \<in> set evs"
proof (induction evs m rule: replay_run.induct)
  case (2 now rnd k p ts' evs m)
  obtain ok m' where c: "replay_check now rnd k p m = (ok, m')" by fastforce
  then show ?case using 2 windows_ok_check [OF _ c] by (auto split: if_splits)
next
  case (3 now held evs m)
  then show ?case using windows_ok_sweep by auto
qed simp

lemma accepted_remembered:
  assumes "windows_ok m" and "replay_check now rnd key pid m = (True, m')"
  shows "remembered now key pid now m'"
  using replay_check_window [OF assms] by (auto simp: remembered_def map_of_al_put)

section \<open>Properties\<close>

text \<open>C23: However many datagrams arrive, from whatever addresses, valid or not, with the sweeps and the ends of sessions in any order: the server keeps at most 4096 sessions with at
  most 256 queued payloads each, at most 4096 replay windows and 50000 failure records, and no key twice.\<close>

theorem udp_tables_bounded:
  "server_inv (fold (udp_step e) evs \<lparr>sessions = [], replay = [], defense = defense_new n w b, ip_cache = c, nonce_filter = x\<rparr>)"
proof -
  have "server_inv (fold (udp_step e) evs st)" if "server_inv st" for st
    using that by (induction evs arbitrary: st) (auto intro: udp_step_bounds)
  then show ?thesis using defense_inv_ops(2) by (simp add: server_inv_def al_ok_def)
qed

text \<open>C24: Replayed datagrams: of packets whose timestamps have been checked against the clock in whole seconds, with sweeps at any times in between, no packet (user, key, session,
  number and timestamp) is accepted twice, with one exception: its timestamp was exactly 30 seconds ahead of the clock when it was first accepted, and
  the replay comes in exactly the 60th second after. A window is forgotten 60 seconds after its last packet, a second too early.\<close>

theorem udp_no_replay:
  assumes "sorted (map event_time evs)" and "list_all in_time evs"
  shows "sorted_wrt (\<lambda>(t, key, pid, ts) (t', key', pid', ts'). (key, pid, ts) = (key', pid', ts') \<longrightarrow>
           ts = t div 1000000000 + 30 \<and> t' div 1000000000 = t div 1000000000 + 60) (replay_run evs [])"
proof -
  have "sorted_wrt (\<lambda>(t, key, pid, ts) (t', key', pid', ts'). (key, pid, ts) = (key', pid', ts') \<longrightarrow>
           ts = t div 1000000000 + 30 \<and> t' div 1000000000 = t div 1000000000 + 60) (replay_run evs m)" if "windows_ok m" for m
    using assms that
  proof (induction evs m rule: replay_run.induct)
    case (2 now rnd k p ts evs m)
    obtain ok m' where c: "replay_check now rnd k p m = (ok, m')" by fastforce
    note ok' = windows_ok_check [OF "2.prems"(3) c]
    have "ts = now div 1000000000 + 30 \<and> t' div 1000000000 = now div 1000000000 + 60"
      if ok: ok and mem: "(t', k, p, ts) \<in> set (replay_run evs m')" for t'
    proof -
      have "now + 60000000000 \<le> t'"
        by (rule accepted_again [OF ok' accepted_remembered [OF "2.prems"(3) c [unfolded eqTrueI [OF ok]]] _ _ mem]) (use "2.prems"(1) in auto)
      then have "now div 1000000000 + 60 \<le> t' div 1000000000" using div_le_mono [of "now + 60000000000" t' 1000000000] by simp
      moreover obtain rnd' where "CheckPacket t' rnd' k p ts \<in> set evs" using replay_run_time [OF ok' mem] by blast
      then have "t' div 1000000000 \<le> ts + 30" using "2.prems"(2) by (fastforce simp: list_all_iff)
      moreover have "ts \<le> now div 1000000000 + 30" using "2.prems"(2) by simp
      ultimately show ?thesis by linarith
    qed
    then show ?case using "2.IH" [OF c [symmetric] _ _ ok'] "2.prems" c by (cases ok) auto
  next
    case (3 now held evs m)
    then show ?case using windows_ok_sweep by simp
  qed simp
  then show ?thesis by (simp add: windows_ok_def al_ok_def)
qed

theorem udp_no_replay_witness:
  "sorted_wrt (\<lambda>(t, key, pid, ts) (t', key', pid', ts'). (key, pid, ts) = (key', pid', ts') \<longrightarrow>
     ts = t div 1000000000 + 30 \<and> t' div 1000000000 = t div 1000000000 + 60)
     (replay_run [CheckPacket 100000000000 1 (2, [3], 4) 5 110, SweepWindows 101000000000 (\<lambda>w. False), CheckPacket 102000000000 1 (2, [3], 4) 5 110] [])"
  by (rule udp_no_replay) simp_all

text \<open>The exception is real: a packet with a timestamp 30 seconds ahead is accepted again after a sweep 60 seconds later.\<close>

lemma udp_replay_accepted:
  "replay_run [CheckPacket 100000000000 1 (2, [3], 4) 5 130, SweepWindows 160000000000 (\<lambda>w. False), CheckPacket 160000000000 1 (2, [3], 4) 5 130] [] =
     [(100000000000, (2, [3], 4), 5, 130), (160000000000, (2, [3], 4), 5, 130)]"
  by (simp add: replay_check_def window_new_def window_accept_def al_put_def sweep_windows_def)

text \<open>The numbers of the answers of a session never repeat; the last one is not used.\<close>

fun answer_numbers :: "nat \<Rightarrow> response_session \<Rightarrow> u64 list" where
  "answer_numbers 0 s = []"
| "answer_numbers (Suc n) s = (case answer_number s of Ok (k, s') \<Rightarrow> k # answer_numbers n s' | _ \<Rightarrow> [])"

lemma counter_next:
  assumes "(x :: u64) \<noteq> - 1"
  shows "x < x + 1" "x < - 1"
proof -
  have "1 + x \<noteq> 0" using assms by (metis add.commute eq_neg_iff_add_eq_0)
  from unatSuc [OF this] show "x < x + 1" by (simp add: word_less_nat_alt add.commute)
  show "x < - 1" using assms word_order.extremum [of x] by (simp add: order.not_eq_order_implies_strict)
qed

lemma answer_numbers_above: "k \<in> set (answer_numbers n s) \<Longrightarrow> rs_counter s \<le> k \<and> k < - 1"
proof (induction n arbitrary: s)
  case (Suc n)
  show ?case
  proof (cases "rs_counter s = - 1")
    case False
    then show ?thesis
      using Suc.prems Suc.IH [of "s\<lparr>rs_counter := rs_counter s + 1\<rparr>"] counter_next [OF False] by (auto simp: answer_number_def)
  qed (use Suc.prems in \<open>simp add: answer_number_def\<close>)
qed simp

lemma answer_numbers_distinct: "distinct (answer_numbers n s)"
proof (induction n arbitrary: s)
  case (Suc n)
  show ?case
  proof (cases "rs_counter s = - 1")
    case False
    have "rs_counter s \<notin> set (answer_numbers n (s\<lparr>rs_counter := rs_counter s + 1\<rparr>))"
      using answer_numbers_above [of "rs_counter s" n "s\<lparr>rs_counter := rs_counter s + 1\<rparr>"] counter_next [OF False] by auto
    then show ?thesis using Suc False by (simp add: answer_number_def)
  qed (simp add: answer_number_def)
qed simp

end
