(* ===== verification/Anytls_Padding.thy ===== *)
theory Anytls_Padding
  imports Rust_Str
begin

text \<open>
  \<^verbatim>\<open>src/protocol/anytls/padding.rs\<close>: padding schemes and the writer that cuts and pads the frames it sends. The
  digest of the scheme is the parameters \<open>md5\<close> (crate md5) and \<open>hex_encode\<close> (crate hex); \<^verbatim>\<open>rand::random\<close> is the parameter \<open>rnd\<close>,
  indexed by the position in the record. \<^verbatim>\<open>write_padded_frame\<close> returns the list of its writes. \<open>make_frame\<close> and the reading of
  frames are those of \<^verbatim>\<open>src/protocol/anytls/session.rs\<close>.
\<close>

section \<open>Frames\<close>

definition CMD_WASTE :: u8 where "CMD_WASTE = 0"
definition FRAME_OVERHEAD :: nat where "FRAME_OVERHEAD = 7"
definition MAX_FRAME_SIZE :: nat where "MAX_FRAME_SIZE = 0xffff"

definition make_frame :: "u8 \<Rightarrow> u32 \<Rightarrow> bytes \<Rightarrow> bytes" where
  "make_frame command stream_id payload =
     command # be32_bytes stream_id @ be16_bytes (of_nat (length payload)) @ payload"

record frame =
  fr_command :: u8
  fr_stream :: u32
  fr_payload :: bytes

text \<open>One turn of the reading loop: the header of 7 bytes, then the payload it announces.\<close>

definition read_frame :: "bytes \<Rightarrow> (frame \<times> bytes) res" where
  "read_frame s =
     and_then (read_exact FRAME_OVERHEAD s) (\<lambda>(header, s).
     and_then (byte_at header 0) (\<lambda>command.
     and_then (be32_at header 1) (\<lambda>stream_id.
     and_then (be16_at header 5) (\<lambda>len.
     and_then (if unat len > 0 then read_exact (unat len) s else Ok ([], s)) (\<lambda>(payload, s).
       Ok (\<lparr>fr_command = command, fr_stream = stream_id, fr_payload = payload\<rparr>, s))))))"

function read_frames :: "bytes \<Rightarrow> frame list \<times> bytes" where
  "read_frames s =
     (case read_frame s of
        Ok (f, rest) \<Rightarrow> if length rest < length s then (case read_frames rest of (fs, r) \<Rightarrow> (f # fs, r)) else ([], s)
      | _ \<Rightarrow> ([], s))"
  by pat_completeness auto
termination
  by (relation "measure length") auto

section \<open>Schemes\<close>

datatype padding_range = CheckMark | Range u16 u16 | Exact u16

record padding_scheme =
  ps_raw :: string
  ps_md5_bytes :: bytes
  ps_md5_hex :: string
  ps_stop :: u32
  ps_records :: "(u32 \<times> padding_range list) list"

definition parse_item :: "string \<Rightarrow> padding_range option res" where
  "parse_item item0 =
     (let item = trim item0
      in if item = ''c'' then Ok (Some CheckMark)
         else
           and_then (ok_or (ConfigError ''range item'') (split_once (CHR ''-'') item)) (\<lambda>(min_s, max_s).
           and_then (ok_or (ConfigError ''min size'') (parse_u16 (trim min_s))) (\<lambda>a.
           and_then (ok_or (ConfigError ''max size'') (parse_u16 (trim max_s))) (\<lambda>b.
           let min_val = min a b; max_val = max a b
           in if min_val = 0 \<or> max_val = 0 then Ok None
              else if min_val = max_val then Ok (Some (Exact min_val))
              else Ok (Some (Range min_val max_val))))))"

fun parse_items :: "string list \<Rightarrow> padding_range list res" where
  "parse_items [] = Ok []"
| "parse_items (i # is) =
     and_then (parse_item i) (\<lambda>r. and_then (parse_items is) (\<lambda>rs.
       Ok (case r of Some x \<Rightarrow> x # rs | None \<Rightarrow> rs)))"

definition parse_stop :: "string \<Rightarrow> u32 res" where
  "parse_stop value =
     and_then (ok_or (ConfigError ''stop value'') (parse_i64 value)) (\<lambda>s.
       if s < 0 then Err (ConfigError ''negative stop'') else Ok (of_int s))"

fun parse_lines ::
    "string list \<Rightarrow> u32 option \<Rightarrow> (u32 \<times> padding_range list) list \<Rightarrow> (u32 option \<times> (u32 \<times> padding_range list) list) res" where
  "parse_lines [] stop recs = Ok (stop, recs)"
| "parse_lines (l # ls) stop recs =
     (let line = trim l
      in if line = [] \<or> starts_with line ''#'' then parse_lines ls stop recs
         else
           and_then (ok_or (ConfigError ''missing ='') (split_once (CHR ''='') line)) (\<lambda>(key, value).
           if trim key = ''stop''
           then and_then (parse_stop (trim value)) (\<lambda>s. parse_lines ls (Some s) recs)
           else
             and_then (ok_or (ConfigError ''packet id'') (parse_u32 (trim key))) (\<lambda>packet_id.
             and_then (parse_items (split_char (CHR '','') (trim value))) (\<lambda>ranges.
               parse_lines ls stop (if ranges \<noteq> [] then al_put packet_id ranges recs else recs)))))"

definition padding_parse :: "(bytes \<Rightarrow> bytes) \<Rightarrow> (bytes \<Rightarrow> string) \<Rightarrow> string \<Rightarrow> padding_scheme res" where
  "padding_parse md5 hex_encode raw =
     and_then (parse_lines (str_lines raw) None []) (\<lambda>(stop, recs).
     and_then (ok_or (ConfigError ''missing stop'') stop) (\<lambda>stop.
       Ok \<lparr>ps_raw = raw, ps_md5_bytes = md5 (str_bytes raw), ps_md5_hex = hex_encode (md5 (str_bytes raw)),
           ps_stop = stop, ps_records = recs\<rparr>))"

definition item_size :: "u32 \<Rightarrow> padding_range \<Rightarrow> int" where
  "item_size r item =
     (case item of
        CheckMark \<Rightarrow> - 1
      | Exact val \<Rightarrow> int (unat val)
      | Range mn mx \<Rightarrow>
          (let min_u = ucast mn :: u32; max_u = ucast mx; diff = max_u - min_u;
               offset = (if diff > 0 then r mod diff else 0)
           in sint (min_u + offset)))"

definition generate_record_payload_sizes :: "(nat \<Rightarrow> u32) \<Rightarrow> padding_scheme \<Rightarrow> u32 \<Rightarrow> int list option" where
  "generate_record_payload_sizes rnd scheme packet =
     (case map_of (ps_records scheme) packet of
        None \<Rightarrow> None
      | Some ranges \<Rightarrow>
          (if ranges = [] then None
           else Some (map (\<lambda>(i, item). item_size (rnd i) item) (List.enumerate 0 ranges))))"

section \<open>The padded writer\<close>

text \<open>The two loops that append waste frames; a waste frame is a header and zeros.\<close>

definition waste_frame :: "nat \<Rightarrow> bytes" where
  "waste_frame waste_len = CMD_WASTE # be32_bytes 0 @ be16_bytes (of_nat waste_len) @ replicate waste_len 0"

function pad_after_data :: "nat \<Rightarrow> bytes" where
  "pad_after_data remaining_pad =
     (if remaining_pad > FRAME_OVERHEAD
      then let waste_len = min (remaining_pad - FRAME_OVERHEAD) MAX_FRAME_SIZE
           in waste_frame waste_len @ pad_after_data (remaining_pad - (FRAME_OVERHEAD + waste_len))
      else [])"
  by pat_completeness auto
termination
  by (relation "measure (\<lambda>r. r)") (auto simp: FRAME_OVERHEAD_def)

function pad_only :: "nat \<Rightarrow> bytes" where
  "pad_only remaining_pad =
     (if remaining_pad > 0
      then let waste_len = min remaining_pad MAX_FRAME_SIZE
           in waste_frame waste_len @ pad_only (remaining_pad - waste_len)
      else [])"
  by pat_completeness auto
termination
  by (relation "measure (\<lambda>r. r)") (auto simp: MAX_FRAME_SIZE_def)

fun write_records :: "int list \<Rightarrow> bytes \<Rightarrow> bytes list" where
  "write_records [] remaining_data = (if remaining_data \<noteq> [] then [remaining_data] else [])"
| "write_records (sz # sizes) remaining_data =
     (if sz = - 1
      then (if remaining_data = [] then [] else write_records sizes remaining_data)
      else
        let target_size = nat sz
        in if length remaining_data > target_size
           then take target_size remaining_data # write_records sizes (drop target_size remaining_data)
           else if remaining_data \<noteq> []
           then (remaining_data @ pad_after_data (target_size - length remaining_data)) # write_records sizes []
           else pad_only target_size # write_records sizes [])"

definition write_padded_frame ::
    "(nat \<Rightarrow> u32) \<Rightarrow> bytes \<Rightarrow> u32 \<Rightarrow> bool \<Rightarrow> padding_scheme \<Rightarrow> bytes list \<times> u32 \<times> bool" where
  "write_padded_frame rnd data packet_count send_padding scheme =
     (let packet_count = packet_count + 1
      in if packet_count \<ge> ps_stop scheme then ([data], packet_count, False)
         else case generate_record_payload_sizes rnd scheme packet_count of
           Some sizes \<Rightarrow> (write_records sizes data, packet_count, send_padding)
         | None \<Rightarrow> ([data], packet_count, send_padding))"

text \<open>The writer task of a session: it pads while \<^verbatim>\<open>send_padding\<close> holds.\<close>

fun write_frames :: "(nat \<Rightarrow> nat \<Rightarrow> u32) \<Rightarrow> bytes list \<Rightarrow> u32 \<Rightarrow> bool \<Rightarrow> padding_scheme \<Rightarrow> bytes list" where
  "write_frames rnd [] packet_count send_padding scheme = []"
| "write_frames rnd (f # fs) packet_count send_padding scheme =
     (if send_padding
      then (case write_padded_frame (rnd (length fs)) f packet_count send_padding scheme of
              (ws, packet_count, send_padding) \<Rightarrow> ws @ write_frames rnd fs packet_count send_padding scheme)
      else f # write_frames rnd fs packet_count send_padding scheme)"

section \<open>Lemmas\<close>

declare read_frames.simps [simp del] pad_after_data.simps [simp del] pad_only.simps [simp del]

lemma length_make_frame [simp]: "length (make_frame c i p) = 7 + length p"
  by (simp add: make_frame_def)

lemma read_frame_make_frame:
  assumes "length p < 65536"
  shows "read_frame (make_frame c i p @ rest) = Ok (\<lparr>fr_command = c, fr_stream = i, fr_payload = p\<rparr>, rest)"
proof -
  let ?h = "c # be32_bytes i @ be16_bytes (of_nat (length p))"
  have "read_exact 7 (?h @ p @ rest) = Ok (?h, p @ rest)" by (intro read_exact_append) simp
  moreover have "byte_at ?h 0 = Ok c" by (simp add: byte_at_def)
  moreover have "be32_at ?h 1 = Ok i" by (simp add: be32_at_def byte_at_def be32_bytes_def be16_bytes_def)
  moreover have "be16_at ?h 5 = Ok (of_nat (length p))"
    using be16_at_append [of 5 "c # be32_bytes i" _ "[]"] by simp
  moreover have "unat (of_nat (length p) :: u16) = length p" using assms by (rule unat_of_nat_u16)
  ultimately show ?thesis
    by (cases "p = []") (simp_all add: read_frame_def make_frame_def FRAME_OVERHEAD_def read_exact_def)
qed

lemma read_frames_Cons:
  "length p < 65536 \<Longrightarrow> read_frames (make_frame c i p @ rest)
     = (\<lparr>fr_command = c, fr_stream = i, fr_payload = p\<rparr> # fst (read_frames rest), snd (read_frames rest))"
  by (subst read_frames.simps) (simp add: read_frame_make_frame split: prod.split)

lemma read_frames_Nil [simp]: "read_frames [] = ([], [])"
  by (subst read_frames.simps) (simp add: read_frame_def read_exact_def FRAME_OVERHEAD_def)

definition is_data :: "frame \<Rightarrow> bool" where
  "is_data f \<longleftrightarrow> fr_command f \<noteq> CMD_WASTE"

text \<open>A run of waste frames vanishes: what follows it is read as if it were not there.\<close>

definition only_waste :: "bytes \<Rightarrow> bool" where
  "only_waste w \<longleftrightarrow> (\<forall>rest. filter is_data (fst (read_frames (w @ rest))) = filter is_data (fst (read_frames rest)) \<and>
     snd (read_frames (w @ rest)) = snd (read_frames rest))"

lemma only_waste_Nil [simp]: "only_waste []"
  by (simp add: only_waste_def)

lemma only_waste_append: "only_waste a \<Longrightarrow> only_waste b \<Longrightarrow> only_waste (a @ b)"
  by (simp add: only_waste_def)

lemma only_waste_frame: "n < 65536 \<Longrightarrow> only_waste (waste_frame n)"
proof -
  assume "n < 65536"
  moreover have "waste_frame n = make_frame CMD_WASTE 0 (replicate n 0)"
    by (simp add: waste_frame_def make_frame_def)
  ultimately show ?thesis by (simp add: only_waste_def read_frames_Cons is_data_def)
qed

lemma only_waste_pad_after_data: "only_waste (pad_after_data n)"
proof (induction n rule: pad_after_data.induct)
  case (1 n)
  then show ?case
    by (subst pad_after_data.simps)
      (auto simp: Let_def MAX_FRAME_SIZE_def intro!: only_waste_append only_waste_frame)
qed

lemma only_waste_pad_only: "only_waste (pad_only n)"
proof (induction n rule: pad_only.induct)
  case (1 n)
  then show ?case
    by (subst pad_only.simps)
      (auto simp: Let_def MAX_FRAME_SIZE_def intro!: only_waste_append only_waste_frame)
qed

lemma write_records_waste:
  "\<exists>w. concat (write_records sizes data) = data @ w \<and> only_waste w"
proof (induction sizes arbitrary: data)
  case Nil
  then show ?case by (rule exI [of _ "[]"]) simp
next
  case (Cons sz sizes)
  obtain w where w: "concat (write_records sizes (drop (nat sz) data)) = drop (nat sz) data @ w" "only_waste w"
    using Cons.IH by blast
  obtain v where v: "concat (write_records sizes []) = v" "only_waste v" using Cons.IH [of "[]"] by auto
  consider "sz = - 1" | "sz \<noteq> - 1" "length data > nat sz" | "sz \<noteq> - 1" "length data \<le> nat sz" "data \<noteq> []"
    | "sz \<noteq> - 1" "data = []" by fastforce
  then show ?case
  proof cases
    case 1
    then show ?thesis using Cons.IH [of data] by auto
  next
    case 2
    have "take (nat sz) data @ drop (nat sz) data @ w = data @ w" by (metis append_assoc append_take_drop_id)
    then have "concat (write_records (sz # sizes) data) = data @ w" using 2 w(1) by (simp add: Let_def)
    then show ?thesis using w(2) by blast
  next
    case 3
    then show ?thesis
      using v only_waste_append [OF only_waste_pad_after_data [of "nat sz - length data"] v(2)] by (auto simp: Let_def)
  next
    case 4
    then show ?thesis
      using v only_waste_append [OF only_waste_pad_only [of "nat sz"] v(2)] by (auto simp: Let_def)
  qed
qed

lemma write_padded_waste:
  "\<exists>w. concat (fst (write_padded_frame rnd data n sp scheme)) = data @ w \<and> only_waste w"
  using write_records_waste [of _ data]
  by (auto simp: write_padded_frame_def Let_def intro: exI [of _ "[]"] split: option.split)

lemma write_frames_waste:
  assumes "list_all (\<lambda>f. length (fr_payload f) < 65536) fs"
  shows "filter is_data (fst (read_frames (concat (write_frames rnd
      (map (\<lambda>f. make_frame (fr_command f) (fr_stream f) (fr_payload f)) fs) n sp scheme)))) = filter is_data fs \<and>
    snd (read_frames (concat (write_frames rnd
      (map (\<lambda>f. make_frame (fr_command f) (fr_stream f) (fr_payload f)) fs) n sp scheme))) = []"
  using assms
proof (induction fs arbitrary: n sp)
  case (Cons f fs)
  let ?d = "make_frame (fr_command f) (fr_stream f) (fr_payload f)"
  let ?ds = "map (\<lambda>f. make_frame (fr_command f) (fr_stream f) (fr_payload f)) fs"
  have f: "\<lparr>fr_command = fr_command f, fr_stream = fr_stream f, fr_payload = fr_payload f\<rparr> = f"
    "is_data \<lparr>fr_command = fr_command f, fr_stream = fr_stream f, fr_payload = fr_payload f\<rparr> = is_data f"
    by (simp_all add: is_data_def)
  obtain w n' sp' where "concat (write_frames rnd (?d # ?ds) n sp scheme) = ?d @ w @ concat (write_frames rnd ?ds n' sp' scheme)"
    and w: "only_waste w"
  proof (cases sp)
    case True
    obtain ws n' sp' where r: "write_padded_frame (rnd (length ?ds)) ?d n sp scheme = (ws, n', sp')" using prod_cases3 by blast
    obtain w where "concat ws = ?d @ w" "only_waste w"
      using write_padded_waste [of "rnd (length ?ds)" ?d n sp scheme] r by auto
    then show ?thesis using that [of w n' sp'] True r by (simp del: length_map)
  next
    case False
    then show ?thesis using that [of "[]" n sp] by simp
  qed
  moreover have "length (fr_payload f) < 65536" using Cons.prems by simp
  ultimately show ?case
    using Cons.IH [of n' sp'] Cons.prems w f by (simp add: read_frames_Cons only_waste_def)
qed simp

section \<open>Properties\<close>

text \<open>Padding never changes what the peer reads. Whatever the padding scheme, the random sizes and the state of the writer,
  the records a session writes for a sequence of frames, joined and read as the peer reads them, are the same frames in the same
  order, apart from waste frames, and no byte is left over.\<close>

theorem anytls_padding_transparent:
  assumes "list_all (\<lambda>f. length (fr_payload f) < 65536) fs"
  shows "let wire = concat (write_frames rnd (map (\<lambda>f. make_frame (fr_command f) (fr_stream f) (fr_payload f)) fs)
           packet_count send_padding scheme)
     in filter is_data (fst (read_frames wire)) = filter is_data fs \<and> snd (read_frames wire) = []"
  using write_frames_waste [OF assms] by (simp add: Let_def)

theorem anytls_padding_transparent_witness:
  "filter is_data (fst (read_frames (concat (write_frames (\<lambda>i j. 7) [make_frame 2 1 [9, 9]] 0 True
     \<lparr>ps_raw = [], ps_md5_bytes = [], ps_md5_hex = [], ps_stop = 8, ps_records = [(1, [Exact 30, CheckMark, Range 4 9])]\<rparr>))))
   = [\<lparr>fr_command = 2, fr_stream = 1, fr_payload = [9, 9]\<rparr>]"
  using anytls_padding_transparent [of "[\<lparr>fr_command = 2, fr_stream = 1, fr_payload = [9, 9]\<rparr>]"
      "\<lambda>i j. 7" 0 True
      "\<lparr>ps_raw = [], ps_md5_bytes = [], ps_md5_hex = [], ps_stop = 8, ps_records = [(1, [Exact 30, CheckMark, Range 4 9])]\<rparr>"]
  by (simp add: Let_def is_data_def CMD_WASTE_def)

end
