(* ===== verification/Anytls_Session.thy ===== *)
theory Anytls_Session
  imports Anytls_Padding Rust_Net
begin

text \<open>
  \<^verbatim>\<open>src/protocol/anytls/session.rs\<close>, \<^verbatim>\<open>stream.rs\<close> and \<^verbatim>\<open>uot.rs\<close>: the frame handler of a multiplexed session, the destination
  address of a stream, and the packets of a UDP-over-TCP stream. The state of the session is a record; one event is a frame that
  was read or a worker that ended, which removes its stream from the table. \<open>sess_sent\<close> is the list of frames put on the session channel,
  \<open>sess_workers\<close> the workers spawned so far, \<open>Active\<close> the chunks put on the channel of a stream. Dialling, relaying and the
  cancellation of tasks are not part of the model.
\<close>

section \<open>Commands and destination addresses\<close>

definition CMD_SYN :: u8 where "CMD_SYN = 1"
definition CMD_PSH :: u8 where "CMD_PSH = 2"
definition CMD_FIN :: u8 where "CMD_FIN = 3"
definition CMD_SETTINGS :: u8 where "CMD_SETTINGS = 4"
definition CMD_ALERT :: u8 where "CMD_ALERT = 5"
definition CMD_UPDATE_PADDING_SCHEME :: u8 where "CMD_UPDATE_PADDING_SCHEME = 6"
definition CMD_SYNACK :: u8 where "CMD_SYNACK = 7"
definition CMD_HEART_REQUEST :: u8 where "CMD_HEART_REQUEST = 8"
definition CMD_HEART_RESPONSE :: u8 where "CMD_HEART_RESPONSE = 9"
definition CMD_SERVER_SETTINGS :: u8 where "CMD_SERVER_SETTINGS = 10"

definition MAX_CONCURRENT_STREAMS :: nat where "MAX_CONCURRENT_STREAMS = 1024"

lemmas cmd_defs = CMD_WASTE_def CMD_SYN_def CMD_PSH_def CMD_FIN_def CMD_SETTINGS_def CMD_ALERT_def
  CMD_UPDATE_PADDING_SCHEME_def CMD_SYNACK_def CMD_HEART_REQUEST_def CMD_HEART_RESPONSE_def CMD_SERVER_SETTINGS_def

record socks_target =
  st_host :: string
  st_ip :: "ip_addr option"
  st_port :: u16

definition parse_socks5_addr :: "bytes \<Rightarrow> (socks_target \<times> bytes) option res" where
  "parse_socks5_addr data =
     (if data = [] then Ok None
      else and_then (byte_at data 0) (\<lambda>atyp.
        if atyp = 0x01
        then (if length data < 7 then Ok None
              else
                and_then (byte_at data 1) (\<lambda>a. and_then (byte_at data 2) (\<lambda>b.
                and_then (byte_at data 3) (\<lambda>c. and_then (byte_at data 4) (\<lambda>d.
                and_then (be16_at data 5) (\<lambda>port.
                and_then (slice data 7 (length data)) (\<lambda>rest.
                  let ip = ipv4_new a b c d
                  in Ok (Some (\<lparr>st_host = ip_string ip, st_ip = Some ip, st_port = port\<rparr>, rest)))))))))
        else if atyp = 0x03
        then (if length data < 2 then Ok None
              else and_then (byte_at data 1) (\<lambda>lb.
                let len = unat lb
                in if length data < 2 + len + 2 then Ok None
                   else
                     and_then (slice data 2 (2 + len)) (\<lambda>name.
                     and_then (be16_at data (2 + len)) (\<lambda>port.
                     and_then (slice data (4 + len) (length data)) (\<lambda>rest.
                       Ok (Some (\<lparr>st_host = from_utf8_lossy name, st_ip = None, st_port = port\<rparr>, rest)))))))
        else if atyp = 0x04
        then (if length data < 19 then Ok None
              else
                and_then (slice data 1 17) (\<lambda>octs.
                and_then (be16_at data 17) (\<lambda>port.
                and_then (slice data 19 (length data)) (\<lambda>rest.
                  let ip = ipv6_from octs
                  in Ok (Some (\<lparr>st_host = ip_string ip, st_ip = Some ip, st_port = port\<rparr>, rest))))))
        else Ok None))"

section \<open>Sessions\<close>

datatype stream_state = WaitingForDestination | Active "bytes list"

record anytls_worker =
  w_stream :: u32
  w_version :: u32
  w_uot :: bool
  w_target :: socks_target
  w_initial :: bytes

record anytls_session =
  settings_received :: bool
  client_version :: u32
  last_stream_id :: u32
  sess_streams :: "(u32 \<times> stream_state) list"
  sess_sent :: "bytes list"
  sess_workers :: "anytls_worker list"

definition session_new :: anytls_session where
  "session_new = \<lparr>settings_received = False, client_version = 1, last_stream_id = 0, sess_streams = [], sess_sent = [],
     sess_workers = []\<rparr>"

definition send :: "bytes \<Rightarrow> anytls_session \<Rightarrow> anytls_session" where
  "send f s = s\<lparr>sess_sent := sess_sent s @ [f]\<rparr>"

fun settings_lines :: "string list \<Rightarrow> u32 \<times> string \<Rightarrow> u32 \<times> string" where
  "settings_lines [] acc = acc"
| "settings_lines (line # ls) (peer_version, md5) =
     (case split_once (CHR ''='') line of
        Some (k, v) \<Rightarrow>
          (if trim k = ''v''
           then settings_lines ls (case parse_u32 (trim v) of Some n \<Rightarrow> n | None \<Rightarrow> peer_version, md5)
           else if trim k = ''padding-md5'' then settings_lines ls (peer_version, trim v)
           else settings_lines ls (peer_version, md5))
      | None \<Rightarrow> settings_lines ls (peer_version, md5))"

definition on_settings :: "padding_scheme \<Rightarrow> bytes \<Rightarrow> anytls_session \<Rightarrow> anytls_session" where
  "on_settings scheme payload s =
     (let (peer_version, peer_md5) =
            (case from_utf8 payload of Some txt \<Rightarrow> settings_lines (str_lines txt) (1, []) | None \<Rightarrow> (1, []));
          s = s\<lparr>settings_received := True, client_version := peer_version\<rparr>;
          s = (if peer_md5 \<noteq> ps_md5_hex scheme \<and> length (ps_raw scheme) \<le> MAX_FRAME_SIZE
               then send (make_frame CMD_UPDATE_PADDING_SCHEME 0 (str_bytes (ps_raw scheme))) s else s)
      in if peer_version \<ge> 2 then send (make_frame CMD_SERVER_SETTINGS 0 (str_bytes (''v=2'' @ [CHR 0x0A]))) s else s)"

text \<open>A handler gives the state it leaves and, if it ends the session, the error it ends with.\<close>

definition on_syn :: "u32 \<Rightarrow> anytls_session \<Rightarrow> anytls_session \<times> io_error option" where
  "on_syn stream_id s =
     (if \<not> settings_received s
      then (send (make_frame CMD_ALERT 0 (str_bytes ''anytls: client did not send its settings'')) s, Some InvalidData)
      else if stream_id \<le> last_stream_id s
      then (send (make_frame CMD_ALERT 0 (str_bytes ''anytls: non-monotonic stream id'')) s, Some InvalidData)
      else
        let s = s\<lparr>last_stream_id := stream_id\<rparr>
        in if length (sess_streams s) < MAX_CONCURRENT_STREAMS
           then (s\<lparr>sess_streams := al_put stream_id WaitingForDestination (sess_streams s)\<rparr>, None)
           else (send (make_frame CMD_FIN stream_id []) s, None))"

definition UOT_V2_MAGIC_ADDRESS :: string where "UOT_V2_MAGIC_ADDRESS = ''sp.v2.udp-over-tcp.arpa''"
definition UOT_V1_MAGIC_ADDRESS :: string where "UOT_V1_MAGIC_ADDRESS = ''sp.udp-over-tcp.arpa''"

definition on_psh :: "u32 \<Rightarrow> bytes \<Rightarrow> anytls_session \<Rightarrow> anytls_session res" where
  "on_psh stream_id payload s =
     (case map_of (sess_streams s) stream_id of
        Some WaitingForDestination \<Rightarrow>
          and_then (parse_socks5_addr payload) (\<lambda>parsed.
            case parsed of
              Some (target, leftover) \<Rightarrow>
                Ok (s\<lparr>sess_streams := al_put stream_id (Active []) (sess_streams s),
                      sess_workers := sess_workers s @
                        [\<lparr>w_stream = stream_id, w_version = client_version s,
                          w_uot = (st_host target = UOT_V2_MAGIC_ADDRESS \<or> st_host target = UOT_V1_MAGIC_ADDRESS),
                          w_target = target, w_initial = leftover\<rparr>]\<rparr>)
            | None \<Rightarrow>
                (let s = (if client_version s \<ge> 2
                          then send (make_frame CMD_SYNACK stream_id (str_bytes ''invalid target address'')) s else s);
                     s = send (make_frame CMD_FIN stream_id []) s
                 in Ok (s\<lparr>sess_streams := al_del stream_id (sess_streams s)\<rparr>)))
      | Some (Active chunks) \<Rightarrow> Ok (s\<lparr>sess_streams := al_put stream_id (Active (chunks @ [payload])) (sess_streams s)\<rparr>)
      | None \<Rightarrow> Ok s)"

definition on_frame :: "padding_scheme \<Rightarrow> frame \<Rightarrow> anytls_session \<Rightarrow> (anytls_session \<times> io_error option) res" where
  "on_frame scheme f s =
     (if fr_command f = CMD_SETTINGS then Ok (on_settings scheme (fr_payload f) s, None)
      else if fr_command f = CMD_SYN then Ok (on_syn (fr_stream f) s)
      else if fr_command f = CMD_PSH then map_res (\<lambda>s. (s, None)) (on_psh (fr_stream f) (fr_payload f) s)
      else if fr_command f = CMD_FIN then Ok (s\<lparr>sess_streams := al_del (fr_stream f) (sess_streams s)\<rparr>, None)
      else if fr_command f = CMD_HEART_REQUEST then Ok (send (make_frame CMD_HEART_RESPONSE (fr_stream f) []) s, None)
      else Ok (s, None))"

datatype session_event = Frame frame | WorkerDone u32

fun session_exec :: "padding_scheme \<Rightarrow> session_event \<Rightarrow> anytls_session \<Rightarrow> (anytls_session \<times> io_error option) res" where
  "session_exec scheme (Frame f) s = on_frame scheme f s"
| "session_exec scheme (WorkerDone stream_id) s = Ok (s\<lparr>sess_streams := al_del stream_id (sess_streams s)\<rparr>, None)"

text \<open>The loop of \<^verbatim>\<open>handle_anytls_session\<close> on the events that happen, until a handler ends the session.\<close>

fun session_run :: "padding_scheme \<Rightarrow> session_event list \<Rightarrow> anytls_session \<Rightarrow> (anytls_session \<times> io_error option) res" where
  "session_run scheme [] s = Ok (s, None)"
| "session_run scheme (e # es) s =
     and_then (session_exec scheme e s) (\<lambda>(s, r). if r = None then session_run scheme es s else Ok (s, r))"

section \<open>UDP over TCP\<close>

text \<open>The inner loop of the upstream task: the complete packets of the buffer, and the rest.\<close>

function uot_drain :: "bytes \<Rightarrow> bytes list \<times> bytes" where
  "uot_drain buffer =
     (if length buffer \<ge> 2
      then let pkt_len = unat (be16 (buffer ! 0) (buffer ! 1))
           in if length buffer < 2 + pkt_len then ([], buffer)
              else (case uot_drain (drop (2 + pkt_len) buffer) of
                      (pkts, rest) \<Rightarrow> (take pkt_len (drop 2 buffer) # pkts, rest))
      else ([], buffer))"
  by pat_completeness auto
termination
  by (relation "measure length") auto

fun uot_up :: "bytes \<Rightarrow> bytes list \<Rightarrow> bytes list \<times> bytes" where
  "uot_up buffer [] = uot_drain buffer"
| "uot_up buffer (chunk # chunks) =
     (case uot_drain buffer of (pkts, rest) \<Rightarrow>
        (case uot_up (rest @ chunk) chunks of (pkts', rest') \<Rightarrow> (pkts @ pkts', rest')))"

text \<open>
  The start of the worker: the two loops that wait for the flag byte and for the whole address, then the upstream task.
  The end of the channel (no more chunks) before the address is complete ends the worker: \<open>None\<close>.
\<close>

fun uot_wait_flag :: "bytes \<Rightarrow> bytes list \<Rightarrow> (bytes \<times> bytes list) option" where
  "uot_wait_flag payload chunks =
     (if length payload < 2
      then (case chunks of [] \<Rightarrow> None | c # cs \<Rightarrow> uot_wait_flag (payload @ c) cs)
      else Some (payload, chunks))"

fun uot_wait_addr :: "bytes \<Rightarrow> bytes list \<Rightarrow> (socks_target \<times> bytes \<times> bytes list) option res" where
  "uot_wait_addr leftover [] =
     map_res (map_option (\<lambda>(target, rest). (target, rest, []))) (parse_socks5_addr leftover)"
| "uot_wait_addr leftover (c # cs) =
     and_then (parse_socks5_addr leftover) (\<lambda>parsed.
       case parsed of
         Some (target, rest) \<Rightarrow> Ok (Some (target, rest, c # cs))
       | None \<Rightarrow> uot_wait_addr (leftover @ c) cs)"

definition uot_worker_up :: "bytes \<Rightarrow> bytes list \<Rightarrow> (bool \<times> socks_target \<times> bytes list \<times> bytes) option res" where
  "uot_worker_up initial chunks =
     (case uot_wait_flag initial chunks of
        None \<Rightarrow> Ok None
      | Some (payload, chunks) \<Rightarrow>
          and_then (byte_at payload 0) (\<lambda>flag.
          and_then (slice payload 1 (length payload)) (\<lambda>leftover.
          map_res (map_option (\<lambda>(target, pending, chunks). (flag = 1, target, uot_up pending chunks)))
            (uot_wait_addr leftover chunks))))"

definition uot_packet :: "bytes \<Rightarrow> bytes" where
  "uot_packet d = be16_bytes (of_nat (length d)) @ d"

definition uot_down_frame :: "u32 \<Rightarrow> bytes \<Rightarrow> bytes" where
  "uot_down_frame stream_id d = make_frame CMD_PSH stream_id (uot_packet d)"

section \<open>Lemmas\<close>

declare uot_drain.simps [simp del]

lemma parse_socks5_addr_Ok: "\<exists>r. parse_socks5_addr data = Ok r"
  by (auto simp: parse_socks5_addr_def rs_simps Let_def)

lemma sess_streams_send [simp]: "sess_streams (send f s) = sess_streams s"
  "sess_workers (send f s) = sess_workers s" "last_stream_id (send f s) = last_stream_id s"
  "settings_received (send f s) = settings_received s" "client_version (send f s) = client_version s"
  by (simp_all add: send_def)

definition session_inv :: "anytls_session \<Rightarrow> bool" where
  "session_inv s \<longleftrightarrow>
     al_ok (sess_streams s) \<and> length (sess_streams s) \<le> MAX_CONCURRENT_STREAMS \<and>
     (\<forall>i st. map_of (sess_streams s) i = Some st \<longrightarrow> 0 < i \<and> i \<le> last_stream_id s) \<and>
     (\<forall>i. map_of (sess_streams s) i = Some WaitingForDestination \<longrightarrow> i \<notin> w_stream ` set (sess_workers s)) \<and>
     distinct (map w_stream (sess_workers s)) \<and> (\<forall>w \<in> set (sess_workers s). w_stream w \<le> last_stream_id s) \<and>
     (\<not> settings_received s \<longrightarrow> sess_streams s = [] \<and> sess_workers s = [])"

lemma length_al_del: "length (al_del k m) \<le> length m"
  by (simp add: al_del_def)

lemma session_inv_del: "session_inv s \<Longrightarrow> session_inv (s\<lparr>sess_streams := al_del i (sess_streams s)\<rparr>)"
proof -
  assume inv: "session_inv s"
  then have "length (al_del i (sess_streams s)) \<le> MAX_CONCURRENT_STREAMS"
    using length_al_del [of i "sess_streams s"] by (simp add: session_inv_def)
  moreover have "sess_streams s = [] \<Longrightarrow> al_del i (sess_streams s) = []" by (simp add: al_del_def)
  ultimately show ?thesis using inv by (auto simp: session_inv_def split: if_splits)
qed

lemma session_inv_send [simp]: "session_inv (send f s) = session_inv s"
  by (simp add: session_inv_def)

lemma session_inv_settings: "session_inv s \<Longrightarrow> session_inv (on_settings scheme payload s)"
  by (auto simp: on_settings_def Let_def session_inv_def split: prod.split)

lemma session_inv_syn: "session_inv s \<Longrightarrow> session_inv (fst (on_syn i s))"
proof -
  assume inv: "session_inv s"
  show ?thesis
  proof (cases "settings_received s \<and> \<not> i \<le> last_stream_id s")
    case True
    then have i: "last_stream_id s < i" by (simp add: not_le)
    then have "0 < i" by (metis word_gt_0 word_not_simps(1))
    have fresh: "map_of (sess_streams s) i = None" "i \<notin> w_stream ` set (sess_workers s)"
      using inv i by (auto simp: session_inv_def not_le [symmetric])
    have mono: "j \<le> i" if "j \<le> last_stream_id s" for j using that i by simp
    show ?thesis
      using inv True i fresh mono \<open>0 < i\<close>
      by (auto simp: on_syn_def Let_def session_inv_def length_al_put)
  qed (use inv in \<open>auto simp: on_syn_def\<close>)
qed

lemma session_inv_replace:
  assumes "session_inv s" "map_of (sess_streams s) i = Some st" "st' \<noteq> WaitingForDestination"
  shows "session_inv (s\<lparr>sess_streams := al_put i st' (sess_streams s)\<rparr>)"
proof -
  have "length (al_put i st' (sess_streams s)) = length (sess_streams s)"
    using assms(1,2) by (simp add: session_inv_def length_al_put)
  then show ?thesis using assms by (auto simp: session_inv_def)
qed

lemma session_inv_psh:
  assumes "session_inv s" "on_psh i p s = Ok s'"
  shows "session_inv s'"
proof (cases "map_of (sess_streams s) i")
  case None
  then show ?thesis using assms by (simp add: on_psh_def)
next
  case (Some st)
  show ?thesis
  proof (cases st)
    case WaitingForDestination
    obtain r where r: "parse_socks5_addr p = Ok r" using parse_socks5_addr_Ok by blast
    show ?thesis
    proof (cases r)
      case None
      have del: "session_inv (t\<lparr>sess_streams := al_del i (sess_streams s)\<rparr>)"
        if "session_inv t" "sess_streams t = sess_streams s" for t
        using session_inv_del [of t i] that by simp
      show ?thesis
        using assms Some WaitingForDestination r None by (auto simp: on_psh_def Let_def intro!: del split: if_splits)
    next
      case (Some tl)
      have "i \<notin> w_stream ` set (sess_workers s)" "i \<le> last_stream_id s" "settings_received s"
        using assms(1) \<open>map_of (sess_streams s) i = Some st\<close> WaitingForDestination by (auto simp: session_inv_def)
      moreover note session_inv_replace [OF assms(1) \<open>map_of (sess_streams s) i = Some st\<close>, of "Active []"]
      ultimately have add: "session_inv (s\<lparr>sess_streams := al_put i (Active []) (sess_streams s),
          sess_workers := sess_workers s @ [w]\<rparr>)" if "w_stream w = i" for w
        using that by (auto simp: session_inv_def)
      show ?thesis
        using assms(2) \<open>map_of (sess_streams s) i = Some st\<close> WaitingForDestination r Some
        by (cases tl) (auto simp: on_psh_def intro!: add)
    qed
  next
    case (Active chunks)
    then show ?thesis
      using assms Some session_inv_replace [OF assms(1) Some, of "Active (chunks @ [p])"] by (simp add: on_psh_def)
  qed
qed

lemma session_exec_inv:
  assumes "session_inv s" "session_exec scheme e s = Ok (s', r)"
  shows "session_inv s'"
proof (cases e)
  case (Frame f)
  then show ?thesis
    using assms session_inv_settings session_inv_syn [of s "fr_stream f"] session_inv_psh session_inv_del
    by (auto simp: on_frame_def split: if_splits)
qed (use assms session_inv_del in auto)

lemma session_run_inv: "session_inv s \<Longrightarrow> session_run scheme es s = Ok (s', r) \<Longrightarrow> session_inv s'"
proof (induction es arbitrary: s)
  case (Cons e es)
  then obtain s1 r1 where "session_exec scheme e s = Ok (s1, r1)"
    "(if r1 = None then session_run scheme es s1 else Ok (s1, r1)) = Ok (s', r)" by auto
  then show ?case using Cons session_exec_inv [of s scheme e s1 r1] by (auto split: if_splits)
qed simp

lemma filter_key_unique:
  "distinct (map f ws) \<Longrightarrow> w \<in> set ws \<Longrightarrow> f w = i \<Longrightarrow> filter (\<lambda>w. f w = i) ws = [w]"
proof (induction ws)
  case (Cons v ws)
  show ?case
  proof (cases "v = w")
    case True
    then have "filter (\<lambda>w. f w = i) ws = []" using Cons.prems by (auto simp: filter_empty_conv) (metis imageI)
    then show ?thesis using True Cons.prems by simp
  qed (use Cons in force)
qed simp

lemma session_new_inv: "session_inv session_new"
  by (simp add: session_inv_def session_new_def)




section \<open>What a worker receives\<close>

text \<open>The abstract view of one stream: the payloads sent to it since it was opened.\<close>

definition since_syn :: "u32 \<Rightarrow> session_event \<Rightarrow> bytes list \<Rightarrow> bytes list" where
  "since_syn i e ps =
     (case e of
        Frame f \<Rightarrow>
          (if fr_stream f \<noteq> i then ps
           else if fr_command f = CMD_SYN then []
           else if fr_command f = CMD_PSH then ps @ [fr_payload f]
           else ps)
      | WorkerDone j \<Rightarrow> ps)"

fun fed :: "u32 \<Rightarrow> bytes list \<Rightarrow> anytls_worker list \<Rightarrow> stream_state option \<Rightarrow> bool" where
  "fed i ps ws None = True"
| "fed i ps ws (Some WaitingForDestination) = (ps = [])"
| "fed i ps ws (Some (Active chunks)) =
     (\<exists>w p. w \<in> set ws \<and> w_stream w = i \<and> ps = p # chunks \<and> parse_socks5_addr p = Ok (Some (w_target w, w_initial w)))"

definition stream_fed :: "u32 \<Rightarrow> bytes list \<Rightarrow> anytls_session \<Rightarrow> bool" where
  "stream_fed i ps s = fed i ps (sess_workers s) (map_of (sess_streams s) i)"

lemma fed_more_workers: "fed i ps ws st \<Longrightarrow> fed i ps (ws @ vs) st"
  by (induction i ps ws st rule: fed.induct) auto

lemma on_settings_streams [simp]:
  "sess_streams (on_settings scheme p s) = sess_streams s" "sess_workers (on_settings scheme p s) = sess_workers s"
  by (auto simp: on_settings_def Let_def split: prod.split)

lemma stream_fed_syn:
  assumes "session_inv s" "stream_fed i ps s" "on_syn j s = (s', None)"
  shows "stream_fed i (if j = i then [] else ps) s'"
proof -
  have ok: "settings_received s" "last_stream_id s < j"
    using assms(3) by (auto simp: on_syn_def not_le split: if_splits)
  then have "map_of (sess_streams s) j = None"
    using assms(1) by (auto simp: session_inv_def not_le [symmetric])
  then show ?thesis
    using assms(2,3) ok by (auto simp: on_syn_def Let_def not_le [symmetric] stream_fed_def split: if_splits)
qed

lemma stream_fed_psh:
  assumes "stream_fed i ps s" "on_psh j p s = Ok s'"
  shows "stream_fed i (if j = i then ps @ [p] else ps) s'"
proof (cases "map_of (sess_streams s) j")
  case None
  then show ?thesis using assms by (auto simp: on_psh_def stream_fed_def)
next
  case (Some st)
  show ?thesis
  proof (cases st)
    case WaitingForDestination
    then show ?thesis using assms Some
      by (auto simp: on_psh_def Let_def stream_fed_def fed_more_workers
          ex_disj_distrib conj_disj_distribR split: option.splits if_splits)
  next
    case (Active chunks)
    then show ?thesis using assms Some by (auto simp: on_psh_def stream_fed_def)
  qed
qed

lemma stream_fed_exec:
  assumes "session_inv s" "stream_fed i ps s" "session_exec scheme e s = Ok (s', None)"
  shows "stream_fed i (since_syn i e ps) s'"
proof (cases e)
  case (Frame f)
  then consider
    "fr_command f = CMD_SYN" "on_syn (fr_stream f) s = (s', None)" |
    "fr_command f = CMD_PSH" "on_psh (fr_stream f) (fr_payload f) s = Ok s'" |
    "fr_command f \<noteq> CMD_SYN" "fr_command f \<noteq> CMD_PSH" "sess_workers s' = sess_workers s"
      "sess_streams s' = sess_streams s \<or> sess_streams s' = al_del (fr_stream f) (sess_streams s)"
    using assms(3) by (auto simp: on_frame_def cmd_defs split: if_splits)
  then show ?thesis
  proof cases
    case 1
    then show ?thesis using stream_fed_syn [OF assms(1,2) 1(2)] Frame by (auto simp: since_syn_def)
  next
    case 2
    then show ?thesis using stream_fed_psh [OF assms(2) 2(2)] Frame by (auto simp: since_syn_def cmd_defs)
  next
    case 3
    then have "since_syn i e ps = ps" using Frame by (simp add: since_syn_def)
    then show ?thesis using 3(3,4) assms(2) by (auto simp: stream_fed_def)
  qed
next
  case (WorkerDone j)
  then show ?thesis using assms(2,3) by (auto simp: since_syn_def stream_fed_def)
qed

lemma stream_fed_run:
  "session_inv s \<Longrightarrow> stream_fed i ps s \<Longrightarrow> session_run scheme es s = Ok (s', None) \<Longrightarrow>
   stream_fed i (fold (since_syn i) es ps) s'"
proof (induction es arbitrary: s ps)
  case (Cons e es)
  then obtain s1 where step: "session_exec scheme e s = Ok (s1, None)" "session_run scheme es s1 = Ok (s', None)"
    by (auto split: if_splits)
  then show ?case
    using Cons.IH [of s1 "since_syn i e ps"] session_exec_inv [OF Cons.prems(1) step(1)]
      stream_fed_exec [OF Cons.prems(1,2) step(1)] by simp
qed simp

section \<open>Packets of a UDP-over-TCP stream\<close>

lemma uot_drain_packet:
  assumes "length d < 65536"
  shows "uot_drain (uot_packet d @ rest) = (case uot_drain rest of (ps, r) \<Rightarrow> (d # ps, r))"
  using assms by (subst uot_drain.simps) (simp add: uot_packet_def be16_bytes_def unat_of_nat_u16)

lemma uot_drain_append:
  "uot_drain (b @ c) = (case uot_drain b of (ps, r) \<Rightarrow> case uot_drain (r @ c) of (ps', r') \<Rightarrow> (ps @ ps', r'))"
proof (induction b rule: uot_drain.induct)
  case (1 b)
  show ?case
  proof (cases "length b \<ge> 2 \<and> length b \<ge> 2 + unat (be16 (b ! 0) (b ! 1))")
    case True
    define n where "n = unat (be16 (b ! 0) (b ! 1))"
    have [simp]: "b \<noteq> []" using True by auto
    have b: "uot_drain b = (case uot_drain (drop (2 + n) b) of (ps, r) \<Rightarrow> (take n (drop 2 b) # ps, r))"
      using True by (subst uot_drain.simps) (simp add: n_def Let_def)
    have bc: "uot_drain (b @ c) = (case uot_drain (drop (2 + n) b @ c) of (ps, r) \<Rightarrow> (take n (drop 2 b) # ps, r))"
      using True by (subst uot_drain.simps) (simp add: n_def Let_def nth_append split: if_splits)
    show ?thesis
      using "1.IH" [OF _ refl] True unfolding b bc by (simp add: n_def split: prod.split)
  next
    case False
    then have "uot_drain b = ([], b)" by (subst uot_drain.simps) (auto simp: Let_def)
    then show ?thesis by (simp split: prod.split)
  qed
qed

lemma uot_up_drain: "uot_up b chunks = uot_drain (b @ concat chunks)"
proof (induction chunks arbitrary: b)
  case (Cons c cs)
  show ?case by (simp add: Cons.IH uot_drain_append [of b "c @ concat cs"] split: prod.split)
qed simp

lemma uot_drain_packets:
  "list_all (\<lambda>d. length d < 65536) ds \<Longrightarrow> uot_drain (concat (map uot_packet ds)) = (ds, [])"
proof (induction ds)
  case Nil
  show ?case by (subst uot_drain.simps) simp
qed (simp add: uot_drain_packet)

lemma parse_socks5_addr_mono:
  assumes "parse_socks5_addr b = Ok (Some (t, r))"
  shows "parse_socks5_addr (b @ c) = Ok (Some (t, r @ c))"
proof -
  have "b \<noteq> []" using assms by (auto simp: parse_socks5_addr_def)
  then consider "b ! 0 = 1" "length b \<ge> 7" | "b ! 0 = 3" "length b \<ge> 2" "length b \<ge> 2 + unat (b ! 1) + 2" |
    "b ! 0 = 4" "length b \<ge> 19"
    using assms by (auto simp: parse_socks5_addr_def byte_at_Ok Let_def split: if_splits)
  then show ?thesis
  proof cases
    case 1
    then show ?thesis using assms by (auto simp: parse_socks5_addr_def rs_simps Let_def nth_append)
  next
    case 2
    then show ?thesis using assms by (auto simp: parse_socks5_addr_def rs_simps Let_def nth_append)
  next
    case 3
    then show ?thesis using assms by (auto simp: parse_socks5_addr_def rs_simps Let_def nth_append)
  qed
qed

lemma uot_wait_addr_Some:
  "parse_socks5_addr (b @ concat chunks) = Ok (Some (t, r)) \<Longrightarrow>
   \<exists>pending rest. uot_wait_addr b chunks = Ok (Some (t, pending, rest)) \<and> pending @ concat rest = r"
proof (induction b chunks rule: uot_wait_addr.induct)
  case (2 b c cs)
  obtain q where q: "parse_socks5_addr b = Ok q" using parse_socks5_addr_Ok by blast
  show ?case
  proof (cases q)
    case None
    then show ?thesis using 2 q by simp
  next
    case (Some tr)
    then obtain t' r' where "q = Some (t', r')" by (cases tr) auto
    then show ?thesis using "2.prems" q parse_socks5_addr_mono [of b t' r' "c @ concat cs"] by simp
  qed
qed simp

declare uot_wait_flag.simps [simp del]

lemma uot_wait_flag_Some:
  "length (b @ concat chunks) \<ge> 2 \<Longrightarrow>
   \<exists>b' rest. uot_wait_flag b chunks = Some (b', rest) \<and> length b' \<ge> 2 \<and> b' @ concat rest = b @ concat chunks"
proof (induction chunks arbitrary: b)
  case Nil
  then show ?case by (subst uot_wait_flag.simps) simp
next
  case (Cons c cs)
  then show ?case using Cons.IH [of "b @ c"] by (subst uot_wait_flag.simps) (auto simp: not_le)
qed

section \<open>Properties\<close>


text \<open>C10: Delivery. If a stream is connected at the end of a run, then the payloads sent to it since its SYN are, in order, one
  payload that holds the destination address and, behind it, the initial data of the one worker of the stream, and then
  exactly the chunks on the channel of that worker: no payload is lost, repeated, reordered or taken from another stream.
\<close>

theorem anytls_stream_delivery:
  assumes "session_run scheme es session_new = Ok (s, None)"
    and "map_of (sess_streams s) i = Some (Active chunks)"
  shows "\<exists>w p. filter (\<lambda>w. w_stream w = i) (sess_workers s) = [w] \<and>
           fold (since_syn i) es [] = p # chunks \<and> parse_socks5_addr p = Ok (Some (w_target w, w_initial w))"
proof -
  have "stream_fed i (fold (since_syn i) es []) s"
    by (rule stream_fed_run [OF session_new_inv _ assms(1)]) (simp add: stream_fed_def session_new_def)
  then obtain w p where w: "w \<in> set (sess_workers s)" "w_stream w = i" "fold (since_syn i) es [] = p # chunks"
    "parse_socks5_addr p = Ok (Some (w_target w, w_initial w))"
    using assms(2) by (auto simp: stream_fed_def)
  have "distinct (map w_stream (sess_workers s))"
    using session_run_inv [OF session_new_inv assms(1)] by (simp add: session_inv_def)
  then have "filter (\<lambda>w. w_stream w = i) (sess_workers s) = [w]"
    using w(1,2) by (rule filter_key_unique)
  then show ?thesis using w by blast
qed

text \<open>A UDP-over-TCP stream that consists of the flag byte, a destination address and a sequence of datagrams of at most
  65535 bytes with their lengths is decoded to exactly that flag, address and sequence, however the stream was cut into
  the initial data and the later chunks.
\<close>

theorem uot_stream_decoded:
  assumes "parse_socks5_addr addr = Ok (Some (target, []))" and "list_all (\<lambda>d. length d < 65536) ds"
    and "initial @ concat chunks = flag # addr @ concat (map uot_packet ds)"
  shows "uot_worker_up initial chunks = Ok (Some (flag = 1, target, ds, []))"
proof -
  have "addr \<noteq> []" using assms(1) by (auto simp: parse_socks5_addr_def)
  then have "length (initial @ concat chunks) \<ge> 2" unfolding assms(3) by (cases addr) auto
  then obtain b rest where b: "uot_wait_flag initial chunks = Some (b, rest)" "length b \<ge> 2"
    "b @ concat rest = flag # addr @ concat (map uot_packet ds)"
    using uot_wait_flag_Some assms(3) by metis
  then obtain c where c: "b = flag # c" "c @ concat rest = addr @ concat (map uot_packet ds)" by (cases b) auto
  have "parse_socks5_addr (c @ concat rest) = Ok (Some (target, concat (map uot_packet ds)))"
    using parse_socks5_addr_mono [OF assms(1)] c(2) by simp
  then obtain pending more where "uot_wait_addr c rest = Ok (Some (target, pending, more))"
    "pending @ concat more = concat (map uot_packet ds)"
    using uot_wait_addr_Some by blast
  then show ?thesis
    using b(1) c(1) assms(2) by (simp add: uot_worker_up_def rs_simps uot_up_drain uot_drain_packets del: and_then_Ok_iff map_res_Ok_iff)
qed


text \<open>A session with one stream: settings, a SYN, an address with one byte behind it, and one more byte.\<close>

definition sample_scheme :: padding_scheme where
  "sample_scheme = \<lparr>ps_raw = [], ps_md5_bytes = [], ps_md5_hex = [], ps_stop = 0, ps_records = []\<rparr>"

definition sample_events :: "session_event list" where
  "sample_events =
     [Frame \<lparr>fr_command = 4, fr_stream = 0, fr_payload = []\<rparr>, Frame \<lparr>fr_command = 1, fr_stream = 1, fr_payload = []\<rparr>,
      Frame \<lparr>fr_command = 2, fr_stream = 1, fr_payload = [3, 1, 97, 0, 80, 9]\<rparr>,
      Frame \<lparr>fr_command = 2, fr_stream = 1, fr_payload = [5]\<rparr>]"

theorem anytls_stream_delivery_witness:
  "\<exists>s w p. session_run sample_scheme sample_events session_new = Ok (s, None) \<and>
     filter (\<lambda>w. w_stream w = 1) (sess_workers s) = [w] \<and>
     fold (since_syn 1) sample_events [] = p # [[5]] \<and> parse_socks5_addr p = Ok (Some (w_target w, w_initial w))"
proof -
  have "case session_run sample_scheme sample_events session_new of
          Ok (s, r) \<Rightarrow> r = None \<and> map_of (sess_streams s) 1 = Some (Active [[5]]) | _ \<Rightarrow> False"
    by code_simp
  then obtain s where s: "session_run sample_scheme sample_events session_new = Ok (s, None)"
    "map_of (sess_streams s) 1 = Some (Active [[5]])"
    by (auto split: res.splits)
  show ?thesis using s(1) anytls_stream_delivery [OF s] by blast
qed

theorem uot_stream_decoded_witness:
  "uot_worker_up [1, 1, 10] [[0, 0, 1], [0, 53, 0], [2, 7, 8, 0, 0]] =
     Ok (Some (True, \<lparr>st_host = ip_string (ipv4_new 10 0 0 1), st_ip = Some (ipv4_new 10 0 0 1), st_port = 53\<rparr>, [[7, 8], []], []))"
  using uot_stream_decoded [of "[1, 10, 0, 0, 1, 0, 53]"
      "\<lparr>st_host = ip_string (ipv4_new 10 0 0 1), st_ip = Some (ipv4_new 10 0 0 1), st_port = 53\<rparr>" "[[7, 8], []]"
      "[1, 1, 10]" "[[0, 0, 1], [0, 53, 0], [2, 7, 8, 0, 0]]" 1]
  by (simp add: parse_socks5_addr_def rs_simps uot_packet_def be16_bytes_def be16_def Let_def)

end
