(* ===== verification/Stream_Parser.thy ===== *)
theory Stream_Parser
  imports Prelude
begin

text \<open>
  Headers that are read from a stream with \<^verbatim>\<open>read_exact\<close> calls. \<open>streaming p\<close> says that the parser \<open>p\<close> takes a definite number
  of bytes off the front of its input, that its result depends on these bytes alone, and that every proper prefix of them
  is reported as \<^verbatim>\<open>UnexpectedEof\<close>. The rules compose it along the sequence of reads of a header, as the sources compose the reads.
\<close>

section \<open>Reads of one field\<close>

definition read_u8 :: "bytes \<Rightarrow> (u8 \<times> bytes) res" where
  "read_u8 s = and_then (read_exact 1 s) (\<lambda>(b, s). Ok (b ! 0, s))"

definition read_u16 :: "bytes \<Rightarrow> (u16 \<times> bytes) res" where
  "read_u16 s = and_then (read_exact 2 s) (\<lambda>(b, s). Ok (be16 (b ! 0) (b ! 1), s))"

section \<open>Streaming parsers\<close>

definition streaming :: "(bytes \<Rightarrow> ('a \<times> bytes) res) \<Rightarrow> bool" where
  "streaming p \<longleftrightarrow>
     (\<forall>bs. p bs \<noteq> Panic) \<and>
     (\<forall>bs x r. p bs = Ok (x, r) \<longrightarrow>
        (\<exists>u. bs = u @ r \<and> (\<forall>r'. p (u @ r') = Ok (x, r')) \<and> (\<forall>n < length u. p (take n u) = Err UnexpectedEof)))"

named_theorems streaming_intros

lemma streamingE:
  assumes "streaming p" "p bs = Ok (x, r)"
  obtains u where "bs = u @ r" "\<And>r'. p (u @ r') = Ok (x, r')" "\<And>n. n < length u \<Longrightarrow> p (take n u) = Err UnexpectedEof"
  using assms unfolding streaming_def by blast

lemma streaming_no_panic: "streaming p \<Longrightarrow> p bs \<noteq> Panic"
  by (simp add: streaming_def)

lemma streaming_Ok [streaming_intros]: "streaming (\<lambda>s. Ok (x, s))"
  by (auto simp: streaming_def)

lemma streaming_Err [streaming_intros]: "streaming (\<lambda>s. Err e)"
  by (simp add: streaming_def)

lemma streaming_if [streaming_intros]:
  "(c \<Longrightarrow> streaming p) \<Longrightarrow> (\<not> c \<Longrightarrow> streaming q) \<Longrightarrow> streaming (\<lambda>s. if c then p s else q s)"
  by (cases c) simp_all

lemma streaming_let [streaming_intros]: "streaming (p v) \<Longrightarrow> streaming (\<lambda>s. let x = v in p x s)"
  by simp

lemma streaming_read_exact [streaming_intros]: "streaming (read_exact n)"
  unfolding streaming_def
proof (intro conjI allI impI)
  fix bs x r assume "read_exact n bs = Ok (x, r)"
  then have "bs = take n bs @ r" "length (take n bs) = n" "x = take n bs" by auto
  then show "\<exists>u. bs = u @ r \<and> (\<forall>r'. read_exact n (u @ r') = Ok (x, r')) \<and>
      (\<forall>k < length u. read_exact n (take k u) = Err UnexpectedEof)"
    by (intro exI [of _ "take n bs"]) (auto simp: read_exact_def)
qed simp

lemma streaming_bind [streaming_intros]:
  assumes p: "streaming p" and q: "\<And>x. streaming (q x)"
  shows "streaming (\<lambda>s. and_then (p s) (\<lambda>(x, s). q x s))"
  unfolding streaming_def
proof (intro conjI allI impI)
  fix bs
  show "and_then (p bs) (\<lambda>(x, s). q x s) \<noteq> Panic"
    using streaming_no_panic [OF p] streaming_no_panic [OF q] by (auto simp: and_then_Panic_iff)
next
  fix bs y r assume "and_then (p bs) (\<lambda>(x, s). q x s) = Ok (y, r)"
  then obtain x s where x: "p bs = Ok (x, s)" "q x s = Ok (y, r)" by auto
  obtain u where u: "bs = u @ s" "\<And>r'. p (u @ r') = Ok (x, r')" "\<And>n. n < length u \<Longrightarrow> p (take n u) = Err UnexpectedEof"
    using streamingE [OF p x(1)] by blast
  obtain v where v: "s = v @ r" "\<And>r'. q x (v @ r') = Ok (y, r')" "\<And>n. n < length v \<Longrightarrow> q x (take n v) = Err UnexpectedEof"
    using streamingE [OF q x(2)] by blast
  have "and_then (p (take n (u @ v))) (\<lambda>(x, s). q x s) = Err UnexpectedEof" if "n < length (u @ v)" for n
  proof (cases "n < length u")
    case True
    then show ?thesis using u(3) by simp
  next
    case False
    then show ?thesis using u(2) v(3) [of "n - length u"] that by simp
  qed
  then show "\<exists>w. bs = w @ r \<and> (\<forall>r'. and_then (p (w @ r')) (\<lambda>(x, s). q x s) = Ok (y, r')) \<and>
      (\<forall>n < length w. and_then (p (take n w)) (\<lambda>(x, s). q x s) = Err UnexpectedEof)"
    using u(1,2) v(1,2) by (intro exI [of _ "u @ v"]) simp
qed

lemma streaming_read_u8 [streaming_intros]: "streaming read_u8"
  unfolding read_u8_def by (rule streaming_bind streaming_read_exact streaming_Ok)+

lemma streaming_read_u16 [streaming_intros]: "streaming read_u16"
  unfolding read_u16_def by (rule streaming_bind streaming_read_exact streaming_Ok)+

text \<open>A streaming parser on a truncated input.\<close>

lemma streaming_truncated:
  assumes "streaming p" "p bs = Ok (x, r)" "n < length bs - length r"
  shows "p (take n bs) = Err UnexpectedEof"
proof -
  obtain u where "bs = u @ r" "\<And>n. n < length u \<Longrightarrow> p (take n u) = Err UnexpectedEof"
    using streamingE [OF assms(1,2)] by metis
  then show ?thesis using assms(3) by simp
qed

lemma streaming_consumes:
  assumes "streaming p" "p bs = Ok (x, r)"
  shows "bs = take (length bs - length r) bs @ r"
  using streamingE [OF assms] by (metis append_eq_conv_conj length_append add_diff_cancel_right')

section \<open>Evaluation\<close>

lemma read_u8_Cons [simp]: "read_u8 (b # s) = Ok (b, s)"
  by (simp add: read_u8_def read_exact_def)

lemma read_u8_Nil [simp]: "read_u8 [] = Err UnexpectedEof"
  by (simp add: read_u8_def read_exact_def)

lemma read_u16_Cons [simp]: "read_u16 (a # b # s) = Ok (be16 a b, s)"
  by (simp add: read_u16_def read_exact_def)

lemma read_u16_bytes [simp]: "read_u16 (be16_bytes w @ s) = Ok (w, s)"
  by (simp add: be16_bytes_def)

end
