(* ===== verification/Vless_Header.thy ===== *)
theory Vless_Header
  imports Stream_Parser Varint Rust_Net
begin

text \<open>
  \<^verbatim>\<open>src/protocol/vless/header.rs\<close>: the request header of a VLESS connection, its protobuf addons and the response header.
  The stream is the list of bytes that have not been read; the header is read with \<^verbatim>\<open>read_exact\<close> only, so the way the network cuts
  the data does not matter. \<open>vless_request\<close> and \<open>addon_bytes\<close> are the reference encoders a client uses.
\<close>

section \<open>Definitions\<close>

definition process_uuid :: "bytes \<Rightarrow> bytes" where
  "process_uuid u = u[6 := 0, 7 := 0]"

record vless_addons =
  va_flow :: string
  va_seed :: bytes

definition vless_addons_default :: vless_addons where
  "vless_addons_default = \<lparr>va_flow = [], va_seed = []\<rparr>"

fun read_uvarint_from :: "u64 \<Rightarrow> nat \<Rightarrow> bytes \<Rightarrow> (u64 \<times> bytes) option" where
  "read_uvarint_from v shift [] = None"
| "read_uvarint_from v shift (b # buf) =
     (let v = v OR push_bit shift (ucast (b AND 0x7F))
      in if b AND 0x80 = 0 then Some (v, buf)
         else if shift + 7 > 63 then None
         else read_uvarint_from v (shift + 7) buf)"

definition read_uvarint :: "bytes \<Rightarrow> (u64 \<times> bytes) option" where
  "read_uvarint buf = read_uvarint_from 0 0 buf"

text \<open>The body of the loop: \<open>None\<close> is \<^verbatim>\<open>break\<close>.\<close>

definition addons_step :: "vless_addons \<Rightarrow> bytes \<Rightarrow> (vless_addons \<times> bytes) option" where
  "addons_step addons buf =
     (case read_uvarint buf of
        None \<Rightarrow> None
      | Some (tag_wire, buf) \<Rightarrow>
          (let wire_type = tag_wire AND 7; field_num = drop_bit 3 tag_wire
           in if wire_type = 0 then map_option (\<lambda>(v, rest). (addons, rest)) (read_uvarint buf)
              else if wire_type = 1 then (if length buf < 8 then None else Some (addons, drop 8 buf))
              else if wire_type = 2
              then (case read_uvarint buf of
                      None \<Rightarrow> None
                    | Some (len, rest) \<Rightarrow>
                        (if length rest < unat len then None
                         else let data = take (unat len) rest; buf = drop (unat len) rest
                              in Some (if field_num = 1 then addons\<lparr>va_flow := from_utf8_lossy data\<rparr>
                                       else if field_num = 2 then addons\<lparr>va_seed := data\<rparr>
                                       else addons, buf)))
              else if wire_type = 5 then (if length buf < 4 then None else Some (addons, drop 4 buf))
              else None))"

lemma read_uvarint_from_shorter: "read_uvarint_from v k buf = Some (w, rest) \<Longrightarrow> length rest < length buf"
  by (induction v k buf rule: read_uvarint_from.induct) (auto simp: Let_def split: if_splits)

lemma read_uvarint_shorter: "read_uvarint buf = Some (w, rest) \<Longrightarrow> length rest < length buf"
  by (simp add: read_uvarint_def read_uvarint_from_shorter)

lemma addons_step_shorter: "addons_step addons buf = Some (addons', rest) \<Longrightarrow> length rest < length buf"
  by (auto simp: addons_step_def Let_def dest!: read_uvarint_shorter split: option.splits if_splits) linarith+

function addons_loop :: "vless_addons \<Rightarrow> bytes \<Rightarrow> vless_addons" where
  "addons_loop addons buf =
     (if buf = [] then addons
      else case addons_step addons buf of
             None \<Rightarrow> addons
           | Some (addons', rest) \<Rightarrow> addons_loop addons' rest)"
  by pat_completeness auto
termination
  by (relation "measure (\<lambda>(a, buf). length buf)") (auto dest: addons_step_shorter)

definition addons_parse :: "bytes \<Rightarrow> vless_addons" where
  "addons_parse buf = addons_loop vless_addons_default buf"

record vless_request_header =
  vh_version :: u8
  vh_uuid_bytes :: bytes
  vh_addons :: vless_addons
  vh_command :: u8
  vh_target_port :: u16
  vh_target_host :: string
  vh_target_ip :: "ip_addr option"

definition read_addons :: "u8 \<Rightarrow> bytes \<Rightarrow> (vless_addons \<times> bytes) res" where
  "read_addons addon_len s =
     (if addon_len > 0
      then and_then (read_exact (unat addon_len) s) (\<lambda>(addon_buf, s). Ok (addons_parse addon_buf, s))
      else Ok (vless_addons_default, s))"

definition read_vless_addr :: "u8 \<Rightarrow> bytes \<Rightarrow> ((string \<times> ip_addr option) \<times> bytes) res" where
  "read_vless_addr atyp s =
     (if atyp = 1
      then and_then (read_exact 4 s) (\<lambda>(ipv4, s).
             let ip = ipv4_new (ipv4 ! 0) (ipv4 ! 1) (ipv4 ! 2) (ipv4 ! 3) in Ok ((ip_string ip, Some ip), s))
      else if atyp = 2
      then and_then (read_u8 s) (\<lambda>(len, s).
           and_then (read_exact (unat len) s) (\<lambda>(domain_buf, s). Ok ((from_utf8_lossy domain_buf, None), s)))
      else if atyp = 3
      then and_then (read_exact 16 s) (\<lambda>(ipv6, s). let ip = ipv6_from ipv6 in Ok ((ip_string ip, Some ip), s))
      else Err InvalidData)"

definition read_vless_target :: "u8 \<Rightarrow> bytes \<Rightarrow> ((u16 \<times> string \<times> ip_addr option) \<times> bytes) res" where
  "read_vless_target command s =
     (if command = 1 \<or> command = 2
      then and_then (read_u16 s) (\<lambda>(target_port, s).
           and_then (read_u8 s) (\<lambda>(atyp, s).
           and_then (read_vless_addr atyp s) (\<lambda>(addr, s). Ok ((target_port, addr), s))))
      else if command = 3 then Ok ((0, ''v1.mux.cool'', None), s)
      else if command = 4 then Ok ((0, ''v1.rvs.cool'', None), s)
      else Err InvalidData)"

definition parse_vless_request_header :: "bytes \<Rightarrow> (vless_request_header \<times> bytes) res" where
  "parse_vless_request_header s =
     and_then (read_u8 s) (\<lambda>(ver, s).
       if ver \<noteq> 0 then Err InvalidData
       else
         and_then (read_exact 16 s) (\<lambda>(uuid_bytes, s).
         and_then (read_u8 s) (\<lambda>(addon_len, s).
         and_then (read_addons addon_len s) (\<lambda>(addons, s).
         and_then (read_u8 s) (\<lambda>(command, s).
         and_then (read_vless_target command s) (\<lambda>(target, s).
           Ok (\<lparr>vh_version = ver, vh_uuid_bytes = uuid_bytes, vh_addons = addons, vh_command = command,
                vh_target_port = fst target, vh_target_host = fst (snd target),
                vh_target_ip = snd (snd target)\<rparr>, s)))))))"

definition write_vless_response_header :: bytes where
  "write_vless_response_header = [0x00, 0x00]"

section \<open>Reference encoders\<close>

datatype addon_field = AVarint nat nat | AFixed64 nat bytes | ALen nat bytes | AFixed32 nat bytes

fun addon_bytes :: "addon_field \<Rightarrow> bytes" where
  "addon_bytes (AVarint f v) = varint_bytes (8 * f) @ varint_bytes v"
| "addon_bytes (AFixed64 f d) = varint_bytes (8 * f + 1) @ d"
| "addon_bytes (ALen f d) = varint_bytes (8 * f + 2) @ varint_bytes (length d) @ d"
| "addon_bytes (AFixed32 f d) = varint_bytes (8 * f + 5) @ d"

fun addon_ok :: "addon_field \<Rightarrow> bool" where
  "addon_ok (AVarint f v) \<longleftrightarrow> f < 2 ^ 61 \<and> v < 2 ^ 64"
| "addon_ok (AFixed64 f d) \<longleftrightarrow> f < 2 ^ 61 \<and> length d = 8"
| "addon_ok (ALen f d) \<longleftrightarrow> f < 2 ^ 61 \<and> length d < 2 ^ 64"
| "addon_ok (AFixed32 f d) \<longleftrightarrow> f < 2 ^ 61 \<and> length d = 4"

fun addon_apply :: "addon_field \<Rightarrow> vless_addons \<Rightarrow> vless_addons" where
  "addon_apply (ALen f d) a =
     (if f = 1 then a\<lparr>va_flow := from_utf8_lossy d\<rparr> else if f = 2 then a\<lparr>va_seed := d\<rparr> else a)"
| "addon_apply _ a = a"

datatype vless_dest = DTcp u16 "ip_addr + bytes" | DUdp u16 "ip_addr + bytes" | DMux | DRvs

fun vless_addr_bytes :: "ip_addr + bytes \<Rightarrow> bytes" where
  "vless_addr_bytes (Inl (V4 w)) = 1 # be32_bytes w"
| "vless_addr_bytes (Inl (V6 w)) = 3 # octets 16 w"
| "vless_addr_bytes (Inr d) = 2 # of_nat (length d) # d"

fun vless_addr_host :: "ip_addr + bytes \<Rightarrow> string \<times> ip_addr option" where
  "vless_addr_host (Inl ip) = (ip_string ip, Some ip)"
| "vless_addr_host (Inr d) = (from_utf8_lossy d, None)"

fun vless_dest_ok :: "vless_dest \<Rightarrow> bool" where
  "vless_dest_ok (DTcp p (Inr d)) \<longleftrightarrow> length d < 256"
| "vless_dest_ok (DUdp p (Inr d)) \<longleftrightarrow> length d < 256"
| "vless_dest_ok _ \<longleftrightarrow> True"

fun vless_dest_bytes :: "vless_dest \<Rightarrow> bytes" where
  "vless_dest_bytes (DTcp p a) = 1 # be16_bytes p @ vless_addr_bytes a"
| "vless_dest_bytes (DUdp p a) = 2 # be16_bytes p @ vless_addr_bytes a"
| "vless_dest_bytes DMux = [3]"
| "vless_dest_bytes DRvs = [4]"

fun vless_dest_target :: "vless_dest \<Rightarrow> u8 \<times> u16 \<times> string \<times> ip_addr option" where
  "vless_dest_target (DTcp p a) = (1, p, vless_addr_host a)"
| "vless_dest_target (DUdp p a) = (2, p, vless_addr_host a)"
| "vless_dest_target DMux = (3, 0, ''v1.mux.cool'', None)"
| "vless_dest_target DRvs = (4, 0, ''v1.rvs.cool'', None)"

definition vless_request :: "bytes \<Rightarrow> addon_field list \<Rightarrow> vless_dest \<Rightarrow> bytes" where
  "vless_request uuid flds dest =
     0 # uuid @ of_nat (length (concat (map addon_bytes flds))) # concat (map addon_bytes flds) @ vless_dest_bytes dest"

section \<open>Lemmas\<close>

declare addons_loop.simps [simp del]

lemma read_uvarint_from_encoded:
  "n < 2 ^ (64 - shift) \<Longrightarrow> shift < 64 \<Longrightarrow>
   read_uvarint_from v shift (varint_bytes n @ r) = Some (v OR push_bit shift (of_nat n), r)"
proof (induction n arbitrary: v shift rule: varint_bytes.induct)
  case (1 n)
  show ?case
  proof (cases "n < 128")
    case True
    then show ?thesis using varint_one [OF True] by (simp add: varint_bytes.simps [of n])
  next
    case False
    note s = varint_next_shift [OF 1(2) False]
    show ?thesis
      using 1(1) [OF False s(2), of "v OR push_bit shift (of_nat (n mod 128))"] False s varint_high [of n] varint_low [of n]
        varint_parts [of shift n]
      by (simp add: varint_bytes.simps [of n] Let_def or.assoc)
  qed
qed

lemma read_uvarint_encoded: "n < 2 ^ 64 \<Longrightarrow> read_uvarint (varint_bytes n @ r) = Some (of_nat n, r)"
  by (simp add: read_uvarint_def read_uvarint_from_encoded)

lemma word_of_unat_eq: "unat (x :: 'l::len word) = n \<Longrightarrow> x = of_nat n"
  by auto

lemma tag_wire:
  assumes "f < 2 ^ 61" "w < 8"
  shows "(of_nat (8 * f + w) :: u64) AND 7 = of_nat w" "drop_bit 3 (of_nat (8 * f + w) :: u64) = of_nat f"
proof -
  have n: "(8 * f + w) mod 2 ^ 64 = 8 * f + w" using assms by simp
  have m: "(7 :: u64) = mask 3" by (simp add: mask_eq_exp_minus_1)
  have "unat ((of_nat (8 * f + w) :: u64) AND 7) = w"
    unfolding m take_bit_eq_mask [symmetric] unsigned_take_bit_eq unat_of_nat using n assms(2)
    by (simp add: take_bit_eq_mod)
  then show "(of_nat (8 * f + w) :: u64) AND 7 = of_nat w" by (rule word_of_unat_eq)
  have "unat (drop_bit 3 (of_nat (8 * f + w) :: u64)) = f"
    unfolding unat_drop_bit_eq unat_of_nat using n assms(2) by (simp add: drop_bit_eq_div)
  then show "drop_bit 3 (of_nat (8 * f + w) :: u64) = of_nat f" by (rule word_of_unat_eq)
qed

lemma varint_bytes_not_Nil [simp]: "varint_bytes n \<noteq> []"
  by (simp add: varint_bytes.simps [of n])

lemma addons_step_field:
  assumes "addon_ok fld"
  shows "addons_step a (addon_bytes fld @ r) = Some (addon_apply fld a, r)"
proof (cases fld)
  case (AVarint f v)
  then show ?thesis using assms tag_wire [of f 0]
    by (simp add: addons_step_def read_uvarint_encoded Let_def)
next
  case (AFixed64 f d)
  then show ?thesis using assms tag_wire [of f 1]
    by (simp add: addons_step_def read_uvarint_encoded Let_def)
next
  case (ALen f d)
  then have "f < 2 ^ 61" "length d < 2 ^ 64" using assms by simp_all
  have num: "(of_nat f :: u64) = of_nat k \<longleftrightarrow> f = k" if "k < 3" for k
    using \<open>f < 2 ^ 61\<close> that by (simp add: word_of_nat_eq_iff take_bit_eq_mod)
  have "unat (of_nat (length d) :: u64) = length d"
    using \<open>length d < 2 ^ 64\<close> by (simp add: unat_of_nat)
  then show ?thesis
    using \<open>f < 2 ^ 61\<close> \<open>length d < 2 ^ 64\<close> ALen tag_wire [of f 2] num [of 1] num [of 2] by (simp add: addons_step_def read_uvarint_encoded Let_def)
next
  case (AFixed32 f d)
  then show ?thesis using assms tag_wire [of f 5]
    by (simp add: addons_step_def read_uvarint_encoded Let_def)
qed

lemma addon_bytes_not_Nil [simp]: "addon_bytes f \<noteq> []"
  by (cases f) simp_all

lemma addons_loop_fields:
  "list_all addon_ok fs \<Longrightarrow> addons_loop a (concat (map addon_bytes fs)) = fold addon_apply fs a"
proof (induction fs arbitrary: a)
  case Nil
  show ?case by (simp add: addons_loop.simps)
next
  case (Cons f fs)
  then show ?case by (simp add: addons_loop.simps [of a] addons_step_field)
qed

lemma streaming_vless [streaming_intros]: "streaming parse_vless_request_header"
proof -
  have addr: "streaming (read_vless_addr atyp)" for atyp
    unfolding read_vless_addr_def Let_def by (intro streaming_intros)
  have target: "streaming (read_vless_target c)" for c
    unfolding read_vless_target_def by (intro streaming_intros addr)
  have addons: "streaming (read_addons n)" for n
    unfolding read_addons_def by (intro streaming_intros)
  show ?thesis
    unfolding parse_vless_request_header_def by (intro streaming_intros addons target)
qed


lemma be32_bytes_nth [simp]:
  "be32_bytes w ! 0 = ucast (drop_bit 24 w)" "be32_bytes w ! Suc 0 = ucast (drop_bit 16 w)"
  "be32_bytes w ! 2 = ucast (drop_bit 8 w)" "be32_bytes w ! 3 = ucast w"
  by (simp_all add: be32_bytes_def eval_nat_numeral)

lemma ipv4_new_bytes: "ipv4_new (ucast (drop_bit 24 w)) (ucast (drop_bit 16 w)) (ucast (drop_bit 8 w)) (ucast w) = V4 w"
  by (simp add: ipv4_new_def)

lemma ipv6_from_octets: "ipv6_from (octets 16 w) = V6 w"
  using be_word_octets [of 16 w] by (simp add: ipv6_from_def take_bit_word_eq_self)

lemma read_vless_addr_encoded:
  assumes "\<And>d. a = Inr d \<Longrightarrow> length d < 256"
  shows "and_then (read_u8 (vless_addr_bytes a @ rest)) (\<lambda>(atyp, s). read_vless_addr atyp s) = Ok (vless_addr_host a, rest)"
  using assms
  by (induction a rule: vless_addr_bytes.induct)
    (simp_all add: read_vless_addr_def Let_def ipv4_new_bytes ipv6_from_octets unat_of_nat_u8 del: and_then_Ok_iff)

lemma read_vless_addr_then:
  assumes "\<And>d. a = Inr d \<Longrightarrow> length d < 256"
  shows "and_then (read_u8 (vless_addr_bytes a @ rest)) (\<lambda>(atyp, s). and_then (read_vless_addr atyp s) (\<lambda>(addr, s). f addr s))
      = f (vless_addr_host a) rest"
proof -
  obtain t s where "read_u8 (vless_addr_bytes a @ rest) = Ok (t, s)" "read_vless_addr t s = Ok (vless_addr_host a, rest)"
    using read_vless_addr_encoded [of a rest] assms by auto
  then show ?thesis by simp
qed

lemma read_vless_dest_encoded:
  assumes "vless_dest_ok dest"
  shows "and_then (read_u8 (vless_dest_bytes dest @ rest)) (\<lambda>(c, s). map_res (\<lambda>(t, s). ((c, t), s)) (read_vless_target c s))
     = Ok (vless_dest_target dest, rest)"
proof (cases dest)
  case (DTcp p a)
  then have "\<And>d. a = Inr d \<Longrightarrow> length d < 256" using assms by auto
  then show ?thesis
    unfolding DTcp by (simp add: read_vless_target_def read_vless_addr_then [of a rest] del: and_then_Ok_iff map_res_Ok_iff)
next
  case (DUdp p a)
  then have "\<And>d. a = Inr d \<Longrightarrow> length d < 256" using assms by auto
  then show ?thesis
    unfolding DUdp by (simp add: read_vless_target_def read_vless_addr_then [of a rest] del: and_then_Ok_iff map_res_Ok_iff)
qed (simp_all add: read_vless_target_def)

section \<open>Properties\<close>

text \<open>C7: every well-formed VLESS request is decoded to what the client put in: the user id, the flow and the seed of its
  addons (the last field of each kind counts, other flds are skipped), the command, and the destination; and the bytes
  behind the header are left in the stream untouched.\<close>

theorem vless_request_decoded:
  assumes "length uuid = 16" and "list_all addon_ok flds" and "length (concat (map addon_bytes flds)) < 256"
    and "vless_dest_ok dest"
  shows "\<exists>h. parse_vless_request_header (vless_request uuid flds dest @ rest) = Ok (h, rest) \<and>
           vh_version h = 0 \<and> vh_uuid_bytes h = uuid \<and> vh_addons h = fold addon_apply flds vless_addons_default \<and>
           (vh_command h, vh_target_port h, vh_target_host h, vh_target_ip h) = vless_dest_target dest"
proof -
  let ?ab = "concat (map addon_bytes flds)"
  have "read_addons (of_nat (length ?ab)) (?ab @ s) = Ok (fold addon_apply flds vless_addons_default, s)" for s
  proof (cases "?ab = []")
    case True
    then show ?thesis using addons_loop_fields [OF assms(2), of vless_addons_default]
      by (simp add: read_addons_def addons_loop.simps)
  next
    case False
    then have "unat (of_nat (length ?ab) :: u8) > 0" using unat_of_nat_u8 [OF assms(3)] by simp
    then have "(of_nat (length ?ab) :: u8) > 0" by (simp only: word_less_nat_alt) simp
    then show ?thesis
      using assms(3) by (simp add: read_addons_def unat_of_nat_u8 addons_parse_def addons_loop_fields [OF assms(2)])
  qed
  moreover obtain c s t where "read_u8 (vless_dest_bytes dest @ rest) = Ok (c, s)" "read_vless_target c s = Ok (t, rest)"
    "vless_dest_target dest = (c, t)"
    using read_vless_dest_encoded [OF assms(4), of rest] by auto
  ultimately show ?thesis
    using assms(1) by (simp add: parse_vless_request_header_def vless_request_def)
qed

theorem vless_request_decoded_witness:
  "\<exists>h. parse_vless_request_header (vless_request (replicate 16 7) [ALen 1 [120], AVarint 9 300] (DUdp 53 (Inl (V4 0x01010101))) @ [42])
      = Ok (h, [42]) \<and> vh_version h = 0 \<and> vh_uuid_bytes h = replicate 16 7 \<and>
      vh_addons h = fold addon_apply [ALen 1 [120], AVarint 9 300] vless_addons_default \<and>
      (vh_command h, vh_target_port h, vh_target_host h, vh_target_ip h) = vless_dest_target (DUdp 53 (Inl (V4 0x01010101)))"
  by (rule vless_request_decoded) (simp_all add: varint_bytes.simps)

definition vless_invalid :: "bytes \<Rightarrow> bool" where
  "vless_invalid bs \<longleftrightarrow>
     bs \<noteq> [] \<and>
     (bs ! 0 \<noteq> 0 \<or>
      (17 < length bs \<and>
       (let c = 18 + unat (bs ! 17)
        in c < length bs \<and>
           (bs ! c \<notin> {1, 2, 3, 4} \<or>
            (bs ! c \<in> {1, 2} \<and> c + 3 < length bs \<and> bs ! (c + 3) \<notin> {1, 2, 3})))))"

lemma read_exact_Err_iff [simp]: "read_exact n s = Err e \<longleftrightarrow> length s < n \<and> e = UnexpectedEof"
  by (auto simp: read_exact_def)

lemma and_then_Err_iff: "and_then m f = Err e \<longleftrightarrow> m = Err e \<or> (\<exists>x. m = Ok x \<and> f x = Err e)"
  by (cases m) auto

lemma read_u8_Err_iff [simp]: "read_u8 s = Err e \<longleftrightarrow> s = [] \<and> e = UnexpectedEof"
  by (cases s) auto

lemma read_u8_Ok_iff [simp]: "read_u8 s = Ok (b, r) \<longleftrightarrow> s = b # r"
  by (cases s) auto

lemma read_vless_addr_invalid: "read_vless_addr t s = Err InvalidData \<longleftrightarrow> t \<notin> {1, 2, 3}"
  by (auto simp: read_vless_addr_def and_then_Err_iff Let_def)

lemma read_vless_target_invalid:
  "read_vless_target c s = Err InvalidData \<longleftrightarrow> c \<notin> {1, 2, 3, 4} \<or> (c \<in> {1, 2} \<and> 2 < length s \<and> s ! 2 \<notin> {1, 2, 3})"
proof (cases "c = 1 \<or> c = 2")
  case True
  show ?thesis
  proof (cases "2 < length s")
    case len: True
    then obtain a b t r where "s = a # b # t # r"
      by (metis One_nat_def Suc_1 length_0_conv less_nat_zero_code list.exhaust length_Cons not_less_eq)
    then show ?thesis using \<open>c = 1 \<or> c = 2\<close> read_vless_addr_invalid by (auto simp: read_vless_target_def and_then_Err_iff)
  next
    case False
    then show ?thesis using \<open>c = 1 \<or> c = 2\<close> by (auto simp: read_vless_target_def and_then_Err_iff read_u16_def)
  qed
qed (auto simp: read_vless_target_def)


lemma vless_invalid_Cons:
  "length u = 16 \<Longrightarrow> length ab = unat n \<Longrightarrow>
   vless_invalid (0 # u @ n # ab @ c # s) \<longleftrightarrow> c \<notin> {1, 2, 3, 4} \<or> (c \<in> {1, 2} \<and> 2 < length s \<and> s ! 2 \<notin> {1, 2, 3})"
  by (simp add: vless_invalid_def Let_def nth_append nth_Cons')

lemma vless_header_split:
  assumes "bs \<noteq> []" "bs ! 0 = 0" "18 + unat (bs ! 17) < length bs"
  obtains u ab c s where "bs = 0 # u @ (bs ! 17) # ab @ c # s" "length u = 16" "length ab = unat (bs ! 17)"
proof -
  let ?n = "unat (bs ! 17)"
  obtain t where t: "bs = 0 # t" using assms(1,2) by (cases bs) auto
  have "t = take 16 t @ bs ! 17 # drop 17 t"
    using assms(3) id_take_nth_drop [of 16 t] by (simp add: t)
  moreover have "drop 17 t = take ?n (drop 17 t) @ drop (17 + ?n) t"
    by (metis append_take_drop_id drop_drop add.commute)
  moreover have "drop (17 + ?n) t = t ! (17 + ?n) # drop (18 + ?n) t"
    using assms(3) Cons_nth_drop_Suc [of "17 + ?n" t] by (simp add: t)
  ultimately have "bs = 0 # take 16 t @ (bs ! 17) # take ?n (drop 17 t) @ t ! (17 + ?n) # drop (18 + ?n) t"
    using t by metis
  moreover have "length (take 16 t) = 16" "length (take ?n (drop 17 t)) = ?n" using assms(3) by (simp_all add: t)
  ultimately show ?thesis using that by blast
qed

lemma vless_request_invalid_iff: "parse_vless_request_header bs = Err InvalidData \<longleftrightarrow> vless_invalid bs"
proof (cases "bs \<noteq> [] \<and> bs ! 0 = 0 \<and> 18 + unat (bs ! 17) < length bs")
  case True
  then obtain u ab c s where bs: "bs = 0 # u @ (bs ! 17) # ab @ c # s"
    and len: "length u = 16" "length ab = unat (bs ! 17)"
    using vless_header_split by blast
  define n where "n = bs ! 17"
  have "read_addons n (ab @ c # s) = Ok (if n > 0 then addons_parse ab else vless_addons_default, c # s)"
    using len(2) by (auto simp: read_addons_def word_gt_0 n_def simp del: and_then_Ok_iff)
  then have "parse_vless_request_header (0 # u @ n # ab @ c # s) = Err InvalidData \<longleftrightarrow> read_vless_target c s = Err InvalidData"
    using len(1) by (simp add: parse_vless_request_header_def and_then_Err_iff)
  then show ?thesis
    using vless_invalid_Cons [OF len(1), of ab n c s] len(2) read_vless_target_invalid [of c s] bs by (simp add: n_def)
next
  case False
  have short: "parse_vless_request_header (0 # t) \<noteq> Err InvalidData" if len: "length t \<le> 17 + unat (t ! 16)" for t
  proof -
    have "length b \<le> unat a" if "drop 16 t = a # b" for a b
    proof -
      have "length t - 16 = Suc (length b)" using arg_cong [OF that, of length] by simp
      then show ?thesis using nth_via_drop [OF that] len by simp
    qed
    then have at_end: "drop (unat a) b = []" if "drop 16 t = a # b" for a b using that by simp
    then have "b = []" if "drop 16 t = 0 # b" for b using that by fastforce
    then show ?thesis
      using at_end by (auto simp: parse_vless_request_header_def and_then_Err_iff read_addons_def word_gt_0 split: if_splits)
  qed
  show ?thesis
  proof (cases bs)
    case (Cons b t)
    show ?thesis
    proof (cases "b = 0")
      case True
      then have "length t \<le> 17 + unat (t ! 16)" using False Cons by (simp add: not_less)
      then show ?thesis using short Cons True by (auto simp: vless_invalid_def Let_def)
    qed (simp add: Cons parse_vless_request_header_def vless_invalid_def)
  qed (simp add: parse_vless_request_header_def vless_invalid_def)
qed

text \<open>What the request parser refuses. It never panics; it refuses a complete header as invalid exactly if the version is not 0,
  the command is not one of 1 to 4, or a TCP or UDP request has an address type other than 1 to 3; and every proper prefix of a
  header it accepts ends in \<^verbatim>\<open>UnexpectedEof\<close>.\<close>

theorem vless_request_errors:
  "parse_vless_request_header bs \<noteq> Panic \<and>
   (parse_vless_request_header bs = Err InvalidData \<longleftrightarrow> vless_invalid bs) \<and>
   (\<forall>h rest n. parse_vless_request_header bs = Ok (h, rest) \<longrightarrow> n < length bs - length rest \<longrightarrow>
      parse_vless_request_header (take n bs) = Err UnexpectedEof)"
  using streaming_no_panic [OF streaming_vless] vless_request_invalid_iff streaming_truncated [OF streaming_vless] by blast

theorem vless_request_errors_witness:
  "\<exists>h. parse_vless_request_header (0 # replicate 16 7 @ [0, 3, 42]) = Ok (h, [42]) \<and>
     parse_vless_request_header (take 18 (0 # replicate 16 7 @ [0, 3, 42])) = Err UnexpectedEof"
proof -
  have "\<exists>h. parse_vless_request_header (0 # replicate 16 7 @ [0, 3, 42]) = Ok (h, [42])"
    by (simp add: parse_vless_request_header_def read_addons_def read_vless_target_def read_u8_def)
  then obtain h where h: "parse_vless_request_header (0 # replicate 16 7 @ [0, 3, 42]) = Ok (h, [42])" ..
  moreover have "parse_vless_request_header (take 18 (0 # replicate 16 7 @ [0, 3, 42])) = Err UnexpectedEof"
    by (rule vless_request_errors [THEN conjunct2, THEN conjunct2, rule_format, OF h]) simp
  ultimately show ?thesis by blast
qed

end
