(* ===== verification/Vless_Vision.thy ===== *)
theory Vless_Vision
  imports Net_Stream Vless_Header
begin

text \<open>
  \<^verbatim>\<open>src/protocol/vless/vision.rs\<close>: the XTLS Vision flow. \<open>filter_tls\<close> watches the inner TLS handshake, \<open>write_payload\<close> wraps what is
  sent into padded frames until the inner connection is encrypted, \<open>read_payload\<close> unwraps them. The stream below a reader is a
  list of segments, so short reads are part of the model; the writer collects what it writes. A direct control is the flag it
  holds, the random padding length is an argument. \<^verbatim>\<open>i32\<close> is a word of 32 bits read with \<^const>\<open>sint\<close>. Timing events and
  read errors of the network are not part of the model.
\<close>

section \<open>Watching the inner TLS handshake\<close>

definition FLOW_VISION :: string where "FLOW_VISION = ''xtls-rprx-vision''"

definition VISION_CMD_CONTINUE :: u8 where "VISION_CMD_CONTINUE = 0x00"
definition VISION_CMD_END :: u8 where "VISION_CMD_END = 0x01"
definition VISION_CMD_DIRECT :: u8 where "VISION_CMD_DIRECT = 0x02"

definition TLS13_SUPPORTED_VERSIONS :: bytes where "TLS13_SUPPORTED_VERSIONS = [0x00, 0x2b, 0x00, 0x02, 0x03, 0x04]"
definition TLS_SERVER_HANDSHAKE_START :: bytes where "TLS_SERVER_HANDSHAKE_START = [0x16, 0x03, 0x03]"
definition TLS_CLIENT_HANDSHAKE_START :: bytes where "TLS_CLIENT_HANDSHAKE_START = [0x16, 0x03]"
definition TLS_APPLICATION_DATA_START :: bytes where "TLS_APPLICATION_DATA_START = [0x17, 0x03, 0x03]"

lemmas vision_cmd_defs = VISION_CMD_CONTINUE_def VISION_CMD_END_def VISION_CMD_DIRECT_def

record traffic_state =
  ts_user_uuid :: bytes
  packets_to_filter :: nat
  enable_xtls :: bool
  is_tls :: bool
  is_tls12_or_above :: bool
  ts_cipher :: u16
  remaining_server_hello :: u32
  is_padding :: bool

definition traffic_state_new :: "bytes \<Rightarrow> traffic_state" where
  "traffic_state_new user_uuid =
     \<lparr>ts_user_uuid = user_uuid, packets_to_filter = 8, enable_xtls = False, is_tls = False, is_tls12_or_above = False,
      ts_cipher = 0, remaining_server_hello = - 1, is_padding = True\<rparr>"

text \<open>A ServerHello starts in this packet: its length, the version and, if it is there, the cipher suite.\<close>

definition see_server_hello :: "traffic_state \<Rightarrow> bytes \<Rightarrow> traffic_state res" where
  "see_server_hello ts data =
     (if length data \<ge> 6 \<and> starts_with data TLS_SERVER_HANDSHAKE_START
      then and_then (byte_at data 5) (\<lambda>b.
        if b \<noteq> 0x02 then Ok ts
        else
          and_then (byte_at data 3) (\<lambda>h. and_then (byte_at data 4) (\<lambda>l.
          let ts = ts\<lparr>remaining_server_hello := (push_bit 8 (ucast h) OR ucast l) + 5,
                      is_tls12_or_above := True, is_tls := True\<rparr>
          in if length data \<ge> 79 \<and> sint (remaining_server_hello ts) \<ge> 79
             then and_then (byte_at data 43) (\<lambda>session_id_len.
               let cipher_pos = 44 + unat session_id_len
               in if cipher_pos + 2 \<le> length data
                  then map_res (\<lambda>c. ts\<lparr>ts_cipher := c\<rparr>) (be16_at data cipher_pos)
                  else Ok ts)
             else Ok ts)))
      else Ok ts)"

definition scan_server_hello :: "traffic_state \<Rightarrow> bytes \<Rightarrow> traffic_state" where
  "scan_server_hello ts data =
     (if sint (remaining_server_hello ts) > 0
      then let end_pos = min (nat (sint (remaining_server_hello ts))) (length data);
               ts = ts\<lparr>remaining_server_hello := remaining_server_hello ts - of_nat (length data)\<rparr>
           in if contains_sub (take end_pos data) TLS13_SUPPORTED_VERSIONS
              then (if ts_cipher ts \<noteq> 0x1305 then ts\<lparr>enable_xtls := True\<rparr> else ts)\<lparr>packets_to_filter := 0\<rparr>
              else if sint (remaining_server_hello ts) \<le> 0 then ts\<lparr>packets_to_filter := 0\<rparr>
              else ts
      else ts)"

definition filter_tls :: "traffic_state \<Rightarrow> bytes \<Rightarrow> bool \<Rightarrow> traffic_state res" where
  "filter_tls ts data is_downlink =
     (if packets_to_filter ts = 0 \<or> data = [] then Ok ts
      else
        let ts = ts\<lparr>packets_to_filter := packets_to_filter ts - 1\<rparr>
        in if \<not> is_downlink
           then (if length data \<ge> 6 \<and> starts_with data TLS_CLIENT_HANDSHAKE_START
                 then map_res (\<lambda>b. if b = 0x01 then ts\<lparr>is_tls := True\<rparr> else ts) (byte_at data 5)
                 else Ok ts)
           else map_res (\<lambda>ts. scan_server_hello ts data) (see_server_hello ts data))"

section \<open>The reader\<close>

record vision_reader =
  vr_inner :: net_stream
  vr_user_uuid :: bytes
  vr_buf :: bytes
  vr_buf_pos :: nat
  vr_direct :: bool
  vr_is_first :: bool
  vr_direct_control :: "bool option"

definition vision_reader_new :: "net_stream \<Rightarrow> bytes \<Rightarrow> bool option \<Rightarrow> vision_reader" where
  "vision_reader_new s user_uuid ctl =
     \<lparr>vr_inner = s, vr_user_uuid = user_uuid, vr_buf = [], vr_buf_pos = 0, vr_direct = False, vr_is_first = True,
      vr_direct_control = ctl\<rparr>"

definition take_buf :: "nat \<Rightarrow> vision_reader \<Rightarrow> bytes \<times> vision_reader" where
  "take_buf k r =
     (let n = min (length (vr_buf r) - vr_buf_pos r) k
      in (take n (drop (vr_buf_pos r) (vr_buf r)), r\<lparr>vr_buf_pos := vr_buf_pos r + n\<rparr>))"

definition check_uuid :: "vision_reader \<Rightarrow> vision_reader res" where
  "check_uuid r =
     (if vr_is_first r
      then and_then (read_exact_from net_read 16 (vr_inner r)) (\<lambda>(uuid, s).
        if uuid \<noteq> vr_user_uuid r \<and> process_uuid uuid \<noteq> process_uuid (vr_user_uuid r) then Err InvalidData
        else Ok (r\<lparr>vr_inner := s, vr_is_first := False\<rparr>))
      else Ok r)"

function skip_padding :: "nat \<Rightarrow> net_stream \<Rightarrow> net_stream res" where
  "skip_padding rem s =
     (if rem > 0
      then and_then (read_exact_from net_read (min rem 1024) s) (\<lambda>(d, s). skip_padding (rem - min rem 1024) s)
      else Ok s)"
  by pat_completeness auto
termination
  by (relation "measure fst") auto

definition read_content :: "nat \<Rightarrow> net_stream \<Rightarrow> (bytes \<times> net_stream) res" where
  "read_content content_len s = (if content_len > 0 then read_exact_from net_read content_len s else Ok ([], s))"

text \<open>One frame: \<open>None\<close> is the end of the stream.\<close>

definition read_vision_frame :: "vision_reader \<Rightarrow> (vision_reader option \<times> net_stream) res" where
  "read_vision_frame r =
     (case net_read 1 (vr_inner r) of (c, s) \<Rightarrow>
        if c = [] then Ok (None, s)
        else
          and_then (read_exact_from net_read 4 s) (\<lambda>(h, s).
            let command = c ! 0; content_len = unat (be16 (h ! 0) (h ! 1)); padding_len = unat (be16 (h ! 2) (h ! 3))
            in and_then (read_content content_len s) (\<lambda>(buf, s).
               and_then (skip_padding padding_len s) (\<lambda>s.
               let r = r\<lparr>vr_inner := s, vr_buf := buf, vr_buf_pos := 0\<rparr>;
                   r = (if command = VISION_CMD_END \<or> command = VISION_CMD_DIRECT
                        then r\<lparr>vr_direct := True,
                               vr_direct_control := (if command = VISION_CMD_DIRECT
                                                     then map_option (\<lambda>_. True) (vr_direct_control r)
                                                     else vr_direct_control r)\<rparr>
                        else r)
               in Ok (Some r, s)))))"

declare skip_padding.simps [simp del]

lemma check_uuid_inner:
  "check_uuid r = Ok r' \<Longrightarrow> length (concat (vr_inner r')) \<le> length (concat (vr_inner r))"
  by (auto simp: check_uuid_def dest!: net.read_exact_data split: if_splits)

lemma skip_padding_inner: "skip_padding k s = Ok s' \<Longrightarrow> length (concat s') \<le> length (concat s)"
proof (induction k s rule: skip_padding.induct)
  case (1 k s)
  show ?case
  proof (cases "k > 0")
    case True
    then obtain d t where t: "read_exact_from net_read (min k 1024) s = Ok (d, t)" "skip_padding (k - min k 1024) t = Ok s'"
      using 1(2) by (subst (asm) skip_padding.simps) auto
    then show ?thesis using 1(1) [OF True t(1) refl] net.read_exact_data [OF t(1)] by simp
  next
    case False
    then show ?thesis using 1(2) by (subst (asm) skip_padding.simps) simp
  qed
qed

lemma read_content_eq: "read_content n s = read_exact_from net_read n s"
  by (simp add: read_content_def read_exact_from.simps [of net_read 0])

lemma read_vision_frame_inner:
  assumes "read_vision_frame r = Ok (Some r', s)"
  shows "length (concat (vr_inner r')) < length (concat (vr_inner r))"
proof -
  obtain c t where c: "net_read 1 (vr_inner r) = (c, t)" by fastforce
  then obtain h t2 b t3 where t: "c \<noteq> []" "read_exact_from net_read 4 t = Ok (h, t2)"
    "read_content (unat (be16 (h ! 0) (h ! 1))) t2 = Ok (b, t3)"
    "skip_padding (unat (be16 (h ! 2) (h ! 3))) t3 = Ok (vr_inner r')"
    using assms by (auto simp: read_vision_frame_def Let_def split: if_splits)
  then show ?thesis
    using t(1) net.rd_in_order [OF c] net.read_exact_data [OF t(2)] skip_padding_inner [OF t(4)]
      net.read_exact_data [OF t(3) [unfolded read_content_eq]]
    by (cases c) auto
qed

function read_payload :: "nat \<Rightarrow> vision_reader \<Rightarrow> (bytes \<times> vision_reader) res" where
  "read_payload k r =
     (if k = 0 then Ok ([], r)
      else if vr_buf_pos r < length (vr_buf r) then Ok (take_buf k r)
      else if vr_direct r then (case net_read k (vr_inner r) of (c, s) \<Rightarrow> Ok (c, r\<lparr>vr_inner := s\<rparr>))
      else
        and_then (check_uuid r) (\<lambda>r.
        and_then (read_vision_frame r) (\<lambda>(frame, s).
          case frame of
            None \<Rightarrow> Ok ([], r\<lparr>vr_inner := s\<rparr>)
          | Some r \<Rightarrow> if vr_buf r \<noteq> [] then Ok (take_buf k r) else read_payload k r)))"
  by pat_completeness auto
termination
  by (relation "measure (\<lambda>(k, r). length (concat (vr_inner r)))")
    (auto dest!: check_uuid_inner read_vision_frame_inner)

section \<open>The writer\<close>

record vision_writer =
  vw_out :: bytes
  vw_state :: traffic_state
  vw_direct :: bool
  vw_is_first :: bool
  vw_packet_count :: nat
  vw_direct_control :: "bool option"

definition vision_writer_new :: "bytes \<Rightarrow> bool option \<Rightarrow> vision_writer" where
  "vision_writer_new user_uuid ctl =
     \<lparr>vw_out = [], vw_state = traffic_state_new user_uuid, vw_direct = False, vw_is_first = True, vw_packet_count = 0,
      vw_direct_control = ctl\<rparr>"

definition vision_command :: "vision_writer \<Rightarrow> bytes \<Rightarrow> u8 \<times> bool" where
  "vision_command w data =
     (if length data \<ge> 3 \<and> starts_with data TLS_APPLICATION_DATA_START
      then (if enable_xtls (vw_state w) \<and> vw_direct_control w \<noteq> None then (VISION_CMD_DIRECT, True) else (VISION_CMD_END, True))
      else if \<not> is_tls12_or_above (vw_state w) \<and> (vw_packet_count w \<ge> 2 \<or> packets_to_filter (vw_state w) \<le> 1)
      then (VISION_CMD_END, True)
      else (VISION_CMD_CONTINUE, False))"

definition vision_pad_len :: "u16 \<Rightarrow> nat \<Rightarrow> nat" where
  "vision_pad_len rnd content_len =
     min (if content_len < 900 then unat rnd mod 500 + 900 - content_len else unat rnd mod 256) 2048"

definition vision_frame :: "u8 \<Rightarrow> bytes \<Rightarrow> nat \<Rightarrow> bytes" where
  "vision_frame command data pad_len =
     command # be16_bytes (of_nat (length data)) @ be16_bytes (of_nat pad_len) @ data @ replicate pad_len 0"

definition write_payload :: "u16 \<Rightarrow> bytes \<Rightarrow> vision_writer \<Rightarrow> vision_writer res" where
  "write_payload rnd data w =
     (if vw_direct w then Ok (w\<lparr>vw_out := vw_out w @ data\<rparr>)
      else
        and_then (filter_tls (vw_state w) data True) (\<lambda>ts.
        let w = w\<lparr>vw_state := ts\<rparr>;
            (command, switch_direct) = vision_command w data;
            frame = (if vw_is_first w then ts_user_uuid ts else []) @
              vision_frame command data (vision_pad_len rnd (length data));
            w = w\<lparr>vw_is_first := False, vw_out := vw_out w @ frame\<rparr>
        in Ok (if switch_direct
               then w\<lparr>vw_direct := True,
                      vw_direct_control := (if command = VISION_CMD_DIRECT
                                            then map_option (\<lambda>_. True) (vw_direct_control w) else vw_direct_control w)\<rparr>
               else w\<lparr>vw_packet_count := vw_packet_count w + 1\<rparr>)))"

text \<open>A sequence of writes, each with its random number, and a sequence of reads with the sizes of their buffers.\<close>

fun write_payloads :: "(u16 \<times> bytes) list \<Rightarrow> vision_writer \<Rightarrow> vision_writer res" where
  "write_payloads [] w = Ok w"
| "write_payloads ((rnd, data) # ds) w = and_then (write_payload rnd data w) (write_payloads ds)"

fun read_payloads :: "nat list \<Rightarrow> vision_reader \<Rightarrow> (bytes \<times> vision_reader) res" where
  "read_payloads [] r = Ok ([], r)"
| "read_payloads (k # ks) r =
     and_then (read_payload k r) (\<lambda>(c, r). map_res (\<lambda>(d, r). (c @ d, r)) (read_payloads ks r))"


section \<open>What a reader delivers\<close>

declare read_payload.simps [simp del]

text \<open>The data stream a Vision stream stands for: frames, the last of which may switch to raw data.\<close>

type_synonym vision_frames = "(u8 \<times> bytes \<times> nat) list"

definition frames_bytes :: "vision_frames \<Rightarrow> bytes" where
  "frames_bytes fs = concat (map (\<lambda>(c, d, p). vision_frame c d p) fs)"

definition frames_data :: "vision_frames \<Rightarrow> bytes" where
  "frames_data fs = concat (map (\<lambda>(c, d, p). d) fs)"

definition switches :: "u8 \<Rightarrow> bool" where
  "switches c \<longleftrightarrow> c = VISION_CMD_END \<or> c = VISION_CMD_DIRECT"

fun flow_ok :: "vision_frames \<Rightarrow> bytes \<Rightarrow> bool" where
  "flow_ok [] tail = (tail = [])"
| "flow_ok ((c, d, p) # fs) tail =
     (length d < 65536 \<and> p < 65536 \<and> (if switches c then fs = [] else flow_ok fs tail))"

definition behind :: "vision_reader \<Rightarrow> bytes \<Rightarrow> bool" where
  "behind r bs \<longleftrightarrow>
     (if vr_direct r then bs = concat (vr_inner r)
      else \<exists>fs tail. flow_ok fs tail \<and> (vr_is_first r \<longrightarrow> fs \<noteq> []) \<and> bs = frames_data fs @ tail \<and>
         concat (vr_inner r) = (if vr_is_first r then vr_user_uuid r else []) @ frames_bytes fs @ tail)"

definition delivers :: "vision_reader \<Rightarrow> bytes \<Rightarrow> bool" where
  "delivers r bs \<longleftrightarrow>
     net_ok (vr_inner r) \<and> vr_buf_pos r \<le> length (vr_buf r) \<and> length (vr_user_uuid r) = 16 \<and>
     (\<exists>bs'. bs = drop (vr_buf_pos r) (vr_buf r) @ bs' \<and> behind r bs')"

lemma read_exact_front:
  assumes "net_ok s" "concat s = a @ b" "n = length a"
  shows "\<exists>s'. read_exact_from net_read n s = Ok (a, s') \<and> concat s' = b \<and> net_ok s'"
  using net.read_exact_enough [OF assms(1), of n] assms(2,3) by simp

lemma skip_padding_front:
  "net_ok s \<Longrightarrow> concat s = a @ b \<Longrightarrow> k = length a \<Longrightarrow> \<exists>s'. skip_padding k s = Ok s' \<and> concat s' = b \<and> net_ok s'"
proof (induction k s arbitrary: a rule: skip_padding.induct)
  case (1 k s)
  show ?case
  proof (cases "k > 0")
    case True
    let ?m = "min k 1024"
    obtain s' where s': "read_exact_from net_read ?m s = Ok (take ?m a, s')" "concat s' = drop ?m a @ b" "net_ok s'"
      using read_exact_front [OF 1(2), of "take ?m a" "drop ?m a @ b" ?m] 1(3,4) by auto
    have "\<exists>t. skip_padding (k - ?m) s' = Ok t \<and> concat t = b \<and> net_ok t"
      by (rule 1(1) [OF True s'(1) refl s'(3) s'(2)]) (simp add: 1(4))
    then show ?thesis using True s'(1) by (subst skip_padding.simps) simp
  next
    case False
    then show ?thesis using 1(2-4) by (subst skip_padding.simps) simp
  qed
qed

lemma read_vision_frame_front:
  assumes "net_ok (vr_inner r)" "concat (vr_inner r) = vision_frame c d p @ rest" "length d < 65536" "p < 65536"
  shows "\<exists>r' s. read_vision_frame r = Ok (Some r', s) \<and> vr_inner r' = s \<and> concat s = rest \<and> net_ok s \<and> vr_buf r' = d \<and>
    vr_buf_pos r' = 0 \<and> vr_direct r' = (vr_direct r \<or> switches c) \<and> vr_is_first r' = vr_is_first r \<and>
    vr_user_uuid r' = vr_user_uuid r"
proof -
  obtain b s1 where b: "net_read 1 (vr_inner r) = (b, s1)" by fastforce
  have "b \<noteq> []" using net.rd_progress [OF assms(1) b] assms(2) by (simp add: vision_frame_def)
  then have "length b = 1" using net.rd_at_most [OF b] by (cases b) auto
  then have b1: "b = [c]" and s1: "concat s1 = (be16_bytes (of_nat (length d)) @ be16_bytes (of_nat p)) @ d @ replicate p 0 @ rest"
    using net.rd_in_order [OF b] assms(2) by (auto simp: vision_frame_def length_Suc_conv)
  let ?h = "be16_bytes (of_nat (length d)) @ be16_bytes (of_nat p)"
  obtain s2 where s2: "read_exact_from net_read 4 s1 = Ok (?h, s2)" "concat s2 = d @ replicate p 0 @ rest" "net_ok s2"
    using read_exact_front [OF net.rd_keeps_ok [OF assms(1) b] s1, of 4] by auto
  have h: "unat (be16 (?h ! 0) (?h ! 1)) = length d" "unat (be16 (?h ! 2) (?h ! 3)) = p"
    using assms(3,4) by (simp_all add: be16_bytes_def unat_of_nat_u16)
  obtain s3 where s3: "read_content (length d) s2 = Ok (d, s3)" "concat s3 = replicate p 0 @ rest" "net_ok s3"
    unfolding read_content_eq using read_exact_front [OF s2(3,2)] by auto
  obtain s4 where s4: "skip_padding p s3 = Ok s4" "concat s4 = rest" "net_ok s4"
    using skip_padding_front [OF s3(3,2)] by auto
  show ?thesis
    using b b1 s2(1) s3(1) s4 by (simp add: read_vision_frame_def Let_def h [simplified] switches_def)
qed

lemma take_buf_delivers:
  assumes "delivers r bs" "vr_buf_pos r < length (vr_buf r)" "0 < k" "take_buf k r = (c, r')"
  shows "c \<noteq> [] \<and> (\<exists>bs'. bs = c @ bs' \<and> delivers r' bs')"
proof -
  let ?n = "min (length (vr_buf r) - vr_buf_pos r) k"
  have c: "c = take ?n (drop (vr_buf_pos r) (vr_buf r))" "r' = r\<lparr>vr_buf_pos := vr_buf_pos r + ?n\<rparr>"
    using assms(4) by (simp_all add: take_buf_def Let_def)
  have "drop (vr_buf_pos r) (vr_buf r) = c @ drop (vr_buf_pos r + ?n) (vr_buf r)"
    unfolding c by (metis append_take_drop_id drop_drop add.commute)
  moreover have "behind r' bs' = behind r bs'" for bs' by (simp add: c(2) behind_def)
  moreover have "c \<noteq> []" using assms(2,3) by (simp add: c(1))
  ultimately show ?thesis using assms(1,2) unfolding delivers_def by (auto simp: c(2))
qed

lemma check_uuid_delivers:
  assumes "delivers r bs" "\<not> vr_direct r"
  shows "\<exists>r'. check_uuid r = Ok r' \<and> delivers r' bs \<and> \<not> vr_is_first r' \<and> vr_buf r' = vr_buf r \<and> vr_buf_pos r' = vr_buf_pos r \<and>
    \<not> vr_direct r'"
proof (cases "vr_is_first r")
  case True
  then obtain fs tail where f: "flow_ok fs tail" "bs = drop (vr_buf_pos r) (vr_buf r) @ frames_data fs @ tail"
    "concat (vr_inner r) = vr_user_uuid r @ frames_bytes fs @ tail" "net_ok (vr_inner r)" "length (vr_user_uuid r) = 16"
    using assms by (auto simp: delivers_def behind_def)
  obtain s where "read_exact_from net_read 16 (vr_inner r) = Ok (vr_user_uuid r, s)" "concat s = frames_bytes fs @ tail" "net_ok s"
    using read_exact_front [OF f(4,3)] f(5) by auto
  then show ?thesis using True assms f(1,2) by (auto simp: check_uuid_def delivers_def behind_def)
qed (use assms in \<open>auto simp: check_uuid_def\<close>)

lemma frame_delivers:
  assumes "delivers r bs" "\<not> vr_direct r" "\<not> vr_is_first r" "vr_buf_pos r = length (vr_buf r)"
  obtains (eof) s where "read_vision_frame r = Ok (None, s)" "bs = []" "delivers (r\<lparr>vr_inner := s\<rparr>) []"
  | (frame) r' s where "read_vision_frame r = Ok (Some r', s)" "delivers r' bs" "vr_buf_pos r' = 0"
proof -
  from assms obtain fs tail where f: "flow_ok fs tail" "bs = frames_data fs @ tail"
    "concat (vr_inner r) = frames_bytes fs @ tail" "net_ok (vr_inner r)" "length (vr_user_uuid r) = 16"
    by (auto simp: delivers_def behind_def)
  show ?thesis
  proof (cases fs)
    case Nil
    obtain b s where b: "net_read 1 (vr_inner r) = (b, s)" by fastforce
    have bs: "b = []" "concat s = []" "bs = []" "net_ok s"
      using net.rd_in_order [OF b] f(1-3) net.rd_keeps_ok [OF f(4) b] Nil by (auto simp: frames_bytes_def frames_data_def)
    have "delivers (r\<lparr>vr_inner := s\<rparr>) []"
      unfolding delivers_def behind_def using assms bs f(5)
      by (auto intro!: exI [of _ "[] :: vision_frames"] simp: frames_bytes_def frames_data_def)
    then show ?thesis using eof b bs(1,3) by (simp add: read_vision_frame_def)
  next
    case (Cons g gs)
    obtain c d p where g: "g = (c, d, p)" by (cases g)
    have len: "length d < 65536" "p < 65536" and rest: "if switches c then gs = [] else flow_ok gs tail"
      using f(1) Cons g by auto
    have "concat (vr_inner r) = vision_frame c d p @ frames_bytes gs @ tail"
      using f(3) Cons g by (simp add: frames_bytes_def)
    from read_vision_frame_front [OF f(4) this len] obtain r' s where r': "read_vision_frame r = Ok (Some r', s)" "vr_inner r' = s"
      "concat s = frames_bytes gs @ tail" "net_ok s" "vr_buf r' = d" "vr_buf_pos r' = 0"
      "vr_direct r' = (vr_direct r \<or> switches c)" "vr_is_first r' = vr_is_first r" "vr_user_uuid r' = vr_user_uuid r"
      by auto
    have "delivers r' bs"
      unfolding delivers_def behind_def using r' assms(2,3) f(2,5) Cons g rest
      by (auto simp: frames_data_def frames_bytes_def split: if_splits)
    then show ?thesis using frame r'(1,6) by blast
  qed
qed

lemma read_payload_delivers:
  "delivers r bs \<Longrightarrow> 0 < k \<Longrightarrow>
   \<exists>c r' bs'. read_payload k r = Ok (c, r') \<and> bs = c @ bs' \<and> delivers r' bs' \<and> (bs \<noteq> [] \<longrightarrow> c \<noteq> [])"
proof (induction k r rule: read_payload.induct)
  case (1 k r)
  consider (buf) "vr_buf_pos r < length (vr_buf r)" | (direct) "\<not> vr_buf_pos r < length (vr_buf r)" "vr_direct r"
    | (frame) "\<not> vr_buf_pos r < length (vr_buf r)" "\<not> vr_direct r" by blast
  then show ?case
  proof cases
    case buf
    obtain c r' where "take_buf k r = (c, r')" by fastforce
    then show ?thesis using take_buf_delivers [OF 1(2) buf 1(3)] buf 1(3) by (subst read_payload.simps) fastforce
  next
    case direct
    obtain c s where c: "net_read k (vr_inner r) = (c, s)" by fastforce
    have ok: "net_ok (vr_inner r)" "bs = concat (vr_inner r)" using 1(2) direct by (auto simp: delivers_def behind_def)
    have "delivers (r\<lparr>vr_inner := s\<rparr>) (concat s)"
      using 1(2) direct net.rd_keeps_ok [OF ok(1) c] by (auto simp: delivers_def behind_def)
    then show ?thesis
      using direct c 1(3) net.rd_in_order [OF c] net.rd_progress [OF ok(1) c] ok(2) by (subst read_payload.simps) auto
  next
    case frame
    obtain r1 where r1: "check_uuid r = Ok r1" "delivers r1 bs" "\<not> vr_is_first r1" "vr_buf r1 = vr_buf r" "vr_buf_pos r1 = vr_buf_pos r"
      "\<not> vr_direct r1" using check_uuid_delivers [OF 1(2) frame(2)] by blast
    have "vr_buf_pos r1 = length (vr_buf r1)" using 1(2) frame(1) r1(4,5) by (auto simp: delivers_def)
    from r1(2,6,3) this show ?thesis
    proof (cases rule: frame_delivers)
      case (eof s)
      then show ?thesis using frame 1(3) r1(1) by (subst read_payload.simps) auto
    next
      case (frame r2 s)
      show ?thesis
      proof (cases "vr_buf r2 = []")
        case True
        then have "\<exists>c r' bs'. read_payload k r2 = Ok (c, r') \<and> bs = c @ bs' \<and> delivers r' bs' \<and> (bs \<noteq> [] \<longrightarrow> c \<noteq> [])"
          using 1 \<open>\<not> vr_buf_pos r < length (vr_buf r)\<close> \<open>\<not> vr_direct r\<close> r1(1) frame by blast
        then show ?thesis
          using \<open>\<not> vr_buf_pos r < length (vr_buf r)\<close> \<open>\<not> vr_direct r\<close> 1(3) r1(1) frame(1) True by (subst read_payload.simps) simp
      next
        case False
        obtain c r' where c: "take_buf k r2 = (c, r')" by fastforce
        show ?thesis
          using take_buf_delivers [OF frame(2) _ 1(3) c] False frame(3) c \<open>\<not> vr_buf_pos r < length (vr_buf r)\<close> \<open>\<not> vr_direct r\<close>
            1(3) r1(1) frame(1) by (subst read_payload.simps) fastforce
      qed
    qed
  qed
qed

lemma read_payloads_delivers:
  "delivers r bs \<Longrightarrow> list_all (\<lambda>k. 0 < k) ks \<Longrightarrow> length bs \<le> length ks \<Longrightarrow> \<exists>r'. read_payloads ks r = Ok (bs, r')"
proof (induction ks arbitrary: r bs)
  case (Cons k ks)
  then obtain c r' bs' where c: "read_payload k r = Ok (c, r')" "bs = c @ bs'" "delivers r' bs'" "bs \<noteq> [] \<longrightarrow> c \<noteq> []"
    using read_payload_delivers [of r bs k] by auto
  have "length bs' \<le> length ks" using Cons.prems(3) c(2,4) by (cases c) auto
  then show ?case using Cons.IH [OF c(3)] Cons.prems(2) c by auto
qed simp


section \<open>What a writer writes\<close>

definition flow_open :: "vision_frames \<Rightarrow> bool" where
  "flow_open fs \<longleftrightarrow> list_all (\<lambda>(c, d, p). \<not> switches c \<and> length d < 65536 \<and> p < 65536) fs"

lemma flow_ok_open: "flow_open fs \<Longrightarrow> flow_ok fs []"
  by (induction fs) (auto simp: flow_open_def)

definition flow_closed :: "vision_frames \<Rightarrow> bool" where
  "flow_closed fs \<longleftrightarrow> (\<exists>gs c d p. fs = gs @ [(c, d, p)] \<and> flow_open gs \<and> switches c \<and> length d < 65536 \<and> p < 65536)"

lemma flow_ok_closed: "flow_closed fs \<Longrightarrow> flow_ok fs tail"
proof -
  assume "flow_closed fs"
  then obtain gs c d p where fs: "fs = gs @ [(c, d, p)]" and ok: "flow_open gs" "switches c" "length d < 65536" "p < 65536"
    by (auto simp: flow_closed_def)
  from ok have "flow_ok (gs @ [(c, d, p)]) tail" by (induction gs) (auto simp: flow_open_def)
  then show ?thesis by (simp add: fs)
qed

definition wrote :: "bytes \<Rightarrow> vision_writer \<Rightarrow> bytes \<Rightarrow> bool" where
  "wrote uuid w bs \<longleftrightarrow>
     ts_user_uuid (vw_state w) = uuid \<and>
     (\<exists>fs tail. bs = frames_data fs @ tail \<and> vw_out w = (if vw_is_first w then [] else uuid) @ frames_bytes fs @ tail \<and>
        vw_is_first w = (fs = []) \<and>
        (if vw_direct w then flow_closed fs else flow_open fs \<and> tail = []))"

lemma see_server_hello_Ok: "\<exists>ts'. see_server_hello ts data = Ok ts' \<and> ts_user_uuid ts' = ts_user_uuid ts"
  by (auto simp: see_server_hello_def rs_simps Let_def)

lemma scan_server_hello_uuid [simp]: "ts_user_uuid (scan_server_hello ts data) = ts_user_uuid ts"
  by (simp add: scan_server_hello_def Let_def)

lemma filter_tls_Ok: "\<exists>ts'. filter_tls ts data down = Ok ts' \<and> ts_user_uuid ts' = ts_user_uuid ts"
  using see_server_hello_Ok [of "ts\<lparr>packets_to_filter := packets_to_filter ts - 1\<rparr>" data]
  by (auto simp: filter_tls_def rs_simps Let_def)

lemma vision_command_cases:
  assumes "vision_command w data = (c, sw)"
  shows "sw = switches c"
  using assms by (auto simp: vision_command_def switches_def vision_cmd_defs split: if_splits)

lemma vision_pad_len_less: "vision_pad_len rnd n < 65536"
  by (simp add: vision_pad_len_def min_def)

lemma write_payload_wrote:
  assumes "wrote uuid w bs" "length data < 65536"
  shows "\<exists>w'. write_payload rnd data w = Ok w' \<and> wrote uuid w' (bs @ data) \<and> (vw_is_first w' \<longrightarrow> vw_direct w)"
proof (cases "vw_direct w")
  case True
  then obtain fs tail where "bs = frames_data fs @ tail" "vw_out w = (if vw_is_first w then [] else uuid) @ frames_bytes fs @ tail"
    "vw_is_first w = (fs = [])" "ts_user_uuid (vw_state w) = uuid" "flow_closed fs"
    using assms(1) by (auto simp: wrote_def)
  then have "wrote uuid (w\<lparr>vw_out := vw_out w @ data\<rparr>) (bs @ data)"
    unfolding wrote_def using True by (intro conjI exI [of _ fs] exI [of _ "tail @ data"]) auto
  then show ?thesis using True by (simp add: write_payload_def)
next
  case False
  then obtain fs where fs: "bs = frames_data fs" "vw_out w = (if vw_is_first w then [] else uuid) @ frames_bytes fs"
    "vw_is_first w = (fs = [])" "flow_open fs" and uuid: "ts_user_uuid (vw_state w) = uuid"
    using assms(1) by (auto simp: wrote_def)
  obtain ts where ts: "filter_tls (vw_state w) data True = Ok ts" "ts_user_uuid ts = uuid"
    using filter_tls_Ok uuid by metis
  obtain c sw where c: "vision_command (w\<lparr>vw_state := ts\<rparr>) data = (c, sw)" by fastforce
  define p where "p = vision_pad_len rnd (length data)"
  define w' where "w' = (if sw
      then w\<lparr>vw_state := ts, vw_is_first := False, vw_out := vw_out w @ (if vw_is_first w then uuid else []) @ vision_frame c data p,
          vw_direct := True,
          vw_direct_control := (if c = VISION_CMD_DIRECT then map_option (\<lambda>_. True) (vw_direct_control w) else vw_direct_control w)\<rparr>
      else w\<lparr>vw_state := ts, vw_is_first := False, vw_out := vw_out w @ (if vw_is_first w then uuid else []) @ vision_frame c data p,
          vw_packet_count := vw_packet_count w + 1\<rparr>)"
  have "write_payload rnd data w = Ok w'"
    using False ts c by (simp add: write_payload_def Let_def w'_def p_def)
  moreover have out: "vw_out w' = uuid @ frames_bytes (fs @ [(c, data, p)])" "\<not> vw_is_first w'" "ts_user_uuid (vw_state w') = uuid"
    "vw_direct w' = sw"
    using fs(2,3) ts(2) False by (auto simp: w'_def frames_bytes_def)
  moreover have "p < 65536" unfolding p_def by (rule vision_pad_len_less)
  then have "wrote uuid w' (bs @ data)"
    unfolding wrote_def using out fs(1,4) assms(2) vision_command_cases [OF c]
    by (intro conjI exI [of _ "fs @ [(c, data, p)]"] exI [of _ "[]"]) (auto simp: frames_data_def flow_open_def flow_closed_def)
  ultimately show ?thesis by auto
qed

lemma write_payloads_not_first: "\<not> vw_is_first w \<Longrightarrow> write_payloads ds w = Ok w' \<Longrightarrow> \<not> vw_is_first w'"
proof (induction ds arbitrary: w)
  case (Cons y ds)
  then obtain w1 where "write_payload (fst y) (snd y) w = Ok w1" "write_payloads ds w1 = Ok w'" by (cases y) auto
  moreover from this(1) have "\<not> vw_is_first w1"
    using Cons.prems(1) by (auto simp: write_payload_def Let_def split: if_splits prod.splits)
  ultimately show ?case using Cons.IH by blast
qed simp

lemma write_payloads_wrote:
  "wrote uuid w bs \<Longrightarrow> list_all (\<lambda>(rnd, d). length d < 65536) ds \<Longrightarrow>
   \<exists>w'. write_payloads ds w = Ok w' \<and> wrote uuid w' (bs @ concat (map snd ds)) \<and>
     (ds \<noteq> [] \<and> \<not> vw_direct w \<longrightarrow> \<not> vw_is_first w')"
proof (induction ds arbitrary: w bs)
  case (Cons x ds)
  obtain rnd d where x: "x = (rnd, d)" by (cases x)
  obtain w1 where w1: "write_payload rnd d w = Ok w1" "wrote uuid w1 (bs @ d)" "vw_is_first w1 \<longrightarrow> vw_direct w"
    using write_payload_wrote [OF Cons.prems(1), of d rnd] Cons.prems(2) x by auto
  obtain w2 where w2: "write_payloads ds w1 = Ok w2" "wrote uuid w2 ((bs @ d) @ concat (map snd ds))"
    using Cons.IH [OF w1(2)] Cons.prems(2) by auto
  have "\<not> vw_is_first w2" if "\<not> vw_direct w"
    using write_payloads_not_first [OF _ w2(1)] w1(3) that by blast
  then show ?case using w1(1) w2 x by auto
qed simp

section \<open>When a writer goes direct\<close>













section \<open>Properties\<close>

text \<open>C6: the Vision flow is transparent. Whatever is written in packets of at most 65535 bytes, whatever the padding lengths and
  however the stream is cut into segments, reading it with buffers of any sizes delivers exactly the bytes that were written, in
  order, across the switch from frames to raw data, without an error.\<close>

theorem vision_roundtrip:
  assumes "length uuid = 16" and "ds \<noteq> []" and "list_all (\<lambda>(rnd, d). length d < 65536) ds"
  shows "\<exists>w. write_payloads ds (vision_writer_new uuid ctl) = Ok w \<and>
     (\<forall>s ks. net_ok s \<and> concat s = vw_out w \<and> list_all (\<lambda>k. 0 < k) ks \<and> length (concat (map snd ds)) \<le> length ks \<longrightarrow>
        (\<exists>r. read_payloads ks (vision_reader_new s uuid ctl') = Ok (concat (map snd ds), r)))"
proof -
  have "wrote uuid (vision_writer_new uuid ctl) []"
    by (simp add: wrote_def vision_writer_new_def traffic_state_new_def frames_data_def frames_bytes_def flow_open_def)
  from write_payloads_wrote [OF this assms(3)] obtain w where w: "write_payloads ds (vision_writer_new uuid ctl) = Ok w"
    "wrote uuid w (concat (map snd ds))" "\<not> vw_is_first w"
    using assms(2) by (auto simp: vision_writer_new_def)
  then obtain fs tail where f: "concat (map snd ds) = frames_data fs @ tail" "vw_out w = uuid @ frames_bytes fs @ tail" "fs \<noteq> []"
    "if vw_direct w then flow_closed fs else flow_open fs \<and> tail = []"
    by (auto simp: wrote_def)
  have "flow_ok fs tail" using f(4) flow_ok_open flow_ok_closed by (auto split: if_splits)
  then have "delivers (vision_reader_new s uuid ctl') (concat (map snd ds))" if "net_ok s" "concat s = vw_out w" for s
    unfolding delivers_def behind_def using that f(1-3) assms(1) by (auto simp: vision_reader_new_def)
  then show ?thesis using w(1) read_payloads_delivers by blast
qed

theorem vision_roundtrip_witness:
  "\<exists>w. write_payloads [(7, [1, 2]), (9, [0x17, 3, 3, 4]), (0, [5])] (vision_writer_new (replicate 16 9) None) = Ok w \<and>
     (\<exists>r. read_payloads [1, 5, 2, 8, 8, 8, 8] (vision_reader_new (filter (\<lambda>c. c \<noteq> []) [vw_out w]) (replicate 16 9) None)
        = Ok ([1, 2, 0x17, 3, 3, 4, 5], r))"
proof -
  obtain w where w: "write_payloads [(7, [1, 2]), (9, [0x17, 3, 3, 4]), (0, [5])] (vision_writer_new (replicate 16 9) None) = Ok w"
    and r: "\<forall>s ks. net_ok s \<and> concat s = vw_out w \<and> list_all (\<lambda>k. 0 < k) ks \<and> 7 \<le> length ks \<longrightarrow>
        (\<exists>r. read_payloads ks (vision_reader_new s (replicate 16 9) None) = Ok ([1, 2, 0x17, 3, 3, 4, 5], r))"
    using vision_roundtrip [of "replicate 16 9" "[(7, [1, 2]), (9, [0x17, 3, 3, 4]), (0, [5])]" None None]
    by (auto simp del: write_payloads.simps)
  have "\<exists>r. read_payloads [1, 5, 2, 8, 8, 8, 8] (vision_reader_new (filter (\<lambda>c. c \<noteq> []) [vw_out w]) (replicate 16 9) None)
      = Ok ([1, 2, 0x17, 3, 3, 4, 5], r)"
    by (rule r [rule_format]) (simp add: net_ok_def)
  then show ?thesis using w by blast
qed




end
