(* ===== verification/Vless_Mux.thy ===== *)
theory Vless_Mux
  imports Vless_Header
begin

text \<open>
  \<^verbatim>\<open>src/protocol/vless/mux.rs\<close>: the server side of a Mux connection. The reader task is modelled as it is written: it cuts the
  stream into frames and keeps a table of sessions; a session is the number of the worker it feeds, a worker holds its destination,
  the data it starts with and the chunks put on its channel. \<open>mux_out\<close> are the frames the reader puts on the channel of the writer,
  \<open>mux_up\<close> the bytes reported as uploaded. The audit decision is a parameter; what workers do with their data (dial, relay) and the
  frames they send back are not part of the state.
\<close>

section \<open>Frames\<close>

definition encode_mux_meta :: "u16 \<Rightarrow> u8 \<Rightarrow> u8 \<Rightarrow> bytes" where
  "encode_mux_meta session_id status option = [0x00, 0x04] @ be16_bytes session_id @ [status, option]"

definition encode_mux_end :: "u16 \<Rightarrow> bytes" where
  "encode_mux_end session_id = encode_mux_meta session_id 3 0"

definition encode_mux_data :: "u16 \<Rightarrow> bytes \<Rightarrow> bytes" where
  "encode_mux_data session_id data =
     [0x00, 0x04] @ be16_bytes session_id @ [0x02, 0x01] @ [of_nat (length data div 256), of_nat (length data)] @ data"

definition parse_mux_address :: "u8 \<Rightarrow> bytes \<Rightarrow> (string \<times> ip_addr option \<times> nat) res" where
  "parse_mux_address atyp buf =
     (if atyp = 1
      then (if length buf < 4 then Err UnexpectedEof
            else
              and_then (byte_at buf 0) (\<lambda>a. and_then (byte_at buf 1) (\<lambda>b.
              and_then (byte_at buf 2) (\<lambda>c. and_then (byte_at buf 3) (\<lambda>d.
                let ip = ipv4_new a b c d in Ok (ip_string ip, Some ip, 4))))))
      else if atyp = 2
      then (if buf = [] then Err UnexpectedEof
            else and_then (byte_at buf 0) (\<lambda>l.
              let len = unat l
              in if length buf < 1 + len then Err UnexpectedEof
                 else and_then (slice buf 1 (1 + len)) (\<lambda>d.
                   let domain = from_utf8_lossy d in Ok (domain, parse_ip domain, 1 + len))))
      else if atyp = 3
      then (if length buf < 16 then Err UnexpectedEof
            else and_then (slice buf 0 16) (\<lambda>os. let ip = ipv6_from os in Ok (ip_string ip, Some ip, 16)))
      else Err InvalidData)"

record mux_frame =
  mf_session :: u16
  mf_status :: u8
  mf_meta :: bytes
  mf_payload :: bytes

text \<open>One turn of the loop up to the payload: the end, a short meta block that is skipped, or a frame.\<close>

datatype mux_read = MuxEof | MuxSkip bytes | MuxFrame mux_frame bytes

definition read_mux_payload :: "u8 \<Rightarrow> bytes \<Rightarrow> (bytes \<times> bytes) res" where
  "read_mux_payload option s =
     (if option AND 0x01 \<noteq> 0
      then and_then (read_u16 s) (\<lambda>(data_len, s). read_exact (unat data_len) s)
      else Ok ([], s))"

definition read_mux_frame :: "bytes \<Rightarrow> mux_read" where
  "read_mux_frame s =
     (case read_u16 s of
        Ok (l, s) \<Rightarrow>
          (let meta_len = unat l
           in if meta_len < 4 then MuxSkip (drop meta_len s)
              else case read_exact meta_len s of
                     Ok (meta, s) \<Rightarrow>
                       (case read_mux_payload (meta ! 3) s of
                          Ok (payload, s) \<Rightarrow>
                            MuxFrame \<lparr>mf_session = be16 (meta ! 0) (meta ! 1), mf_status = meta ! 2, mf_meta = meta,
                                      mf_payload = payload\<rparr> s
                        | _ \<Rightarrow> MuxEof)
                   | _ \<Rightarrow> MuxEof)
      | _ \<Rightarrow> MuxEof)"

section \<open>Sessions\<close>

record mux_worker =
  mw_session :: u16
  mw_udp :: bool
  mw_host :: string
  mw_ip :: "ip_addr option"
  mw_port :: u16
  mw_initial :: bytes
  mw_chunks :: "bytes list"

record mux_state =
  mux_sessions :: "(u16 \<times> nat) list"
  mux_workers :: "mux_worker list"
  mux_out :: "bytes list"
  mux_up :: nat

definition mux_new :: mux_state where
  "mux_new = \<lparr>mux_sessions = [], mux_workers = [], mux_out = [], mux_up = 0\<rparr>"

definition mux_send :: "bytes \<Rightarrow> mux_state \<Rightarrow> mux_state" where
  "mux_send f st = st\<lparr>mux_out := mux_out st @ [f]\<rparr>"

definition add_up :: "bytes \<Rightarrow> mux_state \<Rightarrow> mux_state" where
  "add_up payload st = (if payload \<noteq> [] then st\<lparr>mux_up := mux_up st + length payload\<rparr> else st)"

definition spawn_worker :: "mux_worker \<Rightarrow> mux_state \<Rightarrow> mux_state" where
  "spawn_worker w st =
     st\<lparr>mux_sessions := al_put (mw_session w) (length (mux_workers st)) (mux_sessions st), mux_workers := mux_workers st @ [w]\<rparr>"

definition mux_on_new :: "(string \<Rightarrow> ip_addr option \<Rightarrow> u16 \<Rightarrow> bool) \<Rightarrow> mux_frame \<Rightarrow> mux_state \<Rightarrow> mux_state res" where
  "mux_on_new should_block f st =
     (if length (mf_meta f) < 8 then Ok st
      else
        and_then (byte_at (mf_meta f) 4) (\<lambda>network.
        and_then (be16_at (mf_meta f) 5) (\<lambda>target_port.
        and_then (byte_at (mf_meta f) 7) (\<lambda>atyp.
        and_then (slice (mf_meta f) 8 (length (mf_meta f))) (\<lambda>addr.
          case parse_mux_address atyp addr of
            Panic \<Rightarrow> Panic
          | Err e \<Rightarrow> Ok (mux_send (encode_mux_end (mf_session f)) st)
          | Ok (target_host, target_ip, _) \<Rightarrow>
              (if should_block target_host target_ip target_port
               then Ok (mux_send (encode_mux_end (mf_session f)) st)
               else Ok (spawn_worker
                 \<lparr>mw_session = mf_session f, mw_udp = (network = 2), mw_host = target_host, mw_ip = target_ip,
                  mw_port = target_port, mw_initial = mf_payload f, mw_chunks = []\<rparr> (add_up (mf_payload f) st))))))))"

definition feed :: "nat \<Rightarrow> bytes \<Rightarrow> mux_state \<Rightarrow> mux_state" where
  "feed j payload st =
     st\<lparr>mux_workers := (mux_workers st)[j := (mux_workers st ! j)\<lparr>mw_chunks := mw_chunks (mux_workers st ! j) @ [payload]\<rparr>]\<rparr>"

definition mux_on_frame :: "(string \<Rightarrow> ip_addr option \<Rightarrow> u16 \<Rightarrow> bool) \<Rightarrow> mux_frame \<Rightarrow> mux_state \<Rightarrow> mux_state res" where
  "mux_on_frame should_block f st =
     (if mf_status f = 1 then mux_on_new should_block f st
      else if mf_status f = 2
      then (case map_of (mux_sessions st) (mf_session f) of
              Some j \<Rightarrow> Ok (if mf_payload f \<noteq> [] then feed j (mf_payload f) (add_up (mf_payload f) st) else st)
            | None \<Rightarrow> Ok (mux_send (encode_mux_end (mf_session f)) st))
      else if mf_status f = 3 then Ok (st\<lparr>mux_sessions := al_del (mf_session f) (mux_sessions st)\<rparr>)
      else if mf_status f = 4 then Ok (mux_send (encode_mux_meta (mf_session f) 4 0) st)
      else Ok st)"

lemma read_u16_shorter: "read_u16 s = Ok (l, r) \<Longrightarrow> length r < length s"
  by (auto simp: read_u16_def)

lemma read_mux_frame_shorter:
  "read_mux_frame s = MuxSkip r \<Longrightarrow> length r < length s"
  "read_mux_frame s = MuxFrame f r \<Longrightarrow> length r < length s"
  by (auto simp: read_mux_frame_def read_mux_payload_def Let_def dest!: read_u16_shorter split: res.splits if_splits)
    linarith+

text \<open>The reader task, to the end of the stream.\<close>

function mux_run :: "(string \<Rightarrow> ip_addr option \<Rightarrow> u16 \<Rightarrow> bool) \<Rightarrow> bytes \<Rightarrow> mux_state \<Rightarrow> mux_state res" where
  "mux_run should_block s st =
     (case read_mux_frame s of
        MuxEof \<Rightarrow> Ok st
      | MuxSkip s \<Rightarrow> mux_run should_block s st
      | MuxFrame f s \<Rightarrow> and_then (mux_on_frame should_block f st) (mux_run should_block s))"
  by pat_completeness auto
termination
  by (relation "measure (\<lambda>(b, s, st). length s)") (auto dest: read_mux_frame_shorter)

section \<open>Reference: the messages of a client\<close>

datatype mux_msg = MNew u16 bool u16 "ip_addr + bytes" bytes | MData u16 bytes | MEnd u16 | MKeep u16

definition mux_frame_bytes :: "u16 \<Rightarrow> u8 \<Rightarrow> bytes \<Rightarrow> bytes \<Rightarrow> bytes" where
  "mux_frame_bytes k status extra payload =
     be16_bytes (of_nat (4 + length extra)) @ be16_bytes k @ [status, 1] @ extra @ be16_bytes (of_nat (length payload)) @ payload"

fun mux_msg_bytes :: "mux_msg \<Rightarrow> bytes" where
  "mux_msg_bytes (MNew k udp port a payload) =
     mux_frame_bytes k 1 ((if udp then 2 else 1) # be16_bytes port @ vless_addr_bytes a) payload"
| "mux_msg_bytes (MData k payload) = encode_mux_data k payload"
| "mux_msg_bytes (MEnd k) = encode_mux_end k"
| "mux_msg_bytes (MKeep k) = encode_mux_meta k 4 0"

fun mux_msg_ok :: "mux_msg \<Rightarrow> bool" where
  "mux_msg_ok (MNew k udp port a payload) \<longleftrightarrow> length payload < 65536 \<and> (\<forall>d. a = Inr d \<longrightarrow> length d < 256)"
| "mux_msg_ok (MData k payload) \<longleftrightarrow> length payload < 65536"
| "mux_msg_ok _ \<longleftrightarrow> True"

fun mux_dest :: "ip_addr + bytes \<Rightarrow> string \<times> ip_addr option" where
  "mux_dest (Inl ip) = (ip_string ip, Some ip)"
| "mux_dest (Inr d) = (from_utf8_lossy d, parse_ip (from_utf8_lossy d))"

text \<open>The data of session \<open>k\<close>: what the last request to open it that was let through and the messages since then carry, or
  nothing if the session is closed.\<close>

fun mux_since :: "(string \<Rightarrow> ip_addr option \<Rightarrow> u16 \<Rightarrow> bool) \<Rightarrow> u16 \<Rightarrow> mux_msg \<Rightarrow> bytes option \<Rightarrow> bytes option" where
  "mux_since blk k (MNew i udp port a payload) acc =
     (if i = k \<and> \<not> blk (fst (mux_dest a)) (snd (mux_dest a)) port then Some payload else acc)"
| "mux_since blk k (MData i payload) acc = (if i = k then map_option (\<lambda>d. d @ payload) acc else acc)"
| "mux_since blk k (MEnd i) acc = (if i = k then None else acc)"
| "mux_since blk k (MKeep i) acc = acc"


section \<open>Lemmas\<close>

declare mux_run.simps [simp del]

lemma be16_bytes_of_nat: "[of_nat (n div 256), of_nat n] = be16_bytes (of_nat n)"
proof -
  have "ucast (drop_bit 8 (of_nat n :: u16)) = (of_nat (n div 256) :: u8)"
  proof (rule bit_word_eqI)
    fix i assume "i < LENGTH(8)"
    have "n div 256 = drop_bit 8 n" by (simp add: drop_bit_eq_div)
    then show "bit (ucast (drop_bit 8 (of_nat n :: u16)) :: u8) i = bit (of_nat (n div 256) :: u8) i"
      using \<open>i < LENGTH(8)\<close> by (simp add: bit_ucast_iff bit_drop_bit_eq bit_word_of_nat add.commute)
  qed
  moreover have "ucast (of_nat n :: u16) = (of_nat n :: u8)"
    by (rule bit_word_eqI) (simp add: bit_ucast_iff bit_word_of_nat)
  ultimately show ?thesis by (simp add: be16_bytes_def)
qed

lemma encode_mux_data_frame: "encode_mux_data k d = mux_frame_bytes k 2 [] d"
  using be16_bytes_of_nat [of 4] be16_bytes_of_nat [of "length d"]
  by (simp add: encode_mux_data_def mux_frame_bytes_def)

lemma read_mux_frame_split:
  assumes "4 \<le> length meta" "length meta < 65536"
  shows "read_mux_frame (be16_bytes (of_nat (length meta)) @ meta @ s) =
     (case read_mux_payload (meta ! 3) s of
        Ok (payload, s) \<Rightarrow> MuxFrame \<lparr>mf_session = be16 (meta ! 0) (meta ! 1), mf_status = meta ! 2, mf_meta = meta, mf_payload = payload\<rparr> s
      | _ \<Rightarrow> MuxEof)"
  using assms by (simp add: read_mux_frame_def unat_of_nat_u16 Let_def del: read_exact_Ok_iff)

lemma mux_meta_nth:
  "be16 ((be16_bytes k @ x # y # r) ! 0) ((be16_bytes k @ x # y # r) ! 1) = k"
  "(be16_bytes k @ x # y # r) ! 2 = x" "(be16_bytes k @ x # y # r) ! 3 = y"
  by (simp_all add: be16_bytes_def)

lemma read_mux_frame_bytes:
  assumes "4 + length extra < 65536" "length d < 65536"
  shows "read_mux_frame (mux_frame_bytes k st extra d @ rest) =
     MuxFrame \<lparr>mf_session = k, mf_status = st, mf_meta = be16_bytes k @ [st, 1] @ extra, mf_payload = d\<rparr> rest"
  using read_mux_frame_split [of "be16_bytes k @ st # 1 # extra" "be16_bytes (of_nat (length d)) @ d @ rest"] assms
    mux_meta_nth [of k st 1 extra] unat_of_nat_u16 [of "length d"]
  by (simp add: mux_frame_bytes_def read_mux_payload_def)

lemma read_mux_frame_meta:
  "read_mux_frame (encode_mux_meta k st 0 @ rest) =
     MuxFrame \<lparr>mf_session = k, mf_status = st, mf_meta = be16_bytes k @ [st, 0], mf_payload = []\<rparr> rest"
  using read_mux_frame_split [of "be16_bytes k @ [st, 0]" rest] mux_meta_nth [of k st 0 "[]"] be16_bytes_of_nat [of 4]
  by (simp add: encode_mux_meta_def read_mux_payload_def)

lemma parse_mux_address_encoded:
  assumes "\<And>d. a = Inr d \<Longrightarrow> length d < 256"
  shows "\<exists>n. parse_mux_address (hd (vless_addr_bytes a)) (tl (vless_addr_bytes a)) = Ok (fst (mux_dest a), snd (mux_dest a), n)"
  using assms
  by (induction a rule: vless_addr_bytes.induct)
    (simp_all add: parse_mux_address_def rs_simps Let_def ipv4_new_bytes ipv6_from_octets unat_of_nat_u8)

lemma length_vless_addr_bytes: "(\<And>d. a = Inr d \<Longrightarrow> length d < 256) \<Longrightarrow> length (vless_addr_bytes a) < 300 \<and> vless_addr_bytes a \<noteq> []"
  by (induction a rule: vless_addr_bytes.induct) auto

fun worker_fed :: "u16 \<Rightarrow> bytes option \<Rightarrow> mux_worker list \<Rightarrow> nat option \<Rightarrow> bool" where
  "worker_fed k acc ws None \<longleftrightarrow> acc = None"
| "worker_fed k acc ws (Some j) \<longleftrightarrow>
     j < length ws \<and> mw_session (ws ! j) = k \<and> acc = Some (mw_initial (ws ! j) @ concat (mw_chunks (ws ! j)))"

definition mux_fed :: "u16 \<Rightarrow> bytes option \<Rightarrow> mux_state \<Rightarrow> bool" where
  "mux_fed k acc st = worker_fed k acc (mux_workers st) (map_of (mux_sessions st) k)"

lemma worker_fed_append: "worker_fed k acc ws j \<Longrightarrow> worker_fed k acc (ws @ vs) j"
  by (cases j) (auto simp: nth_append)

lemma mux_fed_send [simp]: "mux_fed k acc (mux_send f st) = mux_fed k acc st"
  by (simp add: mux_fed_def mux_send_def)

lemma add_up_fields [simp]: "mux_sessions (add_up d st) = mux_sessions st" "mux_workers (add_up d st) = mux_workers st"
  by (simp_all add: add_up_def)

lemma mux_fed_up [simp]: "mux_fed k acc (add_up d st) = mux_fed k acc st"
  by (simp add: mux_fed_def)

lemma mux_fed_spawn:
  "mux_fed k acc st \<Longrightarrow> mw_chunks w = [] \<Longrightarrow> mux_fed k (if mw_session w = k then Some (mw_initial w) else acc) (spawn_worker w st)"
  by (auto simp: mux_fed_def spawn_worker_def worker_fed_append)

lemma mux_fed_feed:
  assumes "\<And>k. mux_fed k (acc k) st" "map_of (mux_sessions st) i = Some j"
  shows "mux_fed k (if i = k then map_option (\<lambda>d. d @ payload) (acc k) else acc k) (feed j payload st)"
proof -
  have j: "j < length (mux_workers st)" "mw_session (mux_workers st ! j) = i"
    using assms(1) [of i] assms(2) by (simp_all add: mux_fed_def)
  show ?thesis
  proof (cases "map_of (mux_sessions st) k")
    case None
    then show ?thesis using assms(1) [of k] by (simp add: mux_fed_def feed_def)
  next
    case (Some m)
    then show ?thesis using assms(1) [of k] assms(2) j by (auto simp: mux_fed_def feed_def nth_list_update)
  qed
qed

definition mux_msg_frame :: "mux_msg \<Rightarrow> mux_frame" where
  "mux_msg_frame m =
     (case m of
        MNew k udp port a d \<Rightarrow> \<lparr>mf_session = k, mf_status = 1,
          mf_meta = be16_bytes k @ [1, 1] @ (if udp then 2 else 1) # be16_bytes port @ vless_addr_bytes a, mf_payload = d\<rparr>
      | MData k d \<Rightarrow> \<lparr>mf_session = k, mf_status = 2, mf_meta = be16_bytes k @ [2, 1], mf_payload = d\<rparr>
      | MEnd k \<Rightarrow> \<lparr>mf_session = k, mf_status = 3, mf_meta = be16_bytes k @ [3, 0], mf_payload = []\<rparr>
      | MKeep k \<Rightarrow> \<lparr>mf_session = k, mf_status = 4, mf_meta = be16_bytes k @ [4, 0], mf_payload = []\<rparr>)"

lemma read_mux_msg:
  assumes "mux_msg_ok m"
  shows "read_mux_frame (mux_msg_bytes m @ rest) = MuxFrame (mux_msg_frame m) rest"
proof (cases m)
  case (MNew k udp port a d)
  then have "length (vless_addr_bytes a) < 300" using assms length_vless_addr_bytes [of a] by simp
  then show ?thesis using assms MNew by (simp add: read_mux_frame_bytes mux_msg_frame_def)
qed (use assms in \<open>simp_all add: read_mux_frame_bytes encode_mux_data_frame encode_mux_end_def read_mux_frame_meta mux_msg_frame_def\<close>)

lemma mux_on_new_msg:
  assumes "mux_msg_ok (MNew i udp port a d)"
  shows "mux_on_new blk (mux_msg_frame (MNew i udp port a d)) st =
     Ok (if blk (fst (mux_dest a)) (snd (mux_dest a)) port then mux_send (encode_mux_end i) st
         else spawn_worker \<lparr>mw_session = i, mw_udp = udp, mw_host = fst (mux_dest a), mw_ip = snd (mux_dest a), mw_port = port,
           mw_initial = d, mw_chunks = []\<rparr> (add_up d st))"
proof -
  have len: "\<And>d. a = Inr d \<Longrightarrow> length d < 256" using assms by simp
  obtain t v where v: "vless_addr_bytes a = t # v" using length_vless_addr_bytes [OF len] by (cases "vless_addr_bytes a") auto
  obtain n where n: "parse_mux_address t v = Ok (fst (mux_dest a), snd (mux_dest a), n)"
    using parse_mux_address_encoded [of a] len v by auto
  define meta where "meta = be16_bytes i @ [1, 1] @ (if udp then 2 else 1) # be16_bytes port @ vless_addr_bytes a"
  have meta: "byte_at meta 4 = Ok (if udp then 2 else 1)" "be16_at meta 5 = Ok port" "byte_at meta 7 = Ok t"
    "slice meta 8 (length meta) = Ok v" "\<not> length meta < 8"
    unfolding meta_def v by (simp_all add: be16_bytes_def byte_at_def be16_at_def slice_def)
  have "mux_msg_frame (MNew i udp port a d) = \<lparr>mf_session = i, mf_status = 1, mf_meta = meta, mf_payload = d\<rparr>"
    by (simp add: mux_msg_frame_def meta_def)
  then show ?thesis using n meta by (simp add: mux_on_new_def del: and_then_Ok_iff)
qed

lemma mux_on_msg:
  assumes "mux_msg_ok m" "\<And>k. mux_fed k (acc k) st"
  shows "\<exists>st'. mux_on_frame blk (mux_msg_frame m) st = Ok st' \<and> (\<forall>k. mux_fed k (mux_since blk k m (acc k)) st')"
proof (cases m)
  case (MNew i udp port a d)
  let ?w = "\<lparr>mw_session = i, mw_udp = udp, mw_host = fst (mux_dest a), mw_ip = snd (mux_dest a), mw_port = port,
           mw_initial = d, mw_chunks = []\<rparr>"
  have "mux_fed k (if i = k then Some d else acc k) (spawn_worker ?w (add_up d st))" for k
    using mux_fed_spawn [of k "acc k" "add_up d st" ?w] assms(2) by (cases "i = k") simp_all
  then show ?thesis
    using mux_on_new_msg [of i udp port a d blk st] assms MNew
    by (auto simp: mux_on_frame_def mux_msg_frame_def)
next
  case (MData i d)
  show ?thesis
  proof (cases "map_of (mux_sessions st) i")
    case None
    then have "acc i = None" using assms(2) [of i] by (simp add: mux_fed_def)
    then have "mux_since blk k m (acc k) = acc k" for k using MData by (cases "i = k") simp_all
    then show ?thesis using assms(2) MData None by (simp add: mux_on_frame_def mux_msg_frame_def)
  next
    case (Some j)
    have "mux_fed k (if i = k then map_option (\<lambda>d'. d' @ d) (acc k) else acc k) (feed j d (add_up d st))" for k
      by (rule mux_fed_feed) (simp_all add: assms(2) Some)
    moreover have "mux_since blk k m (acc k) = acc k" if "d = []" for k using MData that by (simp add: option.map_ident)
    ultimately show ?thesis using assms(2) MData Some by (cases "d = []") (simp_all add: mux_on_frame_def mux_msg_frame_def)
  qed
next
  case (MEnd i)
  have "mux_fed k (if i = k then None else acc k) (st\<lparr>mux_sessions := al_del i (mux_sessions st)\<rparr>)" for k
    using assms(2) [of k] by (auto simp: mux_fed_def)
  then show ?thesis using MEnd by (simp add: mux_on_frame_def mux_msg_frame_def)
next
  case (MKeep i)
  then show ?thesis using assms(2) by (simp add: mux_on_frame_def mux_msg_frame_def)
qed

lemma mux_run_msgs:
  "list_all mux_msg_ok ms \<Longrightarrow> (\<And>k. mux_fed k (acc k) st) \<Longrightarrow>
   \<exists>st'. mux_run blk (concat (map mux_msg_bytes ms)) st = Ok st' \<and> (\<forall>k. mux_fed k (fold (mux_since blk k) ms (acc k)) st')"
proof (induction ms arbitrary: st acc)
  case Nil
  then show ?case by (subst mux_run.simps) (auto simp: read_mux_frame_def read_u16_def read_exact_def)
next
  case (Cons m ms)
  then obtain st1 where st1: "mux_on_frame blk (mux_msg_frame m) st = Ok st1" "\<And>k. mux_fed k (mux_since blk k m (acc k)) st1"
    using mux_on_msg [of m acc st blk] by auto
  show ?case
    using Cons.IH [OF _ st1(2)] Cons.prems(1) st1(1) by (subst mux_run.simps) (simp add: read_mux_msg)
qed

section \<open>Properties\<close>

text \<open>C8: sessions of a Mux connection do not mix. Whatever well-formed messages a client sends, in whatever order, the reader
  gets through the stream without an error, and afterwards the worker of an open session has been given exactly the data the
  client sent on that session since it was last opened, in order; the session is open exactly if its last accepted request
  to open it has not been followed by an end message.\<close>

theorem mux_delivery:
  assumes "list_all mux_msg_ok ms"
  shows "\<exists>st. mux_run blk (concat (map mux_msg_bytes ms)) mux_new = Ok st \<and>
     (\<forall>k. fold (mux_since blk k) ms None =
        map_option (\<lambda>j. mw_initial (mux_workers st ! j) @ concat (mw_chunks (mux_workers st ! j))) (map_of (mux_sessions st) k))"
proof -
  have "mux_fed k None mux_new" for k by (simp add: mux_fed_def mux_new_def)
  then obtain st where st: "mux_run blk (concat (map mux_msg_bytes ms)) mux_new = Ok st" "\<And>k. mux_fed k (fold (mux_since blk k) ms None) st"
    using mux_run_msgs [OF assms, of "\<lambda>_. None"] by blast
  have "fold (mux_since blk k) ms None =
      map_option (\<lambda>j. mw_initial (mux_workers st ! j) @ concat (mw_chunks (mux_workers st ! j))) (map_of (mux_sessions st) k)" for k
    using st(2) [of k] by (cases "map_of (mux_sessions st) k") (simp_all add: mux_fed_def)
  then show ?thesis using st(1) by blast
qed

definition sample_mux_msgs :: "mux_msg list" where
  "sample_mux_msgs = [MNew 1 False 80 (Inr [97]) [5], MNew 2 True 25 (Inl (V4 7)) [6], MData 1 [8, 9], MKeep 1]"

theorem mux_delivery_witness:
  "\<exists>st. mux_run (\<lambda>h ip p. p = 25) (concat (map mux_msg_bytes sample_mux_msgs)) mux_new = Ok st \<and>
     map_option (\<lambda>j. mw_initial (mux_workers st ! j) @ concat (mw_chunks (mux_workers st ! j))) (map_of (mux_sessions st) 1) = Some [5, 8, 9]"
proof -
  have "list_all mux_msg_ok sample_mux_msgs" by (simp add: sample_mux_msgs_def)
  then obtain st where st: "mux_run (\<lambda>h ip p. p = 25) (concat (map mux_msg_bytes sample_mux_msgs)) mux_new = Ok st"
    and d: "\<forall>k. fold (mux_since (\<lambda>h ip p. p = 25) k) sample_mux_msgs None =
        map_option (\<lambda>j. mw_initial (mux_workers st ! j) @ concat (mw_chunks (mux_workers st ! j))) (map_of (mux_sessions st) k)"
    using mux_delivery [of sample_mux_msgs "\<lambda>h ip p. p = 25"] by blast
  have "fold (mux_since (\<lambda>h ip p. p = 25) 1) sample_mux_msgs None = Some [5, 8, 9]"
    by (simp add: sample_mux_msgs_def)
  then have "map_option (\<lambda>j. mw_initial (mux_workers st ! j) @ concat (mw_chunks (mux_workers st ! j))) (map_of (mux_sessions st) 1) = Some [5, 8, 9]"
    using d [THEN spec, of 1] by (simp only:)
  then show ?thesis using st by blast
qed

end
