(* ===== verification/Grpc_Transport.thy ===== *)
theory Grpc_Transport
  imports Varint
begin

text \<open>
  \<^verbatim>\<open>src/transport/grpc.rs\<close>: the byte stream inside a gRPC call. Writes wrap data into length-prefixed messages that hold one
  protobuf field; reads take the messages out of the data frames of HTTP/2, however they are cut. The HTTP/2 stream is the list of data
  chunks that are still to come, the flow-control capacity and the answer of \<^verbatim>\<open>poll_capacity\<close> are arguments. Positions are taken
  modulo \<open>2^64\<close> where the code adds a length from the wire to them.
\<close>

section \<open>Protobuf\<close>

function encode_varint :: "u64 \<Rightarrow> bytes" where
  "encode_varint v = (if v \<ge> 0x80 then ((ucast v AND 0x7F) OR 0x80) # encode_varint (drop_bit 7 v) else [ucast v])"
  by pat_completeness auto
termination
proof (relation "measure unat")
  fix v :: u64 assume "0x80 \<le> v"
  then have "128 \<le> unat v" by (simp add: word_le_nat_alt)
  moreover have "unat (drop_bit 7 v) = unat v div 128" unfolding unat_drop_bit_eq by (simp add: drop_bit_eq_div)
  ultimately show "(drop_bit 7 v, v) \<in> measure unat" by simp
qed simp

fun grpc_varint_from :: "u64 \<Rightarrow> nat \<Rightarrow> nat \<Rightarrow> bytes \<Rightarrow> (u64 \<times> nat) option" where
  "grpc_varint_from result shift i [] = None"
| "grpc_varint_from result shift i (b # bs) =
     (let result = result OR push_bit shift (ucast (b AND 0x7F))
      in if b AND 0x80 = 0 then Some (result, i + 1)
         else if shift + 7 > 64 then None
         else grpc_varint_from result (shift + 7) (i + 1) bs)"

definition grpc_read_varint :: "bytes \<Rightarrow> (u64 \<times> nat) option" where
  "grpc_read_varint bs = grpc_varint_from 0 0 0 bs"

text \<open>The loop of \<^verbatim>\<open>decode_protobuf_hunk\<close> at a cursor. A slice whose end was computed below its start panics.\<close>

function hunk_at :: "bytes \<Rightarrow> nat \<Rightarrow> bytes option res" where
  "hunk_at bs cursor =
     (if cursor < length bs
      then let tag = bs ! cursor; cursor = cursor + 1
           in if drop_bit 3 tag = 1 \<and> tag AND 0x07 = 2
              then (case grpc_read_varint (drop cursor bs) of
                      None \<Rightarrow> Ok None
                    | Some (len, len_bytes) \<Rightarrow>
                        (let cursor = cursor + len_bytes; end_pos = (cursor + unat len) mod 2 ^ 64
                         in if end_pos \<le> length bs then map_res Some (slice bs cursor end_pos)
                            else hunk_at bs cursor))
              else hunk_at bs cursor
      else Ok None)"
  by pat_completeness auto
termination
  by (relation "measure (\<lambda>(bs, cursor). length bs - cursor)") auto

definition decode_protobuf_hunk :: "bytes \<Rightarrow> bytes option res" where
  "decode_protobuf_hunk bs = (if bs = [] then Ok None else hunk_at bs 0)"

section \<open>Reading\<close>

record grpc_stream =
  recv_chunks :: "bytes list"
  read_buf :: bytes
  raw_recv_buf :: bytes

definition grpc_new :: "bytes list \<Rightarrow> grpc_stream" where
  "grpc_new chunks = \<lparr>recv_chunks = chunks, read_buf = [], raw_recv_buf = []\<rparr>"

function grpc_drain :: "bytes \<Rightarrow> bytes \<Rightarrow> (bytes \<times> bytes) res" where
  "grpc_drain raw out =
     (if length raw \<ge> 5
      then let msg_len = unat (be32 (raw ! 1) (raw ! 2) (raw ! 3) (raw ! 4))
           in if length raw < 5 + msg_len then Ok (raw, out)
              else let msg = take msg_len (drop 5 raw)
                   in and_then (decode_protobuf_hunk msg) (\<lambda>payload.
                        grpc_drain (drop (5 + msg_len) raw) (out @ (case payload of Some p \<Rightarrow> p | None \<Rightarrow> msg)))
      else Ok (raw, out))"
  by pat_completeness auto
termination
  by (relation "measure (\<lambda>(raw, out). length raw)") auto

function grpc_poll_read :: "nat \<Rightarrow> grpc_stream \<Rightarrow> (bytes \<times> grpc_stream) res" where
  "grpc_poll_read k st =
     (if k = 0 then Ok ([], st)
      else if read_buf st \<noteq> []
      then let n = min k (length (read_buf st)) in Ok (take n (read_buf st), st\<lparr>read_buf := drop n (read_buf st)\<rparr>)
      else case recv_chunks st of
             [] \<Rightarrow> Ok ([], st)
           | chunk # chunks \<Rightarrow>
               and_then (grpc_drain (raw_recv_buf st @ chunk) (read_buf st)) (\<lambda>(raw, out).
                 grpc_poll_read k \<lparr>recv_chunks = chunks, read_buf = out, raw_recv_buf = raw\<rparr>))"
  by pat_completeness auto
termination
  by (relation "measure (\<lambda>(k, st). length (recv_chunks st))") auto

fun grpc_reads :: "nat list \<Rightarrow> grpc_stream \<Rightarrow> (bytes \<times> grpc_stream) res" where
  "grpc_reads [] st = Ok ([], st)"
| "grpc_reads (k # ks) st =
     and_then (grpc_poll_read k st) (\<lambda>(c, st). map_res (\<lambda>(d, st). (c @ d, st)) (grpc_reads ks st))"

section \<open>Writing\<close>

datatype capacity_poll = CapReady nat | CapErr | CapClosed | CapPending

datatype grpc_write_result = WritePending | WriteErr io_error | Written nat bytes

definition grpc_frame :: "bytes \<Rightarrow> bytes" where
  "grpc_frame to_send =
     (let pb = 0x0a # encode_varint (of_nat (length to_send)) @ to_send in 0x00 # be32_bytes (of_nat (length pb)) @ pb)"

definition send_within :: "nat \<Rightarrow> bytes \<Rightarrow> grpc_write_result" where
  "send_within avail data =
     (if avail \<le> 16 then WritePending
      else let max_payload = min (min (avail - 16) (length data)) 16384; to_send = take max_payload data
           in Written (length to_send) (grpc_frame to_send))"

definition grpc_poll_write :: "nat \<Rightarrow> capacity_poll \<Rightarrow> bytes \<Rightarrow> grpc_write_result" where
  "grpc_poll_write capacity polled data =
     (if data = [] then Written 0 []
      else if capacity \<le> 16
      then (case polled of
              CapReady new_cap \<Rightarrow> send_within new_cap data
            | CapErr \<Rightarrow> WriteErr ConnectionReset
            | CapClosed \<Rightarrow> WriteErr BrokenPipe
            | CapPending \<Rightarrow> WritePending)
      else send_within capacity data)"

text \<open>Writing all of the data: what is sent for the capacities that are offered, and what is left.\<close>

fun grpc_write_all :: "(nat \<times> capacity_poll) list \<Rightarrow> bytes \<Rightarrow> bytes list \<times> bytes" where
  "grpc_write_all [] data = ([], data)"
| "grpc_write_all ((capacity, polled) # cs) data =
     (if data = [] then ([], [])
      else case grpc_poll_write capacity polled data of
             Written n frame \<Rightarrow> (case grpc_write_all cs (drop n data) of (fs, rest) \<Rightarrow> (frame # fs, rest))
           | WritePending \<Rightarrow> grpc_write_all cs data
           | WriteErr e \<Rightarrow> ([], data))"


section \<open>Lemmas\<close>

declare encode_varint.simps [simp del] hunk_at.simps [simp del] grpc_drain.simps [simp del] grpc_poll_read.simps [simp del]

text \<open>The encoder of the sources is the reference encoding.\<close>

lemma varint_continue: "(ucast (v :: u64) AND 0x7F) OR 0x80 = (of_nat (unat v mod 128 + 128) :: u8)"
proof -
  have m: "unat v mod 128 = take_bit 7 (unat v)" "(128 :: nat) = push_bit 7 1" by (simp_all add: take_bit_eq_mod)
  have "take_bit 7 (unat v) AND push_bit 7 1 = (0 :: nat)"
    by (rule bit_eqI) (simp only: bit_and_iff bit_take_bit_iff bit_push_bit_iff, auto)
  then have "take_bit 7 (unat v) + push_bit 7 1 = (take_bit 7 (unat v)) OR push_bit 7 1" by (rule disjunctive_add_eq_or)
  then have add: "unat v mod 128 + 128 = (unat v mod 128) OR 128" by (simp only: m [symmetric])
  have w: "(0x7F :: u8) = mask 7" "(0x80 :: u8) = push_bit 7 1" by (simp_all add: mask_eq_exp_minus_1)
  show ?thesis
  proof (rule bit_word_eqI)
    fix i assume "i < LENGTH(8)"
    then show "bit ((ucast v AND 0x7F) OR 0x80 :: u8) i = bit (of_nat (unat v mod 128 + 128) :: u8) i"
      unfolding add unfolding m(1) unfolding m(2) w
      by (simp only: bit_or_iff bit_and_iff bit_ucast_iff bit_mask_iff bit_word_of_nat bit_take_bit_iff bit_push_bit_iff)
        (auto simp: bit_1_iff bit_unsigned_iff bit_0)
  qed
qed

lemma encode_varint_eq: "encode_varint v = varint_bytes (unat v)"
proof (induction v rule: encode_varint.induct)
  case (1 v)
  have le: "0x80 \<le> v \<longleftrightarrow> \<not> unat v < 128" by (auto simp: word_le_nat_alt)
  have shift: "unat (drop_bit 7 v) = unat v div 128" unfolding unat_drop_bit_eq by (simp add: drop_bit_eq_div)
  show ?case
    using 1 by (subst encode_varint.simps, subst varint_bytes.simps) (simp add: le shift varint_continue)
qed

lemma grpc_varint_from_encoded:
  "n < 2 ^ (64 - shift) \<Longrightarrow> shift < 64 \<Longrightarrow>
   grpc_varint_from v shift i (varint_bytes n @ r) = Some (v OR push_bit shift (of_nat n), i + length (varint_bytes n))"
proof (induction n arbitrary: v shift i rule: varint_bytes.induct)
  case (1 n)
  show ?case
  proof (cases "n < 128")
    case True
    then show ?thesis using varint_one [OF True] by (simp add: varint_bytes.simps [of n])
  next
    case False
    note s = varint_next_shift [OF 1(2) False]
    show ?thesis
      using 1(1) [OF False s(2), of "v OR push_bit shift (of_nat (n mod 128))" "i + 1"] False s varint_high [of n] varint_low [of n]
        varint_parts [of shift n]
      by (simp add: varint_bytes.simps [of n] Let_def or.assoc)
  qed
qed

lemma length_varint_bytes: "length (varint_bytes n) \<le> n + 1"
proof (induction n rule: varint_bytes.induct)
  case (1 n)
  show ?case
  proof (cases "n < 128")
    case False
    then have "length (varint_bytes (n div 128)) + 1 \<le> n + 1" using 1 [OF False] by linarith
    then show ?thesis using False by (subst varint_bytes.simps) simp
  qed (simp add: varint_bytes.simps [of n])
qed

lemma decode_hunk:
  assumes "length d < 2 ^ 32"
  shows "decode_protobuf_hunk (0x0a # varint_bytes (length d) @ d) = Ok (Some d)"
proof -
  let ?b = "0x0a # varint_bytes (length d) @ d"
  have v: "grpc_read_varint (varint_bytes (length d) @ d) = Some (of_nat (length d), length (varint_bytes (length d)))"
    unfolding grpc_read_varint_def using assms by (subst grpc_varint_from_encoded) simp_all
  have u: "unat (of_nat (length d) :: u64) = length d" using assms by (simp add: unat_of_nat)
  have "length ?b < 2 ^ 64" using assms length_varint_bytes [of "length d"] by simp
  then show ?thesis
    using v u by (simp add: decode_protobuf_hunk_def hunk_at.simps [of _ 0] Let_def slice_def)
qed


text \<open>One message, with anything behind it.\<close>

lemma grpc_frame_eq:
  "grpc_frame d = 0 # be32_bytes (of_nat (length (0x0a # varint_bytes (unat (of_nat (length d) :: u64)) @ d))) @
     (0x0a # varint_bytes (unat (of_nat (length d) :: u64)) @ d)"
  by (simp add: grpc_frame_def Let_def encode_varint_eq)

lemma be32_of_bytes: "be32 (be32_bytes w ! 0) (be32_bytes w ! 1) (be32_bytes w ! 2) (be32_bytes w ! 3) = w"
  by (simp add: be32_bytes_def)

lemma grpc_drain_frame:
  assumes "length d < 2 ^ 30"
  shows "grpc_drain (grpc_frame d @ rest) out = grpc_drain rest (out @ d)"
proof -
  let ?pb = "0x0a # varint_bytes (length d) @ d"
  have u: "unat (of_nat (length d) :: u64) = length d" using assms by (simp add: unat_of_nat)
  have l: "length ?pb < 2 ^ 32" using assms length_varint_bytes [of "length d"] by simp
  then have n: "unat (of_nat (length ?pb) :: u32) = length ?pb" by (simp only: unat_of_nat) simp
  define raw where "raw = grpc_frame d @ rest"
  have raw: "raw = 0 # be32_bytes (of_nat (length ?pb)) @ ?pb @ rest" by (simp only: raw_def grpc_frame_eq u) simp
  have idx: "raw ! 1 = be32_bytes (of_nat (length ?pb)) ! 0" "raw ! 2 = be32_bytes (of_nat (length ?pb)) ! 1"
    "raw ! 3 = be32_bytes (of_nat (length ?pb)) ! 2" "raw ! 4 = be32_bytes (of_nat (length ?pb)) ! 3"
    unfolding raw by (simp_all add: be32_bytes_def)
  have len: "unat (be32 (raw ! 1) (raw ! 2) (raw ! 3) (raw ! 4)) = length ?pb"
    unfolding idx be32_of_bytes by (rule n)
  have d5: "drop 5 raw = ?pb @ rest" "length raw = 5 + length ?pb + length rest"
    unfolding raw by (simp_all add: be32_bytes_def)
  have "drop (5 + length ?pb) raw = drop (length ?pb) (drop 5 raw)" by (simp only: drop_drop add.commute)
  then have dr: "drop (5 + length ?pb) raw = rest" unfolding d5(1) by simp
  have tk: "take (length ?pb) (?pb @ rest) = ?pb" by simp
  have "grpc_drain raw out = and_then (decode_protobuf_hunk ?pb) (\<lambda>payload.
      grpc_drain rest (out @ (case payload of Some p \<Rightarrow> p | None \<Rightarrow> ?pb)))"
    by (subst grpc_drain.simps) (simp only: len Let_def dr d5 tk, simp)
  also have "\<dots> = grpc_drain rest (out @ d)" using assms by (simp add: decode_hunk)
  finally show ?thesis unfolding raw_def .
qed


text \<open>What is still to be delivered: \<open>grpc_delivers st bs\<close> holds if the raw bytes and the chunks to come are messages with the
  payloads \<open>ds\<close>, and \<open>bs\<close> is what is buffered and then these payloads.\<close>

definition grpc_delivers :: "grpc_stream \<Rightarrow> bytes \<Rightarrow> bool" where
  "grpc_delivers st bs \<longleftrightarrow>
     (\<exists>ds. list_all (\<lambda>d. length d < 2 ^ 30) ds \<and> raw_recv_buf st @ concat (recv_chunks st) = concat (map grpc_frame ds) \<and>
        (ds = [] \<or> length (raw_recv_buf st) < length (grpc_frame (hd ds))) \<and> bs = read_buf st @ concat ds)"

lemma length_grpc_frame:
  assumes "length d < 2 ^ 30"
  shows "length (grpc_frame d) = 6 + length (varint_bytes (length d)) + length d"
  using assms by (simp add: grpc_frame_eq unat_of_nat be32_bytes_def)

lemma grpc_frame_short:
  assumes "length d < 2 ^ 30" "raw @ x = grpc_frame d @ rest" "length raw < length (grpc_frame d)"
  shows "grpc_drain raw out = Ok (raw, out)"
proof (cases "length raw \<ge> 5")
  case False
  then show ?thesis by (subst grpc_drain.simps) simp
next
  case True
  let ?pb = "0x0a # varint_bytes (length d) @ d"
  have u: "unat (of_nat (length d) :: u64) = length d" using assms(1) by (simp add: unat_of_nat)
  have l: "length ?pb < 2 ^ 32" using assms(1) length_varint_bytes [of "length d"] by simp
  have n: "unat (of_nat (length ?pb) :: u32) = length ?pb" using l by (simp only: unat_of_nat) simp
  have f: "grpc_frame d @ rest = 0 # be32_bytes (of_nat (length ?pb)) @ ?pb @ rest" by (simp only: grpc_frame_eq u) simp
  have nth: "raw ! i = (grpc_frame d @ rest) ! i" if "i < 5" for i
    using nth_of_append_eq [OF assms(2)] that True by simp
  have "unat (be32 (raw ! 1) (raw ! 2) (raw ! 3) (raw ! 4)) = length ?pb"
    using n nth [of 1] nth [of 2] nth [of 3] nth [of 4] be32_of_bytes [of "of_nat (length ?pb)"]
    unfolding f by (simp add: be32_bytes_def)
  moreover have "length raw < 5 + length ?pb" using assms(3) length_grpc_frame [OF assms(1)] by simp
  ultimately show ?thesis using True by (subst grpc_drain.simps) (simp add: Let_def)
qed

lemma grpc_drain_frames:
  "list_all (\<lambda>d. length d < 2 ^ 30) ds \<Longrightarrow> raw @ rest = concat (map grpc_frame ds) \<Longrightarrow>
   \<exists>es fs raw'. ds = es @ fs \<and> grpc_drain raw out = Ok (raw', out @ concat es) \<and> raw' @ rest = concat (map grpc_frame fs) \<and>
     (fs = [] \<or> length raw' < length (grpc_frame (hd fs)))"
proof (induction ds arbitrary: raw out)
  case Nil
  then show ?case by (subst grpc_drain.simps) auto
next
  case (Cons d ds)
  show ?case
  proof (cases "length raw < length (grpc_frame d)")
    case True
    then have "grpc_drain raw out = Ok (raw, out)"
      using grpc_frame_short [of d raw rest "concat (map grpc_frame ds)"] Cons.prems by simp
    then show ?thesis using Cons.prems(2) True by (intro exI [of _ "[]"] exI [of _ "d # ds"] exI [of _ raw]) auto
  next
    case False
    then obtain raw' where raw': "raw = grpc_frame d @ raw'" "raw' @ rest = concat (map grpc_frame ds)"
      using append_eq_longer [of raw rest "grpc_frame d" "concat (map grpc_frame ds)"] Cons.prems(2) by (metis concat.simps(2) list.map(2) not_less)
    then obtain es fs r where "ds = es @ fs" "grpc_drain raw' (out @ d) = Ok (r, (out @ d) @ concat es)" "r @ rest = concat (map grpc_frame fs)"
      "fs = [] \<or> length r < length (grpc_frame (hd fs))"
      using Cons.IH [of raw' "out @ d"] Cons.prems(1) by auto
    then show ?thesis using raw'(1) Cons.prems(1)
      by (intro exI [of _ "d # es"] exI [of _ fs] exI [of _ r]) (simp add: grpc_drain_frame)
  qed
qed


lemma grpc_poll_read_delivers:
  "grpc_delivers st bs \<Longrightarrow> 0 < k \<Longrightarrow>
   \<exists>c st' bs'. grpc_poll_read k st = Ok (c, st') \<and> bs = c @ bs' \<and> grpc_delivers st' bs' \<and> (bs \<noteq> [] \<longrightarrow> c \<noteq> [])"
proof (induction k st rule: grpc_poll_read.induct)
  case (1 k st)
  obtain ds where ds: "list_all (\<lambda>d. length d < 2 ^ 30) ds" "raw_recv_buf st @ concat (recv_chunks st) = concat (map grpc_frame ds)"
    "ds = [] \<or> length (raw_recv_buf st) < length (grpc_frame (hd ds))" "bs = read_buf st @ concat ds"
    using 1(2) by (auto simp: grpc_delivers_def)
  show ?case
  proof (cases "read_buf st = []")
    case False
    let ?n = "min k (length (read_buf st))"
    have "grpc_delivers (st\<lparr>read_buf := drop ?n (read_buf st)\<rparr>) (drop ?n (read_buf st) @ concat ds)"
      using ds by (auto simp: grpc_delivers_def)
    moreover have "read_buf st @ concat ds = take ?n (read_buf st) @ drop ?n (read_buf st) @ concat ds"
      by (metis append_assoc append_take_drop_id)
    moreover have "grpc_poll_read k st = Ok (take ?n (read_buf st), st\<lparr>read_buf := drop ?n (read_buf st)\<rparr>)"
      using False 1(3) by (subst grpc_poll_read.simps) (simp add: Let_def)
    moreover have "take ?n (read_buf st) \<noteq> []" using False 1(3) by simp
    ultimately show ?thesis unfolding ds(4) by blast
  next
    case True
    show ?thesis
    proof (cases "recv_chunks st")
      case Nil
      then have "ds = []" using ds(2,3) by (cases ds) auto
      then show ?thesis using True Nil 1(2,3) ds(4) by (subst grpc_poll_read.simps) simp
    next
      case (Cons chunk chunks)
      obtain es fs raw where d: "ds = es @ fs" "grpc_drain (raw_recv_buf st @ chunk) [] = Ok (raw, concat es)"
        "raw @ concat chunks = concat (map grpc_frame fs)" "fs = [] \<or> length raw < length (grpc_frame (hd fs))"
        using grpc_drain_frames [OF ds(1), of "raw_recv_buf st @ chunk" "concat chunks" "[]"] ds(2) Cons by auto
      have "grpc_delivers \<lparr>recv_chunks = chunks, read_buf = concat es, raw_recv_buf = raw\<rparr> bs"
        using ds(1,4) d(1,3,4) True by (auto simp: grpc_delivers_def)
      then have "\<exists>c st' bs'. grpc_poll_read k \<lparr>recv_chunks = chunks, read_buf = concat es, raw_recv_buf = raw\<rparr> = Ok (c, st') \<and>
          bs = c @ bs' \<and> grpc_delivers st' bs' \<and> (bs \<noteq> [] \<longrightarrow> c \<noteq> [])"
        using 1(1) [OF _ _ Cons _ refl] 1(3) True d(2) by simp
      then show ?thesis using True Cons 1(3) d(2) by (subst grpc_poll_read.simps) simp
    qed
  qed
qed


lemma grpc_reads_delivers:
  "grpc_delivers st bs \<Longrightarrow> list_all (\<lambda>k. 0 < k) ks \<Longrightarrow> length bs \<le> length ks \<Longrightarrow> \<exists>st'. grpc_reads ks st = Ok (bs, st')"
proof (induction ks arbitrary: st bs)
  case (Cons k ks)
  then obtain c st' bs' where c: "grpc_poll_read k st = Ok (c, st')" "bs = c @ bs'" "grpc_delivers st' bs'" "bs \<noteq> [] \<longrightarrow> c \<noteq> []"
    using grpc_poll_read_delivers [of st bs k] by auto
  have "length bs' \<le> length ks" using Cons.prems(3) c(2,4) by (cases c) auto
  then show ?case using Cons.IH [OF c(3)] Cons.prems(2) c by auto
qed simp

text \<open>A capacity that lets a write through at once.\<close>

fun usable :: "nat \<times> capacity_poll \<Rightarrow> nat" where
  "usable (capacity, polled) = (if capacity \<le> 16 then (case polled of CapReady n \<Rightarrow> n | _ \<Rightarrow> 0) else capacity)"

lemma grpc_poll_write_usable:
  assumes "16 < usable (capacity, polled)" "data \<noteq> []"
  shows "grpc_poll_write capacity polled data = send_within (usable (capacity, polled)) data"
  using assms by (auto simp: grpc_poll_write_def split: capacity_poll.splits)

lemma length_varint_small: "n \<le> 16384 \<Longrightarrow> length (varint_bytes n) \<le> 3"
  by (simp add: varint_bytes.simps [of n] varint_bytes.simps [of "n div 128"] varint_bytes.simps [of "n div 128 div 128"])

lemma send_within_usable:
  assumes "16 < avail" "data \<noteq> []"
  obtains n where "send_within avail data = Written n (grpc_frame (take n data))" "0 < n" "n \<le> 16384"
    "length (grpc_frame (take n data)) \<le> avail"
proof -
  define n where "n = min (min (avail - 16) (length data)) 16384"
  have n: "0 < n" "n \<le> 16384" "n \<le> length data" "n + 16 \<le> avail" using assms by (auto simp: n_def)
  then have "send_within avail data = Written n (grpc_frame (take n data))"
    using assms(1) by (simp add: send_within_def Let_def n_def [symmetric])
  moreover have "length (grpc_frame (take n data)) \<le> avail"
    using length_grpc_frame [of "take n data"] length_varint_small [of n] n by simp
  ultimately show ?thesis using that n(1,2) by blast
qed

lemma grpc_write_all_frames:
  "list_all (\<lambda>c. 16 < usable c) cs \<Longrightarrow> length data \<le> length cs \<Longrightarrow>
   \<exists>ds. grpc_write_all cs data = (map grpc_frame ds, []) \<and> concat ds = data \<and> list_all (\<lambda>d. length d < 2 ^ 30) ds \<and>
     length ds \<le> length cs \<and> (\<forall>i < length ds. length (grpc_frame (ds ! i)) \<le> usable (cs ! i))"
proof (induction cs arbitrary: data)
  case Nil
  then show ?case by (intro exI [of _ "[]"]) simp
next
  case (Cons c cs)
  obtain capacity polled where c: "c = (capacity, polled)" by (cases c)
  show ?case
  proof (cases "data = []")
    case True
    then show ?thesis using c by (intro exI [of _ "[]"]) simp
  next
    case False
    have "16 < usable (capacity, polled)" using Cons.prems(1) c by (simp del: usable.simps)
    with False obtain n where n: "grpc_poll_write capacity polled data = Written n (grpc_frame (take n data))" "0 < n" "n \<le> 16384"
      "length (grpc_frame (take n data)) \<le> usable c"
      using send_within_usable [of "usable c" data] grpc_poll_write_usable [of capacity polled data] c by metis
    have "length (drop n data) \<le> length cs" using Cons.prems(2) n(2) False by (cases data) auto
    then obtain ds where ds: "grpc_write_all cs (drop n data) = (map grpc_frame ds, [])" "concat ds = drop n data"
      "list_all (\<lambda>d. length d < 2 ^ 30) ds" "length ds \<le> length cs" "\<forall>i < length ds. length (grpc_frame (ds ! i)) \<le> usable (cs ! i)"
      using Cons.IH [of "drop n data"] Cons.prems(1) by auto
    have "length (take n data) < 2 ^ 30" using n(3) by simp
    then show ?thesis
      using ds n False c
      by (intro exI [of _ "take n data # ds"]) (auto simp: nth_Cons less_Suc_eq_0_disj split: nat.split)
  qed
qed

section \<open>Properties\<close>

text \<open>C11: the gRPC transport carries a byte stream. Writing data while the flow control offers capacity sends all of it in
  messages that fit into the capacity offered for each; and however HTTP/2 cuts these messages into data frames, reading with
  buffers of any sizes delivers exactly the data.\<close>

theorem grpc_roundtrip:
  assumes "list_all (\<lambda>c. 16 < usable c) cs" and "length data \<le> length cs" and "list_all (\<lambda>k. 0 < k) ks" and "length data \<le> length ks"
  shows "\<exists>fs. grpc_write_all cs data = (fs, []) \<and> (\<forall>i < length fs. length (fs ! i) \<le> usable (cs ! i)) \<and>
     (\<forall>chunks. concat chunks = concat fs \<longrightarrow> (\<exists>st. grpc_reads ks (grpc_new chunks) = Ok (data, st)))"
proof -
  obtain ds where ds: "grpc_write_all cs data = (map grpc_frame ds, [])" "concat ds = data" "list_all (\<lambda>d. length d < 2 ^ 30) ds"
    "\<forall>i < length ds. length (grpc_frame (ds ! i)) \<le> usable (cs ! i)"
    using grpc_write_all_frames [OF assms(1,2)] by blast
  have "0 < length (grpc_frame d)" for d by (simp add: grpc_frame_eq)
  then have "grpc_delivers (grpc_new chunks) data" if "concat chunks = concat (map grpc_frame ds)" for chunks
    unfolding grpc_delivers_def grpc_new_def using that ds(2,3) by (intro exI [of _ ds]) simp
  then have "\<exists>st. grpc_reads ks (grpc_new chunks) = Ok (data, st)" if "concat chunks = concat (map grpc_frame ds)" for chunks
    using grpc_reads_delivers assms(3,4) that by blast
  then show ?thesis using ds(1,4) by (intro exI [of _ "map grpc_frame ds"]) simp
qed

theorem grpc_roundtrip_witness:
  "\<exists>fs. grpc_write_all [(18, CapPending), (0, CapReady 100), (40, CapErr)] [1, 2, 3] = (fs, []) \<and>
     (\<exists>st. grpc_reads [2, 2, 2] (grpc_new fs) = Ok ([1, 2, 3], st))"
proof -
  obtain fs where "grpc_write_all [(18, CapPending), (0, CapReady 100), (40, CapErr)] [1, 2, 3] = (fs, [])"
    "\<forall>chunks. concat chunks = concat fs \<longrightarrow> (\<exists>st. grpc_reads [2, 2, 2] (grpc_new chunks) = Ok ([1, 2, 3], st))"
    using grpc_roundtrip [of "[(18, CapPending), (0, CapReady 100), (40, CapErr)]" "[1, 2, 3]" "[2, 2, 2]"]
    by (auto simp del: grpc_write_all.simps grpc_reads.simps)
  then show ?thesis by blast
qed

text \<open>C15: a peer can make the reader panic. A message with one length-delimited field whose length is \<open>2^64 - 1\<close> passes the bound
  check, because the end of the field is computed modulo \<open>2^64\<close>, and the slice that follows starts behind its end.\<close>

theorem grpc_read_panics:
  "grpc_poll_read 1 (grpc_new [[0, 0, 0, 0, 11, 0x0a, 0xff, 0xff, 0xff, 0xff, 0xff, 0xff, 0xff, 0xff, 0xff, 0x01]]) = Panic"
proof -
  let ?m = "[0x0a, 0xff, 0xff, 0xff, 0xff, 0xff, 0xff, 0xff, 0xff, 0xff, 0x01] :: bytes"
  have "grpc_read_varint (drop 1 ?m) = Some (- 1, 10)"
    by (simp add: grpc_read_varint_def)
  then have "hunk_at ?m 0 = Panic"
    by (subst hunk_at.simps) (simp add: Let_def unsigned_minus_1_eq_mask mask_eq_exp_minus_1 slice_def)
  then have "decode_protobuf_hunk ?m = Panic" by (simp add: decode_protobuf_hunk_def)
  then have "grpc_drain ([0, 0, 0, 0, 11] @ ?m) [] = Panic"
    by (subst grpc_drain.simps) (simp add: Let_def be32_def)
  then show ?thesis
    by (subst grpc_poll_read.simps) (simp add: grpc_new_def)
qed

end
