(* ===== verification/Tuic_Packet.thy ===== *)
theory Tuic_Packet
  imports Stream_Parser Rust_Net
begin

text \<open>
  \<^verbatim>\<open>src/protocol/tuic/v5.rs\<close>, the packets: the addresses, the reassembly of fragmented packets and the datagrams that carry an
  answer. A QUIC stream or datagram is the bytes it carries. Instants are nanoseconds. The hash map of the unfinished packets is an association list.
\<close>

section \<open>Addresses\<close>

definition TUIC_V5_VERSION :: u8 where "TUIC_V5_VERSION = 0x05"
definition CMD_AUTHENTICATE :: u8 where "CMD_AUTHENTICATE = 0x00"
definition CMD_CONNECT :: u8 where "CMD_CONNECT = 0x01"
definition CMD_PACKET :: u8 where "CMD_PACKET = 0x02"
definition CMD_DISSOCIATE :: u8 where "CMD_DISSOCIATE = 0x03"
definition CMD_HEARTBEAT :: u8 where "CMD_HEARTBEAT = 0x04"

lemmas tuic_consts = TUIC_V5_VERSION_def CMD_AUTHENTICATE_def CMD_CONNECT_def CMD_PACKET_def CMD_DISSOCIATE_def CMD_HEARTBEAT_def

datatype relay_mode = Native | Quic

datatype v5_address = V5None | V5Domain string u16 | V5IPv4 u32 u16 | V5IPv6 u128 u16

definition v5_read_from :: "bytes \<Rightarrow> (v5_address \<times> bytes) res" where
  "v5_read_from s =
     and_then (read_u8 s) (\<lambda>(atyp, s).
       if atyp = 0xff then Ok (V5None, s)
       else if atyp = 0x00 then
         and_then (read_u8 s) (\<lambda>(len, s). and_then (read_exact (unat len) s) (\<lambda>(buf, s).
         and_then (read_u16 s) (\<lambda>(port, s). Ok (V5Domain (from_utf8_lossy buf) port, s))))
       else if atyp = 0x01 then
         and_then (read_exact 4 s) (\<lambda>(buf, s). and_then (read_u16 s) (\<lambda>(port, s). Ok (V5IPv4 (be_word buf) port, s)))
       else if atyp = 0x02 then
         and_then (read_exact 16 s) (\<lambda>(buf, s). and_then (read_u16 s) (\<lambda>(port, s). Ok (V5IPv6 (be_word buf) port, s)))
       else Err InvalidData)"

text \<open>The cursor version makes the same reads on a slice.\<close>

definition v5_read_from_cursor :: "bytes \<Rightarrow> (v5_address \<times> bytes) res" where
  "v5_read_from_cursor s = v5_read_from s"

fun v5_write_to :: "v5_address \<Rightarrow> bytes" where
  "v5_write_to V5None = [0xff]"
| "v5_write_to (V5Domain host port) = [0x00, of_nat (length host)] @ str_bytes host @ be16_bytes port"
| "v5_write_to (V5IPv4 ip port) = [0x01] @ octets 4 ip @ be16_bytes port"
| "v5_write_to (V5IPv6 ip port) = [0x02] @ octets 16 ip @ be16_bytes port"

fun v5_from_socket_addr :: "socket_addr \<Rightarrow> v5_address" where
  "v5_from_socket_addr (SocketAddr (V4 ip) port) = V5IPv4 ip port"
| "v5_from_socket_addr (SocketAddr (V6 ip) port) = V5IPv6 ip port"

fun v5_host :: "v5_address \<Rightarrow> string" where
  "v5_host V5None = []"
| "v5_host (V5Domain h _) = h"
| "v5_host (V5IPv4 ip _) = ip_string (V4 ip)"
| "v5_host (V5IPv6 ip _) = ip_string (V6 ip)"

fun v5_ip :: "v5_address \<Rightarrow> ip_addr option" where
  "v5_ip V5None = None"
| "v5_ip (V5Domain _ _) = None"
| "v5_ip (V5IPv4 ip _) = Some (V4 ip)"
| "v5_ip (V5IPv6 ip _) = Some (V6 ip)"

fun v5_port :: "v5_address \<Rightarrow> u16" where
  "v5_port V5None = 0"
| "v5_port (V5Domain _ p) = p"
| "v5_port (V5IPv4 _ p) = p"
| "v5_port (V5IPv6 _ p) = p"

section \<open>Reassembly\<close>

record defrag_entry =
  fragments :: "bytes option list"
  received_count :: nat
  total_count :: nat
  deadline :: nat
  de_addr :: "v5_address option"
  total_bytes :: nat

record defragmenter =
  entries :: "((u16 \<times> u16) \<times> defrag_entry) list"
  total_memory :: nat

definition MAX_DEFRAG_ENTRIES :: nat where "MAX_DEFRAG_ENTRIES = 512"
definition MAX_DEFRAG_MEMORY :: nat where "MAX_DEFRAG_MEMORY = 16 * 1024 * 1024"

definition defragmenter_new :: defragmenter where
  "defragmenter_new = \<lparr>entries = [], total_memory = 0\<rparr>"

text \<open>Expired entries go, with their memory.\<close>

definition prune_entries :: "nat \<Rightarrow> defragmenter \<Rightarrow> defragmenter" where
  "prune_entries now d =
     \<lparr>entries = filter (\<lambda>(k, v). now < deadline v) (entries d),
      total_memory = foldl (\<lambda>m (k, v). m - total_bytes v) (total_memory d) (filter (\<lambda>(k, v). deadline v \<le> now) (entries d))\<rparr>"

definition entry_new :: "nat \<Rightarrow> nat \<Rightarrow> defrag_entry" where
  "entry_new now tot =
     \<lparr>fragments = replicate tot None, received_count = 0, total_count = tot, deadline = now + 10 * 1000000000, de_addr = None, total_bytes = 0\<rparr>"

text \<open>A fragment enters its entry; the result is the number of bytes it adds.\<close>

definition add_fragment :: "nat \<Rightarrow> v5_address \<Rightarrow> bytes \<Rightarrow> defrag_entry \<Rightarrow> (nat \<times> defrag_entry) res" where
  "add_fragment index addr payload e =
     (let e = (if index = 0 \<and> de_addr e = None then e\<lparr>de_addr := Some addr\<rparr> else e)
      in and_then (byte_at (fragments e) index) (\<lambda>f.
           if f = None
           then Ok (length payload, e\<lparr>fragments := (fragments e)[index := Some payload], received_count := received_count e + 1,
                                      total_bytes := total_bytes e + length payload\<rparr>)
           else Ok (0, e)))"

definition assemble :: "defrag_entry \<Rightarrow> v5_address \<times> bytes" where
  "assemble e =
     ((case de_addr e of Some a \<Rightarrow> a | None \<Rightarrow> V5None),
      concat (map (\<lambda>f. case f of Some data \<Rightarrow> data | None \<Rightarrow> []) (fragments e)))"

text \<open>The entry of the packet, a new one if the map has none, takes the fragment and leaves the map when it is complete.\<close>

definition the_entry :: "nat \<Rightarrow> nat \<Rightarrow> u16 \<times> u16 \<Rightarrow> defragmenter \<Rightarrow> defrag_entry" where
  "the_entry now n key d = (case map_of (entries d) key of Some e \<Rightarrow> e | None \<Rightarrow> entry_new now n)"

definition place_fragment ::
    "nat \<Rightarrow> u16 \<times> u16 \<Rightarrow> nat \<Rightarrow> nat \<Rightarrow> v5_address \<Rightarrow> bytes \<Rightarrow> defragmenter \<Rightarrow> (v5_address \<times> bytes) option res \<times> defragmenter" where
  "place_fragment now key n index addr payload d =
     (if total_count (the_entry now n key d) \<noteq> n then (Ok None, d)
      else case add_fragment index addr payload (the_entry now n key d) of
             Ok (added, e) \<Rightarrow>
               (let mem = total_memory d + added
                in if received_count e = total_count e
                   then (Ok (Some (assemble e)), \<lparr>entries = al_del key (entries d), total_memory = mem - total_bytes e\<rparr>)
                   else (Ok None, \<lparr>entries = al_put key e (entries d), total_memory = mem\<rparr>))
           | Err x \<Rightarrow> (Err x, d)
           | Panic \<Rightarrow> (Panic, d))"

definition defrag_insert ::
    "nat \<Rightarrow> u16 \<Rightarrow> u16 \<Rightarrow> u8 \<Rightarrow> u8 \<Rightarrow> v5_address \<Rightarrow> bytes \<Rightarrow> defragmenter \<Rightarrow> (v5_address \<times> bytes) option res \<times> defragmenter" where
  "defrag_insert now assoc_id pkt_id frag_total frag_id addr payload d =
     (let n = unat frag_total; index = unat frag_id; key = (assoc_id, pkt_id)
      in if n = 0 \<or> index \<ge> n then (Ok None, d)
         else if n = 1 then (Ok (Some (addr, payload)), d)
         else if total_memory d + length payload > MAX_DEFRAG_MEMORY then (Ok None, d)
         else let d = prune_entries now d
              in if length (entries d) \<ge> MAX_DEFRAG_ENTRIES \<and> map_of (entries d) key = None then (Ok None, d)
                 else place_fragment now key n index addr payload d)"

section \<open>Sending\<close>

text \<open>A packet or a fragment of one.\<close>

definition packet_bytes :: "u16 \<Rightarrow> u16 \<Rightarrow> u8 \<Rightarrow> u8 \<Rightarrow> v5_address \<Rightarrow> bytes \<Rightarrow> bytes" where
  "packet_bytes assoc_id pkt_id frag_total frag_id addr data =
     [TUIC_V5_VERSION, CMD_PACKET] @ be16_bytes assoc_id @ be16_bytes pkt_id @ [frag_total, frag_id] @ be16_bytes (of_nat (length data)) @ v5_write_to addr @ data"

definition native_datagrams :: "u16 \<Rightarrow> u16 \<Rightarrow> v5_address \<Rightarrow> bytes \<Rightarrow> bytes list" where
  "native_datagrams assoc_id pkt_id addr data =
     (let max_packet_size = 1200 - 3; header_overhead = 10 + length (v5_write_to addr)
      in if length data + header_overhead \<le> max_packet_size then [packet_bytes assoc_id pkt_id 1 0 addr data]
         else let mtu = max_packet_size - header_overhead
              in if mtu = 0 then []
                 else let chunks = chunks_of mtu data
                      in map (\<lambda>(i, chunk). packet_bytes assoc_id pkt_id (of_nat (length chunks)) (of_nat i) (if i = 0 then addr else V5None) chunk)
                           (enumerate 0 chunks))"

definition quic_packet :: "u16 \<Rightarrow> u16 \<Rightarrow> v5_address \<Rightarrow> bytes \<Rightarrow> bytes" where
  "quic_packet assoc_id pkt_id addr data = packet_bytes assoc_id pkt_id 1 0 addr data"

section \<open>The address codec\<close>

text \<open>An address that can be sent: the length of a name fits its octet and the name is UTF-8, as every Rust string is.\<close>

fun v5_addr_ok :: "v5_address \<Rightarrow> bool" where
  "v5_addr_ok (V5Domain host port) \<longleftrightarrow> length host < 256 \<and> utf8_valid (str_bytes host)"
| "v5_addr_ok _ \<longleftrightarrow> True"

lemma v5_read_write: "v5_addr_ok a \<Longrightarrow> v5_read_from (v5_write_to a @ r) = Ok (a, r)"
  by (cases a) (simp_all add: v5_read_from_def be_word_octets unat_of_nat_u8 take_bit_word_eq_self)

lemma length_v5_write_to: "v5_addr_ok a \<Longrightarrow> length (v5_write_to a) \<le> 259"
  by (cases a) simp_all

lemma v5_read_from_streaming: "streaming v5_read_from"
  unfolding v5_read_from_def by (intro streaming_intros)

section \<open>The memory of the defragmenter\<close>

definition frag_len :: "bytes option \<Rightarrow> nat" where
  "frag_len f = (case f of Some data \<Rightarrow> length data | None \<Rightarrow> 0)"

definition entry_ok :: "defrag_entry \<Rightarrow> bool" where
  "entry_ok e \<longleftrightarrow>
     length (fragments e) = total_count e \<and> received_count e = length (filter (\<lambda>f. f \<noteq> None) (fragments e)) \<and>
     total_bytes e = sum_list (map frag_len (fragments e)) \<and> received_count e < total_count e"

definition mem_of :: "((u16 \<times> u16) \<times> defrag_entry) list \<Rightarrow> nat" where
  "mem_of es = sum_list (map (\<lambda>(k, e). total_bytes e) es)"

definition defrag_ok :: "defragmenter \<Rightarrow> bool" where
  "defrag_ok d \<longleftrightarrow>
     al_ok (entries d) \<and> (\<forall>e \<in> snd ` set (entries d). entry_ok e) \<and> total_memory d = mem_of (entries d) \<and>
     total_memory d \<le> MAX_DEFRAG_MEMORY \<and> length (entries d) \<le> MAX_DEFRAG_ENTRIES"

lemma defrag_ok_new: "defrag_ok defragmenter_new"
  by (simp add: defrag_ok_def defragmenter_new_def mem_of_def)

lemma foldl_release: "foldl (\<lambda>m (k, v). m - total_bytes v) m es = m - mem_of es"
  by (induction es arbitrary: m) (auto simp: mem_of_def)

lemma mem_of_filter: "mem_of (filter P es) + mem_of (filter (\<lambda>x. \<not> P x) es) = mem_of es"
  by (induction es) (auto simp: mem_of_def)

lemma prune_memory: "total_memory d = mem_of (entries d) \<Longrightarrow> total_memory (prune_entries now d) = mem_of (entries (prune_entries now d))"
  using mem_of_filter [of "\<lambda>(k, v). now < deadline v" "entries d"]
  by (simp add: prune_entries_def foldl_release) (simp add: case_prod_unfold not_less)

lemma prune_memory_le: "total_memory (prune_entries now d) \<le> total_memory d"
  by (simp add: prune_entries_def foldl_release)

lemma prune_length_le: "length (entries (prune_entries now d)) \<le> length (entries d)"
  by (simp add: prune_entries_def)

lemma prune_al_ok: "al_ok (entries d) \<Longrightarrow> al_ok (entries (prune_entries now d))"
  by (simp add: prune_entries_def)

lemma map_of_prune_entries:
  "al_ok (entries d) \<Longrightarrow>
   map_of (entries (prune_entries now d)) k =
   (case map_of (entries d) k of Some e \<Rightarrow> if now < deadline e then Some e else None | None \<Rightarrow> None)"
  by (simp add: prune_entries_def map_of_filter cong: option.case_cong)

lemma prune_defrag_ok:
  assumes "defrag_ok d"
  shows "defrag_ok (prune_entries now d)"
  using assms prune_memory [of d now] prune_memory_le [of now d] prune_length_le [of now d] prune_al_ok [of d now]
  by (auto simp: defrag_ok_def) (auto simp: prune_entries_def)

lemma mem_of_al_del: "al_ok es \<Longrightarrow> map_of es k = Some e \<Longrightarrow> mem_of (al_del k es) + total_bytes e = mem_of es"
proof (induction es)
  case (Cons p es)
  show ?case
  proof (cases "fst p = k")
    case True
    then have "al_del k es = es" using Cons.prems unfolding al_del_def by (intro filter_neq_id) (auto simp: al_ok_def)
    then show ?thesis using True Cons.prems by (cases p) (simp add: al_del_def mem_of_def)
  next
    case False
    then show ?thesis using Cons by (cases p) (auto simp: al_del_def mem_of_def al_ok_def)
  qed
qed simp

lemma mem_of_al_del_None: "map_of es k = None \<Longrightarrow> al_del k es = es"
  unfolding al_del_def by (intro filter_neq_id) (auto simp: map_of_eq_None_iff)

lemma mem_of_al_put: "mem_of (al_put k e es) = total_bytes e + mem_of (al_del k es)"
  by (simp add: al_put_def al_del_def mem_of_def)

lemma entry_new_fresh: "0 < n \<Longrightarrow> entry_ok (entry_new now n) \<and> total_bytes (entry_new now n) = 0 \<and> total_count (entry_new now n) = n"
  by (simp add: entry_ok_def entry_new_def frag_len_def sum_list_replicate)

lemma sum_frag_len_update:
  "i < length fs \<Longrightarrow> fs ! i = None \<Longrightarrow> sum_list (map frag_len (fs[i := Some p])) = sum_list (map frag_len fs) + length p"
  by (induction fs arbitrary: i) (auto simp: frag_len_def nth_Cons split: nat.splits)

lemma filter_some_update:
  "i < length fs \<Longrightarrow> fs ! i = None \<Longrightarrow> length (filter (\<lambda>f. f \<noteq> None) (fs[i := Some p])) = Suc (length (filter (\<lambda>f. f \<noteq> None) fs))"
  by (induction fs arbitrary: i) (auto simp: nth_Cons split: nat.splits)

lemma add_fragment_empty:
  "i < length (fragments e) \<Longrightarrow> fragments e ! i = None \<Longrightarrow>
   add_fragment i addr p e =
   Ok (length p, e\<lparr>fragments := (fragments e)[i := Some p], received_count := received_count e + 1, total_bytes := total_bytes e + length p,
                   de_addr := (if i = 0 \<and> de_addr e = None then Some addr else de_addr e)\<rparr>)"
  by (auto simp: add_fragment_def byte_at_def Let_def)

lemma add_fragment_filled:
  "i < length (fragments e) \<Longrightarrow> fragments e ! i = Some q \<Longrightarrow>
   add_fragment i addr p e = Ok (0, e\<lparr>de_addr := (if i = 0 \<and> de_addr e = None then Some addr else de_addr e)\<rparr>)"
  by (auto simp: add_fragment_def byte_at_def Let_def)

text \<open>What one fragment does to its entry, complete or not.\<close>

lemma add_fragment_entry:
  assumes e: "entry_ok e" and i: "i < total_count e"
  obtains added e' where "add_fragment i addr p e = Ok (added, e')" and "added \<le> length p"
    and "total_bytes e' = total_bytes e + added" and "total_count e' = total_count e"
    and "received_count e' = total_count e' \<or> entry_ok e'"
proof (cases "fragments e ! i")
  case None
  then show ?thesis
    using that [OF add_fragment_empty] e i less_le [of "Suc (received_count e)" "total_count e"]
    by (auto simp: entry_ok_def sum_frag_len_update filter_some_update Suc_le_eq simp del: not_None_eq)
next
  case (Some q)
  then show ?thesis
    using that [OF add_fragment_filled] e i by (auto simp: entry_ok_def)
qed

lemma the_entry_ok: "defrag_ok d \<Longrightarrow> 0 < n \<Longrightarrow> entry_ok (the_entry now n key d)"
  using entry_new_fresh [of n now] by (force simp: the_entry_def defrag_ok_def split: option.split dest: map_of_SomeD)

lemma the_entry_mem:
  "defrag_ok d \<Longrightarrow> 0 < n \<Longrightarrow> mem_of (al_del key (entries d)) + total_bytes (the_entry now n key d) = total_memory d"
  using entry_new_fresh [of n now]
  by (auto simp: the_entry_def defrag_ok_def mem_of_al_del mem_of_al_del_None split: option.split)

lemma place_fragment_ok:
  assumes d: "defrag_ok d" and i: "i < n" and room: "total_memory d + length payload \<le> MAX_DEFRAG_MEMORY"
    and free: "length (entries d) < MAX_DEFRAG_ENTRIES \<or> map_of (entries d) k \<noteq> None"
  shows "\<exists>r d'. place_fragment now k n i addr payload d = (Ok r, d') \<and> defrag_ok d'"
proof (cases "total_count (the_entry now n k d) = n")
  case False
  then show ?thesis using d by (simp add: place_fragment_def)
next
  case True
  let ?e = "the_entry now n k d"
  have n: "0 < n" using i by simp
  obtain added e where f: "add_fragment i addr payload ?e = Ok (added, e)" "added \<le> length payload"
    "total_bytes e = total_bytes ?e + added" "received_count e = total_count e \<or> entry_ok e"
    using add_fragment_entry [OF the_entry_ok [OF d n]] True i by metis
  have m: "mem_of (al_del k (entries d)) + total_bytes e = total_memory d + added"
    using the_entry_mem [OF d n, of k now] f(3) by simp
  have ok: "al_ok (entries d)" "\<forall>e \<in> snd ` set (entries d). entry_ok e" "length (entries d) \<le> MAX_DEFRAG_ENTRIES"
    using d by (simp_all add: defrag_ok_def)
  show ?thesis
  proof (cases "received_count e = total_count e")
    case full: True
    have "defrag_ok \<lparr>entries = al_del k (entries d), total_memory = total_memory d + added - total_bytes e\<rparr>"
      using m ok room f(2) le_trans [OF length_filter_le ok(3)] by (auto simp: defrag_ok_def al_del_def)
    then show ?thesis using True f(1) full by (simp add: place_fragment_def Let_def)
  next
    case False
    have "defrag_ok \<lparr>entries = al_put k e (entries d), total_memory = total_memory d + added\<rparr>"
      using m ok room free f(2,4) False length_al_put [OF ok(1), of k e]
      by (auto simp: defrag_ok_def mem_of_al_put) (auto simp: al_put_def)
    then show ?thesis using True f(1) False by (simp add: place_fragment_def Let_def)
  qed
qed

lemma defrag_insert_ok:
  assumes d: "defrag_ok d"
  shows "\<exists>r d'. defrag_insert now a p ft fi addr payload d = (Ok r, d') \<and> defrag_ok d'"
  using d prune_defrag_ok [OF d, of now] prune_memory_le [of now d]
    place_fragment_ok [OF prune_defrag_ok [OF d, of now], of "unat fi" "unat ft" payload "(a, p)" now addr]
  by (auto simp: defrag_insert_def Let_def not_less)

section \<open>Reassembly\<close>

text \<open>The state of a packet of which the fragments \<open>S\<close> have arrived, the first of them no earlier than ten seconds before \<open>T\<close>:
  there is room for the others.\<close>

definition part_entry :: "bytes list \<Rightarrow> v5_address \<Rightarrow> nat set \<Rightarrow> defrag_entry \<Rightarrow> bool" where
  "part_entry cs addr S e \<longleftrightarrow>
     fragments e = map (\<lambda>i. if i \<in> S then Some (cs ! i) else None) [0..<length cs] \<and> received_count e = card S \<and>
     total_count e = length cs \<and> de_addr e = (if 0 \<in> S then Some addr else None)"

definition arrived :: "bytes list \<Rightarrow> v5_address \<Rightarrow> u16 \<times> u16 \<Rightarrow> nat \<Rightarrow> nat set \<Rightarrow> defragmenter \<Rightarrow> bool" where
  "arrived cs addr key T S d \<longleftrightarrow>
     al_ok (entries d) \<and> S \<subseteq> {..<length cs} \<and> total_memory d + (\<Sum>i \<in> {..<length cs} - S. length (cs ! i)) \<le> MAX_DEFRAG_MEMORY \<and>
     (if S = {} then map_of (entries d) key = None \<and> length (entries d) < MAX_DEFRAG_ENTRIES
      else \<exists>e. map_of (entries d) key = Some e \<and> T \<le> deadline e \<and> part_entry cs addr S e)"

lemma part_entry_new: "part_entry cs addr {} (entry_new now (length cs))"
  by (simp add: part_entry_def entry_new_def map_replicate_const)

lemma add_fragment_part:
  assumes e: "part_entry cs addr S e" and i: "i < length cs" "i \<notin> S" and S: "S \<subseteq> {..<length cs}"
  obtains e' where "add_fragment i (if i = 0 then addr else V5None) (cs ! i) e = Ok (length (cs ! i), e')"
    and "part_entry cs addr (insert i S) e'" and "deadline e' = deadline e" and "total_bytes e' = total_bytes e + length (cs ! i)"
proof -
  have f: "i < length (fragments e)" "fragments e ! i = None" "finite S"
    using e i S finite_subset by (auto simp: part_entry_def)
  have "(fragments e)[i := Some (cs ! i)] = map (\<lambda>j. if j \<in> insert i S then Some (cs ! j) else None) [0..<length cs]"
    using e i by (intro nth_equalityI) (auto simp: part_entry_def nth_list_update)
  then show ?thesis
    using that [OF add_fragment_empty [OF f(1,2)]] e i f(3) by (auto simp: part_entry_def)
qed

lemma assemble_full:
  assumes "part_entry cs addr {..<length cs} e" and "cs \<noteq> []"
  shows "assemble e = (addr, concat cs)"
proof -
  have "map (\<lambda>f. case f of Some data \<Rightarrow> data | None \<Rightarrow> []) (fragments e) = cs"
    using assms(1) by (intro nth_equalityI) (auto simp: part_entry_def)
  then show ?thesis using assms by (simp add: part_entry_def assemble_def)
qed

text \<open>One more fragment: the packet is delivered with the last of them.\<close>

lemma defrag_insert_part:
  assumes p: "arrived cs addr (a, p) T S d" and i: "i < length cs" "i \<notin> S" and n: "1 < length cs" "length cs < 256"
    and t: "now < T" "T \<le> now + 10 * 1000000000"
  shows "\<exists>d'. defrag_insert now a p (of_nat (length cs)) (of_nat i) (if i = 0 then addr else V5None) (cs ! i) d =
           (Ok (if insert i S = {..<length cs} then Some (addr, concat cs) else None), d') \<and>
           (insert i S \<noteq> {..<length cs} \<longrightarrow> arrived cs addr (a, p) T (insert i S) d')"
proof -
  let ?n = "length cs" and ?d = "prune_entries now d" and ?k = "(a, p)"
  have ok: "al_ok (entries d)" "al_ok (entries ?d)" and S: "S \<subseteq> {..<?n}" using p by (auto simp: arrived_def prune_al_ok)
  have rest: "{..<?n} - S = insert i ({..<?n} - insert i S)" using i by auto
  have sum: "(\<Sum>j \<in> {..<?n} - S. length (cs ! j)) = length (cs ! i) + (\<Sum>j \<in> {..<?n} - insert i S. length (cs ! j))"
    by (subst rest, subst sum.insert) auto
  have mem: "total_memory ?d + length (cs ! i) + (\<Sum>j \<in> {..<?n} - insert i S. length (cs ! j)) \<le> MAX_DEFRAG_MEMORY"
    "total_memory d + length (cs ! i) \<le> MAX_DEFRAG_MEMORY"
    using p prune_memory_le [of now d] sum by (auto simp: arrived_def)
  have free: "length (entries ?d) < MAX_DEFRAG_ENTRIES \<or> map_of (entries ?d) ?k \<noteq> None"
    using p t(1) prune_length_le [of now d] by (auto simp: arrived_def map_of_prune_entries [OF ok(1)] split: if_splits)
  have e: "part_entry cs addr S (the_entry now ?n ?k ?d)" "T \<le> deadline (the_entry now ?n ?k ?d)"
    using p t part_entry_new [of cs addr now]
    by (auto simp: arrived_def the_entry_def map_of_prune_entries [OF ok(1)] entry_new_def split: if_splits)
  obtain e' where e': "add_fragment i (if i = 0 then addr else V5None) (cs ! i) (the_entry now ?n ?k ?d) = Ok (length (cs ! i), e')"
    "part_entry cs addr (insert i S) e'" "deadline e' = deadline (the_entry now ?n ?k ?d)"
    using add_fragment_part [OF e(1) i S] by metis
  have full: "received_count e' = total_count e' \<longleftrightarrow> insert i S = {..<?n}"
    using e'(2) card_subset_eq [of "{..<?n}" "insert i S"] i(1) S by (auto simp: part_entry_def)
  have ins: "defrag_insert now a p (of_nat ?n) (of_nat i) (if i = 0 then addr else V5None) (cs ! i) d =
      place_fragment now ?k ?n i (if i = 0 then addr else V5None) (cs ! i) ?d"
    using i(1) n mem(2) free by (auto simp: defrag_insert_def Let_def unat_of_nat_u8)
  have tc: "total_count (the_entry now ?n ?k ?d) = ?n" using e(1) by (simp add: part_entry_def)
  show ?thesis
  proof (cases "insert i S = {..<?n}")
    case True
    have "part_entry cs addr {..<?n} e'" using e'(2) unfolding True .
    then have "assemble e' = (addr, concat cs)" using n(1) by (intro assemble_full) auto
    then show ?thesis using True full e'(1) unfolding ins place_fragment_def tc by (simp add: Let_def)
  next
    case False
    have "arrived cs addr ?k T (insert i S) \<lparr>entries = al_put ?k e' (entries ?d), total_memory = total_memory ?d + length (cs ! i)\<rparr>"
      using mem(1) ok(2) i(1) S e(2) e'(2,3) by (simp add: arrived_def)
    then show ?thesis using False full e'(1) unfolding ins place_fragment_def tc by (simp add: Let_def)
  qed
qed

section \<open>Properties\<close>

text \<open>A sequence of insertions into an empty defragmenter.\<close>

fun defrag_run :: "(nat \<times> u16 \<times> u16 \<times> u8 \<times> u8 \<times> v5_address \<times> bytes) list \<Rightarrow> defragmenter \<Rightarrow> defragmenter" where
  "defrag_run [] d = d"
| "defrag_run ((now, a, p, ft, fi, addr, payload) # calls) d = defrag_run calls (snd (defrag_insert now a p ft fi addr payload d))"

lemma defrag_run_ok: "defrag_ok d \<Longrightarrow> defrag_ok (defrag_run calls d)"
proof (induction calls d rule: defrag_run.induct)
  case (2 now a p ft fi addr payload calls d)
  then show ?case using defrag_insert_ok [OF "2.prems", of now a p ft fi addr payload] by (auto simp del: split_paired_Ex)
qed simp

text \<open>C27: However a client numbers, repeats, reorders or abandons fragments, the defragmenter holds at most 512 unfinished packets and 16 MiB; its
  memory counter is exactly the number of bytes held, so the bound is not lost by rounding; and an insertion never indexes out of range, whatever
  the fragment total and the fragment index say.\<close>

theorem defragmenter_bounded:
  "let d = defrag_run calls defragmenter_new
   in length (entries d) \<le> 512 \<and> total_memory d \<le> 16 * 1024 * 1024 \<and>
      total_memory d = (\<Sum>(k, e) \<leftarrow> entries d. length (concat (map (\<lambda>f. case f of Some data \<Rightarrow> data | None \<Rightarrow> []) (fragments e)))) \<and>
      (\<exists>r d'. defrag_insert now a p ft fi addr payload d = (Ok r, d'))"
proof -
  let ?d = "defrag_run calls defragmenter_new"
  have d: "defrag_ok ?d" by (simp add: defrag_run_ok defrag_ok_new)
  have "length (concat (map (\<lambda>f. case f of Some data \<Rightarrow> data | None \<Rightarrow> []) fs)) = sum_list (map frag_len fs)" for fs :: "bytes option list"
    by (induction fs) (auto simp: frag_len_def split: option.split)
  then have "mem_of (entries ?d) = (\<Sum>(k, e) \<leftarrow> entries ?d. length (concat (map (\<lambda>f. case f of Some data \<Rightarrow> data | None \<Rightarrow> []) (fragments e))))"
    using d unfolding mem_of_def by (intro arg_cong [where f = sum_list] map_cong) (force simp: defrag_ok_def entry_ok_def)+
  then show ?thesis
    using d defrag_insert_ok [OF d, of now a p ft fi addr payload]
    by (auto simp: Let_def defrag_ok_def MAX_DEFRAG_ENTRIES_def MAX_DEFRAG_MEMORY_def simp del: split_paired_Ex)
qed

text \<open>The bound on the memory is tested before expired entries are dropped: when abandoned fragments fill it, a fragment that does not fit is refused at every
  later instant, however long ago the others expired.\<close>

lemma defrag_full_never_pruned:
  "1 < unat ft \<Longrightarrow> MAX_DEFRAG_MEMORY < total_memory d + length payload \<Longrightarrow> defrag_insert now a p ft fi addr payload d = (Ok None, d)"
  by (simp add: defrag_insert_def Let_def)

section \<open>The datagrams of an answer\<close>

lemma length_packet_bytes: "length (packet_bytes a p ft fi addr data) = 10 + length (v5_write_to addr) + length data"
  by (simp add: packet_bytes_def)

definition fragment_mtu :: "v5_address \<Rightarrow> nat" where
  "fragment_mtu addr = 1187 - length (v5_write_to addr)"

definition fragment :: "u16 \<Rightarrow> u16 \<Rightarrow> v5_address \<Rightarrow> bytes list \<Rightarrow> nat \<Rightarrow> bytes" where
  "fragment a p addr cs i = packet_bytes a p (of_nat (length cs)) (of_nat i) (if i = 0 then addr else V5None) (cs ! i)"

lemma native_datagrams_cases:
  assumes "v5_addr_ok addr"
  shows "native_datagrams a p addr data =
    (if length data \<le> fragment_mtu addr then [packet_bytes a p 1 0 addr data]
     else map (fragment a p addr (chunks_of (fragment_mtu addr) data)) [0..<length (chunks_of (fragment_mtu addr) data)])"
proof -
  have frags: "map (\<lambda>(i, c). packet_bytes a p (of_nat (length cs)) (of_nat i) (if i = 0 then addr else V5None) c) (enumerate 0 cs) =
      map (fragment a p addr cs) [0..<length cs]" for cs
    by (intro nth_equalityI) (auto simp: nth_enumerate_eq fragment_def)
  show ?thesis
    using length_v5_write_to [OF assms] unfolding native_datagrams_def frags Let_def by (auto simp: fragment_mtu_def)
qed

lemma fragment_chunks:
  assumes addr: "v5_addr_ok addr" and data: "length data < 65536" "fragment_mtu addr < length data"
  shows "1 < length (chunks_of (fragment_mtu addr) data)" and "length (chunks_of (fragment_mtu addr) data) < 256"
    and "c \<in> set (chunks_of (fragment_mtu addr) data) \<Longrightarrow> length c \<le> fragment_mtu addr"
proof -
  let ?m = "fragment_mtu addr" let ?cs = "chunks_of ?m data"
  have m: "928 \<le> ?m" using length_v5_write_to [OF addr] by (simp add: fragment_mtu_def)
  show b: "length c \<le> ?m" if "c \<in> set ?cs" for c using chunks_of_bounds [OF that] by simp
  have "length data = sum_list (map length ?cs)" using m concat_chunks_of [of ?m data] by (metis length_concat less_le_trans zero_less_numeral)
  also have "\<dots> \<le> length ?cs * ?m" using b sum_list_mono [of ?cs length "\<lambda>_. ?m"] by (simp add: sum_list_triv)
  finally show "1 < length ?cs" using data(2) by (cases "length ?cs"; cases "length ?cs - 1") auto
  have "length ?cs * 928 \<le> length ?cs * ?m" using m by simp
  also have "\<dots> < length data + ?m" using m by (intro length_chunks_of) simp
  also have "\<dots> < 65536 + 1187" using data(1) by (simp add: fragment_mtu_def)
  finally show "length ?cs < 256" by simp
qed

text \<open>Every datagram fits the 1197 bytes a QUIC packet leaves for it, and their number fits the octet that carries it.\<close>

lemma native_datagrams_fit:
  assumes addr: "v5_addr_ok addr" and data: "length data < 65536"
  shows "length (native_datagrams a p addr data) < 256" and "d \<in> set (native_datagrams a p addr data) \<Longrightarrow> length d \<le> 1197"
proof -
  have h: "length (v5_write_to addr) \<le> 259" "1 \<le> length (v5_write_to addr)"
    using length_v5_write_to [OF addr] by (auto) (cases addr; simp)
  show "length (native_datagrams a p addr data) < 256"
    using fragment_chunks(2) [OF addr data] by (auto simp: native_datagrams_cases [OF addr])
  have "length (fragment a p addr cs i) \<le> 1197" if "length (cs ! i) \<le> fragment_mtu addr" for cs i
    using that h by (auto simp: fragment_def length_packet_bytes fragment_mtu_def)
  then show "length d \<le> 1197" if "d \<in> set (native_datagrams a p addr data)"
    using that h fragment_chunks(3) [OF addr data]
    by (auto simp: native_datagrams_cases [OF addr] length_packet_bytes fragment_mtu_def split: if_splits)
qed

end
