(* ===== verification/List_Perm.thy ===== *)
theory List_Perm
  imports Main "HOL-Library.Multiset"
begin

text \<open>Lists with the same elements: the fragments of a packet in the order in which they arrive.\<close>

lemma mset_map_permutation: "mset ds = mset (map f xs) \<Longrightarrow> \<exists>ys. mset ys = mset xs \<and> ds = map f ys"
proof (induction ds arbitrary: xs)
  case (Cons d ds)
  have "d \<in> set (map f xs)" by (metis Cons.prems list.set_intros(1) set_mset_mset)
  then obtain x where x: "x \<in> set xs" "d = f x" by auto
  then have "mset (map f xs) = add_mset d (mset (map f (remove1 x xs)))"
    using insert_DiffM [of x "mset xs"] by (metis image_mset_add_mset mset_map mset_remove1 set_mset_mset)
  then have "mset ds = mset (map f (remove1 x xs))" using Cons.prems by simp
  then obtain ys where ys: "mset ys = mset (remove1 x xs)" "ds = map f ys" using Cons.IH by blast
  have "add_mset x (mset (remove1 x xs)) = mset xs" using x(1) by (simp add: mset_remove1 insert_DiffM)
  then have "mset (x # ys) = mset xs" unfolding mset.simps ys(1) .
  moreover have "d # ds = map f (x # ys)" unfolding x(2) ys(2) by simp
  ultimately show ?case by (intro exI [of _ "x # ys"] conjI)
qed simp

end
