(* ===== verification/Tuic_V5.thy ===== *)
theory Tuic_V5
  imports Tuic_Packet Device_Limiter Attack_Defense Security_Audit List_Perm
begin

text \<open>
  \<^verbatim>\<open>src/protocol/tuic/v5.rs\<close>, the session: authentication, the commands of the streams and datagrams, and the packets that reach an
  association. The token that the TLS session exports is an argument. A handler that waits for the authentication is taken at the moment the wait is
  over, so it sees whether the session is authenticated then.
\<close>

section \<open>The session\<close>

record v5_assoc =
  as_queue :: "(v5_address \<times> bytes \<times> relay_mode) list"
  as_closed :: bool

record v5_session =
  closed_code :: "u32 option"
  auth_ok :: bool
  authenticated_user :: "u32 option"
  associations :: "(u16 \<times> v5_assoc) list"
  defrag :: defragmenter
  v5_defense :: attack_defense_manager
  devices :: device_limiter

record v5_env =
  v5_users :: "bytes \<rightharpoonup> u32 \<times> bytes"
  export_token :: "bytes \<Rightarrow> bytes \<Rightarrow> bytes option"
  client_ip :: ip_addr

definition v5_session_new :: "attack_defense_manager \<Rightarrow> device_limiter \<Rightarrow> v5_session" where
  "v5_session_new d dl =
     \<lparr>closed_code = None, auth_ok = False, authenticated_user = None, associations = [], defrag = defragmenter_new, v5_defense = d, devices = dl\<rparr>"

fun xor_fold :: "u8 \<Rightarrow> bytes \<Rightarrow> bytes \<Rightarrow> u8" where
  "xor_fold r (x # xs) (y # ys) = xor_fold (r OR (x XOR y)) xs ys"
| "xor_fold r _ _ = r"

definition constant_time_eq :: "bytes \<Rightarrow> bytes \<Rightarrow> bool" where
  "constant_time_eq a b \<longleftrightarrow> length a = length b \<and> xor_fold 0 a b = 0"

definition close :: "u32 \<Rightarrow> v5_session \<Rightarrow> v5_session" where
  "close code st = st\<lparr>closed_code := (case closed_code st of None \<Rightarrow> Some code | Some c \<Rightarrow> Some c)\<rparr>"

definition on_authenticate :: "v5_env \<Rightarrow> nat \<Rightarrow> redis_answer \<Rightarrow> bytes \<Rightarrow> v5_session \<Rightarrow> v5_session" where
  "on_authenticate e now answer auth_body st =
     (let uuid_bytes = take 16 auth_body; client_token = drop 16 auth_body
      in case v5_users e uuid_bytes of
           Some (user, password) \<Rightarrow>
             (if (case export_token e uuid_bytes password of Some expected \<Rightarrow> constant_time_eq expected client_token | None \<Rightarrow> False)
              then let st = st\<lparr>v5_defense := record_success (client_ip e) (v5_defense st)\<rparr>;
                       (dl, allowed) = check_and_record_async answer user (client_ip e) now (devices st)
                   in if \<not> allowed then close 0x101 (st\<lparr>devices := dl\<rparr>)
                      else st\<lparr>devices := dl, authenticated_user := Some user, auth_ok := True\<rparr>
              else close 0x101 (st\<lparr>v5_defense := record_failure now (client_ip e) (v5_defense st)\<rparr>))
         | None \<Rightarrow> close 0x101 (st\<lparr>v5_defense := record_failure now (client_ip e) (v5_defense st)\<rparr>))"

text \<open>A closed channel is replaced; the send waits for room, so nothing is dropped.\<close>

definition route_udp_packet :: "u16 \<Rightarrow> v5_address \<Rightarrow> bytes \<Rightarrow> relay_mode \<Rightarrow> v5_session \<Rightarrow> v5_session" where
  "route_udp_packet assoc_id addr payload mode st =
     (case authenticated_user st of
        None \<Rightarrow> st
      | Some user \<Rightarrow>
          (let a = (case map_of (associations st) assoc_id of
                      Some a \<Rightarrow> if as_closed a then \<lparr>as_queue = [], as_closed = False\<rparr> else a
                    | None \<Rightarrow> \<lparr>as_queue = [], as_closed = False\<rparr>)
           in st\<lparr>associations := al_put assoc_id (a\<lparr>as_queue := as_queue a @ [(addr, payload, mode)]\<rparr>) (associations st)\<rparr>))"

definition on_fragment :: "nat \<Rightarrow> u16 \<Rightarrow> u16 \<Rightarrow> u8 \<Rightarrow> u8 \<Rightarrow> v5_address \<Rightarrow> bytes \<Rightarrow> relay_mode \<Rightarrow> v5_session \<Rightarrow> v5_session res" where
  "on_fragment now assoc_id pkt_id frag_total frag_id addr data mode st =
     (case defrag_insert now assoc_id pkt_id frag_total frag_id addr data (defrag st) of
        (Ok (Some (a, assembled)), d) \<Rightarrow> Ok (route_udp_packet assoc_id a assembled mode (st\<lparr>defrag := d\<rparr>))
      | (Ok None, d) \<Rightarrow> Ok (st\<lparr>defrag := d\<rparr>)
      | (Err x, d) \<Rightarrow> Err x
      | (Panic, d) \<Rightarrow> Panic)"

text \<open>A handler that returns early leaves the session as it is.\<close>

definition handle_uni_stream :: "v5_env \<Rightarrow> nat \<Rightarrow> redis_answer \<Rightarrow> bytes \<Rightarrow> v5_session \<Rightarrow> v5_session res" where
  "handle_uni_stream e now answer recv st =
     (case read_exact 2 recv of
        Ok (hdr, recv) \<Rightarrow>
          (if hdr ! 0 \<noteq> TUIC_V5_VERSION then Ok (close 0x100 st)
           else if hdr ! 1 = CMD_AUTHENTICATE
           then (case read_exact 48 recv of Ok (body, recv) \<Rightarrow> Ok (on_authenticate e now answer body st) | _ \<Rightarrow> Ok st)
           else if hdr ! 1 = CMD_PACKET
           then (if \<not> auth_ok st then Ok st
                 else case read_exact 8 recv of
                        Ok (h, recv) \<Rightarrow>
                          (case v5_read_from recv of
                             Ok (addr, recv) \<Rightarrow>
                               (case read_exact (unat (be16 (h ! 6) (h ! 7))) recv of
                                  Ok (data, recv) \<Rightarrow> on_fragment now (be16 (h ! 0) (h ! 1)) (be16 (h ! 2) (h ! 3)) (h ! 4) (h ! 5) addr data Quic st
                                | _ \<Rightarrow> Ok st)
                           | _ \<Rightarrow> Ok st)
                      | _ \<Rightarrow> Ok st)
           else if hdr ! 1 = CMD_DISSOCIATE
           then (if \<not> auth_ok st then Ok st
                 else case read_u16 recv of Ok (assoc_id, recv) \<Rightarrow> Ok (st\<lparr>associations := al_del assoc_id (associations st)\<rparr>) | _ \<Rightarrow> Ok st)
           else if hdr ! 1 = CMD_HEARTBEAT then Ok st
           else Ok (close 0x102 st))
      | _ \<Rightarrow> Ok st)"

definition handle_datagram :: "nat \<Rightarrow> bytes \<Rightarrow> v5_session \<Rightarrow> v5_session res" where
  "handle_datagram now data st =
     (if length data < 2 then Ok st
      else and_then (byte_at data 0) (\<lambda>ver. and_then (byte_at data 1) (\<lambda>cmd.
           if ver \<noteq> TUIC_V5_VERSION \<or> cmd \<noteq> CMD_PACKET \<or> \<not> auth_ok st \<or> length data < 10 then Ok st
           else and_then (be16_at data 2) (\<lambda>assoc_id. and_then (be16_at data 4) (\<lambda>pkt_id.
                and_then (byte_at data 6) (\<lambda>frag_total. and_then (byte_at data 7) (\<lambda>frag_id. and_then (be16_at data 8) (\<lambda>size.
                and_then (slice data 10 (length data)) (\<lambda>body.
                  case v5_read_from_cursor body of
                    Ok (addr, rest) \<Rightarrow>
                      (let payload_start = 10 + (length body - length rest)
                       in if length data < payload_start + unat size then Ok st
                          else and_then (slice data payload_start (payload_start + unat size)) (\<lambda>payload.
                               on_fragment now assoc_id pkt_id frag_total frag_id addr payload Native st))
                  | _ \<Rightarrow> Ok st)))))))))"

datatype bidi_result = Finished | Dial u32 v5_address

text \<open>Up to the dialling: \<open>acquired\<close> is whether the user's connection limit admits the connection.\<close>

definition handle_bidi_stream ::
    "('n, 're) route_env \<Rightarrow> ('n, 're) audit_controller \<Rightarrow> (u32 \<Rightarrow> bool) \<Rightarrow> bytes \<Rightarrow> v5_session \<Rightarrow> bidi_result" where
  "handle_bidi_stream env audit acquired recv st =
     (case and_then (read_exact 2 recv) (\<lambda>(hdr, recv). map_res (\<lambda>(addr, recv). (hdr, addr)) (v5_read_from recv)) of
        Ok (hdr, addr) \<Rightarrow>
          (if hdr ! 0 \<noteq> TUIC_V5_VERSION \<or> hdr ! 1 \<noteq> CMD_CONNECT \<or> \<not> auth_ok st then Finished
           else case authenticated_user st of
                  None \<Rightarrow> Finished
                | Some user \<Rightarrow>
                    (if \<not> acquired user \<or> should_block env audit (v5_host addr) (v5_ip addr) (v5_port addr) then Finished
                     else Dial user addr))
      | _ \<Rightarrow> Finished)"

text \<open>The timer of the authentication, the end of an association's task (its receiver is dropped, then its entry removed if it is still the
  closed one), and the session as a sequence of such events.\<close>

definition auth_timeout :: "v5_session \<Rightarrow> v5_session" where
  "auth_timeout st = (if auth_ok st then st else close 0x101 st)"

definition association_closed :: "u16 \<Rightarrow> v5_session \<Rightarrow> v5_session" where
  "association_closed a st =
     (case map_of (associations st) a of Some x \<Rightarrow> st\<lparr>associations := al_put a (x\<lparr>as_closed := True\<rparr>) (associations st)\<rparr> | None \<Rightarrow> st)"

definition association_removed :: "u16 \<Rightarrow> v5_session \<Rightarrow> v5_session" where
  "association_removed a st =
     (case map_of (associations st) a of
        Some x \<Rightarrow> if as_closed x then st\<lparr>associations := al_del a (associations st)\<rparr> else st
      | None \<Rightarrow> st)"

datatype v5_event =
    UniStream nat redis_answer bytes
  | Datagram nat bytes
  | AuthTimeout
  | AssocClosed u16
  | AssocRemoved u16

fun v5_step :: "v5_env \<Rightarrow> v5_event \<Rightarrow> v5_session \<Rightarrow> v5_session res" where
  "v5_step e (UniStream now answer recv) st = handle_uni_stream e now answer recv st"
| "v5_step e (Datagram now data) st = handle_datagram now data st"
| "v5_step e AuthTimeout st = Ok (auth_timeout st)"
| "v5_step e (AssocClosed a) st = Ok (association_closed a st)"
| "v5_step e (AssocRemoved a) st = Ok (association_removed a st)"

fun v5_run :: "v5_env \<Rightarrow> v5_event list \<Rightarrow> v5_session \<Rightarrow> v5_session res" where
  "v5_run e [] st = Ok st"
| "v5_run e (ev # evs) st = and_then (v5_step e ev st) (v5_run e evs)"

section \<open>Authentication\<close>

lemma xor_fold_zero: "length a = length b \<Longrightarrow> xor_fold r a b = 0 \<longleftrightarrow> r = 0 \<and> a = b"
proof (induction r a b rule: xor_fold.induct)
  case (1 r x xs y ys)
  have "r OR (x XOR y) = 0 \<longleftrightarrow> r = 0 \<and> x = y"
    by (auto simp: bit_eq_iff bit_simps)
  then show ?case using 1 by auto
qed auto

lemma constant_time_eq_iff: "constant_time_eq a b \<longleftrightarrow> a = b"
  by (auto simp: constant_time_eq_def xor_fold_zero)

text \<open>The client proved in one of the commands that it knows the password of the user: the body of the command is the identifier and the token that
  this TLS session exports for both.\<close>

definition proved :: "v5_env \<Rightarrow> v5_event list \<Rightarrow> u32 \<Rightarrow> bool" where
  "proved e evs u \<longleftrightarrow>
     (\<exists>now answer uuid token r password.
        UniStream now answer ([TUIC_V5_VERSION, CMD_AUTHENTICATE] @ uuid @ token @ r) \<in> set evs \<and> length uuid = 16 \<and> length token = 32 \<and>
        v5_users e uuid = Some (u, password) \<and> export_token e uuid password = Some token)"

lemma provedI:
  "UniStream now answer ([TUIC_V5_VERSION, CMD_AUTHENTICATE] @ uuid @ token @ r) \<in> set evs \<Longrightarrow> length uuid = 16 \<Longrightarrow> length token = 32 \<Longrightarrow>
   v5_users e uuid = Some (u, password) \<Longrightarrow> export_token e uuid password = Some token \<Longrightarrow> proved e evs u"
  unfolding proved_def by blast

definition session_ok :: "v5_env \<Rightarrow> v5_event list \<Rightarrow> v5_session \<Rightarrow> bool" where
  "session_ok e evs st \<longleftrightarrow>
     defrag_ok (defrag st) \<and> (case authenticated_user st of None \<Rightarrow> \<not> auth_ok st \<and> associations st = [] | Some u \<Rightarrow> auth_ok st \<and> proved e evs u)"

lemma session_ok_new: "session_ok e evs (v5_session_new d dl)"
  by (simp add: session_ok_def v5_session_new_def defrag_ok_new)

lemma session_ok_more: "session_ok e evs st \<Longrightarrow> set evs \<subseteq> set evs' \<Longrightarrow> session_ok e evs' st"
  unfolding session_ok_def proved_def by (auto split: option.splits) blast

lemma session_ok_upd [simp]:
  "session_ok e evs (st\<lparr>v5_defense := x\<rparr>) = session_ok e evs st"
  "session_ok e evs (st\<lparr>devices := y\<rparr>) = session_ok e evs st"
  "session_ok e evs (close c st) = session_ok e evs st"
  by (simp_all add: session_ok_def close_def split: option.split)

lemma session_ok_authenticate:
  assumes ok: "session_ok e evs st" and ev: "UniStream now answer ([TUIC_V5_VERSION, CMD_AUTHENTICATE] @ body @ r) \<in> set evs" and len: "length body = 48"
  shows "session_ok e evs (on_authenticate e now answer body st)"
proof (cases "\<exists>u password. v5_users e (take 16 body) = Some (u, password) \<and> export_token e (take 16 body) password = Some (drop 16 body)")
  case True
  then obtain u password where u: "v5_users e (take 16 body) = Some (u, password)" "export_token e (take 16 body) password = Some (drop 16 body)"
    by blast
  have "[TUIC_V5_VERSION, CMD_AUTHENTICATE] @ body @ r = [TUIC_V5_VERSION, CMD_AUTHENTICATE] @ take 16 body @ drop 16 body @ r"
    by (simp flip: append_assoc)
  then have "proved e evs u" using provedI [of now answer "take 16 body" "drop 16 body" r evs e u password] ev u len by (simp flip: append_assoc)
  then show ?thesis
    using ok u by (auto simp: on_authenticate_def constant_time_eq_iff Let_def split: prod.split) (simp_all add: session_ok_def)
next
  case False
  then show ?thesis
    using ok by (auto simp: on_authenticate_def constant_time_eq_iff Let_def split: option.split)
qed

lemma session_ok_route:
  "session_ok e evs st \<Longrightarrow> session_ok e evs (route_udp_packet a addr data mode st)"
  by (auto simp: route_udp_packet_def session_ok_def Let_def split: option.splits)

lemma session_ok_fragment:
  assumes ok: "session_ok e evs st"
  shows "\<exists>st'. on_fragment now a p ft fi addr data mode st = Ok st' \<and> session_ok e evs st'"
proof -
  obtain r d where d: "defrag_insert now a p ft fi addr data (defrag st) = (Ok r, d)" "defrag_ok d"
    using defrag_insert_ok [of "defrag st"] ok unfolding session_ok_def by blast
  have "session_ok e evs (st\<lparr>defrag := d\<rparr>)" using ok d(2) by (auto simp: session_ok_def split: option.splits)
  then show ?thesis using d by (cases r) (auto simp: on_fragment_def session_ok_route)
qed

lemma session_ok_datagram:
  assumes ok: "session_ok e evs st"
  shows "\<exists>st'. handle_datagram now data st = Ok st' \<and> session_ok e evs st'"
proof (cases "length data < 10")
  case True
  then show ?thesis using ok by (auto simp: handle_datagram_def byte_at_def)
next
  case False
  have len: "10 \<le> length data" "data \<noteq> []" using False by auto
  have "handle_datagram now data st = Ok st \<or> (\<exists>a p ft fi addr payload. handle_datagram now data st = on_fragment now a p ft fi addr payload Native st)"
  proof (cases "v5_read_from_cursor (drop 10 data)")
    case (Ok x)
    obtain addr rest where x: "x = (addr, rest)" by (cases x)
    let ?s = "10 + (length (drop 10 data) - length rest)" and ?n = "unat (be16 (data ! 8) (data ! 9))"
    show ?thesis
    proof (cases "\<not> auth_ok st \<or> data ! 0 \<noteq> TUIC_V5_VERSION \<or> data ! Suc 0 \<noteq> CMD_PACKET \<or> length data < ?s + ?n")
      case True
      then show ?thesis using False Ok x by (auto simp: handle_datagram_def rs_simps byte_at_def slice_def Let_def)
    next
      case go: False
      then have "handle_datagram now data st =
          on_fragment now (be16 (data ! 2) (data ! 3)) (be16 (data ! 4) (data ! 5)) (data ! 6) (data ! 7) addr (take ?n (drop ?s data)) Native st"
        using len Ok x by (simp add: handle_datagram_def byte_at_def be16_at_def slice_def Let_def)
      then show ?thesis by blast
    qed
  qed (use len in \<open>auto simp: handle_datagram_def byte_at_def be16_at_def slice_def\<close>)
  then show ?thesis using ok session_ok_fragment [OF ok] by metis
qed

lemma session_ok_uni:
  assumes ok: "session_ok e evs st" and ev: "UniStream now answer recv \<in> set evs"
  shows "\<exists>st'. handle_uni_stream e now answer recv st = Ok st' \<and> session_ok e evs st'"
proof -
  have dis: "session_ok e evs (st\<lparr>associations := al_del a (associations st)\<rparr>)" for a
    using ok by (auto simp: session_ok_def al_del_def split: option.splits)
  have auth: "session_ok e evs (on_authenticate e now answer body st)"
    if "read_exact 2 recv = Ok (hdr, r)" "hdr ! 0 = TUIC_V5_VERSION" "hdr ! 1 = CMD_AUTHENTICATE" "read_exact 48 r = Ok (body, r')" for hdr r body r'
  proof -
    have "hdr = [TUIC_V5_VERSION, CMD_AUTHENTICATE]" using that by (intro nth_equalityI) (auto simp: less_Suc_eq numeral_2_eq_2)
    then have "recv = [TUIC_V5_VERSION, CMD_AUTHENTICATE] @ body @ r'" "length body = 48"
      using that(1,4) append_take_drop_id [of 2 recv] append_take_drop_id [of 48 r] by auto
    then show ?thesis using session_ok_authenticate [OF ok] ev by metis
  qed
  show ?thesis
    using ok dis auth session_ok_fragment [OF ok]
    unfolding handle_uni_stream_def by (auto split: res.split simp del: read_exact_Ok_iff)
qed

lemma session_ok_step:
  assumes ok: "session_ok e evs st" and ev: "ev \<in> set evs"
  shows "\<exists>st'. v5_step e ev st = Ok st' \<and> session_ok e evs st'"
proof (cases ev)
  case (UniStream now answer recv)
  then show ?thesis using session_ok_uni [OF ok] ev by simp
next
  case (Datagram now data)
  then show ?thesis using session_ok_datagram [OF ok] by simp
next
  case AuthTimeout
  then show ?thesis using ok by (simp add: auth_timeout_def)
qed (use ok in \<open>auto simp: association_closed_def association_removed_def session_ok_def split: option.splits\<close>)

lemma session_ok_run:
  assumes "session_ok e all st" and "set evs \<subseteq> set all"
  shows "\<exists>st'. v5_run e evs st = Ok st' \<and> session_ok e all st'"
  using assms
proof (induction evs arbitrary: st)
  case (Cons ev evs)
  then obtain st1 where "v5_step e ev st = Ok st1" "session_ok e all st1" using session_ok_step [OF Cons.prems(1), of ev] by auto
  then show ?case using Cons by simp
qed auto

text \<open>C28: Whatever streams and datagrams a TUIC v5 client sends, and however its associations end, no handler panics, and until a command of the
  session carried the identifier of a user with the token that this TLS session exports for the user's password no packet reaches an association
  and no connection is dialled; a connection is dialled for that user, and only to a target that the audit rules do not block.\<close>

theorem v5_authenticated_only:
  "\<exists>st. v5_run e evs (v5_session_new d dl) = Ok st \<and>
     (associations st = [] \<or> (\<exists>u. authenticated_user st = Some u \<and> proved e evs u)) \<and>
     (case handle_bidi_stream env audit acquired recv st of
        Dial u addr \<Rightarrow> authenticated_user st = Some u \<and> proved e evs u \<and> acquired u \<and> \<not> should_block env audit (v5_host addr) (v5_ip addr) (v5_port addr)
      | Finished \<Rightarrow> True)"
proof -
  obtain st where st: "v5_run e evs (v5_session_new d dl) = Ok st" "session_ok e evs st"
    using session_ok_run [OF session_ok_new order_refl] by blast
  then show ?thesis
    by (auto simp: session_ok_def handle_bidi_stream_def split: option.splits res.split if_splits)
qed

section \<open>Delivery\<close>

lemma drop_header: "drop (n + 10) (a # b # c # d # e # f # g # h # i # j # xs) = drop n xs"
  by (simp add: eval_nat_numeral)

lemma handle_datagram_packet:
  assumes "v5_addr_ok addr" and "length data < 65536" and "auth_ok st"
  shows "handle_datagram now (packet_bytes a p ft fi addr data) st = on_fragment now a p ft fi addr data Native st"
  using assms v5_read_write [of addr data]
  by (simp add: handle_datagram_def packet_bytes_def be16_bytes_def tuic_consts byte_at_def be16_at_def slice_def v5_read_from_cursor_def unat_of_nat_u16 add.commute [of 10] drop_header)

lemma fragments_delivered:
  assumes "arrived cs addr (a, p) T S (defrag st)" and "distinct ids" and "set ids = {..<length cs} - S" and "ids \<noteq> []"
    and "length ts = length ids" and "\<forall>t \<in> set ts. t < T \<and> T \<le> t + 10 * 1000000000"
    and "auth_ok st" and cs: "1 < length cs" "length cs < 256" "\<forall>c \<in> set cs. length c < 65536" and addr: "v5_addr_ok addr"
  shows "\<exists>d. v5_run e (map (\<lambda>(t, i). Datagram t (fragment a p addr cs i)) (zip ts ids)) st =
             Ok (route_udp_packet a addr (concat cs) Native (st\<lparr>defrag := d\<rparr>))"
  using assms(1-7)
proof (induction ids arbitrary: S st ts)
  case (Cons i ids)
  obtain t ts' where ts: "ts = t # ts'" using Cons.prems(5) by (cases ts) auto
  have i: "i < length cs" "i \<notin> S" and t: "t < T" "T \<le> t + 10 * 1000000000" using Cons.prems ts by auto
  obtain d where d: "defrag_insert t a p (of_nat (length cs)) (of_nat i) (if i = 0 then addr else V5None) (cs ! i) (defrag st) =
      (Ok (if insert i S = {..<length cs} then Some (addr, concat cs) else None), d)"
    "insert i S \<noteq> {..<length cs} \<longrightarrow> arrived cs addr (a, p) T (insert i S) d"
    using defrag_insert_part [OF Cons.prems(1) i cs(1,2) t] by blast
  have step: "v5_step e (Datagram t (fragment a p addr cs i)) st =
      on_fragment t a p (of_nat (length cs)) (of_nat i) (if i = 0 then addr else V5None) (cs ! i) Native st"
    using handle_datagram_packet [of "if i = 0 then addr else V5None" "cs ! i" st] addr cs(3) i(1) Cons.prems(7) by (simp add: fragment_def)
  show ?case
  proof (cases "ids = []")
    case True
    have "S \<subseteq> {..<length cs}" using Cons.prems(1) by (simp add: arrived_def)
    then have "insert i S = {..<length cs}" using Cons.prems(3) i True by (intro equalityI subsetI) auto
    then have "v5_step e (Datagram t (fragment a p addr cs i)) st = Ok (route_udp_packet a addr (concat cs) Native (st\<lparr>defrag := d\<rparr>))"
      using d(1) unfolding step by (simp add: on_fragment_def)
    then show ?thesis using ts True by auto
  next
    case False
    then obtain j where "j \<in> set ids" by (cases ids) auto
    then have "j \<notin> insert i S" "j \<in> {..<length cs}" using Cons.prems(2,3) by auto
    then have neq: "insert i S \<noteq> {..<length cs}" by blast
    then have stp: "v5_step e (Datagram t (fragment a p addr cs i)) st = Ok (st\<lparr>defrag := d\<rparr>)"
      using d(1) unfolding step by (simp add: on_fragment_def)
    moreover have pt: "arrived cs addr (a, p) T (insert i S) (defrag (st\<lparr>defrag := d\<rparr>))" using neq d(2) by simp
    moreover have "set ids = {..<length cs} - insert i S" "distinct ids" using Cons.prems(2,3) by auto
    moreover have "length ts' = length ids" "auth_ok (st\<lparr>defrag := d\<rparr>)" "\<forall>t \<in> set ts'. t < T \<and> T \<le> t + 10 * 1000000000"
      using Cons.prems(5,6,7) ts by simp_all
    ultimately obtain d' where "v5_run e (map (\<lambda>(t, i). Datagram t (fragment a p addr cs i)) (zip ts' ids)) (st\<lparr>defrag := d\<rparr>) =
        Ok (route_udp_packet a addr (concat cs) Native (st\<lparr>defrag := d\<rparr>\<lparr>defrag := d'\<rparr>))"
      using Cons.IH [OF pt _ _ False] by blast
    then show ?thesis using stp ts by auto
  qed
qed simp

lemma datagrams_delivered:
  assumes ok: "auth_ok st" and d: "defrag st = defragmenter_new" and addr: "v5_addr_ok addr" and data: "length data < 65536"
    and ds: "mset ds = mset (native_datagrams a p addr data)" and ts: "length ts = length ds" "\<forall>t \<in> set ts. start \<le> t \<and> t < start + 10 * 1000000000"
  shows "\<exists>d. v5_run e (map (\<lambda>(t, x). Datagram t x) (zip ts ds)) st = Ok (route_udp_packet a addr data Native (st\<lparr>defrag := d\<rparr>))"
proof (cases "length data \<le> fragment_mtu addr")
  case True
  then have "ds = [packet_bytes a p 1 0 addr data]" using ds by (simp add: native_datagrams_cases [OF addr])
  moreover then obtain t where "ts = [t]" using ts(1) by (cases ts) auto
  moreover have "on_fragment t a p 1 0 addr data Native st = Ok (route_udp_packet a addr data Native (st\<lparr>defrag := defrag st\<rparr>))" for t
    by (simp add: on_fragment_def defrag_insert_def)
  ultimately show ?thesis using handle_datagram_packet [OF addr data ok] by (intro exI [of _ "defrag st"]) auto
next
  case False
  let ?cs = "chunks_of (fragment_mtu addr) data"
  have "fragment_mtu addr < 65536" by (simp add: fragment_mtu_def)
  then have cs: "1 < length ?cs" "length ?cs < 256" "\<forall>c \<in> set ?cs. length c < 65536"
    using fragment_chunks [OF addr data] False le_less_trans by (simp, simp, force)
  obtain ids where ids: "mset ids = mset [0..<length ?cs]" "ds = map (fragment a p addr ?cs) ids"
    using mset_map_permutation ds False by (metis native_datagrams_cases [OF addr])
  have ids': "set ids = {..<length ?cs}" "distinct ids"
    using mset_eq_setD [OF ids(1)] mset_eq_imp_distinct_iff [OF ids(1)] by (simp_all add: atLeast_upt)
  have ne: "ids \<noteq> []" using ids'(1) cs(1) by (metis empty_iff lessThan_iff list.set(1) not_one_less_zero not_gr_zero)
  have "0 < fragment_mtu addr" using length_v5_write_to [OF addr] by (simp add: fragment_mtu_def)
  then have con: "concat ?cs = data" by (rule concat_chunks_of)
  then have "(\<Sum>i<length ?cs. length (?cs ! i)) = length data"
    by (metis (no_types) atLeast0LessThan length_concat sum_list_sum_nth length_map sum.cong nth_map atLeastLessThan_iff)
  then have "arrived ?cs addr (a, p) (start + 10 * 1000000000) {} (defrag st)"
    using d data by (simp add: arrived_def defragmenter_new_def MAX_DEFRAG_MEMORY_def MAX_DEFRAG_ENTRIES_def)
  then show ?thesis
    using fragments_delivered [of ?cs addr a p "start + 10 * 1000000000" "{}" st ids ts e] ids ids' ne ts ok cs addr con
    by (auto simp: zip_map2 comp_def case_prod_unfold)
qed

lemma authenticate_accepts:
  assumes "v5_users e uuid = Some (u, password)" and "export_token e uuid password = Some token" and "length uuid = 16" and "length token = 32"
    and "snd (check_and_record_async answer u (client_ip e) now (devices st))"
  shows "\<exists>st'. handle_uni_stream e now answer ([TUIC_V5_VERSION, CMD_AUTHENTICATE] @ uuid @ token) st = Ok st' \<and> auth_ok st' \<and>
           authenticated_user st' = Some u \<and> defrag st' = defrag st \<and> associations st' = associations st"
  using assms by (auto simp: handle_uni_stream_def read_exact_def on_authenticate_def constant_time_eq_iff split_beta Let_def)

text \<open>C29: The identifier of a user and the token its password gives authenticate a new session when the device limit admits the client; and then the
  datagrams into which a packet is split arrive, in whatever order, within ten seconds, as exactly one packet: its association gets the whole
  payload with the address of the first fragment.\<close>

theorem v5_packet_delivered:
  assumes "v5_users e uuid = Some (u, password)" and "export_token e uuid password = Some token" and "length uuid = 16" and "length token = 32"
    and "snd (check_and_record_async answer u (client_ip e) now dl)"
    and "v5_addr_ok addr" and "length data < 65536"
    and "mset ds = mset (native_datagrams a p addr data)" and "length ts = length ds" and "\<forall>t \<in> set ts. start \<le> t \<and> t < start + 10 * 1000000000"
  shows "\<exists>st. v5_run e (UniStream now answer ([TUIC_V5_VERSION, CMD_AUTHENTICATE] @ uuid @ token) # map (\<lambda>(t, x). Datagram t x) (zip ts ds))
               (v5_session_new df dl) = Ok st \<and>
           authenticated_user st = Some u \<and> associations st = [(a, \<lparr>as_queue = [(addr, data, Native)], as_closed = False\<rparr>)]"
proof -
  let ?s = "v5_session_new df dl"
  have new: "defrag ?s = defragmenter_new" "associations ?s = []" "devices ?s = dl" by (simp_all add: v5_session_new_def)
  obtain st where st: "handle_uni_stream e now answer ([TUIC_V5_VERSION, CMD_AUTHENTICATE] @ uuid @ token) ?s = Ok st" "auth_ok st"
    "authenticated_user st = Some u" "defrag st = defragmenter_new" "associations st = []"
    using authenticate_accepts [OF assms(1-4), of answer now ?s] assms(5) new by auto
  obtain d where "v5_run e (map (\<lambda>(t, x). Datagram t x) (zip ts ds)) st = Ok (route_udp_packet a addr data Native (st\<lparr>defrag := d\<rparr>))"
    using datagrams_delivered [OF st(2,4) assms(6-10)] by blast
  then show ?thesis using st by (simp add: route_udp_packet_def al_put_def)
qed

theorem v5_packet_delivered_witness:
  "\<exists>st. v5_run \<lparr>v5_users = [replicate 16 1 \<mapsto> (7, [9])], export_token = \<lambda>_ _. Some (replicate 32 2), client_ip = V4 1\<rparr>
      (UniStream 0 RedisTimeout ([TUIC_V5_VERSION, CMD_AUTHENTICATE] @ replicate 16 1 @ replicate 32 2) #
       map (\<lambda>(t, x). Datagram t x)
         (zip (replicate (length (native_datagrams 3 4 (V5IPv4 5 53) (replicate 3000 6))) 8)
              (rev (native_datagrams 3 4 (V5IPv4 5 53) (replicate 3000 6)))))
      (v5_session_new (defense_new 5 60 600) (device_limiter_new 60 32 64 None)) = Ok st \<and>
     authenticated_user st = Some 7 \<and> associations st = [(3, \<lparr>as_queue = [(V5IPv4 5 53, replicate 3000 6, Native)], as_closed = False\<rparr>)]"
  by (rule v5_packet_delivered [where password = "[9]" and start = 0])
     (simp_all add: check_and_record_async_def device_limiter_new_def new_with_redis_def check_and_record_def)

end
