(* ===== verification/Socks.thy ===== *)
theory Socks
  imports Stream_Parser Device_Limiter Attack_Defense Security_Audit Proxy_Protocol
begin

text \<open>
  \<^verbatim>\<open>src/protocol/socks\<close>: the user table, the negotiation of RFC 1929, the request, and the datagrams of a UDP association. The connection is the bytes the
  client sends and the bytes it is sent; a handler that fails keeps what it wrote. The handshake is taken to end within its fifteen seconds and its writes to succeed: the
  connection is dropped otherwise. Of the connection limiter the answer is an argument.
\<close>

section \<open>Users\<close>

record panel_user =
  pu_id :: u32
  pu_uuid :: string
  pu_password :: "string option"

definition expected_pass :: "panel_user \<Rightarrow> string" where
  "expected_pass u = (case pu_password u of Some p \<Rightarrow> p | None \<Rightarrow> pu_uuid u)"

definition socks_update_users :: "panel_user list \<Rightarrow> (string \<rightharpoonup> panel_user)" where
  "socks_update_users us = foldl (\<lambda>m u. m(dec_string (unat (pu_id u)) \<mapsto> u, pu_uuid u \<mapsto> u)) Map.empty us"

section \<open>Replies\<close>

text \<open>A handler that reads and writes: the bytes written so far, and the result.\<close>

type_synonym 'a talk = "bytes \<times> 'a res"

definition say :: "bytes \<Rightarrow> 'a talk \<Rightarrow> 'a talk" where
  "say w t = (w @ fst t, snd t)"

definition hear :: "'a res \<Rightarrow> ('a \<Rightarrow> 'b talk) \<Rightarrow> 'b talk" where
  "hear r f = (case r of Ok x \<Rightarrow> f x | Err e \<Rightarrow> ([], Err e) | Panic \<Rightarrow> ([], Panic))"

definition and_talk :: "'a talk \<Rightarrow> ('a \<Rightarrow> 'b talk) \<Rightarrow> 'b talk" where
  "and_talk t f = say (fst t) (hear (snd t) f)"

definition fail :: "io_error \<Rightarrow> 'a talk" where
  "fail e = ([], Err e)"

section \<open>Negotiation\<close>

definition negotiate_auth :: "(string \<rightharpoonup> panel_user) \<Rightarrow> bytes \<Rightarrow> (panel_user \<times> bytes) talk" where
  "negotiate_auth users s =
     hear (read_exact 2 s) (\<lambda>(h, s).
     if h ! 0 \<noteq> 0x05 then fail InvalidData
     else hear (read_exact (unat (h ! 1)) s) (\<lambda>(methods, s).
     if dom users = {} then say [0x05, 0xFF] (fail PermissionDenied)
     else if 0x02 \<in> set methods then
       say [0x05, 0x02] (hear (read_exact 2 s) (\<lambda>(a, s).
       if a ! 0 \<noteq> 0x01 then say [0x01, 0x01] (fail InvalidData)
       else if unat (a ! 1) = 0 then say [0x01, 0x01] (fail InvalidData)
       else hear (read_exact (unat (a ! 1)) s) (\<lambda>(uname, s).
       hear (read_exact 1 s) (\<lambda>(p, s).
       if unat (p ! 0) = 0 then say [0x01, 0x01] (fail InvalidData)
       else hear (read_exact (unat (p ! 0)) s) (\<lambda>(passwd, s).
       case users (from_utf8_lossy uname) of
         Some u \<Rightarrow>
           (if expected_pass u = from_utf8_lossy passwd then say [0x01, 0x00] ([], Ok (u, s))
            else say [0x01, 0x01] (fail PermissionDenied))
       | None \<Rightarrow> say [0x01, 0x01] (fail PermissionDenied))))))
     else say [0x05, 0xFF] (fail PermissionDenied)))"

section \<open>The request\<close>

definition socks_reply :: "u8 \<Rightarrow> bytes" where
  "socks_reply rep = [0x05, rep, 0x00, 0x01, 0, 0, 0, 0, 0, 0]"

record socks_request =
  sr_cmd :: u8
  sr_host :: string
  sr_ip :: "ip_addr option"
  sr_port :: u16

definition read_socks_addr :: "u8 \<Rightarrow> bytes \<Rightarrow> ((string \<times> ip_addr option) \<times> bytes) talk" where
  "read_socks_addr atyp s =
     (if atyp = 0x01 then
        hear (read_exact 4 s) (\<lambda>(b, s). let ip = V4 (be_word b) in ([], Ok ((ip_string ip, Some ip), s)))
      else if atyp = 0x03 then
        hear (read_u8 s) (\<lambda>(len, s).
        if len = 0 then fail InvalidData
        else hear (read_exact (unat len) s) (\<lambda>(b, s).
        let domain = from_utf8_lossy b in ([], Ok ((domain, parse_ip domain), s))))
      else if atyp = 0x04 then
        hear (read_exact 16 s) (\<lambda>(b, s). let ip = V6 (be_word b) in ([], Ok ((ip_string ip, Some ip), s)))
      else say (socks_reply 0x08) (fail InvalidData))"

definition read_socks_request :: "bytes \<Rightarrow> (socks_request \<times> bytes) talk" where
  "read_socks_request s =
     hear (read_exact 4 s) (\<lambda>(h, s).
     if h ! 0 \<noteq> 0x05 \<or> h ! 2 \<noteq> 0 then fail InvalidData
     else and_talk (read_socks_addr (h ! 3) s) (\<lambda>((host, ip), s).
     hear (read_u16 s) (\<lambda>(port, s). ([], Ok (\<lparr>sr_cmd = h ! 1, sr_host = host, sr_ip = ip, sr_port = port\<rparr>, s)))))"

record socks_ctx =
  sc_users :: "string \<rightharpoonup> panel_user"
  sc_defense :: attack_defense_manager
  sc_devices :: device_limiter

text \<open>The handshake behind the PROXY header: the tables after it, what was written, and the user with the request. \<open>acquired\<close> is whether the connection limit admits the user.\<close>

definition socks_handshake ::
    "nat \<Rightarrow> redis_answer \<Rightarrow> (u32 \<Rightarrow> bool) \<Rightarrow> ip_addr \<Rightarrow> bytes \<Rightarrow> socks_ctx \<Rightarrow> socks_ctx \<times> (panel_user \<times> socks_request \<times> bytes) talk" where
  "socks_handshake now answer acquired ip s c =
     (if is_banned ip (sc_defense c) then (c, fail PermissionDenied)
      else case negotiate_auth (sc_users c) s of
             (w, Ok (u, s)) \<Rightarrow>
               (let c = c\<lparr>sc_defense := record_success ip (sc_defense c)\<rparr>;
                    (dl, allowed) = check_and_record_async answer (pu_id u) ip now (sc_devices c);
                    c = c\<lparr>sc_devices := dl\<rparr>
                in if \<not> allowed then (c, say w (say (socks_reply 0x02) (fail PermissionDenied)))
                   else if \<not> acquired (pu_id u) then (c, say w (say (socks_reply 0x02) (fail PermissionDenied)))
                   else (c, say w (and_talk (read_socks_request s) (\<lambda>(r, s). ([], Ok (u, r, s))))))
           | (w, Err e) \<Rightarrow> (c, w, Err e)
           | (w, Panic) \<Rightarrow> (c, w, Panic))"

datatype socks_action = Connect panel_user string u16 bytes | Associate panel_user | Refused

text \<open>The whole connection up to the dialling or the association: the data behind the request is relayed.\<close>

definition socks_connection ::
    "('n, 're) route_env \<Rightarrow> ('n, 're) audit_controller \<Rightarrow> ('m \<Rightarrow> ip_addr \<Rightarrow> bool) \<Rightarrow> proxy_protocol_mode \<Rightarrow> 'm list option \<Rightarrow>
     nat \<Rightarrow> redis_answer \<Rightarrow> (u32 \<Rightarrow> bool) \<Rightarrow> socket_addr \<Rightarrow> net_stream \<Rightarrow> socks_ctx \<Rightarrow> socks_ctx \<times> socks_action talk" where
  "socks_connection env audit in_net mode trusted now answer acquired peer stream c =
     (case read_proxy_protocol_with_meta in_net stream peer mode trusted of
        Ok (meta, ps) \<Rightarrow>
          (let (c, t) = socks_handshake now answer acquired (sa_ip (client_addr meta)) (stream_data ps) c
           in (c, and_talk t (\<lambda>(u, r, s).
                 if sr_cmd r = 0x01 then
                   (if should_block env audit (sr_host r) (sr_ip r) (sr_port r) then say (socks_reply 0x02) ([], Ok Refused)
                    else ([], Ok (Connect u (sr_host r) (sr_port r) s)))
                 else if sr_cmd r = 0x03 then ([], Ok (Associate u))
                 else say (socks_reply 0x07) (fail Unsupported))))
      | Err e \<Rightarrow> (c, [], Err e)
      | Panic \<Rightarrow> (c, [], Panic))"

section \<open>The UDP association\<close>






datatype socks5_address = SocketAddress socket_addr | DomainNameAddress string u16

fun socks_addr_bytes :: "socks5_address \<Rightarrow> bytes" where
  "socks_addr_bytes (SocketAddress (SocketAddr (V4 ip) port)) = 0x01 # octets 4 ip @ be16_bytes port"
| "socks_addr_bytes (SocketAddress (SocketAddr (V6 ip) port)) = 0x04 # octets 16 ip @ be16_bytes port"
| "socks_addr_bytes (DomainNameAddress domain port) = 0x03 # of_nat (length domain) # str_bytes domain @ be16_bytes port"



section \<open>Lemmas\<close>

lemma say_simps [simp]: "fst (say w t) = w @ fst t" "snd (say w t) = snd t" "say [] t = t" "say v (say w t) = say (v @ w) t"
  by (simp_all add: say_def)

lemma hear_Ok [simp]: "hear (Ok x) f = f x" "hear (Err e) f = ([], Err e)"
  by (simp_all add: hear_def)

lemma snd_hear_Ok [simp]: "snd (hear r f) = Ok y \<longleftrightarrow> (\<exists>x. r = Ok x \<and> snd (f x) = Ok y)"
  by (cases r) (simp_all add: hear_def)

lemma snd_fail [simp]: "snd (fail e) = Err e"
  by (simp add: fail_def)

lemma snd_and_talk_Ok [simp]: "snd (and_talk t f) = Ok y \<longleftrightarrow> (\<exists>x. snd t = Ok x \<and> snd (f x) = Ok y)"
  by (simp add: and_talk_def)

lemma and_talk_Ok: "and_talk (w, Ok x) f = say w (f x)"
  by (simp add: and_talk_def)

section \<open>What a client sends\<close>

definition socks_greeting :: "bytes \<Rightarrow> bytes \<Rightarrow> bytes \<Rightarrow> bytes" where
  "socks_greeting methods uname passwd =
     [0x05, of_nat (length methods)] @ methods @ [0x01, of_nat (length uname)] @ uname @ [of_nat (length passwd)] @ passwd"

fun socks_dest :: "socks5_address \<Rightarrow> string \<times> ip_addr option \<times> u16" where
  "socks_dest (SocketAddress (SocketAddr ip port)) = (ip_string ip, Some ip, port)"
| "socks_dest (DomainNameAddress domain port) = (domain, parse_ip domain, port)"

fun socks_addr_ok :: "socks5_address \<Rightarrow> bool" where
  "socks_addr_ok (DomainNameAddress domain port) \<longleftrightarrow> domain \<noteq> [] \<and> length domain < 256 \<and> utf8_valid (str_bytes domain)"
| "socks_addr_ok _ \<longleftrightarrow> True"

definition socks_request_of :: "u8 \<Rightarrow> socks5_address \<Rightarrow> socks_request" where
  "socks_request_of cmd a = (case socks_dest a of (host, ip, port) \<Rightarrow> \<lparr>sr_cmd = cmd, sr_host = host, sr_ip = ip, sr_port = port\<rparr>)"

lemma of_nat_u8_zero: "0 < n \<Longrightarrow> n < 256 \<Longrightarrow> (of_nat n :: u8) \<noteq> 0"
  using unat_of_nat_u8 [of n] by auto

lemma read_socks_request_of:
  "socks_addr_ok a \<Longrightarrow> read_socks_request ([0x05, cmd, 0x00] @ socks_addr_bytes a @ r) = ([], Ok (socks_request_of cmd a, r))"
  by (cases a rule: socks_addr_bytes.cases)
     (simp_all add: read_socks_request_def read_exact_def read_socks_addr_def socks_request_of_def be_word_octets take_bit_word_eq_self
       unat_of_nat_u8 of_nat_u8_zero and_talk_Ok Let_def)

lemma negotiate_auth_accepts:
  assumes "users (from_utf8_lossy uname) = Some u" and "expected_pass u = from_utf8_lossy passwd" and "0x02 \<in> set methods" and "length methods < 256"
    and "uname \<noteq> []" "length uname < 256" "passwd \<noteq> []" "length passwd < 256"
  shows "negotiate_auth users (socks_greeting methods uname passwd @ r) = ([0x05, 0x02, 0x01, 0x00], Ok (u, r))"
  using assms by (auto simp: negotiate_auth_def socks_greeting_def read_exact_def unat_of_nat_u8 say_def)

text \<open>The other direction: an accepted client sent a greeting with the credentials of the user.\<close>

lemma read_exact_OkD: "read_exact n s = Ok (a, r) \<Longrightarrow> s = a @ r \<and> length a = n"
  by auto

lemma two_bytes: "length h = 2 \<Longrightarrow> h ! 0 = a \<Longrightarrow> h ! 1 = b \<Longrightarrow> h = [a, b]" "length p = 1 \<Longrightarrow> p ! 0 = a \<Longrightarrow> p = [a]"
  by (auto simp: length_Suc_conv numeral_2_eq_2)

lemma negotiate_auth_authentic:
  assumes "snd (negotiate_auth users s) = Ok (u, r)"
  shows "\<exists>methods uname passwd. s = socks_greeting methods uname passwd @ r \<and> 0x02 \<in> set methods \<and>
           users (from_utf8_lossy uname) = Some u \<and> from_utf8_lossy passwd = expected_pass u"
proof -
  obtain h s1 where h: "read_exact 2 s = Ok (h, s1)" "h ! 0 = 0x05"
    using assms by (auto simp: negotiate_auth_def split: if_splits simp del: read_exact_Ok_iff)
  obtain methods s2 where m: "read_exact (unat (h ! 1)) s1 = Ok (methods, s2)" "0x02 \<in> set methods" "dom users \<noteq> {}"
    using assms h by (auto simp: negotiate_auth_def split: if_splits simp del: read_exact_Ok_iff)
  obtain a s3 where a: "read_exact 2 s2 = Ok (a, s3)" "a ! 0 = 0x01" "unat (a ! 1) \<noteq> 0"
    using assms h m by (auto simp: negotiate_auth_def split: if_splits simp del: read_exact_Ok_iff)
  obtain uname s4 p s5 where n: "read_exact (unat (a ! 1)) s3 = Ok (uname, s4)" "read_exact 1 s4 = Ok (p, s5)" "unat (p ! 0) \<noteq> 0"
    using assms h m a by (auto simp: negotiate_auth_def split: if_splits simp del: read_exact_Ok_iff)
  obtain passwd where q: "read_exact (unat (p ! 0)) s5 = Ok (passwd, r)" "users (from_utf8_lossy uname) = Some u" "expected_pass u = from_utf8_lossy passwd"
  proof -
    obtain passwd s6 where p: "read_exact (unat (p ! 0)) s5 = Ok (passwd, s6)"
      using assms h m a n by (auto simp: negotiate_auth_def simp del: read_exact_Ok_iff)
    then have "snd (case users (from_utf8_lossy uname) of
         Some u \<Rightarrow>
           (if expected_pass u = from_utf8_lossy passwd then say [0x01, 0x00] ([], Ok (u, s6))
            else say [0x01, 0x01] (fail PermissionDenied))
       | None \<Rightarrow> say [0x01, 0x01] (fail PermissionDenied)) = Ok (u, r)"
      using assms h m a n by (simp add: negotiate_auth_def del: read_exact_Ok_iff)
    then show ?thesis using that [of passwd] p by (simp split: option.splits if_splits)
  qed
  note c = read_exact_OkD [OF h(1)] read_exact_OkD [OF m(1)] read_exact_OkD [OF a(1)] read_exact_OkD [OF n(1)] read_exact_OkD [OF n(2)] read_exact_OkD [OF q(1)]
  have "h = [0x05, of_nat (length methods)]" "a = [0x01, of_nat (length uname)]" "p = [of_nat (length passwd)]"
    using c h(2) a(2) by (auto intro!: two_bytes)
  then have "s = socks_greeting methods uname passwd @ r" using c by (simp add: socks_greeting_def)
  then show ?thesis using m q by metis
qed

section \<open>Properties of the connection\<close>

text \<open>C37: A connection through the SOCKS inbound is dialled, or associated, only for a user whose name and password the client sent behind the PROXY header, whom the device
  limit admits from the client's address and for whom a connection guard was acquired; and a target is dialled only if the audit does not block it.\<close>

theorem socks_authenticated_only:
  "case snd (snd (socks_connection env audit in_net mode trusted now answer acquired peer stream c)) of
     Ok action \<Rightarrow>
       action = Refused \<or>
       (\<exists>meta ps methods uname passwd u rest.
           read_proxy_protocol_with_meta in_net stream peer mode trusted = Ok (meta, ps) \<and>
           stream_data ps = socks_greeting methods uname passwd @ rest \<and> 0x02 \<in> set methods \<and>
           sc_users c (from_utf8_lossy uname) = Some u \<and> from_utf8_lossy passwd = expected_pass u \<and>
           snd (check_and_record_async answer (pu_id u) (sa_ip (client_addr meta)) now (sc_devices c)) \<and> acquired (pu_id u) \<and>
           (case action of
              Connect u' host port s \<Rightarrow>
                u' = u \<and> (\<exists>r. snd (read_socks_request rest) = Ok (r, s) \<and> host = sr_host r \<and> port = sr_port r \<and>
                              \<not> should_block env audit (sr_host r) (sr_ip r) (sr_port r))
            | Associate u' \<Rightarrow> u' = u
            | Refused \<Rightarrow> False))
   | _ \<Rightarrow> True"
proof (cases "\<exists>action. snd (snd (socks_connection env audit in_net mode trusted now answer acquired peer stream c)) = Ok action \<and> action \<noteq> Refused")
  case True
  then obtain action where a: "snd (snd (socks_connection env audit in_net mode trusted now answer acquired peer stream c)) = Ok action" "action \<noteq> Refused"
    by blast
  then obtain meta ps where m: "read_proxy_protocol_with_meta in_net stream peer mode trusted = Ok (meta, ps)"
    by (auto simp: socks_connection_def split: res.splits)
  let ?ip = "sa_ip (client_addr meta)"
  obtain c1 t where t: "socks_handshake now answer acquired ?ip (stream_data ps) c = (c1, t)"
    by (cases "socks_handshake now answer acquired ?ip (stream_data ps) c")
  obtain u r s where ok: "snd t = Ok (u, r, s)"
    and act: "action = (if sr_cmd r = 0x01 then Connect u (sr_host r) (sr_port r) s else Associate u)"
    and blk: "sr_cmd r = 0x01 \<Longrightarrow> \<not> should_block env audit (sr_host r) (sr_ip r) (sr_port r)"
    using a m t by (auto simp: socks_connection_def split: if_splits)
  obtain s1 where n: "snd (negotiate_auth (sc_users c) (stream_data ps)) = Ok (u, s1)" "snd (read_socks_request s1) = Ok (r, s)"
    "snd (check_and_record_async answer (pu_id u) ?ip now (sc_devices c))" "acquired (pu_id u)"
    using t ok by (auto simp: socks_handshake_def Let_def split: if_splits prod.splits res.splits)
  show ?thesis using negotiate_auth_authentic [OF n(1)] m n act blk a(1) by (auto split: if_splits) metis+
qed (auto split: res.split)

text \<open>A client with the credentials of a user is told that they are accepted and its request is read as it was sent, whatever the kind of the address;
  what follows the request is kept.\<close>

theorem socks_request_accepted:
  assumes "sc_users c (from_utf8_lossy uname) = Some u" and "expected_pass u = from_utf8_lossy passwd" and "0x02 \<in> set methods" and "length methods < 256"
    and "uname \<noteq> []" and "length uname < 256" and "passwd \<noteq> []" and "length passwd < 256" and "socks_addr_ok a"
    and "snd (check_and_record_async answer (pu_id u) ip now (sc_devices c))" and "acquired (pu_id u)"
  shows "snd (socks_handshake now answer acquired ip (socks_greeting methods uname passwd @ [0x05, cmd, 0x00] @ socks_addr_bytes a @ rest) c) =
           ([0x05, 0x02, 0x01, 0x00], Ok (u, socks_request_of cmd a, rest))"
  using negotiate_auth_accepts [where users = "sc_users c", OF assms(1-8)] read_socks_request_of [OF assms(9)] assms(10,11)
  by (auto simp: socks_handshake_def is_banned_def and_talk_def say_def Let_def split: prod.split)

theorem socks_request_accepted_witness:
  "snd (socks_handshake 0 RedisTimeout (\<lambda>_. True) (V4 1)
      (socks_greeting [0, 2] [0x37] [0x61] @ [0x05, 0x01, 0x00] @ socks_addr_bytes (DomainNameAddress ''a.b'' 443) @ [9])
      \<lparr>sc_users = socks_update_users [\<lparr>pu_id = 7, pu_uuid = ''u'', pu_password = Some ''a''\<rparr>], sc_defense = defense_new 5 60 600,
       sc_devices = device_limiter_new 60 32 64 None\<rparr>) =
     ([0x05, 0x02, 0x01, 0x00], Ok (\<lparr>pu_id = 7, pu_uuid = ''u'', pu_password = Some ''a''\<rparr>, socks_request_of 1 (DomainNameAddress ''a.b'' 443), [9]))"
proof -
  have v: "from_utf8_lossy [0x37] = ''7''" "from_utf8_lossy [0x61] = ''a''" "dec_string 7 = ''7''" by code_simp+
  show ?thesis
    by (rule socks_request_accepted)
       (simp_all add: v socks_update_users_def expected_pass_def check_and_record_async_def device_limiter_new_def new_with_redis_def check_and_record_def,
        code_simp)
qed

section \<open>Properties of the association\<close>













end
