(* ===== verification/Http_Inbound.thy ===== *)
theory Http_Inbound
  imports Socks Sniffer
begin

text \<open>
  \<^verbatim>\<open>src/protocol/http\<close>: the user table, basic authentication, the header of a request read from a stream cut in any way, CONNECT and forwarding, up to the dialling. The
  base64 decoders and the parser of an authority (crates \<^verbatim>\<open>base64\<close> and \<^verbatim>\<open>http\<close>) are arguments. The user table is the list of its entries in the order of iteration.
  Reads are taken to end within fifteen seconds and writes to succeed.
\<close>

section \<open>Users and authentication\<close>

type_synonym http_users = "(string \<times> panel_user) list"

definition http_key :: "string \<Rightarrow> string \<Rightarrow> string" where
  "http_key name pass = name @ '':'' @ pass"

definition http_update_users :: "panel_user list \<Rightarrow> http_users" where
  "http_update_users us =
     foldl (\<lambda>m u. al_put (http_key (pu_uuid u) (expected_pass u)) u (al_put (http_key (dec_string (unat (pu_id u))) (expected_pass u)) u m)) [] us"

datatype auth_error = Missing | Malformed | InvalidCredentials

record http_crates =
  b64_standard :: "string \<Rightarrow> bytes option"
  b64_no_pad :: "string \<Rightarrow> bytes option"
  authority_of :: "string \<Rightarrow> (string \<times> u16 option) option"

definition credentials_of :: "http_crates \<Rightarrow> string option \<Rightarrow> auth_error + (string \<times> string)" where
  "credentials_of cr auth_header =
     (case auth_header of
        None \<Rightarrow> Inl Missing
      | Some header \<Rightarrow>
          (let trimmed = trim header
           in if \<not> starts_with (to_lowercase trimmed) ''basic '' then Inl Malformed
              else let payload = trim (drop 6 trimmed)
                   in case or_else (b64_standard cr payload) (b64_no_pad cr payload) of
                        None \<Rightarrow> Inl Malformed
                      | Some decoded \<Rightarrow>
                          (case from_utf8 decoded of
                             None \<Rightarrow> Inl Malformed
                           | Some creds \<Rightarrow> (case split_once (CHR '':'') creds of None \<Rightarrow> Inl Malformed | Some c \<Rightarrow> Inr c))))"

definition verify_basic_auth :: "http_crates \<Rightarrow> string option \<Rightarrow> http_users \<Rightarrow> auth_error + panel_user" where
  "verify_basic_auth cr auth_header users =
     (case credentials_of cr auth_header of
        Inl e \<Rightarrow> Inl e
      | Inr (username, password) \<Rightarrow>
          (case map_of users (http_key username password) of
             Some u \<Rightarrow> Inr u
           | None \<Rightarrow>
               (case find (\<lambda>(k, u). (dec_string (unat (pu_id u)) = username \<or> pu_uuid u = username) \<and> expected_pass u = password) users of
                  Some (k, u) \<Rightarrow> Inr u
                | None \<Rightarrow> Inl InvalidCredentials)))"

section \<open>The header\<close>

definition CRLF_STR :: string where "CRLF_STR = [CHR 0x0D, CHR 0x0A]"

definition find_header_end :: "bytes \<Rightarrow> nat option" where
  "find_header_end buf = find_sub buf [13, 10, 13, 10]"

datatype head_result = HeadEof | HeadTooLarge bytes net_stream | Head nat bytes net_stream

function read_head :: "bytes \<Rightarrow> net_stream \<Rightarrow> head_result" where
  "read_head buf s =
     (if length buf \<ge> 65536 then HeadTooLarge buf s
      else case net_read 2048 s of
             (c, s') \<Rightarrow>
               (if c = [] then HeadEof
                else case find_header_end (buf @ c) of
                       Some pos \<Rightarrow> Head pos (buf @ c) s'
                     | None \<Rightarrow> read_head (buf @ c) s'))"
  by pat_completeness auto
termination
  by (relation "measure (\<lambda>(buf, s). 65536 - length buf)") (auto simp flip: length_greater_0_conv)

declare read_head.simps [simp del]

text \<open>\<^verbatim>\<open>split("\r\n")\<close>.\<close>

fun split_crlf :: "string \<Rightarrow> string list" where
  "split_crlf [] = [[]]"
| "split_crlf [c] = [[c]]"
| "split_crlf (c # d # xs) =
     (if c = CHR 0x0D \<and> d = CHR 0x0A then [] # split_crlf xs
      else case split_crlf (d # xs) of p # ps \<Rightarrow> (c # p) # ps | [] \<Rightarrow> [[c]])"

type_synonym http_headers = "(string \<times> string) list"

definition header_of :: "string \<Rightarrow> (string \<times> string) option" where
  "header_of line = (if line = [] then None else map_option (\<lambda>(k, v). (trim k, trim v)) (split_once (CHR '':'') line))"

definition headers_of :: "string list \<Rightarrow> http_headers" where
  "headers_of lines = List.map_filter header_of lines"

text \<open>The last header of that name counts.\<close>

definition proxy_auth_of :: "http_headers \<Rightarrow> string option" where
  "proxy_auth_of hs = foldl (\<lambda>a (k, v). if eq_ignore_ascii_case k ''proxy-authorization'' then Some v else a) None hs"

definition word_or :: "nat \<Rightarrow> string \<Rightarrow> string list \<Rightarrow> string" where
  "word_or i d ws = (if i < length ws then ws ! i else d)"

section \<open>Forwarding\<close>

definition is_hop_by_hop_header :: "string \<Rightarrow> bool" where
  "is_hop_by_hop_header name \<longleftrightarrow>
     to_lowercase name \<in> set [''proxy-authorization'', ''proxy-connection'', ''proxy-authenticate'', ''connection'', ''keep-alive'', ''upgrade'', ''trailer'', ''te'']"

definition parse_target_and_path :: "string \<Rightarrow> string option \<Rightarrow> (string \<times> u16 \<times> string) option" where
  "parse_target_and_path target host_header =
     (let trimmed = trim target
      in case strip_prefix ''http://'' trimmed of
           Some stripped \<Rightarrow>
             (let (authority, path) = (case find_sub stripped ''/'' of Some idx \<Rightarrow> (take idx stripped, drop idx stripped) | None \<Rightarrow> (stripped, ''/''))
              in case rsplit_colon authority of
                   Some (h, p) \<Rightarrow> map_option (\<lambda>port. (h, port, path)) (parse_u16 p)
                 | None \<Rightarrow> Some (authority, 80, path))
         | None \<Rightarrow>
             (case host_header of
                Some h_hdr \<Rightarrow>
                  (let (host, port) = (case rsplit_colon h_hdr of
                                         Some (h, p) \<Rightarrow> (h, case parse_u16 p of Some x \<Rightarrow> x | None \<Rightarrow> 80)
                                       | None \<Rightarrow> (h_hdr, 80));
                       path = (if starts_with trimmed ''/'' then trimmed else ''/'' @ trimmed)
                   in Some (host, port, path))
              | None \<Rightarrow> None))"

definition header_line :: "string \<times> string \<Rightarrow> string" where
  "header_line h = fst h @ '': '' @ snd h @ CRLF_STR"

definition rewritten_req :: "string \<Rightarrow> string \<Rightarrow> string \<Rightarrow> http_headers \<Rightarrow> string \<Rightarrow> u16 \<Rightarrow> string" where
  "rewritten_req meth path version headers host port =
     (let kept = filter (\<lambda>(k, v). \<not> is_hop_by_hop_header k) headers
      in meth @ '' '' @ path @ '' '' @ version @ CRLF_STR @ concat (map header_line kept) @
         (if list_ex (\<lambda>(k, v). eq_ignore_ascii_case k ''host'') kept then []
          else ''Host: '' @ host @ '':'' @ dec_string (unat port) @ CRLF_STR) @
         ''Connection: close'' @ CRLF_STR @ CRLF_STR)"

section \<open>The connection\<close>

datatype http_reply = Resp400 | Resp407 | Resp502 | Resp200

datatype http_action =
    HttpEnd "http_reply option" "io_error option"
  | HttpRelay panel_user string string u16 bool bytes net_stream

record http_config =
  domain_sniff :: bool
  sniff_redirect :: bool

text \<open>\<^verbatim>\<open>relay\<close> up to the dialling: the host by which it is routed, the host that is dialled, and the bytes sent first.\<close>

definition http_relay ::
    "('n, 're) route_env \<Rightarrow> ('n, 're) audit_controller \<Rightarrow> http_config \<Rightarrow> panel_user \<Rightarrow> string \<Rightarrow> u16 \<Rightarrow> bytes \<Rightarrow> bool \<Rightarrow> net_stream \<Rightarrow> http_action res" where
  "http_relay env audit cfg u host port prefix connect s =
     (let ip = parse_ip host
      in and_then (if domain_sniff cfg \<and> ip \<noteq> None then sniff_domain prefix else Ok None) (\<lambda>sniffed.
         let match_host = (case sniffed of Some (h, _) \<Rightarrow> h | None \<Rightarrow> host)
         in if should_block env audit host ip port \<or> should_block env audit match_host ip port
            then Ok (HttpEnd (Some Resp502) (Some PermissionDenied))
            else Ok (HttpRelay u match_host (if sniff_redirect cfg then match_host else host) port connect prefix s)))"

definition handle_connect ::
    "('n, 're) route_env \<Rightarrow> ('n, 're) audit_controller \<Rightarrow> http_crates \<Rightarrow> http_config \<Rightarrow> panel_user \<Rightarrow> string \<Rightarrow> bytes \<Rightarrow> net_stream \<Rightarrow> http_action res" where
  "handle_connect env audit cr cfg u target leftover s =
     (case authority_of cr target of
        None \<Rightarrow> Ok (HttpEnd None (Some InvalidInput))
      | Some (host, port) \<Rightarrow>
          (case port of
             Some p \<Rightarrow>
               (if p > 0
                then http_relay env audit cfg u (trim_end_matches (CHR '']'') (dropWhile (\<lambda>c. c = CHR ''['') host)) p leftover True s
                else Ok (HttpEnd None (Some InvalidInput)))
           | None \<Rightarrow> Ok (HttpEnd None (Some InvalidInput))))"

definition handle_forward ::
    "('n, 're) route_env \<Rightarrow> ('n, 're) audit_controller \<Rightarrow> http_config \<Rightarrow> panel_user \<Rightarrow> string \<Rightarrow> string \<Rightarrow> string \<Rightarrow> http_headers \<Rightarrow> bytes
       \<Rightarrow> net_stream \<Rightarrow> http_action res" where
  "handle_forward env audit cfg u meth target version headers leftover s =
     (case parse_target_and_path target (map_option snd (find (\<lambda>(k, v). eq_ignore_ascii_case k ''host'') headers)) of
        None \<Rightarrow> Ok (HttpEnd (Some Resp502) (Some InvalidInput))
      | Some (host, port, path) \<Rightarrow>
          http_relay env audit cfg u host port (str_bytes (rewritten_req meth path version headers host port) @ leftover) False s)"

definition FORWARDED :: "string list" where
  "FORWARDED = [''GET'', ''POST'', ''HEAD'', ''PUT'', ''DELETE'', ''OPTIONS'', ''PATCH'', ''TRACE'']"

definition handle_http_connection ::
    "('n, 're) route_env \<Rightarrow> ('n, 're) audit_controller \<Rightarrow> http_crates \<Rightarrow> http_config \<Rightarrow> http_users \<Rightarrow> nat \<Rightarrow> redis_answer \<Rightarrow> (u32 \<Rightarrow> bool) \<Rightarrow> ip_addr \<Rightarrow>
     net_stream \<Rightarrow> device_limiter \<Rightarrow> device_limiter \<times> http_action res" where
  "handle_http_connection env audit cr cfg users now answer acquired ip stream dl =
     (case read_head [] stream of
        HeadEof \<Rightarrow> (dl, Ok (HttpEnd None None))
      | HeadTooLarge buf s \<Rightarrow> (dl, Ok (HttpEnd (Some Resp400) (Some InvalidData)))
      | Head end_idx buf s \<Rightarrow>
          (let leftover = drop (end_idx + 4) buf
           in case from_utf8 (take end_idx buf) of
                None \<Rightarrow> (dl, Ok (HttpEnd (Some Resp400) (Some InvalidData)))
              | Some header_str \<Rightarrow>
                  (let lines = split_crlf header_str;
                       parts = split_whitespace (hd lines);
                       meth = word_or 0 [] parts; target = word_or 1 [] parts; version = word_or 2 ''HTTP/1.1'' parts
                   in if meth = [] \<or> target = [] then (dl, Ok (HttpEnd (Some Resp400) None))
                      else let headers = headers_of (tl lines)
                           in case verify_basic_auth cr (proxy_auth_of headers) users of
                                Inl e \<Rightarrow> (dl, Ok (HttpEnd (Some Resp407) None))
                              | Inr u \<Rightarrow>
                                  (let (dl, allowed) = check_and_record_async answer (pu_id u) ip now dl
                                   in if \<not> allowed \<or> \<not> acquired (pu_id u) then (dl, Ok (HttpEnd None (Some PermissionDenied)))
                                      else if eq_ignore_ascii_case meth ''CONNECT'' then (dl, handle_connect env audit cr cfg u target leftover s)
                                      else if to_uppercase meth \<in> set FORWARDED
                                      then (dl, handle_forward env audit cfg u meth target version headers leftover s)
                                      else (dl, Ok (HttpEnd (Some Resp400) None))))))"

section \<open>Authentication\<close>

text \<open>The two keys of a user.\<close>

definition user_keys :: "panel_user \<Rightarrow> string set" where
  "user_keys u = {http_key (dec_string (unat (pu_id u))) (expected_pass u), http_key (pu_uuid u) (expected_pass u)}"

lemma al_put_entries: "(k, v) \<in> set (al_put k' v' m) \<Longrightarrow> k = k' \<and> v = v' \<or> (k, v) \<in> set m"
  by (auto simp: al_put_def)

lemma http_users_entries: "(k, u) \<in> set (http_update_users us) \<Longrightarrow> u \<in> set us \<and> k \<in> user_keys u"
proof (induction us rule: rev_induct)
  case (snoc x us)
  then show ?case by (auto simp: http_update_users_def user_keys_def dest!: al_put_entries)
qed (simp add: http_update_users_def)

lemma verify_basic_auth_sound:
  assumes "verify_basic_auth cr h (http_update_users us) = Inr u"
  shows "\<exists>name pass. credentials_of cr h = Inr (name, pass) \<and> u \<in> set us \<and> http_key name pass \<in> user_keys u"
proof -
  obtain name pass where c: "credentials_of cr h = Inr (name, pass)"
    using assms by (auto simp: verify_basic_auth_def split: sum.splits)
  have "u \<in> set us \<and> http_key name pass \<in> user_keys u"
  proof (cases "map_of (http_update_users us) (http_key name pass)")
    case None
    then obtain k where "find (\<lambda>(k, u). (dec_string (unat (pu_id u)) = name \<or> pu_uuid u = name) \<and> expected_pass u = pass) (http_update_users us) = Some (k, u)"
      using assms c by (auto simp: verify_basic_auth_def split: option.splits)
    then have "(k, u) \<in> set (http_update_users us)" "(dec_string (unat (pu_id u)) = name \<or> pu_uuid u = name) \<and> expected_pass u = pass"
      by (auto simp: find_Some_iff) (metis case_prodD nth_mem)+
    then show ?thesis using http_users_entries by (auto simp: user_keys_def)
  next
    case (Some v)
    then have "v = u" using assms c by (simp add: verify_basic_auth_def)
    then show ?thesis using http_users_entries map_of_SomeD [OF Some] by auto
  qed
  then show ?thesis using c by blast
qed

text \<open>Both names of a user are accepted with the password; the table may hold another user under the same name and password.\<close>

lemma verify_basic_auth_complete:
  assumes u: "u \<in> set us" and c: "credentials_of cr h = Inr (name, expected_pass u)" and n: "name = dec_string (unat (pu_id u)) \<or> name = pu_uuid u"
  shows "\<exists>v. verify_basic_auth cr h (http_update_users us) = Inr v"
proof -
  have "map_of (http_update_users us) k \<noteq> None" if "k \<in> user_keys u" for k
    using u that
  proof (induction us rule: rev_induct)
    case (snoc x us)
    then show ?case by (auto simp: http_update_users_def user_keys_def)
  qed simp
  then show ?thesis using c n by (fastforce simp: verify_basic_auth_def user_keys_def)
qed

lemma http_relay_relayed:
  "http_relay env audit cfg u host port prefix connect s = Ok (HttpRelay u' mh dh port' connect' prefix' s') \<Longrightarrow>
   u' = u \<and> connect' = connect \<and> prefix' = prefix \<and> s' = s \<and> \<not> should_block env audit mh (parse_ip host) port \<and> \<not> should_block env audit host (parse_ip host) port \<and>
   port' = port \<and> dh \<in> {host, mh}"
  by (auto simp: http_relay_def Let_def split: if_splits)

lemma http_relay_user:
  "handle_connect env audit cr cfg u target leftover s = Ok (HttpRelay u' mh dh port connect prefix s') \<Longrightarrow> u' = u \<and> connect"
  "handle_forward env audit cfg u meth target version hs leftover s = Ok (HttpRelay u' mh dh port connect prefix s') \<Longrightarrow> u' = u \<and> \<not> connect"
  by (auto simp: handle_connect_def handle_forward_def dest!: http_relay_relayed split: option.splits if_splits)

section \<open>Lines\<close>






















section \<open>Words\<close>

definition ws_free :: "string \<Rightarrow> bool" where
  "ws_free s \<longleftrightarrow> (\<forall>c \<in> set s. \<not> is_ws c)"




lemma split_char_pieces: "p \<in> set (split_char c s) \<Longrightarrow> c \<notin> set p \<and> set p \<subseteq> set s"
proof (induction s arbitrary: p)
  case (Cons x s)
  obtain q qs where "split_char c s = q # qs" by (cases "split_char c s") auto
  then show ?case using Cons by (auto split: if_splits) blast
qed auto

lemma split_whitespace_words: "w \<in> set (split_whitespace s) \<Longrightarrow> ws_free w"
  by (fastforce simp: split_whitespace_def ws_free_def dest: split_char_pieces split: if_splits)

lemma word_or_ws_free: "ws_free d \<Longrightarrow> ws_free (word_or i d (split_whitespace s))"
  by (auto simp: word_or_def intro!: split_whitespace_words [OF nth_mem])



section \<open>The forwarded header\<close>





section \<open>Properties\<close>

text \<open>What the handler did when it relays.\<close>

lemma http_relayed:
  assumes "snd (handle_http_connection env audit cr cfg users now answer acquired ip stream dl) = Ok (HttpRelay u mh dh port connect prefix s)"
  obtains pos buf str where "read_head [] stream = Head pos buf s" and "from_utf8 (take pos buf) = Some str"
    and "verify_basic_auth cr (proxy_auth_of (headers_of (tl (split_crlf str)))) users = Inr u"
    and "snd (check_and_record_async answer (pu_id u) ip now dl)" and "acquired (pu_id u)"
    and "connect \<and> (\<exists>target. handle_connect env audit cr cfg u target (drop (pos + 4) buf) s = Ok (HttpRelay u mh dh port connect prefix s)) \<or>
         \<not> connect \<and> (\<exists>meth target version. ws_free meth \<and> ws_free target \<and> ws_free version \<and>
             handle_forward env audit cfg u meth target version (headers_of (tl (split_crlf str))) (drop (pos + 4) buf) s = Ok (HttpRelay u mh dh port connect prefix s))"
proof -
  obtain pos buf s1 where h: "read_head [] stream = Head pos buf s1" using assms by (auto simp: handle_http_connection_def split: head_result.splits)
  obtain str where str: "from_utf8 (take pos buf) = Some str"
    using assms h by (auto simp: handle_http_connection_def Let_def split: option.splits)
  let ?hs = "headers_of (tl (split_crlf str))" and ?parts = "split_whitespace (hd (split_crlf str))"
  let ?meth = "word_or 0 [] ?parts" and ?target = "word_or 1 [] ?parts" and ?version = "word_or 2 ''HTTP/1.1'' ?parts"
  have w: "ws_free ?meth" "ws_free ?target" "ws_free ?version" by (intro word_or_ws_free; simp add: ws_free_def is_ws_def)+
  obtain v where v: "verify_basic_auth cr (proxy_auth_of ?hs) users = Inr v"
    using assms h str by (auto simp: handle_http_connection_def Let_def split: sum.splits if_splits)
  have ok: "snd (check_and_record_async answer (pu_id v) ip now dl)" "acquired (pu_id v)"
    and act: "(if eq_ignore_ascii_case ?meth ''CONNECT'' then handle_connect env audit cr cfg v ?target (drop (pos + 4) buf) s1
          else handle_forward env audit cfg v ?meth ?target ?version ?hs (drop (pos + 4) buf) s1) = Ok (HttpRelay u mh dh port connect prefix s)"
    using assms h str v by (auto simp: handle_http_connection_def Let_def split: if_splits prod.splits)
  have r: "u = v \<and> s = s1"
    using act by (auto simp: handle_connect_def handle_forward_def dest!: http_relay_relayed split: if_splits option.splits)
  show ?thesis
  proof (rule that [of pos buf str])
    show "connect \<and> (\<exists>target. handle_connect env audit cr cfg u target (drop (pos + 4) buf) s = Ok (HttpRelay u mh dh port connect prefix s)) \<or>
         \<not> connect \<and> (\<exists>meth target version. ws_free meth \<and> ws_free target \<and> ws_free version \<and>
             handle_forward env audit cfg u meth target version ?hs (drop (pos + 4) buf) s = Ok (HttpRelay u mh dh port connect prefix s))"
    proof (cases "eq_ignore_ascii_case ?meth ''CONNECT''")
      case True
      then have c: "handle_connect env audit cr cfg u ?target (drop (pos + 4) buf) s = Ok (HttpRelay u mh dh port connect prefix s)" using act r by simp
      then have "connect" using http_relay_user(1) by blast
      then show ?thesis using c by blast
    next
      case False
      then have f: "handle_forward env audit cfg u ?meth ?target ?version ?hs (drop (pos + 4) buf) s = Ok (HttpRelay u mh dh port connect prefix s)"
        using act r by simp
      then have "\<not> connect" using http_relay_user(2) by blast
      then show ?thesis using f w by blast
    qed
  qed (use h str v ok r in auto)
qed

text \<open>C39: The HTTP proxy relays only for a user of its table whose name (id or UUID) and password are the credentials of the request, whom the device limit admits and for whom a
  connection guard was acquired; and neither the host asked for nor the host it is routed by is blocked by the audit.\<close>

theorem http_authenticated_only:
  "case snd (handle_http_connection env audit cr cfg (http_update_users us) now answer acquired ip stream dl) of
     Ok (HttpRelay u mh dh port connect prefix s) \<Rightarrow>
       u \<in> set us \<and> snd (check_and_record_async answer (pu_id u) ip now dl) \<and> acquired (pu_id u) \<and>
       (\<exists>pos buf str name pass. read_head [] stream = Head pos buf s \<and> from_utf8 (take pos buf) = Some str \<and>
          credentials_of cr (proxy_auth_of (headers_of (tl (split_crlf str)))) = Inr (name, pass) \<and> http_key name pass \<in> user_keys u) \<and>
       (\<exists>host. dh \<in> {host, mh} \<and> \<not> should_block env audit host (parse_ip host) port \<and> \<not> should_block env audit mh (parse_ip host) port)
   | _ \<Rightarrow> True"
proof (cases "\<exists>u mh dh port connect prefix s. snd (handle_http_connection env audit cr cfg (http_update_users us) now answer acquired ip stream dl) =
    Ok (HttpRelay u mh dh port connect prefix s)")
  case True
  then obtain u mh dh port connect prefix s where r:
    "snd (handle_http_connection env audit cr cfg (http_update_users us) now answer acquired ip stream dl) = Ok (HttpRelay u mh dh port connect prefix s)" by blast
  from http_relayed [OF r] obtain pos buf str where h: "read_head [] stream = Head pos buf s" "from_utf8 (take pos buf) = Some str"
    "verify_basic_auth cr (proxy_auth_of (headers_of (tl (split_crlf str)))) (http_update_users us) = Inr u"
    "snd (check_and_record_async answer (pu_id u) ip now dl)" "acquired (pu_id u)"
    and act: "(\<exists>target. handle_connect env audit cr cfg u target (drop (pos + 4) buf) s = Ok (HttpRelay u mh dh port connect prefix s)) \<or>
         (\<exists>meth target version. handle_forward env audit cfg u meth target version (headers_of (tl (split_crlf str))) (drop (pos + 4) buf) s =
            Ok (HttpRelay u mh dh port connect prefix s))" by metis
  have "\<exists>host. dh \<in> {host, mh} \<and> \<not> should_block env audit host (parse_ip host) port \<and> \<not> should_block env audit mh (parse_ip host) port"
    using act by (auto simp: handle_connect_def handle_forward_def dest!: http_relay_relayed split: if_splits option.splits)
  then show ?thesis using r h verify_basic_auth_sound [OF h(3)] by auto
qed (auto split: res.split http_action.split)


end
