(* ===== verification/Vmess_Hash.thy ===== *)
theory Vmess_Hash
  imports Prelude
begin

text \<open>
  The hash functions that \<^verbatim>\<open>src/protocol/vmess/crypto.rs\<close> implements itself: CRC-32, FNV-1a, the nested HMAC of the key derivation, and SHAKE128. SHA-256 is an argument.
  The hash objects of the key derivation are trait objects; here an object is tagged with the creator that made it, which is its dynamic type.
\<close>

unbundle bit_operations_syntax

section \<open>Checksums\<close>

definition crc_bit :: "u32 \<Rightarrow> u32" where
  "crc_bit crc = (let mask = - (crc AND 1) in (drop_bit 1 crc) XOR (0xEDB88320 AND mask))"

definition crc_byte :: "u32 \<Rightarrow> u8 \<Rightarrow> u32" where
  "crc_byte crc b = (crc_bit ^^ 8) (crc XOR ucast b)"

definition crc32_ieee :: "bytes \<Rightarrow> u32" where
  "crc32_ieee data = NOT (foldl crc_byte 0xFFFFFFFF data)"

definition fnv1a_32 :: "bytes \<Rightarrow> u32" where
  "fnv1a_32 data = foldl (\<lambda>hash b. (hash XOR ucast b) * 0x01000193) 0x811c9dc5 data"

section \<open>Nested HMAC\<close>

datatype creator_node = Root bytes | Child creator_node bytes

datatype hash_obj = ShaObj bytes | HmacObj hash_obj bytes

fun hash_update :: "hash_obj \<Rightarrow> bytes \<Rightarrow> hash_obj" where
  "hash_update (ShaObj d) x = ShaObj (d @ x)"
| "hash_update (HmacObj inner pad) x = HmacObj (hash_update inner x) pad"

text \<open>\<^verbatim>\<open>NestedHmac::new\<close> over a parent that makes the object \<open>fresh\<close> and finalizes with \<open>fin\<close>; every block has 64 bytes.\<close>

definition nested_hmac_new :: "hash_obj \<Rightarrow> (hash_obj \<Rightarrow> bytes) \<Rightarrow> bytes \<Rightarrow> hash_obj" where
  "nested_hmac_new fresh fin key =
     (let actual = (if length key > 64 then fin (hash_update fresh key) else key);
          actual = (if length actual < 64 then actual @ replicate (64 - length actual) 0 else actual);
          ipad = map (\<lambda>i. 0x36 XOR actual ! i) [0..<64];
          opad = map (\<lambda>i. 0x5c XOR actual ! i) [0..<64]
      in HmacObj (hash_update fresh ipad) opad)"

fun sha_finalize :: "(bytes \<Rightarrow> bytes) \<Rightarrow> hash_obj \<Rightarrow> bytes" where
  "sha_finalize sha (ShaObj d) = sha d"
| "sha_finalize sha (HmacObj inner pad) = []"

definition hmac_finalize :: "hash_obj \<Rightarrow> (hash_obj \<Rightarrow> bytes) \<Rightarrow> hash_obj \<Rightarrow> bytes" where
  "hmac_finalize fresh fin h =
     (case h of
        HmacObj inner pad \<Rightarrow> fin (hash_update (hash_update fresh pad) (fin inner))
      | ShaObj d \<Rightarrow> [])"

fun create :: "(bytes \<Rightarrow> bytes) \<Rightarrow> creator_node \<Rightarrow> hash_obj"
  and finalize :: "(bytes \<Rightarrow> bytes) \<Rightarrow> creator_node \<Rightarrow> hash_obj \<Rightarrow> bytes" where
  "create sha (Root v) = nested_hmac_new (ShaObj []) (sha_finalize sha) v"
| "create sha (Child p v) = nested_hmac_new (create sha p) (finalize sha p) v"
| "finalize sha (Root v) h = hmac_finalize (ShaObj []) (sha_finalize sha) h"
| "finalize sha (Child p v) h = hmac_finalize (create sha p) (finalize sha p) h"

definition str_salt :: "string \<Rightarrow> bytes" where
  "str_salt s = map (\<lambda>c. of_nat (of_char c)) s"

definition KDF_SALT_VMESS_AEAD_KDF :: bytes where "KDF_SALT_VMESS_AEAD_KDF = str_salt ''VMess AEAD KDF''"

definition vmess_kdf :: "(bytes \<Rightarrow> bytes) \<Rightarrow> bytes \<Rightarrow> bytes list \<Rightarrow> bytes" where
  "vmess_kdf sha key path =
     (let node = foldl Child (Root KDF_SALT_VMESS_AEAD_KDF) path
      in finalize sha node (hash_update (create sha node) key))"

section \<open>SHAKE128\<close>

record shake128 =
  sh_state :: "u64 list"
  byte_index :: nat

definition KECCAK_ROUND_CONSTANTS :: "u64 list" where
  "KECCAK_ROUND_CONSTANTS =
     [0x0000000000000001, 0x0000000000008082, 0x800000000000808a, 0x8000000080008000, 0x000000000000808b, 0x0000000080000001,
      0x8000000080008081, 0x8000000000008009, 0x000000000000008a, 0x0000000000000088, 0x0000000080008009, 0x000000008000000a,
      0x000000008000808b, 0x800000000000008b, 0x8000000000008089, 0x8000000000008003, 0x8000000000008002, 0x8000000000000080,
      0x000000000000800a, 0x800000008000000a, 0x8000000080008081, 0x8000000000008080, 0x0000000080000001, 0x8000000080008008]"

definition SHAKE128_RATE :: nat where "SHAKE128_RATE = 168"

definition rotate_left :: "nat \<Rightarrow> u64 \<Rightarrow> u64" where
  "rotate_left n w = word_rotl n w"

definition keccak_theta :: "u64 list \<Rightarrow> u64 list" where
  "keccak_theta st =
     (let c = map (\<lambda>x. st ! x XOR st ! (x + 5) XOR st ! (x + 10) XOR st ! (x + 15) XOR st ! (x + 20)) [0..<5];
          d = map (\<lambda>x. c ! ((x + 4) mod 5) XOR rotate_left 1 (c ! ((x + 1) mod 5))) [0..<5]
      in map (\<lambda>i. st ! i XOR d ! (i mod 5)) [0..<25])"

text \<open>One step of the loop over the lanes: the position, the lane that is carried, the state.\<close>

definition rho_pi_step :: "nat \<times> nat \<times> u64 \<times> u64 list \<Rightarrow> nat \<Rightarrow> nat \<times> nat \<times> u64 \<times> u64 list" where
  "rho_pi_step a t =
     (case a of (x, y, current, st) \<Rightarrow>
        (let r = ((t + 1) * (t + 2) div 2) mod 64;
             next_x = y;
             next_y = (2 * x + 3 * y) mod 5;
             i = next_x + next_y * 5
         in (next_x, next_y, st ! i, st[i := rotate_left r current])))"

definition keccak_rho_pi :: "u64 list \<Rightarrow> u64 list" where
  "keccak_rho_pi st = (case foldl rho_pi_step (1, 0, st ! 1, st) [0..<24] of (x, y, current, st') \<Rightarrow> st')"

definition keccak_chi :: "u64 list \<Rightarrow> u64 list" where
  "keccak_chi st =
     concat (map (\<lambda>y. let row = take 5 (drop (y * 5) st) in map (\<lambda>x. row ! x XOR (NOT (row ! ((x + 1) mod 5)) AND row ! ((x + 2) mod 5))) [0..<5]) [0..<5])"

definition keccak_round :: "u64 list \<Rightarrow> u64 \<Rightarrow> u64 list" where
  "keccak_round st rc = (let st = keccak_chi (keccak_rho_pi (keccak_theta st)) in st[0 := st ! 0 XOR rc])"

definition keccak_permute :: "u64 list \<Rightarrow> u64 list" where
  "keccak_permute st = foldl keccak_round st KECCAK_ROUND_CONSTANTS"

definition absorb_byte :: "u8 \<Rightarrow> shake128 \<Rightarrow> shake128" where
  "absorb_byte b s =
     (let lane = byte_index s div 8;
          shift = (byte_index s mod 8) * 8;
          st = (sh_state s)[lane := sh_state s ! lane XOR push_bit shift (ucast b)];
          i = byte_index s + 1
      in if i = SHAKE128_RATE then \<lparr>sh_state = keccak_permute st, byte_index = 0\<rparr> else \<lparr>sh_state = st, byte_index = i\<rparr>)"

definition absorb_bytes :: "bytes \<Rightarrow> shake128 \<Rightarrow> shake128" where
  "absorb_bytes bs s = foldl (\<lambda>s b. absorb_byte b s) s bs"

text \<open>The loop \<^verbatim>\<open>while s.byte_index != last_byte\<close> runs \<open>167 - byte_index\<close> times.\<close>

definition shake_new :: "bytes \<Rightarrow> shake128" where
  "shake_new nonce =
     (let s = absorb_byte 0x1f (absorb_bytes nonce \<lparr>sh_state = replicate 25 0, byte_index = 0\<rparr>);
          s = absorb_bytes (replicate (SHAKE128_RATE - 1 - byte_index s) 0x00) s;
          s = absorb_byte 0x80 s
      in s\<lparr>byte_index := 0\<rparr>)"

definition shake_next_byte :: "shake128 \<Rightarrow> u8 \<times> shake128" where
  "shake_next_byte s =
     (let s = (if byte_index s = SHAKE128_RATE then \<lparr>sh_state = keccak_permute (sh_state s), byte_index = 0\<rparr> else s);
          lane = byte_index s div 8;
          shift = (byte_index s mod 8) * 8
      in (ucast (drop_bit shift (sh_state s ! lane)), s\<lparr>byte_index := byte_index s + 1\<rparr>))"

fun shake_read :: "nat \<Rightarrow> shake128 \<Rightarrow> bytes \<times> shake128" where
  "shake_read 0 s = ([], s)"
| "shake_read (Suc n) s = (case shake_next_byte s of (b, s) \<Rightarrow> case shake_read n s of (bs, s) \<Rightarrow> (b # bs, s))"

definition next_u16 :: "shake128 \<Rightarrow> u16 \<times> shake128" where
  "next_u16 s = (case shake_read 2 s of (bs, s) \<Rightarrow> (be16 (bs ! 0) (bs ! 1), s))"

section \<open>The key derivation is a nested HMAC\<close>

definition hmac_key :: "(bytes \<Rightarrow> bytes) \<Rightarrow> bytes \<Rightarrow> bytes" where
  "hmac_key H k = (let k = (if length k > 64 then H k else k) in take 64 (k @ replicate (64 - length k) 0))"

definition hmac :: "(bytes \<Rightarrow> bytes) \<Rightarrow> bytes \<Rightarrow> bytes \<Rightarrow> bytes" where
  "hmac H k m = H (map ((XOR) 0x5c) (hmac_key H k) @ H (map ((XOR) 0x36) (hmac_key H k) @ m))"

lemma hash_update_update [simp]: "hash_update (hash_update h x) y = hash_update h (x @ y)"
  by (induction h) simp_all

lemma pad_map: "length k \<ge> 64 \<Longrightarrow> map (\<lambda>i. c XOR k ! i) [0..<64] = map ((XOR) c) (take 64 k)" for c :: u8
  by (rule nth_equalityI) auto

lemma hmac_refines:
  assumes fin: "\<And>d. fin (hash_update fresh d) = H d"
  shows "hmac_finalize fresh fin (hash_update (nested_hmac_new fresh fin k) m) = hmac H k m"
proof -
  let ?k = "if length k > 64 then H k else k"
  let ?p = "if length ?k < 64 then ?k @ replicate (64 - length ?k) 0 else ?k"
  have "length ?p \<ge> 64" "hmac_key H k = take 64 ?p" by (auto simp: hmac_key_def Let_def)
  then have "nested_hmac_new fresh fin k = HmacObj (hash_update fresh (map ((XOR) 0x36) (hmac_key H k))) (map ((XOR) 0x5c) (hmac_key H k))"
    unfolding nested_hmac_new_def fin Let_def by (simp only: pad_map)
  then show ?thesis by (simp add: hmac_finalize_def fin hmac_def)
qed

fun node_hash :: "(bytes \<Rightarrow> bytes) \<Rightarrow> creator_node \<Rightarrow> bytes \<Rightarrow> bytes" where
  "node_hash sha (Root v) = hmac sha v"
| "node_hash sha (Child p v) = hmac (node_hash sha p) v"

lemma finalize_node: "finalize sha node (hash_update (create sha node) d) = node_hash sha node d"
proof (induction node arbitrary: d)
  case (Root v)
  then show ?case using hmac_refines [of "sha_finalize sha" "ShaObj []" sha v d] by simp
next
  case (Child p v)
  then show ?case using hmac_refines [of "finalize sha p" "create sha p" "node_hash sha p" v d] by simp
qed

lemma node_hash_path: "node_hash sha (foldl Child n path) = foldl hmac (node_hash sha n) path"
  by (induction path arbitrary: n) simp_all

lemma vmess_kdf_hmac: "vmess_kdf sha key path = foldl hmac (hmac sha KDF_SALT_VMESS_AEAD_KDF) path key"
  by (simp add: vmess_kdf_def Let_def finalize_node node_hash_path)

text \<open>The key derivation of VMess, computed with nested hash objects that absorb their input in pieces, is the iterated HMAC of the specification: HMAC-SHA256
  with the protocol's salt as key is the hash of the next HMAC, with the first element of the path as key, and so on; the last one is applied to the key.\<close>

theorem vmess_kdf_nested_hmac:
  "vmess_kdf sha key path = foldl hmac (hmac sha (str_salt ''VMess AEAD KDF'')) path key"
  by (simp add: vmess_kdf_hmac KDF_SALT_VMESS_AEAD_KDF_def)

lemma length_vmess_kdf: "(\<And>d. length (sha d) = n) \<Longrightarrow> length (vmess_kdf sha key path) = n"
proof -
  assume sha: "\<And>d. length (sha d) = n"
  have "length (foldl hmac H path d) = n" if "\<And>d. length (H d) = n" for H d
    using that by (induction path arbitrary: H d) (simp_all add: hmac_def)
  then show ?thesis using sha by (simp add: vmess_kdf_hmac hmac_def)
qed

section \<open>The permutation is Keccak-f\<close>

text \<open>The steps of the standard on lanes \<open>(x, y)\<close>, with its table of offsets.\<close>

definition lane :: "u64 list \<Rightarrow> nat \<Rightarrow> nat \<Rightarrow> u64" where
  "lane st x y = st ! (x mod 5 + 5 * (y mod 5))"

definition lanes :: "(nat \<Rightarrow> nat \<Rightarrow> u64) \<Rightarrow> u64 list" where
  "lanes f = map (\<lambda>i. f (i mod 5) (i div 5)) [0..<25]"

definition RHO :: "nat list list" where
  "RHO = [[0, 36, 3, 41, 18], [1, 44, 10, 45, 2], [62, 6, 43, 15, 61], [28, 55, 25, 21, 56], [27, 20, 39, 8, 14]]"

definition theta_spec :: "u64 list \<Rightarrow> u64 list" where
  "theta_spec st =
     (let C = (\<lambda>x. lane st x 0 XOR lane st x 1 XOR lane st x 2 XOR lane st x 3 XOR lane st x 4)
      in lanes (\<lambda>x y. lane st x y XOR C (x + 4) XOR rotate_left 1 (C (x + 1))))"

definition rho_pi_spec :: "u64 list \<Rightarrow> u64 list" where
  "rho_pi_spec st = lanes (\<lambda>x y. let x' = (x + 3 * y) mod 5 in rotate_left (RHO ! x' ! x) (lane st x' x))"

definition chi_spec :: "u64 list \<Rightarrow> u64 list" where
  "chi_spec st = lanes (\<lambda>x y. lane st x y XOR (NOT (lane st (x + 1) y) AND lane st (x + 2) y))"

definition keccak_f :: "u64 list \<Rightarrow> u64 list" where
  "keccak_f st = foldl (\<lambda>st rc. let st = chi_spec (rho_pi_spec (theta_spec st)) in st[0 := st ! 0 XOR rc]) st KECCAK_ROUND_CONSTANTS"

lemma upt_25: "[0..<25] = [0, 1, 2, 3, 4, 5, 6, 7, 8, 9, 10, 11, 12, 13, 14, 15, 16, 17, 18, 19, 20, 21, 22, 23, 24]"
  by code_simp

lemma upt_24: "[0..<24] = [0, 1, 2, 3, 4, 5, 6, 7, 8, 9, 10, 11, 12, 13, 14, 15, 16, 17, 18, 19, 20, 21, 22, 23]"
  by code_simp

lemma upt_5: "[0..<5] = [0, 1, 2, 3, 4]"
  by code_simp

lemma length_25:
  assumes "length st = 25"
  obtains a b c d e f g h i j k l m n p q r s t u v w x y z where "st = [a, b, c, d, e, f, g, h, i, j, k, l, m, n, p, q, r, s, t, u, v, w, x, y, z]"
proof -
  have "st = map ((!) st) [0..<25]" using assms map_nth [of st] by simp
  then show ?thesis using that unfolding upt_25 by auto
qed

lemma rotate_left_0: "rotate_left 0 w = w"
  by (rule bit_word_eqI) (simp add: rotate_left_def bit_word_rotl_iff)

lemma theta_standard: "length st = 25 \<Longrightarrow> keccak_theta st = theta_spec st"
  by (erule length_25) (simp add: keccak_theta_def theta_spec_def lanes_def lane_def upt_25 upt_5 Let_def xor.assoc)

lemma rho_pi_standard: "length st = 25 \<Longrightarrow> keccak_rho_pi st = rho_pi_spec st"
  by (erule length_25) (simp add: keccak_rho_pi_def rho_pi_spec_def rho_pi_step_def lanes_def lane_def RHO_def upt_25 upt_24 Let_def rotate_left_0)

lemma chi_standard: "length st = 25 \<Longrightarrow> keccak_chi st = chi_spec st"
  by (erule length_25) (simp add: keccak_chi_def chi_spec_def lanes_def lane_def upt_25 upt_5 Let_def)

lemma length_lanes [simp]: "length (lanes f) = 25"
  by (simp add: lanes_def)

lemma keccak_round_standard:
  assumes "length st = 25"
  shows "keccak_round st rc = (let st = chi_spec (rho_pi_spec (theta_spec st)) in st[0 := st ! 0 XOR rc])" and "length (keccak_round st rc) = 25"
proof -
  have l: "length (theta_spec st) = 25" "length (rho_pi_spec s) = 25" "length (chi_spec s) = 25" for s
    by (simp_all add: theta_spec_def rho_pi_spec_def chi_spec_def Let_def)
  show "keccak_round st rc = (let st = chi_spec (rho_pi_spec (theta_spec st)) in st[0 := st ! 0 XOR rc])"
    unfolding keccak_round_def using theta_standard [OF assms] rho_pi_standard [OF l(1)] chi_standard [OF l(2)] by simp
  then show "length (keccak_round st rc) = 25" by (simp add: Let_def l)
qed

lemma keccak_permute_standard:
  assumes "length st = 25"
  shows "keccak_permute st = keccak_f st \<and> length (keccak_f st) = 25"
proof -
  let ?S = "\<lambda>st rc. let st = chi_spec (rho_pi_spec (theta_spec st)) in st[0 := st ! 0 XOR rc]"
  have "foldl keccak_round st rcs = foldl ?S st rcs \<and> length (foldl keccak_round st rcs) = 25" for rcs
    using assms
  proof (induction rcs arbitrary: st)
    case (Cons rc rcs)
    show ?case using Cons.IH [OF keccak_round_standard(2) [OF Cons.prems, of rc]] keccak_round_standard(1) [OF Cons.prems, of rc] by (metis (no_types, lifting) foldl_Cons)
  qed simp
  then have "keccak_permute st = keccak_f st" "length (keccak_permute st) = 25" unfolding keccak_permute_def keccak_f_def by blast+
  then show ?thesis by metis
qed

section \<open>The sponge\<close>

text \<open>The standard: the message is padded to whole blocks, each block is added to the state, which is then permuted; the output is read block by block.\<close>

definition xor_byte :: "u64 list \<Rightarrow> nat \<times> u8 \<Rightarrow> u64 list" where
  "xor_byte st ib = (case ib of (i, b) \<Rightarrow> st[i div 8 := st ! (i div 8) XOR push_bit (8 * (i mod 8)) (ucast b)])"

definition absorb_block :: "u64 list \<Rightarrow> bytes \<Rightarrow> u64 list" where
  "absorb_block st block = keccak_f (foldl xor_byte st (enumerate 0 block))"

definition shake_pad :: "bytes \<Rightarrow> bytes" where
  "shake_pad m =
     (if length m mod 168 = 167 then m @ [0x9f]
      else m @ [0x1f] @ replicate (166 - length m mod 168) 0 @ [0x80])"

definition sponge_state :: "bytes \<Rightarrow> u64 list" where
  "sponge_state m = foldl absorb_block (replicate 25 0) (chunks_of 168 (shake_pad m))"

definition state_byte :: "u64 list \<Rightarrow> nat \<Rightarrow> u8" where
  "state_byte st i = ucast (drop_bit (8 * (i mod 8)) (st ! (i div 8)))"

definition shake128_spec :: "bytes \<Rightarrow> nat \<Rightarrow> bytes" where
  "shake128_spec m n = map (\<lambda>j. state_byte ((keccak_f ^^ (j div 168)) (sponge_state m)) (j mod 168)) [0..<n]"

lemma chunks_of_append: "0 < n \<Longrightarrow> length a = q * n \<Longrightarrow> chunks_of n (a @ b) = chunks_of n a @ chunks_of n b"
proof (induction q arbitrary: a)
  case 0
  then show ?case by (simp add: chunks_of.simps [of n "[]"])
next
  case (Suc q)
  then have "a \<noteq> []" "length (drop n a) = q * n" by auto
  then show ?case using Suc.IH [of "drop n a"] Suc.prems by (simp add: chunks_of.simps [of n "a @ b"] chunks_of.simps [of n a])
qed

lemma chunks_of_block: "0 < n \<Longrightarrow> length b = n \<Longrightarrow> chunks_of n b = [b]"
  using chunks_of.simps [of n b] chunks_of.simps [of n "[]"] by auto

lemma length_xor_lanes: "length (foldl xor_byte st ibs) = length st"
  by (induction ibs arbitrary: st) (auto simp: xor_byte_def)

text \<open>The bytes \<open>m\<close> have been absorbed: whole blocks are permuted in, the rest is added to the state.\<close>

definition absorbed :: "bytes \<Rightarrow> bytes \<Rightarrow> shake128 \<Rightarrow> bool" where
  "absorbed full rest s \<longleftrightarrow>
     (\<exists>q. length full = q * 168) \<and> length rest < 168 \<and> byte_index s = length rest \<and>
     sh_state s = foldl xor_byte (foldl absorb_block (replicate 25 0) (chunks_of 168 full)) (enumerate 0 rest) \<and> length (sh_state s) = 25"

lemma absorb_byte_absorbed:
  assumes "absorbed full rest s"
  shows "if length rest = 167 then absorbed (full @ rest @ [b]) [] (absorb_byte b s) else absorbed full (rest @ [b]) (absorb_byte b s)"
proof -
  let ?S = "foldl absorb_block (replicate 25 0) (chunks_of 168 full)"
  let ?st = "foldl xor_byte ?S (enumerate 0 (rest @ [b]))"
  obtain q where q: "length full = q * 168" using assms by (auto simp: absorbed_def)
  have st: "(sh_state s)[byte_index s div 8 := sh_state s ! (byte_index s div 8) XOR push_bit (byte_index s mod 8 * 8) (ucast b)] = ?st"
    using assms by (simp add: absorbed_def enumerate_append_eq xor_byte_def mult.commute)
  have "length ?S = 25" using assms unfolding absorbed_def by (metis length_xor_lanes)
  then have len: "length ?st = 25" by (simp add: length_xor_lanes)
  show ?thesis
  proof (cases "length rest = 167")
    case True
    have "chunks_of 168 (full @ rest @ [b]) = chunks_of 168 full @ [rest @ [b]]"
      using True chunks_of_append [OF _ q, of "rest @ [b]"] chunks_of_block [of 168 "rest @ [b]"] by simp
    then have "sh_state (absorb_byte b s) = foldl absorb_block (replicate 25 0) (chunks_of 168 (full @ rest @ [b]))" "byte_index (absorb_byte b s) = 0"
      using True assms st keccak_permute_standard [OF len]
      by (simp_all add: absorb_byte_def Let_def absorbed_def SHAKE128_RATE_def absorb_block_def)
    moreover have "length (sh_state (absorb_byte b s)) = 25"
      using True assms st keccak_permute_standard [OF len] by (simp add: absorb_byte_def Let_def absorbed_def SHAKE128_RATE_def)
    moreover have "length (full @ rest @ [b]) = Suc q * 168" using True q by simp
    ultimately show ?thesis using True unfolding absorbed_def by (metis enumerate_simps(1) foldl_Nil list.size(3) zero_less_numeral)
  next
    case False
    then show ?thesis using assms st len by (simp add: absorb_byte_def Let_def absorbed_def SHAKE128_RATE_def)
  qed
qed

lemma absorb_bytes_absorbed:
  assumes "absorbed full rest s"
  shows "\<exists>full' rest'. full @ rest @ bs = full' @ rest' \<and> absorbed full' rest' (absorb_bytes bs s)"
  using assms
proof (induction bs arbitrary: full rest s)
  case (Cons b bs)
  show ?case
  proof (cases "length rest = 167")
    case True
    then have "absorbed (full @ rest @ [b]) [] (absorb_byte b s)" using absorb_byte_absorbed [OF Cons.prems, of b] by simp
    from Cons.IH [OF this] show ?thesis by (simp add: absorb_bytes_def)
  next
    case False
    then have "absorbed full (rest @ [b]) (absorb_byte b s)" using absorb_byte_absorbed [OF Cons.prems, of b] by simp
    from Cons.IH [OF this] show ?thesis by (simp add: absorb_bytes_def)
  qed
qed (auto simp: absorb_bytes_def)

lemma absorbed_index: "absorbed full rest s \<Longrightarrow> byte_index s = length (full @ rest) mod 168"
  by (auto simp: absorbed_def)

lemma absorb_bytes_append: "absorb_bytes (a @ b) s = absorb_bytes b (absorb_bytes a s)"
  by (simp add: absorb_bytes_def)

lemma absorb_bytes_single: "absorb_bytes [b] s = absorb_byte b s"
  by (simp add: absorb_bytes_def)

lemma shake_new_state:
  assumes m: "length m mod 168 \<noteq> 167"
  shows "shake_new m = \<lparr>sh_state = sponge_state m, byte_index = 0\<rparr>" and "length (sponge_state m) = 25"
proof -
  let ?init = "\<lparr>sh_state = replicate 25 0, byte_index = 0\<rparr>"
  have s0: "absorbed [] [] ?init" by (auto simp: absorbed_def chunks_of.simps [of 168 "[]"])
  let ?one = "absorb_bytes (m @ [0x1f]) ?init"
  obtain f1 r1 where 1: "m @ [0x1f] = f1 @ r1" "absorbed f1 r1 ?one" using absorb_bytes_absorbed [OF s0, of "m @ [0x1f]"] by auto
  have "byte_index ?one = (length m + 1) mod 168" using absorbed_index [OF 1(2)] 1(1) by (metis length_append_singleton Suc_eq_plus1)
  then have i: "167 - byte_index ?one = 166 - length m mod 168" using m by (simp add: mod_Suc)
  let ?fin = "absorb_bytes (shake_pad m) ?init"
  obtain f r where 2: "shake_pad m = f @ r" "absorbed f r ?fin" using absorb_bytes_absorbed [OF s0, of "shake_pad m"] by auto
  have "length (shake_pad m) mod 168 = 0"
  proof -
    have "length m mod 168 < 168" by simp
    then have "length m mod 168 \<le> 166" using m by linarith
    then have "length (shake_pad m) = 168 * (length m div 168) + 168" using m div_mult_mod_eq [of "length m" 168] unfolding shake_pad_def by (simp only: length_append length_replicate list.size if_False)
    then show ?thesis by simp
  qed
  then have "r = []" using absorbed_index [OF 2(2)] 2 by (simp add: absorbed_def)
  then have "sh_state ?fin = sponge_state m" "byte_index ?fin = 0" "length (sh_state ?fin) = 25" using 2 by (auto simp: absorbed_def sponge_state_def)
  moreover have "shake_new m = ?fin\<lparr>byte_index := 0\<rparr>"
  proof -
    have s1: "absorb_byte 0x1f (absorb_bytes m ?init) = ?one" unfolding absorb_bytes_append absorb_bytes_single ..
    have pad: "shake_pad m = (m @ [0x1f]) @ replicate (167 - byte_index ?one) 0 @ [0x80]" unfolding i using m by (simp add: shake_pad_def)
    show ?thesis unfolding pad absorb_bytes_append [of "m @ [0x1f]"] absorb_bytes_append [of "replicate k 0" for k] absorb_bytes_single shake_new_def Let_def s1 SHAKE128_RATE_def by simp
  qed
  ultimately show "shake_new m = \<lparr>sh_state = sponge_state m, byte_index = 0\<rparr>" "length (sponge_state m) = 25" by simp_all
qed

definition squeeze :: "u64 list \<Rightarrow> nat \<Rightarrow> u8" where
  "squeeze S k = state_byte ((keccak_f ^^ (k div 168)) S) (k mod 168)"

lemma squeeze_next: "squeeze (keccak_f S) k = squeeze S (168 + k)"
proof -
  have "(168 + k) div 168 = Suc (k div 168)" by simp
  then show ?thesis unfolding squeeze_def by (simp add: funpow_swap1 del: div_add_self1)
qed

lemma shake_read_squeeze:
  "length S = 25 \<Longrightarrow> i \<le> 168 \<Longrightarrow> fst (shake_read n \<lparr>sh_state = S, byte_index = i\<rparr>) = map (\<lambda>j. squeeze S (i + j)) [0..<n]"
proof (induction n arbitrary: S i)
  case (Suc n)
  have up: "map (\<lambda>j. squeeze S (i + j)) [0..<Suc n] = squeeze S i # map (\<lambda>j. squeeze S (Suc i + j)) [0..<n]"
    by (simp add: upt_conv_Cons map_Suc_upt [symmetric] comp_def del: upt_Suc)
  show ?case
  proof (cases "i = 168")
    case True
    have k: "keccak_permute S = keccak_f S" "length (keccak_f S) = 25" using keccak_permute_standard [OF Suc.prems(1)] by auto
    have "shake_next_byte \<lparr>sh_state = S, byte_index = i\<rparr> = (squeeze (keccak_f S) 0, \<lparr>sh_state = keccak_f S, byte_index = 1\<rparr>)"
      using True k by (simp add: shake_next_byte_def SHAKE128_RATE_def squeeze_def state_byte_def Let_def)
    then show ?thesis using Suc.IH [OF k(2), of 1] True unfolding up by (auto simp: squeeze_next split: prod.split)
  next
    case False
    then have "shake_next_byte \<lparr>sh_state = S, byte_index = i\<rparr> = (squeeze S i, \<lparr>sh_state = S, byte_index = Suc i\<rparr>)"
      using Suc.prems by (simp add: shake_next_byte_def SHAKE128_RATE_def squeeze_def state_byte_def Let_def mult.commute)
    then show ?thesis using Suc.IH [OF Suc.prems(1), of "Suc i"] Suc.prems(2) False unfolding up by (auto split: prod.split)
  qed
qed simp

text \<open>C30: The SHAKE128 of the chunk lengths, which absorbs and delivers its bytes one at a time and permutes the lanes in place, is SHAKE128 of the standard: Keccak-f as
  defined on lanes with its table of offsets, the sponge over padded blocks of 168 bytes, and output block after block. (A message that leaves one byte of a block is
  padded differently; the code never absorbs one, its nonces have sixteen bytes.)\<close>

theorem shake128_standard:
  assumes "length nonce mod 168 \<noteq> 167"
  shows "fst (shake_read n (shake_new nonce)) = shake128_spec nonce n"
  using shake_read_squeeze [OF shake_new_state(2) [OF assms], of 0 n] by (simp add: shake_new_state(1) [OF assms] shake128_spec_def squeeze_def)

theorem shake128_standard_witness: "fst (shake_read 200 (shake_new (replicate 16 7))) = shake128_spec (replicate 16 7) 200"
  by (rule shake128_standard) simp

end
