(* ===== verification/Vmess_Crypto.thy ===== *)
theory Vmess_Crypto
  imports Vmess_Hash Vless_Header
begin

text \<open>
  The rest of \<^verbatim>\<open>src/protocol/vmess/crypto.rs\<close>: the keys of a user with the replay filter of its authentication IDs, the request header, the response header, and the
  chunks of the body. The block cipher, the AEAD ciphers, MD5, SHA-256 and the parsing of a UUID belong to other crates and are the fields of \<open>vmess_crates\<close>. Arrays of a fixed
  size are lists; where the code slices such an array the bounds are those of its type. An \<^verbatim>\<open>i64\<close> is a word that is read signed; it wraps.
\<close>

unbundle bit_operations_syntax

section \<open>Constants and crates\<close>

definition VMESS_VERSION :: u8 where "VMESS_VERSION = 1"
definition SECURITY_AES_128_GCM :: u8 where "SECURITY_AES_128_GCM = 3"
definition SECURITY_CHACHA20_POLY1305 :: u8 where "SECURITY_CHACHA20_POLY1305 = 4"
definition SECURITY_NONE :: u8 where "SECURITY_NONE = 5"
definition CMD_TCP :: u8 where "CMD_TCP = 1"
definition CMD_UDP :: u8 where "CMD_UDP = 2"
definition CMD_MUX :: u8 where "CMD_MUX = 3"
definition OPTION_GLOBAL_PADDING :: u8 where "OPTION_GLOBAL_PADDING = 0x08"
definition OPTION_AUTH_LENGTH :: u8 where "OPTION_AUTH_LENGTH = 0x10"

definition KDF_SALT_AUTH_ID_ENCRYPTION_KEY :: bytes where "KDF_SALT_AUTH_ID_ENCRYPTION_KEY = str_salt ''AES Auth ID Encryption''"
definition KDF_SALT_AEAD_RESP_HEADER_LEN_KEY :: bytes where "KDF_SALT_AEAD_RESP_HEADER_LEN_KEY = str_salt ''AEAD Resp Header Len Key''"
definition KDF_SALT_AEAD_RESP_HEADER_LEN_IV :: bytes where "KDF_SALT_AEAD_RESP_HEADER_LEN_IV = str_salt ''AEAD Resp Header Len IV''"
definition KDF_SALT_AEAD_RESP_HEADER_PAYLOAD_KEY :: bytes where "KDF_SALT_AEAD_RESP_HEADER_PAYLOAD_KEY = str_salt ''AEAD Resp Header Key''"
definition KDF_SALT_AEAD_RESP_HEADER_PAYLOAD_IV :: bytes where "KDF_SALT_AEAD_RESP_HEADER_PAYLOAD_IV = str_salt ''AEAD Resp Header IV''"
definition KDF_SALT_HEADER_PAYLOAD_KEY :: bytes where "KDF_SALT_HEADER_PAYLOAD_KEY = str_salt ''VMess Header AEAD Key''"
definition KDF_SALT_HEADER_PAYLOAD_IV :: bytes where "KDF_SALT_HEADER_PAYLOAD_IV = str_salt ''VMess Header AEAD Nonce''"
definition KDF_SALT_HEADER_PAYLOAD_LEN_KEY :: bytes where "KDF_SALT_HEADER_PAYLOAD_LEN_KEY = str_salt ''VMess Header AEAD Key_Length''"
definition KDF_SALT_HEADER_PAYLOAD_LEN_IV :: bytes where "KDF_SALT_HEADER_PAYLOAD_LEN_IV = str_salt ''VMess Header AEAD Nonce_Length''"

datatype vmess_cipher = AesGcm bytes | ChaCha20 bytes

text \<open>\<open>vm_seal c cipher nonce aad plain\<close> is the ciphertext with its tag, \<open>vm_open c cipher nonce aad data tag\<close> the plaintext.\<close>

record vmess_crates =
  vm_sha256 :: "bytes \<Rightarrow> bytes"
  vm_md5 :: "bytes \<Rightarrow> bytes"
  vm_uuid :: "string \<Rightarrow> bytes option"
  vm_aes_decrypt :: "bytes \<Rightarrow> bytes \<Rightarrow> bytes"
  vm_seal :: "vmess_cipher \<Rightarrow> bytes \<Rightarrow> bytes \<Rightarrow> bytes \<Rightarrow> (bytes \<times> bytes) option"
  vm_open :: "vmess_cipher \<Rightarrow> bytes \<Rightarrow> bytes \<Rightarrow> bytes \<Rightarrow> bytes \<Rightarrow> bytes option"

definition aes_gcm_new :: "bytes \<Rightarrow> vmess_cipher res" where
  "aes_gcm_new key = (if length key = 16 then Ok (AesGcm key) else Err InvalidData)"

definition chacha_new :: "bytes \<Rightarrow> vmess_cipher res" where
  "chacha_new key = (if length key = 32 then Ok (ChaCha20 key) else Err InvalidData)"

definition kdf :: "vmess_crates \<Rightarrow> bytes \<Rightarrow> bytes list \<Rightarrow> bytes" where
  "kdf C = vmess_kdf (vm_sha256 C)"

definition derive_cmd_key :: "vmess_crates \<Rightarrow> bytes \<Rightarrow> bytes" where
  "derive_cmd_key C uuid = vm_md5 C (uuid @ str_salt ''c48619fe-8f02-49e0-b9e9-edf763e17e21'')"

definition generate_chacha20_poly1305_key :: "vmess_crates \<Rightarrow> bytes \<Rightarrow> bytes" where
  "generate_chacha20_poly1305_key C key = (let d1 = vm_md5 C key in d1 @ vm_md5 C d1)"

section \<open>Authentication IDs\<close>

text \<open>\<^verbatim>\<open>i64::abs\<close>, which leaves the least integer as it is.\<close>

definition i64_abs :: "u64 \<Rightarrow> u64" where
  "i64_abs w = (if sint w < 0 then - w else w)"

type_synonym replay_filter = "bytes \<rightharpoonup> u64"

definition check_and_insert :: "bytes \<Rightarrow> u64 \<Rightarrow> replay_filter \<Rightarrow> bool \<times> replay_filter" where
  "check_and_insert auth_id now_sec records =
     (let records = (\<lambda>k. case records k of Some ts \<Rightarrow> if sint (i64_abs (now_sec - ts)) \<le> 120 then Some ts else None | None \<Rightarrow> None)
      in if records auth_id \<noteq> None then (False, records) else (True, records(auth_id \<mapsto> now_sec)))"

record vmess_user_keys =
  cmd_key :: bytes
  auth_id_key :: bytes
  vk_replay_filter :: replay_filter

definition vmess_user_keys_new :: "vmess_crates \<Rightarrow> string \<Rightarrow> vmess_user_keys option" where
  "vmess_user_keys_new C uuid_str =
     (case vm_uuid C uuid_str of
        None \<Rightarrow> None
      | Some parsed \<Rightarrow>
          (let key = derive_cmd_key C parsed;
               auth_key = take 16 (kdf C key [KDF_SALT_AUTH_ID_ENCRYPTION_KEY])
           in if length auth_key = 16 then Some \<lparr>cmd_key = key, auth_id_key = auth_key, vk_replay_filter = Map.empty\<rparr> else None))"

definition auth_timestamp :: "vmess_crates \<Rightarrow> vmess_user_keys \<Rightarrow> bytes \<Rightarrow> u64" where
  "auth_timestamp C k auth_id = be_word (take 8 (vm_aes_decrypt C (auth_id_key k) auth_id))"

definition auth_checksum_ok :: "vmess_crates \<Rightarrow> vmess_user_keys \<Rightarrow> bytes \<Rightarrow> bool" where
  "auth_checksum_ok C k auth_id =
     (let decoded = vm_aes_decrypt C (auth_id_key k) auth_id
      in be_word (take 4 (drop 12 decoded)) = crc32_ieee (take 12 decoded))"

definition validate_auth_id :: "vmess_crates \<Rightarrow> bytes \<Rightarrow> u64 \<Rightarrow> vmess_user_keys \<Rightarrow> bool \<times> vmess_user_keys" where
  "validate_auth_id C auth_id now_sec k =
     (if \<not> auth_checksum_ok C k auth_id then (False, k)
      else if sint (i64_abs (auth_timestamp C k auth_id - now_sec)) > 120 then (False, k)
      else case check_and_insert auth_id now_sec (vk_replay_filter k) of (ok, f) \<Rightarrow> (ok, k\<lparr>vk_replay_filter := f\<rparr>))"

section \<open>The request header\<close>

record vmess_request_header =
  vmh_version :: u8
  vmh_body_key :: bytes
  vmh_body_nonce :: bytes
  vmh_response_header :: u8
  vmh_option :: u8
  vmh_security :: u8
  vmh_command :: u8
  vmh_port :: u16
  vmh_host :: string
  vmh_ip :: "ip_addr option"

definition decrypt_vmess_header_length :: "vmess_crates \<Rightarrow> bytes \<Rightarrow> bytes \<Rightarrow> bytes \<Rightarrow> bytes \<Rightarrow> nat res" where
  "decrypt_vmess_header_length C key auth_id connection_nonce enc_len_block =
     (let len_key = take 16 (kdf C key [KDF_SALT_HEADER_PAYLOAD_LEN_KEY, auth_id, connection_nonce]);
          len_iv = take 12 (kdf C key [KDF_SALT_HEADER_PAYLOAD_LEN_IV, auth_id, connection_nonce])
      in and_then (aes_gcm_new len_key) (\<lambda>cipher_len.
         and_then (ok_or InvalidData (vm_open C cipher_len len_iv auth_id (take 2 enc_len_block) (drop 2 enc_len_block))) (\<lambda>len_data.
         map_res unat (be16_at len_data 0))))"

definition header_ip :: "bytes \<Rightarrow> nat \<Rightarrow> nat \<Rightarrow> (bytes \<Rightarrow> ip_addr) \<Rightarrow> (nat \<times> string \<times> ip_addr option) res" where
  "header_ip h cursor n mk =
     (if length h < cursor + n then Err UnexpectedEof
      else and_then (slice h cursor (cursor + n)) (\<lambda>octs. Ok (cursor + n, ip_string (mk octs), Some (mk octs))))"

definition header_host :: "bytes \<Rightarrow> nat \<Rightarrow> u8 \<Rightarrow> (nat \<times> string \<times> ip_addr option) res" where
  "header_host h cursor atyp =
     (if atyp = 0x01 then header_ip h cursor 4 (\<lambda>o4. ipv4_new (o4 ! 0) (o4 ! 1) (o4 ! 2) (o4 ! 3))
      else if atyp = 0x02 then
        (if length h < cursor + 1 then Err UnexpectedEof
         else and_then (byte_at h cursor) (\<lambda>domain_len.
           if length h < cursor + 1 + unat domain_len then Err UnexpectedEof
           else and_then (slice h (cursor + 1) (cursor + 1 + unat domain_len)) (\<lambda>domain.
             Ok (cursor + 1 + unat domain_len, from_utf8_lossy domain, None))))
      else if atyp = 0x03 then header_ip h cursor 16 ipv6_from
      else Err InvalidData)"

definition header_target :: "bytes \<Rightarrow> u8 \<Rightarrow> (nat \<times> u16 \<times> string \<times> ip_addr option) res" where
  "header_target h command =
     (if command = CMD_MUX then Ok (38, 0, ''v1.mux.cool'', None)
      else if length h < 38 + 3 then Err UnexpectedEof
      else and_then (be16_at h 38) (\<lambda>port. and_then (byte_at h 40) (\<lambda>atyp.
           and_then (header_host h 41 atyp) (\<lambda>(cursor, host, ip). Ok (cursor, port, host, ip)))))"

definition parse_vmess_header :: "bytes \<Rightarrow> vmess_request_header res" where
  "parse_vmess_header h =
     (if length h < 38 then Err InvalidData
      else and_then (byte_at h 0) (\<lambda>version.
        if version \<noteq> VMESS_VERSION then Err InvalidData
        else and_then (slice h 1 17) (\<lambda>nonce. and_then (slice h 17 33) (\<lambda>key.
             and_then (byte_at h 33) (\<lambda>response_header. and_then (byte_at h 34) (\<lambda>opt. and_then (byte_at h 35) (\<lambda>b35. and_then (byte_at h 37) (\<lambda>command.
             and_then (header_target h command) (\<lambda>(cursor, port, host, ip).
             let padding_len = unat (drop_bit 4 b35) in
             if length h < cursor + padding_len + 4 then Err UnexpectedEof
             else and_then (slice h 0 (cursor + padding_len)) (\<lambda>data_to_check. and_then (be32_at h (cursor + padding_len)) (\<lambda>expected_fnv.
             if expected_fnv \<noteq> fnv1a_32 data_to_check then Err InvalidData
             else Ok \<lparr>vmh_version = version, vmh_body_key = key, vmh_body_nonce = nonce, vmh_response_header = response_header, vmh_option = opt,
                      vmh_security = b35 AND 0x0F, vmh_command = command, vmh_port = port, vmh_host = host, vmh_ip = ip\<rparr>)))))))))))"

definition decrypt_vmess_header :: "vmess_crates \<Rightarrow> bytes \<Rightarrow> bytes \<Rightarrow> bytes \<Rightarrow> bytes \<Rightarrow> bytes \<Rightarrow> vmess_request_header res" where
  "decrypt_vmess_header C key auth_id enc_len_block connection_nonce enc_header_payload =
     and_then (decrypt_vmess_header_length C key auth_id connection_nonce enc_len_block) (\<lambda>header_len.
     if length enc_header_payload < header_len + 16 then Err UnexpectedEof
     else let header_key = take 16 (kdf C key [KDF_SALT_HEADER_PAYLOAD_KEY, auth_id, connection_nonce]);
              header_iv = take 12 (kdf C key [KDF_SALT_HEADER_PAYLOAD_IV, auth_id, connection_nonce])
          in and_then (aes_gcm_new header_key) (\<lambda>cipher_header.
             and_then (slice enc_header_payload 0 header_len) (\<lambda>header_data.
             and_then (slice enc_header_payload header_len (header_len + 16)) (\<lambda>header_tag.
             and_then (ok_or InvalidData (vm_open C cipher_header header_iv auth_id header_data header_tag)) parse_vmess_header))))"

section \<open>The response header\<close>

definition create_vmess_response_header :: "vmess_crates \<Rightarrow> bytes \<Rightarrow> bytes \<Rightarrow> u8 \<Rightarrow> u8 \<Rightarrow> (bytes \<times> bytes \<times> bytes) res" where
  "create_vmess_response_header C request_body_key request_body_nonce response_header_byte opt =
     (let resp_key = take 16 (vm_sha256 C request_body_key);
          resp_nonce = take 16 (vm_sha256 C request_body_nonce);
          header_len_key = take 16 (kdf C resp_key [KDF_SALT_AEAD_RESP_HEADER_LEN_KEY]);
          header_len_iv = take 12 (kdf C resp_nonce [KDF_SALT_AEAD_RESP_HEADER_LEN_IV]);
          header_payload_key = take 16 (kdf C resp_key [KDF_SALT_AEAD_RESP_HEADER_PAYLOAD_KEY]);
          header_payload_iv = take 12 (kdf C resp_nonce [KDF_SALT_AEAD_RESP_HEADER_PAYLOAD_IV])
      in and_then (aes_gcm_new header_len_key) (\<lambda>cipher_len.
         and_then (ok_or InvalidData (vm_seal C cipher_len header_len_iv [] (be16_bytes 4))) (\<lambda>(len_data, tag_len).
         and_then (aes_gcm_new header_payload_key) (\<lambda>cipher_payload.
         and_then (ok_or InvalidData (vm_seal C cipher_payload header_payload_iv [] [response_header_byte, opt, 0, 0])) (\<lambda>(payload_data, tag_payload).
         Ok (len_data @ tag_len @ payload_data @ tag_payload, resp_key, resp_nonce))))))"

section \<open>Chunks\<close>

datatype chunk_length_codec =
    Authenticated vmess_cipher bytes u16
  | Masked shake128 bool

record chunk_decrypter =
  cd_codec :: chunk_length_codec
  cd_cipher :: vmess_cipher
  cd_nonce_base :: bytes
  cd_count :: u16
  cd_authenticated :: bool
  cd_padding :: nat

record chunk_encrypter =
  ce_codec :: chunk_length_codec
  ce_cipher :: vmess_cipher
  ce_nonce_base :: bytes
  ce_count :: u16
  ce_authenticated :: bool

definition has_option :: "u8 \<Rightarrow> u8 \<Rightarrow> bool" where
  "has_option opt flag \<longleftrightarrow> opt AND flag \<noteq> 0"

definition body_cipher :: "vmess_crates \<Rightarrow> bytes \<Rightarrow> u8 \<Rightarrow> vmess_cipher res" where
  "body_cipher C key security =
     (if security = SECURITY_CHACHA20_POLY1305 then chacha_new (generate_chacha20_poly1305_key C key) else aes_gcm_new key)"

text \<open>Both constructors choose the codec in the same way.\<close>

definition length_codec :: "vmess_crates \<Rightarrow> bytes \<Rightarrow> bytes \<Rightarrow> u8 \<Rightarrow> u8 \<Rightarrow> chunk_length_codec res" where
  "length_codec C key nonce security opt =
     (if has_option opt OPTION_AUTH_LENGTH then
        map_res (\<lambda>cipher. Authenticated cipher (take 12 nonce) 0) (body_cipher C (take 16 (kdf C key [str_salt ''auth_len''])) security)
      else Ok (Masked (shake_new nonce) (has_option opt OPTION_GLOBAL_PADDING)))"

definition chunk_decrypter_new :: "vmess_crates \<Rightarrow> bytes \<Rightarrow> bytes \<Rightarrow> u8 \<Rightarrow> u8 \<Rightarrow> chunk_decrypter res" where
  "chunk_decrypter_new C request_key request_nonce security opt =
     and_then (length_codec C request_key request_nonce security opt) (\<lambda>codec.
     and_then (body_cipher C request_key security) (\<lambda>cipher.
     Ok \<lparr>cd_codec = codec, cd_cipher = cipher, cd_nonce_base = take 12 request_nonce, cd_count = 0,
         cd_authenticated = has_option opt OPTION_AUTH_LENGTH, cd_padding = 0\<rparr>))"

definition chunk_encrypter_new :: "vmess_crates \<Rightarrow> bytes \<Rightarrow> bytes \<Rightarrow> u8 \<Rightarrow> u8 \<Rightarrow> chunk_encrypter res" where
  "chunk_encrypter_new C resp_key resp_nonce security opt =
     and_then (length_codec C resp_key resp_nonce security opt) (\<lambda>codec.
     and_then (body_cipher C resp_key security) (\<lambda>cipher.
     Ok \<lparr>ce_codec = codec, ce_cipher = cipher, ce_nonce_base = take 12 resp_nonce, ce_count = 0,
         ce_authenticated = has_option opt OPTION_AUTH_LENGTH\<rparr>))"

definition count_nonce :: "bytes \<Rightarrow> u16 \<Rightarrow> bytes" where
  "count_nonce base count = base[0 := be16_bytes count ! 0, 1 := be16_bytes count ! 1]"

definition next_padding :: "bool \<Rightarrow> shake128 \<Rightarrow> nat \<times> shake128" where
  "next_padding global_padding shake =
     (if global_padding then (case next_u16 shake of (w, shake) \<Rightarrow> (unat (w mod 64), shake)) else (0, shake))"

text \<open>The checks of a length: \<open>0\<close> is the end of the stream.\<close>

definition checked_length :: "nat \<Rightarrow> nat \<Rightarrow> nat res" where
  "checked_length total_len padding_len =
     (if total_len = 16 + padding_len then Ok 0 else if total_len < 16 + padding_len then Err InvalidData else Ok total_len)"

text \<open>The decrypter after the call is returned on an error too: the counter or the mask has moved.\<close>

definition vmess_decrypt_length :: "vmess_crates \<Rightarrow> bytes \<Rightarrow> chunk_decrypter \<Rightarrow> nat res \<times> chunk_decrypter" where
  "vmess_decrypt_length C raw d =
     (case cd_codec d of
        Authenticated cipher nonce_base count \<Rightarrow>
          (if length raw < 18 then (Err UnexpectedEof, d)
           else let d = d\<lparr>cd_codec := Authenticated cipher nonce_base (count + 1)\<rparr>
                in case vm_open C cipher (count_nonce nonce_base count) [] (take 2 raw) (take 16 (drop 2 raw)) of
                     None \<Rightarrow> (Err InvalidData, d)
                   | Some data \<Rightarrow> (and_then (be16_at data 0) (\<lambda>total_len. checked_length (unat total_len) 0), d\<lparr>cd_padding := 0\<rparr>))
      | Masked shake global_padding \<Rightarrow>
          (if length raw < 2 then (Err UnexpectedEof, d)
           else case next_padding global_padding shake of (padding_len, shake) \<Rightarrow>
                case next_u16 shake of (msk, shake) \<Rightarrow>
                  (and_then (be16_at raw 0) (\<lambda>enc_len. checked_length (unat (enc_len XOR msk)) padding_len),
                   d\<lparr>cd_codec := Masked shake global_padding, cd_padding := padding_len\<rparr>)))"

definition decrypt_chunk_payload :: "vmess_crates \<Rightarrow> bytes \<Rightarrow> chunk_decrypter \<Rightarrow> bytes res \<times> chunk_decrypter" where
  "decrypt_chunk_payload C buf d =
     (if length buf < 16 + cd_padding d then (Err UnexpectedEof, d)
      else let effective_len = length buf - cd_padding d;
               data_len = effective_len - 16;
               nonce = count_nonce (cd_nonce_base d) (cd_count d);
               payload_slice = take data_len buf;
               tag_slice = take 16 (drop data_len buf)
           in (ok_or InvalidData (vm_open C (cd_cipher d) nonce [] payload_slice tag_slice), d\<lparr>cd_count := cd_count d + 1\<rparr>))"

definition encode_length :: "vmess_crates \<Rightarrow> u16 \<Rightarrow> chunk_length_codec \<Rightarrow> bytes res \<times> chunk_length_codec" where
  "encode_length C chunk_total_len codec =
     (case codec of
        Authenticated cipher nonce_base count \<Rightarrow>
          (map_res (\<lambda>(data, tag). data @ tag) (ok_or InvalidData (vm_seal C cipher (count_nonce nonce_base count) [] (be16_bytes chunk_total_len))),
           Authenticated cipher nonce_base (count + 1))
      | Masked shake global_padding \<Rightarrow>
          (case next_u16 shake of (msk, shake) \<Rightarrow> (Ok (be16_bytes (chunk_total_len XOR msk)), Masked shake global_padding)))"

definition chunk_padding :: "chunk_length_codec \<Rightarrow> nat \<times> chunk_length_codec" where
  "chunk_padding codec =
     (case codec of
        Authenticated cipher nonce_base count \<Rightarrow> (0, codec)
      | Masked shake global_padding \<Rightarrow> (case next_padding global_padding shake of (padding_len, shake) \<Rightarrow> (padding_len, Masked shake global_padding)))"

text \<open>What is appended to the buffer, which the callers discard on an error; the encrypter has moved then too.\<close>

definition vmess_encrypt_chunk :: "vmess_crates \<Rightarrow> bytes \<Rightarrow> chunk_encrypter \<Rightarrow> bytes res \<times> chunk_encrypter" where
  "vmess_encrypt_chunk C payload e =
     (if length payload > 65535 - 16 then (Err InvalidInput, e)
      else case chunk_padding (ce_codec e) of (padding_len, codec) \<Rightarrow>
        if length payload + 16 + padding_len \<ge> 65536 then (Err InvalidInput, e\<lparr>ce_codec := codec\<rparr>)
        else case encode_length C (of_nat (length payload + 16 + padding_len)) codec of (len_block, codec) \<Rightarrow>
          (case len_block of
             Ok len_block \<Rightarrow>
               (map_res (\<lambda>(payload_data, tag_p). len_block @ payload_data @ tag_p @ replicate padding_len 0)
                  (ok_or InvalidData (vm_seal C (ce_cipher e) (count_nonce (ce_nonce_base e) (ce_count e)) [] payload)),
                e\<lparr>ce_codec := codec, ce_count := ce_count e + 1\<rparr>)
           | Err err \<Rightarrow> (Err err, e\<lparr>ce_codec := codec\<rparr>)
           | Panic \<Rightarrow> (Panic, e\<lparr>ce_codec := codec\<rparr>)))"

section \<open>What the crates promise\<close>

text \<open>The digests have their sizes; a block of at most 65535 bytes can be sealed, its tag has 16 bytes, and it is opened again; decryption in place keeps the length.\<close>

definition vmess_crates_ok :: "vmess_crates \<Rightarrow> bool" where
  "vmess_crates_ok C \<longleftrightarrow>
     (\<forall>d. length (vm_sha256 C d) = 32) \<and> (\<forall>d. length (vm_md5 C d) = 16) \<and>
     (\<forall>c n a p. length p \<le> 65535 \<longrightarrow>
        (\<exists>data tag. vm_seal C c n a p = Some (data, tag) \<and> length data = length p \<and> length tag = 16 \<and> vm_open C c n a data tag = Some p)) \<and>
     (\<forall>c n a d t p. vm_open C c n a d t = Some p \<longrightarrow> length p = length d)"

lemma length_kdf: "vmess_crates_ok C \<Longrightarrow> length (kdf C key path) = 32"
  unfolding kdf_def by (rule length_vmess_kdf) (simp add: vmess_crates_ok_def)

lemma seal_opens:
  assumes "vmess_crates_ok C" "length p \<le> 65535"
  shows "\<exists>data tag. vm_seal C c n a p = Some (data, tag) \<and> length data = length p \<and> length tag = 16 \<and> vm_open C c n a data tag = Some p"
  using assms unfolding vmess_crates_ok_def by blast

lemma open_length: "vmess_crates_ok C \<Longrightarrow> vm_open C c n a d t = Some p \<Longrightarrow> length p = length d"
  unfolding vmess_crates_ok_def by blast

lemma be16_at_bytes [simp]: "be16_at (be16_bytes w) 0 = Ok w"
  by (simp add: be16_at_def byte_at_def be16_bytes_def be16_inverse [unfolded be16_bytes_def])

section \<open>Chunks are read back\<close>

text \<open>The two ends of a direction are in step.\<close>

definition chunks_in_step :: "chunk_encrypter \<Rightarrow> chunk_decrypter \<Rightarrow> bool" where
  "chunks_in_step e d \<longleftrightarrow>
     ce_codec e = cd_codec d \<and> ce_cipher e = cd_cipher d \<and> ce_nonce_base e = cd_nonce_base d \<and> ce_count e = cd_count d \<and>
     (cd_authenticated d \<longleftrightarrow> (case cd_codec d of Authenticated cipher base count \<Rightarrow> True | Masked shake g \<Rightarrow> False))"

definition length_block_size :: "chunk_decrypter \<Rightarrow> nat" where
  "length_block_size d = (if cd_authenticated d then 18 else 2)"

lemma next_padding_bound: "next_padding g s = (n, s') \<Longrightarrow> n < 64"
  by (auto simp: next_padding_def unat_mod split: if_splits prod.splits)

lemma chunk_padding_bound: "chunk_padding codec = (n, codec') \<Longrightarrow> n < 64"
  by (auto simp: chunk_padding_def split: chunk_length_codec.splits prod.splits dest: next_padding_bound)

lemma length_read_back:
  assumes C: "vmess_crates_ok C" and d: "cd_codec d = codec" and p: "chunk_padding codec = (pad, codec1)" and e: "encode_length C len codec1 = (Ok blk, codec2)"
  shows "vmess_decrypt_length C blk d = (checked_length (unat len) pad, d\<lparr>cd_codec := codec2, cd_padding := pad\<rparr>) \<and>
         length blk = (case codec of Authenticated cipher base count \<Rightarrow> 18 | Masked shake g \<Rightarrow> 2) \<and>
         (case codec2 of Authenticated cipher base count \<Rightarrow> True | Masked shake g \<Rightarrow> False) = (case codec of Authenticated cipher base count \<Rightarrow> True | Masked shake g \<Rightarrow> False)"
proof (cases codec)
  case (Authenticated cipher base count)
  obtain data tag where s: "vm_seal C cipher (count_nonce base count) [] (be16_bytes len) = Some (data, tag)" "length data = length (be16_bytes len)" "length tag = 16"
      "vm_open C cipher (count_nonce base count) [] data tag = Some (be16_bytes len)"
    using seal_opens [OF C, of "be16_bytes len" cipher "count_nonce base count" "[]"] by auto
  have "blk = data @ tag" "codec2 = Authenticated cipher base (count + 1)" "pad = 0" using p e s Authenticated by (auto simp: chunk_padding_def encode_length_def)
  then show ?thesis using s d Authenticated by (simp add: vmess_decrypt_length_def Let_def)
next
  case (Masked shake g)
  obtain s1 where s1: "next_padding g shake = (pad, s1)" "codec1 = Masked s1 g" using p Masked by (auto simp: chunk_padding_def split: prod.splits)
  obtain msk s2 where s2: "next_u16 s1 = (msk, s2)" by fastforce
  then have "blk = be16_bytes (len XOR msk)" "codec2 = Masked s2 g" using e s1 by (auto simp: encode_length_def)
  then show ?thesis using s1 s2 d Masked by (simp add: vmess_decrypt_length_def xor.assoc)
qed

lemma chunk_read_back:
  assumes C: "vmess_crates_ok C" and i: "chunks_in_step e d" and w: "vmess_encrypt_chunk C p e = (Ok w, e')"
  obtains blk body d1 d2 where "w = blk @ body" "length blk = length_block_size d" "length body \<le> 65535" "0 < length body"
    "vmess_decrypt_length C blk d = (Ok (if p = [] then 0 else length body), d1)" "decrypt_chunk_payload C body d1 = (Ok p, d2)" "chunks_in_step e' d2"
proof -
  obtain pad codec1 where pad: "chunk_padding (ce_codec e) = (pad, codec1)" by fastforce
  let ?len = "length p + 16 + pad"
  have len: "?len < 65536" using w pad by (auto simp: vmess_encrypt_chunk_def split: if_splits)
  obtain r codec2 where enc: "encode_length C (of_nat ?len) codec1 = (r, codec2)" by fastforce
  obtain blk where r: "r = Ok blk" using w pad enc len by (cases r) (auto simp: vmess_encrypt_chunk_def split: if_splits)
  let ?n = "count_nonce (ce_nonce_base e) (ce_count e)"
  obtain data tag where s: "vm_seal C (ce_cipher e) ?n [] p = Some (data, tag)" "length data = length p" "length tag = 16" "vm_open C (ce_cipher e) ?n [] data tag = Some p"
    using seal_opens [OF C, of p "ce_cipher e" ?n "[]"] len by auto
  let ?body = "data @ tag @ replicate pad 0"
  let ?d = "d\<lparr>cd_codec := codec2, cd_padding := pad\<rparr>"
  have w': "w = blk @ ?body" "e' = e\<lparr>ce_codec := codec2, ce_count := ce_count e + 1\<rparr>"
    using w pad enc r s len by (auto simp: vmess_encrypt_chunk_def split: if_splits)
  have un: "unat (of_nat ?len :: u16) = ?len" using len by (simp only: unat_of_nat take_bit_nat_eq_self_iff len_num1 len_bit0) (simp add: take_bit_nat_eq_self)
  note rb = length_read_back [OF C _ pad enc [unfolded r], of d]
  have "vmess_decrypt_length C blk d = (Ok (if p = [] then 0 else length ?body), ?d)" "length blk = length_block_size d"
    using rb i un s by (auto simp: chunks_in_step_def checked_length_def length_block_size_def split: chunk_length_codec.splits)
  moreover have "decrypt_chunk_payload C ?body ?d = (Ok p, ?d\<lparr>cd_count := cd_count d + 1\<rparr>)" using s i by (simp add: decrypt_chunk_payload_def Let_def chunks_in_step_def)
  moreover have "chunks_in_step e' (?d\<lparr>cd_count := cd_count d + 1\<rparr>)" using rb i w'(2) by (simp add: chunks_in_step_def)
  ultimately show ?thesis using that [of blk ?body ?d] w'(1) s len by simp
qed

lemma vmess_encrypt_chunk_succeeds:
  assumes C: "vmess_crates_ok C" and p: "length p \<le> 65456"
  obtains w e' where "vmess_encrypt_chunk C p e = (Ok w, e')"
proof -
  obtain pad codec1 where pad: "chunk_padding (ce_codec e) = (pad, codec1)" by fastforce
  have len: "length p + 16 + pad < 65536" using p chunk_padding_bound [OF pad] by simp
  obtain r codec2 where enc: "encode_length C (of_nat (length p + 16 + pad)) codec1 = (r, codec2)" by fastforce
  obtain blk where r: "r = Ok blk"
  proof (cases codec1)
    case (Authenticated cipher base count)
    obtain data tag where "vm_seal C cipher (count_nonce base count) [] (be16_bytes (of_nat (length p + 16 + pad))) = Some (data, tag)"
      using seal_opens [OF C, of "be16_bytes (of_nat (length p + 16 + pad))" cipher "count_nonce base count" "[]"] by auto
    then show ?thesis using that enc Authenticated by (auto simp: encode_length_def)
  next
    case (Masked shake g)
    then show ?thesis using that enc by (auto simp: encode_length_def split: prod.splits)
  qed
  obtain data tag where "vm_seal C (ce_cipher e) (count_nonce (ce_nonce_base e) (ce_count e)) [] p = Some (data, tag)" using seal_opens [OF C, of p "ce_cipher e" "count_nonce (ce_nonce_base e) (ce_count e)" "[]"] p by auto
  then show ?thesis using that p pad enc r len by (simp add: vmess_encrypt_chunk_def)
qed

lemma new_in_step:
  assumes C: "vmess_crates_ok C" and k: "length key = 16"
  obtains e d where "chunk_encrypter_new C key nonce security opt = Ok e" "chunk_decrypter_new C key nonce security opt = Ok d" "chunks_in_step e d"
proof -
  have bc: "\<exists>c. body_cipher C k' security = Ok c" if "length k' = 16" for k'
    using C that by (simp add: body_cipher_def chacha_new_def aes_gcm_new_def generate_chacha20_poly1305_key_def vmess_crates_ok_def Let_def)
  obtain c1 where c1: "body_cipher C key security = Ok c1" using bc [OF k] by blast
  obtain c2 where c2: "body_cipher C (take 16 (kdf C key [str_salt ''auth_len''])) security = Ok c2"
    using bc [of "take 16 (kdf C key [str_salt ''auth_len''])"] length_kdf [OF C] by auto
  show ?thesis
  proof (cases "has_option opt OPTION_AUTH_LENGTH")
    case True
    then show ?thesis using that c1 c2 by (simp add: chunk_encrypter_new_def chunk_decrypter_new_def length_codec_def chunks_in_step_def)
  next
    case False
    then show ?thesis using that c1 by (simp add: chunk_encrypter_new_def chunk_decrypter_new_def length_codec_def chunks_in_step_def)
  qed
qed

section \<open>Authentication IDs are accepted once\<close>

text \<open>A clock between 1970 and the far future.\<close>

definition clock_ok :: "u64 \<Rightarrow> bool" where
  "clock_ok t \<longleftrightarrow> 0 \<le> sint t \<and> sint t < 2 ^ 62"

fun validate_all :: "vmess_crates \<Rightarrow> vmess_user_keys \<Rightarrow> (bytes \<times> u64) list \<Rightarrow> bool list" where
  "validate_all C k [] = []"
| "validate_all C k ((a, t) # calls) = (case validate_auth_id C a t k of (ok, k) \<Rightarrow> ok # validate_all C k calls)"

lemma sint_of_int_64: "- (2 ^ 63) \<le> i \<Longrightarrow> i < 2 ^ 63 \<Longrightarrow> sint (word_of_int i :: u64) = i"
  by (simp add: sint_uint signed_take_bit_int_eq_self_iff unsigned_of_int signed_take_bit_take_bit)

lemma sint_64_range: "- (2 ^ 63) \<le> sint (w :: u64)" "sint (w :: u64) < 2 ^ 63"
  using sint_ge [of w] sint_lt [of w] by simp_all

lemma sint_minus_64: "sint (w :: u64) \<noteq> - (2 ^ 63) \<Longrightarrow> sint (- w) = - sint w"
  using sint_of_int_64 [of "- sint w"] sint_64_range [of w] by simp

lemma sint_diff_64:
  assumes "clock_ok x" "clock_ok y"
  shows "sint (x - y) = sint x - sint y"
  using sint_of_int_64 [of "sint x - sint y"] assms by (simp add: clock_ok_def)

lemma recent_iff:
  assumes "clock_ok now" "clock_ok ts" "sint ts \<le> sint now"
  shows "sint (i64_abs (now - ts)) \<le> 120 \<longleftrightarrow> sint now \<le> sint ts + 120"
proof -
  have "i64_abs (now - ts) = now - ts" using assms(3) sint_diff_64 [OF assms(1,2)] by (simp add: i64_abs_def)
  then show ?thesis using sint_diff_64 [OF assms(1,2)] by auto
qed

lemma i64_abs_small: "sint (i64_abs w) \<le> 120 \<Longrightarrow> sint w = - (2 ^ 63) \<or> \<bar>sint w\<bar> \<le> 120"
  using sint_minus_64 [of w] by (cases "sint w = - (2 ^ 63)") (auto simp: i64_abs_def split: if_splits)

lemma timestamp_near:
  assumes now: "clock_ok now" and ts: "sint (i64_abs (ts - now)) \<le> 120"
  shows "\<bar>sint ts - sint now\<bar> \<le> 120 \<or> sint ts = sint now - 2 ^ 63"
proof -
  let ?d = "sint (ts - now)"
  have d: "?d = - (2 ^ 63) \<or> \<bar>?d\<bar> \<le> 120" using ts by (rule i64_abs_small)
  have "ts = word_of_int (sint now + ?d)" by simp
  moreover have "sint (word_of_int (sint now + ?d) :: u64) = sint now + ?d"
    using d now sint_of_int_64 [of "sint now + ?d"] by (auto simp: clock_ok_def)
  ultimately have "sint ts = sint now + ?d" by metis
  then show ?thesis using d by auto
qed

lemma validate_accepts:
  assumes "validate_auth_id C a t k = (True, k')"
  shows "vk_replay_filter k' a = Some t" "auth_id_key k' = auth_id_key k" "sint (i64_abs (auth_timestamp C k a - t)) \<le> 120"
  using assms by (auto simp: validate_auth_id_def check_and_insert_def Let_def split: if_splits)

lemma validate_keeps:
  assumes k: "vk_replay_filter k a = Some old" and t: "clock_ok t" "clock_ok old" "sint old \<le> sint t" "sint t \<le> sint old + 120" and v: "validate_auth_id C b t k = (ok, k')"
  shows "vk_replay_filter k' a = Some old" "a = b \<Longrightarrow> \<not> ok"
  using assms recent_iff [OF t(1-3)] by (auto simp: validate_auth_id_def check_and_insert_def Let_def split: if_splits)

lemma remembered:
  assumes "vk_replay_filter k a = Some old" "clock_ok old" "\<forall>(b, t) \<in> set calls. clock_ok t" "sorted (sint old # map (sint \<circ> snd) calls)"
    "j < length calls" "calls ! j = (a, t)" "validate_all C k calls ! j"
  shows "sint old + 120 < sint t"
  using assms
proof (induction calls arbitrary: k j)
  case (Cons c calls)
  obtain b now where c: "c = (b, now)" by fastforce
  obtain ok k' where v: "validate_auth_id C b now k = (ok, k')" by fastforce
  show ?case
  proof (cases "sint now \<le> sint old + 120")
    case False
    have "(a, t) \<in> set (c # calls)" using Cons.prems(5,6) nth_mem by metis
    then have "sint now \<le> sint t" using Cons.prems(4) c by auto
    then show ?thesis using False by simp
  next
    case True
    have o: "clock_ok now" "sint old \<le> sint now" using Cons.prems c by auto
    note keep = validate_keeps [OF Cons.prems(1) o(1) Cons.prems(2) o(2) True v]
    show ?thesis
    proof (cases j)
      case 0
      then show ?thesis using Cons.prems c v keep(2) by auto
    next
      case (Suc i)
      then show ?thesis using Cons.IH [OF keep(1) Cons.prems(2), of i] Cons.prems c v by auto
    qed
  qed
qed simp

lemma validate_key: "validate_auth_id C b now k = (ok, k') \<Longrightarrow> auth_timestamp C k' a = auth_timestamp C k a"
  by (auto simp: validate_auth_id_def auth_timestamp_def split: if_splits prod.splits)

lemma accepted_near:
  "n < length calls \<Longrightarrow> calls ! n = (a, t) \<Longrightarrow> validate_all C k calls ! n \<Longrightarrow> sint (i64_abs (auth_timestamp C k a - t)) \<le> 120"
proof (induction calls arbitrary: k n)
  case (Cons c calls)
  obtain b now ok k' where c: "c = (b, now)" "validate_auth_id C b now k = (ok, k')" by (metis surj_pair)
  show ?case
  proof (cases n)
    case 0
    then show ?thesis using Cons.prems c validate_accepts(3) [of C b now k k'] by auto
  next
    case (Suc m)
    then show ?thesis using Cons.IH [of m k'] Cons.prems c validate_key [OF c(2)] by auto
  qed
qed simp

lemma accepted_later:
  assumes "\<forall>(b, t) \<in> set calls. clock_ok t" "sorted (map (sint \<circ> snd) calls)" "i < j" "j < length calls" "calls ! i = (a, t)" "calls ! j = (a, t')"
    "validate_all C k calls ! i" "validate_all C k calls ! j"
  shows "sint t + 120 < sint t'"
  using assms
proof (induction calls arbitrary: k i j)
  case (Cons c calls)
  obtain b now ok k' where c: "c = (b, now)" and v: "validate_auth_id C b now k = (ok, k')" by (metis surj_pair)
  obtain m where j: "j = Suc m" using Cons.prems(3) by (cases j) auto
  have rest: "\<forall>(b, t) \<in> set calls. clock_ok t" "sorted (sint now # map (sint \<circ> snd) calls)" "m < length calls" "calls ! m = (a, t')" "validate_all C k' calls ! m"
    using Cons.prems(1,2,4,6,8) c v j by (simp_all add: comp_def)
  show ?case
  proof (cases i)
    case 0
    then have "ok" "b = a" "now = t" using Cons.prems(5,7) c v by simp_all
    then have f: "vk_replay_filter k' a = Some t" using validate_accepts(1) [of C a t k k'] v by simp
    have "clock_ok t" using Cons.prems(1) c \<open>now = t\<close> by simp
    then show ?thesis using remembered [OF f _ rest(1) _ rest(3-5)] rest(2) \<open>now = t\<close> by (simp add: comp_def)
  next
    case (Suc n)
    then show ?thesis using Cons.IH [OF rest(1) _ _ rest(3), of n k'] rest Cons.prems(3,5,7) c v j by (simp add: comp_def)
  qed
qed simp

text \<open>C31: The replay filter of a user: if the clock does not run backwards and an authentication ID is accepted twice, then the second time is more than 120 seconds after the
  first, and the timestamp in the ID is ahead of the clock of the first, by at most 120 seconds, and at most 120 seconds behind that of the second. So an ID whose timestamp is not ahead of the clock is
  accepted once.\<close>

theorem auth_id_replay:
  assumes "\<forall>(b, t) \<in> set calls. clock_ok t" "sorted (map (sint \<circ> snd) calls)" "i < j" "j < length calls" "calls ! i = (a, t)" "calls ! j = (a, t')"
    "validate_all C k calls ! i" "validate_all C k calls ! j"
  shows "sint t + 120 < sint t' \<and> sint t < sint (auth_timestamp C k a) \<and> sint (auth_timestamp C k a) \<le> sint t + 120 \<and> sint t' \<le> sint (auth_timestamp C k a) + 120"
proof -
  have "(a, t) \<in> set calls" "(a, t') \<in> set calls" using assms(3-6) nth_mem [of i calls] nth_mem [of j calls] by auto
  then have c: "clock_ok t" "clock_ok t'" using assms(1) by auto
  have l: "i < length calls" using assms(3,4) by simp
  have "sint t + 120 < sint t'" by (rule accepted_later [OF assms])
  moreover note timestamp_near [OF c(1) accepted_near [OF l assms(5,7)]]
  moreover note timestamp_near [OF c(2) accepted_near [OF assms(4,6,8)]]
  ultimately show ?thesis using c unfolding clock_ok_def by auto
qed

definition echo_crates :: vmess_crates where
  "echo_crates =
     \<lparr>vm_sha256 = (\<lambda>d. replicate 32 0), vm_md5 = (\<lambda>d. replicate 16 0), vm_uuid = (\<lambda>s. Some (replicate 16 0)), vm_aes_decrypt = (\<lambda>key block. block),
      vm_seal = (\<lambda>c n a p. Some (p, replicate 16 0)), vm_open = (\<lambda>c n a d t. Some d)\<rparr>"

definition auth_id_220 :: bytes where
  "auth_id_220 = [0, 0, 0, 0, 0, 0, 0, 220, 0, 0, 0, 0] @ be32_bytes (crc32_ieee [0, 0, 0, 0, 0, 0, 0, 220, 0, 0, 0, 0])"

definition empty_keys :: vmess_user_keys where
  "empty_keys = \<lparr>cmd_key = [], auth_id_key = [], vk_replay_filter = Map.empty\<rparr>"

lemma be_word_be32_bytes [simp]: "be_word (be32_bytes w) = (w :: u32)"
proof -
  have "be_word [a, b, c, d] = be32 a b c d" for a b c d by (simp add: be_word_def be32_def push_bit_or or.assoc)
  then show ?thesis by (simp add: be32_bytes_def)
qed

lemma auth_id_220_ok: "auth_checksum_ok echo_crates k auth_id_220" "auth_timestamp echo_crates k auth_id_220 = 220"
  by (simp_all add: auth_checksum_ok_def auth_timestamp_def auth_id_220_def echo_crates_def be_word_def [of "[0, 0, 0, 0, 0, 0, 0, 220]"] Let_def)

lemma auth_id_220_replayed: "validate_all echo_crates empty_keys [(auth_id_220, 100), (auth_id_220, 221)] = [True, True]"
  using auth_id_220_ok by (simp add: validate_auth_id_def check_and_insert_def i64_abs_def empty_keys_def)

theorem auth_id_replay_witness:
  "validate_all echo_crates empty_keys [(auth_id_220, 100), (auth_id_220, 221)] = [True, True] \<and>
   sint (100 :: u64) < sint (auth_timestamp echo_crates empty_keys auth_id_220)"
  using auth_id_replay [of "[(auth_id_220, 100), (auth_id_220, 221)]" 0 1 auth_id_220 100 221 echo_crates empty_keys] auth_id_220_replayed
  by (simp add: clock_ok_def)

section \<open>The request header is read back\<close>

text \<open>The header of a client for the address \<open>a\<close>, with a reserved byte and padding, and the bytes that carry it.\<close>

definition vmess_plain_header :: "vmess_request_header \<Rightarrow> ip_addr + bytes \<Rightarrow> u8 \<Rightarrow> bytes \<Rightarrow> bytes" where
  "vmess_plain_header h a reserved pad =
     (let body = [vmh_version h] @ vmh_body_nonce h @ vmh_body_key h @
            [vmh_response_header h, vmh_option h, push_bit 4 (of_nat (length pad)) OR vmh_security h, reserved, vmh_command h] @
            be16_bytes (vmh_port h) @ vless_addr_bytes a @ pad
      in body @ be32_bytes (fnv1a_32 body))"

definition vmess_header_ok :: "vmess_request_header \<Rightarrow> ip_addr + bytes \<Rightarrow> bytes \<Rightarrow> bool" where
  "vmess_header_ok h a pad \<longleftrightarrow>
     vmh_version h = VMESS_VERSION \<and> length (vmh_body_nonce h) = 16 \<and> length (vmh_body_key h) = 16 \<and> vmh_security h < 16 \<and> vmh_command h \<noteq> CMD_MUX \<and>
     (vmh_host h, vmh_ip h) = vless_addr_host a \<and> (case a of Inr d \<Rightarrow> length d < 256 | Inl ip \<Rightarrow> True) \<and> length pad < 16"

definition seal_block :: "vmess_crates \<Rightarrow> bytes \<Rightarrow> bytes \<Rightarrow> bytes \<Rightarrow> bytes \<Rightarrow> bytes" where
  "seal_block C key nonce aad p = (case vm_seal C (AesGcm (take 16 key)) (take 12 nonce) aad p of Some (data, tag) \<Rightarrow> data @ tag | None \<Rightarrow> [])"

definition sealed_header_length :: "vmess_crates \<Rightarrow> bytes \<Rightarrow> bytes \<Rightarrow> bytes \<Rightarrow> bytes \<Rightarrow> bytes" where
  "sealed_header_length C key auth_id nonce plain =
     seal_block C (kdf C key [KDF_SALT_HEADER_PAYLOAD_LEN_KEY, auth_id, nonce]) (kdf C key [KDF_SALT_HEADER_PAYLOAD_LEN_IV, auth_id, nonce]) auth_id
       (be16_bytes (of_nat (length plain)))"

definition sealed_header :: "vmess_crates \<Rightarrow> bytes \<Rightarrow> bytes \<Rightarrow> bytes \<Rightarrow> bytes \<Rightarrow> bytes" where
  "sealed_header C key auth_id nonce plain =
     seal_block C (kdf C key [KDF_SALT_HEADER_PAYLOAD_KEY, auth_id, nonce]) (kdf C key [KDF_SALT_HEADER_PAYLOAD_IV, auth_id, nonce]) auth_id plain"

lemma nibble_bit:
  assumes "unat (s :: u8) < 16"
  shows "take_bit 4 s = s" and "4 \<le> i \<Longrightarrow> \<not> bit s i"
proof -
  have "unat (take_bit 4 s) = unat s" using assms by (simp add: unsigned_take_bit_eq take_bit_nat_eq_self)
  then show s: "take_bit 4 s = s" by (simp only: word_unat_eq_iff)
  show "4 \<le> i \<Longrightarrow> \<not> bit s i" by (subst s [symmetric]) (simp add: bit_take_bit_iff)
qed

lemma nibbles:
  assumes "n < 16" "(s :: u8) < 16"
  shows "unat (drop_bit 4 (push_bit 4 (of_nat n) OR s)) = n" "(push_bit 4 (of_nat n) OR s) AND 0x0F = s"
proof -
  have u: "unat (of_nat n :: u8) = n" using assms(1) by (simp add: unat_of_nat take_bit_nat_eq_self)
  have "unat s < 16" using assms(2) by (simp add: word_less_nat_alt)
  note s = nibble_bit [OF this]
  have n: "\<not> bit (of_nat n :: u8) i" if "4 \<le> i" for i using nibble_bit(2) [of "of_nat n"] u assms(1) that by simp
  have "drop_bit 4 (push_bit 4 (of_nat n) OR s) = (of_nat n :: u8)"
  proof (rule bit_word_eqI)
    fix i :: nat
    assume "i < LENGTH(8)"
    then show "bit (drop_bit 4 (push_bit 4 (of_nat n) OR s)) i = bit (of_nat n :: u8) i"
      using s(2) [of "i + 4"] n [of i] by (cases "4 \<le> i") (simp_all add: bit_drop_bit_eq bit_or_iff bit_push_bit_iff add.commute)
  qed
  then show "unat (drop_bit 4 (push_bit 4 (of_nat n) OR s)) = n" using u by simp
  have "(0x0F :: u8) = mask 4" by (simp add: mask_eq_exp_minus_1)
  then have "(push_bit 4 (of_nat n) OR s) AND 0x0F = take_bit 4 (push_bit 4 (of_nat n) OR s)" by (simp add: take_bit_eq_mask)
  also have "\<dots> = s" using s(1) by (simp add: take_bit_or take_bit_push_bit)
  finally show "(push_bit 4 (of_nat n) OR s) AND 0x0F = s" .
qed

lemma header_host_read:
  assumes "length pre = 40" "case a of Inr d \<Rightarrow> length d < 256 | Inl ip \<Rightarrow> True"
  shows "byte_at (pre @ vless_addr_bytes a @ rest) 40 = Ok (hd (vless_addr_bytes a))"
    and "header_host (pre @ vless_addr_bytes a @ rest) 41 (hd (vless_addr_bytes a)) = Ok (40 + length (vless_addr_bytes a), vless_addr_host a)"
proof -
  have v6: "ipv6_from (octets 16 w) = V6 w" for w :: u128
    using be_word_octets [of 16 w] take_bit_length_eq [of w] by (simp add: ipv6_from_def)
  show "byte_at (pre @ vless_addr_bytes a @ rest) 40 = Ok (hd (vless_addr_bytes a))"
    using assms(1) by (cases a rule: vless_addr_bytes.cases) (simp_all add: byte_at_def nth_append)
  show "header_host (pre @ vless_addr_bytes a @ rest) 41 (hd (vless_addr_bytes a)) = Ok (40 + length (vless_addr_bytes a), vless_addr_host a)"
    using assms by (cases a rule: vless_addr_bytes.cases)
      (simp_all add: header_host_def header_ip_def slice_def byte_at_def nth_append ipv4_new_def be32_bytes_def unat_of_nat take_bit_nat_eq_self v6)
qed

lemma slice_prefix: "slice (a @ b) 0 (length a) = Ok a"
  by (simp add: slice_def)

lemma be32_at_suffix: "be32_at (a @ be32_bytes w) (length a) = Ok w"
  by (simp add: be32_at_def byte_at_def nth_append be32_bytes_def)

lemma parse_plain_header:
  assumes ok: "vmess_header_ok h a pad"
  shows "parse_vmess_header (vmess_plain_header h a reserved pad) = Ok h"
proof -
  let ?b35 = "push_bit 4 (of_nat (length pad)) OR vmh_security h"
  let ?pre = "[vmh_version h] @ vmh_body_nonce h @ vmh_body_key h @ [vmh_response_header h, vmh_option h, ?b35, reserved, vmh_command h] @ be16_bytes (vmh_port h)"
  let ?body = "?pre @ vless_addr_bytes a @ pad"
  let ?fnv = "be32_bytes (fnv1a_32 ?body)"
  let ?h = "?pre @ vless_addr_bytes a @ pad @ ?fnv"
  have h: "vmess_plain_header h a reserved pad = ?h" by (simp add: vmess_plain_header_def Let_def)
  have l: "length (vmh_body_nonce h) = 16" "length (vmh_body_key h) = 16" "length pad < 16" "vmh_security h < 16" "vmh_command h \<noteq> CMD_MUX" "vmh_version h = VMESS_VERSION"
      "(vmh_host h, vmh_ip h) = vless_addr_host a" "case a of Inr d \<Rightarrow> length d < 256 | Inl ip \<Rightarrow> True"
    using ok by (simp_all add: vmess_header_ok_def)
  have pre: "length ?pre = 40" using l by simp
  have bytes: "byte_at ?h 0 = Ok (vmh_version h)" "slice ?h 1 17 = Ok (vmh_body_nonce h)" "slice ?h 17 33 = Ok (vmh_body_key h)" "byte_at ?h 33 = Ok (vmh_response_header h)"
      "byte_at ?h 34 = Ok (vmh_option h)" "byte_at ?h 35 = Ok ?b35" "byte_at ?h 37 = Ok (vmh_command h)" "be16_at ?h 38 = Ok (vmh_port h)"
    using l by (simp_all add: byte_at_def slice_def be16_at_def nth_append be16_bytes_def)
  have "1 \<le> length (vless_addr_bytes a)" by (cases a rule: vless_addr_bytes.cases) simp_all
  then have "header_target ?h (vmh_command h) = Ok (40 + length (vless_addr_bytes a), vmh_port h, vmh_host h, vmh_ip h)"
    using l(5,7) pre bytes(8) header_host_read [OF pre l(8), of "pad @ ?fnv"] by (simp add: header_target_def)
  moreover have hb: "?h = ?body @ ?fnv" and lb: "40 + length (vless_addr_bytes a) + length pad = length ?body" using pre by simp_all
  moreover have "slice ?h 0 (40 + length (vless_addr_bytes a) + length pad) = Ok ?body" unfolding hb lb by (rule slice_prefix)
  moreover have "be32_at ?h (40 + length (vless_addr_bytes a) + length pad) = Ok (fnv1a_32 ?body)" unfolding hb lb by (rule be32_at_suffix)
  moreover have "length ?h = 40 + length (vless_addr_bytes a) + length pad + 4" using pre by simp
  ultimately show ?thesis unfolding h parse_vmess_header_def using bytes nibbles [OF l(3,4)] l(6) by (simp add: Let_def)
qed

lemma seal_block_open:
  assumes C: "vmess_crates_ok C" and p: "length p \<le> 65535"
  obtains data tag where "seal_block C key nonce aad p = data @ tag" "length data = length p" "length tag = 16"
    "vm_open C (AesGcm (take 16 key)) (take 12 nonce) aad data tag = Some p"
  using seal_opens [OF C p, of "AesGcm (take 16 key)" "take 12 nonce" aad] by (auto simp: seal_block_def)

lemma header_length_read:
  assumes C: "vmess_crates_ok C" and p: "length plain \<le> 65535"
  shows "decrypt_vmess_header_length C key auth_id nonce (sealed_header_length C key auth_id nonce plain) = Ok (length plain)"
    and "length (sealed_header_length C key auth_id nonce plain) = 18"
proof -
  let ?k = "kdf C key [KDF_SALT_HEADER_PAYLOAD_LEN_KEY, auth_id, nonce]" and ?n = "kdf C key [KDF_SALT_HEADER_PAYLOAD_LEN_IV, auth_id, nonce]"
  obtain data tag where s: "sealed_header_length C key auth_id nonce plain = data @ tag" "length data = 2" "length tag = 16"
      "vm_open C (AesGcm (take 16 ?k)) (take 12 ?n) auth_id data tag = Some (be16_bytes (of_nat (length plain)))"
    unfolding sealed_header_length_def by (rule seal_block_open [OF C, of "be16_bytes (of_nat (length plain))" ?k ?n auth_id]) simp_all
  have "aes_gcm_new (take 16 ?k) = Ok (AesGcm (take 16 ?k))" by (simp add: aes_gcm_new_def length_kdf [OF C])
  then show "decrypt_vmess_header_length C key auth_id nonce (sealed_header_length C key auth_id nonce plain) = Ok (length plain)"
    using s p by (simp add: decrypt_vmess_header_length_def Let_def unat_of_nat take_bit_nat_eq_self del: map_res_Ok_iff and_then_Ok_iff)
  show "length (sealed_header_length C key auth_id nonce plain) = 18" using s by simp
qed

lemma header_read:
  assumes C: "vmess_crates_ok C" and p: "length plain \<le> 65535"
  shows "decrypt_vmess_header C key auth_id (sealed_header_length C key auth_id nonce plain) nonce (sealed_header C key auth_id nonce plain) = parse_vmess_header plain"
    and "length (sealed_header C key auth_id nonce plain) = length plain + 16"
proof -
  let ?k = "kdf C key [KDF_SALT_HEADER_PAYLOAD_KEY, auth_id, nonce]" and ?n = "kdf C key [KDF_SALT_HEADER_PAYLOAD_IV, auth_id, nonce]"
  obtain data tag where s: "sealed_header C key auth_id nonce plain = data @ tag" "length data = length plain" "length tag = 16"
      "vm_open C (AesGcm (take 16 ?k)) (take 12 ?n) auth_id data tag = Some plain"
    unfolding sealed_header_def by (rule seal_block_open [OF C p, of ?k ?n auth_id]) simp_all
  have "aes_gcm_new (take 16 ?k) = Ok (AesGcm (take 16 ?k))" by (simp add: aes_gcm_new_def length_kdf [OF C])
  then show "decrypt_vmess_header C key auth_id (sealed_header_length C key auth_id nonce plain) nonce (sealed_header C key auth_id nonce plain) = parse_vmess_header plain"
    using s by (simp add: decrypt_vmess_header_def header_length_read [OF C p] Let_def slice_def)
  show "length (sealed_header C key auth_id nonce plain) = length plain + 16" using s by simp
qed

section \<open>No header panics\<close>

lemma header_host_bound: "header_host h c atyp \<noteq> Panic" "header_host h c atyp = Ok (c', x) \<Longrightarrow> c' \<le> length h"
  by (auto simp: header_host_def header_ip_def slice_def byte_at_def split: if_splits)

lemma header_target_bound:
  assumes "length h \<ge> 38"
  shows "header_target h command \<noteq> Panic" and "header_target h command = Ok (c', x) \<Longrightarrow> c' \<le> length h"
proof -
  show "header_target h command \<noteq> Panic"
    using header_host_bound(1) [of h 41] by (auto simp: header_target_def be16_at_def byte_at_def and_then_Panic_iff)
  show "header_target h command = Ok (c', x) \<Longrightarrow> c' \<le> length h"
    using assms header_host_bound(2) [of h 41] by (auto simp: header_target_def split: if_splits)
qed

lemma parse_vmess_header_no_panic: "parse_vmess_header h \<noteq> Panic"
  using header_target_bound [of h] by (auto simp: parse_vmess_header_def slice_def byte_at_def be32_at_def Let_def and_then_Panic_iff)

lemma decrypt_header_no_panic:
  assumes C: "vmess_crates_ok C" and l: "length enc_len = 18"
  shows "decrypt_vmess_header_length C key auth_id nonce enc_len \<noteq> Panic" and "decrypt_vmess_header C key auth_id enc_len nonce payload \<noteq> Panic"
proof -
  show len: "decrypt_vmess_header_length C key auth_id nonce enc_len \<noteq> Panic"
    using l by (auto simp: decrypt_vmess_header_length_def Let_def aes_gcm_new_def be16_at_def byte_at_def and_then_Panic_iff dest!: open_length [OF C] elim!: ok_or.elims)
  show "decrypt_vmess_header C key auth_id enc_len nonce payload \<noteq> Panic"
    using len parse_vmess_header_no_panic by (auto simp: decrypt_vmess_header_def Let_def aes_gcm_new_def slice_def and_then_Panic_iff)
qed

end
