(* ===== verification/Vmess_Server.thy ===== *)
theory Vmess_Server
  imports Vmess_Crypto Socks Ip_Cache
begin

text \<open>
  \<^verbatim>\<open>src/protocol/vmess/server.rs\<close>: the user table, the handshake up to the dialling, with the tables it shares with the rest of the server, and the two tasks that relay the body.
  The stream is behind the transport; the answer of the connection limiter is an argument. A handshake is taken to end within its fifteen seconds, and what is written to be
  accepted by the other side. Throttling only delays. A task that panics ends like one that fails.
\<close>

section \<open>Users\<close>

type_synonym vmess_users = "(vmess_user_keys \<times> panel_user) list"

definition vmess_update_users :: "vmess_crates \<Rightarrow> panel_user list \<Rightarrow> vmess_users" where
  "vmess_update_users C users = List.map_filter (\<lambda>u. map_option (\<lambda>k. (k, u)) (vmess_user_keys_new C (pu_uuid u))) users"

text \<open>\<^verbatim>\<open>find\<close> stops at the first entry that the filter of its user accepts; the filters it asked before have moved.\<close>

fun find_vmess_user :: "vmess_crates \<Rightarrow> bytes \<Rightarrow> u64 \<Rightarrow> u32 option \<Rightarrow> vmess_users \<Rightarrow> (bytes \<times> panel_user) option \<times> vmess_users" where
  "find_vmess_user C auth_id now_sec cached [] = (None, [])"
| "find_vmess_user C auth_id now_sec cached ((k, u) # us) =
     (if Some (pu_id u) = cached then
        (case find_vmess_user C auth_id now_sec cached us of (r, us) \<Rightarrow> (r, (k, u) # us))
      else case validate_auth_id C auth_id now_sec k of (ok, k) \<Rightarrow>
        if ok then (Some (cmd_key k, u), (k, u) # us)
        else case find_vmess_user C auth_id now_sec cached us of (r, us) \<Rightarrow> (r, (k, u) # us))"

fun try_cached_user :: "vmess_crates \<Rightarrow> bytes \<Rightarrow> u64 \<Rightarrow> u32 \<Rightarrow> vmess_users \<Rightarrow> (bytes \<times> panel_user) option \<times> vmess_users" where
  "try_cached_user C auth_id now_sec uid [] = (None, [])"
| "try_cached_user C auth_id now_sec uid ((k, u) # us) =
     (if pu_id u = uid then
        (case validate_auth_id C auth_id now_sec k of (ok, k) \<Rightarrow> (if ok then Some (cmd_key k, u) else None, (k, u) # us))
      else case try_cached_user C auth_id now_sec uid us of (r, us) \<Rightarrow> (r, (k, u) # us))"

definition vmess_authenticate :: "vmess_crates \<Rightarrow> bytes \<Rightarrow> u64 \<Rightarrow> u32 option \<Rightarrow> vmess_users \<Rightarrow> (bytes \<times> panel_user) option \<times> vmess_users" where
  "vmess_authenticate C auth_id now_sec cached us =
     (case (case cached of Some uid \<Rightarrow> try_cached_user C auth_id now_sec uid us | None \<Rightarrow> (None, us)) of
        (Some entry, us) \<Rightarrow> (Some entry, us)
      | (None, us) \<Rightarrow> find_vmess_user C auth_id now_sec cached us)"

section \<open>The handshake\<close>

record vmess_session =
  vs_user :: panel_user
  vs_host :: string
  vs_ip :: "ip_addr option"
  vs_port :: u16
  vs_is_udp :: bool
  vs_outbound :: outbound_config
  vs_decrypter :: chunk_decrypter
  vs_encrypter :: chunk_encrypter
  vs_stream :: bytes

record vmess_ctx =
  vc_users :: vmess_users
  vc_defense :: attack_defense_manager
  vc_cache :: ip_user_cache
  vc_devices :: device_limiter

record ('n, 're) vmess_config =
  vf_env :: "('n, 're) route_env"
  vf_audit :: "('n, 're) audit_controller"
  vf_routes :: routes_config
  vf_node_id :: u32
  vf_local_ip :: "ip_addr option"
  vf_force_md5 :: bool

text \<open>An error closes the connection without an answer.\<close>

definition or_close :: "'a res \<Rightarrow> ('a \<Rightarrow> bytes \<times> 'b option res) \<Rightarrow> bytes \<times> 'b option res" where
  "or_close r f = (case r of Ok x \<Rightarrow> f x | Err e \<Rightarrow> ([], Ok None) | Panic \<Rightarrow> ([], Panic))"

definition vmess_context :: "('n, 're) vmess_config \<Rightarrow> vmess_request_header \<Rightarrow> match_context" where
  "vmess_context cf h =
     \<lparr>ctx_node_id = vf_node_id cf, ctx_network = (if vmh_command h = CMD_UDP then ''udp'' else ''tcp''), ctx_target_host = vmh_host h,
      ctx_target_ip = vmh_ip h, ctx_target_port = vmh_port h, ctx_inbound_local_ip = vf_local_ip cf\<rparr>"

definition vmess_respond :: "vmess_crates \<Rightarrow> ('n, 're) vmess_config \<Rightarrow> panel_user \<Rightarrow> vmess_request_header \<Rightarrow> bytes \<Rightarrow> bytes \<times> vmess_session option res" where
  "vmess_respond C cf u h s =
     (if vmh_command h = CMD_MUX then ([], Ok None)
      else or_close (create_vmess_response_header C (vmh_body_key h) (vmh_body_nonce h) (vmh_response_header h) (vmh_option h)) (\<lambda>(resp_header, resp_key, resp_nonce).
        say resp_header
          (if should_block (vf_env cf) (vf_audit cf) (vmh_host h) (vmh_ip h) (vmh_port h) then ([], Ok None)
           else let out = match_outbound (vf_env cf) (vf_routes cf) (vmess_context cf h) in
             or_close (chunk_decrypter_new C (vmh_body_key h) (vmh_body_nonce h) (vmh_security h) (vmh_option h)) (\<lambda>decrypter.
             or_close (chunk_encrypter_new C resp_key resp_nonce (vmh_security h) (vmh_option h)) (\<lambda>encrypter.
             ([], Ok (Some \<lparr>vs_user = u, vs_host = vmh_host h, vs_ip = vmh_ip h, vs_port = vmh_port h, vs_is_udp = (vmh_command h = CMD_UDP),
                            vs_outbound = out, vs_decrypter = decrypter, vs_encrypter = encrypter, vs_stream = s\<rparr>)))))))"

definition vmess_request :: "vmess_crates \<Rightarrow> ('n, 're) vmess_config \<Rightarrow> bytes \<Rightarrow> bytes \<Rightarrow> panel_user \<Rightarrow> bytes \<Rightarrow> bytes \<times> vmess_session option res" where
  "vmess_request C cf auth_id key u s =
     or_close (read_exact 26 s) (\<lambda>(len_and_nonce, s).
     let enc_len_block = take 18 len_and_nonce; conn_nonce = drop 18 len_and_nonce in
     or_close (decrypt_vmess_header_length C key auth_id conn_nonce enc_len_block) (\<lambda>header_len.
     or_close (read_exact (header_len + 16) s) (\<lambda>(header_buf, s).
     or_close (decrypt_vmess_header C key auth_id enc_len_block conn_nonce header_buf) (\<lambda>h.
     vmess_respond C cf u h s))))"

definition perform_vmess_handshake ::
    "vmess_crates \<Rightarrow> ('n, 're) vmess_config \<Rightarrow> nat \<Rightarrow> u64 \<Rightarrow> redis_answer \<Rightarrow> (u32 \<Rightarrow> bool) \<Rightarrow> ip_addr \<Rightarrow> bytes \<Rightarrow> vmess_ctx \<Rightarrow>
     vmess_ctx \<times> bytes \<times> vmess_session option res" where
  "perform_vmess_handshake C cf now now_sec answer acquired ip s c =
     (if is_banned ip (vc_defense c) then (c, [], Ok None)
      else if vf_force_md5 cf then (c\<lparr>vc_defense := record_failure now ip (vc_defense c)\<rparr>, [], Ok None)
      else case read_exact 16 s of
             Ok (auth_id, s) \<Rightarrow>
               (case vmess_authenticate C auth_id now_sec (cache_get now ip (vc_cache c)) (vc_users c) of
                  (None, us) \<Rightarrow> (c\<lparr>vc_users := us, vc_defense := record_failure now ip (vc_defense c)\<rparr>, [], Ok None)
                | (Some (key, u), us) \<Rightarrow>
                    (let c = c\<lparr>vc_users := us, vc_defense := record_success ip (vc_defense c), vc_cache := cache_insert now ip (pu_id u) (vc_cache c)\<rparr>;
                         (dl, allowed) = check_and_record_async answer (pu_id u) ip now (vc_devices c);
                         c = c\<lparr>vc_devices := dl\<rparr>
                     in if \<not> allowed then (c, [], Ok None)
                        else if \<not> acquired (pu_id u) then (c, [], Ok None)
                        else (c, vmess_request C cf auth_id key u s)))
           | _ \<Rightarrow> (c, [], Ok None))"

section \<open>Relaying\<close>





section \<open>The body is relayed\<close>


section \<open>Who is let in\<close>

lemma validate_cmd_key: "validate_auth_id C a t k = (ok, k') \<Longrightarrow> cmd_key k' = cmd_key k"
  by (auto simp: validate_auth_id_def split: if_splits prod.splits)

lemma find_vmess_user_authentic:
  "find_vmess_user C a t cached us = (Some (key, u), us') \<Longrightarrow>
     Some (pu_id u) \<noteq> cached \<and> (\<exists>k. (k, u) \<in> set us \<and> key = cmd_key k \<and> fst (validate_auth_id C a t k))"
proof (induction us arbitrary: us')
  case (Cons ku us)
  obtain k v where ku: "ku = (k, v)" by fastforce
  obtain ok k' where v: "validate_auth_id C a t k = (ok, k')" by fastforce
  show ?case
  proof (cases "Some (pu_id v) \<noteq> cached \<and> ok")
    case True
    then show ?thesis using Cons.prems ku v validate_cmd_key [OF v] by auto
  next
    case False
    then obtain us1 where "find_vmess_user C a t cached us = (Some (key, u), us1)" using Cons.prems ku v by (auto split: prod.splits if_splits)
    from Cons.IH [OF this] show ?thesis by auto
  qed
qed simp

lemma try_cached_user_authentic:
  "try_cached_user C a t uid us = (r, us') \<Longrightarrow>
     (\<forall>key u. r = Some (key, u) \<longrightarrow> (\<exists>k. (k, u) \<in> set us \<and> key = cmd_key k \<and> fst (validate_auth_id C a t k))) \<and>
     (\<forall>(k, u) \<in> set us'. pu_id u \<noteq> uid \<longrightarrow> (k, u) \<in> set us)"
proof (induction us arbitrary: us')
  case (Cons ku us)
  obtain k v where ku: "ku = (k, v)" by fastforce
  obtain ok k' where v: "validate_auth_id C a t k = (ok, k')" by fastforce
  show ?case
  proof (cases "pu_id v = uid")
    case True
    then show ?thesis using Cons.prems ku v validate_cmd_key [OF v] by (auto split: if_splits)
  next
    case False
    then obtain us1 where "try_cached_user C a t uid us = (r, us1)" "us' = (k, v) # us1" using Cons.prems ku by (auto split: prod.splits)
    with Cons.IH [OF this(1)] show ?thesis using ku by auto
  qed
qed simp

lemma vmess_authenticate_authentic:
  assumes "vmess_authenticate C a t cached us = (Some (key, u), us')"
  shows "\<exists>k. (k, u) \<in> set us \<and> key = cmd_key k \<and> fst (validate_auth_id C a t k)"
proof (cases cached)
  case None
  then show ?thesis using assms find_vmess_user_authentic by (fastforce simp: vmess_authenticate_def)
next
  case (Some uid)
  obtain r us1 where c: "try_cached_user C a t uid us = (r, us1)" by fastforce
  note tc = try_cached_user_authentic [OF c]
  show ?thesis
  proof (cases r)
    case None
    then have f: "find_vmess_user C a t cached us1 = (Some (key, u), us')" using assms c Some by (simp add: vmess_authenticate_def)
    show ?thesis using find_vmess_user_authentic [OF f] tc Some by fastforce
  next
    case (Some entry)
    then show ?thesis using assms c tc \<open>cached = Some uid\<close> by (simp add: vmess_authenticate_def)
  qed
qed

lemma or_close_Some:
  "snd (or_close r f) = Ok (Some v) \<longleftrightarrow> (\<exists>x. r = Ok x \<and> snd (f x) = Ok (Some v))"
  by (cases r) (auto simp: or_close_def)

lemma vmess_request_Some:
  assumes "snd (vmess_request C cf auth_id key u s) = Ok (Some v)"
  shows "\<exists>enc_len nonce payload h. s = enc_len @ nonce @ payload @ vs_stream v \<and> length enc_len = 18 \<and> length nonce = 8 \<and>
     decrypt_vmess_header C key auth_id enc_len nonce payload = Ok h \<and> vmh_command h \<noteq> CMD_MUX \<and>
     vs_user v = u \<and> vs_host v = vmh_host h \<and> vs_ip v = vmh_ip h \<and> vs_port v = vmh_port h \<and>
     \<not> should_block (vf_env cf) (vf_audit cf) (vmh_host h) (vmh_ip h) (vmh_port h) \<and>
     vs_outbound v = match_outbound (vf_env cf) (vf_routes cf) (vmess_context cf h)"
proof -
  obtain ln s1 where 1: "read_exact 26 s = Ok (ln, s1)" using assms by (auto simp: vmess_request_def or_close_Some Let_def)
  obtain n where 2: "decrypt_vmess_header_length C key auth_id (drop 18 ln) (take 18 ln) = Ok n" using assms 1 by (auto simp: vmess_request_def or_close_Some Let_def)
  obtain buf s2 where 3: "read_exact (n + 16) s1 = Ok (buf, s2)" using assms 1 2 by (auto simp: vmess_request_def or_close_Some Let_def)
  obtain h where 4: "decrypt_vmess_header C key auth_id (take 18 ln) (drop 18 ln) buf = Ok h" using assms 1 2 3 by (auto simp: vmess_request_def or_close_Some Let_def)
  have r: "snd (vmess_respond C cf u h s2) = Ok (Some v)" using assms 1 2 3 4 by (simp add: vmess_request_def or_close_Some Let_def)
  have s: "s = take 18 ln @ drop 18 ln @ buf @ s2" "length ln = 26" using read_exact_OkD [OF 1] read_exact_OkD [OF 3] by (metis append_assoc append_take_drop_id, simp)
  have "vmh_command h \<noteq> CMD_MUX" "\<not> should_block (vf_env cf) (vf_audit cf) (vmh_host h) (vmh_ip h) (vmh_port h)" "vs_stream v = s2" "vs_user v = u" "vs_host v = vmh_host h"
      "vs_ip v = vmh_ip h" "vs_port v = vmh_port h" "vs_outbound v = match_outbound (vf_env cf) (vf_routes cf) (vmess_context cf h)"
    using r by (auto simp: vmess_respond_def or_close_Some say_def Let_def split: if_splits)
  then show ?thesis using s 4 by (intro exI [of _ "take 18 ln"] exI [of _ "drop 18 ln"] exI [of _ buf] exI [of _ h]) simp
qed

text \<open>C33: A VMess connection is dialled only for a user of the table whose keys accept the authentication ID that begins the stream (a right checksum, a timestamp within 120 seconds of the
  clock, not in the replay filter) and open the request header behind it, whom the device limit admits from the client's address and for whom a connection guard was acquired; the target is that of the
  header, the audit does not block it, and the router chose the outbound.\<close>

theorem vmess_authenticated_only:
  "case snd (snd (perform_vmess_handshake C cf now now_sec answer acquired ip s c)) of
     Ok (Some v) \<Rightarrow>
       (\<exists>auth_id enc_len nonce payload k h.
           s = auth_id @ enc_len @ nonce @ payload @ vs_stream v \<and> length auth_id = 16 \<and> length enc_len = 18 \<and> length nonce = 8 \<and>
           (k, vs_user v) \<in> set (vc_users c) \<and> fst (validate_auth_id C auth_id now_sec k) \<and>
           decrypt_vmess_header C (cmd_key k) auth_id enc_len nonce payload = Ok h \<and> vmh_command h \<noteq> CMD_MUX \<and>
           snd (check_and_record_async answer (pu_id (vs_user v)) ip now (vc_devices c)) \<and> acquired (pu_id (vs_user v)) \<and>
           vs_host v = vmh_host h \<and> vs_ip v = vmh_ip h \<and> vs_port v = vmh_port h \<and>
           \<not> should_block (vf_env cf) (vf_audit cf) (vmh_host h) (vmh_ip h) (vmh_port h) \<and>
           vs_outbound v = match_outbound (vf_env cf) (vf_routes cf) (vmess_context cf h))
   | _ \<Rightarrow> True"
proof (cases "\<exists>v. snd (snd (perform_vmess_handshake C cf now now_sec answer acquired ip s c)) = Ok (Some v)")
  case True
  then obtain v where v: "snd (snd (perform_vmess_handshake C cf now now_sec answer acquired ip s c)) = Ok (Some v)" by blast
  then obtain auth_id s1 where 1: "read_exact 16 s = Ok (auth_id, s1)" by (cases "16 \<le> length s") (auto simp: perform_vmess_handshake_def read_exact_def split: if_splits)
  obtain key u us where 2: "vmess_authenticate C auth_id now_sec (cache_get now ip (vc_cache c)) (vc_users c) = (Some (key, u), us)"
    using v 1 by (cases "vmess_authenticate C auth_id now_sec (cache_get now ip (vc_cache c)) (vc_users c)") (auto simp: perform_vmess_handshake_def simp del: read_exact_Ok_iff split: if_splits option.splits)
  have 3: "snd (check_and_record_async answer (pu_id u) ip now (vc_devices c))" "acquired (pu_id u)" "snd (vmess_request C cf auth_id key u s1) = Ok (Some v)"
    using v 1 2 by (auto simp: perform_vmess_handshake_def Let_def simp del: read_exact_Ok_iff split: if_splits prod.splits)
  obtain k where k: "(k, u) \<in> set (vc_users c)" "key = cmd_key k" "fst (validate_auth_id C auth_id now_sec k)" using vmess_authenticate_authentic [OF 2] by blast
  have s: "s = auth_id @ s1" "length auth_id = 16" using read_exact_OkD [OF 1] by auto
  show ?thesis using vmess_request_Some [OF 3(3)] v s k 3(1,2) by auto metis
qed (auto split: res.split option.split)

section \<open>A session\<close>

















text \<open>A reload of the users makes new filters: what was accepted before is accepted again.\<close>

lemma reload_forgets: "(k, u) \<in> set (vmess_update_users C us) \<Longrightarrow> vk_replay_filter k = Map.empty"
  by (auto simp: vmess_update_users_def List.map_filter_def vmess_user_keys_new_def Let_def split: option.splits if_splits)

end
