(* ===== verification/Trojan.thy ===== *)
theory Trojan
  imports Socks Sniffer "HOL-Library.Sublist"
begin

text \<open>
  \<^verbatim>\<open>src/protocol/trojan/server.rs\<close>: the user table, a connection from the hash of the password to the dialling, and the UDP session over the stream: its packets in both directions and the table of
  its sockets. The stream is behind TLS and the transport. The hexadecimal SHA-224 of a password is an argument (crates \<^verbatim>\<open>sha2\<close> and \<^verbatim>\<open>hex\<close>), as is the answer of the connection limiter. The handshake
  is taken to end within its fifteen seconds. Throttling only delays.
\<close>

section \<open>Users\<close>

definition trojan_update_users :: "(string \<Rightarrow> string) \<Rightarrow> panel_user list \<Rightarrow> (string \<rightharpoonup> panel_user)" where
  "trojan_update_users sha224_hex users = foldl (\<lambda>m u. m(sha224_hex (expected_pass u) \<mapsto> u)) Map.empty users"

section \<open>The handshake\<close>







section \<open>The connection\<close>






section \<open>UDP over the stream\<close>


record trojan_packet =
  tp_host :: string
  tp_ip :: "ip_addr option"
  tp_port :: u16
  tp_payload :: bytes









section \<open>Runs of the UDP session\<close>





text \<open>The reading task handles a packet and its socket can be made or not; the task of a socket takes a datagram and sends it, or ends. The log holds what is sent.\<close>

datatype trojan_event = Packet bool trojan_packet | Takes "string \<times> u16" | Ends "string \<times> u16"

type_synonym trojan_log = "((string \<times> u16) \<times> bytes) list"



fun event_packets :: "trojan_event list \<Rightarrow> trojan_packet list" where
  "event_packets [] = []"
| "event_packets (Packet dialled p # evs) = p # event_packets evs"
| "event_packets (_ # evs) = event_packets evs"

definition payloads_for :: "string \<times> u16 \<Rightarrow> trojan_packet list \<Rightarrow> bytes list" where
  "payloads_for key ps = map tp_payload (filter (\<lambda>p. (tp_host p, tp_port p) = key) ps)"

definition sent_to :: "string \<times> u16 \<Rightarrow> trojan_log \<Rightarrow> bytes list" where
  "sent_to key log = map snd (filter (\<lambda>e. fst e = key) log)"



lemma sent_to_snoc [simp]: "sent_to key (log @ [(k, p)]) = sent_to key log @ (if k = key then [p] else [])"
  by (simp add: sent_to_def)

lemma payloads_for_snoc [simp]: "payloads_for key (ps @ [p]) = payloads_for key ps @ (if (tp_host p, tp_port p) = key then [tp_payload p] else [])"
  by (simp add: payloads_for_def)

lemma event_packets_append [simp]: "event_packets (evs @ evs') = event_packets evs @ event_packets evs'"
  by (induction evs rule: event_packets.induct) auto










section \<open>Packets are read back\<close>





section \<open>Properties\<close>






end
