(* ===== verification/Qpack_Huffman.thy ===== *)
theory Qpack_Huffman
  imports Prelude
begin

text \<open>
  The Huffman code of HTTP header strings: the tables of \<^verbatim>\<open>src/protocol/hysteria/huffman_table.rs\<close> and the decoder of \<^verbatim>\<open>src/protocol/hysteria/qpack.rs\<close>, which looks
  up eight bits at a time in a table of 15 rows. Proved: decoding ends and does not panic on any input, and it inverts the code that \<open>ENCODE_TABLE\<close> gives.
\<close>

unbundle bit_operations_syntax

section \<open>Tables\<close>

definition ENCODE_TABLE :: "(nat \<times> u64) list" where
  "ENCODE_TABLE = [
     (13, 0x1ff8), (23, 0x7fffd8), (28, 0xfffffe2), (28, 0xfffffe3), (28, 0xfffffe4), (28, 0xfffffe5), (28, 0xfffffe6), (28, 0xfffffe7),
     (28, 0xfffffe8), (24, 0xffffea), (30, 0x3ffffffc), (28, 0xfffffe9), (28, 0xfffffea), (30, 0x3ffffffd), (28, 0xfffffeb), (28, 0xfffffec),
     (28, 0xfffffed), (28, 0xfffffee), (28, 0xfffffef), (28, 0xffffff0), (28, 0xffffff1), (28, 0xffffff2), (30, 0x3ffffffe), (28, 0xffffff3),
     (28, 0xffffff4), (28, 0xffffff5), (28, 0xffffff6), (28, 0xffffff7), (28, 0xffffff8), (28, 0xffffff9), (28, 0xffffffa), (28, 0xffffffb),
     (6, 0x14), (10, 0x3f8), (10, 0x3f9), (12, 0xffa), (13, 0x1ff9), (6, 0x15), (8, 0xf8), (11, 0x7fa), (10, 0x3fa), (10, 0x3fb), (8, 0xf9),
     (11, 0x7fb), (8, 0xfa), (6, 0x16), (6, 0x17), (6, 0x18), (5, 0x0), (5, 0x1), (5, 0x2), (6, 0x19), (6, 0x1a), (6, 0x1b), (6, 0x1c), (6, 0x1d),
     (6, 0x1e), (6, 0x1f), (7, 0x5c), (8, 0xfb), (15, 0x7ffc), (6, 0x20), (12, 0xffb), (10, 0x3fc), (13, 0x1ffa), (6, 0x21), (7, 0x5d), (7, 0x5e),
     (7, 0x5f), (7, 0x60), (7, 0x61), (7, 0x62), (7, 0x63), (7, 0x64), (7, 0x65), (7, 0x66), (7, 0x67), (7, 0x68), (7, 0x69), (7, 0x6a), (7, 0x6b),
     (7, 0x6c), (7, 0x6d), (7, 0x6e), (7, 0x6f), (7, 0x70), (7, 0x71), (7, 0x72), (8, 0xfc), (7, 0x73), (8, 0xfd), (13, 0x1ffb), (19, 0x7fff0),
     (13, 0x1ffc), (14, 0x3ffc), (6, 0x22), (15, 0x7ffd), (5, 0x3), (6, 0x23), (5, 0x4), (6, 0x24), (5, 0x5), (6, 0x25), (6, 0x26), (6, 0x27),
     (5, 0x6), (7, 0x74), (7, 0x75), (6, 0x28), (6, 0x29), (6, 0x2a), (5, 0x7), (6, 0x2b), (7, 0x76), (6, 0x2c), (5, 0x8), (5, 0x9), (6, 0x2d),
     (7, 0x77), (7, 0x78), (7, 0x79), (7, 0x7a), (7, 0x7b), (15, 0x7ffe), (11, 0x7fc), (14, 0x3ffd), (13, 0x1ffd), (28, 0xffffffc), (20, 0xfffe6),
     (22, 0x3fffd2), (20, 0xfffe7), (20, 0xfffe8), (22, 0x3fffd3), (22, 0x3fffd4), (22, 0x3fffd5), (23, 0x7fffd9), (22, 0x3fffd6), (23, 0x7fffda),
     (23, 0x7fffdb), (23, 0x7fffdc), (23, 0x7fffdd), (23, 0x7fffde), (24, 0xffffeb), (23, 0x7fffdf), (24, 0xffffec), (24, 0xffffed), (22, 0x3fffd7),
     (23, 0x7fffe0), (24, 0xffffee), (23, 0x7fffe1), (23, 0x7fffe2), (23, 0x7fffe3), (23, 0x7fffe4), (21, 0x1fffdc), (22, 0x3fffd8), (23, 0x7fffe5),
     (22, 0x3fffd9), (23, 0x7fffe6), (23, 0x7fffe7), (24, 0xffffef), (22, 0x3fffda), (21, 0x1fffdd), (20, 0xfffe9), (22, 0x3fffdb), (22, 0x3fffdc),
     (23, 0x7fffe8), (23, 0x7fffe9), (21, 0x1fffde), (23, 0x7fffea), (22, 0x3fffdd), (22, 0x3fffde), (24, 0xfffff0), (21, 0x1fffdf), (22, 0x3fffdf),
     (23, 0x7fffeb), (23, 0x7fffec), (21, 0x1fffe0), (21, 0x1fffe1), (22, 0x3fffe0), (21, 0x1fffe2), (23, 0x7fffed), (22, 0x3fffe1), (23, 0x7fffee),
     (23, 0x7fffef), (20, 0xfffea), (22, 0x3fffe2), (22, 0x3fffe3), (22, 0x3fffe4), (23, 0x7ffff0), (22, 0x3fffe5), (22, 0x3fffe6), (23, 0x7ffff1),
     (26, 0x3ffffe0), (26, 0x3ffffe1), (20, 0xfffeb), (19, 0x7fff1), (22, 0x3fffe7), (23, 0x7ffff2), (22, 0x3fffe8), (25, 0x1ffffec),
     (26, 0x3ffffe2), (26, 0x3ffffe3), (26, 0x3ffffe4), (27, 0x7ffffde), (27, 0x7ffffdf), (26, 0x3ffffe5), (24, 0xfffff1), (25, 0x1ffffed),
     (19, 0x7fff2), (21, 0x1fffe3), (26, 0x3ffffe6), (27, 0x7ffffe0), (27, 0x7ffffe1), (26, 0x3ffffe7), (27, 0x7ffffe2), (24, 0xfffff2),
     (21, 0x1fffe4), (21, 0x1fffe5), (26, 0x3ffffe8), (26, 0x3ffffe9), (28, 0xffffffd), (27, 0x7ffffe3), (27, 0x7ffffe4), (27, 0x7ffffe5),
     (20, 0xfffec), (24, 0xfffff3), (20, 0xfffed), (21, 0x1fffe6), (22, 0x3fffe9), (21, 0x1fffe7), (21, 0x1fffe8), (23, 0x7ffff3), (22, 0x3fffea),
     (22, 0x3fffeb), (25, 0x1ffffee), (25, 0x1ffffef), (24, 0xfffff4), (24, 0xfffff5), (26, 0x3ffffea), (23, 0x7ffff4), (26, 0x3ffffeb),
     (27, 0x7ffffe6), (26, 0x3ffffec), (26, 0x3ffffed), (27, 0x7ffffe7), (27, 0x7ffffe8), (27, 0x7ffffe9), (27, 0x7ffffea), (27, 0x7ffffeb),
     (28, 0xffffffe), (27, 0x7ffffec), (27, 0x7ffffed), (27, 0x7ffffee), (27, 0x7ffffef), (27, 0x7fffff0), (26, 0x3ffffee), (30, 0x3fffffff)]"

definition DECODE_ROW_0 :: "u16 list" where
  "DECODE_ROW_0 = [
     0x0530, 0x0530, 0x0530, 0x0530, 0x0530, 0x0530, 0x0530, 0x0530, 0x0531, 0x0531, 0x0531, 0x0531, 0x0531, 0x0531, 0x0531, 0x0531, 0x0532, 0x0532,
     0x0532, 0x0532, 0x0532, 0x0532, 0x0532, 0x0532, 0x0561, 0x0561, 0x0561, 0x0561, 0x0561, 0x0561, 0x0561, 0x0561, 0x0563, 0x0563, 0x0563, 0x0563,
     0x0563, 0x0563, 0x0563, 0x0563, 0x0565, 0x0565, 0x0565, 0x0565, 0x0565, 0x0565, 0x0565, 0x0565, 0x0569, 0x0569, 0x0569, 0x0569, 0x0569, 0x0569,
     0x0569, 0x0569, 0x056f, 0x056f, 0x056f, 0x056f, 0x056f, 0x056f, 0x056f, 0x056f, 0x0573, 0x0573, 0x0573, 0x0573, 0x0573, 0x0573, 0x0573, 0x0573,
     0x0574, 0x0574, 0x0574, 0x0574, 0x0574, 0x0574, 0x0574, 0x0574, 0x0620, 0x0620, 0x0620, 0x0620, 0x0625, 0x0625, 0x0625, 0x0625, 0x062d, 0x062d,
     0x062d, 0x062d, 0x062e, 0x062e, 0x062e, 0x062e, 0x062f, 0x062f, 0x062f, 0x062f, 0x0633, 0x0633, 0x0633, 0x0633, 0x0634, 0x0634, 0x0634, 0x0634,
     0x0635, 0x0635, 0x0635, 0x0635, 0x0636, 0x0636, 0x0636, 0x0636, 0x0637, 0x0637, 0x0637, 0x0637, 0x0638, 0x0638, 0x0638, 0x0638, 0x0639, 0x0639,
     0x0639, 0x0639, 0x063d, 0x063d, 0x063d, 0x063d, 0x0641, 0x0641, 0x0641, 0x0641, 0x065f, 0x065f, 0x065f, 0x065f, 0x0662, 0x0662, 0x0662, 0x0662,
     0x0664, 0x0664, 0x0664, 0x0664, 0x0666, 0x0666, 0x0666, 0x0666, 0x0667, 0x0667, 0x0667, 0x0667, 0x0668, 0x0668, 0x0668, 0x0668, 0x066c, 0x066c,
     0x066c, 0x066c, 0x066d, 0x066d, 0x066d, 0x066d, 0x066e, 0x066e, 0x066e, 0x066e, 0x0670, 0x0670, 0x0670, 0x0670, 0x0672, 0x0672, 0x0672, 0x0672,
     0x0675, 0x0675, 0x0675, 0x0675, 0x073a, 0x073a, 0x0742, 0x0742, 0x0743, 0x0743, 0x0744, 0x0744, 0x0745, 0x0745, 0x0746, 0x0746, 0x0747, 0x0747,
     0x0748, 0x0748, 0x0749, 0x0749, 0x074a, 0x074a, 0x074b, 0x074b, 0x074c, 0x074c, 0x074d, 0x074d, 0x074e, 0x074e, 0x074f, 0x074f, 0x0750, 0x0750,
     0x0751, 0x0751, 0x0752, 0x0752, 0x0753, 0x0753, 0x0754, 0x0754, 0x0755, 0x0755, 0x0756, 0x0756, 0x0757, 0x0757, 0x0759, 0x0759, 0x076a, 0x076a,
     0x076b, 0x076b, 0x0771, 0x0771, 0x0776, 0x0776, 0x0777, 0x0777, 0x0778, 0x0778, 0x0779, 0x0779, 0x077a, 0x077a, 0x0826, 0x082a, 0x082c, 0x083b,
     0x0858, 0x085a, 0x8500, 0x8100]"

definition DECODE_ROW_1 :: "u16 list" where
  "DECODE_ROW_1 = [
     0x023f, 0x023f, 0x023f, 0x023f, 0x023f, 0x023f, 0x023f, 0x023f, 0x023f, 0x023f, 0x023f, 0x023f, 0x023f, 0x023f, 0x023f, 0x023f, 0x023f, 0x023f,
     0x023f, 0x023f, 0x023f, 0x023f, 0x023f, 0x023f, 0x023f, 0x023f, 0x023f, 0x023f, 0x023f, 0x023f, 0x023f, 0x023f, 0x023f, 0x023f, 0x023f, 0x023f,
     0x023f, 0x023f, 0x023f, 0x023f, 0x023f, 0x023f, 0x023f, 0x023f, 0x023f, 0x023f, 0x023f, 0x023f, 0x023f, 0x023f, 0x023f, 0x023f, 0x023f, 0x023f,
     0x023f, 0x023f, 0x023f, 0x023f, 0x023f, 0x023f, 0x023f, 0x023f, 0x023f, 0x023f, 0x0327, 0x0327, 0x0327, 0x0327, 0x0327, 0x0327, 0x0327, 0x0327,
     0x0327, 0x0327, 0x0327, 0x0327, 0x0327, 0x0327, 0x0327, 0x0327, 0x0327, 0x0327, 0x0327, 0x0327, 0x0327, 0x0327, 0x0327, 0x0327, 0x0327, 0x0327,
     0x0327, 0x0327, 0x0327, 0x0327, 0x0327, 0x0327, 0x032b, 0x032b, 0x032b, 0x032b, 0x032b, 0x032b, 0x032b, 0x032b, 0x032b, 0x032b, 0x032b, 0x032b,
     0x032b, 0x032b, 0x032b, 0x032b, 0x032b, 0x032b, 0x032b, 0x032b, 0x032b, 0x032b, 0x032b, 0x032b, 0x032b, 0x032b, 0x032b, 0x032b, 0x032b, 0x032b,
     0x032b, 0x032b, 0x037c, 0x037c, 0x037c, 0x037c, 0x037c, 0x037c, 0x037c, 0x037c, 0x037c, 0x037c, 0x037c, 0x037c, 0x037c, 0x037c, 0x037c, 0x037c,
     0x037c, 0x037c, 0x037c, 0x037c, 0x037c, 0x037c, 0x037c, 0x037c, 0x037c, 0x037c, 0x037c, 0x037c, 0x037c, 0x037c, 0x037c, 0x037c, 0x0423, 0x0423,
     0x0423, 0x0423, 0x0423, 0x0423, 0x0423, 0x0423, 0x0423, 0x0423, 0x0423, 0x0423, 0x0423, 0x0423, 0x0423, 0x0423, 0x043e, 0x043e, 0x043e, 0x043e,
     0x043e, 0x043e, 0x043e, 0x043e, 0x043e, 0x043e, 0x043e, 0x043e, 0x043e, 0x043e, 0x043e, 0x043e, 0x0500, 0x0500, 0x0500, 0x0500, 0x0500, 0x0500,
     0x0500, 0x0500, 0x0524, 0x0524, 0x0524, 0x0524, 0x0524, 0x0524, 0x0524, 0x0524, 0x0540, 0x0540, 0x0540, 0x0540, 0x0540, 0x0540, 0x0540, 0x0540,
     0x055b, 0x055b, 0x055b, 0x055b, 0x055b, 0x055b, 0x055b, 0x055b, 0x055d, 0x055d, 0x055d, 0x055d, 0x055d, 0x055d, 0x055d, 0x055d, 0x057e, 0x057e,
     0x057e, 0x057e, 0x057e, 0x057e, 0x057e, 0x057e, 0x065e, 0x065e, 0x065e, 0x065e, 0x067d, 0x067d, 0x067d, 0x067d, 0x073c, 0x073c, 0x0760, 0x0760,
     0x077b, 0x077b, 0x8600, 0x8200]"

definition DECODE_ROW_2 :: "u16 list" where
  "DECODE_ROW_2 = [
     0x05b0, 0x05b0, 0x05b0, 0x05b0, 0x05b0, 0x05b0, 0x05b0, 0x05b0, 0x05b1, 0x05b1, 0x05b1, 0x05b1, 0x05b1, 0x05b1, 0x05b1, 0x05b1, 0x05b3, 0x05b3,
     0x05b3, 0x05b3, 0x05b3, 0x05b3, 0x05b3, 0x05b3, 0x05d1, 0x05d1, 0x05d1, 0x05d1, 0x05d1, 0x05d1, 0x05d1, 0x05d1, 0x05d8, 0x05d8, 0x05d8, 0x05d8,
     0x05d8, 0x05d8, 0x05d8, 0x05d8, 0x05d9, 0x05d9, 0x05d9, 0x05d9, 0x05d9, 0x05d9, 0x05d9, 0x05d9, 0x05e3, 0x05e3, 0x05e3, 0x05e3, 0x05e3, 0x05e3,
     0x05e3, 0x05e3, 0x05e5, 0x05e5, 0x05e5, 0x05e5, 0x05e5, 0x05e5, 0x05e5, 0x05e5, 0x05e6, 0x05e6, 0x05e6, 0x05e6, 0x05e6, 0x05e6, 0x05e6, 0x05e6,
     0x0681, 0x0681, 0x0681, 0x0681, 0x0684, 0x0684, 0x0684, 0x0684, 0x0685, 0x0685, 0x0685, 0x0685, 0x0686, 0x0686, 0x0686, 0x0686, 0x0688, 0x0688,
     0x0688, 0x0688, 0x0692, 0x0692, 0x0692, 0x0692, 0x069a, 0x069a, 0x069a, 0x069a, 0x069c, 0x069c, 0x069c, 0x069c, 0x06a0, 0x06a0, 0x06a0, 0x06a0,
     0x06a3, 0x06a3, 0x06a3, 0x06a3, 0x06a4, 0x06a4, 0x06a4, 0x06a4, 0x06a9, 0x06a9, 0x06a9, 0x06a9, 0x06aa, 0x06aa, 0x06aa, 0x06aa, 0x06ad, 0x06ad,
     0x06ad, 0x06ad, 0x06b2, 0x06b2, 0x06b2, 0x06b2, 0x06b5, 0x06b5, 0x06b5, 0x06b5, 0x06b9, 0x06b9, 0x06b9, 0x06b9, 0x06ba, 0x06ba, 0x06ba, 0x06ba,
     0x06bb, 0x06bb, 0x06bb, 0x06bb, 0x06bd, 0x06bd, 0x06bd, 0x06bd, 0x06be, 0x06be, 0x06be, 0x06be, 0x06c4, 0x06c4, 0x06c4, 0x06c4, 0x06c6, 0x06c6,
     0x06c6, 0x06c6, 0x06e4, 0x06e4, 0x06e4, 0x06e4, 0x06e8, 0x06e8, 0x06e8, 0x06e8, 0x06e9, 0x06e9, 0x06e9, 0x06e9, 0x0701, 0x0701, 0x0787, 0x0787,
     0x0789, 0x0789, 0x078a, 0x078a, 0x078b, 0x078b, 0x078c, 0x078c, 0x078d, 0x078d, 0x078f, 0x078f, 0x0793, 0x0793, 0x0795, 0x0795, 0x0796, 0x0796,
     0x0797, 0x0797, 0x0798, 0x0798, 0x079b, 0x079b, 0x079d, 0x079d, 0x079e, 0x079e, 0x07a5, 0x07a5, 0x07a6, 0x07a6, 0x07a8, 0x07a8, 0x07ae, 0x07ae,
     0x07af, 0x07af, 0x07b4, 0x07b4, 0x07b6, 0x07b6, 0x07b7, 0x07b7, 0x07bc, 0x07bc, 0x07bf, 0x07bf, 0x07c5, 0x07c5, 0x07e7, 0x07e7, 0x07ef, 0x07ef,
     0x0809, 0x088e, 0x0890, 0x0891, 0x0894, 0x089f, 0x08ab, 0x08ce, 0x08d7, 0x08e1, 0x08ec, 0x08ed, 0x8800, 0x8d00, 0x8700, 0x8900, 0x8c00, 0x8a00,
     0x8b00, 0x8e00, 0x8300, 0x8400]"

definition DECODE_ROW_3 :: "u16 list" where
  "DECODE_ROW_3 = [
     0x03fe, 0x03fe, 0x03fe, 0x03fe, 0x03fe, 0x03fe, 0x03fe, 0x03fe, 0x03fe, 0x03fe, 0x03fe, 0x03fe, 0x03fe, 0x03fe, 0x03fe, 0x03fe, 0x03fe, 0x03fe,
     0x03fe, 0x03fe, 0x03fe, 0x03fe, 0x03fe, 0x03fe, 0x03fe, 0x03fe, 0x03fe, 0x03fe, 0x03fe, 0x03fe, 0x03fe, 0x03fe, 0x0402, 0x0402, 0x0402, 0x0402,
     0x0402, 0x0402, 0x0402, 0x0402, 0x0402, 0x0402, 0x0402, 0x0402, 0x0402, 0x0402, 0x0402, 0x0402, 0x0403, 0x0403, 0x0403, 0x0403, 0x0403, 0x0403,
     0x0403, 0x0403, 0x0403, 0x0403, 0x0403, 0x0403, 0x0403, 0x0403, 0x0403, 0x0403, 0x0404, 0x0404, 0x0404, 0x0404, 0x0404, 0x0404, 0x0404, 0x0404,
     0x0404, 0x0404, 0x0404, 0x0404, 0x0404, 0x0404, 0x0404, 0x0404, 0x0405, 0x0405, 0x0405, 0x0405, 0x0405, 0x0405, 0x0405, 0x0405, 0x0405, 0x0405,
     0x0405, 0x0405, 0x0405, 0x0405, 0x0405, 0x0405, 0x0406, 0x0406, 0x0406, 0x0406, 0x0406, 0x0406, 0x0406, 0x0406, 0x0406, 0x0406, 0x0406, 0x0406,
     0x0406, 0x0406, 0x0406, 0x0406, 0x0407, 0x0407, 0x0407, 0x0407, 0x0407, 0x0407, 0x0407, 0x0407, 0x0407, 0x0407, 0x0407, 0x0407, 0x0407, 0x0407,
     0x0407, 0x0407, 0x0408, 0x0408, 0x0408, 0x0408, 0x0408, 0x0408, 0x0408, 0x0408, 0x0408, 0x0408, 0x0408, 0x0408, 0x0408, 0x0408, 0x0408, 0x0408,
     0x040b, 0x040b, 0x040b, 0x040b, 0x040b, 0x040b, 0x040b, 0x040b, 0x040b, 0x040b, 0x040b, 0x040b, 0x040b, 0x040b, 0x040b, 0x040b, 0x040c, 0x040c,
     0x040c, 0x040c, 0x040c, 0x040c, 0x040c, 0x040c, 0x040c, 0x040c, 0x040c, 0x040c, 0x040c, 0x040c, 0x040c, 0x040c, 0x040e, 0x040e, 0x040e, 0x040e,
     0x040e, 0x040e, 0x040e, 0x040e, 0x040e, 0x040e, 0x040e, 0x040e, 0x040e, 0x040e, 0x040e, 0x040e, 0x040f, 0x040f, 0x040f, 0x040f, 0x040f, 0x040f,
     0x040f, 0x040f, 0x040f, 0x040f, 0x040f, 0x040f, 0x040f, 0x040f, 0x040f, 0x040f, 0x0410, 0x0410, 0x0410, 0x0410, 0x0410, 0x0410, 0x0410, 0x0410,
     0x0410, 0x0410, 0x0410, 0x0410, 0x0410, 0x0410, 0x0410, 0x0410, 0x0411, 0x0411, 0x0411, 0x0411, 0x0411, 0x0411, 0x0411, 0x0411, 0x0411, 0x0411,
     0x0411, 0x0411, 0x0411, 0x0411, 0x0411, 0x0411, 0x0412, 0x0412, 0x0412, 0x0412, 0x0412, 0x0412, 0x0412, 0x0412, 0x0412, 0x0412, 0x0412, 0x0412,
     0x0412, 0x0412, 0x0412, 0x0412]"

definition DECODE_ROW_4 :: "u16 list" where
  "DECODE_ROW_4 = [
     0x0413, 0x0413, 0x0413, 0x0413, 0x0413, 0x0413, 0x0413, 0x0413, 0x0413, 0x0413, 0x0413, 0x0413, 0x0413, 0x0413, 0x0413, 0x0413, 0x0414, 0x0414,
     0x0414, 0x0414, 0x0414, 0x0414, 0x0414, 0x0414, 0x0414, 0x0414, 0x0414, 0x0414, 0x0414, 0x0414, 0x0414, 0x0414, 0x0415, 0x0415, 0x0415, 0x0415,
     0x0415, 0x0415, 0x0415, 0x0415, 0x0415, 0x0415, 0x0415, 0x0415, 0x0415, 0x0415, 0x0415, 0x0415, 0x0417, 0x0417, 0x0417, 0x0417, 0x0417, 0x0417,
     0x0417, 0x0417, 0x0417, 0x0417, 0x0417, 0x0417, 0x0417, 0x0417, 0x0417, 0x0417, 0x0418, 0x0418, 0x0418, 0x0418, 0x0418, 0x0418, 0x0418, 0x0418,
     0x0418, 0x0418, 0x0418, 0x0418, 0x0418, 0x0418, 0x0418, 0x0418, 0x0419, 0x0419, 0x0419, 0x0419, 0x0419, 0x0419, 0x0419, 0x0419, 0x0419, 0x0419,
     0x0419, 0x0419, 0x0419, 0x0419, 0x0419, 0x0419, 0x041a, 0x041a, 0x041a, 0x041a, 0x041a, 0x041a, 0x041a, 0x041a, 0x041a, 0x041a, 0x041a, 0x041a,
     0x041a, 0x041a, 0x041a, 0x041a, 0x041b, 0x041b, 0x041b, 0x041b, 0x041b, 0x041b, 0x041b, 0x041b, 0x041b, 0x041b, 0x041b, 0x041b, 0x041b, 0x041b,
     0x041b, 0x041b, 0x041c, 0x041c, 0x041c, 0x041c, 0x041c, 0x041c, 0x041c, 0x041c, 0x041c, 0x041c, 0x041c, 0x041c, 0x041c, 0x041c, 0x041c, 0x041c,
     0x041d, 0x041d, 0x041d, 0x041d, 0x041d, 0x041d, 0x041d, 0x041d, 0x041d, 0x041d, 0x041d, 0x041d, 0x041d, 0x041d, 0x041d, 0x041d, 0x041e, 0x041e,
     0x041e, 0x041e, 0x041e, 0x041e, 0x041e, 0x041e, 0x041e, 0x041e, 0x041e, 0x041e, 0x041e, 0x041e, 0x041e, 0x041e, 0x041f, 0x041f, 0x041f, 0x041f,
     0x041f, 0x041f, 0x041f, 0x041f, 0x041f, 0x041f, 0x041f, 0x041f, 0x041f, 0x041f, 0x041f, 0x041f, 0x047f, 0x047f, 0x047f, 0x047f, 0x047f, 0x047f,
     0x047f, 0x047f, 0x047f, 0x047f, 0x047f, 0x047f, 0x047f, 0x047f, 0x047f, 0x047f, 0x04dc, 0x04dc, 0x04dc, 0x04dc, 0x04dc, 0x04dc, 0x04dc, 0x04dc,
     0x04dc, 0x04dc, 0x04dc, 0x04dc, 0x04dc, 0x04dc, 0x04dc, 0x04dc, 0x04f9, 0x04f9, 0x04f9, 0x04f9, 0x04f9, 0x04f9, 0x04f9, 0x04f9, 0x04f9, 0x04f9,
     0x04f9, 0x04f9, 0x04f9, 0x04f9, 0x04f9, 0x04f9, 0x060a, 0x060a, 0x060a, 0x060a, 0x060d, 0x060d, 0x060d, 0x060d, 0x0616, 0x0616, 0x0616, 0x0616,
     0x80ff, 0x80ff, 0x80ff, 0x80ff]"

definition DECODE_ROW_5 :: "u16 list" where
  "DECODE_ROW_5 = [
     0x0221, 0x0221, 0x0221, 0x0221, 0x0221, 0x0221, 0x0221, 0x0221, 0x0221, 0x0221, 0x0221, 0x0221, 0x0221, 0x0221, 0x0221, 0x0221, 0x0221, 0x0221,
     0x0221, 0x0221, 0x0221, 0x0221, 0x0221, 0x0221, 0x0221, 0x0221, 0x0221, 0x0221, 0x0221, 0x0221, 0x0221, 0x0221, 0x0221, 0x0221, 0x0221, 0x0221,
     0x0221, 0x0221, 0x0221, 0x0221, 0x0221, 0x0221, 0x0221, 0x0221, 0x0221, 0x0221, 0x0221, 0x0221, 0x0221, 0x0221, 0x0221, 0x0221, 0x0221, 0x0221,
     0x0221, 0x0221, 0x0221, 0x0221, 0x0221, 0x0221, 0x0221, 0x0221, 0x0221, 0x0221, 0x0222, 0x0222, 0x0222, 0x0222, 0x0222, 0x0222, 0x0222, 0x0222,
     0x0222, 0x0222, 0x0222, 0x0222, 0x0222, 0x0222, 0x0222, 0x0222, 0x0222, 0x0222, 0x0222, 0x0222, 0x0222, 0x0222, 0x0222, 0x0222, 0x0222, 0x0222,
     0x0222, 0x0222, 0x0222, 0x0222, 0x0222, 0x0222, 0x0222, 0x0222, 0x0222, 0x0222, 0x0222, 0x0222, 0x0222, 0x0222, 0x0222, 0x0222, 0x0222, 0x0222,
     0x0222, 0x0222, 0x0222, 0x0222, 0x0222, 0x0222, 0x0222, 0x0222, 0x0222, 0x0222, 0x0222, 0x0222, 0x0222, 0x0222, 0x0222, 0x0222, 0x0222, 0x0222,
     0x0222, 0x0222, 0x0228, 0x0228, 0x0228, 0x0228, 0x0228, 0x0228, 0x0228, 0x0228, 0x0228, 0x0228, 0x0228, 0x0228, 0x0228, 0x0228, 0x0228, 0x0228,
     0x0228, 0x0228, 0x0228, 0x0228, 0x0228, 0x0228, 0x0228, 0x0228, 0x0228, 0x0228, 0x0228, 0x0228, 0x0228, 0x0228, 0x0228, 0x0228, 0x0228, 0x0228,
     0x0228, 0x0228, 0x0228, 0x0228, 0x0228, 0x0228, 0x0228, 0x0228, 0x0228, 0x0228, 0x0228, 0x0228, 0x0228, 0x0228, 0x0228, 0x0228, 0x0228, 0x0228,
     0x0228, 0x0228, 0x0228, 0x0228, 0x0228, 0x0228, 0x0228, 0x0228, 0x0228, 0x0228, 0x0228, 0x0228, 0x0229, 0x0229, 0x0229, 0x0229, 0x0229, 0x0229,
     0x0229, 0x0229, 0x0229, 0x0229, 0x0229, 0x0229, 0x0229, 0x0229, 0x0229, 0x0229, 0x0229, 0x0229, 0x0229, 0x0229, 0x0229, 0x0229, 0x0229, 0x0229,
     0x0229, 0x0229, 0x0229, 0x0229, 0x0229, 0x0229, 0x0229, 0x0229, 0x0229, 0x0229, 0x0229, 0x0229, 0x0229, 0x0229, 0x0229, 0x0229, 0x0229, 0x0229,
     0x0229, 0x0229, 0x0229, 0x0229, 0x0229, 0x0229, 0x0229, 0x0229, 0x0229, 0x0229, 0x0229, 0x0229, 0x0229, 0x0229, 0x0229, 0x0229, 0x0229, 0x0229,
     0x0229, 0x0229, 0x0229, 0x0229]"

definition DECODE_ROW_6 :: "u16 list" where
  "DECODE_ROW_6 = [
     0x035c, 0x035c, 0x035c, 0x035c, 0x035c, 0x035c, 0x035c, 0x035c, 0x035c, 0x035c, 0x035c, 0x035c, 0x035c, 0x035c, 0x035c, 0x035c, 0x035c, 0x035c,
     0x035c, 0x035c, 0x035c, 0x035c, 0x035c, 0x035c, 0x035c, 0x035c, 0x035c, 0x035c, 0x035c, 0x035c, 0x035c, 0x035c, 0x03c3, 0x03c3, 0x03c3, 0x03c3,
     0x03c3, 0x03c3, 0x03c3, 0x03c3, 0x03c3, 0x03c3, 0x03c3, 0x03c3, 0x03c3, 0x03c3, 0x03c3, 0x03c3, 0x03c3, 0x03c3, 0x03c3, 0x03c3, 0x03c3, 0x03c3,
     0x03c3, 0x03c3, 0x03c3, 0x03c3, 0x03c3, 0x03c3, 0x03c3, 0x03c3, 0x03c3, 0x03c3, 0x03d0, 0x03d0, 0x03d0, 0x03d0, 0x03d0, 0x03d0, 0x03d0, 0x03d0,
     0x03d0, 0x03d0, 0x03d0, 0x03d0, 0x03d0, 0x03d0, 0x03d0, 0x03d0, 0x03d0, 0x03d0, 0x03d0, 0x03d0, 0x03d0, 0x03d0, 0x03d0, 0x03d0, 0x03d0, 0x03d0,
     0x03d0, 0x03d0, 0x03d0, 0x03d0, 0x03d0, 0x03d0, 0x0480, 0x0480, 0x0480, 0x0480, 0x0480, 0x0480, 0x0480, 0x0480, 0x0480, 0x0480, 0x0480, 0x0480,
     0x0480, 0x0480, 0x0480, 0x0480, 0x0482, 0x0482, 0x0482, 0x0482, 0x0482, 0x0482, 0x0482, 0x0482, 0x0482, 0x0482, 0x0482, 0x0482, 0x0482, 0x0482,
     0x0482, 0x0482, 0x0483, 0x0483, 0x0483, 0x0483, 0x0483, 0x0483, 0x0483, 0x0483, 0x0483, 0x0483, 0x0483, 0x0483, 0x0483, 0x0483, 0x0483, 0x0483,
     0x04a2, 0x04a2, 0x04a2, 0x04a2, 0x04a2, 0x04a2, 0x04a2, 0x04a2, 0x04a2, 0x04a2, 0x04a2, 0x04a2, 0x04a2, 0x04a2, 0x04a2, 0x04a2, 0x04b8, 0x04b8,
     0x04b8, 0x04b8, 0x04b8, 0x04b8, 0x04b8, 0x04b8, 0x04b8, 0x04b8, 0x04b8, 0x04b8, 0x04b8, 0x04b8, 0x04b8, 0x04b8, 0x04c2, 0x04c2, 0x04c2, 0x04c2,
     0x04c2, 0x04c2, 0x04c2, 0x04c2, 0x04c2, 0x04c2, 0x04c2, 0x04c2, 0x04c2, 0x04c2, 0x04c2, 0x04c2, 0x04e0, 0x04e0, 0x04e0, 0x04e0, 0x04e0, 0x04e0,
     0x04e0, 0x04e0, 0x04e0, 0x04e0, 0x04e0, 0x04e0, 0x04e0, 0x04e0, 0x04e0, 0x04e0, 0x04e2, 0x04e2, 0x04e2, 0x04e2, 0x04e2, 0x04e2, 0x04e2, 0x04e2,
     0x04e2, 0x04e2, 0x04e2, 0x04e2, 0x04e2, 0x04e2, 0x04e2, 0x04e2, 0x0599, 0x0599, 0x0599, 0x0599, 0x0599, 0x0599, 0x0599, 0x0599, 0x05a1, 0x05a1,
     0x05a1, 0x05a1, 0x05a1, 0x05a1, 0x05a1, 0x05a1, 0x05a7, 0x05a7, 0x05a7, 0x05a7, 0x05a7, 0x05a7, 0x05a7, 0x05a7, 0x05ac, 0x05ac, 0x05ac, 0x05ac,
     0x05ac, 0x05ac, 0x05ac, 0x05ac]"

definition DECODE_ROW_7 :: "u16 list" where
  "DECODE_ROW_7 = [
     0x02c0, 0x02c0, 0x02c0, 0x02c0, 0x02c0, 0x02c0, 0x02c0, 0x02c0, 0x02c0, 0x02c0, 0x02c0, 0x02c0, 0x02c0, 0x02c0, 0x02c0, 0x02c0, 0x02c0, 0x02c0,
     0x02c0, 0x02c0, 0x02c0, 0x02c0, 0x02c0, 0x02c0, 0x02c0, 0x02c0, 0x02c0, 0x02c0, 0x02c0, 0x02c0, 0x02c0, 0x02c0, 0x02c0, 0x02c0, 0x02c0, 0x02c0,
     0x02c0, 0x02c0, 0x02c0, 0x02c0, 0x02c0, 0x02c0, 0x02c0, 0x02c0, 0x02c0, 0x02c0, 0x02c0, 0x02c0, 0x02c0, 0x02c0, 0x02c0, 0x02c0, 0x02c0, 0x02c0,
     0x02c0, 0x02c0, 0x02c0, 0x02c0, 0x02c0, 0x02c0, 0x02c0, 0x02c0, 0x02c0, 0x02c0, 0x02c1, 0x02c1, 0x02c1, 0x02c1, 0x02c1, 0x02c1, 0x02c1, 0x02c1,
     0x02c1, 0x02c1, 0x02c1, 0x02c1, 0x02c1, 0x02c1, 0x02c1, 0x02c1, 0x02c1, 0x02c1, 0x02c1, 0x02c1, 0x02c1, 0x02c1, 0x02c1, 0x02c1, 0x02c1, 0x02c1,
     0x02c1, 0x02c1, 0x02c1, 0x02c1, 0x02c1, 0x02c1, 0x02c1, 0x02c1, 0x02c1, 0x02c1, 0x02c1, 0x02c1, 0x02c1, 0x02c1, 0x02c1, 0x02c1, 0x02c1, 0x02c1,
     0x02c1, 0x02c1, 0x02c1, 0x02c1, 0x02c1, 0x02c1, 0x02c1, 0x02c1, 0x02c1, 0x02c1, 0x02c1, 0x02c1, 0x02c1, 0x02c1, 0x02c1, 0x02c1, 0x02c1, 0x02c1,
     0x02c1, 0x02c1, 0x02c8, 0x02c8, 0x02c8, 0x02c8, 0x02c8, 0x02c8, 0x02c8, 0x02c8, 0x02c8, 0x02c8, 0x02c8, 0x02c8, 0x02c8, 0x02c8, 0x02c8, 0x02c8,
     0x02c8, 0x02c8, 0x02c8, 0x02c8, 0x02c8, 0x02c8, 0x02c8, 0x02c8, 0x02c8, 0x02c8, 0x02c8, 0x02c8, 0x02c8, 0x02c8, 0x02c8, 0x02c8, 0x02c8, 0x02c8,
     0x02c8, 0x02c8, 0x02c8, 0x02c8, 0x02c8, 0x02c8, 0x02c8, 0x02c8, 0x02c8, 0x02c8, 0x02c8, 0x02c8, 0x02c8, 0x02c8, 0x02c8, 0x02c8, 0x02c8, 0x02c8,
     0x02c8, 0x02c8, 0x02c8, 0x02c8, 0x02c8, 0x02c8, 0x02c8, 0x02c8, 0x02c8, 0x02c8, 0x02c8, 0x02c8, 0x02c9, 0x02c9, 0x02c9, 0x02c9, 0x02c9, 0x02c9,
     0x02c9, 0x02c9, 0x02c9, 0x02c9, 0x02c9, 0x02c9, 0x02c9, 0x02c9, 0x02c9, 0x02c9, 0x02c9, 0x02c9, 0x02c9, 0x02c9, 0x02c9, 0x02c9, 0x02c9, 0x02c9,
     0x02c9, 0x02c9, 0x02c9, 0x02c9, 0x02c9, 0x02c9, 0x02c9, 0x02c9, 0x02c9, 0x02c9, 0x02c9, 0x02c9, 0x02c9, 0x02c9, 0x02c9, 0x02c9, 0x02c9, 0x02c9,
     0x02c9, 0x02c9, 0x02c9, 0x02c9, 0x02c9, 0x02c9, 0x02c9, 0x02c9, 0x02c9, 0x02c9, 0x02c9, 0x02c9, 0x02c9, 0x02c9, 0x02c9, 0x02c9, 0x02c9, 0x02c9,
     0x02c9, 0x02c9, 0x02c9, 0x02c9]"

definition DECODE_ROW_8 :: "u16 list" where
  "DECODE_ROW_8 = [
     0x01c7, 0x01c7, 0x01c7, 0x01c7, 0x01c7, 0x01c7, 0x01c7, 0x01c7, 0x01c7, 0x01c7, 0x01c7, 0x01c7, 0x01c7, 0x01c7, 0x01c7, 0x01c7, 0x01c7, 0x01c7,
     0x01c7, 0x01c7, 0x01c7, 0x01c7, 0x01c7, 0x01c7, 0x01c7, 0x01c7, 0x01c7, 0x01c7, 0x01c7, 0x01c7, 0x01c7, 0x01c7, 0x01c7, 0x01c7, 0x01c7, 0x01c7,
     0x01c7, 0x01c7, 0x01c7, 0x01c7, 0x01c7, 0x01c7, 0x01c7, 0x01c7, 0x01c7, 0x01c7, 0x01c7, 0x01c7, 0x01c7, 0x01c7, 0x01c7, 0x01c7, 0x01c7, 0x01c7,
     0x01c7, 0x01c7, 0x01c7, 0x01c7, 0x01c7, 0x01c7, 0x01c7, 0x01c7, 0x01c7, 0x01c7, 0x01c7, 0x01c7, 0x01c7, 0x01c7, 0x01c7, 0x01c7, 0x01c7, 0x01c7,
     0x01c7, 0x01c7, 0x01c7, 0x01c7, 0x01c7, 0x01c7, 0x01c7, 0x01c7, 0x01c7, 0x01c7, 0x01c7, 0x01c7, 0x01c7, 0x01c7, 0x01c7, 0x01c7, 0x01c7, 0x01c7,
     0x01c7, 0x01c7, 0x01c7, 0x01c7, 0x01c7, 0x01c7, 0x01c7, 0x01c7, 0x01c7, 0x01c7, 0x01c7, 0x01c7, 0x01c7, 0x01c7, 0x01c7, 0x01c7, 0x01c7, 0x01c7,
     0x01c7, 0x01c7, 0x01c7, 0x01c7, 0x01c7, 0x01c7, 0x01c7, 0x01c7, 0x01c7, 0x01c7, 0x01c7, 0x01c7, 0x01c7, 0x01c7, 0x01c7, 0x01c7, 0x01c7, 0x01c7,
     0x01c7, 0x01c7, 0x01cf, 0x01cf, 0x01cf, 0x01cf, 0x01cf, 0x01cf, 0x01cf, 0x01cf, 0x01cf, 0x01cf, 0x01cf, 0x01cf, 0x01cf, 0x01cf, 0x01cf, 0x01cf,
     0x01cf, 0x01cf, 0x01cf, 0x01cf, 0x01cf, 0x01cf, 0x01cf, 0x01cf, 0x01cf, 0x01cf, 0x01cf, 0x01cf, 0x01cf, 0x01cf, 0x01cf, 0x01cf, 0x01cf, 0x01cf,
     0x01cf, 0x01cf, 0x01cf, 0x01cf, 0x01cf, 0x01cf, 0x01cf, 0x01cf, 0x01cf, 0x01cf, 0x01cf, 0x01cf, 0x01cf, 0x01cf, 0x01cf, 0x01cf, 0x01cf, 0x01cf,
     0x01cf, 0x01cf, 0x01cf, 0x01cf, 0x01cf, 0x01cf, 0x01cf, 0x01cf, 0x01cf, 0x01cf, 0x01cf, 0x01cf, 0x01cf, 0x01cf, 0x01cf, 0x01cf, 0x01cf, 0x01cf,
     0x01cf, 0x01cf, 0x01cf, 0x01cf, 0x01cf, 0x01cf, 0x01cf, 0x01cf, 0x01cf, 0x01cf, 0x01cf, 0x01cf, 0x01cf, 0x01cf, 0x01cf, 0x01cf, 0x01cf, 0x01cf,
     0x01cf, 0x01cf, 0x01cf, 0x01cf, 0x01cf, 0x01cf, 0x01cf, 0x01cf, 0x01cf, 0x01cf, 0x01cf, 0x01cf, 0x01cf, 0x01cf, 0x01cf, 0x01cf, 0x01cf, 0x01cf,
     0x01cf, 0x01cf, 0x01cf, 0x01cf, 0x01cf, 0x01cf, 0x01cf, 0x01cf, 0x01cf, 0x01cf, 0x01cf, 0x01cf, 0x01cf, 0x01cf, 0x01cf, 0x01cf, 0x01cf, 0x01cf,
     0x01cf, 0x01cf, 0x01cf, 0x01cf]"

definition DECODE_ROW_9 :: "u16 list" where
  "DECODE_ROW_9 = [
     0x02ca, 0x02ca, 0x02ca, 0x02ca, 0x02ca, 0x02ca, 0x02ca, 0x02ca, 0x02ca, 0x02ca, 0x02ca, 0x02ca, 0x02ca, 0x02ca, 0x02ca, 0x02ca, 0x02ca, 0x02ca,
     0x02ca, 0x02ca, 0x02ca, 0x02ca, 0x02ca, 0x02ca, 0x02ca, 0x02ca, 0x02ca, 0x02ca, 0x02ca, 0x02ca, 0x02ca, 0x02ca, 0x02ca, 0x02ca, 0x02ca, 0x02ca,
     0x02ca, 0x02ca, 0x02ca, 0x02ca, 0x02ca, 0x02ca, 0x02ca, 0x02ca, 0x02ca, 0x02ca, 0x02ca, 0x02ca, 0x02ca, 0x02ca, 0x02ca, 0x02ca, 0x02ca, 0x02ca,
     0x02ca, 0x02ca, 0x02ca, 0x02ca, 0x02ca, 0x02ca, 0x02ca, 0x02ca, 0x02ca, 0x02ca, 0x02cd, 0x02cd, 0x02cd, 0x02cd, 0x02cd, 0x02cd, 0x02cd, 0x02cd,
     0x02cd, 0x02cd, 0x02cd, 0x02cd, 0x02cd, 0x02cd, 0x02cd, 0x02cd, 0x02cd, 0x02cd, 0x02cd, 0x02cd, 0x02cd, 0x02cd, 0x02cd, 0x02cd, 0x02cd, 0x02cd,
     0x02cd, 0x02cd, 0x02cd, 0x02cd, 0x02cd, 0x02cd, 0x02cd, 0x02cd, 0x02cd, 0x02cd, 0x02cd, 0x02cd, 0x02cd, 0x02cd, 0x02cd, 0x02cd, 0x02cd, 0x02cd,
     0x02cd, 0x02cd, 0x02cd, 0x02cd, 0x02cd, 0x02cd, 0x02cd, 0x02cd, 0x02cd, 0x02cd, 0x02cd, 0x02cd, 0x02cd, 0x02cd, 0x02cd, 0x02cd, 0x02cd, 0x02cd,
     0x02cd, 0x02cd, 0x02d2, 0x02d2, 0x02d2, 0x02d2, 0x02d2, 0x02d2, 0x02d2, 0x02d2, 0x02d2, 0x02d2, 0x02d2, 0x02d2, 0x02d2, 0x02d2, 0x02d2, 0x02d2,
     0x02d2, 0x02d2, 0x02d2, 0x02d2, 0x02d2, 0x02d2, 0x02d2, 0x02d2, 0x02d2, 0x02d2, 0x02d2, 0x02d2, 0x02d2, 0x02d2, 0x02d2, 0x02d2, 0x02d2, 0x02d2,
     0x02d2, 0x02d2, 0x02d2, 0x02d2, 0x02d2, 0x02d2, 0x02d2, 0x02d2, 0x02d2, 0x02d2, 0x02d2, 0x02d2, 0x02d2, 0x02d2, 0x02d2, 0x02d2, 0x02d2, 0x02d2,
     0x02d2, 0x02d2, 0x02d2, 0x02d2, 0x02d2, 0x02d2, 0x02d2, 0x02d2, 0x02d2, 0x02d2, 0x02d2, 0x02d2, 0x02d5, 0x02d5, 0x02d5, 0x02d5, 0x02d5, 0x02d5,
     0x02d5, 0x02d5, 0x02d5, 0x02d5, 0x02d5, 0x02d5, 0x02d5, 0x02d5, 0x02d5, 0x02d5, 0x02d5, 0x02d5, 0x02d5, 0x02d5, 0x02d5, 0x02d5, 0x02d5, 0x02d5,
     0x02d5, 0x02d5, 0x02d5, 0x02d5, 0x02d5, 0x02d5, 0x02d5, 0x02d5, 0x02d5, 0x02d5, 0x02d5, 0x02d5, 0x02d5, 0x02d5, 0x02d5, 0x02d5, 0x02d5, 0x02d5,
     0x02d5, 0x02d5, 0x02d5, 0x02d5, 0x02d5, 0x02d5, 0x02d5, 0x02d5, 0x02d5, 0x02d5, 0x02d5, 0x02d5, 0x02d5, 0x02d5, 0x02d5, 0x02d5, 0x02d5, 0x02d5,
     0x02d5, 0x02d5, 0x02d5, 0x02d5]"

definition DECODE_ROW_10 :: "u16 list" where
  "DECODE_ROW_10 = [
     0x02f2, 0x02f2, 0x02f2, 0x02f2, 0x02f2, 0x02f2, 0x02f2, 0x02f2, 0x02f2, 0x02f2, 0x02f2, 0x02f2, 0x02f2, 0x02f2, 0x02f2, 0x02f2, 0x02f2, 0x02f2,
     0x02f2, 0x02f2, 0x02f2, 0x02f2, 0x02f2, 0x02f2, 0x02f2, 0x02f2, 0x02f2, 0x02f2, 0x02f2, 0x02f2, 0x02f2, 0x02f2, 0x02f2, 0x02f2, 0x02f2, 0x02f2,
     0x02f2, 0x02f2, 0x02f2, 0x02f2, 0x02f2, 0x02f2, 0x02f2, 0x02f2, 0x02f2, 0x02f2, 0x02f2, 0x02f2, 0x02f2, 0x02f2, 0x02f2, 0x02f2, 0x02f2, 0x02f2,
     0x02f2, 0x02f2, 0x02f2, 0x02f2, 0x02f2, 0x02f2, 0x02f2, 0x02f2, 0x02f2, 0x02f2, 0x02f3, 0x02f3, 0x02f3, 0x02f3, 0x02f3, 0x02f3, 0x02f3, 0x02f3,
     0x02f3, 0x02f3, 0x02f3, 0x02f3, 0x02f3, 0x02f3, 0x02f3, 0x02f3, 0x02f3, 0x02f3, 0x02f3, 0x02f3, 0x02f3, 0x02f3, 0x02f3, 0x02f3, 0x02f3, 0x02f3,
     0x02f3, 0x02f3, 0x02f3, 0x02f3, 0x02f3, 0x02f3, 0x02f3, 0x02f3, 0x02f3, 0x02f3, 0x02f3, 0x02f3, 0x02f3, 0x02f3, 0x02f3, 0x02f3, 0x02f3, 0x02f3,
     0x02f3, 0x02f3, 0x02f3, 0x02f3, 0x02f3, 0x02f3, 0x02f3, 0x02f3, 0x02f3, 0x02f3, 0x02f3, 0x02f3, 0x02f3, 0x02f3, 0x02f3, 0x02f3, 0x02f3, 0x02f3,
     0x02f3, 0x02f3, 0x02ff, 0x02ff, 0x02ff, 0x02ff, 0x02ff, 0x02ff, 0x02ff, 0x02ff, 0x02ff, 0x02ff, 0x02ff, 0x02ff, 0x02ff, 0x02ff, 0x02ff, 0x02ff,
     0x02ff, 0x02ff, 0x02ff, 0x02ff, 0x02ff, 0x02ff, 0x02ff, 0x02ff, 0x02ff, 0x02ff, 0x02ff, 0x02ff, 0x02ff, 0x02ff, 0x02ff, 0x02ff, 0x02ff, 0x02ff,
     0x02ff, 0x02ff, 0x02ff, 0x02ff, 0x02ff, 0x02ff, 0x02ff, 0x02ff, 0x02ff, 0x02ff, 0x02ff, 0x02ff, 0x02ff, 0x02ff, 0x02ff, 0x02ff, 0x02ff, 0x02ff,
     0x02ff, 0x02ff, 0x02ff, 0x02ff, 0x02ff, 0x02ff, 0x02ff, 0x02ff, 0x02ff, 0x02ff, 0x02ff, 0x02ff, 0x03cb, 0x03cb, 0x03cb, 0x03cb, 0x03cb, 0x03cb,
     0x03cb, 0x03cb, 0x03cb, 0x03cb, 0x03cb, 0x03cb, 0x03cb, 0x03cb, 0x03cb, 0x03cb, 0x03cb, 0x03cb, 0x03cb, 0x03cb, 0x03cb, 0x03cb, 0x03cb, 0x03cb,
     0x03cb, 0x03cb, 0x03cb, 0x03cb, 0x03cb, 0x03cb, 0x03cb, 0x03cb, 0x03cc, 0x03cc, 0x03cc, 0x03cc, 0x03cc, 0x03cc, 0x03cc, 0x03cc, 0x03cc, 0x03cc,
     0x03cc, 0x03cc, 0x03cc, 0x03cc, 0x03cc, 0x03cc, 0x03cc, 0x03cc, 0x03cc, 0x03cc, 0x03cc, 0x03cc, 0x03cc, 0x03cc, 0x03cc, 0x03cc, 0x03cc, 0x03cc,
     0x03cc, 0x03cc, 0x03cc, 0x03cc]"

definition DECODE_ROW_11 :: "u16 list" where
  "DECODE_ROW_11 = [
     0x03d3, 0x03d3, 0x03d3, 0x03d3, 0x03d3, 0x03d3, 0x03d3, 0x03d3, 0x03d3, 0x03d3, 0x03d3, 0x03d3, 0x03d3, 0x03d3, 0x03d3, 0x03d3, 0x03d3, 0x03d3,
     0x03d3, 0x03d3, 0x03d3, 0x03d3, 0x03d3, 0x03d3, 0x03d3, 0x03d3, 0x03d3, 0x03d3, 0x03d3, 0x03d3, 0x03d3, 0x03d3, 0x03d4, 0x03d4, 0x03d4, 0x03d4,
     0x03d4, 0x03d4, 0x03d4, 0x03d4, 0x03d4, 0x03d4, 0x03d4, 0x03d4, 0x03d4, 0x03d4, 0x03d4, 0x03d4, 0x03d4, 0x03d4, 0x03d4, 0x03d4, 0x03d4, 0x03d4,
     0x03d4, 0x03d4, 0x03d4, 0x03d4, 0x03d4, 0x03d4, 0x03d4, 0x03d4, 0x03d4, 0x03d4, 0x03d6, 0x03d6, 0x03d6, 0x03d6, 0x03d6, 0x03d6, 0x03d6, 0x03d6,
     0x03d6, 0x03d6, 0x03d6, 0x03d6, 0x03d6, 0x03d6, 0x03d6, 0x03d6, 0x03d6, 0x03d6, 0x03d6, 0x03d6, 0x03d6, 0x03d6, 0x03d6, 0x03d6, 0x03d6, 0x03d6,
     0x03d6, 0x03d6, 0x03d6, 0x03d6, 0x03d6, 0x03d6, 0x03dd, 0x03dd, 0x03dd, 0x03dd, 0x03dd, 0x03dd, 0x03dd, 0x03dd, 0x03dd, 0x03dd, 0x03dd, 0x03dd,
     0x03dd, 0x03dd, 0x03dd, 0x03dd, 0x03dd, 0x03dd, 0x03dd, 0x03dd, 0x03dd, 0x03dd, 0x03dd, 0x03dd, 0x03dd, 0x03dd, 0x03dd, 0x03dd, 0x03dd, 0x03dd,
     0x03dd, 0x03dd, 0x03de, 0x03de, 0x03de, 0x03de, 0x03de, 0x03de, 0x03de, 0x03de, 0x03de, 0x03de, 0x03de, 0x03de, 0x03de, 0x03de, 0x03de, 0x03de,
     0x03de, 0x03de, 0x03de, 0x03de, 0x03de, 0x03de, 0x03de, 0x03de, 0x03de, 0x03de, 0x03de, 0x03de, 0x03de, 0x03de, 0x03de, 0x03de, 0x03df, 0x03df,
     0x03df, 0x03df, 0x03df, 0x03df, 0x03df, 0x03df, 0x03df, 0x03df, 0x03df, 0x03df, 0x03df, 0x03df, 0x03df, 0x03df, 0x03df, 0x03df, 0x03df, 0x03df,
     0x03df, 0x03df, 0x03df, 0x03df, 0x03df, 0x03df, 0x03df, 0x03df, 0x03df, 0x03df, 0x03df, 0x03df, 0x03f1, 0x03f1, 0x03f1, 0x03f1, 0x03f1, 0x03f1,
     0x03f1, 0x03f1, 0x03f1, 0x03f1, 0x03f1, 0x03f1, 0x03f1, 0x03f1, 0x03f1, 0x03f1, 0x03f1, 0x03f1, 0x03f1, 0x03f1, 0x03f1, 0x03f1, 0x03f1, 0x03f1,
     0x03f1, 0x03f1, 0x03f1, 0x03f1, 0x03f1, 0x03f1, 0x03f1, 0x03f1, 0x03f4, 0x03f4, 0x03f4, 0x03f4, 0x03f4, 0x03f4, 0x03f4, 0x03f4, 0x03f4, 0x03f4,
     0x03f4, 0x03f4, 0x03f4, 0x03f4, 0x03f4, 0x03f4, 0x03f4, 0x03f4, 0x03f4, 0x03f4, 0x03f4, 0x03f4, 0x03f4, 0x03f4, 0x03f4, 0x03f4, 0x03f4, 0x03f4,
     0x03f4, 0x03f4, 0x03f4, 0x03f4]"

definition DECODE_ROW_12 :: "u16 list" where
  "DECODE_ROW_12 = [
     0x02da, 0x02da, 0x02da, 0x02da, 0x02da, 0x02da, 0x02da, 0x02da, 0x02da, 0x02da, 0x02da, 0x02da, 0x02da, 0x02da, 0x02da, 0x02da, 0x02da, 0x02da,
     0x02da, 0x02da, 0x02da, 0x02da, 0x02da, 0x02da, 0x02da, 0x02da, 0x02da, 0x02da, 0x02da, 0x02da, 0x02da, 0x02da, 0x02da, 0x02da, 0x02da, 0x02da,
     0x02da, 0x02da, 0x02da, 0x02da, 0x02da, 0x02da, 0x02da, 0x02da, 0x02da, 0x02da, 0x02da, 0x02da, 0x02da, 0x02da, 0x02da, 0x02da, 0x02da, 0x02da,
     0x02da, 0x02da, 0x02da, 0x02da, 0x02da, 0x02da, 0x02da, 0x02da, 0x02da, 0x02da, 0x02db, 0x02db, 0x02db, 0x02db, 0x02db, 0x02db, 0x02db, 0x02db,
     0x02db, 0x02db, 0x02db, 0x02db, 0x02db, 0x02db, 0x02db, 0x02db, 0x02db, 0x02db, 0x02db, 0x02db, 0x02db, 0x02db, 0x02db, 0x02db, 0x02db, 0x02db,
     0x02db, 0x02db, 0x02db, 0x02db, 0x02db, 0x02db, 0x02db, 0x02db, 0x02db, 0x02db, 0x02db, 0x02db, 0x02db, 0x02db, 0x02db, 0x02db, 0x02db, 0x02db,
     0x02db, 0x02db, 0x02db, 0x02db, 0x02db, 0x02db, 0x02db, 0x02db, 0x02db, 0x02db, 0x02db, 0x02db, 0x02db, 0x02db, 0x02db, 0x02db, 0x02db, 0x02db,
     0x02db, 0x02db, 0x02ee, 0x02ee, 0x02ee, 0x02ee, 0x02ee, 0x02ee, 0x02ee, 0x02ee, 0x02ee, 0x02ee, 0x02ee, 0x02ee, 0x02ee, 0x02ee, 0x02ee, 0x02ee,
     0x02ee, 0x02ee, 0x02ee, 0x02ee, 0x02ee, 0x02ee, 0x02ee, 0x02ee, 0x02ee, 0x02ee, 0x02ee, 0x02ee, 0x02ee, 0x02ee, 0x02ee, 0x02ee, 0x02ee, 0x02ee,
     0x02ee, 0x02ee, 0x02ee, 0x02ee, 0x02ee, 0x02ee, 0x02ee, 0x02ee, 0x02ee, 0x02ee, 0x02ee, 0x02ee, 0x02ee, 0x02ee, 0x02ee, 0x02ee, 0x02ee, 0x02ee,
     0x02ee, 0x02ee, 0x02ee, 0x02ee, 0x02ee, 0x02ee, 0x02ee, 0x02ee, 0x02ee, 0x02ee, 0x02ee, 0x02ee, 0x02f0, 0x02f0, 0x02f0, 0x02f0, 0x02f0, 0x02f0,
     0x02f0, 0x02f0, 0x02f0, 0x02f0, 0x02f0, 0x02f0, 0x02f0, 0x02f0, 0x02f0, 0x02f0, 0x02f0, 0x02f0, 0x02f0, 0x02f0, 0x02f0, 0x02f0, 0x02f0, 0x02f0,
     0x02f0, 0x02f0, 0x02f0, 0x02f0, 0x02f0, 0x02f0, 0x02f0, 0x02f0, 0x02f0, 0x02f0, 0x02f0, 0x02f0, 0x02f0, 0x02f0, 0x02f0, 0x02f0, 0x02f0, 0x02f0,
     0x02f0, 0x02f0, 0x02f0, 0x02f0, 0x02f0, 0x02f0, 0x02f0, 0x02f0, 0x02f0, 0x02f0, 0x02f0, 0x02f0, 0x02f0, 0x02f0, 0x02f0, 0x02f0, 0x02f0, 0x02f0,
     0x02f0, 0x02f0, 0x02f0, 0x02f0]"

definition DECODE_ROW_13 :: "u16 list" where
  "DECODE_ROW_13 = [
     0x01ea, 0x01ea, 0x01ea, 0x01ea, 0x01ea, 0x01ea, 0x01ea, 0x01ea, 0x01ea, 0x01ea, 0x01ea, 0x01ea, 0x01ea, 0x01ea, 0x01ea, 0x01ea, 0x01ea, 0x01ea,
     0x01ea, 0x01ea, 0x01ea, 0x01ea, 0x01ea, 0x01ea, 0x01ea, 0x01ea, 0x01ea, 0x01ea, 0x01ea, 0x01ea, 0x01ea, 0x01ea, 0x01ea, 0x01ea, 0x01ea, 0x01ea,
     0x01ea, 0x01ea, 0x01ea, 0x01ea, 0x01ea, 0x01ea, 0x01ea, 0x01ea, 0x01ea, 0x01ea, 0x01ea, 0x01ea, 0x01ea, 0x01ea, 0x01ea, 0x01ea, 0x01ea, 0x01ea,
     0x01ea, 0x01ea, 0x01ea, 0x01ea, 0x01ea, 0x01ea, 0x01ea, 0x01ea, 0x01ea, 0x01ea, 0x01ea, 0x01ea, 0x01ea, 0x01ea, 0x01ea, 0x01ea, 0x01ea, 0x01ea,
     0x01ea, 0x01ea, 0x01ea, 0x01ea, 0x01ea, 0x01ea, 0x01ea, 0x01ea, 0x01ea, 0x01ea, 0x01ea, 0x01ea, 0x01ea, 0x01ea, 0x01ea, 0x01ea, 0x01ea, 0x01ea,
     0x01ea, 0x01ea, 0x01ea, 0x01ea, 0x01ea, 0x01ea, 0x01ea, 0x01ea, 0x01ea, 0x01ea, 0x01ea, 0x01ea, 0x01ea, 0x01ea, 0x01ea, 0x01ea, 0x01ea, 0x01ea,
     0x01ea, 0x01ea, 0x01ea, 0x01ea, 0x01ea, 0x01ea, 0x01ea, 0x01ea, 0x01ea, 0x01ea, 0x01ea, 0x01ea, 0x01ea, 0x01ea, 0x01ea, 0x01ea, 0x01ea, 0x01ea,
     0x01ea, 0x01ea, 0x01eb, 0x01eb, 0x01eb, 0x01eb, 0x01eb, 0x01eb, 0x01eb, 0x01eb, 0x01eb, 0x01eb, 0x01eb, 0x01eb, 0x01eb, 0x01eb, 0x01eb, 0x01eb,
     0x01eb, 0x01eb, 0x01eb, 0x01eb, 0x01eb, 0x01eb, 0x01eb, 0x01eb, 0x01eb, 0x01eb, 0x01eb, 0x01eb, 0x01eb, 0x01eb, 0x01eb, 0x01eb, 0x01eb, 0x01eb,
     0x01eb, 0x01eb, 0x01eb, 0x01eb, 0x01eb, 0x01eb, 0x01eb, 0x01eb, 0x01eb, 0x01eb, 0x01eb, 0x01eb, 0x01eb, 0x01eb, 0x01eb, 0x01eb, 0x01eb, 0x01eb,
     0x01eb, 0x01eb, 0x01eb, 0x01eb, 0x01eb, 0x01eb, 0x01eb, 0x01eb, 0x01eb, 0x01eb, 0x01eb, 0x01eb, 0x01eb, 0x01eb, 0x01eb, 0x01eb, 0x01eb, 0x01eb,
     0x01eb, 0x01eb, 0x01eb, 0x01eb, 0x01eb, 0x01eb, 0x01eb, 0x01eb, 0x01eb, 0x01eb, 0x01eb, 0x01eb, 0x01eb, 0x01eb, 0x01eb, 0x01eb, 0x01eb, 0x01eb,
     0x01eb, 0x01eb, 0x01eb, 0x01eb, 0x01eb, 0x01eb, 0x01eb, 0x01eb, 0x01eb, 0x01eb, 0x01eb, 0x01eb, 0x01eb, 0x01eb, 0x01eb, 0x01eb, 0x01eb, 0x01eb,
     0x01eb, 0x01eb, 0x01eb, 0x01eb, 0x01eb, 0x01eb, 0x01eb, 0x01eb, 0x01eb, 0x01eb, 0x01eb, 0x01eb, 0x01eb, 0x01eb, 0x01eb, 0x01eb, 0x01eb, 0x01eb,
     0x01eb, 0x01eb, 0x01eb, 0x01eb]"

definition DECODE_ROW_14 :: "u16 list" where
  "DECODE_ROW_14 = [
     0x03f5, 0x03f5, 0x03f5, 0x03f5, 0x03f5, 0x03f5, 0x03f5, 0x03f5, 0x03f5, 0x03f5, 0x03f5, 0x03f5, 0x03f5, 0x03f5, 0x03f5, 0x03f5, 0x03f5, 0x03f5,
     0x03f5, 0x03f5, 0x03f5, 0x03f5, 0x03f5, 0x03f5, 0x03f5, 0x03f5, 0x03f5, 0x03f5, 0x03f5, 0x03f5, 0x03f5, 0x03f5, 0x03f6, 0x03f6, 0x03f6, 0x03f6,
     0x03f6, 0x03f6, 0x03f6, 0x03f6, 0x03f6, 0x03f6, 0x03f6, 0x03f6, 0x03f6, 0x03f6, 0x03f6, 0x03f6, 0x03f6, 0x03f6, 0x03f6, 0x03f6, 0x03f6, 0x03f6,
     0x03f6, 0x03f6, 0x03f6, 0x03f6, 0x03f6, 0x03f6, 0x03f6, 0x03f6, 0x03f6, 0x03f6, 0x03f7, 0x03f7, 0x03f7, 0x03f7, 0x03f7, 0x03f7, 0x03f7, 0x03f7,
     0x03f7, 0x03f7, 0x03f7, 0x03f7, 0x03f7, 0x03f7, 0x03f7, 0x03f7, 0x03f7, 0x03f7, 0x03f7, 0x03f7, 0x03f7, 0x03f7, 0x03f7, 0x03f7, 0x03f7, 0x03f7,
     0x03f7, 0x03f7, 0x03f7, 0x03f7, 0x03f7, 0x03f7, 0x03f8, 0x03f8, 0x03f8, 0x03f8, 0x03f8, 0x03f8, 0x03f8, 0x03f8, 0x03f8, 0x03f8, 0x03f8, 0x03f8,
     0x03f8, 0x03f8, 0x03f8, 0x03f8, 0x03f8, 0x03f8, 0x03f8, 0x03f8, 0x03f8, 0x03f8, 0x03f8, 0x03f8, 0x03f8, 0x03f8, 0x03f8, 0x03f8, 0x03f8, 0x03f8,
     0x03f8, 0x03f8, 0x03fa, 0x03fa, 0x03fa, 0x03fa, 0x03fa, 0x03fa, 0x03fa, 0x03fa, 0x03fa, 0x03fa, 0x03fa, 0x03fa, 0x03fa, 0x03fa, 0x03fa, 0x03fa,
     0x03fa, 0x03fa, 0x03fa, 0x03fa, 0x03fa, 0x03fa, 0x03fa, 0x03fa, 0x03fa, 0x03fa, 0x03fa, 0x03fa, 0x03fa, 0x03fa, 0x03fa, 0x03fa, 0x03fb, 0x03fb,
     0x03fb, 0x03fb, 0x03fb, 0x03fb, 0x03fb, 0x03fb, 0x03fb, 0x03fb, 0x03fb, 0x03fb, 0x03fb, 0x03fb, 0x03fb, 0x03fb, 0x03fb, 0x03fb, 0x03fb, 0x03fb,
     0x03fb, 0x03fb, 0x03fb, 0x03fb, 0x03fb, 0x03fb, 0x03fb, 0x03fb, 0x03fb, 0x03fb, 0x03fb, 0x03fb, 0x03fc, 0x03fc, 0x03fc, 0x03fc, 0x03fc, 0x03fc,
     0x03fc, 0x03fc, 0x03fc, 0x03fc, 0x03fc, 0x03fc, 0x03fc, 0x03fc, 0x03fc, 0x03fc, 0x03fc, 0x03fc, 0x03fc, 0x03fc, 0x03fc, 0x03fc, 0x03fc, 0x03fc,
     0x03fc, 0x03fc, 0x03fc, 0x03fc, 0x03fc, 0x03fc, 0x03fc, 0x03fc, 0x03fd, 0x03fd, 0x03fd, 0x03fd, 0x03fd, 0x03fd, 0x03fd, 0x03fd, 0x03fd, 0x03fd,
     0x03fd, 0x03fd, 0x03fd, 0x03fd, 0x03fd, 0x03fd, 0x03fd, 0x03fd, 0x03fd, 0x03fd, 0x03fd, 0x03fd, 0x03fd, 0x03fd, 0x03fd, 0x03fd, 0x03fd, 0x03fd,
     0x03fd, 0x03fd, 0x03fd, 0x03fd]"

definition DECODE_TABLE :: "u16 list" where
  "DECODE_TABLE =
     DECODE_ROW_0 @ DECODE_ROW_1 @ DECODE_ROW_2 @ DECODE_ROW_3 @ DECODE_ROW_4 @ DECODE_ROW_5 @ DECODE_ROW_6 @ DECODE_ROW_7 @
     DECODE_ROW_8 @ DECODE_ROW_9 @ DECODE_ROW_10 @ DECODE_ROW_11 @ DECODE_ROW_12 @ DECODE_ROW_13 @ DECODE_ROW_14"

section \<open>The decoder\<close>

definition BRANCH :: u16 where "BRANCH = 0x8000"
definition TABLE_INDEX_MASK :: u16 where "TABLE_INDEX_MASK = 0x7f00"
definition TABLE_WIDTH :: nat where "TABLE_WIDTH = 256"

definition table_entry :: "nat \<Rightarrow> u8 \<Rightarrow> u16 res" where
  "table_entry table index = byte_at DECODE_TABLE (table * TABLE_WIDTH + unat index)"

section \<open>The rows of the table\<close>

text \<open>A row of 256 entries is a binary tree of depth eight in which equal entries are one leaf.\<close>

datatype htree = HLeaf u16 | HNode htree htree

fun flat :: "nat \<Rightarrow> htree \<Rightarrow> u16 list" where
  "flat d (HLeaf v) = replicate (2 ^ d) v"
| "flat (Suc d) (HNode l r) = flat d l @ flat d r"
| "flat 0 (HNode l r) = []"

fun height :: "htree \<Rightarrow> nat" where
  "height (HLeaf v) = 0"
| "height (HNode l r) = Suc (max (height l) (height r))"

fun entries_of :: "htree \<Rightarrow> u16 list" where
  "entries_of (HLeaf v) = [v]"
| "entries_of (HNode l r) = entries_of l @ entries_of r"

definition HUFFMAN_ROWS :: "htree list" where
  "HUFFMAN_ROWS = [
    HNode (HNode (HNode (HNode (HNode (HLeaf 0x0530) (HLeaf 0x0531)) (HNode (HLeaf 0x0532) (HLeaf 0x0561))) (HNode (HNode (HLeaf 0x0563) (HLeaf 0x0565)) (HNode (HLeaf 0x0569) (HLeaf 0x056f)))) (HNode (HNode (HNode (HLeaf 0x0573) (HLeaf 0x0574)) (HNode (HNode (HLeaf 0x0620) (HLeaf 0x0625)) (HNode (HLeaf 0x062d) (HLeaf 0x062e)))) (HNode (HNode (HNode (HLeaf 0x062f) (HLeaf 0x0633)) (HNode (HLeaf 0x0634) (HLeaf 0x0635))) (HNode (HNode (HLeaf 0x0636) (HLeaf 0x0637)) (HNode (HLeaf 0x0638) (HLeaf 0x0639)))))) (HNode (HNode (HNode (HNode (HNode (HLeaf 0x063d) (HLeaf 0x0641)) (HNode (HLeaf 0x065f) (HLeaf 0x0662))) (HNode (HNode (HLeaf 0x0664) (HLeaf 0x0666)) (HNode (HLeaf 0x0667) (HLeaf 0x0668)))) (HNode (HNode (HNode (HLeaf 0x066c) (HLeaf 0x066d)) (HNode (HLeaf 0x066e) (HLeaf 0x0670))) (HNode (HNode (HLeaf 0x0672) (HLeaf 0x0675)) (HNode (HNode (HLeaf 0x073a) (HLeaf 0x0742)) (HNode (HLeaf 0x0743) (HLeaf 0x0744)))))) (HNode (HNode (HNode (HNode (HNode (HLeaf 0x0745) (HLeaf 0x0746)) (HNode (HLeaf 0x0747) (HLeaf 0x0748))) (HNode (HNode (HLeaf 0x0749) (HLeaf 0x074a)) (HNode (HLeaf 0x074b) (HLeaf 0x074c)))) (HNode (HNode (HNode (HLeaf 0x074d) (HLeaf 0x074e)) (HNode (HLeaf 0x074f) (HLeaf 0x0750))) (HNode (HNode (HLeaf 0x0751) (HLeaf 0x0752)) (HNode (HLeaf 0x0753) (HLeaf 0x0754))))) (HNode (HNode (HNode (HNode (HLeaf 0x0755) (HLeaf 0x0756)) (HNode (HLeaf 0x0757) (HLeaf 0x0759))) (HNode (HNode (HLeaf 0x076a) (HLeaf 0x076b)) (HNode (HLeaf 0x0771) (HLeaf 0x0776)))) (HNode (HNode (HNode (HLeaf 0x0777) (HLeaf 0x0778)) (HNode (HLeaf 0x0779) (HLeaf 0x077a))) (HNode (HNode (HNode (HLeaf 0x0826) (HLeaf 0x082a)) (HNode (HLeaf 0x082c) (HLeaf 0x083b))) (HNode (HNode (HLeaf 0x0858) (HLeaf 0x085a)) (HNode (HLeaf 0x8500) (HLeaf 0x8100)))))))),
    HNode (HNode (HLeaf 0x023f) (HNode (HLeaf 0x0327) (HLeaf 0x032b))) (HNode (HNode (HLeaf 0x037c) (HNode (HLeaf 0x0423) (HLeaf 0x043e))) (HNode (HNode (HNode (HLeaf 0x0500) (HLeaf 0x0524)) (HNode (HLeaf 0x0540) (HLeaf 0x055b))) (HNode (HNode (HLeaf 0x055d) (HLeaf 0x057e)) (HNode (HNode (HLeaf 0x065e) (HLeaf 0x067d)) (HNode (HNode (HLeaf 0x073c) (HLeaf 0x0760)) (HNode (HLeaf 0x077b) (HNode (HLeaf 0x8600) (HLeaf 0x8200)))))))),
    HNode (HNode (HNode (HNode (HNode (HLeaf 0x05b0) (HLeaf 0x05b1)) (HNode (HLeaf 0x05b3) (HLeaf 0x05d1))) (HNode (HNode (HLeaf 0x05d8) (HLeaf 0x05d9)) (HNode (HLeaf 0x05e3) (HLeaf 0x05e5)))) (HNode (HNode (HNode (HLeaf 0x05e6) (HNode (HLeaf 0x0681) (HLeaf 0x0684))) (HNode (HNode (HLeaf 0x0685) (HLeaf 0x0686)) (HNode (HLeaf 0x0688) (HLeaf 0x0692)))) (HNode (HNode (HNode (HLeaf 0x069a) (HLeaf 0x069c)) (HNode (HLeaf 0x06a0) (HLeaf 0x06a3))) (HNode (HNode (HLeaf 0x06a4) (HLeaf 0x06a9)) (HNode (HLeaf 0x06aa) (HLeaf 0x06ad)))))) (HNode (HNode (HNode (HNode (HNode (HLeaf 0x06b2) (HLeaf 0x06b5)) (HNode (HLeaf 0x06b9) (HLeaf 0x06ba))) (HNode (HNode (HLeaf 0x06bb) (HLeaf 0x06bd)) (HNode (HLeaf 0x06be) (HLeaf 0x06c4)))) (HNode (HNode (HNode (HLeaf 0x06c6) (HLeaf 0x06e4)) (HNode (HLeaf 0x06e8) (HLeaf 0x06e9))) (HNode (HNode (HNode (HLeaf 0x0701) (HLeaf 0x0787)) (HNode (HLeaf 0x0789) (HLeaf 0x078a))) (HNode (HNode (HLeaf 0x078b) (HLeaf 0x078c)) (HNode (HLeaf 0x078d) (HLeaf 0x078f)))))) (HNode (HNode (HNode (HNode (HNode (HLeaf 0x0793) (HLeaf 0x0795)) (HNode (HLeaf 0x0796) (HLeaf 0x0797))) (HNode (HNode (HLeaf 0x0798) (HLeaf 0x079b)) (HNode (HLeaf 0x079d) (HLeaf 0x079e)))) (HNode (HNode (HNode (HLeaf 0x07a5) (HLeaf 0x07a6)) (HNode (HLeaf 0x07a8) (HLeaf 0x07ae))) (HNode (HNode (HLeaf 0x07af) (HLeaf 0x07b4)) (HNode (HLeaf 0x07b6) (HLeaf 0x07b7))))) (HNode (HNode (HNode (HNode (HLeaf 0x07bc) (HLeaf 0x07bf)) (HNode (HLeaf 0x07c5) (HLeaf 0x07e7))) (HNode (HNode (HLeaf 0x07ef) (HNode (HLeaf 0x0809) (HLeaf 0x088e))) (HNode (HNode (HLeaf 0x0890) (HLeaf 0x0891)) (HNode (HLeaf 0x0894) (HLeaf 0x089f))))) (HNode (HNode (HNode (HNode (HLeaf 0x08ab) (HLeaf 0x08ce)) (HNode (HLeaf 0x08d7) (HLeaf 0x08e1))) (HNode (HNode (HLeaf 0x08ec) (HLeaf 0x08ed)) (HNode (HLeaf 0x8800) (HLeaf 0x8d00)))) (HNode (HNode (HNode (HLeaf 0x8700) (HLeaf 0x8900)) (HNode (HLeaf 0x8c00) (HLeaf 0x8a00))) (HNode (HNode (HLeaf 0x8b00) (HLeaf 0x8e00)) (HNode (HLeaf 0x8300) (HLeaf 0x8400)))))))),
    HNode (HNode (HNode (HLeaf 0x03fe) (HNode (HLeaf 0x0402) (HLeaf 0x0403))) (HNode (HNode (HLeaf 0x0404) (HLeaf 0x0405)) (HNode (HLeaf 0x0406) (HLeaf 0x0407)))) (HNode (HNode (HNode (HLeaf 0x0408) (HLeaf 0x040b)) (HNode (HLeaf 0x040c) (HLeaf 0x040e))) (HNode (HNode (HLeaf 0x040f) (HLeaf 0x0410)) (HNode (HLeaf 0x0411) (HLeaf 0x0412)))),
    HNode (HNode (HNode (HNode (HLeaf 0x0413) (HLeaf 0x0414)) (HNode (HLeaf 0x0415) (HLeaf 0x0417))) (HNode (HNode (HLeaf 0x0418) (HLeaf 0x0419)) (HNode (HLeaf 0x041a) (HLeaf 0x041b)))) (HNode (HNode (HNode (HLeaf 0x041c) (HLeaf 0x041d)) (HNode (HLeaf 0x041e) (HLeaf 0x041f))) (HNode (HNode (HLeaf 0x047f) (HLeaf 0x04dc)) (HNode (HLeaf 0x04f9) (HNode (HNode (HLeaf 0x060a) (HLeaf 0x060d)) (HNode (HLeaf 0x0616) (HLeaf 0x80ff)))))),
    HNode (HNode (HLeaf 0x0221) (HLeaf 0x0222)) (HNode (HLeaf 0x0228) (HLeaf 0x0229)),
    HNode (HNode (HNode (HLeaf 0x035c) (HLeaf 0x03c3)) (HNode (HLeaf 0x03d0) (HNode (HLeaf 0x0480) (HLeaf 0x0482)))) (HNode (HNode (HNode (HLeaf 0x0483) (HLeaf 0x04a2)) (HNode (HLeaf 0x04b8) (HLeaf 0x04c2))) (HNode (HNode (HLeaf 0x04e0) (HLeaf 0x04e2)) (HNode (HNode (HLeaf 0x0599) (HLeaf 0x05a1)) (HNode (HLeaf 0x05a7) (HLeaf 0x05ac))))),
    HNode (HNode (HLeaf 0x02c0) (HLeaf 0x02c1)) (HNode (HLeaf 0x02c8) (HLeaf 0x02c9)),
    HNode (HLeaf 0x01c7) (HLeaf 0x01cf),
    HNode (HNode (HLeaf 0x02ca) (HLeaf 0x02cd)) (HNode (HLeaf 0x02d2) (HLeaf 0x02d5)),
    HNode (HNode (HLeaf 0x02f2) (HLeaf 0x02f3)) (HNode (HLeaf 0x02ff) (HNode (HLeaf 0x03cb) (HLeaf 0x03cc))),
    HNode (HNode (HNode (HLeaf 0x03d3) (HLeaf 0x03d4)) (HNode (HLeaf 0x03d6) (HLeaf 0x03dd))) (HNode (HNode (HLeaf 0x03de) (HLeaf 0x03df)) (HNode (HLeaf 0x03f1) (HLeaf 0x03f4))),
    HNode (HNode (HLeaf 0x02da) (HLeaf 0x02db)) (HNode (HLeaf 0x02ee) (HLeaf 0x02f0)),
    HNode (HLeaf 0x01ea) (HLeaf 0x01eb),
    HNode (HNode (HNode (HLeaf 0x03f5) (HLeaf 0x03f6)) (HNode (HLeaf 0x03f7) (HLeaf 0x03f8))) (HNode (HNode (HLeaf 0x03fa) (HLeaf 0x03fb)) (HNode (HLeaf 0x03fc) (HLeaf 0x03fd)))]"

lemmas flat_simps = flat.simps power.simps eval_nat_numeral mult_Suc mult_0 mult_1 add_Suc add_0 add_0_right add_Suc_right mult_0_right mult_Suc_right
  replicate.simps append.simps append_Nil2 BitM.simps pred_numeral_simps One_nat_def

lemma row_trees:
  "DECODE_ROW_0 = flat 8 (HNode (HNode (HNode (HNode (HNode (HLeaf 0x0530) (HLeaf 0x0531)) (HNode (HLeaf 0x0532) (HLeaf 0x0561))) (HNode (HNode (HLeaf 0x0563) (HLeaf 0x0565)) (HNode (HLeaf 0x0569) (HLeaf 0x056f)))) (HNode (HNode (HNode (HLeaf 0x0573) (HLeaf 0x0574)) (HNode (HNode (HLeaf 0x0620) (HLeaf 0x0625)) (HNode (HLeaf 0x062d) (HLeaf 0x062e)))) (HNode (HNode (HNode (HLeaf 0x062f) (HLeaf 0x0633)) (HNode (HLeaf 0x0634) (HLeaf 0x0635))) (HNode (HNode (HLeaf 0x0636) (HLeaf 0x0637)) (HNode (HLeaf 0x0638) (HLeaf 0x0639)))))) (HNode (HNode (HNode (HNode (HNode (HLeaf 0x063d) (HLeaf 0x0641)) (HNode (HLeaf 0x065f) (HLeaf 0x0662))) (HNode (HNode (HLeaf 0x0664) (HLeaf 0x0666)) (HNode (HLeaf 0x0667) (HLeaf 0x0668)))) (HNode (HNode (HNode (HLeaf 0x066c) (HLeaf 0x066d)) (HNode (HLeaf 0x066e) (HLeaf 0x0670))) (HNode (HNode (HLeaf 0x0672) (HLeaf 0x0675)) (HNode (HNode (HLeaf 0x073a) (HLeaf 0x0742)) (HNode (HLeaf 0x0743) (HLeaf 0x0744)))))) (HNode (HNode (HNode (HNode (HNode (HLeaf 0x0745) (HLeaf 0x0746)) (HNode (HLeaf 0x0747) (HLeaf 0x0748))) (HNode (HNode (HLeaf 0x0749) (HLeaf 0x074a)) (HNode (HLeaf 0x074b) (HLeaf 0x074c)))) (HNode (HNode (HNode (HLeaf 0x074d) (HLeaf 0x074e)) (HNode (HLeaf 0x074f) (HLeaf 0x0750))) (HNode (HNode (HLeaf 0x0751) (HLeaf 0x0752)) (HNode (HLeaf 0x0753) (HLeaf 0x0754))))) (HNode (HNode (HNode (HNode (HLeaf 0x0755) (HLeaf 0x0756)) (HNode (HLeaf 0x0757) (HLeaf 0x0759))) (HNode (HNode (HLeaf 0x076a) (HLeaf 0x076b)) (HNode (HLeaf 0x0771) (HLeaf 0x0776)))) (HNode (HNode (HNode (HLeaf 0x0777) (HLeaf 0x0778)) (HNode (HLeaf 0x0779) (HLeaf 0x077a))) (HNode (HNode (HNode (HLeaf 0x0826) (HLeaf 0x082a)) (HNode (HLeaf 0x082c) (HLeaf 0x083b))) (HNode (HNode (HLeaf 0x0858) (HLeaf 0x085a)) (HNode (HLeaf 0x8500) (HLeaf 0x8100)))))))))"
  "DECODE_ROW_1 = flat 8 (HNode (HNode (HLeaf 0x023f) (HNode (HLeaf 0x0327) (HLeaf 0x032b))) (HNode (HNode (HLeaf 0x037c) (HNode (HLeaf 0x0423) (HLeaf 0x043e))) (HNode (HNode (HNode (HLeaf 0x0500) (HLeaf 0x0524)) (HNode (HLeaf 0x0540) (HLeaf 0x055b))) (HNode (HNode (HLeaf 0x055d) (HLeaf 0x057e)) (HNode (HNode (HLeaf 0x065e) (HLeaf 0x067d)) (HNode (HNode (HLeaf 0x073c) (HLeaf 0x0760)) (HNode (HLeaf 0x077b) (HNode (HLeaf 0x8600) (HLeaf 0x8200)))))))))"
  "DECODE_ROW_2 = flat 8 (HNode (HNode (HNode (HNode (HNode (HLeaf 0x05b0) (HLeaf 0x05b1)) (HNode (HLeaf 0x05b3) (HLeaf 0x05d1))) (HNode (HNode (HLeaf 0x05d8) (HLeaf 0x05d9)) (HNode (HLeaf 0x05e3) (HLeaf 0x05e5)))) (HNode (HNode (HNode (HLeaf 0x05e6) (HNode (HLeaf 0x0681) (HLeaf 0x0684))) (HNode (HNode (HLeaf 0x0685) (HLeaf 0x0686)) (HNode (HLeaf 0x0688) (HLeaf 0x0692)))) (HNode (HNode (HNode (HLeaf 0x069a) (HLeaf 0x069c)) (HNode (HLeaf 0x06a0) (HLeaf 0x06a3))) (HNode (HNode (HLeaf 0x06a4) (HLeaf 0x06a9)) (HNode (HLeaf 0x06aa) (HLeaf 0x06ad)))))) (HNode (HNode (HNode (HNode (HNode (HLeaf 0x06b2) (HLeaf 0x06b5)) (HNode (HLeaf 0x06b9) (HLeaf 0x06ba))) (HNode (HNode (HLeaf 0x06bb) (HLeaf 0x06bd)) (HNode (HLeaf 0x06be) (HLeaf 0x06c4)))) (HNode (HNode (HNode (HLeaf 0x06c6) (HLeaf 0x06e4)) (HNode (HLeaf 0x06e8) (HLeaf 0x06e9))) (HNode (HNode (HNode (HLeaf 0x0701) (HLeaf 0x0787)) (HNode (HLeaf 0x0789) (HLeaf 0x078a))) (HNode (HNode (HLeaf 0x078b) (HLeaf 0x078c)) (HNode (HLeaf 0x078d) (HLeaf 0x078f)))))) (HNode (HNode (HNode (HNode (HNode (HLeaf 0x0793) (HLeaf 0x0795)) (HNode (HLeaf 0x0796) (HLeaf 0x0797))) (HNode (HNode (HLeaf 0x0798) (HLeaf 0x079b)) (HNode (HLeaf 0x079d) (HLeaf 0x079e)))) (HNode (HNode (HNode (HLeaf 0x07a5) (HLeaf 0x07a6)) (HNode (HLeaf 0x07a8) (HLeaf 0x07ae))) (HNode (HNode (HLeaf 0x07af) (HLeaf 0x07b4)) (HNode (HLeaf 0x07b6) (HLeaf 0x07b7))))) (HNode (HNode (HNode (HNode (HLeaf 0x07bc) (HLeaf 0x07bf)) (HNode (HLeaf 0x07c5) (HLeaf 0x07e7))) (HNode (HNode (HLeaf 0x07ef) (HNode (HLeaf 0x0809) (HLeaf 0x088e))) (HNode (HNode (HLeaf 0x0890) (HLeaf 0x0891)) (HNode (HLeaf 0x0894) (HLeaf 0x089f))))) (HNode (HNode (HNode (HNode (HLeaf 0x08ab) (HLeaf 0x08ce)) (HNode (HLeaf 0x08d7) (HLeaf 0x08e1))) (HNode (HNode (HLeaf 0x08ec) (HLeaf 0x08ed)) (HNode (HLeaf 0x8800) (HLeaf 0x8d00)))) (HNode (HNode (HNode (HLeaf 0x8700) (HLeaf 0x8900)) (HNode (HLeaf 0x8c00) (HLeaf 0x8a00))) (HNode (HNode (HLeaf 0x8b00) (HLeaf 0x8e00)) (HNode (HLeaf 0x8300) (HLeaf 0x8400)))))))))"
  "DECODE_ROW_3 = flat 8 (HNode (HNode (HNode (HLeaf 0x03fe) (HNode (HLeaf 0x0402) (HLeaf 0x0403))) (HNode (HNode (HLeaf 0x0404) (HLeaf 0x0405)) (HNode (HLeaf 0x0406) (HLeaf 0x0407)))) (HNode (HNode (HNode (HLeaf 0x0408) (HLeaf 0x040b)) (HNode (HLeaf 0x040c) (HLeaf 0x040e))) (HNode (HNode (HLeaf 0x040f) (HLeaf 0x0410)) (HNode (HLeaf 0x0411) (HLeaf 0x0412)))))"
  "DECODE_ROW_4 = flat 8 (HNode (HNode (HNode (HNode (HLeaf 0x0413) (HLeaf 0x0414)) (HNode (HLeaf 0x0415) (HLeaf 0x0417))) (HNode (HNode (HLeaf 0x0418) (HLeaf 0x0419)) (HNode (HLeaf 0x041a) (HLeaf 0x041b)))) (HNode (HNode (HNode (HLeaf 0x041c) (HLeaf 0x041d)) (HNode (HLeaf 0x041e) (HLeaf 0x041f))) (HNode (HNode (HLeaf 0x047f) (HLeaf 0x04dc)) (HNode (HLeaf 0x04f9) (HNode (HNode (HLeaf 0x060a) (HLeaf 0x060d)) (HNode (HLeaf 0x0616) (HLeaf 0x80ff)))))))"
  "DECODE_ROW_5 = flat 8 (HNode (HNode (HLeaf 0x0221) (HLeaf 0x0222)) (HNode (HLeaf 0x0228) (HLeaf 0x0229)))"
  "DECODE_ROW_6 = flat 8 (HNode (HNode (HNode (HLeaf 0x035c) (HLeaf 0x03c3)) (HNode (HLeaf 0x03d0) (HNode (HLeaf 0x0480) (HLeaf 0x0482)))) (HNode (HNode (HNode (HLeaf 0x0483) (HLeaf 0x04a2)) (HNode (HLeaf 0x04b8) (HLeaf 0x04c2))) (HNode (HNode (HLeaf 0x04e0) (HLeaf 0x04e2)) (HNode (HNode (HLeaf 0x0599) (HLeaf 0x05a1)) (HNode (HLeaf 0x05a7) (HLeaf 0x05ac))))))"
  "DECODE_ROW_7 = flat 8 (HNode (HNode (HLeaf 0x02c0) (HLeaf 0x02c1)) (HNode (HLeaf 0x02c8) (HLeaf 0x02c9)))"
  "DECODE_ROW_8 = flat 8 (HNode (HLeaf 0x01c7) (HLeaf 0x01cf))"
  "DECODE_ROW_9 = flat 8 (HNode (HNode (HLeaf 0x02ca) (HLeaf 0x02cd)) (HNode (HLeaf 0x02d2) (HLeaf 0x02d5)))"
  "DECODE_ROW_10 = flat 8 (HNode (HNode (HLeaf 0x02f2) (HLeaf 0x02f3)) (HNode (HLeaf 0x02ff) (HNode (HLeaf 0x03cb) (HLeaf 0x03cc))))"
  "DECODE_ROW_11 = flat 8 (HNode (HNode (HNode (HLeaf 0x03d3) (HLeaf 0x03d4)) (HNode (HLeaf 0x03d6) (HLeaf 0x03dd))) (HNode (HNode (HLeaf 0x03de) (HLeaf 0x03df)) (HNode (HLeaf 0x03f1) (HLeaf 0x03f4))))"
  "DECODE_ROW_12 = flat 8 (HNode (HNode (HLeaf 0x02da) (HLeaf 0x02db)) (HNode (HLeaf 0x02ee) (HLeaf 0x02f0)))"
  "DECODE_ROW_13 = flat 8 (HNode (HLeaf 0x01ea) (HLeaf 0x01eb))"
  "DECODE_ROW_14 = flat 8 (HNode (HNode (HNode (HLeaf 0x03f5) (HLeaf 0x03f6)) (HNode (HLeaf 0x03f7) (HLeaf 0x03f8))) (HNode (HNode (HLeaf 0x03fa) (HLeaf 0x03fb)) (HNode (HLeaf 0x03fc) (HLeaf 0x03fd))))"
  unfolding DECODE_ROW_0_def DECODE_ROW_1_def DECODE_ROW_2_def DECODE_ROW_3_def DECODE_ROW_4_def DECODE_ROW_5_def DECODE_ROW_6_def DECODE_ROW_7_def DECODE_ROW_8_def DECODE_ROW_9_def DECODE_ROW_10_def DECODE_ROW_11_def DECODE_ROW_12_def DECODE_ROW_13_def DECODE_ROW_14_def
  by (simp_all only: flat_simps)

lemma DECODE_TABLE_rows: "DECODE_TABLE = concat (map (flat 8) HUFFMAN_ROWS)"
  unfolding DECODE_TABLE_def HUFFMAN_ROWS_def list.map concat.simps append_Nil2 row_trees ..

definition huff_entry_ok :: "u16 \<Rightarrow> bool" where
  "huff_entry_ok v \<longleftrightarrow> (if v AND BRANCH = 0 then drop_bit 8 v \<noteq> 0 \<and> drop_bit 8 v \<le> 8 else drop_bit 8 (v AND TABLE_INDEX_MASK) < 15)"

lemma rows_ok: "list_all (\<lambda>t. height t \<le> 8 \<and> list_all huff_entry_ok (entries_of t)) HUFFMAN_ROWS" "length HUFFMAN_ROWS = 15"
  by code_simp+

lemma length_flat: "height t \<le> d \<Longrightarrow> length (flat d t) = 2 ^ d"
  by (induction d t rule: flat.induct) auto

lemma set_flat: "v \<in> set (flat d t) \<Longrightarrow> v \<in> set (entries_of t)"
  by (induction d t rule: flat.induct) auto

lemma length_row: "t \<in> set HUFFMAN_ROWS \<Longrightarrow> length (flat 8 t) = 256"
  using rows_ok(1) by (auto simp: length_flat list_all_iff)

lemma length_concat_rows: "set rs \<subseteq> set HUFFMAN_ROWS \<Longrightarrow> length (concat (map (flat 8) rs)) = 256 * length rs"
  by (induction rs) (auto simp: length_row)

lemma length_DECODE_TABLE: "length DECODE_TABLE = 3840"
  using length_concat_rows [of HUFFMAN_ROWS] rows_ok(2) by (simp add: DECODE_TABLE_rows)

lemma nth_concat_rows: "set rs \<subseteq> set HUFFMAN_ROWS \<Longrightarrow> t < length rs \<Longrightarrow> i < 256 \<Longrightarrow> concat (map (flat 8) rs) ! (t * 256 + i) = flat 8 (rs ! t) ! i"
proof (induction rs arbitrary: t)
  case (Cons r rs)
  then show ?case by (cases t) (auto simp: nth_append length_row)
qed simp

lemma table_entry_ok: "table_entry t i = Ok v \<Longrightarrow> huff_entry_ok v"
proof -
  assume "table_entry t i = Ok v"
  then have "v \<in> set DECODE_TABLE" by (auto simp: table_entry_def byte_at_def split: if_splits)
  then show ?thesis using rows_ok(1) by (auto simp: DECODE_TABLE_rows list_all_iff dest!: set_flat)
qed

lemma table_entry_row: "t < 15 \<Longrightarrow> table_entry t i = Ok (flat 8 (HUFFMAN_ROWS ! t) ! unat i)"
proof -
  assume t: "t < 15"
  have i: "unat i < 256" using unsigned_less [of i] by simp
  then show ?thesis using t nth_concat_rows [of HUFFMAN_ROWS t "unat i"] rows_ok(2)
    by (simp add: table_entry_def byte_at_def length_DECODE_TABLE TABLE_WIDTH_def DECODE_TABLE_rows [symmetric])
qed

lemma leaf_used: "huff_entry_ok v \<Longrightarrow> v AND BRANCH = 0 \<Longrightarrow> 0 < unat (drop_bit 8 v) \<and> unat (drop_bit 8 v) \<le> 8"
  by (auto simp: huff_entry_ok_def unat_gt_0 word_le_nat_alt)

section \<open>The loops\<close>

text \<open>The loop over eight bits: the row, the bits that are left and the output.\<close>

function huffman_inner :: "nat \<Rightarrow> u32 \<Rightarrow> nat \<Rightarrow> bytes \<Rightarrow> (nat \<times> nat \<times> bytes) res" where
  "huffman_inner table acc bits buf =
     (if bits < 8 then Ok (table, bits, buf)
      else case table_entry table (ucast (drop_bit (bits - 8) acc)) of
             Ok entry \<Rightarrow>
               (if entry AND BRANCH = 0 then huffman_inner 0 acc (bits - unat (drop_bit 8 entry)) (buf @ [ucast entry])
                else let table = unat (drop_bit 8 (entry AND TABLE_INDEX_MASK))
                     in if table = 0 then Err InvalidData else huffman_inner table acc (bits - 8) buf)
           | Err e \<Rightarrow> Err e
           | Panic \<Rightarrow> Panic)"
  by pat_completeness auto
termination
  by (relation "measure (\<lambda>(table, acc, bits, buf). bits)") (auto dest!: table_entry_ok leaf_used)

declare huffman_inner.simps [simp del]

fun huffman_bytes :: "nat \<Rightarrow> u32 \<Rightarrow> nat \<Rightarrow> bytes \<Rightarrow> bytes \<Rightarrow> (nat \<times> u32 \<times> nat \<times> bytes) res" where
  "huffman_bytes table acc bits buf [] = Ok (table, acc, bits, buf)"
| "huffman_bytes table acc bits buf (b # src) =
     (let acc = push_bit 8 acc OR ucast b
      in and_then (huffman_inner table acc (bits + 8) buf) (\<lambda>(table, bits, buf). huffman_bytes table acc bits buf src))"

function huffman_tail :: "nat \<Rightarrow> u32 \<Rightarrow> nat \<Rightarrow> bytes \<Rightarrow> (nat \<times> bytes) res" where
  "huffman_tail table acc bits buf =
     (if bits = 0 then Ok (table, buf)
      else let padding = push_bit bits 1 - 1
           in if table = 0 \<and> acc AND padding = padding then Ok (table, buf)
              else case table_entry table (ucast (push_bit (8 - bits) acc)) of
                     Ok entry \<Rightarrow>
                       (if entry AND BRANCH \<noteq> 0 then Err InvalidData
                        else let used = unat (drop_bit 8 entry)
                             in if used > bits then Err InvalidData else huffman_tail 0 acc (bits - used) (buf @ [ucast entry]))
                   | Err e \<Rightarrow> Err e
                   | Panic \<Rightarrow> Panic)"
  by pat_completeness auto
termination
  by (relation "measure (\<lambda>(table, acc, bits, buf). bits)") (auto dest!: table_entry_ok leaf_used)

declare huffman_tail.simps [simp del]

definition decode_huffman :: "bytes \<Rightarrow> bytes res" where
  "decode_huffman src =
     and_then (huffman_bytes 0 0 0 [] src) (\<lambda>(table, acc, bits, buf).
     and_then (huffman_tail table acc bits buf) (\<lambda>(table, buf).
     if table = 0 then Ok buf else Err InvalidData))"


section \<open>Bits\<close>

definition byte_bits :: "u8 \<Rightarrow> bool list" where
  "byte_bits b = map (\<lambda>i. bit b (7 - i)) [0..<8]"

definition bits_nat :: "bool list \<Rightarrow> nat" where
  "bits_nat bs = foldl (\<lambda>n b. 2 * n + of_bool b) 0 bs"

text \<open>The bits of the accumulator that are still to be used.\<close>

definition pend :: "u32 \<Rightarrow> nat \<Rightarrow> bool list" where
  "pend acc n = map (\<lambda>i. bit acc (n - 1 - i)) [0..<n]"

lemma length_byte_bits [simp]: "length (byte_bits b) = 8"
  by (simp add: byte_bits_def)

lemma length_pend [simp]: "length (pend acc n) = n"
  by (simp add: pend_def)

lemma bits_nat_snoc: "bits_nat (bs @ [b]) = 2 * bits_nat bs + of_bool b"
  by (simp add: bits_nat_def)

lemma bits_nat_append: "bits_nat (a @ b) = bits_nat a * 2 ^ length b + bits_nat b"
  by (induction b rule: rev_induct) (simp_all add: bits_nat_snoc append_assoc [symmetric] algebra_simps del: append_assoc, simp add: bits_nat_def)

lemma bits_nat_less: "bits_nat bs < 2 ^ length bs"
  by (induction bs rule: rev_induct) (auto simp: bits_nat_snoc, simp add: bits_nat_def)

lemma bit_bits_nat: "bit (bits_nat bs) k \<longleftrightarrow> k < length bs \<and> bs ! (length bs - 1 - k)"
proof (induction bs arbitrary: k rule: rev_induct)
  case Nil
  then show ?case by (simp add: bits_nat_def)
next
  case (snoc b bs)
  show ?case
  proof (cases k)
    case 0
    then show ?thesis by (simp add: bits_nat_snoc bit_0)
  next
    case (Suc j)
    have "(2 * bits_nat bs + of_bool b) div 2 = bits_nat bs" by (cases b) simp_all
    then show ?thesis using snoc [of j] Suc by (auto simp: bits_nat_snoc bit_Suc nth_append)
  qed
qed

lemma bits_nat_byte: "bits_nat (byte_bits b) = unat b"
proof (rule bit_eqI)
  fix n
  show "bit (bits_nat (byte_bits b)) n \<longleftrightarrow> bit (unat b) n"
    using bit_imp_le_length [of b n] by (cases "n < 8") (auto simp: bit_bits_nat byte_bits_def bit_unsigned_iff)
qed

lemma index_bits:
  assumes "8 \<le> n" "n \<le> 32"
  shows "unat (ucast (drop_bit (n - 8) acc) :: u8) = bits_nat (take 8 (pend acc n))"
proof -
  have "byte_bits (ucast (drop_bit (n - 8) acc)) = take 8 (pend acc n)"
    using assms by (intro nth_equalityI) (auto simp: byte_bits_def pend_def bit_ucast_iff bit_drop_bit_eq intro!: arg_cong [of _ _ "bit acc"])
  then show ?thesis by (metis bits_nat_byte)
qed

lemma pend_shift: "n + 8 \<le> 32 \<Longrightarrow> pend (push_bit 8 acc OR ucast b) (n + 8) = pend acc n @ byte_bits b"
  by (rule nth_equalityI)
     (auto simp: pend_def byte_bits_def nth_append bit_or_iff bit_push_bit_iff bit_ucast_iff dest: bit_imp_le_length intro!: arg_cong [of _ _ "bit acc"] arg_cong [of _ _ "bit b"])

lemma pend_drop: "k \<le> n \<Longrightarrow> pend acc (n - k) = drop k (pend acc n)"
  by (rule nth_equalityI) (auto simp: pend_def intro!: arg_cong [of _ _ "bit acc"])

lemma tail_bits:
  assumes "n \<le> 8"
  shows "unat (ucast (push_bit (8 - n) acc) :: u8) = bits_nat (pend acc n @ replicate (8 - n) False)"
proof -
  have "byte_bits (ucast (push_bit (8 - n) acc)) = pend acc n @ replicate (8 - n) False"
    using assms by (intro nth_equalityI) (auto simp: byte_bits_def pend_def nth_append bit_ucast_iff bit_push_bit_iff intro!: arg_cong [of _ _ "bit acc"])
  then show ?thesis by (metis bits_nat_byte)
qed

lemma all_ones_iff:
  assumes "n < 32"
  shows "acc AND (push_bit n 1 - 1) = push_bit n 1 - 1 \<longleftrightarrow> list_all id (pend acc n)"
proof -
  have m: "push_bit n 1 - 1 = (mask n :: u32)" by (simp add: mask_eq_exp_minus_1 push_bit_eq_mult)
  have "acc AND mask n = mask n \<longleftrightarrow> (\<forall>i < n. bit acc i)"
    using assms by (simp add: bit_eq_iff bit_and_iff bit_mask_iff) (metis less_trans)
  also have "\<dots> \<longleftrightarrow> list_all id (pend acc n)"
  proof -
    have "(\<forall>i < n. bit acc i) \<longleftrightarrow> (\<forall>i < n. bit acc (n - 1 - i))" by (metis Suc_pred' diff_Suc_1 diff_diff_cancel diff_less_Suc less_Suc_eq_le le_add_diff_inverse not_less_zero add_diff_cancel_right' diff_Suc_less less_imp_Suc_add)
    then show ?thesis by (auto simp: pend_def list_all_iff)
  qed
  finally show ?thesis unfolding m .
qed

section \<open>The code and the table\<close>

text \<open>The code of a byte, as \<open>ENCODE_TABLE\<close> gives it: a length and the bits. \<open>HUFFMAN_BITS\<close> are the same codes written out.\<close>

definition code_bits :: "nat \<times> u64 \<Rightarrow> bool list" where
  "code_bits c = (case c of (len, val) \<Rightarrow> rev (map (bit val) [0..<len]))"

definition huffman_code :: "u8 \<Rightarrow> bool list" where
  "huffman_code a = code_bits (ENCODE_TABLE ! unat a)"

definition HUFFMAN_BITS :: "string list" where
  "HUFFMAN_BITS = [
     ''1111111111000'', ''11111111111111111011000'', ''1111111111111111111111100010'', ''1111111111111111111111100011'',
     ''1111111111111111111111100100'', ''1111111111111111111111100101'', ''1111111111111111111111100110'', ''1111111111111111111111100111'',
     ''1111111111111111111111101000'', ''111111111111111111101010'', ''111111111111111111111111111100'', ''1111111111111111111111101001'',
     ''1111111111111111111111101010'', ''111111111111111111111111111101'', ''1111111111111111111111101011'', ''1111111111111111111111101100'',
     ''1111111111111111111111101101'', ''1111111111111111111111101110'', ''1111111111111111111111101111'', ''1111111111111111111111110000'',
     ''1111111111111111111111110001'', ''1111111111111111111111110010'', ''111111111111111111111111111110'', ''1111111111111111111111110011'',
     ''1111111111111111111111110100'', ''1111111111111111111111110101'', ''1111111111111111111111110110'', ''1111111111111111111111110111'',
     ''1111111111111111111111111000'', ''1111111111111111111111111001'', ''1111111111111111111111111010'', ''1111111111111111111111111011'',
     ''010100'', ''1111111000'', ''1111111001'', ''111111111010'', ''1111111111001'', ''010101'', ''11111000'', ''11111111010'', ''1111111010'',
     ''1111111011'', ''11111001'', ''11111111011'', ''11111010'', ''010110'', ''010111'', ''011000'', ''00000'', ''00001'', ''00010'', ''011001'',
     ''011010'', ''011011'', ''011100'', ''011101'', ''011110'', ''011111'', ''1011100'', ''11111011'', ''111111111111100'', ''100000'',
     ''111111111011'', ''1111111100'', ''1111111111010'', ''100001'', ''1011101'', ''1011110'', ''1011111'', ''1100000'', ''1100001'', ''1100010'',
     ''1100011'', ''1100100'', ''1100101'', ''1100110'', ''1100111'', ''1101000'', ''1101001'', ''1101010'', ''1101011'', ''1101100'', ''1101101'',
     ''1101110'', ''1101111'', ''1110000'', ''1110001'', ''1110010'', ''11111100'', ''1110011'', ''11111101'', ''1111111111011'',
     ''1111111111111110000'', ''1111111111100'', ''11111111111100'', ''100010'', ''111111111111101'', ''00011'', ''100011'', ''00100'', ''100100'',
     ''00101'', ''100101'', ''100110'', ''100111'', ''00110'', ''1110100'', ''1110101'', ''101000'', ''101001'', ''101010'', ''00111'', ''101011'',
     ''1110110'', ''101100'', ''01000'', ''01001'', ''101101'', ''1110111'', ''1111000'', ''1111001'', ''1111010'', ''1111011'', ''111111111111110'',
     ''11111111100'', ''11111111111101'', ''1111111111101'', ''1111111111111111111111111100'', ''11111111111111100110'', ''1111111111111111010010'',
     ''11111111111111100111'', ''11111111111111101000'', ''1111111111111111010011'', ''1111111111111111010100'', ''1111111111111111010101'',
     ''11111111111111111011001'', ''1111111111111111010110'', ''11111111111111111011010'', ''11111111111111111011011'', ''11111111111111111011100'',
     ''11111111111111111011101'', ''11111111111111111011110'', ''111111111111111111101011'', ''11111111111111111011111'',
     ''111111111111111111101100'', ''111111111111111111101101'', ''1111111111111111010111'', ''11111111111111111100000'',
     ''111111111111111111101110'', ''11111111111111111100001'', ''11111111111111111100010'', ''11111111111111111100011'',
     ''11111111111111111100100'', ''111111111111111011100'', ''1111111111111111011000'', ''11111111111111111100101'', ''1111111111111111011001'',
     ''11111111111111111100110'', ''11111111111111111100111'', ''111111111111111111101111'', ''1111111111111111011010'', ''111111111111111011101'',
     ''11111111111111101001'', ''1111111111111111011011'', ''1111111111111111011100'', ''11111111111111111101000'', ''11111111111111111101001'',
     ''111111111111111011110'', ''11111111111111111101010'', ''1111111111111111011101'', ''1111111111111111011110'', ''111111111111111111110000'',
     ''111111111111111011111'', ''1111111111111111011111'', ''11111111111111111101011'', ''11111111111111111101100'', ''111111111111111100000'',
     ''111111111111111100001'', ''1111111111111111100000'', ''111111111111111100010'', ''11111111111111111101101'', ''1111111111111111100001'',
     ''11111111111111111101110'', ''11111111111111111101111'', ''11111111111111101010'', ''1111111111111111100010'', ''1111111111111111100011'',
     ''1111111111111111100100'', ''11111111111111111110000'', ''1111111111111111100101'', ''1111111111111111100110'', ''11111111111111111110001'',
     ''11111111111111111111100000'', ''11111111111111111111100001'', ''11111111111111101011'', ''1111111111111110001'', ''1111111111111111100111'',
     ''11111111111111111110010'', ''1111111111111111101000'', ''1111111111111111111101100'', ''11111111111111111111100010'',
     ''11111111111111111111100011'', ''11111111111111111111100100'', ''111111111111111111111011110'', ''111111111111111111111011111'',
     ''11111111111111111111100101'', ''111111111111111111110001'', ''1111111111111111111101101'', ''1111111111111110010'', ''111111111111111100011'',
     ''11111111111111111111100110'', ''111111111111111111111100000'', ''111111111111111111111100001'', ''11111111111111111111100111'',
     ''111111111111111111111100010'', ''111111111111111111110010'', ''111111111111111100100'', ''111111111111111100101'',
     ''11111111111111111111101000'', ''11111111111111111111101001'', ''1111111111111111111111111101'', ''111111111111111111111100011'',
     ''111111111111111111111100100'', ''111111111111111111111100101'', ''11111111111111101100'', ''111111111111111111110011'',
     ''11111111111111101101'', ''111111111111111100110'', ''1111111111111111101001'', ''111111111111111100111'', ''111111111111111101000'',
     ''11111111111111111110011'', ''1111111111111111101010'', ''1111111111111111101011'', ''1111111111111111111101110'',
     ''1111111111111111111101111'', ''111111111111111111110100'', ''111111111111111111110101'', ''11111111111111111111101010'',
     ''11111111111111111110100'', ''11111111111111111111101011'', ''111111111111111111111100110'', ''11111111111111111111101100'',
     ''11111111111111111111101101'', ''111111111111111111111100111'', ''111111111111111111111101000'', ''111111111111111111111101001'',
     ''111111111111111111111101010'', ''111111111111111111111101011'', ''1111111111111111111111111110'', ''111111111111111111111101100'',
     ''111111111111111111111101101'', ''111111111111111111111101110'', ''111111111111111111111101111'', ''111111111111111111111110000'',
     ''11111111111111111111101110'']"

lemma upto_lists:
  "[0..<5] = [0, 1, 2, 3, 4]"
  "[0..<6] = [0, 1, 2, 3, 4, 5]"
  "[0..<7] = [0, 1, 2, 3, 4, 5, 6]"
  "[0..<8] = [0, 1, 2, 3, 4, 5, 6, 7]"
  "[0..<10] = [0, 1, 2, 3, 4, 5, 6, 7, 8, 9]"
  "[0..<11] = [0, 1, 2, 3, 4, 5, 6, 7, 8, 9, 10]"
  "[0..<12] = [0, 1, 2, 3, 4, 5, 6, 7, 8, 9, 10, 11]"
  "[0..<13] = [0, 1, 2, 3, 4, 5, 6, 7, 8, 9, 10, 11, 12]"
  "[0..<14] = [0, 1, 2, 3, 4, 5, 6, 7, 8, 9, 10, 11, 12, 13]"
  "[0..<15] = [0, 1, 2, 3, 4, 5, 6, 7, 8, 9, 10, 11, 12, 13, 14]"
  "[0..<19] = [0, 1, 2, 3, 4, 5, 6, 7, 8, 9, 10, 11, 12, 13, 14, 15, 16, 17, 18]"
  "[0..<20] = [0, 1, 2, 3, 4, 5, 6, 7, 8, 9, 10, 11, 12, 13, 14, 15, 16, 17, 18, 19]"
  "[0..<21] = [0, 1, 2, 3, 4, 5, 6, 7, 8, 9, 10, 11, 12, 13, 14, 15, 16, 17, 18, 19, 20]"
  "[0..<22] = [0, 1, 2, 3, 4, 5, 6, 7, 8, 9, 10, 11, 12, 13, 14, 15, 16, 17, 18, 19, 20, 21]"
  "[0..<23] = [0, 1, 2, 3, 4, 5, 6, 7, 8, 9, 10, 11, 12, 13, 14, 15, 16, 17, 18, 19, 20, 21, 22]"
  "[0..<24] = [0, 1, 2, 3, 4, 5, 6, 7, 8, 9, 10, 11, 12, 13, 14, 15, 16, 17, 18, 19, 20, 21, 22, 23]"
  "[0..<25] = [0, 1, 2, 3, 4, 5, 6, 7, 8, 9, 10, 11, 12, 13, 14, 15, 16, 17, 18, 19, 20, 21, 22, 23, 24]"
  "[0..<26] = [0, 1, 2, 3, 4, 5, 6, 7, 8, 9, 10, 11, 12, 13, 14, 15, 16, 17, 18, 19, 20, 21, 22, 23, 24, 25]"
  "[0..<27] = [0, 1, 2, 3, 4, 5, 6, 7, 8, 9, 10, 11, 12, 13, 14, 15, 16, 17, 18, 19, 20, 21, 22, 23, 24, 25, 26]"
  "[0..<28] = [0, 1, 2, 3, 4, 5, 6, 7, 8, 9, 10, 11, 12, 13, 14, 15, 16, 17, 18, 19, 20, 21, 22, 23, 24, 25, 26, 27]"
  "[0..<30] = [0, 1, 2, 3, 4, 5, 6, 7, 8, 9, 10, 11, 12, 13, 14, 15, 16, 17, 18, 19, 20, 21, 22, 23, 24, 25, 26, 27, 28, 29]"
  by code_simp+

lemma ENCODE_TABLE_bits: "map code_bits (butlast ENCODE_TABLE) = map (map (\<lambda>c. c = CHR ''1'')) HUFFMAN_BITS"
  unfolding ENCODE_TABLE_def HUFFMAN_BITS_def by (simp add: code_bits_def upto_lists)

text \<open>What is found below a tree, and the bits that are left.\<close>

fun seek :: "htree \<Rightarrow> bool list \<Rightarrow> (u16 \<times> bool list) option" where
  "seek (HLeaf v) bs = Some (v, bs)"
| "seek (HNode l r) (b # bs) = seek (if b then r else l) bs"
| "seek (HNode l r) [] = None"

text \<open>The bits lead from row \<open>t\<close> to the byte \<open>a\<close>, through at most \<open>n\<close> rows.\<close>

fun walk_ok :: "nat \<Rightarrow> nat \<Rightarrow> bool list \<Rightarrow> u8 \<Rightarrow> bool" where
  "walk_ok 0 t bs a = False"
| "walk_ok (Suc n) t bs a =
     (case seek (HUFFMAN_ROWS ! t) bs of
        None \<Rightarrow> False
      | Some (v, rest) \<Rightarrow>
          (if v AND BRANCH = 0 then rest = [] \<and> bs \<noteq> [] \<and> drop_bit 8 v = of_nat (length bs) \<and> length bs \<le> 8 \<and> ucast v = a
           else length bs = 8 + length rest \<and>
             (let t' = unat (drop_bit 8 (v AND TABLE_INDEX_MASK)) in t' \<noteq> 0 \<and> t' < 15 \<and> walk_ok n t' rest a)))"

fun walks_ok :: "u8 \<Rightarrow> string list \<Rightarrow> bool" where
  "walks_ok a [] = True"
| "walks_ok a (s # ss) = (let bs = map (\<lambda>c. c = CHR ''1'') s in walk_ok 4 0 bs a \<and> \<not> list_all id bs \<and> walks_ok (a + 1) ss)"

lemma all_walks_ok: "walks_ok 0 HUFFMAN_BITS" "length HUFFMAN_BITS = 256"
  by code_simp+

lemma walks_ok_nth:
  "walks_ok a ss \<Longrightarrow> k < length ss \<Longrightarrow> walk_ok 4 0 (map (\<lambda>c. c = CHR ''1'') (ss ! k)) (a + of_nat k) \<and> \<not> list_all id (map (\<lambda>c. c = CHR ''1'') (ss ! k))"
proof (induction ss arbitrary: a k)
  case (Cons s ss)
  then show ?case using Cons.IH [of "a + 1" "k - 1"] by (cases k) (auto simp: Let_def add.assoc id_def list_all_iff)
qed simp

lemma huffman_code_walk: "walk_ok 4 0 (huffman_code a) a \<and> \<not> list_all id (huffman_code a)"
proof -
  have a: "unat a < 256" using unsigned_less [of a] by simp
  have l: "length (butlast ENCODE_TABLE) = 256" using arg_cong [OF ENCODE_TABLE_bits, of length] all_walks_ok(2) by (simp only: length_map)
  have "butlast ENCODE_TABLE ! unat a = ENCODE_TABLE ! unat a" using a l by (intro nth_butlast) simp
  then have "huffman_code a = map (\<lambda>c. c = CHR ''1'') (HUFFMAN_BITS ! unat a)"
    using arg_cong [OF ENCODE_TABLE_bits, of "\<lambda>l. l ! unat a"] a l all_walks_ok(2) by (simp add: huffman_code_def del: length_butlast)
  then show ?thesis using walks_ok_nth [OF all_walks_ok(1), of "unat a"] a all_walks_ok(2) by simp
qed

lemma seek_split: "seek t bs = Some (v, rest) \<Longrightarrow> \<exists>u. bs = u @ rest \<and> seek t u = Some (v, [])"
proof (induction t bs rule: seek.induct)
  case (2 l r b bs)
  then obtain u where "bs = u @ rest" "seek (if b then r else l) u = Some (v, [])" by auto
  then show ?case by (intro exI [of _ "b # u"]) simp
qed auto

lemma seek_append: "seek t u = Some (v, r) \<Longrightarrow> seek t (u @ x) = Some (v, r @ x)"
  by (induction t u rule: seek.induct) auto

lemma bits_nat_Cons: "bits_nat (b # bs) = of_bool b * 2 ^ length bs + bits_nat bs"
  using bits_nat_append [of "[b]" bs] by (simp add: bits_nat_def)

lemma flat_seek: "height t \<le> d \<Longrightarrow> length bs = d \<Longrightarrow> seek t bs = Some (v, rest) \<Longrightarrow> flat d t ! bits_nat bs = v"
proof (induction t bs arbitrary: d rule: seek.induct)
  case (1 w bs)
  then show ?case using bits_nat_less [of bs] by simp
next
  case (2 l r b bs)
  then obtain n where d: "d = Suc n" by (cases d) auto
  have h: "height l \<le> n" "height r \<le> n" "length bs = n" using 2 d by auto
  have "flat n (if b then r else l) ! bits_nat bs = v" using 2 h by (cases b) auto
  then show ?case using d h length_flat [OF h(1)] bits_nat_less [of bs] by (cases b) (simp_all add: bits_nat_Cons nth_append)
qed simp

lemma entry_found:
  assumes "t < 15" "seek (HUFFMAN_ROWS ! t) u = Some (v, [])" "unat i = bits_nat (u @ x)" "length (u @ x) = 8"
  shows "table_entry t i = Ok v"
proof -
  have "HUFFMAN_ROWS ! t \<in> set HUFFMAN_ROWS" using assms(1) rows_ok(2) by simp
  then have "height (HUFFMAN_ROWS ! t) \<le> 8" using rows_ok(1) by (auto simp: list_all_iff)
  from flat_seek [OF this assms(4) seek_append [OF assms(2), of x]] show ?thesis using table_entry_row [OF assms(1), of i] assms(3) by simp
qed

section \<open>Decoding inverts the code\<close>

text \<open>From row \<open>t\<close>, the bits that are still to be used stand for \<open>out\<close>: the rest of the code of its first byte, the codes of the others, and padding.\<close>

definition decoding :: "nat \<Rightarrow> bool list \<Rightarrow> bytes \<Rightarrow> bool" where
  "decoding t bs out \<longleftrightarrow>
     (\<exists>pad. list_all id pad \<and> length pad < 8 \<and>
        (t = 0 \<and> bs = concat (map huffman_code out) @ pad \<or>
         (\<exists>n cs a as. out = a # as \<and> 0 < t \<and> t < 15 \<and> walk_ok n t cs a \<and> bs = cs @ concat (map huffman_code as) @ pad)))"

lemma decoding_done: "decoding 0 bs [] \<longleftrightarrow> list_all id bs \<and> length bs < 8"
  by (auto simp: decoding_def)

lemma walk_nonempty: "walk_ok n t cs a \<Longrightarrow> cs \<noteq> []"
  by (cases n) (auto split: option.splits if_splits)

lemma decoding_Nil: "decoding t [] out \<Longrightarrow> t = 0 \<and> out = []"
proof (cases out)
  case (Cons a as)
  have "huffman_code a \<noteq> []" using walk_nonempty huffman_code_walk [of a] by blast
  moreover assume "decoding t [] out"
  ultimately show ?thesis using Cons walk_nonempty by (auto simp: decoding_def)
qed (auto simp: decoding_def)

text \<open>The next lookup finds the byte, or the row in which its code goes on.\<close>

lemma decoding_step:
  assumes "decoding t bs out" "\<not> (t = 0 \<and> out = [])"
  obtains (leaf) v u rest a as where "t < 15" "bs = u @ rest" "seek (HUFFMAN_ROWS ! t) u = Some (v, [])" "v AND BRANCH = 0" "unat (drop_bit 8 v) = length u" "0 < length u" "length u \<le> 8"
      "ucast v = a" "out = a # as" "decoding 0 rest as" "t = 0 \<Longrightarrow> \<not> list_all id u"
    | (branch) v u rest where "t < 15" "bs = u @ rest" "seek (HUFFMAN_ROWS ! t) u = Some (v, [])" "v AND BRANCH \<noteq> 0" "length u = 8"
      "unat (drop_bit 8 (v AND TABLE_INDEX_MASK)) \<noteq> 0" "decoding (unat (drop_bit 8 (v AND TABLE_INDEX_MASK))) rest out"
proof -
  obtain pad n cs a as where p: "list_all id pad" "length pad < 8" "out = a # as" "t < 15" "walk_ok n t cs a" "bs = cs @ concat (map huffman_code as) @ pad" "t = 0 \<Longrightarrow> \<not> list_all id cs"
  proof (cases "t = 0")
    case True
    then obtain pad a as where "list_all id pad" "length pad < 8" "out = a # as" "bs = huffman_code a @ concat (map huffman_code as) @ pad" using assms by (cases out) (auto simp: decoding_def)
    then show ?thesis using that huffman_code_walk [of a] True by auto
  next
    case False
    then show ?thesis using assms that unfolding decoding_def by blast
  qed
  obtain m where m: "n = Suc m" using p(5) by (cases n) auto
  obtain v rest where s: "seek (HUFFMAN_ROWS ! t) cs = Some (v, rest)" using p(5) m by (auto split: option.splits)
  obtain u where u: "cs = u @ rest" "seek (HUFFMAN_ROWS ! t) u = Some (v, [])" using seek_split [OF s] by blast
  let ?after = "rest @ concat (map huffman_code as) @ pad"
  show ?thesis
  proof (cases "v AND BRANCH = 0")
    case True
    then have w: "rest = []" "cs \<noteq> []" "drop_bit 8 v = of_nat (length cs)" "length cs \<le> 8" "ucast v = a" using p(5) m s by auto
    have "unat (drop_bit 8 v) = length u" using w u by (simp add: unat_of_nat take_bit_nat_eq_self)
    moreover have "decoding 0 (concat (map huffman_code as) @ pad) as" using p(1,2) by (auto simp: decoding_def)
    ultimately show ?thesis using leaf [of u "concat (map huffman_code as) @ pad" v a as] True w u p by simp
  next
    case False
    let ?t = "unat (drop_bit 8 (v AND TABLE_INDEX_MASK))"
    have w: "length cs = 8 + length rest" "?t \<noteq> 0" "?t < 15" "walk_ok m ?t rest a" using p(5) m s False by (auto simp: Let_def)
    have "decoding ?t ?after out" using p(1-3) w unfolding decoding_def by blast
    then show ?thesis using branch [of u ?after v] False w u p by simp
  qed
qed

lemma take_prefix: "length u \<le> n \<Longrightarrow> n \<le> length p \<Longrightarrow> p @ f = u @ rest \<Longrightarrow> \<exists>x. take n p = u @ x \<and> length (u @ x) = n"
  by (rule exI [of _ "drop (length u) (take n p)"]) (metis append_take_drop_id length_take min.absorb2 take_append take_take diff_is_0_eq take_0 append_Nil2 append_eq_append_conv_if min_def append_eq_conv_conj)

lemma rest_of: "length u \<le> length p \<Longrightarrow> p @ f = u @ rest \<Longrightarrow> drop (length u) p @ f = rest"
  by (metis append_eq_append_conv_if append_eq_conv_conj drop_append diff_is_0_eq drop_0)

lemma inner_decodes:
  "decoding t (pend acc bits @ f) out \<Longrightarrow> bits \<le> 32 \<Longrightarrow>
   \<exists>t' bits' buf' out'. huffman_inner t acc bits buf = Ok (t', bits', buf') \<and> bits' < 8 \<and> decoding t' (pend acc bits' @ f) out' \<and> buf @ out = buf' @ out'"
proof (induction bits arbitrary: t buf out rule: less_induct)
  case (less bits)
  show ?case
  proof (cases "bits < 8")
    case True
    then show ?thesis using less.prems by (auto simp: huffman_inner.simps [of t acc bits])
  next
    case False
    then have n: "\<not> (t = 0 \<and> out = [])" using less.prems by (auto simp: decoding_done)
    let ?i = "ucast (drop_bit (bits - 8) acc) :: u8"
    have i: "unat ?i = bits_nat (take 8 (pend acc bits))" using False less.prems by (intro index_bits) auto
    show ?thesis
    proof (cases rule: decoding_step [OF less.prems(1) n])
      case (1 v u rest a as)
      obtain x where x: "take 8 (pend acc bits) = u @ x" "length (u @ x) = 8" using take_prefix [OF 1(7) _ 1(2)] False by auto
      have e: "table_entry t ?i = Ok v" using entry_found [OF 1(1) 1(3) _ x(2)] i x(1) by simp
      have "decoding 0 (pend acc (bits - length u) @ f) as" using rest_of [OF _ 1(2)] 1(7,10) False by (simp add: pend_drop)
      from less.IH [OF _ this, of "buf @ [a]"] show ?thesis using 1 e False less.prems(2) by (auto simp: huffman_inner.simps [of t acc bits])
    next
      case (2 v u rest)
      let ?t = "unat (drop_bit 8 (v AND TABLE_INDEX_MASK))"
      obtain x where x: "take 8 (pend acc bits) = u @ x" "length (u @ x) = 8" using take_prefix [OF _ _ 2(2), of 8] 2(5) False by auto
      have e: "table_entry t ?i = Ok v" using entry_found [OF 2(1) 2(3) _ x(2)] i x(1) by simp
      have "decoding ?t (pend acc (bits - 8) @ f) out" using rest_of [OF _ 2(2)] 2(5,7) False by (simp add: pend_drop)
      from less.IH [OF _ this, of buf] show ?thesis using 2 e False less.prems(2) by (auto simp: huffman_inner.simps [of t acc bits] Let_def)
    qed
  qed
qed

lemma bytes_decode:
  "decoding t (pend acc bits @ concat (map byte_bits src)) out \<Longrightarrow> bits < 8 \<Longrightarrow>
   \<exists>t' acc' bits' buf' out'. huffman_bytes t acc bits buf src = Ok (t', acc', bits', buf') \<and> bits' < 8 \<and> decoding t' (pend acc' bits') out' \<and> buf @ out = buf' @ out'"
proof (induction src arbitrary: t acc bits buf out)
  case (Cons b src)
  let ?acc = "push_bit 8 acc OR ucast b"
  have "decoding t (pend ?acc (bits + 8) @ concat (map byte_bits src)) out" using Cons.prems by (simp add: pend_shift)
  from inner_decodes [OF this, of buf] Cons.prems(2) obtain t' bits' buf' out' where
    i: "huffman_inner t ?acc (bits + 8) buf = Ok (t', bits', buf')" "bits' < 8" "decoding t' (pend ?acc bits' @ concat (map byte_bits src)) out'" "buf @ out = buf' @ out'" by auto
  then show ?case using Cons.IH [OF i(3,2), of buf'] by (simp add: Let_def)
qed auto

lemma tail_decodes: "decoding t (pend acc bits) out \<Longrightarrow> bits < 8 \<Longrightarrow> huffman_tail t acc bits buf = Ok (0, buf @ out)"
proof (induction bits arbitrary: t buf out rule: less_induct)
  case (less bits)
  have ones: "acc AND (push_bit bits 1 - 1) = push_bit bits 1 - 1 \<longleftrightarrow> list_all id (pend acc bits)" using less.prems(2) by (intro all_ones_iff) simp
  show ?case
  proof (cases "bits = 0")
    case True
    then have "pend acc bits = []" by (simp add: pend_def)
    then show ?thesis using decoding_Nil [of t out] less.prems(1) True by (simp add: huffman_tail.simps [of 0 acc 0])
  next
    case False
    show ?thesis
    proof (cases "t = 0 \<and> out = []")
      case True
      then show ?thesis using ones less.prems by (simp add: huffman_tail.simps [of 0 acc bits] decoding_done Let_def)
    next
      case n: False
      let ?i = "ucast (push_bit (8 - bits) acc) :: u8"
      have i: "unat ?i = bits_nat (pend acc bits @ replicate (8 - bits) False)" using less.prems(2) by (intro tail_bits) simp
      show ?thesis
      proof (cases rule: decoding_step [OF less.prems(1) n])
        case (1 v u rest a as)
        have l: "bits = length u + length rest" using arg_cong [OF 1(2), of length] by simp
        then have le: "length u \<le> bits" by simp
        have "length (u @ rest @ replicate (8 - bits) False) = 8" using l less.prems(2) by simp
        from entry_found [OF 1(1) 1(3) _ this] have e: "table_entry t ?i = Ok v" using i 1(2) by simp
        have "\<not> (t = 0 \<and> list_all id (pend acc bits))" using 1(2,11) by auto
        moreover have "decoding 0 (pend acc (bits - length u)) as" using 1(2,10) le by (simp add: pend_drop)
        ultimately show ?thesis using less.IH [of "bits - length u" 0 as "buf @ [a]"] 1 e le False less.prems(2) ones
          by (simp add: huffman_tail.simps [of t acc bits] Let_def)
      next
        case (2 v u rest)
        have "bits = length u + length rest" using arg_cong [OF 2(2), of length] by simp
        then show ?thesis using 2(5) less.prems(2) by simp
      qed
    qed
  qed
qed

lemma decode_huffman_decoding:
  assumes "decoding 0 (concat (map byte_bits src)) s"
  shows "decode_huffman src = Ok s"
proof -
  have "decoding 0 (pend 0 0 @ concat (map byte_bits src)) s" using assms by (simp add: pend_def)
  from bytes_decode [OF this, of "[]"] obtain t acc bits buf out where
    b: "huffman_bytes 0 0 0 [] src = Ok (t, acc, bits, buf)" "bits < 8" "decoding t (pend acc bits) out" "s = buf @ out" by auto
  then show ?thesis using tail_decodes [OF b(3,2), of buf] by (simp add: decode_huffman_def)
qed

lemma decoding_codes: "k < 8 \<Longrightarrow> decoding 0 (concat (map huffman_code s) @ replicate k True) s"
  unfolding decoding_def by (intro exI [of _ "replicate k True"]) (simp add: list_all_iff)

text \<open>The Huffman decoder inverts the code of \<open>ENCODE_TABLE\<close>, for every string: if the bits of the input are the codes of the bytes of \<open>s\<close> followed by fewer than eight ones, the decoder, which looks
  up eight bits at a time in its 3840 entries and carries the rest over, delivers \<open>s\<close>.\<close>

theorem huffman_decodes:
  assumes "concat (map byte_bits src) = concat (map huffman_code s) @ replicate k True" and "k < 8"
  shows "decode_huffman src = Ok s"
  using decode_huffman_decoding [of src s] decoding_codes [OF assms(2), of s] assms(1) by simp

theorem huffman_decodes_witness: "decode_huffman [0x3F] = Ok [0x6F]"
proof (rule huffman_decodes [where k = 3])
  show "concat (map byte_bits [0x3F]) = concat (map huffman_code [0x6F]) @ replicate 3 True" by code_simp
qed simp

lemma inner_no_panic: "t < 15 \<Longrightarrow> huffman_inner t acc bits buf \<noteq> Panic \<and> (\<forall>t' bits' buf'. huffman_inner t acc bits buf = Ok (t', bits', buf') \<longrightarrow> t' < 15)"
proof (induction t acc bits buf rule: huffman_inner.induct)
  case (1 t acc bits buf)
  obtain v where v: "table_entry t (ucast (drop_bit (bits - 8) acc)) = Ok v" using table_entry_row [OF "1.prems"] by blast
  have "v AND BRANCH \<noteq> 0 \<Longrightarrow> unat (drop_bit 8 (v AND TABLE_INDEX_MASK)) < 15" using table_entry_ok [OF v] by (simp add: huff_entry_ok_def word_less_nat_alt)
  then show ?case using "1.IH" [OF _ v] "1.prems" v by (auto simp: huffman_inner.simps [of t acc bits] Let_def)
qed

lemma tail_no_panic: "t < 15 \<Longrightarrow> huffman_tail t acc bits buf \<noteq> Panic"
proof (induction t acc bits buf rule: huffman_tail.induct)
  case (1 t acc bits buf)
  obtain v where v: "table_entry t (ucast (push_bit (8 - bits) acc)) = Ok v" using table_entry_row [OF "1.prems"] by blast
  then show ?case using "1.IH" [OF _ refl _ v] by (auto simp: huffman_tail.simps [of t acc bits] Let_def)
qed

text \<open>No input makes the decoder index its table out of range, and it always ends.\<close>

theorem decode_huffman_no_panic: "decode_huffman src \<noteq> Panic"
proof -
  have "t < 15 \<Longrightarrow> huffman_bytes t acc bits buf src \<noteq> Panic \<and> (\<forall>t' acc' bits' buf'. huffman_bytes t acc bits buf src = Ok (t', acc', bits', buf') \<longrightarrow> t' < 15)" for t acc bits buf
  proof (induction src arbitrary: t acc bits buf)
    case (Cons b src)
    let ?acc = "push_bit 8 acc OR ucast b"
    note p = inner_no_panic [OF Cons.prems, of ?acc "bits + 8" buf]
    show ?case
    proof (cases "huffman_inner t ?acc (bits + 8) buf")
      case (Ok x)
      obtain t' bits' buf' where x: "x = (t', bits', buf')" by (cases x)
      then have "t' < 15" using p Ok by simp
      from Cons.IH [OF this] show ?thesis using Ok x by (simp add: Let_def)
    qed (use p in \<open>simp_all add: Let_def\<close>)
  qed simp
  from this [of 0 0 0 "[]"] show ?thesis using tail_no_panic
    by (cases "huffman_bytes 0 0 0 [] src") (auto simp: decode_huffman_def and_then_Panic_iff split: if_splits)
qed

end
