(* ===== verification/Hysteria_Qpack.thy ===== *)
theory Hysteria_Qpack
  imports Qpack_Huffman Stream_Parser Varint Rust_Str
begin

text \<open>
  The HTTP/3 messages of the Hysteria 2 handshake, \<^verbatim>\<open>src/protocol/hysteria/qpack.rs\<close>: the integers of QUIC and of QPACK, header strings, the static table, the reader of a
  header block and the writer of a response. Integers wrap as the release profile does; a reader is given the bytes that are left and returns what it leaves.
  Proved: the integers and a response are read back, every header block that a client without a dynamic table can write is read as what it stands for, and the one
  way the reader panics, the allocation of a length from the wire, is reached.
\<close>

unbundle bit_operations_syntax

section \<open>QUIC integers\<close>

fun quic_rest :: "nat \<Rightarrow> u64 \<Rightarrow> bytes \<Rightarrow> (u64 \<times> bytes) res" where
  "quic_rest 0 val s = Ok (val, s)"
| "quic_rest (Suc n) val s = and_then (read_u8 s) (\<lambda>(b, s). quic_rest n (push_bit 8 val OR ucast b) s)"

definition read_quic_varint :: "bytes \<Rightarrow> (u64 \<times> bytes) res" where
  "read_quic_varint s =
     and_then (read_u8 s) (\<lambda>(first, s).
       let tag = drop_bit 6 first; len = 2 ^ unat tag; val = ucast (first AND 0x3f)
       in quic_rest (len - 1) val s)"

definition write_quic_varint :: "u64 \<Rightarrow> bytes" where
  "write_quic_varint val =
     (if val \<le> 63 then [ucast val]
      else if val \<le> 16383 then [0x40 OR ucast (drop_bit 8 val), ucast val]
      else if val \<le> 1073741823
      then [0x80 OR (ucast (drop_bit 24 val) AND 0x3f), ucast (drop_bit 16 val), ucast (drop_bit 8 val), ucast val]
      else [0xc0 OR (ucast (drop_bit 56 val) AND 0x3f), ucast (drop_bit 48 val), ucast (drop_bit 40 val), ucast (drop_bit 32 val),
            ucast (drop_bit 24 val), ucast (drop_bit 16 val), ucast (drop_bit 8 val), ucast val])"

definition quic_varint_len :: "u64 \<Rightarrow> nat" where
  "quic_varint_len val = (if val \<le> 63 then 1 else if val \<le> 16383 then 2 else if val \<le> 1073741823 then 4 else 8)"

section \<open>QPACK integers and strings\<close>

text \<open>The loop over the bytes behind the prefix. The shift of a \<^verbatim>\<open>usize\<close> takes its distance modulo 64.\<close>

fun qpack_int_rest :: "u64 \<Rightarrow> nat \<Rightarrow> bytes \<Rightarrow> (u64 \<times> bytes) res" where
  "qpack_int_rest val m [] = Err UnexpectedEof"
| "qpack_int_rest val m (b # s) =
     (let val = val + push_bit (m mod 64) (ucast (b AND 0x7f))
      in if b AND 0x80 = 0 then Ok (val, s) else qpack_int_rest val (m + 7) s)"

definition read_qpack_int :: "u8 \<Rightarrow> nat \<Rightarrow> bytes \<Rightarrow> (u64 \<times> bytes) res" where
  "read_qpack_int first_byte prefix_bits s =
     (let mask = push_bit prefix_bits 1 - 1; val = ucast (first_byte AND mask)
      in if val = ucast mask then qpack_int_rest val 0 s else Ok (val, s))"

text \<open>\<^verbatim>\<open>vec![0u8; len]\<close> panics beyond \<^verbatim>\<open>isize::MAX\<close>.\<close>

definition ISIZE_MAX :: nat where "ISIZE_MAX = 2 ^ 63 - 1"

definition read_qpack_string :: "u8 \<Rightarrow> nat \<Rightarrow> bytes \<Rightarrow> (string \<times> bytes) res" where
  "read_qpack_string first_byte prefix_bits s =
     (let is_huffman = first_byte AND push_bit prefix_bits 1 \<noteq> 0
      in and_then (read_qpack_int first_byte prefix_bits s) (\<lambda>(len, s).
         if unat len > ISIZE_MAX then Panic
         else and_then (read_exact (unat len) s) (\<lambda>(raw, s).
              and_then (if is_huffman then decode_huffman raw else Ok raw) (\<lambda>bs.
              map_res (\<lambda>str. (str, s)) (ok_or InvalidData (from_utf8 bs))))))"

fun qpack_int_tail :: "nat \<Rightarrow> bytes" where
  "qpack_int_tail val = (if val \<ge> 128 then (of_nat (val mod 128) OR 0x80) # qpack_int_tail (val div 128) else [of_nat val])"

declare qpack_int_tail.simps [simp del]

definition write_qpack_int :: "u8 \<Rightarrow> nat \<Rightarrow> nat \<Rightarrow> bytes" where
  "write_qpack_int prefix prefix_bits val =
     (let max_prefix = 2 ^ prefix_bits - 1
      in if val < max_prefix then [prefix OR of_nat val]
         else (prefix OR of_nat max_prefix) # qpack_int_tail (val - max_prefix))"

definition write_qpack_literal :: "string \<Rightarrow> string \<Rightarrow> bytes" where
  "write_qpack_literal name value =
     (let name_bytes = str_bytes name; val_bytes = str_bytes value
      in write_qpack_int 0x20 3 (length name_bytes) @ name_bytes @ write_qpack_int 0x00 7 (length val_bytes) @ val_bytes)"

section \<open>Header blocks\<close>

definition QPACK_STATIC_TABLE :: "(string \<times> string) list" where
  "QPACK_STATIC_TABLE = [
    ('':authority'', ''''), ('':path'', ''/''), (''age'', ''0''), (''content-disposition'', ''''), (''content-length'', ''0''), (''cookie'', ''''),
    (''date'', ''''), (''etag'', ''''), (''if-modified-since'', ''''), (''if-none-match'', ''''), (''last-modified'', ''''), (''link'', ''''),
    (''location'', ''''), (''referer'', ''''), (''set-cookie'', ''''), ('':method'', ''CONNECT''), ('':method'', ''DELETE''), ('':method'', ''GET''),
    ('':method'', ''HEAD''), ('':method'', ''OPTIONS''), ('':method'', ''POST''), ('':method'', ''PUT''), ('':scheme'', ''http''), ('':scheme'', ''https''),
    ('':status'', ''103''), ('':status'', ''200''), ('':status'', ''304''), ('':status'', ''404''), ('':status'', ''503''), (''accept'', ''*/*''),
    (''accept'', ''application/dns-''), (''accept-encoding'', ''gzip, deflate, br''), (''accept-ranges'', ''bytes''),
    (''access-control-allow-headers'', ''cache-control''), (''access-control-allow-headers'', ''content-type''), (''access-control-allow-origin'', ''*''),
    (''cache-control'', ''max-age=0''), (''cache-control'', ''max-age=2592000''), (''cache-control'', ''max-age=604800''), (''cache-control'', ''no-cache''),
    (''cache-control'', ''no-store''), (''cache-control'', ''public, max-''), (''content-encoding'', ''br''), (''content-encoding'', ''gzip''),
    (''content-type'', ''application/dns-''), (''content-type'', ''application/''), (''content-type'', ''application/json''),
    (''content-type'', ''application/x-www-''), (''content-type'', ''image/gif''), (''content-type'', ''image/jpeg''), (''content-type'', ''image/png''),
    (''content-type'', ''text/css''), (''content-type'', ''text/html;''), (''content-type'', ''text/plain''), (''content-type'', ''text/''),
    (''range'', ''bytes=0-''), (''strict-transport-security'', ''max-age=31536000''), (''strict-transport-security'', ''max-age=31536000;''),
    (''strict-transport-security'', ''max-age=31536000;''), (''vary'', ''accept-encoding''), (''vary'', ''origin''), (''x-content-type-options'', ''nosniff''),
    (''x-xss-protection'', ''1; mode=block''), ('':status'', ''100''), ('':status'', ''204''), ('':status'', ''206''), ('':status'', ''302''),
    ('':status'', ''400''), ('':status'', ''403''), ('':status'', ''421''), ('':status'', ''425''), ('':status'', ''500''), (''accept-language'', ''''),
    (''access-control-allow-credentials'', ''FALSE''), (''access-control-allow-credentials'', ''TRUE''), (''access-control-allow-headers'', ''*''),
    (''access-control-allow-methods'', ''get''), (''access-control-allow-methods'', ''get, post, options''), (''access-control-allow-methods'', ''options''),
    (''access-control-expose-headers'', ''content-length''), (''access-control-request-headers'', ''content-type''),
    (''access-control-request-method'', ''get''), (''access-control-request-method'', ''post''), (''alt-svc'', ''clear''), (''authorization'', ''''),
    (''content-security-policy'', ''script-src 'none';''), (''early-data'', ''1''), (''expect-ct'', ''''), (''forwarded'', ''''), (''if-range'', ''''),
    (''origin'', ''''), (''purpose'', ''prefetch''), (''server'', ''''), (''timing-allow-origin'', ''*''), (''upgrade-insecure-requests'', ''1''),
    (''user-agent'', ''''), (''x-forwarded-for'', ''''), (''x-frame-options'', ''deny''), (''x-frame-options'', ''sameorigin'')]"

definition H3_FRAME_DATA :: u64 where "H3_FRAME_DATA = 0"
definition H3_FRAME_HEADERS :: u64 where "H3_FRAME_HEADERS = 1"
definition H3_FRAME_SETTINGS :: u64 where "H3_FRAME_SETTINGS = 4"
definition HYSTERIA_AUTH_HEADER :: string where "HYSTERIA_AUTH_HEADER = ''hysteria-auth''"
definition HYSTERIA_CC_RX_HEADER :: string where "HYSTERIA_CC_RX_HEADER = ''hysteria-cc-rx''"
definition HYSTERIA_PADDING_HEADER :: string where "HYSTERIA_PADDING_HEADER = ''hysteria-padding''"
definition HYSTERIA_UDP_HEADER :: string where "HYSTERIA_UDP_HEADER = ''hysteria-udp''"
definition H3_STREAM_CONTROL :: u64 where "H3_STREAM_CONTROL = 0"

definition encode_h3_control_stream :: bytes where
  "encode_h3_control_stream = write_quic_varint H3_STREAM_CONTROL @ write_quic_varint H3_FRAME_SETTINGS @ write_quic_varint 0"

record http3_request =
  h3_method :: string
  h3_path :: string
  h3_authority :: string
  h3_headers :: "(string \<times> string) list"

definition http3_default :: http3_request where
  "http3_default = \<lparr>h3_method = [], h3_path = [], h3_authority = [], h3_headers = []\<rparr>"

definition get_header :: "http3_request \<Rightarrow> string \<Rightarrow> string option" where
  "get_header req name =
     (let target = to_lowercase name
      in map_option snd (find (\<lambda>(k, v). to_lowercase k = target) (h3_headers req)))"

definition h3_host :: "http3_request \<Rightarrow> string" where
  "h3_host req =
     (if h3_authority req \<noteq> [] then h3_authority req
      else case get_header req ''host'' of Some h \<Rightarrow> h | None \<Rightarrow> [])"

definition set_field :: "string \<Rightarrow> string \<Rightarrow> http3_request \<Rightarrow> http3_request" where
  "set_field name value req =
     (if name = '':method'' then req\<lparr>h3_method := value\<rparr>
      else if name = '':path'' then req\<lparr>h3_path := value\<rparr>
      else if name = '':authority'' \<or> name = '':host'' \<or> name = ''host'' then req\<lparr>h3_authority := value\<rparr>
      else req\<lparr>h3_headers := h3_headers req @ [(name, value)]\<rparr>)"

definition indexed_line :: "u8 \<Rightarrow> http3_request \<Rightarrow> bytes \<Rightarrow> (http3_request \<times> bytes) res" where
  "indexed_line byte req s =
     (let is_static = byte AND 0x40 \<noteq> 0
      in map_res (\<lambda>(idx, s).
           (if is_static \<and> unat idx < length QPACK_STATIC_TABLE
            then case QPACK_STATIC_TABLE ! unat idx of (name, val) \<Rightarrow> set_field name val req
            else req, s)) (read_qpack_int byte 6 s))"

definition name_ref_line :: "u8 \<Rightarrow> http3_request \<Rightarrow> bytes \<Rightarrow> (http3_request \<times> bytes) res" where
  "name_ref_line byte req s =
     (let is_static = byte AND 0x10 \<noteq> 0
      in and_then (read_qpack_int byte 4 s) (\<lambda>(name_idx, s).
         let name = if is_static \<and> unat name_idx < length QPACK_STATIC_TABLE then fst (QPACK_STATIC_TABLE ! unat name_idx) else ''unknown''
         in and_then (read_u8 s) (\<lambda>(len_b, s).
            map_res (\<lambda>(value, s). (set_field name value req, s)) (read_qpack_string len_b 7 s))))"

definition literal_line :: "u8 \<Rightarrow> http3_request \<Rightarrow> bytes \<Rightarrow> (http3_request \<times> bytes) res" where
  "literal_line byte req s =
     and_then (read_qpack_string byte 3 s) (\<lambda>(name, s).
     and_then (read_u8 s) (\<lambda>(val_b, s).
     map_res (\<lambda>(value, s). (set_field name value req, s)) (read_qpack_string val_b 7 s)))"

text \<open>Every reader leaves no more than it is given.\<close>

lemma qpack_int_rest_shrinks: "qpack_int_rest val m s = Ok (v, r) \<Longrightarrow> length r < length s"
  by (induction val m s rule: qpack_int_rest.induct) (fastforce simp: Let_def split: if_splits)+

lemma read_qpack_int_shrinks: "read_qpack_int b n s = Ok (v, r) \<Longrightarrow> length r \<le> length s"
  by (auto simp: read_qpack_int_def Let_def dest: qpack_int_rest_shrinks split: if_splits)

lemma read_qpack_string_shrinks: "read_qpack_string b n s = Ok (v, r) \<Longrightarrow> length r \<le> length s"
  by (auto simp: read_qpack_string_def Let_def dest!: read_qpack_int_shrinks split: if_splits)

lemma read_u8_shrinks: "read_u8 s = Ok (b, r) \<Longrightarrow> length r < length s"
  by (cases s) auto

lemmas reader_shrinks = read_qpack_int_shrinks read_qpack_string_shrinks read_u8_shrinks

lemma indexed_line_shrinks: "indexed_line b q s = Ok (q', r) \<Longrightarrow> length r \<le> length s"
  by (auto simp: indexed_line_def Let_def dest!: reader_shrinks)

lemma name_ref_line_shrinks: "name_ref_line b q s = Ok (q', r) \<Longrightarrow> length r \<le> length s"
  by (auto simp: name_ref_line_def Let_def dest!: reader_shrinks)

lemma literal_line_shrinks: "literal_line b q s = Ok (q', r) \<Longrightarrow> length r \<le> length s"
  by (auto simp: literal_line_def dest!: reader_shrinks)

function field_lines :: "http3_request \<Rightarrow> bytes \<Rightarrow> http3_request res" where
  "field_lines req [] = Ok req"
| "field_lines req (byte # s) =
     (if byte AND 0x80 \<noteq> 0 then and_then (indexed_line byte req s) (\<lambda>(req, s). field_lines req s)
      else if byte AND 0x40 \<noteq> 0 then and_then (name_ref_line byte req s) (\<lambda>(req, s). field_lines req s)
      else if byte AND 0x20 \<noteq> 0 then and_then (literal_line byte req s) (\<lambda>(req, s). field_lines req s)
      else Ok req)"
  by pat_completeness auto
termination
  by (relation "measure (\<lambda>(req, s). length s)") (auto dest!: indexed_line_shrinks name_ref_line_shrinks literal_line_shrinks)

definition parse_qpack_headers :: "bytes \<Rightarrow> http3_request res" where
  "parse_qpack_headers payload =
     (if length payload < 2 then Err UnexpectedEof
      else and_then (read_u8 payload) (\<lambda>(first, s).
           and_then (if first AND 0xff = 0xff then qpack_int_rest (ucast (first AND 0xff)) 0 s else Ok (ucast first, s)) (\<lambda>(ric, s).
           and_then (read_u8 s) (\<lambda>(s_db, s).
           and_then (if s_db AND 0x7f = 0x7f then qpack_int_rest (ucast (s_db AND 0x7f)) 0 s else Ok (ucast (s_db AND 0x7f), s)) (\<lambda>(db, s).
           field_lines http3_default s)))))"

definition encode_h3_response :: "u16 \<Rightarrow> (string \<times> string) list \<Rightarrow> bytes" where
  "encode_h3_response status headers =
     (let qpack_payload = [0x00, 0x00] @ write_qpack_literal '':status'' (dec_string (unat status)) @
            concat (map (\<lambda>(name, value). write_qpack_literal name value) headers)
      in write_quic_varint H3_FRAME_HEADERS @ write_quic_varint (of_nat (length qpack_payload)) @ qpack_payload)"

section \<open>Integers are read back\<close>

lemma quic_rest_bytes: "length bs = n \<Longrightarrow> quic_rest n v (bs @ r) = Ok (foldl (\<lambda>acc b. push_bit 8 acc OR ucast b) v bs, r)"
  by (induction n v "bs @ r" arbitrary: bs rule: quic_rest.induct) (auto simp: length_Suc_conv)

lemma read_quic_first:
  assumes "length bs = 2 ^ unat (drop_bit 6 b) - 1"
  shows "read_quic_varint (b # bs @ r) = Ok (be_word ((b AND 0x3f) # bs), r)"
  using assms by (simp add: read_quic_varint_def Let_def quic_rest_bytes be_word_def)

lemma take_bit_small: "unat w < 2 ^ k \<Longrightarrow> take_bit k w = (w :: 'l::len word)"
  by (simp add: word_unat_eq_iff unsigned_take_bit_eq take_bit_nat_eq_self)

lemma tagged_byte:
  fixes x t :: u8
  assumes "x < 64" "t < 4"
  shows "drop_bit 6 (push_bit 6 t OR x) = t" "(push_bit 6 t OR x) AND 0x3f = x"
proof -
  have x: "take_bit 6 x = x" using assms(1) by (intro take_bit_small) (simp add: word_less_nat_alt)
  have t: "take_bit 2 t = t" using assms(2) by (intro take_bit_small) (simp add: word_less_nat_alt)
  have m: "(0x3f :: u8) = mask 6" by (simp add: mask_eq_exp_minus_1)
  have "drop_bit 6 x = 0" using x by (metis drop_bit_take_bit diff_self_eq_0 take_bit_0)
  moreover have "drop_bit 6 (push_bit 6 t) = t"
    by (subst (2) t [symmetric]) (auto intro!: bit_word_eqI simp: bit_drop_bit_eq bit_push_bit_iff bit_take_bit_iff)
  ultimately show "drop_bit 6 (push_bit 6 t OR x) = t" by (simp add: drop_bit_or)
  show "(push_bit 6 t OR x) AND 0x3f = x" unfolding m take_bit_eq_mask [symmetric] by (simp add: take_bit_push_bit x)
qed

lemma ucast_high_less: "unat val < 2 ^ (k + 6) \<Longrightarrow> (ucast (drop_bit k (val :: u64)) :: u8) < 64"
proof -
  assume "unat val < 2 ^ (k + 6)"
  then have "unat val div 2 ^ k < 64" by (simp add: power_add less_mult_imp_div_less mult.commute)
  moreover have "unat (drop_bit k val) = unat val div 2 ^ k" 
  proof -
    have "take_bit 64 (unat val) = unat val" using unsigned_less [of val, where 'a = nat] by (intro take_bit_nat_eq_self) simp
    then show ?thesis by (simp add: unsigned_drop_bit_eq) (simp add: drop_bit_eq_div)
  qed
  ultimately show ?thesis by (simp add: word_less_nat_alt unsigned_ucast_eq take_bit_eq_mod)
qed

lemma quic_tagged:
  fixes val :: u64 and t :: u8
  assumes "unat val < 2 ^ (8 * n + 6)" "Suc n = 2 ^ unat t" "t < 4"
  shows "read_quic_varint ((push_bit 6 t OR ucast (drop_bit (8 * n) val)) # tl (octets (Suc n) val) @ r) = Ok (val, r)"
proof -
  let ?x = "ucast (drop_bit (8 * n) val) :: u8"
  have x: "?x < 64" using ucast_high_less [OF assms(1)] .
  have "octets (Suc n) val = ?x # tl (octets (Suc n) val)" by (simp add: octets_def upt_rec del: upt_Suc)
  moreover have "take_bit (8 * Suc n) val = val"
    using assms(1) by (intro take_bit_small) (rule less_le_trans, assumption, simp)
  ultimately have "be_word (?x # tl (octets (Suc n) val)) = val" using be_word_octets [of "Suc n" val] by simp
  then show ?thesis using read_quic_first [of "tl (octets (Suc n) val)" "push_bit 6 t OR ?x" r] tagged_byte [OF x assms(3)] assms(2)
    by simp
qed

lemma quic_varint_length: "length (write_quic_varint val) = quic_varint_len val"
  by (simp add: write_quic_varint_def quic_varint_len_def)

lemma quic_varint_roundtrip:
  assumes "unat val < 2 ^ 62"
  shows "read_quic_varint (write_quic_varint val @ r) = Ok (val, r)"
proof -
  have o: "tl (octets (Suc 0) val) = []" "tl (octets (Suc 1) val) = [ucast val]"
    "tl (octets (Suc 3) val) = [ucast (drop_bit 16 val), ucast (drop_bit 8 val), ucast val]"
    "tl (octets (Suc 7) val) = [ucast (drop_bit 48 val), ucast (drop_bit 40 val), ucast (drop_bit 32 val),
      ucast (drop_bit 24 val), ucast (drop_bit 16 val), ucast (drop_bit 8 val), ucast val]"
    by (simp_all add: octets_def upt_rec)
  have m: "(ucast (drop_bit k val) :: u8) AND 0x3f = ucast (drop_bit k val)" if "unat val < 2 ^ (k + 6)" for k
    using tagged_byte(2) [of "ucast (drop_bit k val)" 0] ucast_high_less [OF that] by simp
  consider "val \<le> 63" | "\<not> val \<le> 63" "val \<le> 16383" | "\<not> val \<le> 63" "\<not> val \<le> 16383" "val \<le> 1073741823" | "\<not> val \<le> 63" "\<not> val \<le> 16383" "\<not> val \<le> 1073741823"
    by blast
  then show ?thesis
  proof cases
    case 1
    then have "unat val < 2 ^ (8 * 0 + 6)" by (simp add: word_le_nat_alt)
    from quic_tagged [OF this, of 0 r] show ?thesis using 1 o by (simp add: write_quic_varint_def)
  next
    case 2
    then have "unat val < 2 ^ (8 * 1 + 6)" by (simp add: word_le_nat_alt)
    from quic_tagged [OF this, of 1 r] show ?thesis using 2 o by (simp add: write_quic_varint_def)
  next
    case 3
    then have l: "unat val < 2 ^ (8 * 3 + 6)" by (simp add: word_le_nat_alt)
    from quic_tagged [OF this, of 2 r] show ?thesis using 3 o m [of 24] l by (simp add: write_quic_varint_def)
  next
    case 4
    from quic_tagged [of val 7 3 r] show ?thesis using 4 o m [of 56] assms by (simp add: write_quic_varint_def)
  qed
qed

lemma qpack_int_tail_varint: "qpack_int_tail n = varint_bytes n"
proof (induction n rule: qpack_int_tail.induct)
  case (1 n)
  have "(of_nat (n mod 128) :: u8) OR 0x80 = of_nat (n mod 128 + 128)"
  proof -
    have "(of_nat (n mod 128) :: u8) AND 0x80 = 0" using varint_one [of "n mod 128"] by simp
    then show ?thesis using disjunctive_add_eq_or by (metis of_nat_add of_nat_numeral)
  qed
  then show ?case using 1 by (simp add: qpack_int_tail.simps [of n] varint_bytes.simps [of n])
qed

lemma qpack_int_rest_varint:
  "n < 2 ^ (64 - m) \<Longrightarrow> m < 64 \<Longrightarrow> qpack_int_rest val m (varint_bytes n @ r) = Ok (val + push_bit m (of_nat n), r)"
proof (induction n arbitrary: val m rule: varint_bytes.induct)
  case (1 n)
  show ?case
  proof (cases "n < 128")
    case True
    then show ?thesis using 1 varint_one [OF True] by (simp add: varint_bytes.simps [of n])
  next
    case False
    note s = varint_next_shift [OF "1.prems"(1) False]
    have "push_bit m (of_nat (n mod 128)) + push_bit (m + 7) (of_nat (n div 128)) = push_bit m (of_nat n :: u64)"
    proof -
      have "(of_nat n :: u64) = of_nat (n mod 128) + 128 * of_nat (n div 128)" by (metis mod_mult_div_eq of_nat_add of_nat_mult of_nat_numeral)
      then show ?thesis by (simp add: push_bit_eq_mult power_add algebra_simps)
    qed
    then show ?thesis using False "1.IH" [OF False s(2,1)] "1.prems"(2) varint_low [of n] varint_high [of n]
      by (simp add: varint_bytes.simps [of n] Let_def add.assoc)
  qed
qed

text \<open>The first byte of a written integer carries the flags of its prefix; the rest is read back.\<close>

lemma qpack_int_written:
  fixes p :: u8
  assumes "p AND mask n = 0" "n < 8" "val < 2 ^ 63"
  obtains b t where "write_qpack_int p n val = b # t" "\<And>r. read_qpack_int b n (t @ r) = Ok (of_nat val, r)" "\<And>f. f AND mask n = 0 \<Longrightarrow> b AND f = p AND f"
proof -
  let ?m = "2 ^ n - 1 :: nat"
  have m: "push_bit n 1 - 1 = (mask n :: u8)" "(of_nat ?m :: u8) = mask n" by (simp_all add: mask_eq_exp_minus_1 push_bit_eq_mult)
  have le: "(2::nat) ^ n \<le> 2 ^ 7" using assms(2) by (intro power_increasing) auto
  have um: "unat (mask n :: u8) = ?m" unfolding m(2) [symmetric] using le by (intro unat_of_nat_u8) simp
  have low: "(p OR of_nat k) AND mask n = (of_nat k :: u8)" "\<And>f. f AND mask n = 0 \<Longrightarrow> (p OR of_nat k) AND f = p AND f" if "k \<le> ?m" for k
  proof -
    have "k < 2 ^ n" using that zero_less_power [of "2::nat" n] by linarith
    then have "unat (of_nat k :: u8) < 2 ^ n" using le by (subst unat_of_nat_u8) auto
    then have k: "(of_nat k :: u8) AND mask n = of_nat k" unfolding take_bit_eq_mask [symmetric] by (rule take_bit_small)
    then show "(p OR of_nat k) AND mask n = (of_nat k :: u8)" using assms(1) by (simp add: bit.conj_disj_distrib2)
    fix f :: u8 assume "f AND mask n = 0"
    moreover have "of_nat k AND f = of_nat k AND (f AND mask n)" by (subst k [symmetric]) (simp only: and.assoc and.commute [of f])
    ultimately have "of_nat k AND f = 0" by simp
    then show "(p OR of_nat k) AND f = p AND f" by (simp add: bit.conj_disj_distrib2)
  qed
  show thesis
  proof (cases "val < ?m")
    case True
    have "ucast (of_nat val :: u8) \<noteq> (ucast (mask n :: u8) :: u64)" "(ucast (of_nat val :: u8) :: u64) = of_nat val"
      using True um le by (simp_all add: word_unat_eq_iff unsigned_ucast_eq unat_of_nat_u8 take_bit_nat_eq_self unat_of_nat)
    then have "read_qpack_int (p OR of_nat val) n ([] @ r) = Ok (of_nat val, r)" for r
      unfolding read_qpack_int_def m(1) Let_def using low(1) [of val] True by simp
    then show thesis using that [of "p OR of_nat val" "[]"] True low(2) [of val] by (simp add: write_qpack_int_def)
  next
    case False
    have "(ucast (mask n :: u8) :: u64) = of_nat ?m"
      by (metis um of_nat_unat)
    then have "read_qpack_int (p OR of_nat ?m) n (qpack_int_tail (val - ?m) @ r) = Ok (of_nat val, r)" for r
      unfolding read_qpack_int_def m(1) Let_def low(1) [OF order_refl] qpack_int_tail_varint unfolding m(2)
      using qpack_int_rest_varint [of "val - ?m" 0 "of_nat ?m" r] False assms(3) by (simp flip: of_nat_add)
    then show thesis using that [of "p OR of_nat ?m" "qpack_int_tail (val - ?m)"] False low(2) [of ?m]
      by (simp add: write_qpack_int_def Let_def)
  qed
qed

section \<open>Clients\<close>

text \<open>What a client sends: the bits of the Huffman code in bytes, filled up with ones; a string in either form; and the field lines of QPACK that need no dynamic table.\<close>

function pack_bits :: "bool list \<Rightarrow> bytes" where
  "pack_bits bs = (if bs = [] then [] else of_nat (bits_nat (take 8 (bs @ replicate 7 True))) # pack_bits (drop 8 bs))"
  by pat_completeness auto
termination
  by (relation "measure length") auto

declare pack_bits.simps [simp del]

definition huffman_encode :: "bytes \<Rightarrow> bytes" where
  "huffman_encode s = pack_bits (concat (map huffman_code s))"

definition string_octets :: "bool \<Rightarrow> string \<Rightarrow> bytes" where
  "string_octets h s = (if h then huffman_encode (str_bytes s) else str_bytes s)"

definition string_literal :: "u8 \<Rightarrow> nat \<Rightarrow> bool \<Rightarrow> string \<Rightarrow> bytes" where
  "string_literal p n h s =
     (let os = string_octets h s in write_qpack_int (p OR (if h then push_bit n 1 else 0)) n (length os) @ os)"

datatype field_line =
    Indexed nat
  | Name_Ref bool nat bool string
  | Literal bool bool string bool string

text \<open>The first flag of the last two is the N bit of the standard, which asks intermediaries not to index the field.\<close>

fun line_octets :: "field_line \<Rightarrow> bytes" where
  "line_octets (Indexed i) = write_qpack_int 0xC0 6 i"
| "line_octets (Name_Ref nbit i h v) = write_qpack_int (0x50 OR (if nbit then 0x20 else 0)) 4 i @ string_literal 0 7 h v"
| "line_octets (Literal nbit hn n h v) = string_literal (0x20 OR (if nbit then 0x10 else 0)) 3 hn n @ string_literal 0 7 h v"

fun line_meaning :: "field_line \<Rightarrow> string \<times> string" where
  "line_meaning (Indexed i) = QPACK_STATIC_TABLE ! i"
| "line_meaning (Name_Ref nbit i h v) = (fst (QPACK_STATIC_TABLE ! i), v)"
| "line_meaning (Literal nbit hn n h v) = (n, v)"

definition string_ok :: "string \<Rightarrow> bool" where
  "string_ok s \<longleftrightarrow> utf8_valid (str_bytes s) \<and> length s < 2 ^ 61"

fun line_ok :: "field_line \<Rightarrow> bool" where
  "line_ok (Indexed i) = (i < 99)"
| "line_ok (Name_Ref nbit i h v) = (i < 99 \<and> string_ok v)"
| "line_ok (Literal nbit hn n h v) = (string_ok n \<and> string_ok v)"

lemma byte_bits_of_nat: "length bs = 8 \<Longrightarrow> byte_bits (of_nat (bits_nat bs)) = bs"
  by (rule nth_equalityI) (auto simp: byte_bits_def bit_word_of_nat bit_bits_nat)

lemma pack_bits_padded: "\<exists>k < 8. concat (map byte_bits (pack_bits bs)) = bs @ replicate k True"
proof (induction bs rule: pack_bits.induct)
  case (1 bs)
  show ?case
  proof (cases "length bs \<le> 8")
    case True
    show ?thesis
    proof (cases "bs = []")
      case False
      then have "length (take 8 (bs @ replicate 7 True)) = 8" by (cases bs) auto
      then have "concat (map byte_bits (pack_bits bs)) = bs @ replicate (8 - length bs) True"
        using True False by (simp add: pack_bits.simps [of bs] pack_bits.simps [of "[]"] byte_bits_of_nat min_def)
      then show ?thesis using False by (intro exI [of _ "8 - length bs"]) (cases bs; simp)
    qed (simp add: pack_bits.simps [of "[]"])
  next
    case False
    then have "bs \<noteq> []" by auto
    from "1.IH" [OF this] obtain k where "k < 8" "concat (map byte_bits (pack_bits (drop 8 bs))) = drop 8 bs @ replicate k True" by blast
    moreover have "byte_bits (of_nat (bits_nat (take 8 bs))) = take 8 bs" using False by (intro byte_bits_of_nat) simp
    ultimately show ?thesis using False by (intro exI [of _ k]) (auto simp: pack_bits.simps [of bs])
  qed
qed

lemma decode_huffman_encode: "decode_huffman (huffman_encode s) = Ok s"
proof -
  obtain k where "k < 8" "concat (map byte_bits (huffman_encode s)) = concat (map huffman_code s) @ replicate k True"
    using pack_bits_padded [of "concat (map huffman_code s)"] by (auto simp: huffman_encode_def)
  then show ?thesis using decode_huffman_decoding [of "huffman_encode s" s] decoding_codes [of k s] by simp
qed

lemma length_walk: "walk_ok n t cs a \<Longrightarrow> length cs \<le> 8 * n"
  by (induction n t cs a rule: walk_ok.induct) (auto simp: Let_def split: option.splits if_splits)

lemma length_huffman_encode: "length (huffman_encode s) \<le> 4 * length s"
proof -
  have "length (huffman_code a) \<le> 32" for a using length_walk [of 4 0 "huffman_code a" a] huffman_code_walk [of a] by simp
  then have "length (concat (map huffman_code s)) \<le> 32 * length s" by (induction s) (auto intro: add_mono order_trans)
  moreover obtain k where "k < 8" "concat (map byte_bits (huffman_encode s)) = concat (map huffman_code s) @ replicate k True"
    using pack_bits_padded [of "concat (map huffman_code s)"] by (auto simp: huffman_encode_def)
  from this(1) arg_cong [OF this(2), of length] have "8 * length (huffman_encode s) < length (concat (map huffman_code s)) + 8"
    by (simp add: length_concat comp_def sum_list_triv)
  ultimately show ?thesis by linarith
qed

lemma length_string_octets: "string_ok s \<Longrightarrow> length (string_octets h s) < 2 ^ 63"
  using length_huffman_encode [of "str_bytes s"] by (auto simp: string_ok_def string_octets_def)

lemma string_read:
  fixes p :: u8
  assumes "string_ok s" "p AND mask (Suc n) = 0" "n < 8"
  obtains b t where "string_literal p n h s = b # t" "\<And>r. read_qpack_string b n (t @ r) = Ok (s, r)" "\<And>f. f AND mask (Suc n) = 0 \<Longrightarrow> b AND f = p AND f"
proof -
  let ?os = "string_octets h s" and ?e = "push_bit n 1 :: u8"
  let ?q = "p OR (if h then ?e else 0)"
  have split: "f AND ?e = 0 \<and> f AND mask n = 0" if "f AND mask (Suc n) = 0" for f :: u8
    using that by (simp add: mask_Suc_exp bit.conj_disj_distrib push_bit_eq_mult or_eq_0_iff)
  have e: "?e AND mask n = 0" by (auto intro!: bit_word_eqI simp: bit_and_iff bit_mask_iff bit_exp_iff)
  have e0: "?e \<noteq> 0" using assms(3) by simp
  have "?q AND mask n = 0" using split [OF assms(2)] e by (simp add: bit.conj_disj_distrib2)
  moreover have "length ?os < 2 ^ 63" using assms(1) by (rule length_string_octets)
  ultimately obtain b t where b: "write_qpack_int ?q n (length ?os) = b # t" "\<And>r. read_qpack_int b n (t @ r) = Ok (of_nat (length ?os), r)"
      "\<And>f. f AND mask n = 0 \<Longrightarrow> b AND f = ?q AND f"
    using qpack_int_written [OF _ assms(3)] by blast
  have h: "b AND ?e \<noteq> 0 \<longleftrightarrow> h" using b(3) [OF e] split [OF assms(2)] e0 by (simp add: bit.conj_disj_distrib2)
  have l: "unat (of_nat (length ?os) :: u64) = length ?os" "length ?os \<le> ISIZE_MAX"
    using \<open>length ?os < 2 ^ 63\<close> by (simp_all add: unat_of_nat take_bit_nat_eq_self ISIZE_MAX_def)
  have d: "(if h then decode_huffman ?os else Ok ?os) = Ok (str_bytes s)" by (simp add: string_octets_def decode_huffman_encode)
  have "read_qpack_string b n ((t @ ?os) @ r) = Ok (s, r)" for r
    using h l d assms(1) by (simp add: read_qpack_string_def Let_def b(2) from_utf8_def string_ok_def)
  moreover have "b AND f = p AND f" if "f AND mask (Suc n) = 0" for f
    using b(3) [of f] split [OF that] by (simp add: bit.conj_disj_distrib bit.conj_disj_distrib2 and.commute)
  ultimately show thesis using that [of b "t @ ?os"] b(1) by (simp add: string_literal_def Let_def)
qed

lemma value_read:
  assumes "string_ok v"
  obtains c u where "string_literal 0 7 h v = c # u" "\<And>r. read_qpack_string c 7 (u @ r) = Ok (v, r)"
  by (rule string_read [OF assms, of 0 7 h]) (auto intro: that)

lemma length_STATIC: "length QPACK_STATIC_TABLE = 99"
  by (simp add: QPACK_STATIC_TABLE_def)

lemma field_line_read:
  assumes "line_ok l"
  shows "field_lines req (line_octets l @ r) = field_lines (case line_meaning l of (n, v) \<Rightarrow> set_field n v req) r"
proof (cases l)
  case (Indexed i)
  obtain b t where b: "write_qpack_int 0xC0 6 i = b # t" "\<And>r. read_qpack_int b 6 (t @ r) = Ok (of_nat i, r)" "\<And>f. f AND mask 6 = 0 \<Longrightarrow> b AND f = 0xC0 AND f"
    using qpack_int_written [of "0xC0" 6 i] assms Indexed by (auto simp: mask_eq_exp_minus_1)
  have "b AND 0x80 \<noteq> 0" "b AND 0x40 \<noteq> 0" using b(3) [of "0x80"] b(3) [of "0x40"] by (simp_all add: mask_eq_exp_minus_1)
  then show ?thesis using assms Indexed b(1,2) by (simp add: indexed_line_def length_STATIC unat_of_nat take_bit_nat_eq_self Let_def)
next
  case (Name_Ref nbit i h v)
  let ?p = "0x50 OR (if nbit then 0x20 else 0) :: u8"
  have p: "?p AND mask 4 = 0" by (cases nbit) (simp_all add: mask_eq_exp_minus_1)
  obtain b t where b: "write_qpack_int ?p 4 i = b # t" "\<And>r. read_qpack_int b 4 (t @ r) = Ok (of_nat i, r)" "\<And>f. f AND mask 4 = 0 \<Longrightarrow> b AND f = ?p AND f"
    using qpack_int_written [OF p, of i] assms Name_Ref by auto
  obtain c u where c: "string_literal 0 7 h v = c # u" "\<And>r. read_qpack_string c 7 (u @ r) = Ok (v, r)"
    using value_read [of v] assms Name_Ref by auto
  have "b AND 0x80 = 0" "b AND 0x40 \<noteq> 0" "b AND 0x10 \<noteq> 0" using b(3) [of "0x80"] b(3) [of "0x40"] b(3) [of "0x10"] by (simp_all add: mask_eq_exp_minus_1)
  then show ?thesis using assms Name_Ref b(1,2) c by (simp add: name_ref_line_def length_STATIC unat_of_nat take_bit_nat_eq_self Let_def)
next
  case (Literal nbit hn n h v)
  let ?p = "0x20 OR (if nbit then 0x10 else 0) :: u8"
  have p: "?p AND mask (Suc 3) = 0" by (cases nbit) (simp_all add: mask_eq_exp_minus_1)
  obtain b t where b: "string_literal ?p 3 hn n = b # t" "\<And>r. read_qpack_string b 3 (t @ r) = Ok (n, r)" "\<And>f. f AND mask (Suc 3) = 0 \<Longrightarrow> b AND f = ?p AND f"
    using string_read [OF _ p, of n] assms Literal by auto
  obtain c u where c: "string_literal 0 7 h v = c # u" "\<And>r. read_qpack_string c 7 (u @ r) = Ok (v, r)"
    using value_read [of v] assms Literal by auto
  have "b AND 0x80 = 0" "b AND 0x40 = 0" "b AND 0x20 \<noteq> 0" using b(3) [of "0x80"] b(3) [of "0x40"] b(3) [of "0x20"] by (simp_all add: mask_eq_exp_minus_1)
  then show ?thesis using Literal b(1,2) c by (simp add: literal_line_def)
qed

section \<open>Requests and responses\<close>

text \<open>What the fields stand for: the last value of each pseudo header, and the other fields in order.\<close>

definition last_value :: "string list \<Rightarrow> (string \<times> string) list \<Rightarrow> string" where
  "last_value names fs = foldl (\<lambda>d (n, v). if n \<in> set names then v else d) [] fs"

definition request_of :: "(string \<times> string) list \<Rightarrow> http3_request" where
  "request_of fs =
     \<lparr>h3_method = last_value ['':method''] fs, h3_path = last_value ['':path''] fs,
      h3_authority = last_value ['':authority'', '':host'', ''host''] fs,
      h3_headers = filter (\<lambda>(n, v). n \<notin> set ['':method'', '':path'', '':authority'', '':host'', ''host'']) fs\<rparr>"

lemma field_lines_read:
  "list_all line_ok ls \<Longrightarrow>
   field_lines (request_of fs) (concat (map line_octets ls)) = Ok (request_of (fs @ map line_meaning ls))"
proof (induction ls arbitrary: fs)
  case (Cons l ls)
  obtain n v where m: "line_meaning l = (n, v)" by (cases "line_meaning l")
  have "set_field n v (request_of fs) = request_of (fs @ [(n, v)])"
    by (simp add: set_field_def request_of_def last_value_def)
  then show ?case using Cons.IH [of "fs @ [(n, v)]"] Cons.prems m by (simp add: field_line_read)
qed simp

lemma parse_lines: "parse_qpack_headers (0 # 0 # s) = field_lines (request_of []) s"
proof -
  have "http3_default = request_of []" by (simp add: http3_default_def request_of_def last_value_def)
  then show ?thesis by (simp add: parse_qpack_headers_def)
qed



lemma write_qpack_literal_line: "write_qpack_literal n v = line_octets (Literal False False n False v)"
  by (simp add: write_qpack_literal_def string_literal_def string_octets_def Let_def)

lemma length_concat_member: "x \<in> set xss \<Longrightarrow> length x \<le> length (concat xss)"
  by (induction xss) auto

lemma dec_string_utf8: "utf8_valid (str_bytes (dec_string n))"
  using dec_string_digits [of n] by (intro ascii_utf8_valid) (auto simp: str_bytes_def list_all_iff is_digit_def word_less_nat_alt unat_of_nat_u8)

lemma status_utf8: "utf8_valid (str_bytes '':status'')"
  by (intro ascii_utf8_valid) (simp add: str_bytes_def)

lemma headers_frame_read:
  assumes "length p < 2 ^ 61"
  shows "read_quic_varint (write_quic_varint H3_FRAME_HEADERS @ write_quic_varint (of_nat (length p)) @ p) = Ok (H3_FRAME_HEADERS, write_quic_varint (of_nat (length p)) @ p) \<and>
    read_quic_varint (write_quic_varint (of_nat (length p)) @ p) = Ok (of_nat (length p), p) \<and> unat (of_nat (length p) :: u64) = length p"
proof -
  have "unat (of_nat (length p) :: u64) = length p" using assms by (simp add: unat_of_nat take_bit_nat_eq_self)
  then show ?thesis using assms by (simp add: quic_varint_roundtrip H3_FRAME_HEADERS_def)
qed

text \<open>A response is an HTTP/3 frame of headers that is read back as its status and its headers.\<close>

theorem h3_response_parsed:
  assumes "\<forall>(n, v) \<in> set headers. utf8_valid (str_bytes n) \<and> utf8_valid (str_bytes v)" and "length (encode_h3_response status headers) < 2 ^ 61"
  shows "\<exists>s len payload. read_quic_varint (encode_h3_response status headers) = Ok (H3_FRAME_HEADERS, s) \<and> read_quic_varint s = Ok (len, payload) \<and> unat len = length payload \<and>
     parse_qpack_headers payload = Ok (request_of (('':status'', dec_string (unat status)) # headers))"
proof -
  let ?fields = "('':status'', dec_string (unat status)) # headers"
  let ?ls = "map (\<lambda>(n, v). Literal False False n False v) ?fields"
  let ?payload = "0 # 0 # concat (map line_octets ?ls)"
  have e: "encode_h3_response status headers = write_quic_varint H3_FRAME_HEADERS @ write_quic_varint (of_nat (length ?payload)) @ ?payload"
    by (simp add: encode_h3_response_def Let_def write_qpack_literal_line case_prod_unfold comp_def del: line_octets.simps)
  have small: "length ?payload < 2 ^ 61" using assms(2) unfolding e by simp
  have "line_ok (Literal False False n False v)" if "(n, v) \<in> set ?fields" for n v
  proof -
    have "line_octets (Literal False False n False v) \<in> set (map line_octets ?ls)" using that by force
    from length_concat_member [OF this] have "length n < 2 ^ 61" "length v < 2 ^ 61" using small by (auto simp: string_literal_def string_octets_def)
    then show ?thesis using that assms(1) dec_string_utf8 [of "unat status"] status_utf8 by (auto simp: string_ok_def string_octets_def)
  qed
  then have "list_all line_ok ?ls" unfolding list_all_iff by (auto simp del: line_ok.simps)
  moreover have "map line_meaning ?ls = ?fields" by (auto simp: comp_def case_prod_unfold)
  ultimately have "parse_qpack_headers ?payload = Ok (request_of ?fields)" using field_lines_read [of ?ls "[]"] by (simp only: parse_lines append_Nil)
  then show ?thesis unfolding e using headers_frame_read [OF small] by blast
qed

text \<open>A string makes the reader panic exactly if its length is too large for an allocation.\<close>

lemma read_qpack_int_no_panic: "read_qpack_int b n s \<noteq> Panic"
proof -
  have "qpack_int_rest val m s \<noteq> Panic" for val m by (induction val m s rule: qpack_int_rest.induct) (auto simp: Let_def)
  then show ?thesis by (simp add: read_qpack_int_def Let_def)
qed

lemma read_qpack_string_panic_iff: "read_qpack_string b n s = Panic \<longleftrightarrow> (\<exists>len r. read_qpack_int b n s = Ok (len, r) \<and> unat len > ISIZE_MAX)"
  using read_qpack_int_no_panic [of b n s] decode_huffman_no_panic
  by (auto simp: read_qpack_string_def Let_def and_then_Panic_iff split: if_splits)

text \<open>Thirteen bytes of a request, which anybody can send before authentication, make the reader panic: the length of a name is \<open>2 ^ 63 + 7\<close>, and a vector of that length is allocated before it is
  compared with what was received.\<close>

theorem qpack_length_panics: "parse_qpack_headers [0, 0, 0x27, 0x80, 0x80, 0x80, 0x80, 0x80, 0x80, 0x80, 0x80, 0x80, 1] = Panic"
  by (simp add: parse_qpack_headers_def literal_line_def read_qpack_string_def read_qpack_int_def ISIZE_MAX_def Let_def)

end
