(* ===== verification/Spec2Isabelle.thy ===== *)
theory Spec2Isabelle
  imports Rate_Limiter Connection_Limiter Device_Limiter Ip_Cache Sniffer Proxy_Protocol Geo_Engine Router Security_Audit
    Dns_Resolver Ss_Udp
    Anytls_Session Vless_Vision Vless_Mux Grpc_Transport Tuic_V5 Http_Inbound Vmess_Server Trojan Hysteria_Qpack
begin

text \<open>
  A verification library for the Elise proxy backend (\<^verbatim>\<open>src/src\<close>, Rust).

  \<^bold>\<open>The program.\<close> Elise is the server of a family of proxy protocols. A connection passes a listener, which may read a PROXY
  protocol header and sniff the first bytes for a domain; a transport (plain, gRPC, ...) and a protocol (VLESS, AnyTLS, Shadowsocks, ...) decode
  it into requests; per-user limiters bound devices, connections and bandwidth; the audit and the router choose what happens to a
  request, with the help of geo databases and DNS; an outbound carries it on. The library follows this order. Each theory translates
  one source file or a few that belong together, keeps the names of the source where it can, and proves what the rest of the program
  relies on.

  \<^bold>\<open>Conventions\<close> (theories \<open>Prelude\<close>, \<open>Rust_Str\<close>, \<open>Rust_Net\<close>, \<open>F64\<close>). A fallible function returns \<open>'a res\<close>: \<open>Ok\<close>, \<open>Err\<close> with the
  kind of the \<^verbatim>\<open>io::Error\<close>, or \<open>Panic\<close> for an index or slice out of range. \<open>byte_at\<close> and \<open>slice\<close> are indexing with the check of Rust.
  Machine integers are words of their width where a value can wrap; lengths of data in memory are naturals. \<^verbatim>\<open>f64\<close> is a rational with
  an explicit rounding function, of which \<open>F64\<close> states and proves what the limiter needs. A \<^verbatim>\<open>String\<close> is the list of its bytes as
  characters; \<^verbatim>\<open>to_lowercase\<close> and \<^verbatim>\<open>trim\<close> act on ASCII. A \<^verbatim>\<open>HashMap\<close> is a map or an association list with distinct keys. Mutable
  objects are records that operations return updated; tasks that interleave are step relations (\<open>Connection_Limiter\<close>) or explicit
  sequences of operations. Time, randomness, the network, hash functions, regular expressions, TOML and JSON parsers are arguments.

  \<^bold>\<open>Streams.\<close> \<open>Net_Stream\<close> models a socket as the list of segments still to be read, so every way the data can be cut is covered; the
  locale \<open>byte_source\<close> states what a reader relies on and is interpreted for a socket and for \<^verbatim>\<open>PrefixedStream\<close>. \<open>Stream_Parser\<close> holds the
  calculus for headers read with \<^verbatim>\<open>read_exact\<close>: a streaming parser consumes a definite prefix, and any shorter one is \<^verbatim>\<open>UnexpectedEof\<close>.
  \<open>Varint\<close> relates the three varint codecs of the sources to one reference encoding.

  \<^bold>\<open>Limiters.\<close> \<open>Rate_Limiter\<close> (\<^verbatim>\<open>limiter/rate.rs\<close>): buckets with binary64 arithmetic; the bytes granted to a user over any interleaving
  stay within burst plus rate times time, and \<^verbatim>\<open>throttle\<close> returns. \<open>Connection_Limiter\<close> (\<^verbatim>\<open>limiter/connection.rs\<close>): a step relation of the
  lock-free counter with compare-and-swap, guards and pruning; the limit is never exceeded and the counter is the number of guards.
  \<open>Device_Limiter\<close> (\<^verbatim>\<open>limiter/device.rs\<close>): devices per user with a time window, address masks and the Redis script.
  \<open>Ip_Cache\<close> (\<^verbatim>\<open>limiter/ip_cache.rs\<close>): expiry, pruning and the file it is saved to.

  \<^bold>\<open>Connections.\<close> \<open>Proxy_Protocol\<close> (\<^verbatim>\<open>conn/proxy_protocol.rs\<close>): both versions, from streams and datagrams, with the trust decision; an
  untrusted peer never sets an address, headers are read back, data behind the header is conserved. \<open>Sniffer\<close> (\<^verbatim>\<open>conn/sniffer.rs\<close>): the
  server name of a ClientHello is found, and sniffing hands on the bytes it read.

  \<^bold>\<open>Routing.\<close> \<open>Geo_Dat\<close> and \<open>Geo_Engine\<close> (\<^verbatim>\<open>geo\<close>): the protobuf reader, the address ranges with merging and bisection, and the caches.
  The loops of \<open>Geo_Dat\<close> run on fuel, because a malformed file can make them run forever, which is proved; for well-formed files the
  fuel used is shown to be enough. \<open>Routes_Config\<close> (\<^verbatim>\<open>config/routes.rs\<close>) and \<open>Router\<close> (\<^verbatim>\<open>proxy/router/mod.rs\<close>): configuration, import of panel
  routes and the choice of the outbound. \<open>Security_Audit\<close> (\<^verbatim>\<open>security/audit.rs\<close>, \<^verbatim>\<open>resolve_target\<close> of \<^verbatim>\<open>proxy/router/outbound.rs\<close>): the black and white
  lists and the ban on private addresses, from the lines of the lists to the addresses that are dialled. \<open>Attack_Defense\<close> (\<^verbatim>\<open>security/defense.rs\<close>): the bounded table
  of failures.

  \<^bold>\<open>DNS.\<close> \<open>Dns_Wire\<close> (\<^verbatim>\<open>dns/wire.rs\<close>): queries and responses. \<open>Dns_Rules\<close> (\<^verbatim>\<open>dns/rules.rs\<close>): which rules files are accepted and which servers they choose.
  \<open>Dns_Client\<close> (\<^verbatim>\<open>dns/client.rs\<close>): queries over UDP, TCP, TLS and HTTPS. \<open>Dns_Resolver\<close> (\<^verbatim>\<open>dns/resolver.rs\<close>, \<^verbatim>\<open>dns/router.rs\<close>): the bounded cache refines an ideal
  one under any interleaving, and the rules in force follow the file.

  \<^bold>\<open>Protocols.\<close> \<open>Vless_Header\<close>, \<open>Vless_Vision\<close>, \<open>Vless_Mux\<close> (\<^verbatim>\<open>protocol/vless\<close>): the request header decodes what a client encodes and
  its refusals are characterised; the Vision flow is transparent under padding, short reads and the switch to raw data, and gives up
  encryption only for TLS 1.3; the sessions of a Mux connection do not mix. \<open>Anytls_Padding\<close>, \<open>Anytls_Session\<close> (\<^verbatim>\<open>protocol/anytls\<close>): padding
  never changes the frames, the session table keeps its invariant, each stream's worker gets exactly its payloads, and UDP-over-TCP
  framing does not depend on the chunks. \<open>Grpc_Transport\<close> (\<^verbatim>\<open>transport/grpc.rs\<close>): the stream inside a gRPC call, under flow control.

  \<^bold>\<open>Shadowsocks\<close> (\<^verbatim>\<open>protocol/shadowsocks\<close>). \<open>Ss_Crypto\<close> (\<^verbatim>\<open>crypto.rs\<close>): the chunked AEAD streams; chunks come back in order however the stream is cut, and no nonce is
  used twice. \<open>Ss2022_Stream\<close>, \<open>Ss2022\<close>, \<open>Ss2022_Udp\<close> (\<^verbatim>\<open>ss2022.rs\<close>): the 2022 edition. The reader and the writer are modelled poll by poll against a socket that cuts and
  delays as it likes: everything is delivered, nothing is lost or sent twice. The handshake lets in the users of the table and nobody else (with the exception of
  the server key, which is proved), finds them by trial or by the identity header, and accepts no connection twice. Datagrams never cause a panic and are opened to
  what the client sealed. \<open>Replay_Window\<close> and \<open>Ss_Udp\<close> (\<^verbatim>\<open>udp.rs\<close>): the bitmap accepts what its specification on sets accepts, the tables are bounded, and a
  datagram is accepted twice only in a boundary case that is characterised. Ciphers and hashes are arguments; what is assumed of them (\<open>aead_ok\<close>, \<open>tcp_ok\<close>,
  \<open>keys_separate\<close>, \<open>udp_crates_ok\<close>, \<open>salt_filter\<close>) is that opening undoes sealing with the documented lengths, that other keys do not open, and that the nonce filter
  remembers for 60 seconds; each is met by a concrete instance at which the properties are applied.

  \<^bold>\<open>TUIC\<close> (\<^verbatim>\<open>protocol/tuic/v5.rs\<close>). \<open>Tuic_Packet\<close>: addresses, fragmentation and reassembly; the defragmenter is bounded whatever is sent to it. \<open>Tuic_V5\<close>: the
  session as a sequence of streams, datagrams, timeouts and ends of associations; nothing is relayed before authentication, and a fragmented packet arrives whole in
  whatever order its fragments do.

  \<^bold>\<open>SOCKS and HTTP\<close> (\<^verbatim>\<open>protocol/socks\<close>, \<^verbatim>\<open>protocol/http\<close>). \<open>Socks\<close>: a connection from the PROXY header to the dialling, composed with the limiters and the audit, and the
  UDP association, which is shown to relay what its specification says. \<open>Http_Inbound\<close>: the proxy from the bytes of the request to the dialling; who is let in, and what a
  forwarded request contains.

  \<^bold>\<open>VMess\<close> (\<^verbatim>\<open>protocol/vmess\<close>). \<open>Vmess_Hash\<close>: the hash functions of \<^verbatim>\<open>crypto.rs\<close>, in the steps in which it computes them; its nested HMAC and its SHAKE128
  are proved equal to the definitions of the standards. \<open>Vmess_Crypto\<close>: the keys of a user and the replay filter, the headers, the chunks; when an authentication ID can be accepted twice, that
  headers are read back and cannot panic, that chunks are read back. \<open>Vmess_Server\<close>: the handshake composed with the tables of users, addresses, devices and failures, the audit and the router, and the
  two relaying tasks; who is let in, and that the session of an authentic client is relayed in both directions.

  \<^bold>\<open>Trojan\<close> (\<^verbatim>\<open>protocol/trojan/server.rs\<close>). \<open>Trojan\<close>: a connection from the hash of the password to the dialling, with the sniffer, the audit and the router; and the UDP session, in which packets
  are handled while the tasks of the sockets run: who is served, and what each socket is sent.

  \<^bold>\<open>Hysteria\<close> (\<^verbatim>\<open>protocol/hysteria\<close>). \<open>Qpack_Huffman\<close> (\<^verbatim>\<open>huffman_table.rs\<close>, \<^verbatim>\<open>decode_huffman\<close>): the tables of the Huffman code of header strings; the decoder, which looks up
  eight bits at a time, ends on every input and inverts the code. The tables are compared with each other by evaluation, through a tree for each row. \<open>Hysteria_Qpack\<close> (\<^verbatim>\<open>qpack.rs\<close>): integers, strings and header
  blocks of the HTTP/3 handshake; what a client may write is a datatype of field lines, and every sequence of them is read as the request it stands for.

  \<^bold>\<open>Bounds and fuel.\<close> Apart from \<open>Geo_Dat\<close>, every loop is a total function with a termination proof; \<open>throttle\<close> takes a number of
  turns and the theorem says how many are enough. Sizes that occur as hypotheses (65535 bytes in a frame, 255 bytes in a domain) are the
  limits of the length fields on the wire.

  \<^bold>\<open>Not modelled.\<close> Dialling and relaying, timers and cancellation of tasks, TLS and the other cryptography (third-party crates),
  the panel clients, start-up and reload, logging. Of the protocols, ShadowsocksR, the plugin transports of Shadowsocks, the sessions of Hysteria, TUIC v4, Mieru,
  Naive and RestLS are not modelled yet.
\<close>

end
